(* ===== verification/Prelude.thy ===== *)
theory Prelude
  imports Main "HOL-Library.Word" "HOL-Library.AList"
begin

text \<open>
  Shared vocabulary of the development: names for the machine types the sources use,
  the checked and saturating arithmetic of Rust's unsigned integers, results as sums,
  and the generic list facts the component theories share.

  An unsigned integer of Rust (\<open>u64\<close>, \<open>usize\<close>) is a natural number; the operations whose
  behaviour depends on the width (\<open>checked_add\<close>, \<open>saturating_add\<close>, \<open>saturating_mul\<close>) write
  the bound out, and \<open>saturating_sub\<close> is the truncated subtraction of the naturals. An
  \<open>i64\<close> is an integer. Values that cross the wire byte by byte are words of their width.
\<close>

section \<open>Types and collections\<close>

type_synonym byte = "8 word"

type_synonym u32 = "32 word"

type_synonym ('e, 'a) result = "'e + 'a"

text \<open>
  \<open>io::Error\<close> as the storage code builds it: \<open>io::Error::other\<close> with a message, or an error of
  kind \<open>InvalidInput\<close>.
\<close>

datatype io_error = Io_Other string | Io_Invalid_Input string

text \<open>
  The HTTP errors of the installation service, with the constructor names of
  \<open>error.rs\<close> and the message carried to the client; \<open>Too_Early\<close> is the status 425 that the
  VM pool builds with \<open>Error::new\<close>.
\<close>

datatype svc_error =
    Bad string
  | Forbidden string
  | Not_Found string
  | Conflict string
  | Unavailable string
  | Internal string
  | Too_Early string

text \<open>The question mark operator: an error returns at once.\<close>

definition rbind :: "('e, 'a) result \<Rightarrow> ('a \<Rightarrow> ('e, 'b) result) \<Rightarrow> ('e, 'b) result" where
  "rbind r f = (case r of Inl e \<Rightarrow> Inl e | Inr x \<Rightarrow> f x)"

lemma rbind_simps [simp]: "rbind (Inl e) f = Inl e" "rbind (Inr x) f = f x"
  by (simp_all add: rbind_def)

lemma rbind_Inr_iff: "rbind r f = Inr y \<longleftrightarrow> (\<exists>x. r = Inr x \<and> f x = Inr y)"
  by (cases r) auto

named_theorems quota_simps \<open>admission counters after one operation\<close>
named_theorems disk_simps \<open>byte-addressed reads and writes\<close>
named_theorems journal_simps \<open>journal state after one operation\<close>
named_theorems pool_simps \<open>fields of the VM pool after one critical section\<close>

section \<open>Unsigned arithmetic of a fixed width\<close>

definition u64_limit :: nat where
  "u64_limit = 2 ^ 64"

definition i64_max :: int where
  "i64_max = 2 ^ 63 - 1"

definition checked_add64 :: "nat \<Rightarrow> nat \<Rightarrow> nat option" where
  "checked_add64 a b = (if a + b < u64_limit then Some (a + b) else None)"

definition saturating_add64 :: "nat \<Rightarrow> nat \<Rightarrow> nat" where
  "saturating_add64 a b = min (a + b) (u64_limit - 1)"

definition saturating_mul64 :: "nat \<Rightarrow> nat \<Rightarrow> nat" where
  "saturating_mul64 a b = min (a * b) (u64_limit - 1)"

definition checked_add_i64 :: "int \<Rightarrow> int \<Rightarrow> int option" where
  "checked_add_i64 a b =
     (if - (2 ^ 63) \<le> a + b \<and> a + b \<le> i64_max then Some (a + b) else None)"

definition div_ceil :: "nat \<Rightarrow> nat \<Rightarrow> nat" where
  "div_ceil a b = (a + b - 1) div b"

lemma checked_add64_Some [simp]:
  "checked_add64 a b = Some c \<longleftrightarrow> c = a + b \<and> a + b < u64_limit"
  by (auto simp: checked_add64_def)

lemma checked_add64_None [simp]: "checked_add64 a b = None \<longleftrightarrow> u64_limit \<le> a + b"
  by (auto simp: checked_add64_def)

lemma saturating_add64_le: "saturating_add64 a b \<le> a + b"
  by (simp add: saturating_add64_def)

lemma saturating_add64_exact [simp]: "a + b < u64_limit \<Longrightarrow> saturating_add64 a b = a + b"
  by (simp add: saturating_add64_def)

lemma saturating_add64_bound: "saturating_add64 a b < u64_limit"
  by (simp add: saturating_add64_def u64_limit_def min_less_iff_disj)

lemma div_ceil_le_iff:
  assumes "0 < b"
  shows "div_ceil a b \<le> q \<longleftrightarrow> a \<le> q * b"
proof -
  have "(a + b - 1) div b \<le> q \<longleftrightarrow> (a + b - 1) < (q + 1) * b"
    using assms by (metis Suc_eq_plus1 div_less_iff_less_mult less_Suc_eq_le)
  then show ?thesis
    using assms by (auto simp: div_ceil_def algebra_simps)
qed

lemma less_div_ceil_iff: "0 < b \<Longrightarrow> q < div_ceil a b \<longleftrightarrow> q * b < a"
  by (metis div_ceil_le_iff not_less)

section \<open>Lists\<close>

text \<open>\<open>slice::chunks\<close>: pieces of \<open>n\<close> elements, the last one possibly shorter.\<close>

function chunks :: "nat \<Rightarrow> 'a list \<Rightarrow> 'a list list" where
  "chunks n xs = (if n = 0 \<or> xs = [] then [] else take n xs # chunks n (drop n xs))"
  by pat_completeness auto
termination
  by (relation "measure (\<lambda>(n, xs). length xs)") auto

declare chunks.simps [simp del]

lemma chunks_Nil [simp]: "chunks n [] = []"
  by (simp add: chunks.simps)

lemma chunks_step: "0 < n \<Longrightarrow> xs \<noteq> [] \<Longrightarrow> chunks n xs = take n xs # chunks n (drop n xs)"
  by (simp add: chunks.simps [of n xs])

lemma concat_chunks: "0 < n \<Longrightarrow> concat (chunks n xs) = xs"
proof (induction n xs rule: chunks.induct)
  case (1 n xs)
  then show ?case
    by (cases "xs = []") (simp_all add: chunks_step)
qed

lemma chunks_piece:
  "c \<in> set (chunks n xs) \<Longrightarrow> c \<noteq> [] \<and> length c \<le> n"
proof (induction n xs rule: chunks.induct)
  case (1 n xs)
  then show ?case
    by (cases "n = 0 \<or> xs = []") (auto simp: chunks.simps [of n xs])
qed

lemma chunks_map:
  "0 < n \<Longrightarrow> chunks n xs = map (\<lambda>i. take n (drop (i * n) xs)) [0..<div_ceil (length xs) n]"
proof (induction n xs rule: chunks.induct)
  case (1 n xs)
  show ?case
  proof (cases "xs = []")
    case True
    then show ?thesis using 1 by (simp add: div_ceil_def)
  next
    case False
    have count: "div_ceil (length xs) n = Suc (div_ceil (length xs - n) n)"
    proof (cases "n \<le> length xs")
      case True
      then obtain m where "length xs = n + m" using le_Suc_ex by blast
      then show ?thesis using 1(2) div_add_self1 [of n "m + n - 1"]
        by (simp add: div_ceil_def add.assoc)
    next
      case short: False
      then have "div_ceil (length xs) n = 1"
        using False 1(2) by (intro antisym) (auto simp: div_ceil_le_iff Suc_le_eq less_div_ceil_iff)
      then show ?thesis using short 1(2) by (simp add: div_ceil_def)
    qed
    have "chunks n (drop n xs) = map (\<lambda>i. take n (drop (i * n) (drop n xs)))
        [0..<div_ceil (length xs - n) n]"
      using 1 False by simp
    then show ?thesis
      using 1(2) False
      by (simp add: chunks_step count upt_conv_Cons map_Suc_upt [symmetric] comp_def add.commute
          del: upt_Suc)
  qed
qed

text \<open>\<open>copy_from_slice\<close> into the middle of a buffer.\<close>

definition overwrite :: "nat \<Rightarrow> 'a list \<Rightarrow> 'a list \<Rightarrow> 'a list" where
  "overwrite i ys xs = take i xs @ ys @ drop (i + length ys) xs"

lemma length_overwrite [simp]: "i + length ys \<le> length xs \<Longrightarrow> length (overwrite i ys xs) = length xs"
  by (simp add: overwrite_def)

lemma nth_overwrite:
  assumes "i + length ys \<le> length xs" "j < length xs"
  shows "overwrite i ys xs ! j = (if i \<le> j \<and> j < i + length ys then ys ! (j - i) else xs ! j)"
  using assms by (auto simp: overwrite_def nth_append min_def)

definition subrange :: "nat \<Rightarrow> nat \<Rightarrow> 'a list \<Rightarrow> 'a list" where
  "subrange i n xs = take n (drop i xs)"

lemma length_subrange [simp]: "i + n \<le> length xs \<Longrightarrow> length (subrange i n xs) = n"
  by (simp add: subrange_def)

lemma nth_subrange: "i + n \<le> length xs \<Longrightarrow> j < n \<Longrightarrow> subrange i n xs ! j = xs ! (i + j)"
  by (simp add: subrange_def)

lemma subrange_overwrite_same:
  "i + length ys \<le> length xs \<Longrightarrow> subrange i (length ys) (overwrite i ys xs) = ys"
  by (simp add: subrange_def overwrite_def)

lemma subrange_overwrite_disjoint:
  assumes "i + length ys \<le> length xs" "k + n \<le> length xs"
    and "k + n \<le> i \<or> i + length ys \<le> k"
  shows "subrange k n (overwrite i ys xs) = subrange k n xs"
proof (rule nth_equalityI)
  show "length (subrange k n (overwrite i ys xs)) = length (subrange k n xs)"
    using assms by simp
next
  fix j assume "j < length (subrange k n (overwrite i ys xs))"
  then have "j < n" using assms by simp
  then show "subrange k n (overwrite i ys xs) ! j = subrange k n xs ! j"
    using assms by (auto simp: nth_subrange nth_overwrite)
qed

lemma subrange_subrange:
  "offset + len \<le> n \<Longrightarrow> i + n \<le> length xs \<Longrightarrow>
     subrange offset len (subrange i n xs) = subrange (i + offset) len xs"
  by (simp add: subrange_def drop_take add.commute min_def)

lemma subrange_overwrite_inside:
  assumes "offset + length bytes \<le> n" "i + n \<le> length xs"
  shows "subrange i n (overwrite (i + offset) bytes xs) = overwrite offset bytes (subrange i n xs)"
  using assms by (intro nth_equalityI) (auto simp: nth_subrange nth_overwrite)

lemma sum_list_filter_le: "sum_list (map f (filter P xs)) \<le> sum_list (map (f :: 'a \<Rightarrow> nat) xs)"
  by (induction xs) auto

section \<open>Step relations\<close>

text \<open>A state machine with an invariant that its initial states have and its steps keep.\<close>

locale step_system =
  fixes start :: "'s \<Rightarrow> bool"
    and step :: "'s \<Rightarrow> 's \<Rightarrow> bool"
    and inv :: "'s \<Rightarrow> bool"
  assumes start_inv: "start s \<Longrightarrow> inv s"
    and step_inv: "step s t \<Longrightarrow> inv s \<Longrightarrow> inv t"
begin

lemma steps_inv: "step\<^sup>*\<^sup>* s t \<Longrightarrow> inv s \<Longrightarrow> inv t"
  by (induction rule: rtranclp_induct) (auto intro: step_inv)

lemma reachable_inv: "start s \<Longrightarrow> step\<^sup>*\<^sup>* s t \<Longrightarrow> inv t"
  by (blast intro: start_inv steps_inv)

end

end
