(* ===== verification/Rust_Str.thy ===== *)
theory Rust_Str
  imports Prelude
begin

text \<open>
  The string operations of Rust's standard library that the sources use. A \<open>str\<close> is its
  UTF-8 byte sequence, one \<open>char\<close> per byte, so that \<open>length\<close> is \<open>str::len\<close>. Every separator,
  prefix and class used by the sources is ASCII, for which working on bytes and on
  characters agree.
\<close>

section \<open>Character classes\<close>

definition code :: "char \<Rightarrow> nat" where
  "code c = of_char c"

definition is_digit :: "char \<Rightarrow> bool" where
  "is_digit c = (48 \<le> code c \<and> code c \<le> 57)"

definition is_upper :: "char \<Rightarrow> bool" where
  "is_upper c = (65 \<le> code c \<and> code c \<le> 90)"

definition is_lower :: "char \<Rightarrow> bool" where
  "is_lower c = (97 \<le> code c \<and> code c \<le> 122)"

definition is_alphanumeric :: "char \<Rightarrow> bool" where
  "is_alphanumeric c = (is_digit c \<or> is_upper c \<or> is_lower c)"

definition is_hexdigit :: "char \<Rightarrow> bool" where
  "is_hexdigit c = (is_digit c \<or> (65 \<le> code c \<and> code c \<le> 70) \<or> (97 \<le> code c \<and> code c \<le> 102))"

definition is_whitespace :: "char \<Rightarrow> bool" where
  "is_whitespace c = (code c \<in> {32, 9, 10, 12, 13})"

definition to_upper :: "char \<Rightarrow> char" where
  "to_upper c = (if is_lower c then char_of (code c - 32) else c)"

abbreviation "NL \<equiv> CHR 0x0A"
abbreviation "CR \<equiv> CHR 0x0D"

section \<open>Prefixes, suffixes and splitting\<close>

fun strip_prefix :: "string \<Rightarrow> string \<Rightarrow> string option" where
  "strip_prefix [] s = Some s"
| "strip_prefix (p # ps) [] = None"
| "strip_prefix (p # ps) (c # cs) = (if p = c then strip_prefix ps cs else None)"

definition starts_with :: "string \<Rightarrow> string \<Rightarrow> bool" where
  "starts_with p s = (strip_prefix p s \<noteq> None)"

definition strip_suffix :: "string \<Rightarrow> string \<Rightarrow> string option" where
  "strip_suffix p s = map_option rev (strip_prefix (rev p) (rev s))"

definition ends_with :: "string \<Rightarrow> string \<Rightarrow> bool" where
  "ends_with p s = (strip_suffix p s \<noteq> None)"

text \<open>\<open>str::split\<close> on one character: always at least one piece.\<close>

fun split_on :: "char \<Rightarrow> string \<Rightarrow> string list" where
  "split_on c [] = [[]]"
| "split_on c (x # xs) =
     (if x = c then [] # split_on c xs
      else (case split_on c xs of [] \<Rightarrow> [[x]] | p # ps \<Rightarrow> (x # p) # ps))"

definition strip_cr :: "string \<Rightarrow> string" where
  "strip_cr s = (if s \<noteq> [] \<and> last s = CR then butlast s else s)"

text \<open>
  \<open>str::lines\<close>: the pieces between newlines, each terminated piece without its carriage
  return, and no piece after a final newline.
\<close>

definition str_lines :: "string \<Rightarrow> string list" where
  "str_lines s =
     (let ps = split_on NL s
      in map strip_cr (butlast ps) @ (if last ps = [] then [] else [last ps]))"

fun join :: "string \<Rightarrow> string list \<Rightarrow> string" where
  "join sep [] = []"
| "join sep [x] = x"
| "join sep (x # y # zs) = x @ sep @ join sep (y # zs)"

fun split_ws_aux :: "string \<Rightarrow> string \<Rightarrow> string list" where
  "split_ws_aux [] acc = (if acc = [] then [] else [rev acc])"
| "split_ws_aux (c # cs) acc =
     (if is_whitespace c
      then (if acc = [] then split_ws_aux cs [] else rev acc # split_ws_aux cs [])
      else split_ws_aux cs (c # acc))"

definition split_ascii_whitespace :: "string \<Rightarrow> string list" where
  "split_ascii_whitespace s = split_ws_aux s []"

text \<open>\<open>iter.nth(i)\<close>.\<close>

definition nth_opt :: "nat \<Rightarrow> 'a list \<Rightarrow> 'a option" where
  "nth_opt i xs = (if i < length xs then Some (xs ! i) else None)"

section \<open>Numbers\<close>

definition digit_value :: "char \<Rightarrow> nat" where
  "digit_value c = code c - 48"

definition decimal :: "string \<Rightarrow> nat" where
  "decimal s = foldl (\<lambda>n c. 10 * n + digit_value c) 0 s"

text \<open>
  \<open>str::parse\<close> for an unsigned type below \<open>limit\<close>: an optional plus sign followed by at least
  one digit, and no overflow.
\<close>

definition parse_uint :: "nat \<Rightarrow> string \<Rightarrow> nat option" where
  "parse_uint limit s =
     (let ds = (if s \<noteq> [] \<and> hd s = CHR ''+'' then tl s else s)
      in if ds \<noteq> [] \<and> list_all is_digit ds \<and> decimal ds < limit
         then Some (decimal ds) else None)"

abbreviation "parse_u16 \<equiv> parse_uint (2 ^ 16)"
abbreviation "parse_u32 \<equiv> parse_uint (2 ^ 32)"
abbreviation "parse_u64 \<equiv> parse_uint (2 ^ 64)"

section \<open>Facts\<close>

lemma strip_prefix_Some [simp]: "strip_prefix p s = Some r \<longleftrightarrow> s = p @ r"
  by (induction p s rule: strip_prefix.induct) auto

lemma strip_prefix_None: "strip_prefix p s = None \<longleftrightarrow> (\<nexists>r. s = p @ r)"
  by (metis not_Some_eq strip_prefix_Some)

lemma starts_with_iff: "starts_with p s \<longleftrightarrow> (\<exists>r. s = p @ r)"
  by (auto simp: starts_with_def)

lemma strip_suffix_Some: "strip_suffix p s = Some r \<longleftrightarrow> s = r @ p"
proof -
  have "strip_suffix p s = Some r \<longleftrightarrow> rev s = rev p @ rev r"
    by (auto simp: strip_suffix_def)
  also have "\<dots> \<longleftrightarrow> s = r @ p"
    by (metis rev_append rev_rev_ident)
  finally show ?thesis .
qed

lemma ends_with_iff: "ends_with p s \<longleftrightarrow> (\<exists>r. s = r @ p)"
  by (auto simp: ends_with_def strip_suffix_Some)

lemma split_on_not_Nil [simp]: "split_on c s \<noteq> []"
  by (cases s) (auto split: list.splits)

lemma split_on_no_sep: "p \<in> set (split_on c s) \<Longrightarrow> c \<notin> set p"
  by (induction s arbitrary: p) (auto split: list.splits if_splits)

lemma split_on_append: "c \<notin> set x \<Longrightarrow> split_on c (x @ c # s) = x # split_on c s"
  by (induction x) auto

lemma split_on_single: "c \<notin> set x \<Longrightarrow> split_on c x = [x]"
  by (induction x) auto

lemma hd_split_on: "hd (split_on c s) = takeWhile (\<lambda>x. x \<noteq> c) s"
proof (induction s)
  case Nil
  then show ?case by simp
next
  case (Cons x s)
  then show ?case
    by (cases "split_on c s") auto
qed

lemma str_lines_no_newline: "l \<in> set (str_lines s) \<Longrightarrow> NL \<notin> set l"
proof -
  have "NL \<notin> set (strip_cr p)" if "NL \<notin> set p" for p
    using that by (auto simp: strip_cr_def dest: in_set_butlastD)
  then show "l \<in> set (str_lines s) \<Longrightarrow> NL \<notin> set l"
    by (auto simp: str_lines_def Let_def dest!: in_set_butlastD split_on_no_sep split: if_splits)
      (metis last_in_set split_on_no_sep split_on_not_Nil)
qed

text \<open>
  Joining lines with CRLF and a final CRLF, as every rewritten session description is built,
  and splitting them again gives the lines back.
\<close>

definition crlf_join :: "string list \<Rightarrow> string" where
  "crlf_join ls = join [CR, NL] ls @ [CR, NL]"

lemma crlf_join_Cons: "ls \<noteq> [] \<Longrightarrow> crlf_join (l # ls) = (l @ [CR]) @ NL # crlf_join ls"
  by (cases ls) (simp_all add: crlf_join_def)

lemma crlf_join_single: "crlf_join [l] = (l @ [CR]) @ NL # []"
  by (simp add: crlf_join_def)

lemma str_lines_Cons:
  assumes "NL \<notin> set x"
  shows "str_lines (x @ NL # s) = strip_cr x # str_lines s"
  using assms by (simp add: str_lines_def split_on_append Let_def)

lemma str_lines_crlf_join:
  assumes "ls \<noteq> []" "\<forall>l \<in> set ls. NL \<notin> set l"
  shows "str_lines (crlf_join ls) = ls"
  using assms
proof (induction ls rule: list_nonempty_induct)
  case (single l)
  then show ?case
    by (simp add: crlf_join_single str_lines_Cons [of "l @ [CR]" "[]", simplified])
      (simp add: strip_cr_def str_lines_def)
next
  case (cons l ls)
  then show ?case
    using str_lines_Cons [of "l @ [CR]" "crlf_join ls"]
    by (simp add: crlf_join_Cons [of ls l, simplified]) (simp add: strip_cr_def)
qed

end
