(* ===== verification/Protocol.thy ===== *)
theory Protocol
  imports Rust_Str
begin

text \<open>
  The tunnel protocol of \<open>crates/protocol/src/lib.rs\<close>: its limits, the frames, version
  negotiation, the routes and headers that may cross the tunnel, the scheduling grants of task
  authors, and the encoding of bodies. Base64 is a parameter of the body functions.
\<close>

section \<open>Limits\<close>

definition PROTOCOL_VERSION :: nat where
  "PROTOCOL_VERSION = 4"

definition MIN_PROTOCOL_VERSION :: nat where
  "MIN_PROTOCOL_VERSION = 1"

definition SUPPORTED_VERSIONS :: "nat list" where
  "SUPPORTED_VERSIONS = [PROTOCOL_VERSION, 3, 2, MIN_PROTOCOL_VERSION]"

definition MAX_BODY :: nat where
  "MAX_BODY = 8000000"

definition MAX_FRAME :: nat where
  "MAX_FRAME = div_ceil MAX_BODY 3 * 4 + 65536"

definition MAX_IN_FLIGHT :: nat where
  "MAX_IN_FLIGHT = 32"

text \<open>Durations are in nanoseconds.\<close>

definition REQUEST_TIMEOUT :: nat where
  "REQUEST_TIMEOUT = 30 * 10 ^ 9"

lemma MAX_FRAME_value: "MAX_FRAME = 10732204"
  by (simp add: MAX_FRAME_def MAX_BODY_def div_ceil_def)

section \<open>Accounts and frames\<close>

datatype role = Owner | Member

record task_author_grant =
  tg_account_id :: string
  tg_access_id :: string

record task_author_policy =
  tp_owner :: task_author_grant
  tp_members :: "task_author_grant list"

definition grant :: "task_author_policy \<Rightarrow> string \<Rightarrow> task_author_grant option" where
  "grant policy account =
     find (\<lambda>g. tg_account_id g = account) (tp_owner policy # tp_members policy)"

record api_request =
  rq_id :: string
  rq_account_id :: string
  rq_role :: role
  rq_mcp_scopes :: "string list option"
  rq_public_artifact :: "string option"
  rq_method :: string
  rq_path :: string
  rq_headers :: "(string \<times> string) list"
  rq_body :: "byte list"

record api_response =
  rs_id :: string
  rs_status :: nat
  rs_headers :: "(string \<times> string) list"
  rs_body :: "byte list"

datatype notification_kind =
    Question string
  | Alert string string string

record notification_event =
  nt_id :: string
  nt_chat_id :: string
  nt_kind :: notification_kind

section \<open>Bodies\<close>

definition body_serialize :: "(byte list \<Rightarrow> string) \<Rightarrow> byte list \<Rightarrow> string" where
  "body_serialize b64_encode bytes = b64_encode bytes"

definition body_deserialize ::
  "(string \<Rightarrow> byte list option) \<Rightarrow> string \<Rightarrow> (string, byte list) result" where
  "body_deserialize b64_decode encoded =
     (if div_ceil MAX_BODY 3 * 4 < length encoded then Inl ''Relay body is too large''
      else (case b64_decode encoded of
              None \<Rightarrow> Inl ''Invalid base64''
            | Some bytes \<Rightarrow>
                if MAX_BODY < length bytes then Inl ''Relay body is too large''
                else Inr bytes))"

section \<open>Negotiation, routes and headers\<close>

definition negotiate :: "nat list \<Rightarrow> nat option" where
  "negotiate versions = find (\<lambda>v. v \<in> set versions) SUPPORTED_VERSIONS"

definition route_of :: "string \<Rightarrow> string" where
  "route_of path = hd (split_on CHR ''?'' path)"

definition stream_path :: "string \<Rightarrow> bool" where
  "stream_path path =
     (let route = route_of path
      in ends_with ''/stream'' route \<or> starts_with ''/api/shared-artifacts/'' route)"

definition request_header :: "string \<Rightarrow> bool" where
  "request_header name =
     (name \<in> {''content-type'', ''accept'', ''range'', ''if-none-match'', ''if-modified-since'',
              ''last-event-id'', ''mcp-protocol-version'', ''mcp-method''})"

definition response_header :: "string \<Rightarrow> bool" where
  "response_header name =
     (name \<in> {''content-type'', ''content-length'', ''content-disposition'', ''etag'',
              ''last-modified'', ''accept-ranges'', ''content-range'', ''retry-after'',
              ''mcp-protocol-version'', ''www-authenticate''})"

definition local_auth_routes :: "string list" where
  "local_auth_routes = [''/api/session'', ''/api/setup'', ''/api/login'', ''/api/logout'']"

definition api_path :: "string \<Rightarrow> bool" where
  "api_path path =
     (let route = route_of path
      in starts_with ''/api/'' route
         \<and> route \<notin> set local_auth_routes
         \<and> CHR ''#'' \<notin> set route
         \<and> CHR 0x5C \<notin> set route
         \<and> \<not> list_ex (\<lambda>segment. segment = ''.'' \<or> segment = ''..'') (split_on CHR ''/'' route))"

section \<open>Properties\<close>

lemma negotiate_Some_mem: "negotiate vs = Some v \<Longrightarrow> v \<in> set vs \<and> v \<in> set SUPPORTED_VERSIONS"
  by (auto simp: negotiate_def find_Some_iff)

lemma negotiate_None: "negotiate vs = None \<longleftrightarrow> set vs \<inter> set SUPPORTED_VERSIONS = {}"
  by (auto simp: negotiate_def find_None_iff)

lemma negotiate_le:
  assumes "negotiate vs = Some v" "w \<in> set vs" "w \<in> set SUPPORTED_VERSIONS"
  shows "w \<le> v"
  using assms
  by (auto simp: negotiate_def SUPPORTED_VERSIONS_def PROTOCOL_VERSION_def
      MIN_PROTOCOL_VERSION_def split: if_splits)

text \<open>
  Version negotiation picks the highest version that both sides support, and fails exactly
  when there is none.
\<close>

theorem negotiate_highest:
  "negotiate vs =
     (let common = set vs \<inter> set SUPPORTED_VERSIONS
      in if common = {} then None else Some (Max common))"
proof (cases "negotiate vs")
  case None
  then show ?thesis by (simp add: negotiate_None)
next
  case (Some v)
  let ?c = "set vs \<inter> set SUPPORTED_VERSIONS"
  have v: "v \<in> ?c" using negotiate_Some_mem [OF Some] by simp
  moreover have "\<And>w. w \<in> ?c \<Longrightarrow> w \<le> v" using negotiate_le [OF Some] by blast
  ultimately have "Max ?c = v" by (intro Max_eqI) auto
  with v Some show ?thesis by (auto simp: Let_def)
qed

lemma route_of_query: "CHR ''?'' \<notin> set p \<Longrightarrow> route_of (p @ CHR ''?'' # q) = p"
  by (simp add: route_of_def split_on_append)

lemma route_of_plain: "CHR ''?'' \<notin> set p \<Longrightarrow> route_of p = p"
  by (simp add: route_of_def split_on_single)


lemma split_on_concat: "split_on c (x @ c # y) = split_on c x @ split_on c y"
  by (induction x) (auto split: list.splits)

lemma api_path_segments:
  assumes "api_path path" "route_of path = x @ CHR ''/'' # seg @ y"
    and "CHR ''/'' \<notin> set seg" "y = [] \<or> hd y = CHR ''/''"
  shows "seg \<noteq> ''.'' \<and> seg \<noteq> ''..''"
proof -
  have "seg \<in> set (split_on CHR ''/'' (seg @ y))"
    using assms(3,4) by (cases y) (auto simp: split_on_single split_on_append)
  then have "seg \<in> set (split_on CHR ''/'' (route_of path))"
    by (simp add: assms(2) split_on_concat)
  with assms(1) show ?thesis
    by (auto simp: api_path_def Let_def list_ex_iff)
qed

text \<open>
  A path admitted to the tunnel addresses the installation API whatever query follows it, is
  none of the local browser authentication routes, and has no segment that climbs out of the
  tree: neither inside the route nor at its end.
\<close>

theorem api_path_safe:
  assumes "api_path path"
  shows "starts_with ''/api/'' (route_of path)
    \<and> route_of path \<notin> {''/api/session'', ''/api/setup'', ''/api/login'', ''/api/logout''}
    \<and> (\<nexists>x y. route_of path = x @ ''/../'' @ y) \<and> (\<nexists>x. route_of path = x @ ''/..'')
    \<and> (\<forall>q. CHR ''?'' \<notin> set path \<longrightarrow> api_path (path @ CHR ''?'' # q))"
proof (intro conjI allI impI)
  show "starts_with ''/api/'' (route_of path)"
    and "route_of path \<notin> {''/api/session'', ''/api/setup'', ''/api/login'', ''/api/logout''}"
    using assms by (simp_all add: api_path_def Let_def local_auth_routes_def)
  show "\<nexists>x y. route_of path = x @ ''/../'' @ y"
    using api_path_segments [OF assms, where seg = "''..''"] by fastforce
  show "\<nexists>x. route_of path = x @ ''/..''"
    using api_path_segments [OF assms, where seg = "''..''" and y = "[]"] by fastforce
  show "api_path (path @ CHR ''?'' # q)" if "CHR ''?'' \<notin> set path" for q
    using assms that by (simp add: api_path_def route_of_query route_of_plain)
qed

theorem api_path_safe_witness:
  "\<not> (\<exists>x y. route_of ''/api/runs/7'' = x @ ''/../'' @ y) \<and> api_path ''/api/runs/7?tail=1''"
proof -
  have h: "api_path ''/api/runs/7''"
    by (simp add: api_path_def route_of_def starts_with_def local_auth_routes_def)
  then have "\<forall>q. CHR ''?'' \<notin> set ''/api/runs/7'' \<longrightarrow> api_path (''/api/runs/7'' @ CHR ''?'' # q)"
    using api_path_safe [OF h] by blast
  then have "api_path (''/api/runs/7'' @ CHR ''?'' # ''tail=1'')" by simp
  then show ?thesis using api_path_safe [OF h] by simp
qed

text \<open>
  A body within the limit survives the tunnel: with base64 that decodes what it encodes and
  expands three bytes to four characters, deserialising the serialised body gives the body back,
  and a longer body is refused.
\<close>

theorem body_roundtrip:
  assumes dec: "\<And>b. b64_decode (b64_encode b) = Some b"
    and len: "\<And>b. length (b64_encode b) = div_ceil (length b) 3 * 4"
  shows "body_deserialize b64_decode (body_serialize b64_encode bytes) =
    (if length bytes \<le> MAX_BODY then Inr bytes else Inl ''Relay body is too large'')"
proof (cases "length bytes \<le> MAX_BODY")
  case True
  then have "div_ceil (length bytes) 3 \<le> div_ceil MAX_BODY 3"
    by (simp add: div_ceil_def div_le_mono)
  with True show ?thesis
    by (simp add: body_deserialize_def body_serialize_def dec len)
next
  case False
  then show ?thesis
    by (simp add: body_deserialize_def body_serialize_def dec)
qed

text \<open>
  A reversible encoding with the length of base64, to instantiate the parameters: the bytes,
  then padding, then how many of the last three positions are unused.
\<close>

definition padded_encode :: "byte list \<Rightarrow> string" where
  "padded_encode b =
     (let q = div_ceil (length b) 3
      in if b = [] then []
         else map (\<lambda>w. char_of (unat w)) b @ replicate (4 * q - length b - 1) CHR 0x00
              @ [char_of (3 * q - length b)])"

definition padded_decode :: "string \<Rightarrow> byte list option" where
  "padded_decode s =
     (if s = [] then Some []
      else Some (map (\<lambda>c. of_nat (code c)) (take (3 * (length s div 4) - code (last s)) s)))"

lemma padded_length: "length (padded_encode b) = div_ceil (length b) 3 * 4"
  by (cases b) (auto simp: padded_encode_def Let_def div_ceil_def)

lemma padded_inverse: "padded_decode (padded_encode b) = Some b"
proof (cases "b = []")
  case True
  then show ?thesis by (simp add: padded_encode_def padded_decode_def div_ceil_def)
next
  case False
  let ?q = "div_ceil (length b) 3"
  have q: "length b \<le> 3 * ?q" "3 * ?q < length b + 3" "0 < ?q"
    using False by (auto simp: div_ceil_def) (cases b; simp)
  have len: "length (padded_encode b) div 4 = ?q"
    by (simp add: padded_length)
  have ne: "padded_encode b \<noteq> []" and last: "last (padded_encode b) = char_of (3 * ?q - length b)"
    using False by (simp_all add: padded_encode_def Let_def)
  have "code (last (padded_encode b)) = 3 * ?q - length b"
    using q by (simp add: last code_def)
  moreover have "take (length b) (padded_encode b) = map (\<lambda>w. char_of (unat w)) b"
    using False by (simp add: padded_encode_def Let_def)
  moreover have "(of_nat (code (char_of (unat w))) :: byte) = w" for w :: byte
    using unsigned_less [of w, where 'a = nat] by (simp add: code_def)
  ultimately show ?thesis
    using q ne by (simp add: padded_decode_def len comp_def)
qed

theorem body_roundtrip_witness:
  "body_deserialize padded_decode (body_serialize padded_encode [1, 2, 255, 0]) = Inr [1, 2, 255, 0]"
proof -
  have "length [1, 2, 255, 0 :: byte] \<le> MAX_BODY" by (simp add: MAX_BODY_def)
  then show ?thesis
    using body_roundtrip [of padded_decode padded_encode "[1, 2, 255, 0]",
        OF padded_inverse padded_length]
    by simp
qed

end
