(* ===== verification/Rust_Map.thy ===== *)
theory Rust_Map
  imports Prelude
begin

text \<open>
  The two map types of the standard library that the sources use, as association lists: a
  \<open>HashMap\<close> in insertion order (\<open>hm_\<close>) and a \<open>BTreeMap\<close> in key order (\<open>bt_\<close>). The locale
  \<open>keyed_map\<close> is the contract the components rely on; the facts on sums over entries and on
  the number of entries are proved in it once and used for both.
\<close>

section \<open>The contract of a map\<close>

locale keyed_map =
  fixes get :: "'m \<Rightarrow> 'k \<Rightarrow> 'v option"
    and ins :: "'k \<Rightarrow> 'v \<Rightarrow> 'm \<Rightarrow> 'm"
    and del :: "'k \<Rightarrow> 'm \<Rightarrow> 'm"
    and entries :: "'m \<Rightarrow> ('k \<times> 'v) list"
    and invar :: "'m \<Rightarrow> bool"
  assumes distinct_entries: "invar m \<Longrightarrow> distinct (map fst (entries m))"
    and get_entries: "invar m \<Longrightarrow> get m k = map_of (entries m) k"
    and get_ins: "invar m \<Longrightarrow> get (ins k v m) = (get m)(k \<mapsto> v)"
    and get_del: "invar m \<Longrightarrow> get (del k m) = (get m)(k := None)"
    and invar_ins: "invar m \<Longrightarrow> invar (ins k v m)"
    and invar_del: "invar m \<Longrightarrow> invar (del k m)"
begin

lemma set_entries: "invar m \<Longrightarrow> set (entries m) = {(k, v). get m k = Some v}"
  using distinct_entries [of m] by (auto simp: get_entries)

lemma set_ins:
  "invar m \<Longrightarrow> set (entries (ins k v m)) = insert (k, v) {(k', v') \<in> set (entries m). k' \<noteq> k}"
  by (auto simp: set_entries invar_ins get_ins split: if_splits)

lemma set_del:
  "invar m \<Longrightarrow> set (entries (del k m)) = {(k', v') \<in> set (entries m). k' \<noteq> k}"
  by (auto simp: set_entries invar_del get_del split: if_splits)

lemma sum_entries:
  fixes f :: "'k \<times> 'v \<Rightarrow> nat"
  assumes "invar m"
  shows "sum_list (map f (entries m)) = sum f (set (entries m))"
proof -
  have "distinct (entries m)"
    using distinct_entries [OF assms] by (simp add: distinct_map)
  then show ?thesis
    by (rule sum_list_distinct_conv_sum_set)
qed

lemma sum_del:
  fixes f :: "'k \<times> 'v \<Rightarrow> nat"
  assumes "invar m" "get m k = Some v"
  shows "sum_list (map f (entries m)) = f (k, v) + sum_list (map f (entries (del k m)))"
proof -
  have kv: "(k, v) \<in> set (entries m)"
    using assms by (simp add: set_entries)
  have "set (entries (del k m)) = set (entries m) - {(k, v)}"
    using assms by (auto simp: set_entries set_del)
  then show ?thesis
    using kv assms by (simp add: sum_entries invar_del sum.remove)
qed

lemma sum_ins_new:
  fixes f :: "'k \<times> 'v \<Rightarrow> nat"
  assumes "invar m" "get m k = None"
  shows "sum_list (map f (entries (ins k v m))) = f (k, v) + sum_list (map f (entries m))"
proof -
  have "set (entries (ins k v m)) = insert (k, v) (set (entries m))"
    using assms by (auto simp: set_entries set_ins)
  moreover have "(k, v) \<notin> set (entries m)"
    using assms by (simp add: set_entries)
  ultimately show ?thesis
    using assms by (simp add: sum_entries invar_ins)
qed

lemma sum_ins_old:
  fixes f :: "'k \<times> 'v \<Rightarrow> nat"
  assumes "invar m" "get m k = Some u"
  shows "f (k, u) + sum_list (map f (entries (ins k v m)))
       = f (k, v) + sum_list (map f (entries m))"
proof -
  let ?r = "{(k', v') \<in> set (entries m). k' \<noteq> k}"
  have fin: "finite ?r" and notin: "(k, w) \<notin> ?r" for w
    by (auto intro: finite_subset [of _ "set (entries m)"])
  have "set (entries m) = insert (k, u) ?r"
    using assms by (auto simp: set_entries)
  then have "sum f (set (entries m)) = f (k, u) + sum f ?r"
    using fin notin by (metis (no_types, lifting) sum.insert)
  moreover have "sum f (set (entries (ins k v m))) = f (k, v) + sum f ?r"
    using assms fin notin by (simp add: set_ins)
  ultimately show ?thesis
    using assms by (simp add: sum_entries invar_ins)
qed

lemma len_del: "invar m \<Longrightarrow> get m k = Some v \<Longrightarrow> length (entries m) = Suc (length (entries (del k m)))"
  using sum_del [where f = "\<lambda>_. 1" and m = m and k = k] by (simp add: sum_list_triv)

lemma len_ins_new: "invar m \<Longrightarrow> get m k = None \<Longrightarrow> length (entries (ins k v m)) = Suc (length (entries m))"
  using sum_ins_new [where f = "\<lambda>_. 1" and m = m and k = k] by (simp add: sum_list_triv)

lemma len_ins_old: "invar m \<Longrightarrow> get m k = Some u \<Longrightarrow> length (entries (ins k v m)) = length (entries m)"
  using sum_ins_old [where f = "\<lambda>_. 1" and m = m and k = k] by (simp add: sum_list_triv)

lemma sum_ge_entry:
  fixes f :: "'k \<times> 'v \<Rightarrow> nat"
  shows "invar m \<Longrightarrow> get m k = Some v \<Longrightarrow> f (k, v) \<le> sum_list (map f (entries m))"
  by (simp add: sum_del)

end

section \<open>HashMap\<close>

type_synonym ('k, 'v) hash_map = "('k \<times> 'v) list"

definition hm_get :: "('k, 'v) hash_map \<Rightarrow> 'k \<Rightarrow> 'v option" where
  "hm_get m k = map_of m k"

definition hm_insert :: "'k \<Rightarrow> 'v \<Rightarrow> ('k, 'v) hash_map \<Rightarrow> ('k, 'v) hash_map" where
  "hm_insert k v m = AList.update k v m"

definition hm_remove :: "'k \<Rightarrow> ('k, 'v) hash_map \<Rightarrow> ('k, 'v) hash_map" where
  "hm_remove k m = AList.delete k m"

definition hm_contains :: "('k, 'v) hash_map \<Rightarrow> 'k \<Rightarrow> bool" where
  "hm_contains m k = (hm_get m k \<noteq> None)"

definition hm_retain :: "('k \<Rightarrow> 'v \<Rightarrow> bool) \<Rightarrow> ('k, 'v) hash_map \<Rightarrow> ('k, 'v) hash_map" where
  "hm_retain P m = filter (\<lambda>(k, v). P k v) m"

definition hm_ok :: "('k, 'v) hash_map \<Rightarrow> bool" where
  "hm_ok m = distinct (map fst m)"

interpretation hm: keyed_map hm_get hm_insert hm_remove "\<lambda>m. m" hm_ok
  by unfold_locales
    (auto simp: hm_get_def hm_insert_def hm_remove_def hm_ok_def update_conv' delete_conv'
      distinct_update distinct_delete)

lemma hm_ok_Nil [simp]: "hm_ok []"
  by (simp add: hm_ok_def)

lemma hm_get_Nil [simp]: "hm_get [] k = None"
  by (simp add: hm_get_def)

lemma hm_ok_retain [simp]: "hm_ok m \<Longrightarrow> hm_ok (hm_retain P m)"
  by (simp add: hm_ok_def hm_retain_def distinct_map inj_on_def)

lemma hm_get_retain:
  assumes "hm_ok m"
  shows "hm_get (hm_retain P m) k =
    (case hm_get m k of None \<Rightarrow> None | Some v \<Rightarrow> if P k v then Some v else None)"
  using assms
proof (induction m)
  case Nil
  then show ?case by (simp add: hm_retain_def)
next
  case (Cons e m)
  obtain k' v' where e: "e = (k', v')" by force
  from Cons.prems e have "hm_ok m" and fresh: "hm_get m k' = None"
    by (auto simp: hm_ok_def hm_get_def map_of_eq_None_iff)
  with Cons.IH have ih: "hm_get (hm_retain P m) k =
    (case hm_get m k of None \<Rightarrow> None | Some v \<Rightarrow> if P k v then Some v else None)" by simp
  show ?case
    using ih fresh by (auto simp: e hm_retain_def hm_get_def split: option.splits)
qed

lemma length_retain_le: "length (hm_retain P m) \<le> length m"
  by (simp add: hm_retain_def)

section \<open>BTreeMap\<close>

type_synonym ('k, 'v) btree_map = "('k \<times> 'v) list"

definition bt_get :: "('k, 'v) btree_map \<Rightarrow> 'k \<Rightarrow> 'v option" where
  "bt_get m k = map_of m k"

fun bt_insert :: "'k::linorder \<Rightarrow> 'v \<Rightarrow> ('k, 'v) btree_map \<Rightarrow> ('k, 'v) btree_map" where
  "bt_insert k v [] = [(k, v)]"
| "bt_insert k v ((k', v') # m) =
     (if k < k' then (k, v) # (k', v') # m
      else if k = k' then (k, v) # m
      else (k', v') # bt_insert k v m)"

definition bt_remove :: "'k::linorder \<Rightarrow> ('k, 'v) btree_map \<Rightarrow> ('k, 'v) btree_map" where
  "bt_remove k m = filter (\<lambda>(k', _). k' \<noteq> k) m"

definition bt_retain :: "('k \<Rightarrow> 'v \<Rightarrow> bool) \<Rightarrow> ('k, 'v) btree_map \<Rightarrow> ('k, 'v) btree_map" where
  "bt_retain P m = filter (\<lambda>(k, v). P k v) m"

definition bt_ok :: "('k::linorder, 'v) btree_map \<Rightarrow> bool" where
  "bt_ok m = (sorted (map fst m) \<and> distinct (map fst m))"

lemma bt_keys_insert: "fst ` set (bt_insert k v m) = insert k (fst ` set m)"
  by (induction k v m rule: bt_insert.induct) auto

lemma bt_ok_Nil [simp]: "bt_ok []"
  by (simp add: bt_ok_def)

lemma bt_ok_Cons: "bt_ok ((k, v) # m) \<longleftrightarrow> (\<forall>k' \<in> fst ` set m. k < k') \<and> bt_ok m"
  by (auto simp: bt_ok_def less_le)

lemma bt_ok_insert: "bt_ok m \<Longrightarrow> bt_ok (bt_insert k v m)"
  by (induction k v m rule: bt_insert.induct)
    (auto simp: bt_ok_Cons bt_keys_insert)

lemma bt_get_insert: "bt_ok m \<Longrightarrow> bt_get (bt_insert k v m) = (bt_get m)(k \<mapsto> v)"
  by (induction k v m rule: bt_insert.induct)
    (auto simp: bt_ok_Cons bt_get_def fun_eq_iff)

lemma bt_ok_filter: "bt_ok m \<Longrightarrow> bt_ok (filter P m)"
  by (induction m) (auto simp: bt_ok_Cons)

lemma bt_ok_retain [simp]: "bt_ok m \<Longrightarrow> bt_ok (bt_retain P m)"
  by (simp add: bt_retain_def bt_ok_filter)

lemma bt_get_remove: "bt_get (bt_remove k m) = (bt_get m)(k := None)"
  by (induction m) (auto simp: bt_get_def bt_remove_def fun_eq_iff)

interpretation bt: keyed_map bt_get bt_insert bt_remove "\<lambda>m. m" bt_ok
proof unfold_locales
  fix m :: "('a \<times> 'b) list" and k v
  assume ok: "bt_ok m"
  then show "distinct (map fst m)" by (simp add: bt_ok_def)
  show "bt_get m k = map_of m k" by (simp add: bt_get_def)
  show "bt_get (bt_insert k v m) = (bt_get m)(k \<mapsto> v)" using ok by (rule bt_get_insert)
  show "bt_get (bt_remove k m) = (bt_get m)(k := None)" by (rule bt_get_remove)
  show "bt_ok (bt_insert k v m)" using ok by (rule bt_ok_insert)
  show "bt_ok (bt_remove k m)" using ok by (simp add: bt_remove_def bt_ok_filter)
qed

lemma bt_get_retain:
  assumes "bt_ok m"
  shows "bt_get (bt_retain P m) k =
    (case bt_get m k of None \<Rightarrow> None | Some v \<Rightarrow> if P k v then Some v else None)"
  using hm_get_retain [of m P k] assms
  by (simp add: hm_get_def bt_get_def hm_retain_def bt_retain_def hm_ok_def bt_ok_def)

lemmas map_specs =
  hm.get_ins hm.get_del hm.invar_ins hm.invar_del
  bt.get_ins bt.get_del bt.invar_ins bt.invar_del

end
