(* ===== verification/Data_Channel.thy ===== *)
theory Data_Channel
  imports Protocol Rust_Map "HOL-Library.Monad_Syntax"
begin

text \<open>
  The binary envelopes of \<open>crates/protocol/src/data_channel.rs\<close>: fragmentation of a frame into
  packets, the reassembly budget that all peers of an installation share, and the decoder of one
  peer. The JSON text of a frame is opaque: \<open>to_vec\<close>, \<open>from_slice\<close> and the events of the streaming
  parser are parameters. The shared budget is passed explicitly; an underflow of a counter or
  an \<open>unwrap\<close> on a missing entry is the value \<open>None\<close>, so that \<open>Some\<close> says the code does not
  panic. The growth policy of the byte buffer's allocation is not modelled.
\<close>

section \<open>Packets\<close>

definition MAX_PACKET :: nat where
  "MAX_PACKET = 16384"

definition HEADER :: nat where
  "HEADER = 13"

definition REASSEMBLY_REJECTION_HEADER :: string where
  "REASSEMBLY_REJECTION_HEADER = ''x-cairn-direct-rejection''"

definition to_be_bytes :: "u32 \<Rightarrow> byte list" where
  "to_be_bytes w =
     [of_nat (unat w div 2 ^ 24), of_nat (unat w div 2 ^ 16), of_nat (unat w div 2 ^ 8),
      of_nat (unat w)]"

definition from_be_bytes :: "byte list \<Rightarrow> u32" where
  "from_be_bytes bs = of_nat (foldl (\<lambda>n b. n * 256 + unat b) 0 bs)"

record encoded_frame =
  ef_id :: u32
  ef_bytes :: "byte list"

definition encoded_new ::
  "('f \<Rightarrow> byte list option) \<Rightarrow> u32 \<Rightarrow> 'f \<Rightarrow> (string, encoded_frame) result" where
  "encoded_new to_vec tid frame =
     (case to_vec frame of
        None \<Rightarrow> Inl ''Invalid application frame''
      | Some bytes \<Rightarrow>
          if tid = 0 \<or> MAX_FRAME < length bytes then Inl ''Application frame too large''
          else Inr \<lparr>ef_id = tid, ef_bytes = bytes\<rparr>)"

definition packet_at :: "encoded_frame \<Rightarrow> nat \<Rightarrow> byte list \<Rightarrow> byte list" where
  "packet_at ef index chunk =
     1 # to_be_bytes (ef_id ef) @ to_be_bytes (of_nat (length (ef_bytes ef)))
       @ to_be_bytes (of_nat (index * (MAX_PACKET - HEADER))) @ chunk"

definition packets :: "encoded_frame \<Rightarrow> byte list list" where
  "packets ef =
     map (\<lambda>(index, chunk). packet_at ef index chunk)
       (enumerate 0 (chunks (MAX_PACKET - HEADER) (ef_bytes ef)))"

section \<open>The shared reassembly budget\<close>

record reservations =
  rv_total :: nat
  rv_members :: nat
  rv_accounts :: "(string, nat) hash_map"

record budget =
  bg_account :: string
  bg_member :: bool

record reservation =
  rn_budget :: budget
  rn_bytes :: nat

datatype decode_error = Busy | Rejected "string option" | Invalid string

definition for_account :: "string \<Rightarrow> role \<Rightarrow> budget" where
  "for_account account role = \<lparr>bg_account = account, bg_member = (role = Member)\<rparr>"

definition account_reserved :: "reservations \<Rightarrow> string \<Rightarrow> nat" where
  "account_reserved r a = (case hm_get (rv_accounts r) a of None \<Rightarrow> 0 | Some n \<Rightarrow> n)"

definition reserve ::
  "budget \<Rightarrow> nat \<Rightarrow> reservations \<Rightarrow> (decode_error, reservation \<times> reservations) result" where
  "reserve b bytes r =
     (let account = account_reserved r (bg_account b)
      in if 2 * MAX_FRAME < rv_total r + bytes \<or> MAX_FRAME < account + bytes
            \<or> (bg_member b \<and> MAX_FRAME < rv_members r + bytes)
         then Inl Busy
         else Inr (\<lparr>rn_budget = b, rn_bytes = bytes\<rparr>,
                   r\<lparr>rv_total := rv_total r + bytes,
                     rv_members := (if bg_member b then rv_members r + bytes else rv_members r),
                     rv_accounts := hm_insert (bg_account b) (account + bytes) (rv_accounts r)\<rparr>))"

definition checked_sub :: "nat \<Rightarrow> nat \<Rightarrow> nat option" where
  "checked_sub a b = (if b \<le> a then Some (a - b) else None)"

text \<open>\<open>Drop for Reservation\<close>.\<close>

definition release :: "reservation \<Rightarrow> reservations \<Rightarrow> reservations option" where
  "release rn r =
     (let b = rn_budget rn; bytes = rn_bytes rn in
      do {
        tot \<leftarrow> checked_sub (rv_total r) bytes;
        members \<leftarrow> (if bg_member b then checked_sub (rv_members r) bytes else Some (rv_members r));
        held \<leftarrow> hm_get (rv_accounts r) (bg_account b);
        account \<leftarrow> checked_sub held bytes;
        Some (r\<lparr>rv_total := tot, rv_members := members,
                rv_accounts := (if account = 0 then hm_remove (bg_account b) (rv_accounts r)
                                else hm_insert (bg_account b) account (rv_accounts r))\<rparr>)
      })"

section \<open>The decoder of one peer\<close>

record discarded =
  di_total :: nat
  di_received :: nat

record assembly =
  as_reservation :: reservation
  as_total :: nat
  as_bytes :: "byte list"
  as_last_progress :: nat

record decoder =
  dc_pending :: "(u32, assembly) hash_map"
  dc_discarded :: "(u32, discarded) hash_map"
  dc_buffered :: nat
  dc_budget :: budget

definition with_budget :: "budget \<Rightarrow> decoder" where
  "with_budget b = \<lparr>dc_pending = [], dc_discarded = [], dc_buffered = 0, dc_budget = b\<rparr>"

type_synonym channel = "decoder \<times> reservations"

definition expired :: "nat \<Rightarrow> assembly \<Rightarrow> bool" where
  "expired now f = (\<not> now - as_last_progress f < REQUEST_TIMEOUT)"

definition expire_one :: "u32 \<times> assembly \<Rightarrow> channel \<Rightarrow> channel option" where
  "expire_one = (\<lambda>(tid, f) (d, r). do {
     buffered \<leftarrow> checked_sub (dc_buffered d) (length (as_bytes f));
     r' \<leftarrow> release (as_reservation f) r;
     Some (d\<lparr>dc_pending := hm_remove tid (dc_pending d),
             dc_buffered := buffered,
             dc_discarded := hm_insert tid \<lparr>di_total = as_total f, di_received = length (as_bytes f)\<rparr>
                               (dc_discarded d)\<rparr>, r')
   })"

fun expire_all :: "(u32 \<times> assembly) list \<Rightarrow> channel \<Rightarrow> channel option" where
  "expire_all [] c = Some c"
| "expire_all (e # es) c = do { c' \<leftarrow> expire_one e c; expire_all es c' }"

definition expire :: "nat \<Rightarrow> channel \<Rightarrow> channel option" where
  "expire now c = expire_all (filter (\<lambda>(tid, f). expired now f) (dc_pending (fst c))) c"

type_synonym 'f push_result = "(decode_error, 'f option) result \<times> channel"

definition decoded :: "(byte list \<Rightarrow> 'f option) \<Rightarrow> byte list \<Rightarrow> (decode_error, 'f option) result" where
  "decoded from_slice bytes =
     (case from_slice bytes of
        None \<Rightarrow> Inl (Invalid ''Invalid application frame'')
      | Some f \<Rightarrow> Inr (Some f))"

text \<open>A header with total and offset zero and no payload aborts the transfer.\<close>

definition abort_transfer :: "u32 \<Rightarrow> channel \<Rightarrow> 'f push_result option" where
  "abort_transfer tid = (\<lambda>(d, r).
     case hm_get (dc_pending d) tid of
       None \<Rightarrow> Some (Inr None, d\<lparr>dc_discarded := hm_remove tid (dc_discarded d)\<rparr>, r)
     | Some f \<Rightarrow> do {
         buffered \<leftarrow> checked_sub (dc_buffered d) (length (as_bytes f));
         r' \<leftarrow> release (as_reservation f) r;
         Some (Inr None, d\<lparr>dc_pending := hm_remove tid (dc_pending d), dc_buffered := buffered,
                           dc_discarded := hm_remove tid (dc_discarded d)\<rparr>, r')
       })"

definition drain_discarded ::
  "u32 \<Rightarrow> discarded \<Rightarrow> nat \<Rightarrow> nat \<Rightarrow> byte list \<Rightarrow> channel \<Rightarrow> 'f push_result option" where
  "drain_discarded tid x tot offset payload = (\<lambda>(d, r).
     if di_total x \<noteq> tot \<or> di_received x \<noteq> offset
     then Some (Inl (Invalid ''Invalid discarded fragment sequence''), d, r)
     else let received = di_received x + length payload
          in Some (Inr None,
                   d\<lparr>dc_discarded :=
                       (if received = tot then hm_remove tid (dc_discarded d)
                        else hm_insert tid (x\<lparr>di_received := received\<rparr>) (dc_discarded d))\<rparr>, r))"

definition extend_transfer ::
  "(byte list \<Rightarrow> 'f option) \<Rightarrow> nat \<Rightarrow> u32 \<Rightarrow> nat \<Rightarrow> nat \<Rightarrow> byte list \<Rightarrow> channel \<Rightarrow>
   'f push_result option" where
  "extend_transfer from_slice now tid tot offset payload = (\<lambda>(d, r).
     case hm_get (dc_pending d) tid of
       None \<Rightarrow> Some (Inl (Invalid ''Unknown transfer''), d, r)
     | Some f \<Rightarrow>
         if as_total f \<noteq> tot \<or> length (as_bytes f) \<noteq> offset
         then Some (Inl (Invalid ''Invalid fragment sequence''), d, r)
         else
           let bytes = as_bytes f @ payload;
               f' = f\<lparr>as_bytes := bytes, as_last_progress := now\<rparr>;
               buffered = dc_buffered d + length payload
           in if length bytes \<noteq> tot
              then Some (Inr None,
                         d\<lparr>dc_pending := hm_insert tid f' (dc_pending d), dc_buffered := buffered\<rparr>, r)
              else do {
                left \<leftarrow> checked_sub buffered (length bytes);
                r' \<leftarrow> release (as_reservation f) r;
                Some (decoded from_slice bytes,
                      d\<lparr>dc_pending := hm_remove tid (dc_pending d), dc_buffered := left\<rparr>, r')
              })"

definition start_transfer ::
  "(byte list \<Rightarrow> 'f option) \<Rightarrow> (byte list \<Rightarrow> string option) \<Rightarrow> nat \<Rightarrow> u32 \<Rightarrow> nat \<Rightarrow> byte list \<Rightarrow>
   channel \<Rightarrow> 'f push_result option" where
  "start_transfer from_slice prefix now tid tot payload = (\<lambda>(d, r).
     if hm_contains (dc_pending d) tid
        \<or> MAX_IN_FLIGHT \<le> length (dc_pending d) + length (dc_discarded d)
     then Some (Inl (Invalid ''Too many incomplete transfers''), d, r)
     else if bg_member (dc_budget d) \<and> length payload = tot
     then Some (decoded from_slice payload, d, r)
     else
       let reserved = sum_list (map (\<lambda>(_, f). as_total f) (dc_pending d));
           reservation = (if MAX_FRAME < reserved + tot then Inl Busy
                          else reserve (dc_budget d) tot r)
       in case reservation of
            Inl e \<Rightarrow>
              if e = Busy \<and> (bg_member (dc_budget d) \<or> dc_pending d \<noteq> [])
              then Some (Inl (Rejected (prefix payload)),
                         (if length payload < tot
                          then d\<lparr>dc_discarded :=
                                   hm_insert tid \<lparr>di_total = tot, di_received = length payload\<rparr>
                                     (dc_discarded d)\<rparr>
                          else d), r)
              else Some (Inl e, d, r)
          | Inr (rn, r') \<Rightarrow>
              extend_transfer from_slice now tid tot 0 payload
                (d\<lparr>dc_pending :=
                     hm_insert tid \<lparr>as_reservation = rn, as_total = tot, as_bytes = [],
                                   as_last_progress = now\<rparr> (dc_pending d)\<rparr>, r'))"

definition packet_id :: "byte list \<Rightarrow> u32" where
  "packet_id packet = from_be_bytes (subrange 1 4 packet)"

definition push_fragment ::
  "(byte list \<Rightarrow> 'f option) \<Rightarrow> (byte list \<Rightarrow> string option) \<Rightarrow> nat \<Rightarrow> byte list \<Rightarrow> channel \<Rightarrow>
   'f push_result option" where
  "push_fragment from_slice prefix now packet c =
     (if length packet < HEADER \<or> MAX_PACKET < length packet \<or> hd packet \<noteq> 1
      then Some (Inl (Invalid ''Invalid DataChannel fragment''), c)
      else
        let tid = packet_id packet;
            tot = unat (from_be_bytes (subrange 5 4 packet));
            offset = unat (from_be_bytes (subrange 9 4 packet));
            payload = drop HEADER packet
        in if tid = 0 \<or> MAX_FRAME < tot then Some (Inl (Invalid ''Invalid transfer size''), c)
           else if tot = 0 \<and> offset = 0 \<and> payload = [] then abort_transfer tid c
           else if payload = [] \<or> tot < offset + length payload
           then Some (Inl (Invalid ''DataChannel reassembly limit exceeded''), c)
           else (case hm_get (dc_discarded (fst c)) tid of
                   Some x \<Rightarrow> drain_discarded tid x tot offset payload c
                 | None \<Rightarrow>
                     if offset = 0
                     then start_transfer from_slice prefix now tid tot payload c
                     else extend_transfer from_slice now tid tot offset payload c))"

definition push ::
  "(byte list \<Rightarrow> 'f option) \<Rightarrow> (byte list \<Rightarrow> string option) \<Rightarrow> nat \<Rightarrow> byte list \<Rightarrow> channel \<Rightarrow>
   'f push_result option" where
  "push from_slice prefix now packet c =
     do { c' \<leftarrow> expire now c; push_fragment from_slice prefix now packet c' }"

text \<open>
  \<open>request_id_prefix\<close>: the visitor over the entries that the streaming parser yields. An entry
  is a key with the result of reading its value as a string and of skipping it; reading stops
  at the first failure.
\<close>

record map_entry =
  me_key :: string
  me_string :: "string option"
  me_skippable :: bool

fun visit_map :: "string option \<Rightarrow> string option \<Rightarrow> map_entry list \<Rightarrow> string option" where
  "visit_map kind tid [] = None"
| "visit_map kind tid (e # es) =
     (let step = (if me_key e = ''type'' then map_option (\<lambda>s. (Some s, tid)) (me_string e)
                  else if me_key e = ''id'' then map_option (\<lambda>s. (kind, Some s)) (me_string e)
                  else if me_skippable e then Some (kind, tid) else None)
      in case step of
           None \<Rightarrow> None
         | Some (Some k, Some i) \<Rightarrow>
             if k = ''request'' \<and> i \<noteq> [] \<and> length i \<le> 128 then Some i else None
         | Some (k, i) \<Rightarrow> visit_map k i es)"

definition request_id_prefix :: "(byte list \<Rightarrow> map_entry list) \<Rightarrow> byte list \<Rightarrow> string option" where
  "request_id_prefix entries packet = visit_map None None (entries packet)"

text \<open>A closed peer drops its decoder and with it every reservation.\<close>

fun release_all :: "reservation list \<Rightarrow> reservations \<Rightarrow> reservations option" where
  "release_all [] r = Some r"
| "release_all (rn # rns) r = do { r' \<leftarrow> release rn r; release_all rns r' }"

definition drop_decoder :: "channel \<Rightarrow> reservations option" where
  "drop_decoder = (\<lambda>(d, r). release_all (map (\<lambda>(_, f). as_reservation f) (dc_pending d)) r)"

end
