(* ===== verification/Reassembly.thy ===== *)
theory Reassembly
  imports Data_Channel
begin

text \<open>
  Proofs about the reassembly of DataChannel frames. The interface between the peers' decoders
  and the shared budget is the locale \<open>shared_ledger\<close>: every holder's reserved bytes are an
  entry, taking and giving bytes back change one entry and a holder of nothing may come and go.
  The invariant of a decoder relates its pending transfers to its entry; every packet is
  handled without a panic and keeps it. The peers of an installation are a step relation.
\<close>

section \<open>The ledger contract\<close>

locale shared_ledger =
  fixes ok :: "'r \<Rightarrow> ('h \<times> nat) list \<Rightarrow> bool"
    and take_bytes :: "'h \<Rightarrow> nat \<Rightarrow> 'r \<Rightarrow> 'r option"
    and give_bytes :: "'h \<Rightarrow> nat \<Rightarrow> 'r \<Rightarrow> 'r option"
  assumes take_ok: "ok r (xs @ (h, n) # ys) \<Longrightarrow> take_bytes h b r = Some r' \<Longrightarrow>
      ok r' (xs @ (h, n + b) # ys)"
    and give_ok: "ok r (xs @ (h, n + b) # ys) \<Longrightarrow> 0 < b \<Longrightarrow>
      \<exists>r'. give_bytes h b r = Some r' \<and> ok r' (xs @ (h, n) # ys)"
    and holder_idle: "ok r (xs @ (h, 0) # ys) \<longleftrightarrow> ok r (xs @ ys)"
begin

fun give_list :: "'h \<Rightarrow> nat list \<Rightarrow> 'r \<Rightarrow> 'r option" where
  "give_list h [] r = Some r"
| "give_list h (b # bs) r = Option.bind (give_bytes h b r) (give_list h bs)"

lemma give_list_ok:
  assumes "ok r (xs @ (h, n + sum_list bs) # ys)" "\<forall>b \<in> set bs. 0 < b"
  shows "\<exists>r'. give_list h bs r = Some r' \<and> ok r' (xs @ (h, n) # ys)"
  using assms
proof (induction bs arbitrary: r)
  case Nil
  then show ?case by simp
next
  case (Cons b bs)
  from Cons.prems(1) have "ok r (xs @ (h, (n + sum_list bs) + b) # ys)"
    by (simp add: ac_simps)
  with Cons.prems(2) obtain r1 where "give_bytes h b r = Some r1"
    and "ok r1 (xs @ (h, n + sum_list bs) # ys)"
    using give_ok [of r xs h "n + sum_list bs" b ys] by auto
  with Cons show ?case by simp
qed

text \<open>A holder that gives everything back can leave without a trace.\<close>

lemma give_everything:
  assumes "ok r (xs @ (h, sum_list bs) # ys)" "\<forall>b \<in> set bs. 0 < b"
  shows "\<exists>r'. give_list h bs r = Some r' \<and> ok r' (xs @ ys)"
  using give_list_ok [of r xs h 0 bs ys] assms by (simp add: holder_idle)

end

section \<open>The budget implements it\<close>

definition usage :: "('h \<Rightarrow> bool) \<Rightarrow> ('h \<times> nat) list \<Rightarrow> nat" where
  "usage P hs = sum_list (map snd (filter (P \<circ> fst) hs))"

lemma usage_append [simp]: "usage P (xs @ ys) = usage P xs + usage P ys"
  by (simp add: usage_def)

lemma usage_Cons [simp]: "usage P ((h, n) # hs) = (if P h then n else 0) + usage P hs"
  by (simp add: usage_def)

lemma usage_Nil [simp]: "usage P [] = 0"
  by (simp add: usage_def)

lemma usage_mono: "(\<And>h. P h \<Longrightarrow> Q h) \<Longrightarrow> usage P hs \<le> usage Q hs"
  by (induction hs) (auto simp: le_add2 add_le_mono trans_le_add2)

definition ledger_ok :: "reservations \<Rightarrow> (budget \<times> nat) list \<Rightarrow> bool" where
  "ledger_ok r hs =
     (hm_ok (rv_accounts r)
      \<and> rv_total r = usage (\<lambda>_. True) hs
      \<and> rv_members r = usage bg_member hs
      \<and> (\<forall>a. account_reserved r a = usage (\<lambda>b. bg_account b = a) hs)
      \<and> rv_total r \<le> 2 * MAX_FRAME
      \<and> rv_members r \<le> MAX_FRAME
      \<and> (\<forall>a. account_reserved r a \<le> MAX_FRAME))"

definition take_reservation :: "budget \<Rightarrow> nat \<Rightarrow> reservations \<Rightarrow> reservations option" where
  "take_reservation b bytes r =
     (case reserve b bytes r of Inl _ \<Rightarrow> None | Inr (_, r') \<Rightarrow> Some r')"

definition give_reservation :: "budget \<Rightarrow> nat \<Rightarrow> reservations \<Rightarrow> reservations option" where
  "give_reservation b bytes r = release \<lparr>rn_budget = b, rn_bytes = bytes\<rparr> r"

lemma reserve_Inr:
  "reserve b n r = Inr (rn, r') \<Longrightarrow> rn = \<lparr>rn_budget = b, rn_bytes = n\<rparr>"
  by (auto simp: reserve_def Let_def split: if_splits)

lemma reserve_Inl: "reserve b n r = Inl e \<Longrightarrow> e = Busy"
  by (auto simp: reserve_def Let_def split: if_splits)

lemma account_reserved_insert:
  "hm_ok m \<Longrightarrow> account_reserved (r\<lparr>rv_accounts := hm_insert a n m\<rparr>) x =
     (if x = a then n else account_reserved (r\<lparr>rv_accounts := m\<rparr>) x)"
  by (simp add: account_reserved_def hm.get_ins)

lemma take_reservation_ok:
  assumes ok: "ledger_ok r (xs @ (h, n) # ys)" and res: "take_reservation h b r = Some r'"
  shows "ledger_ok r' (xs @ (h, n + b) # ys)"
proof -
  from res have r': "r' = r\<lparr>rv_total := rv_total r + b,
        rv_members := (if bg_member h then rv_members r + b else rv_members r),
        rv_accounts := hm_insert (bg_account h) (account_reserved r (bg_account h) + b)
          (rv_accounts r)\<rparr>"
    and lim: "rv_total r + b \<le> 2 * MAX_FRAME" "account_reserved r (bg_account h) + b \<le> MAX_FRAME"
      "bg_member h \<Longrightarrow> rv_members r + b \<le> MAX_FRAME"
    by (auto simp: take_reservation_def reserve_def Let_def split: if_splits)
  have acc: "account_reserved r' a =
      (if a = bg_account h then account_reserved r a + b else account_reserved r a)" for a
    using ok by (simp add: r' account_reserved_def hm.get_ins ledger_ok_def)
  show ?thesis
    unfolding ledger_ok_def
  proof (intro conjI allI)
    show "hm_ok (rv_accounts r')" using ok by (simp add: r' ledger_ok_def hm.invar_ins)
    show "rv_total r' = usage (\<lambda>_. True) (xs @ (h, n + b) # ys)"
      using ok by (simp add: r' ledger_ok_def)
    show "rv_members r' = usage bg_member (xs @ (h, n + b) # ys)"
      using ok by (simp add: r' ledger_ok_def)
    show "account_reserved r' a = usage (\<lambda>b. bg_account b = a) (xs @ (h, n + b) # ys)" for a
      using ok by (auto simp: acc ledger_ok_def)
    show "rv_total r' \<le> 2 * MAX_FRAME" using lim by (simp add: r')
    show "rv_members r' \<le> MAX_FRAME" using lim ok by (auto simp: r' ledger_ok_def)
    have "account_reserved r a \<le> MAX_FRAME" for a using ok unfolding ledger_ok_def by blast
    then show "account_reserved r' a \<le> MAX_FRAME" for a using lim by (simp add: acc)
  qed
qed

lemma give_reservation_ok:
  assumes ok: "ledger_ok r (xs @ (h, n + b) # ys)" and b: "0 < b"
  shows "\<exists>r'. give_reservation h b r = Some r' \<and> ledger_ok r' (xs @ (h, n) # ys)"
proof -
  have tot: "b \<le> rv_total r" and mem: "bg_member h \<Longrightarrow> b \<le> rv_members r"
    and acc: "b \<le> account_reserved r (bg_account h)"
    using ok by (auto simp: ledger_ok_def)
  then obtain held where held: "hm_get (rv_accounts r) (bg_account h) = Some held" "b \<le> held"
    using b by (auto simp: account_reserved_def split: option.splits)
  define r' where "r' = r\<lparr>rv_total := rv_total r - b,
    rv_members := (if bg_member h then rv_members r - b else rv_members r),
    rv_accounts := (if held - b = 0 then hm_remove (bg_account h) (rv_accounts r)
                    else hm_insert (bg_account h) (held - b) (rv_accounts r))\<rparr>"
  have give: "give_reservation h b r = Some r'"
    using tot mem held
    by (simp add: give_reservation_def release_def checked_sub_def r'_def Let_def)
  have acc': "account_reserved r' a =
      (if a = bg_account h then account_reserved r a - b else account_reserved r a)" for a
    using ok held by (simp add: r'_def account_reserved_def hm.get_ins hm.get_del ledger_ok_def)
  have "ledger_ok r' (xs @ (h, n) # ys)"
    unfolding ledger_ok_def
  proof (intro conjI allI)
    show "hm_ok (rv_accounts r')"
      using ok by (simp add: r'_def ledger_ok_def hm.invar_ins hm.invar_del)
    show "rv_total r' = usage (\<lambda>_. True) (xs @ (h, n) # ys)"
      using ok by (simp add: r'_def ledger_ok_def)
    show "rv_members r' = usage bg_member (xs @ (h, n) # ys)"
      using ok by (simp add: r'_def ledger_ok_def)
    show "account_reserved r' a = usage (\<lambda>b. bg_account b = a) (xs @ (h, n) # ys)" for a
      using ok by (simp add: acc' ledger_ok_def)
    show "rv_total r' \<le> 2 * MAX_FRAME" using ok by (simp add: r'_def ledger_ok_def)
    show "rv_members r' \<le> MAX_FRAME" using ok by (auto simp: r'_def ledger_ok_def)
    have "account_reserved r a \<le> MAX_FRAME" for a using ok unfolding ledger_ok_def by blast
    then show "account_reserved r' a \<le> MAX_FRAME" for a by (simp add: acc' le_diff_conv trans_le_add1)
  qed
  with give show ?thesis by blast
qed

interpretation ledger: shared_ledger ledger_ok take_reservation give_reservation
proof unfold_locales
  fix r xs h n ys b r'
  show "ledger_ok r (xs @ (h, n) # ys) \<Longrightarrow> take_reservation h b r = Some r' \<Longrightarrow>
      ledger_ok r' (xs @ (h, n + b) # ys)"
    by (rule take_reservation_ok)
  show "ledger_ok r (xs @ (h, n + b) # ys) \<Longrightarrow> 0 < b \<Longrightarrow>
      \<exists>r'. give_reservation h b r = Some r' \<and> ledger_ok r' (xs @ (h, n) # ys)"
    by (rule give_reservation_ok)
  show "ledger_ok r (xs @ (h, 0) # ys) = ledger_ok r (xs @ ys)"
    by (simp add: ledger_ok_def)
qed

section \<open>The invariant of a decoder\<close>

definition held :: "decoder \<Rightarrow> nat" where
  "held d = sum_list (map (\<lambda>(_, f). as_total f) (dc_pending d))"

definition assembly_ok :: "budget \<Rightarrow> assembly \<Rightarrow> bool" where
  "assembly_ok b f =
     (as_reservation f = \<lparr>rn_budget = b, rn_bytes = as_total f\<rparr>
      \<and> length (as_bytes f) < as_total f \<and> as_total f \<le> MAX_FRAME)"

definition decoder_ok :: "decoder \<Rightarrow> bool" where
  "decoder_ok d =
     (hm_ok (dc_pending d) \<and> hm_ok (dc_discarded d)
      \<and> (\<forall>tid f. hm_get (dc_pending d) tid = Some f \<longrightarrow> assembly_ok (dc_budget d) f)
      \<and> (\<forall>tid x. hm_get (dc_discarded d) tid = Some x \<longrightarrow>
            di_received x < di_total x \<and> hm_get (dc_pending d) tid = None)
      \<and> dc_buffered d = sum_list (map (\<lambda>(_, f). length (as_bytes f)) (dc_pending d))
      \<and> held d \<le> MAX_FRAME
      \<and> length (dc_pending d) + length (dc_discarded d) \<le> MAX_IN_FLIGHT)"

definition channel_ok :: "(budget \<times> nat) list \<Rightarrow> (budget \<times> nat) list \<Rightarrow> channel \<Rightarrow> bool" where
  "channel_ok xs ys = (\<lambda>(d, r). decoder_ok d \<and> ledger_ok r (xs @ (dc_budget d, held d) # ys))"

lemma with_budget_ok: "decoder_ok (with_budget b)"
  by (simp add: decoder_ok_def with_budget_def held_def)

lemma held_with_budget [simp]: "held (with_budget b) = 0"
  by (simp add: held_def with_budget_def)

text \<open>Taking a pending transfer out of the decoder gives its reservation back.\<close>

lemma remove_pending:
  assumes ok: "channel_ok xs ys (d, r)" and f: "hm_get (dc_pending d) tid = Some f"
  shows "\<exists>left r'. checked_sub (dc_buffered d) (length (as_bytes f)) = Some left
    \<and> release (as_reservation f) r = Some r'
    \<and> channel_ok xs ys (d\<lparr>dc_pending := hm_remove tid (dc_pending d), dc_buffered := left\<rparr>, r')"
proof -
  let ?p = "hm_remove tid (dc_pending d)"
  from ok have d: "decoder_ok d" and r: "ledger_ok r (xs @ (dc_budget d, held d) # ys)"
    by (auto simp: channel_ok_def)
  have pok: "hm_ok (dc_pending d)" and fok: "assembly_ok (dc_budget d) f"
    using d f by (auto simp: decoder_ok_def)
  have buf: "dc_buffered d = length (as_bytes f) + sum_list (map (\<lambda>(_, f). length (as_bytes f)) ?p)"
    using d hm.sum_del [OF pok f, of "\<lambda>(_, f). length (as_bytes f)"] by (simp add: decoder_ok_def)
  have hld: "held d = as_total f + sum_list (map (\<lambda>(_, f). as_total f) ?p)"
    using hm.sum_del [OF pok f, of "\<lambda>(_, f). as_total f"] by (simp add: held_def)
  have len: "length (dc_pending d) = Suc (length ?p)"
    using hm.len_del [OF pok f] by simp
  from hld r have "ledger_ok r (xs @ (dc_budget d,
      sum_list (map (\<lambda>(_, f). as_total f) ?p) + as_total f) # ys)"
    by (simp add: add.commute)
  then obtain r' where r': "release (as_reservation f) r = Some r'"
    "ledger_ok r' (xs @ (dc_budget d, sum_list (map (\<lambda>(_, f). as_total f) ?p)) # ys)"
    using ledger.give_ok [of r xs "dc_budget d" _ "as_total f" ys] fok
    by (auto simp: give_reservation_def assembly_ok_def)
  let ?d = "d\<lparr>dc_pending := ?p,
      dc_buffered := sum_list (map (\<lambda>(_, f). length (as_bytes f)) ?p)\<rparr>"
  have "decoder_ok ?d"
    using d pok hld len
    by (auto simp: decoder_ok_def held_def hm.invar_del hm.get_del)
  with r' buf show ?thesis
    by (auto simp: checked_sub_def channel_ok_def held_def)
qed

lemma discard_ok:
  assumes ok: "channel_ok xs ys (d, r)" and new: "hm_get (dc_pending d) tid = None"
    and x: "di_received x < di_total x"
    and room: "hm_get (dc_discarded d) tid = None \<Longrightarrow>
        length (dc_pending d) + length (dc_discarded d) < MAX_IN_FLIGHT"
  shows "channel_ok xs ys (d\<lparr>dc_discarded := hm_insert tid x (dc_discarded d)\<rparr>, r)"
proof -
  have dok: "hm_ok (dc_discarded d)" using ok by (simp add: channel_ok_def decoder_ok_def)
  have "length (dc_pending d) + length (hm_insert tid x (dc_discarded d)) \<le> MAX_IN_FLIGHT"
  proof (cases "hm_get (dc_discarded d) tid")
    case None
    then show ?thesis using room hm.len_ins_new [OF dok None] by simp
  next
    case (Some y)
    then show ?thesis
      using ok hm.len_ins_old [OF dok Some] by (simp add: channel_ok_def decoder_ok_def)
  qed
  with ok new x dok show ?thesis
    by (auto simp: channel_ok_def decoder_ok_def held_def hm.invar_ins hm.get_ins split: if_splits)
qed

lemma undiscard_ok:
  assumes ok: "channel_ok xs ys (d, r)"
  shows "channel_ok xs ys (d\<lparr>dc_discarded := hm_remove tid (dc_discarded d)\<rparr>, r)"
proof -
  have dok: "hm_ok (dc_discarded d)" using ok by (simp add: channel_ok_def decoder_ok_def)
  have "length (hm_remove tid (dc_discarded d)) \<le> length (dc_discarded d)"
    by (simp add: hm_remove_def length_delete_le)
  with ok dok show ?thesis
    by (auto simp: channel_ok_def decoder_ok_def held_def hm.invar_del hm.get_del split: if_splits)
qed

lemma expire_one_ok:
  assumes ok: "channel_ok xs ys (d, r)" and f: "hm_get (dc_pending d) tid = Some f"
  shows "\<exists>d' r'. expire_one (tid, f) (d, r) = Some (d', r') \<and> channel_ok xs ys (d', r')
    \<and> dc_budget d' = dc_budget d
    \<and> hm_get (dc_pending d') = (hm_get (dc_pending d))(tid := None)
    \<and> hm_get (dc_discarded d') = (hm_get (dc_discarded d))
        (tid \<mapsto> \<lparr>di_total = as_total f, di_received = length (as_bytes f)\<rparr>)"
proof -
  obtain left r' where sub: "checked_sub (dc_buffered d) (length (as_bytes f)) = Some left"
    and rel: "release (as_reservation f) r = Some r'"
    and ok': "channel_ok xs ys (d\<lparr>dc_pending := hm_remove tid (dc_pending d), dc_buffered := left\<rparr>, r')"
    using remove_pending [OF ok f] by blast
  have pok: "hm_ok (dc_pending d)" "hm_ok (dc_discarded d)"
    and fok: "length (as_bytes f) < as_total f"
    and lim: "length (dc_pending d) + length (dc_discarded d) \<le> MAX_IN_FLIGHT"
    using ok f by (auto simp: channel_ok_def decoder_ok_def assembly_ok_def)
  have "channel_ok xs ys (d\<lparr>dc_pending := hm_remove tid (dc_pending d), dc_buffered := left,
      dc_discarded := hm_insert tid \<lparr>di_total = as_total f, di_received = length (as_bytes f)\<rparr>
        (dc_discarded d)\<rparr>, r')"
    using discard_ok [OF ok', of tid] pok fok lim hm.len_del [OF pok(1) f]
    by (simp add: hm.get_del)
  with sub rel show ?thesis
    using pok by (simp add: expire_one_def hm.get_ins hm.get_del)
qed

lemma expire_all_ok:
  assumes "channel_ok xs ys (d, r)"
    and "\<forall>(tid, f) \<in> set es. hm_get (dc_pending d) tid = Some f" "distinct (map fst es)"
  shows "\<exists>d' r'. expire_all es (d, r) = Some (d', r') \<and> channel_ok xs ys (d', r')
    \<and> dc_budget d' = dc_budget d
    \<and> (\<forall>tid. tid \<notin> fst ` set es \<longrightarrow> hm_get (dc_pending d') tid = hm_get (dc_pending d) tid
        \<and> hm_get (dc_discarded d') tid = hm_get (dc_discarded d) tid)"
  using assms
proof (induction es arbitrary: d r)
  case Nil
  then show ?case by simp
next
  case (Cons e es)
  obtain tid f where e: "e = (tid, f)" by force
  have "hm_get (dc_pending d) tid = Some f" using Cons.prems(2) e by simp
  from expire_one_ok [OF Cons.prems(1) this] obtain d1 r1 where
    one: "expire_one (tid, f) (d, r) = Some (d1, r1)" "channel_ok xs ys (d1, r1)"
      "dc_budget d1 = dc_budget d"
      "hm_get (dc_pending d1) = (hm_get (dc_pending d))(tid := None)"
      "hm_get (dc_discarded d1) = (hm_get (dc_discarded d))
        (tid \<mapsto> \<lparr>di_total = as_total f, di_received = length (as_bytes f)\<rparr>)"
    by blast
  have "\<forall>(t, g) \<in> set es. hm_get (dc_pending d1) t = Some g"
    using Cons.prems(2,3) e one(4) by force
  with Cons.IH [OF one(2)] Cons.prems(3) e obtain d' r' where
    "expire_all es (d1, r1) = Some (d', r')" "channel_ok xs ys (d', r')"
    "dc_budget d' = dc_budget d1"
    "\<forall>t. t \<notin> fst ` set es \<longrightarrow> hm_get (dc_pending d') t = hm_get (dc_pending d1) t
        \<and> hm_get (dc_discarded d') t = hm_get (dc_discarded d1) t"
    by auto
  with one e show ?case by simp
qed

lemma expire_ok:
  assumes ok: "channel_ok xs ys (d, r)"
  shows "\<exists>d' r'. expire now (d, r) = Some (d', r') \<and> channel_ok xs ys (d', r')
    \<and> dc_budget d' = dc_budget d
    \<and> (\<forall>tid. (\<forall>f. hm_get (dc_pending d) tid = Some f \<longrightarrow> \<not> expired now f) \<longrightarrow>
        hm_get (dc_pending d') tid = hm_get (dc_pending d) tid
        \<and> hm_get (dc_discarded d') tid = hm_get (dc_discarded d) tid)"
proof -
  let ?es = "filter (\<lambda>(tid, f). expired now f) (dc_pending d)"
  have pok: "hm_ok (dc_pending d)" using ok by (simp add: channel_ok_def decoder_ok_def)
  have mem: "\<forall>(tid, f) \<in> set ?es. hm_get (dc_pending d) tid = Some f"
    using hm.set_entries [OF pok] by auto
  have dist: "distinct (map fst ?es)"
    using pok by (simp add: hm_ok_def distinct_map inj_on_def)
  obtain d' r' where all: "expire_all ?es (d, r) = Some (d', r')" "channel_ok xs ys (d', r')"
    "dc_budget d' = dc_budget d"
    and keep: "\<And>tid. tid \<notin> fst ` set ?es \<Longrightarrow> hm_get (dc_pending d') tid = hm_get (dc_pending d) tid
        \<and> hm_get (dc_discarded d') tid = hm_get (dc_discarded d) tid"
    using expire_all_ok [OF ok mem dist] by blast
  have "tid \<notin> fst ` set ?es"
    if fresh: "\<forall>f. hm_get (dc_pending d) tid = Some f \<longrightarrow> \<not> expired now f" for tid
  proof
    assume "tid \<in> fst ` set ?es"
    then obtain f where f: "(tid, f) \<in> set ?es" by force
    then have "hm_get (dc_pending d) tid = Some f" and "expired now f"
      using hm.set_entries [OF pok] by simp_all
    with fresh show False by blast
  qed
  with all keep show ?thesis
    by (auto simp: expire_def)
qed

section \<open>Every packet is handled without panic and keeps the invariant\<close>

text \<open>
  One operation on transfer \<open>tid\<close>: it returns, keeps the invariant and the decoder's budget, and
  leaves every other transfer alone.
\<close>

definition handles :: "(budget \<times> nat) list \<Rightarrow> (budget \<times> nat) list \<Rightarrow> u32 \<Rightarrow> decoder \<Rightarrow>
    'f push_result option \<Rightarrow> bool" where
  "handles xs ys tid d p =
     (\<exists>res d' r'. p = Some (res, d', r') \<and> channel_ok xs ys (d', r') \<and> dc_budget d' = dc_budget d
        \<and> (\<forall>t. t \<noteq> tid \<longrightarrow> hm_get (dc_pending d') t = hm_get (dc_pending d) t
              \<and> hm_get (dc_discarded d') t = hm_get (dc_discarded d) t))"

lemma handles_Some [simp]:
  "handles xs ys tid d (Some (res, d', r')) \<longleftrightarrow>
     channel_ok xs ys (d', r') \<and> dc_budget d' = dc_budget d
     \<and> (\<forall>t. t \<noteq> tid \<longrightarrow> hm_get (dc_pending d') t = hm_get (dc_pending d) t
          \<and> hm_get (dc_discarded d') t = hm_get (dc_discarded d) t)"
  by (simp add: handles_def)

lemma channel_maps_ok:
  "channel_ok xs ys (d, r) \<Longrightarrow> hm_ok (dc_pending d) \<and> hm_ok (dc_discarded d)"
  by (simp add: channel_ok_def decoder_ok_def)

lemma abort_transfer_ok:
  assumes ok: "channel_ok xs ys (d, r)"
  shows "handles xs ys tid d (abort_transfer tid (d, r))"
proof (cases "hm_get (dc_pending d) tid")
  case None
  then show ?thesis
    using undiscard_ok [OF ok, of tid] channel_maps_ok [OF ok]
    by (auto simp: abort_transfer_def hm.get_del)
next
  case (Some f)
  from remove_pending [OF ok Some] obtain left r' where
    sub: "checked_sub (dc_buffered d) (length (as_bytes f)) = Some left"
    and rel: "release (as_reservation f) r = Some r'"
    and ok': "channel_ok xs ys (d\<lparr>dc_pending := hm_remove tid (dc_pending d), dc_buffered := left\<rparr>, r')"
    by blast
  show ?thesis
    using Some sub rel undiscard_ok [OF ok', of tid] channel_maps_ok [OF ok]
    by (auto simp: abort_transfer_def hm.get_del)
qed

lemma drain_discarded_ok:
  assumes ok: "channel_ok xs ys (d, r)" and x: "hm_get (dc_discarded d) tid = Some x"
    and fits: "offset + length payload \<le> tot"
  shows "handles xs ys tid d (drain_discarded tid x tot offset payload (d, r))"
proof -
  have new: "hm_get (dc_pending d) tid = None"
    using ok x by (auto simp: channel_ok_def decoder_ok_def)
  show ?thesis
  proof (cases "di_total x \<noteq> tot \<or> di_received x \<noteq> offset")
    case True
    then show ?thesis
      using ok by (auto simp: drain_discarded_def)
  next
    case match: False
    show ?thesis
    proof (cases "di_received x + length payload = tot")
      case True
      then show ?thesis
        using match undiscard_ok [OF ok, of tid] channel_maps_ok [OF ok]
        by (auto simp: drain_discarded_def hm.get_del)
    next
      case False
      then have "channel_ok xs ys (d\<lparr>dc_discarded :=
          hm_insert tid (x\<lparr>di_received := di_received x + length payload\<rparr>) (dc_discarded d)\<rparr>, r)"
        using match fits x by (intro discard_ok [OF ok new]) auto
      with False match show ?thesis
        using channel_maps_ok [OF ok]
        by (auto simp: drain_discarded_def hm.get_ins)
    qed
  qed
qed

lemma grow_pending_ok:
  assumes ok: "channel_ok xs ys (d, r)" and f: "hm_get (dc_pending d) tid = Some f"
    and short: "length (as_bytes f) + length payload < as_total f"
  shows "channel_ok xs ys (d\<lparr>dc_pending := hm_insert tid
      (f\<lparr>as_bytes := as_bytes f @ payload, as_last_progress := now\<rparr>) (dc_pending d),
      dc_buffered := dc_buffered d + length payload\<rparr>, r)"
proof -
  let ?f = "f\<lparr>as_bytes := as_bytes f @ payload, as_last_progress := now\<rparr>"
  have pok: "hm_ok (dc_pending d)" using channel_maps_ok [OF ok] by simp
  have buf: "sum_list (map (\<lambda>(_, f). length (as_bytes f)) (hm_insert tid ?f (dc_pending d)))
      = sum_list (map (\<lambda>(_, f). length (as_bytes f)) (dc_pending d)) + length payload"
    using hm.sum_ins_old [OF pok f, of "\<lambda>(_, f). length (as_bytes f)" ?f] by simp
  have hld: "sum_list (map (\<lambda>(_, f). as_total f) (hm_insert tid ?f (dc_pending d)))
      = sum_list (map (\<lambda>(_, f). as_total f) (dc_pending d))"
    using hm.sum_ins_old [OF pok f, of "\<lambda>(_, f). as_total f" ?f] by simp
  have "hm_get (dc_discarded d) tid = None"
    using ok f by (cases "hm_get (dc_discarded d) tid") (auto simp: channel_ok_def decoder_ok_def)
  then show ?thesis
    using ok f short pok hm.len_ins_old [OF pok f, of ?f]
    by (auto simp: channel_ok_def decoder_ok_def held_def buf hld hm.invar_ins hm.get_ins
        assembly_ok_def split: if_splits)
qed

lemma extend_transfer_ok:
  assumes ok: "channel_ok xs ys (d, r)" and fits: "offset + length payload \<le> tot"
  shows "handles xs ys tid d (extend_transfer from_slice now tid tot offset payload (d, r))"
proof (cases "hm_get (dc_pending d) tid")
  case None
  then show ?thesis
    using ok by (auto simp: extend_transfer_def)
next
  case (Some f)
  show ?thesis
  proof (cases "as_total f \<noteq> tot \<or> length (as_bytes f) \<noteq> offset")
    case True
    then show ?thesis
      using Some ok by (auto simp: extend_transfer_def)
  next
    case match: False
    show ?thesis
    proof (cases "length (as_bytes f @ payload) = tot")
      case False
      with match fits have short: "length (as_bytes f) + length payload < as_total f" by simp
      show ?thesis
        using Some False match grow_pending_ok [OF ok Some short] channel_maps_ok [OF ok]
        by (auto simp: extend_transfer_def Let_def hm.get_ins)
    next
      case True
      from remove_pending [OF ok Some] obtain left r' where
        sub: "checked_sub (dc_buffered d) (length (as_bytes f)) = Some left"
        and rel: "release (as_reservation f) r = Some r'"
        and ok': "channel_ok xs ys
          (d\<lparr>dc_pending := hm_remove tid (dc_pending d), dc_buffered := left\<rparr>, r')"
        by blast
      have "checked_sub (dc_buffered d + length payload) (length (as_bytes f @ payload)) = Some left"
        using sub by (auto simp: checked_sub_def split: if_splits)
      then show ?thesis
        using Some True match rel ok' channel_maps_ok [OF ok]
        by (auto simp: extend_transfer_def Let_def hm.get_del)
    qed
  qed
qed

lemma admit_ok:
  assumes ok: "channel_ok xs ys (d, r)"
    and new: "hm_get (dc_pending d) tid = None" "hm_get (dc_discarded d) tid = None"
    and room: "length (dc_pending d) + length (dc_discarded d) < MAX_IN_FLIGHT"
    and peer: "held d + tot \<le> MAX_FRAME" and tot: "0 < tot"
    and res: "reserve (dc_budget d) tot r = Inr (rn, r')"
  shows "channel_ok xs ys (d\<lparr>dc_pending := hm_insert tid
      \<lparr>as_reservation = rn, as_total = tot, as_bytes = [], as_last_progress = now\<rparr>
        (dc_pending d)\<rparr>, r')"
proof -
  let ?f = "\<lparr>as_reservation = rn, as_total = tot, as_bytes = [], as_last_progress = now\<rparr>"
  have pok: "hm_ok (dc_pending d)" using channel_maps_ok [OF ok] by simp
  have "ledger_ok r' (xs @ (dc_budget d, held d + tot) # ys)"
    using ok res ledger.take_ok [of r xs "dc_budget d" "held d" ys tot r']
    by (simp add: channel_ok_def take_reservation_def)
  moreover have "held (d\<lparr>dc_pending := hm_insert tid ?f (dc_pending d)\<rparr>) = held d + tot"
    using hm.sum_ins_new [OF pok new(1), of "\<lambda>(_, f). as_total f" ?f] by (simp add: held_def)
  moreover have "decoder_ok (d\<lparr>dc_pending := hm_insert tid ?f (dc_pending d)\<rparr>)"
  proof -
    have "sum_list (map (\<lambda>(_, f). length (as_bytes f)) (hm_insert tid ?f (dc_pending d)))
        = sum_list (map (\<lambda>(_, f). length (as_bytes f)) (dc_pending d))"
      using hm.sum_ins_new [OF pok new(1), of "\<lambda>(_, f). length (as_bytes f)" ?f] by simp
    then show ?thesis
      using ok new room peer tot pok reserve_Inr [OF res] hm.len_ins_new [OF pok new(1), of ?f]
        hm.sum_ins_new [OF pok new(1), of "\<lambda>(_, f). as_total f" ?f]
      by (auto simp: channel_ok_def decoder_ok_def held_def hm.invar_ins hm.get_ins
          assembly_ok_def split: if_splits)
  qed
  ultimately show ?thesis by (simp add: channel_ok_def)
qed

lemma start_transfer_ok:
  assumes ok: "channel_ok xs ys (d, r)" and nd: "hm_get (dc_discarded d) tid = None"
    and pay: "payload \<noteq> []" "length payload \<le> tot"
  shows "handles xs ys tid d (start_transfer from_slice prefix now tid tot payload (d, r))"
proof -
  consider (full) "hm_contains (dc_pending d) tid
      \<or> MAX_IN_FLIGHT \<le> length (dc_pending d) + length (dc_discarded d)"
    | (whole) "\<not> (hm_contains (dc_pending d) tid
      \<or> MAX_IN_FLIGHT \<le> length (dc_pending d) + length (dc_discarded d))"
      "bg_member (dc_budget d) \<and> length payload = tot"
    | (part) "\<not> (hm_contains (dc_pending d) tid
      \<or> MAX_IN_FLIGHT \<le> length (dc_pending d) + length (dc_discarded d))"
      "\<not> (bg_member (dc_budget d) \<and> length payload = tot)"
    by blast
  then show ?thesis
  proof cases
    case full
    then show ?thesis
      using ok by (auto simp: start_transfer_def)
  next
    case whole
    then show ?thesis
      using ok by (auto simp: start_transfer_def)
  next
    case part
    let ?res = "if MAX_FRAME < held d + tot then Inl Busy else reserve (dc_budget d) tot r"
    have new: "hm_get (dc_pending d) tid = None"
      and room: "length (dc_pending d) + length (dc_discarded d) < MAX_IN_FLIGHT"
      using part by (auto simp: hm_contains_def)
    show ?thesis
    proof (cases ?res)
      case (Inl e)
      have "channel_ok xs ys (d\<lparr>dc_discarded := hm_insert tid
          \<lparr>di_total = tot, di_received = length payload\<rparr> (dc_discarded d)\<rparr>, r)"
        if "length payload < tot"
        using that room by (intro discard_ok [OF ok new]) auto
      then show ?thesis
        using part Inl channel_maps_ok [OF ok] ok
        by (auto simp: start_transfer_def held_def Let_def hm.get_ins)
    next
      case (Inr q)
      then obtain rn r' where q: "q = (rn, r')" and lim: "held d + tot \<le> MAX_FRAME"
        and res: "reserve (dc_budget d) tot r = Inr (rn, r')"
        by (cases q) (auto split: if_splits)
      let ?d = "d\<lparr>dc_pending := hm_insert tid
        \<lparr>as_reservation = rn, as_total = tot, as_bytes = [], as_last_progress = now\<rparr> (dc_pending d)\<rparr>"
      have "0 < tot" using pay by (cases payload) auto
      with admit_ok [OF ok new nd room lim _ res] have "channel_ok xs ys (?d, r')" by blast
      then have "handles xs ys tid ?d (extend_transfer from_slice now tid tot 0 payload (?d, r'))"
        using pay by (intro extend_transfer_ok) auto
      moreover have "start_transfer from_slice prefix now tid tot payload (d, r) =
          extend_transfer from_slice now tid tot 0 payload (?d, r')"
        using part Inr q by (auto simp: start_transfer_def held_def Let_def)
      ultimately show ?thesis
        using channel_maps_ok [OF ok] by (auto simp: handles_def hm.get_ins)
    qed
  qed
qed

lemma dispatch_ok:
  assumes ok: "channel_ok xs ys c" and d: "fst c = d"
  shows "handles xs ys tid d
     (if tid = 0 \<or> MAX_FRAME < tot then Some (Inl (Invalid ''Invalid transfer size''), c)
      else if tot = 0 \<and> offset = 0 \<and> payload = [] then abort_transfer tid c
      else if payload = [] \<or> tot < offset + length payload
      then Some (Inl (Invalid ''DataChannel reassembly limit exceeded''), c)
      else (case hm_get (dc_discarded d) tid of
              Some x \<Rightarrow> drain_discarded tid x tot offset payload c
            | None \<Rightarrow>
                if offset = 0
                then start_transfer from_slice prefix now tid tot payload c
                else extend_transfer from_slice now tid tot offset payload c))"
proof -
  obtain r where c: "c = (d, r)" using d by (cases c) auto
  show ?thesis
    using abort_transfer_ok [OF ok [unfolded c], of tid]
      drain_discarded_ok [OF ok [unfolded c], of tid _ offset payload tot]
      start_transfer_ok [OF ok [unfolded c], of tid payload tot from_slice prefix now]
      extend_transfer_ok [OF ok [unfolded c], of offset payload tot tid from_slice now]
      ok [unfolded c]
    by (auto simp: c split: option.split)
qed

lemma push_fragment_ok:
  assumes ok: "channel_ok xs ys (d, r)"
  shows "handles xs ys (packet_id packet) d (push_fragment from_slice prefix now packet (d, r))"
proof (cases "length packet < HEADER \<or> MAX_PACKET < length packet \<or> hd packet \<noteq> 1")
  case True
  then show ?thesis using ok by (simp add: push_fragment_def)
next
  case False
  show ?thesis
    unfolding push_fragment_def Let_def if_not_P [OF False] fst_conv
    by (rule dispatch_ok [OF ok]) simp
qed

lemma push_ok:
  assumes ok: "channel_ok xs ys (d, r)"
  shows "\<exists>res d' r'. push from_slice prefix now packet (d, r) = Some (res, d', r')
    \<and> channel_ok xs ys (d', r') \<and> dc_budget d' = dc_budget d
    \<and> (\<forall>t. t \<noteq> packet_id packet \<longrightarrow>
        (\<forall>f. hm_get (dc_pending d) t = Some f \<longrightarrow> \<not> expired now f) \<longrightarrow>
        hm_get (dc_pending d') t = hm_get (dc_pending d) t
        \<and> hm_get (dc_discarded d') t = hm_get (dc_discarded d) t)"
proof -
  from expire_ok [OF ok, of now] obtain d1 r1 where
    e: "expire now (d, r) = Some (d1, r1)" "channel_ok xs ys (d1, r1)" "dc_budget d1 = dc_budget d"
    and keep: "\<And>t. (\<forall>f. hm_get (dc_pending d) t = Some f \<longrightarrow> \<not> expired now f) \<Longrightarrow>
        hm_get (dc_pending d1) t = hm_get (dc_pending d) t
        \<and> hm_get (dc_discarded d1) t = hm_get (dc_discarded d) t"
    by blast
  from push_fragment_ok [OF e(2), of packet from_slice prefix now] show ?thesis
    using e keep by (auto simp: handles_def push_def)
qed

section \<open>All peers of an installation\<close>

type_synonym peers = "reservations \<times> decoder list"

definition no_reservations :: reservations where
  "no_reservations = \<lparr>rv_total = 0, rv_members = 0, rv_accounts = []\<rparr>"

inductive peer_step ::
  "(byte list \<Rightarrow> 'f option) \<Rightarrow> (byte list \<Rightarrow> string option) \<Rightarrow> peers \<Rightarrow> peers \<Rightarrow> bool"
  for from_slice prefix where
  connect: "peer_step from_slice prefix (r, ds) (r, ds @ [with_budget (for_account account role)])"
| packet: "push from_slice prefix now p (d, r) = Some (res, d', r') \<Longrightarrow>
    peer_step from_slice prefix (r, xs @ d # ys) (r', xs @ d' # ys)"
| close: "drop_decoder (d, r) = Some r' \<Longrightarrow>
    peer_step from_slice prefix (r, xs @ d # ys) (r', xs @ ys)"

inductive_cases peer_stepE: "peer_step from_slice prefix s s'"

definition peers_reachable ::
  "(byte list \<Rightarrow> 'f option) \<Rightarrow> (byte list \<Rightarrow> string option) \<Rightarrow> peers \<Rightarrow> bool" where
  "peers_reachable from_slice prefix = (peer_step from_slice prefix)\<^sup>*\<^sup>* (no_reservations, [])"

definition entry :: "decoder \<Rightarrow> budget \<times> nat" where
  "entry d = (dc_budget d, held d)"

definition peers_ok :: "peers \<Rightarrow> bool" where
  "peers_ok = (\<lambda>(r, ds). (\<forall>d \<in> set ds. decoder_ok d) \<and> ledger_ok r (map entry ds))"

lemma peers_channel:
  "peers_ok (r, xs @ d # ys) \<longleftrightarrow>
     (\<forall>e \<in> set (xs @ ys). decoder_ok e) \<and> channel_ok (map entry xs) (map entry ys) (d, r)"
  by (auto simp: peers_ok_def channel_ok_def entry_def)

lemma release_all_give_list:
  "release_all (map (\<lambda>n. \<lparr>rn_budget = b, rn_bytes = n\<rparr>) ns) r = ledger.give_list b ns r"
  by (induction ns arbitrary: r) (auto simp: give_reservation_def split: bind_splits)

lemma account_limit:
  assumes "ledger_ok r hs"
  shows "usage (\<lambda>b. bg_account b = a) hs \<le> MAX_FRAME"
proof -
  have "account_reserved r a = usage (\<lambda>b. bg_account b = a) hs"
    and "account_reserved r a \<le> MAX_FRAME"
    using assms unfolding ledger_ok_def by blast+
  then show ?thesis by simp
qed

lemma drop_decoder_ok:
  assumes ok: "channel_ok xs ys (d, r)"
  shows "\<exists>r'. drop_decoder (d, r) = Some r' \<and> ledger_ok r' (xs @ ys)"
proof -
  let ?ns = "map (\<lambda>(_, f). as_total f) (dc_pending d)"
  have pend: "\<forall>(tid, f) \<in> set (dc_pending d). assembly_ok (dc_budget d) f"
    using ok hm.set_entries [of "dc_pending d"]
    by (auto simp: channel_ok_def decoder_ok_def)
  then have "map (\<lambda>(_, f). as_reservation f) (dc_pending d)
      = map (\<lambda>n. \<lparr>rn_budget = dc_budget d, rn_bytes = n\<rparr>) ?ns"
    by (auto simp: assembly_ok_def)
  moreover have "\<exists>r'. ledger.give_list (dc_budget d) ?ns r = Some r' \<and> ledger_ok r' (xs @ ys)"
    using ok pend by (intro ledger.give_everything) (auto simp: channel_ok_def held_def assembly_ok_def)
  ultimately show ?thesis
    by (simp add: drop_decoder_def release_all_give_list del: map_map)
qed

lemma peer_step_ok:
  assumes "peer_step from_slice prefix s s'" "peers_ok s"
  shows "peers_ok s'"
  using assms
proof (induction rule: peer_step.induct)
  case (connect r ds account role)
  then show ?case
    using ledger.holder_idle [of r "map entry ds" _ "[]"]
    by (auto simp: peers_ok_def entry_def with_budget_ok)
next
  case (packet now p d r res d' r' xs ys)
  then show ?case
    using push_ok [of "map entry xs" "map entry ys" d r from_slice prefix now p]
    by (simp add: peers_channel)
next
  case (close d r r' xs ys)
  then show ?case
    using drop_decoder_ok [of "map entry xs" "map entry ys" d r]
    by (auto simp: peers_channel) (simp add: peers_ok_def ball_Un)
qed

lemma reachable_peers_ok:
  assumes "peers_reachable from_slice prefix s"
  shows "peers_ok s"
  using assms unfolding peers_reachable_def
proof (induction rule: rtranclp_induct)
  case base
  then show ?case
    by (simp add: peers_ok_def no_reservations_def ledger_ok_def account_reserved_def)
next
  case (step s s')
  then show ?case using peer_step_ok by blast
qed

section \<open>A concrete run\<close>

text \<open>Two peers connect and the member sends the first two bytes of a frame of three.\<close>

definition sample_packet :: "byte list" where
  "sample_packet = packet_at \<lparr>ef_id = 7, ef_bytes = [1, 2, 3]\<rparr> 0 [1, 2]"

definition sample_peers :: peers where
  "sample_peers =
     (\<lparr>rv_total = 3, rv_members = 3, rv_accounts = [(''ada'', 3)]\<rparr>,
      [with_budget (for_account ''eve'' Owner),
       (with_budget (for_account ''ada'' Member))
         \<lparr>dc_pending := [(7, \<lparr>as_reservation = \<lparr>rn_budget = for_account ''ada'' Member, rn_bytes = 3\<rparr>,
                              as_total = 3, as_bytes = [1, 2], as_last_progress = 5\<rparr>)],
          dc_buffered := 2\<rparr>])"

lemma sample_push:
  "push Some (\<lambda>_. None) 5 sample_packet (with_budget (for_account ''ada'' Member), no_reservations)
     = Some (Inr None, last (snd sample_peers), fst sample_peers)"
  by (simp add: push_def expire_def with_budget_def push_fragment_def sample_packet_def packet_at_def
      to_be_bytes_def from_be_bytes_def subrange_def HEADER_def MAX_PACKET_def packet_id_def
      start_transfer_def MAX_FRAME_value MAX_IN_FLIGHT_def for_account_def reserve_def Let_def
      account_reserved_def no_reservations_def extend_transfer_def sample_peers_def
      hm_contains_def hm_get_def hm_insert_def)

lemma sample_reachable: "peers_reachable Some (\<lambda>_. None) sample_peers"
proof -
  let ?o = "with_budget (for_account ''eve'' Owner)" and ?m = "with_budget (for_account ''ada'' Member)"
  let ?step = "peer_step Some (\<lambda>_. None)"
  have "?step (no_reservations, []) (no_reservations, [?o])"
    using peer_step.connect [of Some _ no_reservations "[]"] by simp
  moreover have "?step (no_reservations, [?o]) (no_reservations, [?o, ?m])"
    using peer_step.connect [of Some _ no_reservations "[?o]"] by simp
  moreover have "?step (no_reservations, [?o, ?m]) sample_peers"
    using peer_step.packet [OF sample_push, of "[?o]" "[]"] by (simp add: sample_peers_def)
  ultimately show ?thesis
    unfolding peers_reachable_def by (meson rtranclp.rtrancl_refl rtranclp.rtrancl_into_rtrancl)
qed

section \<open>Packets carry their header\<close>

lemma from_be_to_be: "from_be_bytes (to_be_bytes w) = w"
proof -
  define n where "n = unat w"
  have n: "n < 2 ^ 32" using unsigned_less [of w, where 'a = nat] by (simp add: n_def)
  have top: "n div 2 ^ 24 mod 256 = n div 2 ^ 24"
    using n by (simp add: div_less_iff_less_mult)
  have "unat (of_nat k :: byte) = k mod 256" for k by (simp add: unat_of_nat)
  moreover have "((n div 2 ^ 24 * 256 + n div 2 ^ 16 mod 256) * 256 + n div 2 ^ 8 mod 256) * 256
      + n mod 256 = n"
  proof -
    have "n div 2 ^ 16 = n div 256 div 256" "n div 2 ^ 24 = n div 256 div 256 div 256"
      by (simp_all flip: div_mult2_eq)
    moreover have "n div 256 div 256 div 256 < 256"
      using n by (simp flip: div_mult2_eq add: div_less_iff_less_mult)
    ultimately show ?thesis by simp
  qed
  ultimately have "foldl (\<lambda>k b. k * 256 + unat b) 0 (to_be_bytes w) = n"
    using top by (simp add: to_be_bytes_def flip: n_def)
  then show ?thesis by (simp add: from_be_bytes_def n_def)
qed

lemma length_to_be [simp]: "length (to_be_bytes w) = 4"
  by (simp add: to_be_bytes_def)

definition frame_ok :: "encoded_frame \<Rightarrow> bool" where
  "frame_ok ef = (ef_id ef \<noteq> 0 \<and> ef_bytes ef \<noteq> [] \<and> length (ef_bytes ef) \<le> MAX_FRAME)"

definition PIECE :: nat where
  "PIECE = MAX_PACKET - HEADER"

lemma PIECE_pos [simp]: "0 < PIECE"
  by (simp add: PIECE_def MAX_PACKET_def HEADER_def)

lemma PIECE_nonzero [simp]: "PIECE \<noteq> 0"
  using PIECE_pos by linarith

lemma packet_fields:
  assumes "frame_ok ef" "i * PIECE < length (ef_bytes ef)"
  shows "packet_id (packet_at ef i c) = ef_id ef"
    and "unat (from_be_bytes (subrange 5 4 (packet_at ef i c))) = length (ef_bytes ef)"
    and "unat (from_be_bytes (subrange 9 4 (packet_at ef i c))) = i * PIECE"
    and "drop HEADER (packet_at ef i c) = c"
    and "hd (packet_at ef i c) = 1"
    and "length (packet_at ef i c) = HEADER + length c"
proof -
  have lim: "length (ef_bytes ef) < 2 ^ 32" "i * PIECE < 2 ^ 32"
    using assms by (simp_all add: frame_ok_def MAX_FRAME_value)
  have split: "packet_at ef i c = [1] @ to_be_bytes (ef_id ef)
      @ to_be_bytes (of_nat (length (ef_bytes ef))) @ to_be_bytes (of_nat (i * PIECE)) @ c"
    by (simp add: packet_at_def PIECE_def)
  show "packet_id (packet_at ef i c) = ef_id ef"
    by (simp add: packet_id_def split subrange_def from_be_to_be)
  show "unat (from_be_bytes (subrange 5 4 (packet_at ef i c))) = length (ef_bytes ef)"
    using lim by (simp add: split subrange_def from_be_to_be unat_of_nat take_bit_nat_eq_self)
  show "unat (from_be_bytes (subrange 9 4 (packet_at ef i c))) = i * PIECE"
    using lim by (simp add: split subrange_def from_be_to_be unat_of_nat del: of_nat_mult)
  show "drop HEADER (packet_at ef i c) = c" "hd (packet_at ef i c) = 1"
    "length (packet_at ef i c) = HEADER + length c"
    by (simp_all add: split HEADER_def)
qed

section \<open>One transfer among others\<close>

lemma extend_own:
  assumes run: "extend_transfer fs now tid (length bytes) k (take PIECE (drop k bytes)) (d, r)
      = Some (res, d', r')"
    and f: "hm_get (dc_pending d) tid = Some f" "as_total f = length bytes"
      "as_bytes f = take k bytes" and k: "k < length bytes" and ok: "hm_ok (dc_pending d)"
  shows "if k + PIECE < length bytes
    then res = Inr None \<and> hm_get (dc_pending d') tid =
      Some (f\<lparr>as_bytes := take (k + PIECE) bytes, as_last_progress := now\<rparr>)
    else res = decoded fs bytes"
proof -
  have "take k bytes @ take PIECE (drop k bytes) = take (k + PIECE) bytes"
    by (simp add: take_add)
  then show ?thesis
    using run f k ok
    by (auto simp: extend_transfer_def Let_def hm.get_ins split: if_splits bind_splits)
qed

definition fragment :: "encoded_frame \<Rightarrow> nat \<Rightarrow> byte list" where
  "fragment ef i = packet_at ef i (take PIECE (drop (i * PIECE) (ef_bytes ef)))"

lemma push_fragment_own:
  assumes ef: "frame_ok ef" "i * PIECE < length (ef_bytes ef)"
    and nd: "hm_get (dc_discarded d) (ef_id ef) = None"
  shows "push_fragment fs px now (fragment ef i) (d, r) =
    (if i = 0 then start_transfer fs px now (ef_id ef) (length (ef_bytes ef))
        (take PIECE (ef_bytes ef)) (d, r)
     else extend_transfer fs now (ef_id ef) (length (ef_bytes ef)) (i * PIECE)
        (take PIECE (drop (i * PIECE) (ef_bytes ef))) (d, r))"
proof -
  have "\<not> (length (fragment ef i) < HEADER \<or> MAX_PACKET < length (fragment ef i)
      \<or> hd (fragment ef i) \<noteq> 1)"
    using packet_fields(5,6) [OF ef] by (simp add: fragment_def PIECE_def HEADER_def MAX_PACKET_def)
  moreover have "take PIECE (drop (i * PIECE) (ef_bytes ef)) \<noteq> []"
    using ef by simp
  ultimately show ?thesis
    using ef nd
    by (auto simp: push_fragment_def packet_fields fragment_def frame_ok_def Let_def)
qed

lemma push_own:
  assumes ok: "channel_ok xs ys (d, r)" and ef: "frame_ok ef" "i * PIECE < length (ef_bytes ef)"
    and f: "hm_get (dc_pending d) (ef_id ef) = Some f" "as_total f = length (ef_bytes ef)"
      "as_bytes f = take (i * PIECE) (ef_bytes ef)" "\<not> expired now f" and i: "0 < i"
  shows "\<exists>res d' r'. push fs px now (fragment ef i) (d, r) = Some (res, d', r')
    \<and> channel_ok xs ys (d', r')
    \<and> (if Suc i * PIECE < length (ef_bytes ef)
       then res = Inr None \<and> hm_get (dc_pending d') (ef_id ef) =
         Some (f\<lparr>as_bytes := take (Suc i * PIECE) (ef_bytes ef), as_last_progress := now\<rparr>)
       else res = decoded fs (ef_bytes ef))"
proof -
  from push_ok [OF ok, of fs px now "fragment ef i"] obtain res d' r' where
    run: "push fs px now (fragment ef i) (d, r) = Some (res, d', r')" and ok': "channel_ok xs ys (d', r')"
    by blast
  from expire_ok [OF ok, of now] obtain d1 r1 where
    e: "expire now (d, r) = Some (d1, r1)" "channel_ok xs ys (d1, r1)"
    and keep: "hm_get (dc_pending d1) (ef_id ef) = hm_get (dc_pending d) (ef_id ef)"
    using f by fastforce
  have nd: "hm_get (dc_discarded d1) (ef_id ef) = None"
    using e(2) keep f(1)
    by (cases "hm_get (dc_discarded d1) (ef_id ef)") (auto simp: channel_ok_def decoder_ok_def)
  have "extend_transfer fs now (ef_id ef) (length (ef_bytes ef)) (i * PIECE)
      (take PIECE (drop (i * PIECE) (ef_bytes ef))) (d1, r1) = Some (res, d', r')"
    using run e i push_fragment_own [OF ef nd, of fs px now r1] by (simp add: push_def)
  from extend_own [OF this] show ?thesis
    using run ok' ef f keep channel_maps_ok [OF e(2)] by (simp add: add.commute)
qed

lemma start_own:
  assumes run: "start_transfer fs px now tid (length bytes) (take PIECE bytes) (d, r)
      = Some (Inr res, d', r')"
    and new: "hm_get (dc_pending d) tid = None" and ok: "hm_ok (dc_pending d)" and ne: "bytes \<noteq> []"
  shows "if PIECE < length bytes
    then res = None \<and> (\<exists>f. hm_get (dc_pending d') tid = Some f \<and> as_total f = length bytes
      \<and> as_bytes f = take PIECE bytes \<and> as_last_progress f = now)
    else Inr res = decoded fs bytes"
proof -
  consider (whole) "length (take PIECE bytes) = length bytes" "Inr res = decoded fs (take PIECE bytes)"
    | (admitted) rn r1 where "extend_transfer fs now tid (length bytes) 0 (take PIECE bytes)
        (d\<lparr>dc_pending := hm_insert tid \<lparr>as_reservation = rn, as_total = length bytes, as_bytes = [],
              as_last_progress = now\<rparr> (dc_pending d)\<rparr>, r1) = Some (Inr res, d', r')"
    using run by (auto simp: start_transfer_def Let_def split: if_splits sum.splits prod.splits)
  then show ?thesis
  proof cases
    case whole
    then have "\<not> PIECE < length bytes" by simp
    with whole show ?thesis by simp
  next
    case admitted
    have "extend_transfer fs now tid (length bytes) 0 (take PIECE (drop 0 bytes))
        (d\<lparr>dc_pending := hm_insert tid \<lparr>as_reservation = rn, as_total = length bytes, as_bytes = [],
              as_last_progress = now\<rparr> (dc_pending d)\<rparr>, r1) = Some (Inr res, d', r')"
      using admitted by simp
    from extend_own [OF this] show ?thesis
      using ne ok by (auto simp: hm.get_ins hm.invar_ins split: if_splits)
  qed
qed

lemma push_first:
  assumes ok: "channel_ok xs ys (d, r)" and ef: "frame_ok ef"
    and new: "hm_get (dc_pending d) (ef_id ef) = None" "hm_get (dc_discarded d) (ef_id ef) = None"
    and run: "push fs px now (fragment ef 0) (d, r) = Some (Inr res, d', r')"
  shows "channel_ok xs ys (d', r') \<and> (if PIECE < length (ef_bytes ef)
    then res = None \<and> (\<exists>f. hm_get (dc_pending d') (ef_id ef) = Some f
      \<and> as_total f = length (ef_bytes ef) \<and> as_bytes f = take PIECE (ef_bytes ef)
      \<and> as_last_progress f = now)
    else Inr res = decoded fs (ef_bytes ef))"
proof -
  from expire_ok [OF ok, of now] obtain d1 r1 where
    e: "expire now (d, r) = Some (d1, r1)" "channel_ok xs ys (d1, r1)"
    and keep: "hm_get (dc_pending d1) (ef_id ef) = None" "hm_get (dc_discarded d1) (ef_id ef) = None"
    using new by fastforce
  have "start_transfer fs px now (ef_id ef) (length (ef_bytes ef)) (take PIECE (ef_bytes ef)) (d1, r1)
      = Some (Inr res, d', r')"
    using run e push_fragment_own [OF ef _ keep(2), of 0 fs px now r1] ef
    by (simp add: push_def frame_ok_def)
  from start_own [OF this keep(1)] show ?thesis
    using channel_maps_ok [OF e(2)] ef push_ok [OF ok, of fs px now "fragment ef 0"] run
    by (simp add: frame_ok_def)
qed

lemma push_other:
  assumes ok: "channel_ok xs ys (d, r)" and p: "packet_id p \<noteq> tid"
    and live: "\<forall>f. hm_get (dc_pending d) tid = Some f \<longrightarrow> \<not> expired now f"
  shows "\<exists>res d' r'. push fs px now p (d, r) = Some (res, d', r') \<and> channel_ok xs ys (d', r')
    \<and> hm_get (dc_pending d') tid = hm_get (dc_pending d) tid
    \<and> hm_get (dc_discarded d') tid = hm_get (dc_discarded d) tid"
  using push_ok [OF ok, of fs px now p] p live by fastforce

section \<open>Feeding a decoder\<close>

fun feed ::
  "(byte list \<Rightarrow> 'f option) \<Rightarrow> (byte list \<Rightarrow> string option) \<Rightarrow> (nat \<times> byte list) list \<Rightarrow> channel \<Rightarrow>
   (byte list \<times> (decode_error, 'f option) result) list option" where
  "feed fs px [] c = Some []"
| "feed fs px ((now, p) # es) c =
     do { (res, c') \<leftarrow> push fs px now p c; rs \<leftarrow> feed fs px es c'; Some ((p, res) # rs) }"

definition results_of ::
  "u32 \<Rightarrow> (byte list \<times> (decode_error, 'f option) result) list \<Rightarrow>
   (decode_error, 'f option) result list" where
  "results_of tid rs = map snd (filter (\<lambda>(p, _). packet_id p = tid) rs)"

lemma packets_fragments:
  "packets ef = map (fragment ef) [0..<div_ceil (length (ef_bytes ef)) PIECE]"
proof -
  have "enumerate 0 (chunks PIECE (ef_bytes ef)) = map (\<lambda>i. (i, take PIECE (drop (i * PIECE) (ef_bytes ef))))
      [0..<div_ceil (length (ef_bytes ef)) PIECE]"
    by (simp add: chunks_map enumerate_eq_zip zip_map2 zip_same_conv_map)
  then show ?thesis
    by (simp add: packets_def fragment_def comp_def flip: PIECE_def)
qed

lemma fragment_id: "frame_ok ef \<Longrightarrow> i * PIECE < length (ef_bytes ef) \<Longrightarrow>
    packet_id (fragment ef i) = ef_id ef"
  by (simp add: fragment_def packet_fields)

lemma feed_packets: "feed fs px es c = Some rs \<Longrightarrow> map fst rs = map snd es"
  by (induction fs px es c arbitrary: rs rule: feed.induct) (auto split: bind_splits)

lemma length_results_of:
  "feed fs px es c = Some rs \<Longrightarrow>
     length (results_of tid rs) = length (filter (\<lambda>p. packet_id p = tid) (map snd es))"
  by (drule feed_packets [symmetric])
    (simp add: results_of_def filter_map comp_def case_prod_unfold)

lemma feed_total:
  "channel_ok xs ys (d, r) \<Longrightarrow> \<exists>rs. feed fs px es (d, r) = Some rs"
proof (induction es arbitrary: d r)
  case (Cons e es)
  obtain now p where e: "e = (now, p)" by force
  from push_ok [OF Cons.prems, of fs px now p] obtain res d' r' where
    "push fs px now p (d, r) = Some (res, d', r')" "channel_ok xs ys (d', r')" by blast
  with Cons.IH [of d' r'] show ?case by (auto simp: e)
qed simp

lemma feed_ConsE:
  assumes "feed fs px ((now, p) # es) c = Some rs" "push fs px now p c = Some (res, d', r')"
  obtains rs' where "feed fs px es (d', r') = Some rs'" "rs = (p, res) # rs'"
  using assms by (auto split: bind_splits)

lemma results_of_Cons [simp]:
  "results_of tid ((p, res) # rs) = (if packet_id p = tid then res # results_of tid rs else results_of tid rs)"
  by (simp add: results_of_def)

text \<open>The decoder holds the first \<open>i\<close> fragments of the frame and has seen progress since \<open>t0\<close>.\<close>

definition receiving :: "encoded_frame \<Rightarrow> nat \<Rightarrow> nat \<Rightarrow> decoder \<Rightarrow> bool" where
  "receiving ef i t0 d =
     (0 < i \<and> i * PIECE < length (ef_bytes ef)
      \<and> (\<exists>f. hm_get (dc_pending d) (ef_id ef) = Some f \<and> as_total f = length (ef_bytes ef)
           \<and> as_bytes f = take (i * PIECE) (ef_bytes ef) \<and> t0 \<le> as_last_progress f))"

lemma not_expired: "t0 \<le> as_last_progress f \<Longrightarrow> now < t0 + REQUEST_TIMEOUT \<Longrightarrow> \<not> expired now f"
  by (simp add: expired_def REQUEST_TIMEOUT_def)

definition fragment_count :: "encoded_frame \<Rightarrow> nat" where
  "fragment_count ef = div_ceil (length (ef_bytes ef)) PIECE"

lemma less_fragment_count: "i < fragment_count ef \<longleftrightarrow> i * PIECE < length (ef_bytes ef)"
  by (simp add: fragment_count_def less_div_ceil_iff)

lemma receiving_own:
  assumes "channel_ok xs ys (d, r)" "frame_ok ef" "receiving ef i t0 d"
    and "t0 \<le> now" "now < t0 + REQUEST_TIMEOUT"
  shows "\<exists>res d' r'. push fs px now (fragment ef i) (d, r) = Some (res, d', r')
    \<and> channel_ok xs ys (d', r')
    \<and> (if Suc i < fragment_count ef then res = Inr None \<and> receiving ef (Suc i) t0 d'
       else res = decoded fs (ef_bytes ef))"
proof -
  from assms(3) obtain f where f: "hm_get (dc_pending d) (ef_id ef) = Some f"
    "as_total f = length (ef_bytes ef)" "as_bytes f = take (i * PIECE) (ef_bytes ef)"
    "t0 \<le> as_last_progress f" and i: "0 < i" "i * PIECE < length (ef_bytes ef)"
    by (auto simp: receiving_def)
  have "\<not> expired now f" using f(4) assms(5) by (rule not_expired)
  from push_own [OF assms(1,2) i(2) f(1-3) this i(1), of fs px] show ?thesis
    unfolding receiving_def less_fragment_count using assms(4) f(2)
    by (fastforce split: if_splits)
qed

lemma receiving_other:
  assumes "channel_ok xs ys (d, r)" "packet_id p \<noteq> ef_id ef" "receiving ef i t0 d"
    and "now < t0 + REQUEST_TIMEOUT"
  shows "\<exists>res d' r'. push fs px now p (d, r) = Some (res, d', r') \<and> channel_ok xs ys (d', r')
    \<and> receiving ef i t0 d'"
proof -
  have "\<forall>f. hm_get (dc_pending d) (ef_id ef) = Some f \<longrightarrow> \<not> expired now f"
    using assms(3,4) by (auto simp: receiving_def not_expired)
  from push_other [OF assms(1,2) this, of fs px] show ?thesis
    using assms(3) unfolding receiving_def by fastforce
qed

lemma feed_rest:
  assumes "channel_ok xs ys (d, r)" "frame_ok ef" "receiving ef i t0 d"
    and "filter (\<lambda>p. packet_id p = ef_id ef) (map snd es) = map (fragment ef) [i..<fragment_count ef]"
    and "\<forall>(now, p) \<in> set es. t0 \<le> now \<and> now < t0 + REQUEST_TIMEOUT"
    and "feed fs px es (d, r) = Some rs"
  shows "results_of (ef_id ef) rs =
    replicate (fragment_count ef - i - 1) (Inr None) @ [decoded fs (ef_bytes ef)]"
  using assms
proof (induction es arbitrary: d r i rs)
  case Nil
  then show ?case by (simp add: receiving_def flip: less_fragment_count)
next
  case (Cons e es)
  obtain now p where e: "e = (now, p)" by force
  have now: "t0 \<le> now" "now < t0 + REQUEST_TIMEOUT"
    and es: "\<forall>(now, p) \<in> set es. t0 \<le> now \<and> now < t0 + REQUEST_TIMEOUT"
    using Cons.prems(5) e by auto
  have i: "i < fragment_count ef"
    using Cons.prems(3) by (simp add: receiving_def less_fragment_count)
  show ?case
  proof (cases "packet_id p = ef_id ef")
    case False
    from receiving_other [OF Cons.prems(1) False Cons.prems(3) now(2), of fs px] obtain res d' r'
      where run: "push fs px now p (d, r) = Some (res, d', r')" "channel_ok xs ys (d', r')"
        "receiving ef i t0 d'" by blast
    from Cons.prems(6) run(1) obtain rs' where
      rs: "feed fs px es (d', r') = Some rs'" "rs = (p, res) # rs'" unfolding e by (rule feed_ConsE)
    with Cons.prems(4) Cons.IH [OF run(2) Cons.prems(2) run(3) _ es rs(1)] False show ?thesis
      by (simp add: e)
  next
    case True
    then have p: "p = fragment ef i"
      and rest: "filter (\<lambda>p. packet_id p = ef_id ef) (map snd es)
        = map (fragment ef) [Suc i..<fragment_count ef]"
      using Cons.prems(4) i e by (auto simp: upt_conv_Cons)
    from receiving_own [OF Cons.prems(1-3) now, of fs px] obtain res d' r' where
      run: "push fs px now p (d, r) = Some (res, d', r')" "channel_ok xs ys (d', r')"
      and step: "if Suc i < fragment_count ef then res = Inr None \<and> receiving ef (Suc i) t0 d'
        else res = decoded fs (ef_bytes ef)" using p by blast
    from Cons.prems(6) run(1) obtain rs' where
      rs: "feed fs px es (d', r') = Some rs'" "rs = (p, res) # rs'" unfolding e by (rule feed_ConsE)
    show ?thesis
    proof (cases "Suc i < fragment_count ef")
      case more: True
      then have "replicate (fragment_count ef - i - 1) (Inr None :: (decode_error, 'a option) result)
          = Inr None # replicate (fragment_count ef - Suc i - 1) (Inr None)"
        by (simp add: Suc_diff_Suc flip: replicate_Suc)
      then show ?thesis
        using Cons.IH [OF run(2) Cons.prems(2) _ rest es rs(1)] step more True by (simp add: rs)
    next
      case False
      then have "results_of (ef_id ef) rs' = []"
        using length_results_of [OF rs(1), of "ef_id ef"] rest by simp
      then show ?thesis using True step False i by (simp add: rs)
    qed
  qed
qed

lemma packets_are_fragments:
  "packets ef = map (fragment ef) [0..<fragment_count ef]"
  by (simp add: packets_fragments fragment_count_def)

lemma feed_frame:
  assumes "channel_ok xs ys (d, r)" and ef: "frame_ok ef"
    and "hm_get (dc_pending d) (ef_id ef) = None" "hm_get (dc_discarded d) (ef_id ef) = None"
    and "filter (\<lambda>p. packet_id p = ef_id ef) (map snd es) = packets ef"
    and "\<forall>(now, p) \<in> set es. t0 \<le> now \<and> now < t0 + REQUEST_TIMEOUT"
    and "feed fs px es (d, r) = Some rs"
    and "hd (results_of (ef_id ef) rs) = Inr x"
  shows "results_of (ef_id ef) rs =
    replicate (fragment_count ef - 1) (Inr None) @ [decoded fs (ef_bytes ef)]"
  using assms
proof (induction es arbitrary: d r rs)
  case Nil
  then show ?case
    using less_fragment_count [of 0 ef] by (simp add: packets_are_fragments frame_ok_def)
next
  case (Cons e es)
  obtain now p where e: "e = (now, p)" by force
  have now: "t0 \<le> now" "now < t0 + REQUEST_TIMEOUT"
    and es: "\<forall>(now, p) \<in> set es. t0 \<le> now \<and> now < t0 + REQUEST_TIMEOUT"
    using Cons.prems(6) e by auto
  have n: "0 < fragment_count ef"
    using ef by (simp add: less_fragment_count frame_ok_def)
  show ?case
  proof (cases "packet_id p = ef_id ef")
    case False
    from push_other [OF Cons.prems(1) False, of now fs px] Cons.prems(3,4) obtain res d' r'
      where run: "push fs px now p (d, r) = Some (res, d', r')" "channel_ok xs ys (d', r')"
        "hm_get (dc_pending d') (ef_id ef) = None" "hm_get (dc_discarded d') (ef_id ef) = None"
      by auto
    from Cons.prems(7) run(1) obtain rs' where
      rs: "feed fs px es (d', r') = Some rs'" "rs = (p, res) # rs'" unfolding e by (rule feed_ConsE)
    with Cons.prems(5,8) Cons.IH [OF run(2) ef run(3,4) _ es rs(1)] False show ?thesis
      by (simp add: e)
  next
    case True
    then have p: "p = fragment ef 0"
      and rest: "filter (\<lambda>p. packet_id p = ef_id ef) (map snd es)
        = map (fragment ef) [Suc 0..<fragment_count ef]"
      using Cons.prems(5) n e by (auto simp: packets_are_fragments upt_conv_Cons)
    from push_ok [OF Cons.prems(1), of fs px now p] obtain res d' r' where
      run: "push fs px now p (d, r) = Some (res, d', r')" "channel_ok xs ys (d', r')" by blast
    from Cons.prems(7) run(1) obtain rs' where
      rs: "feed fs px es (d', r') = Some rs'" "rs = (p, res) # rs'" unfolding e by (rule feed_ConsE)
    have "res = Inr x" using Cons.prems(8) True rs by simp
    with push_first [OF Cons.prems(1) ef Cons.prems(3,4), of fs px now x d' r'] run p
    have first: "if 1 < fragment_count ef then x = None \<and> receiving ef 1 t0 d'
        else Inr x = decoded fs (ef_bytes ef)"
      using now by (auto simp: less_fragment_count receiving_def)
    show ?thesis
    proof (cases "1 < fragment_count ef")
      case more: True
      then have "replicate (fragment_count ef - 1) (Inr None :: (decode_error, 'a option) result)
          = Inr None # replicate (fragment_count ef - 1 - 1) (Inr None)"
        by (simp flip: replicate_Suc)
      then show ?thesis
        using feed_rest [OF run(2) ef _ rest [folded One_nat_def] es rs(1)] first more True
          \<open>res = Inr x\<close> by (simp add: rs)
    next
      case False
      then have "results_of (ef_id ef) rs' = []"
        using length_results_of [OF rs(1), of "ef_id ef"] rest by simp
      then show ?thesis using True first False \<open>res = Inr x\<close> n by (simp add: rs)
    qed
  qed
qed

section \<open>Properties\<close>

text \<open>
  C13: whatever peers connect, send and close in any order, the bytes the decoders hold stay within
  the declared allowances: two maximum frames for the installation, one for all members together
  and one per account; a decoder holds no more than one frame and 32 transfers; the counters are
  exactly the declared sizes of the transfers under way.
\<close>

theorem reassembly_bounds:
  assumes "peers_reachable from_slice prefix (r, ds)"
  shows "rv_total r = sum_list (map held ds) \<and> rv_total r \<le> 2 * MAX_FRAME
    \<and> rv_members r = sum_list (map held (filter (bg_member \<circ> dc_budget) ds))
    \<and> rv_members r \<le> MAX_FRAME
    \<and> sum_list (map held (filter (\<lambda>d. bg_account (dc_budget d) = a) ds)) \<le> MAX_FRAME
    \<and> sum_list (map dc_buffered ds) \<le> rv_total r
    \<and> (\<forall>d \<in> set ds. length (dc_pending d) + length (dc_discarded d) \<le> MAX_IN_FLIGHT)"
proof -
  have ok: "peers_ok (r, ds)" using reachable_peers_ok [OF assms] .
  have usage: "usage P (map entry ds) = sum_list (map held (filter (P \<circ> dc_budget) ds))" for P
    by (induction ds) (simp_all add: entry_def)
  have "dc_buffered d \<le> held d" if "decoder_ok d" for d
  proof -
    have "\<forall>(tid, f) \<in> set (dc_pending d). length (as_bytes f) \<le> as_total f"
      using that hm.set_entries [of "dc_pending d"]
      by (auto simp: decoder_ok_def assembly_ok_def less_imp_le)
    then have "sum_list (map (\<lambda>(_, f). length (as_bytes f)) (dc_pending d))
        \<le> sum_list (map (\<lambda>(_, f). as_total f) (dc_pending d))"
      by (intro sum_list_mono) auto
    then show ?thesis using that by (simp add: decoder_ok_def held_def)
  qed
  then have "sum_list (map dc_buffered ds) \<le> sum_list (map held ds)"
    using ok by (intro sum_list_mono) (auto simp: peers_ok_def)
  moreover have "usage (\<lambda>b. bg_account b = a) (map entry ds) \<le> MAX_FRAME"
    using ok account_limit [of r "map entry ds" a] by (simp add: peers_ok_def)
  ultimately show ?thesis
    using ok usage [of "\<lambda>_. True"] usage [of bg_member] usage [of "\<lambda>b. bg_account b = a"]
    by (simp add: peers_ok_def ledger_ok_def decoder_ok_def comp_def)
qed

theorem reassembly_bounds_witness:
  "rv_total (fst sample_peers) = 3 \<and> rv_total (fst sample_peers) \<le> 2 * MAX_FRAME
    \<and> sum_list (map held (snd sample_peers)) = 3"
  using reassembly_bounds [of Some "\<lambda>_. None" "fst sample_peers" "snd sample_peers"] sample_reachable
  by (simp add: sample_peers_def)

text \<open>
  C28: no counter underflows and no lookup fails: in every reachable state each peer's next packet
  is handled, whatever its bytes are and whenever it comes, and each peer can be closed.
\<close>

theorem reassembly_never_panics:
  assumes "peers_reachable from_slice prefix (r, xs @ d # ys)"
  shows "push from_slice prefix now packet (d, r) \<noteq> None \<and> drop_decoder (d, r) \<noteq> None"
proof -
  have "channel_ok (map entry xs) (map entry ys) (d, r)"
    using reachable_peers_ok [OF assms] by (simp add: peers_channel)
  then show ?thesis
    using push_ok [of _ _ d r from_slice prefix now packet] drop_decoder_ok by fastforce
qed

theorem reassembly_never_panics_witness:
  "push Some (\<lambda>_. None) 9 [1, 2, 3] (last (snd sample_peers), fst sample_peers) \<noteq> None
    \<and> drop_decoder (last (snd sample_peers), fst sample_peers) \<noteq> None"
proof -
  have "peers_reachable Some (\<lambda>_. None)
      (fst sample_peers, butlast (snd sample_peers) @ last (snd sample_peers) # [])"
    using sample_reachable by (simp add: sample_peers_def)
  from reassembly_never_panics [OF this] show ?thesis by blast
qed

text \<open>
  C29: members cannot starve the owner: when every peer that is not a member's belongs to the
  owner's account, a reservation of that account succeeds exactly when the account itself stays
  within one frame, whatever the members hold.
\<close>

theorem owner_reserve:
  assumes reach: "peers_reachable from_slice prefix (r, ds)"
    and sole: "\<forall>d \<in> set ds. bg_member (dc_budget d) \<or> bg_account (dc_budget d) = owner"
  shows "reserve (for_account owner Owner) n r = Inl Busy \<longleftrightarrow>
    MAX_FRAME < sum_list (map held (filter (\<lambda>d. bg_account (dc_budget d) = owner) ds)) + n"
proof -
  have ok: "ledger_ok r (map entry ds)"
    using reachable_peers_ok [OF reach] by (simp add: peers_ok_def)
  have own: "account_reserved r owner
      = sum_list (map held (filter (\<lambda>d. bg_account (dc_budget d) = owner) ds))"
  proof -
    have "usage (\<lambda>b. bg_account b = owner) (map entry ds)
        = sum_list (map held (filter (\<lambda>d. bg_account (dc_budget d) = owner) ds))"
      by (induction ds) (simp_all add: entry_def)
    then show ?thesis using ok by (simp add: ledger_ok_def)
  qed
  have "usage (\<lambda>_. True) (map entry ds)
      \<le> usage bg_member (map entry ds) + usage (\<lambda>b. bg_account b = owner) (map entry ds)"
    using sole by (induction ds) (auto simp: entry_def)
  then have "rv_total r \<le> MAX_FRAME + account_reserved r owner"
    using ok by (simp add: ledger_ok_def)
  then show ?thesis
    by (auto simp: reserve_def for_account_def Let_def simp flip: own)
qed

theorem owner_reserve_witness:
  "reserve (for_account ''eve'' Owner) MAX_FRAME (fst sample_peers) \<noteq> Inl Busy"
proof -
  have "\<forall>d \<in> set (snd sample_peers). bg_member (dc_budget d) \<or> bg_account (dc_budget d) = ''eve''"
    by (simp add: sample_peers_def with_budget_def for_account_def)
  moreover have "sum_list (map held (filter (\<lambda>d. bg_account (dc_budget d) = ''eve'') (snd sample_peers))) = 0"
    by (simp add: sample_peers_def with_budget_def for_account_def held_def)
  ultimately show ?thesis
    using owner_reserve [of Some "\<lambda>_. None" "fst sample_peers" "snd sample_peers" "''eve''" MAX_FRAME]
      sample_reachable by simp
qed


definition sample_json :: "byte list \<Rightarrow> byte list option" where
  "sample_json bytes = (if bytes = [] then None else Some bytes)"


end
