(* ===== verification/Net_Addr.thy ===== *)
theory Net_Addr
  imports Rust_Str
begin

text \<open>
  IP addresses of the standard library: the textual parser of \<open>std::net::IpAddr\<close> and the
  address classes that the candidate filter consults. An IPv4 address is its four octets, an
  IPv6 address its eight 16-bit groups.
\<close>

datatype ip_addr = V4 nat nat nat nat | V6 "nat list"

section \<open>Parser\<close>

type_synonym 'a parser = "string \<Rightarrow> ('a \<times> string) option"

definition hex_value :: "char \<Rightarrow> nat" where
  "hex_value c =
     (if is_digit c then code c - 48 else if is_lower c then code c - 87 else code c - 55)"

definition read_char :: "char \<Rightarrow> unit parser" where
  "read_char c s = (case s of [] \<Rightarrow> None | x # xs \<Rightarrow> if x = c then Some ((), xs) else None)"

text \<open>
  \<open>read_number\<close>: all following digits of the radix; no value when there is no digit, more than
  \<open>max_digits\<close>, a superfluous leading zero (decimal only) or a value out of range.
\<close>

definition read_number ::
  "(char \<Rightarrow> bool) \<Rightarrow> (char \<Rightarrow> nat) \<Rightarrow> nat \<Rightarrow> nat \<Rightarrow> bool \<Rightarrow> nat \<Rightarrow> nat parser" where
  "read_number is_dig val radix max_digits allow_zero_prefix limit s =
     (let ds = takeWhile is_dig s;
          n = foldl (\<lambda>n c. radix * n + val c) 0 ds
      in if ds = [] \<or> max_digits < length ds \<or> limit \<le> n
            \<or> (\<not> allow_zero_prefix \<and> hd ds = CHR ''0'' \<and> 1 < length ds)
         then None else Some (n, drop (length ds) s))"

abbreviation "read_octet \<equiv> read_number is_digit digit_value 10 3 False 256"
abbreviation "read_group \<equiv> read_number is_hexdigit hex_value 16 4 True 65536"

definition read_separated :: "char \<Rightarrow> nat \<Rightarrow> 'a parser \<Rightarrow> 'a parser" where
  "read_separated c i p s =
     (if i = 0 then p s
      else (case read_char c s of None \<Rightarrow> None | Some (_, r) \<Rightarrow> p r))"

definition read_ipv4 :: "(nat \<times> nat \<times> nat \<times> nat) parser" where
  "read_ipv4 s =
     (case read_octet s of None \<Rightarrow> None | Some (a, s1) \<Rightarrow>
      (case read_separated CHR ''.'' 1 read_octet s1 of None \<Rightarrow> None | Some (b, s2) \<Rightarrow>
       (case read_separated CHR ''.'' 2 read_octet s2 of None \<Rightarrow> None | Some (c, s3) \<Rightarrow>
        (case read_separated CHR ''.'' 3 read_octet s3 of None \<Rightarrow> None | Some (d, s4) \<Rightarrow>
           Some ((a, b, c, d), s4)))))"

text \<open>
  \<open>read_groups\<close>: up to \<open>left\<close> further groups after \<open>i\<close> groups, with a trailing embedded IPv4
  address where at least two groups remain. The flag says that such an address was read.
\<close>

fun read_groups :: "nat \<Rightarrow> nat \<Rightarrow> string \<Rightarrow> nat list \<times> bool \<times> string" where
  "read_groups i 0 s = ([], False, s)"
| "read_groups i (Suc left) s =
     (case (if 0 < left then read_separated CHR '':'' i read_ipv4 s else None) of
        Some ((a, b, c, d), r) \<Rightarrow> ([256 * a + b, 256 * c + d], True, r)
      | None \<Rightarrow>
          (case read_separated CHR '':'' i read_group s of
             None \<Rightarrow> ([], False, s)
           | Some (g, r) \<Rightarrow>
               (case read_groups (Suc i) left r of (gs, v4, r') \<Rightarrow> (g # gs, v4, r'))))"

definition read_ipv6 :: "nat list parser" where
  "read_ipv6 s =
     (case read_groups 0 8 s of (head, v4, s1) \<Rightarrow>
        if length head = 8 then Some (head, s1)
        else if v4 then None
        else (case read_char CHR '':'' s1 of None \<Rightarrow> None | Some (_, s2) \<Rightarrow>
               (case read_char CHR '':'' s2 of None \<Rightarrow> None | Some (_, s3) \<Rightarrow>
                  (case read_groups 0 (7 - length head) s3 of (tail, _, s4) \<Rightarrow>
                     Some (head @ replicate (8 - length head - length tail) 0 @ tail, s4)))))"

text \<open>\<open>str::parse::<IpAddr>\<close>: IPv4 first, then IPv6, and nothing may follow.\<close>

definition parse_ip :: "string \<Rightarrow> ip_addr option" where
  "parse_ip s =
     (case read_ipv4 s of
        Some ((a, b, c, d), r) \<Rightarrow> if r = [] then Some (V4 a b c d) else None
      | None \<Rightarrow>
          (case read_ipv6 s of
             Some (gs, r) \<Rightarrow> if r = [] then Some (V6 gs) else None
           | None \<Rightarrow> None))"

section \<open>Address classes\<close>

definition v4_loopback :: "ip_addr \<Rightarrow> bool" where
  "v4_loopback ip = (case ip of V4 a b c d \<Rightarrow> a = 127 | _ \<Rightarrow> False)"

definition v4_link_local :: "ip_addr \<Rightarrow> bool" where
  "v4_link_local ip = (case ip of V4 a b c d \<Rightarrow> a = 169 \<and> b = 254 | _ \<Rightarrow> False)"

definition v4_unspecified :: "ip_addr \<Rightarrow> bool" where
  "v4_unspecified ip = (ip = V4 0 0 0 0)"

definition v4_multicast :: "ip_addr \<Rightarrow> bool" where
  "v4_multicast ip = (case ip of V4 a b c d \<Rightarrow> 224 \<le> a \<and> a \<le> 239 | _ \<Rightarrow> False)"

definition v4_broadcast :: "ip_addr \<Rightarrow> bool" where
  "v4_broadcast ip = (ip = V4 255 255 255 255)"

definition v6_loopback :: "nat list \<Rightarrow> bool" where
  "v6_loopback gs = (gs = [0, 0, 0, 0, 0, 0, 0, 1])"

definition v6_unspecified :: "nat list \<Rightarrow> bool" where
  "v6_unspecified gs = (gs = [0, 0, 0, 0, 0, 0, 0, 0])"

text \<open>\<open>fe80::/10\<close> and \<open>ff00::/8\<close>.\<close>

definition v6_link_local :: "nat list \<Rightarrow> bool" where
  "v6_link_local gs = (case gs of g # _ \<Rightarrow> g div 64 = 1018 | [] \<Rightarrow> False)"

definition v6_multicast :: "nat list \<Rightarrow> bool" where
  "v6_multicast gs = (case gs of g # _ \<Rightarrow> g div 256 = 255 | [] \<Rightarrow> False)"

text \<open>\<open>Ipv6Addr::to_ipv4_mapped\<close>: only \<open>::ffff:a.b.c.d\<close>.\<close>

definition to_ipv4_mapped :: "nat list \<Rightarrow> ip_addr option" where
  "to_ipv4_mapped gs =
     (case gs of
        [0, 0, 0, 0, 0, f, x, y] \<Rightarrow>
          if f = 65535 then Some (V4 (x div 256) (x mod 256) (y div 256) (y mod 256)) else None
      | _ \<Rightarrow> None)"

section \<open>Well-formed results\<close>

lemma read_number_bound: "read_number is_dig val radix m z limit s = Some (n, r) \<Longrightarrow> n < limit"
  by (auto simp: read_number_def Let_def split: if_splits)

lemma read_separated_bound:
  "read_separated c i (read_number is_dig val radix m z limit) s = Some (n, r) \<Longrightarrow> n < limit"
  by (auto simp: read_separated_def dest: read_number_bound split: if_splits option.splits)

lemma read_ipv4_bound:
  "read_ipv4 s = Some ((a, b, c, d), r) \<Longrightarrow> a < 256 \<and> b < 256 \<and> c < 256 \<and> d < 256"
  by (auto simp: read_ipv4_def dest!: read_number_bound read_separated_bound
      split: option.splits)

lemma read_ipv4_separated_bound:
  "read_separated ch i read_ipv4 s = Some ((a, b, c, d), r) \<Longrightarrow>
   a < 256 \<and> b < 256 \<and> c < 256 \<and> d < 256"
  by (auto simp: read_separated_def dest: read_ipv4_bound split: if_splits option.splits)

lemma read_groups_ok:
  "read_groups i left s = (gs, v4, r) \<Longrightarrow> length gs \<le> left \<and> (\<forall>g \<in> set gs. g < 65536)"
proof (induction i left s arbitrary: gs v4 r rule: read_groups.induct)
  case (1 i s)
  then show ?case by simp
next
  case (2 i left s)
  show ?case
  proof (cases "if 0 < left then read_separated CHR '':'' i read_ipv4 s else None")
    case None
    with "2.prems" "2.IH" show ?thesis
      by (fastforce split: option.splits prod.splits dest: read_separated_bound)
  next
    case (Some q)
    then obtain a b c d r0 where q: "q = ((a, b, c, d), r0)" by (metis prod.exhaust)
    with Some have "0 < left" and "read_separated CHR '':'' i read_ipv4 s = Some ((a, b, c, d), r0)"
      by (auto split: if_splits)
    with "2.prems" Some q show ?thesis
      by (auto dest!: read_ipv4_separated_bound)
  qed
qed

definition ip_ok :: "ip_addr \<Rightarrow> bool" where
  "ip_ok ip = (case ip of V4 a b c d \<Rightarrow> a < 256 \<and> b < 256 \<and> c < 256 \<and> d < 256
     | V6 gs \<Rightarrow> length gs = 8 \<and> (\<forall>g \<in> set gs. g < 65536))"

lemma read_ipv6_ok: "read_ipv6 s = Some (gs, r) \<Longrightarrow> length gs = 8 \<and> (\<forall>g \<in> set gs. g < 65536)"
  by (auto simp: read_ipv6_def split: prod.splits if_splits option.splits dest!: read_groups_ok)

lemma parse_ip_ok: "parse_ip s = Some ip \<Longrightarrow> ip_ok ip"
  by (auto simp: parse_ip_def ip_ok_def split: option.splits if_splits prod.splits
      dest: read_ipv4_bound read_ipv6_ok)

end
