(* ===== verification/Direct.thy ===== *)
theory Direct
  imports Protocol Rust_Map Net_Addr
begin

text \<open>
  Direct connections, \<open>crates/protocol/src/direct.rs\<close>: the admission quotas of signals and
  connections, the syntax and sanitising of session descriptions and ICE candidates, and the
  verifier of signed authorizations with its revocations. Base64, Ed25519 and the JSON text of
  the claims are parameters. \<open>SystemTime\<close> is the number of nanoseconds since the epoch
  and \<open>Instant\<close> a number of nanoseconds; both are arguments of the operations that read them.
\<close>

section \<open>Limits and claims\<close>

definition DIRECT_VERSION :: nat where
  "DIRECT_VERSION = 4"

definition DIRECT_TTL :: nat where
  "DIRECT_TTL = 180"

definition DIRECT_CLOCK_SKEW :: nat where
  "DIRECT_CLOCK_SKEW = 30"

definition MAX_DIRECT_CONNECTIONS :: nat where
  "MAX_DIRECT_CONNECTIONS = 32"

definition MAX_DIRECT_PER_ACCOUNT :: nat where
  "MAX_DIRECT_PER_ACCOUNT = 8"

definition MAX_DIRECT_MEMBER_CONNECTIONS :: nat where
  "MAX_DIRECT_MEMBER_CONNECTIONS = MAX_DIRECT_CONNECTIONS - MAX_DIRECT_PER_ACCOUNT"

definition MAX_SIGNAL :: nat where
  "MAX_SIGNAL = 16384"

definition MAX_SIGNALS_PER_ACCOUNT :: nat where
  "MAX_SIGNALS_PER_ACCOUNT = 120"

definition MAX_SIGNALS_PER_TUNNEL :: nat where
  "MAX_SIGNALS_PER_TUNNEL = 960"

definition SIGNING_CONTEXT :: "byte list" where
  "SIGNING_CONTEXT = map (\<lambda>c. of_nat (code c)) ''cairn-direct-authorization-v4'' @ [0]"

record direct_claims =
  cl_connection_id :: string
  cl_installation_id :: string
  cl_account_id :: string
  cl_role :: role
  cl_session_id :: string
  cl_generation :: nat
  cl_fingerprint :: string
  cl_expires_at :: nat
  cl_nonce :: string

record direct_authorization =
  au_claims :: direct_claims
  au_signature :: string

section \<open>Fingerprints of a session description\<close>

definition uppercase_line :: "string \<Rightarrow> string" where
  "uppercase_line line =
     (case strip_prefix ''a=fingerprint:sha-256 '' line of
        Some fingerprint \<Rightarrow> ''a=fingerprint:sha-256 '' @ map to_upper fingerprint
      | None \<Rightarrow> line)"

definition uppercase_sdp_fingerprints :: "string \<Rightarrow> string" where
  "uppercase_sdp_fingerprints sdp = crlf_join (map uppercase_line (str_lines sdp))"

definition valid_fingerprint :: "string \<Rightarrow> bool" where
  "valid_fingerprint fingerprint =
     (case strip_prefix ''sha-256 '' fingerprint of
        None \<Rightarrow> False
      | Some digest \<Rightarrow>
          (let octets = split_on CHR '':'' digest
           in length octets = 32
              \<and> list_all (\<lambda>octet. length octet = 2
                   \<and> list_all (\<lambda>b. is_hexdigit b \<and> \<not> is_lower b) octet) octets))"

section \<open>Admission quotas\<close>

record signal_budget =
  sb_started :: nat
  sb_accounts :: "(string, nat) hash_map"
  sb_total :: nat
  sb_members :: nat

definition signal_budget_default :: "nat \<Rightarrow> signal_budget" where
  "signal_budget_default now = \<lparr>sb_started = now, sb_accounts = [], sb_total = 0, sb_members = 0\<rparr>"

definition signals_of :: "signal_budget \<Rightarrow> string \<Rightarrow> nat" where
  "signals_of b a = (case hm_get (sb_accounts b) a of None \<Rightarrow> 0 | Some n \<Rightarrow> n)"

definition consume :: "nat \<Rightarrow> direct_claims \<Rightarrow> signal_budget \<Rightarrow> bool \<times> signal_budget" where
  "consume now claims b0 =
     (let b = (if 60 * 10 ^ 9 \<le> now - sb_started b0 then signal_budget_default now else b0);
          account_count = signals_of b (cl_account_id claims);
          member_capacity_reached =
            (cl_role claims = Member
             \<and> MAX_SIGNALS_PER_TUNNEL - MAX_SIGNALS_PER_ACCOUNT \<le> sb_members b)
      in if MAX_SIGNALS_PER_ACCOUNT \<le> account_count \<or> MAX_SIGNALS_PER_TUNNEL \<le> sb_total b
            \<or> member_capacity_reached
         then (False, b)
         else (True, b\<lparr>sb_accounts := hm_insert (cl_account_id claims) (account_count + 1) (sb_accounts b),
                       sb_total := sb_total b + 1,
                       sb_members := (if cl_role claims = Member then sb_members b + 1
                                      else sb_members b)\<rparr>))"

fun count_existing :: "direct_claims \<Rightarrow> direct_claims list \<Rightarrow> nat \<times> nat \<times> nat \<Rightarrow> nat \<times> nat \<times> nat" where
  "count_existing candidate [] counts = counts"
| "count_existing candidate (c # cs) (connections, members, accounts) =
     count_existing candidate cs
       (connections + 1,
        members + (if cl_role c = Member then 1 else 0),
        accounts + (if cl_account_id c = cl_account_id candidate then 1 else 0))"

definition has_direct_capacity :: "direct_claims \<Rightarrow> direct_claims list \<Rightarrow> bool" where
  "has_direct_capacity candidate existing =
     (case count_existing candidate existing (0, 0, 0) of
        (connection_count, member_count, account_count) \<Rightarrow>
          connection_count < MAX_DIRECT_CONNECTIONS
          \<and> account_count < MAX_DIRECT_PER_ACCOUNT
          \<and> (cl_role candidate = Owner \<or> member_count < MAX_DIRECT_MEMBER_CONNECTIONS))"

section \<open>Clock\<close>

definition unix_time :: "nat \<Rightarrow> nat" where
  "unix_time clock = clock div 10 ^ 9"

definition until_expiry :: "nat \<Rightarrow> nat \<Rightarrow> nat" where
  "until_expiry deadline clock = deadline * 10 ^ 9 - clock"

section \<open>Syntax of candidates and descriptions\<close>

definition token :: "string \<Rightarrow> nat \<Rightarrow> bool" where
  "token value maximum =
     (value \<noteq> [] \<and> length value \<le> maximum
      \<and> list_all (\<lambda>b. is_alphanumeric b \<or> b \<in> {CHR ''+'', CHR ''/'', CHR ''-'', CHR ''_''}) value)"

definition valid_address :: "string \<Rightarrow> string \<Rightarrow> bool" where
  "valid_address family value =
     (case parse_ip value of
        Some (V4 _ _ _ _) \<Rightarrow> family = ''IP4''
      | Some (V6 _) \<Rightarrow> family = ''IP6''
      | None \<Rightarrow> False)"

definition usable_candidate_address :: "ip_addr \<Rightarrow> bool" where
  "usable_candidate_address ip0 =
     (let ip = (case ip0 of
                  V6 gs \<Rightarrow> (case to_ipv4_mapped gs of Some v4 \<Rightarrow> v4 | None \<Rightarrow> V6 gs)
                | _ \<Rightarrow> ip0)
      in case ip of
           V4 _ _ _ _ \<Rightarrow>
             \<not> v4_loopback ip \<and> \<not> v4_link_local ip \<and> \<not> v4_unspecified ip \<and> \<not> v4_multicast ip
             \<and> \<not> v4_broadcast ip
         | V6 gs \<Rightarrow>
             \<not> v6_loopback gs \<and> \<not> v6_link_local gs \<and> \<not> v6_unspecified gs \<and> \<not> v6_multicast gs)"

definition candidate_address :: "string \<Rightarrow> bool" where
  "candidate_address value =
     (parse_ip value \<noteq> None
      \<or> (case strip_suffix ''.local'' value of Some name \<Rightarrow> token name 64 | None \<Rightarrow> False))"

definition candidate_extension :: "string list \<Rightarrow> bool" where
  "candidate_extension pair =
     (case pair of
        [key, value] \<Rightarrow>
          if key = ''raddr'' then candidate_address value
          else if key = ''rport'' then parse_u16 value \<noteq> None
          else if key \<in> {''generation'', ''network-id'', ''network-cost''} then parse_u32 value \<noteq> None
          else if key = ''ufrag'' then token value 256
          else if key = ''tcptype'' then value \<in> {''active'', ''passive'', ''so''}
          else False
      | _ \<Rightarrow> False)"

definition candidate_syntax :: "string \<Rightarrow> bool" where
  "candidate_syntax candidate =
     (if candidate = [] then True
      else if 1024 < length candidate then False
      else (case strip_prefix ''candidate:'' candidate of
              None \<Rightarrow> False
            | Some value \<Rightarrow>
                (let words = split_on CHR '' '' value
                 in if length words < 8 then False
                    else token (words ! 0) 32
                      \<and> words ! 1 = ''1''
                      \<and> words ! 2 \<in> {''udp'', ''UDP'', ''tcp'', ''TCP''}
                      \<and> parse_u32 (words ! 3) \<noteq> None
                      \<and> candidate_address (words ! 4)
                      \<and> parse_u16 (words ! 5) \<noteq> None
                      \<and> words ! 6 = ''typ''
                      \<and> words ! 7 \<in> {''host'', ''srflx'', ''prflx'', ''relay''}
                      \<and> list_all candidate_extension (chunks 2 (drop 8 words)))))"

definition usable_candidate :: "string \<Rightarrow> bool" where
  "usable_candidate candidate =
     (case nth_opt 4 (split_ascii_whitespace candidate) of
        None \<Rightarrow> False
      | Some value \<Rightarrow> (case parse_ip value of None \<Rightarrow> False | Some ip \<Rightarrow> usable_candidate_address ip))"

definition valid_candidate :: "string \<Rightarrow> bool" where
  "valid_candidate candidate =
     (candidate_syntax candidate
      \<and> (candidate = []
         \<or> (case nth_opt 4 (split_ascii_whitespace candidate) of
              None \<Rightarrow> False
            | Some value \<Rightarrow>
                (case parse_ip value of None \<Rightarrow> True | Some ip \<Rightarrow> usable_candidate_address ip))))"

definition fixed_lines :: "string list" where
  "fixed_lines =
     [''v=0'', ''s=-'', ''t=0 0'', ''a=ice-options:trickle'', ''a=end-of-candidates'',
      ''a=extmap-allow-mixed'', ''a=setup:actpass'', ''a=setup:active'', ''a=setup:passive'',
      ''a=sendrecv'', ''a=msid-semantic:WMS'', ''a=msid-semantic:WMS *'', ''a=msid-semantic: WMS'',
      ''a=msid-semantic: WMS *'']"

definition session_line :: "string \<Rightarrow> bool" where
  "session_line line =
     (case split_on CHR '' '' line of
        [w0, session, version, w3, family, address] \<Rightarrow>
          w0 = ''o=-'' \<and> w3 = ''IN'' \<and> parse_u64 session \<noteq> None \<and> parse_u64 version \<noteq> None
          \<and> valid_address family address
      | [w0, family, address] \<Rightarrow> w0 = ''c=IN'' \<and> valid_address family address
      | [w0, port, w2, w3] \<Rightarrow>
          w0 = ''m=application'' \<and> w2 = ''UDP/DTLS/SCTP'' \<and> w3 = ''webrtc-datachannel''
          \<and> parse_u16 port \<noteq> None
      | _ \<Rightarrow> False)"

text \<open>The first of the prefixes that the line has decides, with the check for its value.\<close>

definition line_rules :: "(string \<times> (string \<Rightarrow> bool)) list" where
  "line_rules =
     [(''a=fingerprint:'', valid_fingerprint),
      (''a=candidate:'', \<lambda>v. valid_candidate (''candidate:'' @ v)),
      (''a=mid:'', \<lambda>v. token v 256),
      (''a=ice-ufrag:'', \<lambda>v. token v 256),
      (''a=ice-pwd:'', \<lambda>v. token v 256),
      (''a=sctp-port:'', \<lambda>v. parse_u32 v \<noteq> None),
      (''a=max-message-size:'', \<lambda>v. parse_u32 v \<noteq> None),
      (''a=group:BUNDLE '', \<lambda>v. list_all (\<lambda>mid. token mid 32) (split_on CHR '' '' v))]"

fun first_rule :: "(string \<times> (string \<Rightarrow> bool)) list \<Rightarrow> string \<Rightarrow> bool option" where
  "first_rule [] line = None"
| "first_rule ((prefix, check) # rules) line =
     (case strip_prefix prefix line of
        Some v \<Rightarrow> Some (check v)
      | None \<Rightarrow> first_rule rules line)"

definition sdp_line :: "string \<Rightarrow> bool" where
  "sdp_line line =
     (if line \<in> set fixed_lines then True
      else (case first_rule line_rules line of
              Some ok \<Rightarrow> ok
            | None \<Rightarrow> session_line line))"

section \<open>Signals\<close>

datatype direct_signal =
    Offer string
  | Answer string
  | Candidate string "string option" "nat option"

definition sdp_valid :: "string \<Rightarrow> bool" where
  "sdp_valid sdp =
     (length sdp \<le> MAX_SIGNAL
      \<and> starts_with (''v=0'' @ [CR, NL]) sdp
      \<and> list_all sdp_line (str_lines sdp)
      \<and> list_ex (starts_with ''m=application '') (str_lines sdp)
      \<and> list_ex (\<lambda>line. case strip_prefix ''a=fingerprint:'' line of
            Some f \<Rightarrow> valid_fingerprint f | None \<Rightarrow> False) (str_lines sdp))"

fun signal_valid :: "direct_signal \<Rightarrow> bool" where
  "signal_valid (Offer sdp) = sdp_valid sdp"
| "signal_valid (Answer sdp) = sdp_valid sdp"
| "signal_valid (Candidate candidate sdp_mid sdp_m_line_index) =
     (valid_candidate candidate
      \<and> (case sdp_mid of
           None \<Rightarrow> True
         | Some mid \<Rightarrow> length mid \<le> 32 \<and> list_all (\<lambda>b. is_alphanumeric b \<or> b = CHR ''-'') mid)
      \<and> (case sdp_m_line_index of None \<Rightarrow> True | Some index \<Rightarrow> index = 0))"

text \<open>
  The candidate named by an attribute line, and the loop over the lines of a description:
  whether a candidate was seen, whether a usable one was, and the lines kept.
\<close>

definition line_candidate :: "string \<Rightarrow> string option" where
  "line_candidate line =
     (case strip_prefix ''a='' line of
        Some candidate \<Rightarrow> if starts_with ''candidate:'' candidate then Some candidate else None
      | None \<Rightarrow> None)"

fun sanitize_lines ::
  "string list \<Rightarrow> bool \<Rightarrow> bool \<Rightarrow> string list \<Rightarrow> (string, bool \<times> bool \<times> string list) result" where
  "sanitize_lines [] had usable ls = Inr (had, usable, ls)"
| "sanitize_lines (line # rest) had usable ls =
     (case line_candidate line of
        None \<Rightarrow> sanitize_lines rest had usable (ls @ [line])
      | Some candidate \<Rightarrow>
          if \<not> candidate_syntax candidate then Inl ''Invalid ICE candidate''
          else if \<not> usable_candidate candidate then sanitize_lines rest True usable ls
          else sanitize_lines rest True True (ls @ [line]))"

definition sanitize_sdp :: "string \<Rightarrow> (string, string) result" where
  "sanitize_sdp sdp =
     (if MAX_SIGNAL < length sdp \<or> \<not> starts_with (''v=0'' @ [CR, NL]) sdp
      then Inl ''Invalid direct SDP''
      else (case sanitize_lines (str_lines sdp) False False [] of
              Inl e \<Rightarrow> Inl e
            | Inr (had_candidates, usable, ls) \<Rightarrow>
                if had_candidates \<and> \<not> usable then Inl ''No usable numeric ICE candidate''
                else Inr (crlf_join ls)))"

definition checked_signal :: "direct_signal \<Rightarrow> (string, direct_signal option) result" where
  "checked_signal s = (if \<not> signal_valid s then Inl ''Invalid direct signal'' else Inr (Some s))"

fun sanitize_candidates :: "direct_signal \<Rightarrow> (string, direct_signal option) result" where
  "sanitize_candidates (Offer sdp) =
     (case sanitize_sdp sdp of Inl e \<Rightarrow> Inl e | Inr sdp' \<Rightarrow> checked_signal (Offer sdp'))"
| "sanitize_candidates (Answer sdp) =
     (case sanitize_sdp sdp of Inl e \<Rightarrow> Inl e | Inr sdp' \<Rightarrow> checked_signal (Answer sdp'))"
| "sanitize_candidates (Candidate candidate sdp_mid sdp_m_line_index) =
     (if \<not> candidate_syntax candidate \<or> \<not> signal_valid (Candidate [] sdp_mid sdp_m_line_index)
      then Inl ''Invalid ICE candidate''
      else if candidate \<noteq> [] \<and> \<not> usable_candidate candidate then Inr None
      else checked_signal (Candidate candidate sdp_mid sdp_m_line_index))"

fun signal_sdp :: "direct_signal \<Rightarrow> string option" where
  "signal_sdp (Offer sdp) = Some sdp"
| "signal_sdp (Answer sdp) = Some sdp"
| "signal_sdp (Candidate _ _ _) = None"

definition matches_client_fingerprint :: "direct_signal \<Rightarrow> string \<Rightarrow> bool" where
  "matches_client_fingerprint s fingerprint =
     (case signal_sdp s of
        Some sdp \<Rightarrow>
          (let fingerprints = List.map_filter (strip_prefix ''a=fingerprint:'') (str_lines sdp)
           in fingerprints \<noteq> [] \<and> list_all (\<lambda>v. v = fingerprint) fingerprints)
      | None \<Rightarrow> True)"

section \<open>The verifier\<close>

datatype direct_revocation =
    Account string nat
  | Session string
  | Installation

record direct_verifier =
  dv_installation :: string
  dv_public_key :: "byte list"
  dv_generations :: "(string, nat) hash_map"
  dv_nonces :: "(string, nat) hash_map"
  dv_sessions :: "(string, nat) hash_map"

text \<open>What the verifier uses of base64, the JSON serialiser and Ed25519.\<close>

record crypto =
  cr_decode :: "string \<Rightarrow> byte list option"
  cr_to_vec :: "direct_claims \<Rightarrow> byte list"
  cr_ed25519 :: "byte list \<Rightarrow> byte list \<Rightarrow> byte list \<Rightarrow> bool"

definition signing_bytes :: "crypto \<Rightarrow> direct_claims \<Rightarrow> byte list" where
  "signing_bytes cr claims = SIGNING_CONTEXT @ cr_to_vec cr claims"

definition verifier_new :: "crypto \<Rightarrow> string \<Rightarrow> string \<Rightarrow> (string, direct_verifier) result" where
  "verifier_new cr installation public_key =
     (case cr_decode cr public_key of
        None \<Rightarrow> Inl ''Invalid signing key''
      | Some key \<Rightarrow>
          if length key \<noteq> 32 then Inl ''Invalid signing key''
          else Inr \<lparr>dv_installation = installation, dv_public_key = key, dv_generations = [],
                    dv_nonces = [], dv_sessions = []\<rparr>)"

definition signature_ok :: "crypto \<Rightarrow> direct_authorization \<Rightarrow> direct_verifier \<Rightarrow> bool" where
  "signature_ok cr authorization v =
     (case cr_decode cr (au_signature authorization) of
        None \<Rightarrow> False
      | Some signature \<Rightarrow>
          cr_ed25519 cr (dv_public_key v) (signing_bytes cr (au_claims authorization)) signature)"

definition generation_of :: "direct_verifier \<Rightarrow> string \<Rightarrow> nat" where
  "generation_of v account = (case hm_get (dv_generations v) account of None \<Rightarrow> 0 | Some g \<Rightarrow> g)"

definition claims_refused :: "nat \<Rightarrow> direct_claims \<Rightarrow> direct_verifier \<Rightarrow> bool" where
  "claims_refused now claims v =
     (cl_installation_id claims \<noteq> dv_installation v
      \<or> cl_expires_at claims \<le> now
      \<or> now + DIRECT_TTL + DIRECT_CLOCK_SKEW < cl_expires_at claims
      \<or> \<not> valid_fingerprint (cl_fingerprint claims)
      \<or> cl_connection_id claims = [] \<or> cl_account_id claims = []
      \<or> cl_session_id claims = [] \<or> cl_nonce claims = []
      \<or> cl_generation claims \<noteq> generation_of v (cl_account_id claims)
      \<or> hm_contains (dv_sessions v) (cl_session_id claims))"

definition verify ::
  "crypto \<Rightarrow> nat \<Rightarrow> direct_authorization \<Rightarrow> direct_verifier \<Rightarrow>
   (string, direct_claims) result \<times> direct_verifier" where
  "verify cr clock authorization v0 =
     (let now = unix_time clock;
          v = v0\<lparr>dv_nonces := hm_retain (\<lambda>_ deadline. now < deadline) (dv_nonces v0),
                 dv_sessions := hm_retain (\<lambda>_ deadline. now < deadline) (dv_sessions v0)\<rparr>;
          claims = au_claims authorization
      in if \<not> signature_ok cr authorization v then (Inl ''Invalid signature'', v)
         else if claims_refused now claims v then (Inl ''Invalid direct authorization'', v)
         else if hm_contains (dv_nonces v) (cl_nonce claims) then (Inl ''Replayed authorization'', v)
         else if 4096 \<le> length (dv_nonces v) then (Inl ''Authorization verification busy'', v)
         else (Inr claims,
               v\<lparr>dv_nonces := hm_insert (cl_nonce claims) (cl_expires_at claims) (dv_nonces v)\<rparr>))"

fun revoke :: "nat \<Rightarrow> direct_revocation \<Rightarrow> direct_verifier \<Rightarrow> direct_verifier" where
  "revoke clock (Account account_id generation) v =
     v\<lparr>dv_generations := hm_insert account_id generation (dv_generations v)\<rparr>"
| "revoke clock (Session session_id) v =
     v\<lparr>dv_sessions := hm_insert session_id (unix_time clock + DIRECT_TTL + DIRECT_CLOCK_SKEW)
                       (dv_sessions v)\<rparr>"
| "revoke clock Installation v = v\<lparr>dv_public_key := []\<rparr>"

end
