(* ===== verification/Direct_Verifier.thy ===== *)
theory Direct_Verifier
  imports Direct
begin

text \<open>
  Proofs about the verifier of direct authorizations. Its history is a sequence of events, and
  each protection is a guard that the events keep: the locale \<open>guarded_run\<close> states that once,
  and is interpreted for the replay, session, account and installation guards.
\<close>

section \<open>Guards kept along a run\<close>

locale guarded_run =
  fixes step :: "'e \<Rightarrow> 's \<Rightarrow> 's" and guard :: "'s \<Rightarrow> bool" and mild :: "'e \<Rightarrow> bool"
  assumes keep: "guard s \<Longrightarrow> mild e \<Longrightarrow> guard (step e s)"
begin

lemma run_keeps: "guard s \<Longrightarrow> list_all mild es \<Longrightarrow> guard (fold step es s)"
  by (induction es arbitrary: s) (auto simp: keep)

end

section \<open>Histories\<close>

datatype verifier_event =
    Verify nat direct_authorization
  | Revoke nat direct_revocation

fun event_time :: "verifier_event \<Rightarrow> nat" where
  "event_time (Verify clock _) = unix_time clock"
| "event_time (Revoke clock _) = unix_time clock"

fun verifier_step :: "crypto \<Rightarrow> verifier_event \<Rightarrow> direct_verifier \<Rightarrow> direct_verifier" where
  "verifier_step cr (Verify clock authorization) v = snd (verify cr clock authorization v)"
| "verifier_step cr (Revoke clock scope) v = revoke clock scope v"

definition verifier_run :: "crypto \<Rightarrow> verifier_event list \<Rightarrow> direct_verifier \<Rightarrow> direct_verifier" where
  "verifier_run cr = fold (verifier_step cr)"

definition verifier_ok :: "direct_verifier \<Rightarrow> bool" where
  "verifier_ok v =
     (hm_ok (dv_generations v) \<and> hm_ok (dv_nonces v) \<and> hm_ok (dv_sessions v)
      \<and> length (dv_nonces v) \<le> 4096)"

lemma verify_accept:
  assumes "verify cr clock a v = (Inr claims, v')"
  shows "claims = au_claims a" and "signature_ok cr a v"
    and "cl_expires_at claims > unix_time clock"
    and "cl_expires_at claims \<le> unix_time clock + DIRECT_TTL + DIRECT_CLOCK_SKEW"
    and "cl_generation claims = generation_of v (cl_account_id claims)"
    and "hm_get (hm_retain (\<lambda>_ deadline. unix_time clock < deadline) (dv_sessions v))
           (cl_session_id claims) = None"
    and "hm_get (hm_retain (\<lambda>_ deadline. unix_time clock < deadline) (dv_nonces v))
           (cl_nonce claims) = None"
    and "v' = v\<lparr>dv_nonces := hm_insert (cl_nonce claims) (cl_expires_at claims)
           (hm_retain (\<lambda>_ deadline. unix_time clock < deadline) (dv_nonces v)),
           dv_sessions := hm_retain (\<lambda>_ deadline. unix_time clock < deadline) (dv_sessions v)\<rparr>"
  using assms
  by (auto simp: verify_def Let_def claims_refused_def signature_ok_def generation_of_def
      hm_contains_def split: if_splits option.splits)

lemma verify_reject:
  assumes "verify cr clock a v = (Inl e, v')"
  shows "v' = v\<lparr>dv_nonces := hm_retain (\<lambda>_ deadline. unix_time clock < deadline) (dv_nonces v),
      dv_sessions := hm_retain (\<lambda>_ deadline. unix_time clock < deadline) (dv_sessions v)\<rparr>"
  using assms by (auto simp: verify_def Let_def split: if_splits)

lemma verify_accept_room:
  "verify cr clock a v = (Inr claims, v') \<Longrightarrow> length (dv_nonces v') \<le> 4096 \<or> \<not> hm_ok (dv_nonces v)"
  by (auto simp: verify_def Let_def hm_contains_def hm.len_ins_new split: if_splits)

lemma verify_keeps:
  "dv_public_key (snd (verify cr clock a v)) = dv_public_key v"
  "dv_generations (snd (verify cr clock a v)) = dv_generations v"
  "dv_sessions (snd (verify cr clock a v))
     = hm_retain (\<lambda>_ deadline. unix_time clock < deadline) (dv_sessions v)"
  by (simp_all add: verify_def Let_def)

lemma verifier_step_ok:
  assumes "verifier_ok v"
  shows "verifier_ok (verifier_step cr e v)"
proof (cases e)
  case (Verify clock a)
  obtain res v' where run: "verify cr clock a v = (res, v')" by force
  show ?thesis
  proof (cases res)
    case (Inl m)
    then show ?thesis
      using verify_reject [of cr clock a v m v'] run assms Verify
        length_retain_le [of "\<lambda>_ deadline. unix_time clock < deadline" "dv_nonces v"]
      by (simp add: verifier_ok_def)
  next
    case (Inr claims)
    then show ?thesis
      using verify_accept(8) [of cr clock a v claims v'] verify_accept_room [of cr clock a v claims v']
        run assms Verify
      by (simp add: verifier_ok_def hm.invar_ins)
  qed
next
  case (Revoke clock scope)
  with assms show ?thesis
    by (cases scope) (simp_all add: verifier_ok_def hm.invar_ins)
qed

interpretation sound: guarded_run "verifier_step cr" verifier_ok "\<lambda>_. True" for cr
  by unfold_locales (simp add: verifier_step_ok)

lemma verifier_new_ok: "verifier_new cr i k = Inr v \<Longrightarrow> verifier_ok v"
  by (auto simp: verifier_new_def verifier_ok_def split: option.splits if_splits)

lemma verifier_run_ok: "verifier_ok v \<Longrightarrow> verifier_ok (verifier_run cr es v)"
  using sound.run_keeps [of v es cr] by (simp add: verifier_run_def list_all_iff)

section \<open>The four guards\<close>

interpretation replay: guarded_run "verifier_step cr"
  "\<lambda>v. verifier_ok v \<and> hm_get (dv_nonces v) nonce = Some deadline"
  "\<lambda>e. event_time e < deadline" for cr nonce deadline
proof unfold_locales
  fix v e
  assume v: "verifier_ok v \<and> hm_get (dv_nonces v) nonce = Some deadline"
    and e: "event_time e < deadline"
  have "hm_get (dv_nonces (verifier_step cr e v)) nonce = Some deadline"
  proof (cases e)
    case (Verify clock a)
    let ?kept = "hm_retain (\<lambda>_ d. unix_time clock < d) (dv_nonces v)"
    have kept: "hm_get ?kept nonce = Some deadline" "hm_ok ?kept"
      using v e Verify by (simp_all add: hm_get_retain verifier_ok_def)
    obtain res v' where run: "verify cr clock a v = (res, v')" by force
    show ?thesis
      using kept run Verify verify_reject [of cr clock a v _ v'] verify_accept(7,8) [of cr clock a v _ v']
      by (cases res) (auto simp: hm.get_ins)
  next
    case (Revoke clock scope)
    then show ?thesis using v by (cases scope) simp_all
  qed
  then show "verifier_ok (verifier_step cr e v)
      \<and> hm_get (dv_nonces (verifier_step cr e v)) nonce = Some deadline"
    using v verifier_step_ok by blast
qed

definition revoked_until :: "string \<Rightarrow> nat \<Rightarrow> direct_verifier \<Rightarrow> bool" where
  "revoked_until session deadline v = (\<exists>d \<ge> deadline. hm_get (dv_sessions v) session = Some d)"

interpretation session: guarded_run "verifier_step cr"
  "\<lambda>v. verifier_ok v \<and> revoked_until session (start + DIRECT_TTL + DIRECT_CLOCK_SKEW) v"
  "\<lambda>e. start \<le> event_time e \<and> event_time e < start + DIRECT_TTL + DIRECT_CLOCK_SKEW"
  for cr session start
proof unfold_locales
  fix v e
  assume v: "verifier_ok v \<and> revoked_until session (start + DIRECT_TTL + DIRECT_CLOCK_SKEW) v"
    and e: "start \<le> event_time e \<and> event_time e < start + DIRECT_TTL + DIRECT_CLOCK_SKEW"
  have "revoked_until session (start + DIRECT_TTL + DIRECT_CLOCK_SKEW) (verifier_step cr e v)"
  proof (cases e)
    case (Verify clock a)
    then show ?thesis
      using v e by (auto simp: revoked_until_def verify_keeps hm_get_retain verifier_ok_def)
  next
    case (Revoke clock scope)
    then show ?thesis
      using v e by (cases scope) (auto simp: revoked_until_def hm.get_ins verifier_ok_def)
  qed
  then show "verifier_ok (verifier_step cr e v)
      \<and> revoked_until session (start + DIRECT_TTL + DIRECT_CLOCK_SKEW) (verifier_step cr e v)"
    using v verifier_step_ok by blast
qed

fun revokes_account :: "string \<Rightarrow> verifier_event \<Rightarrow> bool" where
  "revokes_account account (Revoke _ (Account a _)) = (a = account)"
| "revokes_account account _ = False"

interpretation account: guarded_run "verifier_step cr"
  "\<lambda>v. verifier_ok v \<and> hm_get (dv_generations v) account = Some generation"
  "\<lambda>e. \<not> revokes_account account e" for cr account generation
proof unfold_locales
  fix v e
  assume v: "verifier_ok v \<and> hm_get (dv_generations v) account = Some generation"
    and e: "\<not> revokes_account account e"
  have "hm_get (dv_generations (verifier_step cr e v)) account = Some generation"
  proof (cases e)
    case (Verify clock a)
    then show ?thesis using v by (simp add: verify_keeps)
  next
    case (Revoke clock scope)
    then show ?thesis
      using v e by (cases scope) (auto simp: hm.get_ins verifier_ok_def)
  qed
  then show "verifier_ok (verifier_step cr e v)
      \<and> hm_get (dv_generations (verifier_step cr e v)) account = Some generation"
    using v verifier_step_ok by blast
qed

interpretation keyless: guarded_run "verifier_step cr" "\<lambda>v. dv_public_key v = []" "\<lambda>_. True" for cr
proof unfold_locales
  fix v :: direct_verifier and e
  assume "dv_public_key v = []"
  then show "dv_public_key (verifier_step cr e v) = []"
  proof (cases e)
    case (Revoke clock scope)
    then show ?thesis using \<open>dv_public_key v = []\<close> by (cases scope) simp_all
  qed (simp add: verify_keeps)
qed

section \<open>A concrete history\<close>

lemma split_on_join:
  "xs \<noteq> [] \<Longrightarrow> \<forall>x \<in> set xs. c \<notin> set x \<Longrightarrow> split_on c (join [c] xs) = xs"
  by (induction "[c]" xs rule: join.induct) (simp_all add: split_on_single split_on_append)

definition sample_crypto :: crypto where
  "sample_crypto =
     \<lparr>cr_decode = (\<lambda>s. Some (map (\<lambda>c. of_nat (code c)) s)), cr_to_vec = (\<lambda>_. []),
      cr_ed25519 = (\<lambda>key message signature. key \<noteq> [] \<and> signature = key)\<rparr>"

definition sample_key :: string where
  "sample_key = replicate 32 CHR ''k''"

definition sample_verifier :: direct_verifier where
  "sample_verifier =
     \<lparr>dv_installation = ''home'', dv_public_key = replicate 32 (of_nat (code CHR ''k'')),
      dv_generations = [], dv_nonces = [], dv_sessions = []\<rparr>"

definition sample_authorization :: "nat \<Rightarrow> nat \<Rightarrow> direct_authorization" where
  "sample_authorization generation expires =
     \<lparr>au_claims = \<lparr>cl_connection_id = ''c'', cl_installation_id = ''home'', cl_account_id = ''ada'',
        cl_role = Member, cl_session_id = ''s'', cl_generation = generation,
        cl_fingerprint = ''sha-256 '' @ join '':'' (replicate 32 ''AF''), cl_expires_at = expires,
        cl_nonce = ''n''\<rparr>,
      au_signature = sample_key\<rparr>"

lemma sample_new: "verifier_new sample_crypto ''home'' sample_key = Inr sample_verifier"
  by (simp add: verifier_new_def sample_crypto_def sample_key_def sample_verifier_def)

lemma sample_fingerprint:
  "valid_fingerprint (''sha-256 '' @ join '':'' (replicate 32 ''AF''))"
proof -
  have "split_on CHR '':'' (join '':'' (replicate 32 ''AF'')) = replicate 32 ''AF''"
    by (rule split_on_join) simp_all
  then show ?thesis
    by (simp add: valid_fingerprint_def list_all_iff is_hexdigit_def is_digit_def is_lower_def code_def
        split: option.split)
qed

lemma sample_refused:
  "claims_refused now (au_claims (sample_authorization g t)) v \<longleftrightarrow>
     dv_installation v \<noteq> ''home'' \<or> t \<le> now \<or> now + 210 < t \<or> g \<noteq> generation_of v ''ada''
     \<or> hm_contains (dv_sessions v) ''s''"
  using sample_fingerprint
  by (auto simp: claims_refused_def sample_authorization_def DIRECT_TTL_def DIRECT_CLOCK_SKEW_def)

lemma sample_signature:
  "signature_ok sample_crypto (sample_authorization g t) v \<longleftrightarrow>
     dv_public_key v = replicate 32 (of_nat (code CHR ''k''))"
  by (auto simp: signature_ok_def sample_crypto_def sample_authorization_def sample_key_def)

lemma sample_nonce [simp]: "cl_nonce (au_claims (sample_authorization g t)) = ''n''"
  "cl_expires_at (au_claims (sample_authorization g t)) = t"
  "cl_session_id (au_claims (sample_authorization g t)) = ''s''"
  "cl_account_id (au_claims (sample_authorization g t)) = ''ada''"
  "cl_generation (au_claims (sample_authorization g t)) = g"
  by (simp_all add: sample_authorization_def)

lemma sample_verify:
  assumes "dv_installation v = ''home''" "dv_public_key v = replicate 32 (of_nat (code CHR ''k''))"
    "dv_sessions v = []" "dv_nonces v = [] \<or> dv_nonces v = [(''n'', d)] \<and> d \<le> unix_time c"
    "generation_of v ''ada'' = g" "unix_time c < t" "t \<le> unix_time c + 210"
  shows "verify sample_crypto c (sample_authorization g t) v =
    (Inr (au_claims (sample_authorization g t)), v\<lparr>dv_nonces := [(''n'', t)]\<rparr>)"
  using assms
  by (auto simp: verify_def Let_def sample_signature sample_refused hm_retain_def hm_contains_def
      generation_of_def hm_insert_def)

section \<open>Properties\<close>

text \<open>
  C12: an authorization is accepted at most once. Once one with some nonce was accepted, no
  authorization with that nonce is accepted before the first one has expired, whatever is verified
  and revoked in between with a clock that does not pass the second attempt; in particular the same
  claims are never accepted again.
\<close>

theorem no_replay:
  assumes new: "verifier_new cr installation key = Inr v0"
    and first: "verify cr c1 a1 (verifier_run cr past v0) = (Inr claims1, v1)"
    and second: "verify cr c2 a2 (verifier_run cr between v1) = (Inr claims2, v2)"
    and clock: "\<forall>e \<in> set between. event_time e \<le> unix_time c2"
    and nonce: "cl_nonce claims2 = cl_nonce claims1"
  shows "cl_expires_at claims1 \<le> unix_time c2 \<and> claims2 \<noteq> claims1"
proof -
  let ?v = "verifier_run cr between v1"
  have "verifier_ok (verifier_run cr past v0)"
    using verifier_run_ok [OF verifier_new_ok [OF new]] .
  then have v1: "verifier_ok v1" "hm_get (dv_nonces v1) (cl_nonce claims1) = Some (cl_expires_at claims1)"
    using verifier_step_ok [of "verifier_run cr past v0" cr "Verify c1 a1"] first
      verify_accept(8) [OF first]
    by (simp_all add: hm.get_ins verifier_ok_def)
  have "\<not> unix_time c2 < cl_expires_at claims1"
  proof
    assume live: "unix_time c2 < cl_expires_at claims1"
    have "list_all (\<lambda>e. event_time e < cl_expires_at claims1) between"
      using clock live by (auto simp: list_all_iff intro: le_less_trans)
    with v1 have "verifier_ok ?v \<and> hm_get (dv_nonces ?v) (cl_nonce claims1) = Some (cl_expires_at claims1)"
      unfolding verifier_run_def by (intro replay.run_keeps) auto
    then show False
      using live verify_accept(7) [OF second] nonce by (simp add: hm_get_retain verifier_ok_def)
  qed
  then show ?thesis using verify_accept(3) [OF second] by auto
qed

theorem no_replay_witness:
  "cl_expires_at (au_claims (sample_authorization 0 100)) \<le> unix_time (150 * 10 ^ 9)
    \<and> au_claims (sample_authorization 0 300) \<noteq> au_claims (sample_authorization 0 100)"
proof -
  have "verify sample_crypto (50 * 10 ^ 9) (sample_authorization 0 100)
      (verifier_run sample_crypto [] sample_verifier)
      = (Inr (au_claims (sample_authorization 0 100)), sample_verifier\<lparr>dv_nonces := [(''n'', 100)]\<rparr>)"
    unfolding verifier_run_def fold_simps id_apply
    by (rule sample_verify) (simp_all add: sample_verifier_def generation_of_def unix_time_def)
  moreover have "verify sample_crypto (150 * 10 ^ 9) (sample_authorization 0 300)
      (verifier_run sample_crypto [] (sample_verifier\<lparr>dv_nonces := [(''n'', 100)]\<rparr>))
      = (Inr (au_claims (sample_authorization 0 300)),
         sample_verifier\<lparr>dv_nonces := [(''n'', 100)], dv_nonces := [(''n'', 300)]\<rparr>)"
    unfolding verifier_run_def fold_simps id_apply
    by (rule sample_verify [where d = 100]) (simp_all add: sample_verifier_def generation_of_def unix_time_def)
  ultimately show ?thesis
    using no_replay [OF sample_new] by fastforce
qed

text \<open>
  C30: a revoked session stays out. After a session was revoked, no authorization of that session
  that could be in circulation then is ever accepted, at any later time and after any events.
\<close>

theorem session_revoked:
  assumes new: "verifier_new cr installation key = Inr v0"
    and clock: "\<forall>e \<in> set later. unix_time c1 \<le> event_time e \<and> event_time e \<le> unix_time c2"
    and circulating: "cl_expires_at (au_claims a) \<le> unix_time c1 + DIRECT_TTL + DIRECT_CLOCK_SKEW"
    and session: "cl_session_id (au_claims a) = s"
  shows "\<exists>e. fst (verify cr c2 a (verifier_run cr later
      (revoke c1 (Session s) (verifier_run cr past v0)))) = Inl e"
proof (rule ccontr)
  let ?r = "revoke c1 (Session s) (verifier_run cr past v0)"
  let ?v = "verifier_run cr later ?r" and ?until = "unix_time c1 + DIRECT_TTL + DIRECT_CLOCK_SKEW"
  assume "\<not> (\<exists>e. fst (verify cr c2 a ?v) = Inl e)"
  then obtain claims v' where acc: "verify cr c2 a ?v = (Inr claims, v')"
    by (metis old.sum.exhaust prod.collapse)
  have live: "unix_time c2 < ?until"
    using verify_accept(1,3) [OF acc] circulating by simp
  have "verifier_ok (verifier_run cr past v0)"
    using verifier_run_ok [OF verifier_new_ok [OF new]] .
  then have "verifier_ok ?r \<and> revoked_until s ?until ?r"
    using verifier_step_ok [of _ cr "Revoke c1 (Session s)"]
    by (auto simp: revoked_until_def hm.get_ins verifier_ok_def hm.invar_ins)
  moreover have "list_all (\<lambda>e. unix_time c1 \<le> event_time e \<and> event_time e < ?until) later"
    using clock live by (auto simp: list_all_iff intro: le_less_trans)
  ultimately have "verifier_ok ?v \<and> revoked_until s ?until ?v"
    unfolding verifier_run_def by (rule session.run_keeps)
  then show False
    using live verify_accept(1,6) [OF acc] session
    by (auto simp: revoked_until_def hm_get_retain verifier_ok_def)
qed

theorem session_revoked_witness:
  "\<exists>e. fst (verify sample_crypto (250 * 10 ^ 9) (sample_authorization 0 300)
      (verifier_run sample_crypto [Revoke (120 * 10 ^ 9) (Session ''t'')]
        (revoke (100 * 10 ^ 9) (Session ''s'') (verifier_run sample_crypto [] sample_verifier)))) = Inl e"
  using session_revoked [OF sample_new, where later = "[Revoke (120 * 10 ^ 9) (Session ''t'')]"
      and past = "[]" and ?c1.0 = "100 * 10 ^ 9" and ?c2.0 = "250 * 10 ^ 9"
      and a = "sample_authorization 0 300" and s = "''s''"]
  by (simp add: unix_time_def DIRECT_TTL_def DIRECT_CLOCK_SKEW_def)

text \<open>
  Raising an account's generation invalidates every authorization of another generation
  until the next revocation of that account.
\<close>

theorem account_revoked:
  assumes new: "verifier_new cr installation key = Inr v0"
    and quiet: "\<forall>e \<in> set later. \<not> revokes_account account e"
    and acc: "verify cr c2 a (verifier_run cr later
        (revoke c1 (Account account generation) (verifier_run cr past v0))) = (Inr claims, v')"
    and account: "cl_account_id claims = account"
  shows "cl_generation claims = generation"
proof -
  let ?r = "revoke c1 (Account account generation) (verifier_run cr past v0)"
  have "verifier_ok (verifier_run cr past v0)"
    using verifier_run_ok [OF verifier_new_ok [OF new]] .
  then have "verifier_ok ?r \<and> hm_get (dv_generations ?r) account = Some generation"
    by (auto simp: hm.get_ins verifier_ok_def hm.invar_ins)
  then have "hm_get (dv_generations (verifier_run cr later ?r)) account = Some generation"
    using quiet account.run_keeps [of ?r account generation later cr]
    by (simp add: list_all_iff verifier_run_def)
  then show ?thesis
    using verify_accept(5) [OF acc] account by (simp add: generation_of_def)
qed

theorem account_revoked_witness:
  "fst (verify sample_crypto (50 * 10 ^ 9) (sample_authorization 3 100)
      (verifier_run sample_crypto [] (revoke 0 (Account ''ada'' 3) sample_verifier)))
      = Inr (au_claims (sample_authorization 3 100))
    \<and> cl_generation (au_claims (sample_authorization 3 100)) = 3"
proof -
  let ?v = "revoke 0 (Account ''ada'' 3) (verifier_run sample_crypto [] sample_verifier)"
  have acc: "verify sample_crypto (50 * 10 ^ 9) (sample_authorization 3 100)
      (verifier_run sample_crypto [] ?v)
      = (Inr (au_claims (sample_authorization 3 100)), ?v\<lparr>dv_nonces := [(''n'', 100)]\<rparr>)"
    unfolding verifier_run_def fold_simps id_apply
    by (rule sample_verify)
      (simp_all add: sample_verifier_def generation_of_def unix_time_def hm_insert_def hm_get_def)
  from account_revoked [OF sample_new _ this] show ?thesis
    using acc by (simp add: verifier_run_def)
qed

text \<open>
  Revoking the installation is final: with a signature scheme that verifies nothing under the
  empty key, no authorization is accepted any more.
\<close>

theorem installation_revoked:
  assumes empty: "\<And>message signature. \<not> cr_ed25519 cr [] message signature"
  shows "fst (verify cr c2 a (verifier_run cr later (revoke c1 Installation v))) =
    Inl ''Invalid signature''"
proof -
  have "dv_public_key (verifier_run cr later (revoke c1 Installation v)) = []"
    unfolding verifier_run_def by (rule keyless.run_keeps) (simp_all add: list_all_iff)
  then show ?thesis
    using empty by (simp add: verify_def Let_def signature_ok_def split: option.split)
qed

theorem installation_revoked_witness:
  "fst (verify sample_crypto 7 (sample_authorization 0 100)
      (verifier_run sample_crypto [Revoke 5 (Session ''t'')] (revoke 3 Installation sample_verifier)))
    = Inl ''Invalid signature''"
  by (rule installation_revoked) (simp add: sample_crypto_def)

end
