(* ===== verification/Direct_Admission.thy ===== *)
theory Direct_Admission
  imports Direct
begin

text \<open>
  Proofs about the admission of direct connections and of their signals. Both quotas have the
  same shape: a ceiling for all, one per account and one for all members that leaves room for one
  account. The locale \<open>owner_quota\<close> derives from it that members can never keep the owner out,
  and is interpreted for connections and for signals.
\<close>

section \<open>Quotas that leave room for the owner\<close>

definition members_in :: "direct_claims list \<Rightarrow> nat" where
  "members_in log = length (filter (\<lambda>c. cl_role c = Member) log)"

definition account_in :: "string \<Rightarrow> direct_claims list \<Rightarrow> nat" where
  "account_in a log = length (filter (\<lambda>c. cl_account_id c = a) log)"

definition quota_admits :: "nat \<Rightarrow> nat \<Rightarrow> nat \<Rightarrow> direct_claims \<Rightarrow> direct_claims list \<Rightarrow> bool" where
  "quota_admits ceiling each members c log =
     (length log < ceiling \<and> account_in (cl_account_id c) log < each
      \<and> (cl_role c = Owner \<or> members_in log < members))"

definition within_quota :: "nat \<Rightarrow> nat \<Rightarrow> nat \<Rightarrow> direct_claims list \<Rightarrow> bool" where
  "within_quota ceiling each members log =
     (length log \<le> ceiling \<and> (\<forall>a. account_in a log \<le> each) \<and> members_in log \<le> members)"

locale owner_quota =
  fixes ceiling each members :: nat
    and admits :: "direct_claims \<Rightarrow> direct_claims list \<Rightarrow> bool"
  assumes admits_iff: "admits c log = quota_admits ceiling each members c log"
    and room: "members + each \<le> ceiling"
begin

lemma admitted_within:
  assumes "within_quota ceiling each members log" "admits c log"
  shows "within_quota ceiling each members (c # log)"
  using assms
  by (auto simp: admits_iff quota_admits_def within_quota_def account_in_def members_in_def Suc_le_eq)

lemma leaving_within:
  assumes "within_quota ceiling each members (xs @ c # ys)"
  shows "within_quota ceiling each members (xs @ ys)"
proof -
  have "account_in a (xs @ ys) \<le> account_in a (xs @ c # ys)" for a
    by (simp add: account_in_def)
  moreover have "members_in (xs @ ys) \<le> members_in (xs @ c # ys)"
    by (simp add: members_in_def)
  ultimately show ?thesis
    using assms by (auto simp: within_quota_def intro: le_trans)
qed

lemma owner_admitted:
  assumes within: "within_quota ceiling each members log" and owner: "cl_role c = Owner"
    and sole: "\<forall>x \<in> set log. cl_role x = Owner \<longrightarrow> cl_account_id x = cl_account_id c"
  shows "admits c log \<longleftrightarrow> account_in (cl_account_id c) log < each"
proof -
  have "length log \<le> members_in log + account_in (cl_account_id c) log"
    using sole
  proof (induction log)
    case (Cons x log)
    then show ?case by (cases "cl_role x") (auto simp: members_in_def account_in_def)
  qed simp
  then show ?thesis
    using within owner room by (auto simp: admits_iff quota_admits_def within_quota_def)
qed

end

lemma count_existing_eq:
  "count_existing c log (n, m, a) =
     (n + length log, m + members_in log, a + account_in (cl_account_id c) log)"
  by (induction log arbitrary: n m a) (auto simp: members_in_def account_in_def)

interpretation connections: owner_quota MAX_DIRECT_CONNECTIONS MAX_DIRECT_PER_ACCOUNT
  MAX_DIRECT_MEMBER_CONNECTIONS has_direct_capacity
  by unfold_locales
    (auto simp: has_direct_capacity_def count_existing_eq quota_admits_def
      MAX_DIRECT_CONNECTIONS_def MAX_DIRECT_PER_ACCOUNT_def MAX_DIRECT_MEMBER_CONNECTIONS_def)

section \<open>Signals\<close>

text \<open>The counters of a window stand for the signals admitted in it.\<close>

definition counts :: "signal_budget \<Rightarrow> direct_claims list \<Rightarrow> bool" where
  "counts b log =
     (hm_ok (sb_accounts b) \<and> sb_total b = length log \<and> sb_members b = members_in log
      \<and> (\<forall>a. signals_of b a = account_in a log))"

definition signal_admits :: "direct_claims \<Rightarrow> direct_claims list \<Rightarrow> bool" where
  "signal_admits c log =
     quota_admits MAX_SIGNALS_PER_TUNNEL MAX_SIGNALS_PER_ACCOUNT
       (MAX_SIGNALS_PER_TUNNEL - MAX_SIGNALS_PER_ACCOUNT) c log"

interpretation signals: owner_quota MAX_SIGNALS_PER_TUNNEL MAX_SIGNALS_PER_ACCOUNT
  "MAX_SIGNALS_PER_TUNNEL - MAX_SIGNALS_PER_ACCOUNT" signal_admits
  by unfold_locales
    (simp_all add: signal_admits_def MAX_SIGNALS_PER_TUNNEL_def MAX_SIGNALS_PER_ACCOUNT_def)

definition window_log :: "nat \<Rightarrow> signal_budget \<Rightarrow> direct_claims list \<Rightarrow> direct_claims list" where
  "window_log now b log = (if 60 * 10 ^ 9 \<le> now - sb_started b then [] else log)"

lemma counts_default [simp]: "counts (signal_budget_default now) []"
  by (simp add: counts_def signal_budget_default_def signals_of_def members_in_def account_in_def)

lemma counts_admit:
  assumes "counts b log"
  shows "counts (b\<lparr>sb_accounts := hm_insert (cl_account_id c) (signals_of b (cl_account_id c) + 1)
                     (sb_accounts b),
                   sb_total := sb_total b + 1,
                   sb_members := (if cl_role c = Member then sb_members b + 1 else sb_members b)\<rparr>)
           (c # log)"
  using assms
  by (auto simp: counts_def hm.invar_ins hm.get_ins signals_of_def members_in_def account_in_def)

lemma signal_admits_iff:
  assumes "counts b log"
  shows "signal_admits c log \<longleftrightarrow>
    \<not> (MAX_SIGNALS_PER_ACCOUNT \<le> signals_of b (cl_account_id c) \<or> MAX_SIGNALS_PER_TUNNEL \<le> sb_total b
       \<or> (cl_role c = Member \<and> MAX_SIGNALS_PER_TUNNEL - MAX_SIGNALS_PER_ACCOUNT \<le> sb_members b))"
  using assms by (cases "cl_role c") (auto simp: signal_admits_def quota_admits_def counts_def)

lemma consume_counts:
  assumes "counts b log"
  shows "fst (consume now c b) = signal_admits c (window_log now b log)
    \<and> counts (snd (consume now c b))
        (if fst (consume now c b) then c # window_log now b log else window_log now b log)"
proof -
  define b1 where "b1 = (if 60 * 10 ^ 9 \<le> now - sb_started b then signal_budget_default now else b)"
  have b1: "counts b1 (window_log now b log)"
    using assms by (simp add: b1_def window_log_def)
  have "consume now c b =
    (if signal_admits c (window_log now b log)
     then (True, b1\<lparr>sb_accounts := hm_insert (cl_account_id c) (signals_of b1 (cl_account_id c) + 1)
                     (sb_accounts b1),
                   sb_total := sb_total b1 + 1,
                   sb_members := (if cl_role c = Member then sb_members b1 + 1 else sb_members b1)\<rparr>)
     else (False, b1))"
    unfolding signal_admits_iff [OF b1] by (simp add: consume_def Let_def b1_def)
  then show ?thesis
    using counts_admit [OF b1] b1 by simp
qed

fun consume_all :: "(nat \<times> direct_claims) list \<Rightarrow> signal_budget \<Rightarrow> direct_claims list \<Rightarrow>
    signal_budget \<times> direct_claims list" where
  "consume_all [] b log = (b, log)"
| "consume_all ((now, c) # es) b log =
     (case consume now c b of
        (ok, b') \<Rightarrow>
          consume_all es b' (if ok then c # window_log now b log else window_log now b log))"

lemma within_Nil [simp]: "within_quota ceiling each members []"
  by (simp add: within_quota_def account_in_def members_in_def)

lemma consume_all_within:
  assumes "counts b log" "within_quota MAX_SIGNALS_PER_TUNNEL MAX_SIGNALS_PER_ACCOUNT
      (MAX_SIGNALS_PER_TUNNEL - MAX_SIGNALS_PER_ACCOUNT) log"
    and "consume_all es b log = (b', log')"
  shows "counts b' log' \<and> within_quota MAX_SIGNALS_PER_TUNNEL MAX_SIGNALS_PER_ACCOUNT
      (MAX_SIGNALS_PER_TUNNEL - MAX_SIGNALS_PER_ACCOUNT) log'"
  using assms
proof (induction es arbitrary: b log)
  case (Cons e es)
  obtain now c where e: "e = (now, c)" by force
  obtain ok b1 where run: "consume now c b = (ok, b1)" by force
  let ?log = "if ok then c # window_log now b log else window_log now b log"
  have window: "within_quota MAX_SIGNALS_PER_TUNNEL MAX_SIGNALS_PER_ACCOUNT
      (MAX_SIGNALS_PER_TUNNEL - MAX_SIGNALS_PER_ACCOUNT) (window_log now b log)"
    using Cons.prems(2) by (simp add: window_log_def)
  have "ok = signal_admits c (window_log now b log)" "counts b1 ?log"
    using consume_counts [OF Cons.prems(1), of now c] run by (simp_all split: if_splits)
  moreover from this have "within_quota MAX_SIGNALS_PER_TUNNEL MAX_SIGNALS_PER_ACCOUNT
      (MAX_SIGNALS_PER_TUNNEL - MAX_SIGNALS_PER_ACCOUNT) ?log"
    using signals.admitted_within [OF window] window by simp
  ultimately show ?case
    using Cons.IH [of b1 ?log] Cons.prems(3) e run by simp
qed simp

section \<open>Properties\<close>


definition sample_claims :: "string \<Rightarrow> role \<Rightarrow> direct_claims" where
  "sample_claims a role =
     \<lparr>cl_connection_id = ''c'', cl_installation_id = ''home'', cl_account_id = a, cl_role = role,
      cl_session_id = ''s'', cl_generation = 0, cl_fingerprint = ''f'', cl_expires_at = 1,
      cl_nonce = ''n''\<rparr>"


text \<open>
  C35: members cannot keep the owner out. As long as the connections were admitted by the policy and
  every owner connection is of one account, another connection of that account is admitted exactly
  when the account has fewer than eight, whatever the members do; and admission keeps the limits.
\<close>

theorem owner_connection_admitted:
  assumes within: "within_quota MAX_DIRECT_CONNECTIONS MAX_DIRECT_PER_ACCOUNT
      MAX_DIRECT_MEMBER_CONNECTIONS log"
    and sole: "\<forall>x \<in> set log. cl_role x = Owner \<longrightarrow> cl_account_id x = cl_account_id c"
  shows "(cl_role c = Owner \<longrightarrow> has_direct_capacity c log = (account_in (cl_account_id c) log < 8))
    \<and> (has_direct_capacity c log \<longrightarrow> within_quota MAX_DIRECT_CONNECTIONS MAX_DIRECT_PER_ACCOUNT
          MAX_DIRECT_MEMBER_CONNECTIONS (c # log))"
  using connections.owner_admitted [OF within _ sole] connections.admitted_within [OF within]
  by (simp add: MAX_DIRECT_PER_ACCOUNT_def)

theorem owner_connection_admitted_witness:
  "has_direct_capacity (sample_claims ''eve'' Owner) (replicate 8 (sample_claims ''ada'' Member))"
proof -
  let ?log = "replicate 8 (sample_claims ''ada'' Member)"
  have "within_quota MAX_DIRECT_CONNECTIONS MAX_DIRECT_PER_ACCOUNT MAX_DIRECT_MEMBER_CONNECTIONS ?log"
    by (simp add: within_quota_def account_in_def members_in_def sample_claims_def filter_replicate
        MAX_DIRECT_CONNECTIONS_def MAX_DIRECT_PER_ACCOUNT_def MAX_DIRECT_MEMBER_CONNECTIONS_def)
  from owner_connection_admitted [OF this, of "sample_claims ''eve'' Owner"] show ?thesis
    by (simp add: sample_claims_def account_in_def)
qed

end
