(* ===== verification/Direct_Signal.thy ===== *)
theory Direct_Signal
  imports Direct
begin

text \<open>
  Proofs about session descriptions and candidates: what sanitising keeps, that it is
  idempotent, and that upper-casing the fingerprints of a description is.
\<close>

section \<open>Sanitising lines\<close>

definition kept_line :: "string \<Rightarrow> bool" where
  "kept_line line = (case line_candidate line of None \<Rightarrow> True | Some c \<Rightarrow> usable_candidate c)"

definition well_formed_line :: "string \<Rightarrow> bool" where
  "well_formed_line line = (case line_candidate line of None \<Rightarrow> True | Some c \<Rightarrow> candidate_syntax c)"

lemma line_cases [simp]:
  "line_candidate l = None \<Longrightarrow> kept_line l"
  "line_candidate l = None \<Longrightarrow> well_formed_line l"
  "line_candidate l = Some c \<Longrightarrow> kept_line l = usable_candidate c"
  "line_candidate l = Some c \<Longrightarrow> well_formed_line l = candidate_syntax c"
  by (simp_all add: kept_line_def well_formed_line_def)

lemma sanitize_lines_eq:
  "sanitize_lines ls had usable acc =
     (if list_all well_formed_line ls
      then Inr (had \<or> list_ex (\<lambda>l. line_candidate l \<noteq> None) ls,
                usable \<or> list_ex (\<lambda>l. line_candidate l \<noteq> None \<and> kept_line l) ls,
                acc @ filter kept_line ls)
      else Inl ''Invalid ICE candidate'')"
  by (induction ls had usable acc rule: sanitize_lines.induct)
    (auto split: option.splits)

lemma sanitize_sdp_Inr:
  assumes "sanitize_sdp sdp = Inr sdp'"
  shows "sdp' = crlf_join (filter kept_line (str_lines sdp))"
    and "list_all well_formed_line (str_lines sdp)"
    and "list_ex (\<lambda>l. line_candidate l \<noteq> None) (str_lines sdp) \<Longrightarrow>
      list_ex (\<lambda>l. line_candidate l \<noteq> None \<and> kept_line l) (str_lines sdp)"
  using assms
  by (auto simp: sanitize_sdp_def sanitize_lines_eq list_all_iff list_ex_iff split: if_splits)

lemma crlf_join_Nil_invalid: "\<not> starts_with (''v=0'' @ [CR, NL]) (crlf_join [])"
  by (simp add: starts_with_def crlf_join_def)

lemma sanitized_lines:
  assumes "sanitize_sdp sdp = Inr sdp'" "sdp_valid sdp'"
  shows "str_lines sdp' = filter kept_line (str_lines sdp)"
proof -
  have "filter kept_line (str_lines sdp) \<noteq> []"
    using assms sanitize_sdp_Inr(1) [OF assms(1)] crlf_join_Nil_invalid by (auto simp: sdp_valid_def)
  then show ?thesis
    using sanitize_sdp_Inr(1) [OF assms(1)] str_lines_no_newline
      str_lines_crlf_join [of "filter kept_line (str_lines sdp)"] by auto
qed

lemma sanitize_sdp_idem:
  assumes san: "sanitize_sdp sdp = Inr sdp'" and valid: "sdp_valid sdp'"
  shows "sanitize_sdp sdp' = Inr sdp'"
proof -
  note ls = sanitized_lines [OF assms]
  have "list_all well_formed_line (str_lines sdp')"
    using sanitize_sdp_Inr(2) [OF san] by (simp add: ls list_all_iff)
  moreover have "filter kept_line (str_lines sdp') = str_lines sdp'"
    by (simp add: ls)
  moreover have "list_ex (\<lambda>l. line_candidate l \<noteq> None) (str_lines sdp') \<Longrightarrow>
      list_ex (\<lambda>l. line_candidate l \<noteq> None \<and> kept_line l) (str_lines sdp')"
    by (auto simp: ls list_ex_iff)
  moreover have "crlf_join (str_lines sdp') = sdp'"
    using sanitize_sdp_Inr(1) [OF san] ls by simp
  ultimately show ?thesis
    using valid by (simp add: sanitize_sdp_def sanitize_lines_eq sdp_valid_def)
qed

section \<open>Upper-case fingerprints\<close>

lemma code_to_upper: "code (to_upper c) = (if is_lower c then code c - 32 else code c)"
  by (auto simp: to_upper_def is_lower_def code_def)

lemma to_upper_not_lower [simp]: "\<not> is_lower (to_upper c)"
  by (cases "is_lower c") (auto simp: is_lower_def code_to_upper)

lemma to_upper_idem [simp]: "to_upper (to_upper c) = to_upper c"
  using to_upper_not_lower [of c] by (simp add: to_upper_def [of "to_upper c"])

lemma to_upper_newline [simp]: "to_upper c = NL \<longleftrightarrow> c = NL"
proof -
  have nl: "x = NL \<longleftrightarrow> code x = 10" for x
  proof -
    have "code NL = 10" by (simp add: code_def)
    then show ?thesis by (metis code_def of_char_eq_iff)
  qed
  show ?thesis by (auto simp: nl code_to_upper is_lower_def split: if_splits)
qed

lemma uppercase_line_idem: "uppercase_line (uppercase_line l) = uppercase_line l"
  by (auto simp: uppercase_line_def split: option.split)

lemma uppercase_line_newline: "NL \<notin> set l \<Longrightarrow> NL \<notin> set (uppercase_line l)"
  by (auto simp: uppercase_line_def split: option.split)
    (metis to_upper_newline)

lemma uppercase_lines:
  "str_lines (uppercase_sdp_fingerprints sdp) =
     (if str_lines sdp = [] then [[]] else map uppercase_line (str_lines sdp))"
proof (cases "str_lines sdp = []")
  case True
  then show ?thesis
    by (simp add: uppercase_sdp_fingerprints_def crlf_join_def str_lines_def strip_cr_def)
next
  case False
  then show ?thesis
    unfolding uppercase_sdp_fingerprints_def
    using str_lines_crlf_join [of "map uppercase_line (str_lines sdp)"] str_lines_no_newline
      uppercase_line_newline by auto
qed

section \<open>Properties\<close>

text \<open>
  Sanitising a signal is sound: what it lets through is valid, names only candidates with a
  usable numeric address, has kept every other line in order, and passes again unchanged; a
  candidate signal is passed on as it is.
\<close>

theorem sanitize_sound:
  assumes "sanitize_candidates s = Inr (Some s')"
  shows "signal_valid s' \<and> sanitize_candidates s' = Inr (Some s')
    \<and> (case (signal_sdp s, signal_sdp s') of
         (Some sdp, Some sdp') \<Rightarrow>
           (\<forall>line \<in> set (str_lines sdp'). \<forall>c. line_candidate line = Some c \<longrightarrow>
              usable_candidate c \<and> candidate_syntax c)
           \<and> filter (\<lambda>l. line_candidate l = None) (str_lines sdp')
             = filter (\<lambda>l. line_candidate l = None) (str_lines sdp)
       | _ \<Rightarrow> s' = s)"
proof -
  have sdp: "sanitize_sdp sdp' = Inr sdp'
      \<and> (\<forall>line \<in> set (str_lines sdp'). \<forall>c. line_candidate line = Some c \<longrightarrow>
              usable_candidate c \<and> candidate_syntax c)
      \<and> filter (\<lambda>l. line_candidate l = None) (str_lines sdp')
             = filter (\<lambda>l. line_candidate l = None) (str_lines sdp)"
    if san: "sanitize_sdp sdp = Inr sdp'" and valid: "sdp_valid sdp'" for sdp sdp'
  proof -
    have "filter (\<lambda>l. line_candidate l = None) (filter kept_line (str_lines sdp))
        = filter (\<lambda>l. line_candidate l = None) (str_lines sdp)"
      by (auto intro: filter_cong)
    then show ?thesis
      using sanitize_sdp_Inr(2) [OF san] sanitize_sdp_idem [OF that]
      by (auto simp: sanitized_lines [OF that] list_all_iff)
  qed
  show ?thesis
    using assms sdp
    by (cases s) (auto simp: checked_signal_def split: sum.splits if_splits)
qed

theorem sanitize_sound_witness:
  "sanitize_candidates (Candidate ''candidate:1 1 udp 9 10.0.0.7 5000 typ host'' (Some ''0'') (Some 0))
     = Inr (Some (Candidate ''candidate:1 1 udp 9 10.0.0.7 5000 typ host'' (Some ''0'') (Some 0)))
   \<and> signal_valid (Candidate ''candidate:1 1 udp 9 10.0.0.7 5000 typ host'' (Some ''0'') (Some 0))"
proof -
  let ?s = "Candidate ''candidate:1 1 udp 9 10.0.0.7 5000 typ host'' (Some ''0'') (Some 0)"
  have "sanitize_candidates ?s = Inr (Some ?s)"
    by (simp add: checked_signal_def valid_candidate_def candidate_syntax_def candidate_address_def
        token_def usable_candidate_def usable_candidate_address_def split_ascii_whitespace_def
        is_whitespace_def nth_opt_def parse_ip_def read_ipv4_def read_number_def read_separated_def
        read_char_def parse_uint_def decimal_def digit_value_def is_digit_def is_alphanumeric_def
        is_upper_def is_lower_def code_def v4_loopback_def v4_link_local_def v4_unspecified_def
        v4_multicast_def v4_broadcast_def Let_def)
  from sanitize_sound [OF this] this show ?thesis by blast
qed

text \<open>
  Upper-casing the fingerprints of a description is idempotent, touches no other line, and
  leaves no lower-case letter in a SHA-256 fingerprint.
\<close>

theorem uppercase_fingerprints:
  "uppercase_sdp_fingerprints (uppercase_sdp_fingerprints sdp) = uppercase_sdp_fingerprints sdp
    \<and> (\<forall>line \<in> set (str_lines (uppercase_sdp_fingerprints sdp)). \<forall>f.
         line = ''a=fingerprint:sha-256 '' @ f \<longrightarrow> (\<forall>c \<in> set f. \<not> is_lower c))
    \<and> (str_lines sdp \<noteq> [] \<longrightarrow>
         filter (\<lambda>l. \<not> starts_with ''a=fingerprint:sha-256 '' l)
             (str_lines (uppercase_sdp_fingerprints sdp))
           = filter (\<lambda>l. \<not> starts_with ''a=fingerprint:sha-256 '' l) (str_lines sdp))"
proof (intro conjI ballI allI impI)
  have "uppercase_sdp_fingerprints (uppercase_sdp_fingerprints sdp)
      = crlf_join (map uppercase_line (str_lines (uppercase_sdp_fingerprints sdp)))"
    by (rule uppercase_sdp_fingerprints_def)
  also have "\<dots> = crlf_join (map uppercase_line (str_lines sdp))"
    by (simp add: uppercase_lines uppercase_line_idem comp_def)
      (simp add: uppercase_line_def crlf_join_def)
  finally show "uppercase_sdp_fingerprints (uppercase_sdp_fingerprints sdp)
      = uppercase_sdp_fingerprints sdp"
    by (simp only: uppercase_sdp_fingerprints_def)
  show "\<not> is_lower c"
    if line: "line \<in> set (str_lines (uppercase_sdp_fingerprints sdp))"
      "line = ''a=fingerprint:sha-256 '' @ f" and c: "c \<in> set f" for line f c
  proof -
    from line obtain l where "line = uppercase_line l"
      by (auto simp: uppercase_lines split: if_splits)
    then have "uppercase_line line = line" by (simp add: uppercase_line_idem)
    then have "map to_upper f = f"
      using line(2) by (auto simp: uppercase_line_def split: option.splits)
    then show ?thesis using c by (metis in_set_conv_nth length_map nth_map to_upper_not_lower)
  qed
  show "filter (\<lambda>l. \<not> starts_with ''a=fingerprint:sha-256 '' l)
             (str_lines (uppercase_sdp_fingerprints sdp))
           = filter (\<lambda>l. \<not> starts_with ''a=fingerprint:sha-256 '' l) (str_lines sdp)"
    if "str_lines sdp \<noteq> []"
  proof -
    have "starts_with ''a=fingerprint:sha-256 '' (uppercase_line l) = starts_with ''a=fingerprint:sha-256 '' l"
      and "\<not> starts_with ''a=fingerprint:sha-256 '' l \<longrightarrow> uppercase_line l = l" for l
      by (auto simp: uppercase_line_def starts_with_iff split: option.split)
    then show ?thesis
      using that by (simp add: uppercase_lines filter_map comp_def) (auto intro!: map_idI)
  qed
qed

theorem uppercase_fingerprints_witness:
  "uppercase_sdp_fingerprints (''a=fingerprint:sha-256 ab:0f'' @ [CR, NL])
     = ''a=fingerprint:sha-256 AB:0F'' @ [CR, NL]
   \<and> list_all (\<lambda>c. \<not> is_lower c) ''AB:0F''"
proof -
  have "str_lines (''a=fingerprint:sha-256 ab:0f'' @ [CR, NL]) = [''a=fingerprint:sha-256 ab:0f'']"
    by (simp add: str_lines_def strip_cr_def)
  then have up: "uppercase_sdp_fingerprints (''a=fingerprint:sha-256 ab:0f'' @ [CR, NL])
      = ''a=fingerprint:sha-256 AB:0F'' @ [CR, NL]"
    unfolding uppercase_sdp_fingerprints_def
    by (simp add: uppercase_line_def to_upper_def is_lower_def code_def crlf_join_def)
      (simp add: char_of_def bit_Suc_0_iff)
  have "str_lines (''a=fingerprint:sha-256 AB:0F'' @ [CR, NL]) = [''a=fingerprint:sha-256 AB:0F'']"
    by (simp add: str_lines_def strip_cr_def)
  then have "\<forall>c \<in> set ''AB:0F''. \<not> is_lower c"
    using uppercase_fingerprints [of "''a=fingerprint:sha-256 ab:0f'' @ [CR, NL]"] up by fastforce
  then show ?thesis unfolding list_all_iff using up by blast
qed

text \<open>
  An IPv4-mapped IPv6 candidate is judged like the IPv4 address it carries, so a loopback,
  link-local, multicast, broadcast or unspecified destination cannot hide behind the mapping.
\<close>

theorem mapped_address_judged_alike:
  assumes "a < 256" "b < 256" "c < 256" "d < 256"
  shows "usable_candidate_address (V6 [0, 0, 0, 0, 0, 65535, 256 * a + b, 256 * c + d])
    = usable_candidate_address (V4 a b c d)"
  using assms by (simp add: usable_candidate_address_def to_ipv4_mapped_def)

theorem mapped_address_judged_alike_witness:
  "\<not> usable_candidate_address (V6 [0, 0, 0, 0, 0, 65535, 32512, 1])"
  using mapped_address_judged_alike [of 127 0 0 1]
  by (simp add: usable_candidate_address_def v4_loopback_def)

end
