(* ===== verification/Manifest.thy ===== *)
theory Manifest
  imports Rust_Str
begin

text \<open>
  The immutable description of a disk: content identities (\<open>storage/digest.rs\<close>), filesystem
  boundaries (\<open>storage/layout.rs\<close>) and the manifest check of \<open>storage/lazy/mod.rs\<close>. A manifest is
  a JSON document; each field is what the accessor the code uses on it returns: \<open>None\<close> for a
  missing key or a value of another type. The hash functions are parameters.
\<close>

section \<open>Content identities\<close>

record hashes =
  blake3_hex :: "byte list \<Rightarrow> string"
  sha256_hex :: "byte list \<Rightarrow> string"

definition digest_block :: "hashes \<Rightarrow> byte list \<Rightarrow> string" where
  "digest_block h bytes = ''b3-'' @ blake3_hex h bytes"

definition hex_char :: "char \<Rightarrow> bool" where
  "hex_char c = (is_digit c \<or> (97 \<le> code c \<and> code c \<le> 102))"

definition digest_valid :: "string \<Rightarrow> bool" where
  "digest_valid identity =
     (let hex = (case strip_prefix ''b3-'' identity of None \<Rightarrow> identity | Some rest \<Rightarrow> rest)
      in length hex = 64 \<and> list_all hex_char hex)"

definition digest_matches :: "hashes \<Rightarrow> string \<Rightarrow> byte list \<Rightarrow> bool" where
  "digest_matches h identity bytes =
     (if \<not> digest_valid identity then False
      else (case strip_prefix ''b3-'' identity of
              Some expected \<Rightarrow> blake3_hex h bytes = expected
            | None \<Rightarrow> sha256_hex h bytes = identity))"

section \<open>Layout\<close>

definition ALIGNMENT :: nat where
  "ALIGNMENT = 4 * 1024 * 1024"

definition MIN_SYSTEM :: nat where
  "MIN_SYSTEM = 64 * 1024 * 1024"

datatype layout = Flat | Paired nat

datatype hash_value = Hash_Null | Hash_String string | Hash_Other

record extent =
  ex_offset :: "nat option"
  ex_size :: "nat option"
  ex_hash :: hash_value

text \<open>
  \<open>mf_layout\<close>: no such key, a value that is not a layout, or a layout.
\<close>

record manifest =
  mf_version :: "nat option"
  mf_size :: "nat option"
  mf_block_size :: "nat option"
  mf_layout :: "layout option option"
  mf_blocks :: "extent list option"

definition layout_validate :: "layout \<Rightarrow> nat \<Rightarrow> (io_error, unit) result" where
  "layout_validate l sz =
     (case l of
        Flat \<Rightarrow> Inr ()
      | Paired system_bytes \<Rightarrow>
          if system_bytes < MIN_SYSTEM
             \<or> \<not> ALIGNMENT dvd system_bytes
             \<or> \<not> 512 dvd sz
             \<or> (case checked_add64 system_bytes MIN_SYSTEM of None \<Rightarrow> True | Some stop \<Rightarrow> sz < stop)
          then Inl (Io_Other ''Invalid paired filesystem boundaries'')
          else Inr ())"

definition layout_from_manifest :: "manifest \<Rightarrow> (io_error, layout) result" where
  "layout_from_manifest m =
     (case mf_layout m of
        None \<Rightarrow>
          if mf_version m = Some 2 then Inl (Io_Other ''Paired manifest is missing its layout'')
          else Inr Flat
      | Some None \<Rightarrow> Inl (Io_Other ''invalid layout'')
      | Some (Some l) \<Rightarrow>
          (case mf_size m of
             None \<Rightarrow> Inl (Io_Other ''Missing disk size'')
           | Some sz \<Rightarrow>
               (case layout_validate l sz of Inl e \<Rightarrow> Inl e | Inr _ \<Rightarrow> Inr l)))"

definition layout_paired :: "nat \<Rightarrow> (io_error, layout) result" where
  "layout_paired sz =
     (let l = Paired (sz div 4 div ALIGNMENT * ALIGNMENT)
      in case layout_validate l sz of Inl e \<Rightarrow> Inl e | Inr _ \<Rightarrow> Inr l)"

definition layout_grown :: "layout \<Rightarrow> nat \<Rightarrow> (io_error, layout) result" where
  "layout_grown l sz =
     (case l of
        Flat \<Rightarrow> Inr Flat
      | Paired system_bytes \<Rightarrow>
          let nxt = Paired (max system_bytes (sz div 4 div ALIGNMENT * ALIGNMENT))
          in case layout_validate nxt sz of Inl e \<Rightarrow> Inl e | Inr _ \<Rightarrow> Inr nxt)"

definition system_bytes :: "layout \<Rightarrow> nat \<Rightarrow> nat" where
  "system_bytes l tot = (case l of Flat \<Rightarrow> tot | Paired n \<Rightarrow> n)"

definition manifest_version :: "layout \<Rightarrow> nat" where
  "manifest_version l = (case l of Flat \<Rightarrow> 1 | Paired _ \<Rightarrow> 2)"

definition layout_store :: "layout \<Rightarrow> manifest \<Rightarrow> (io_error, manifest) result" where
  "layout_store l m =
     (case layout_validate l (case mf_size m of None \<Rightarrow> 0 | Some n \<Rightarrow> n) of
        Inl e \<Rightarrow> Inl e
      | Inr _ \<Rightarrow>
          Inr (m\<lparr>mf_version := Some (manifest_version l),
                 mf_layout := (case l of Flat \<Rightarrow> None | Paired _ \<Rightarrow> Some (Some l))\<rparr>))"

section \<open>The manifest of a lazy disk\<close>

definition BLOCK :: nat where
  "BLOCK = 4 * 1024 * 1024"

definition extent_ok :: "nat \<Rightarrow> nat \<Rightarrow> extent \<Rightarrow> bool" where
  "extent_ok sz i block =
     (let offset = i * BLOCK
      in ex_offset block = Some offset
         \<and> ex_size block = Some (min (sz - offset) BLOCK)
         \<and> (case ex_hash block of
              Hash_Null \<Rightarrow> True
            | Hash_String s \<Rightarrow> digest_valid s
            | Hash_Other \<Rightarrow> False))"

definition manifest_validate :: "manifest \<Rightarrow> (io_error, nat) result" where
  "manifest_validate m =
     (case layout_from_manifest m of
        Inl e \<Rightarrow> Inl e
      | Inr l \<Rightarrow>
          (case mf_size m of
             None \<Rightarrow> Inl (Io_Other ''Invalid disk size'')
           | Some sz \<Rightarrow>
               if \<not> (0 < sz \<and> sz \<le> 2 ^ 40) then Inl (Io_Other ''Invalid disk size'')
               else (case mf_blocks m of
                       None \<Rightarrow> Inl (Io_Other ''Missing disk blocks'')
                     | Some blocks \<Rightarrow>
                         if mf_version m \<noteq> Some (manifest_version l)
                            \<or> mf_block_size m \<noteq> Some BLOCK
                            \<or> length blocks \<noteq> div_ceil sz BLOCK
                         then Inl (Io_Other ''Invalid disk manifest'')
                         else if list_all (\<lambda>(i, block). extent_ok sz i block) (enumerate 0 blocks)
                         then Inr sz
                         else Inl (Io_Other ''Invalid disk extent''))))"

section \<open>Properties\<close>

lemma BLOCK_pos [simp]: "0 < BLOCK"
  by (simp add: BLOCK_def)

lemma strip_prefix_append [simp]: "strip_prefix p (p @ s) = Some s"
  by simp

text \<open>
  The identity of a block names it: with a 64-digit lower-case hash it is well formed and
  matches the bytes it was computed from; and an identity matches two different blocks only if
  one of the two hash functions collides on them.
\<close>

theorem digest_identifies:
  assumes "length (blake3_hex h bytes) = 64" "list_all hex_char (blake3_hex h bytes)"
  shows "digest_valid (digest_block h bytes) \<and> digest_matches h (digest_block h bytes) bytes
    \<and> (digest_matches h identity x \<and> digest_matches h identity y \<longrightarrow>
         blake3_hex h x = blake3_hex h y \<or> sha256_hex h x = sha256_hex h y)"
proof -
  have "digest_valid (digest_block h bytes)"
    using assms by (simp add: digest_valid_def digest_block_def)
  then show ?thesis
    by (auto simp: digest_matches_def digest_block_def split: if_splits option.splits)
qed

theorem digest_identifies_witness:
  "digest_matches \<lparr>blake3_hex = \<lambda>_. replicate 64 CHR ''a'', sha256_hex = \<lambda>_. []\<rparr>
     (digest_block \<lparr>blake3_hex = \<lambda>_. replicate 64 CHR ''a'', sha256_hex = \<lambda>_. []\<rparr> [1]) [1]"
  using digest_identifies [of "\<lparr>blake3_hex = \<lambda>_. replicate 64 CHR ''a'', sha256_hex = \<lambda>_. []\<rparr>" "[1]"]
  by (simp add: list_all_iff hex_char_def code_def)

text \<open>
  A layout survives its manifest, paired layouts leave both filesystems at least 64 MiB on
  aligned boundaries inside the disk, and growing a disk never shrinks its system filesystem.
\<close>

theorem layout_sound:
  assumes "mf_size m = Some sz" "layout_validate l sz = Inr ()"
  shows "(\<exists>m'. layout_store l m = Inr m' \<and> layout_from_manifest m' = Inr l)
    \<and> (l \<noteq> Flat \<longrightarrow> MIN_SYSTEM \<le> system_bytes l sz \<and> ALIGNMENT dvd system_bytes l sz
          \<and> system_bytes l sz + MIN_SYSTEM \<le> sz)
    \<and> (layout_grown l sz' = Inr l' \<longrightarrow>
          layout_validate l' sz' = Inr () \<and> (l = Flat \<longleftrightarrow> l' = Flat)
          \<and> (l \<noteq> Flat \<longrightarrow> system_bytes l sz \<le> system_bytes l' sz'))"
proof (intro conjI impI)
  show "\<exists>m'. layout_store l m = Inr m' \<and> layout_from_manifest m' = Inr l"
    using assms
    by (cases l) (simp_all add: layout_store_def layout_from_manifest_def manifest_version_def)
  show "MIN_SYSTEM \<le> system_bytes l sz" "ALIGNMENT dvd system_bytes l sz"
    "system_bytes l sz + MIN_SYSTEM \<le> sz" if "l \<noteq> Flat"
    using assms(2) that
    by (cases l; auto simp: layout_validate_def system_bytes_def split: if_splits option.splits)+
  show "layout_validate l' sz' = Inr ()" "l = Flat \<longleftrightarrow> l' = Flat"
    "l \<noteq> Flat \<Longrightarrow> system_bytes l sz \<le> system_bytes l' sz'" if "layout_grown l sz' = Inr l'"
    using that
    by (cases l; auto simp: layout_grown_def layout_validate_def [of Flat] system_bytes_def Let_def
        split: sum.splits)+
qed

lemma extent_ok_nth:
  assumes "manifest_validate m = Inr sz"
  shows "\<exists>blocks. mf_blocks m = Some blocks \<and> mf_size m = Some sz \<and> 0 < sz \<and> sz \<le> 2 ^ 40
    \<and> length blocks = div_ceil sz BLOCK
    \<and> (\<forall>i < length blocks. extent_ok sz i (blocks ! i))"
proof -
  from assms obtain l blocks where "layout_from_manifest m = Inr l" and sz: "mf_size m = Some sz"
    "0 < sz" "sz \<le> 2 ^ 40" and blocks: "mf_blocks m = Some blocks" "length blocks = div_ceil sz BLOCK"
    and all: "list_all (\<lambda>(i, block). extent_ok sz i block) (enumerate 0 blocks)"
    by (auto simp: manifest_validate_def split: sum.splits option.splits if_splits)
  have "extent_ok sz i (blocks ! i)" if "i < length blocks" for i
    using all that by (auto simp: list_all_length nth_enumerate_eq)
  then show ?thesis using sz blocks by auto
qed

text \<open>
  A manifest that passes the check describes the whole disk: every byte lies in the extent of
  its block index, inside that extent's declared size, and the extents add up to the disk.
\<close>

theorem manifest_covers_disk:
  assumes "manifest_validate m = Inr sz" "position < sz"
  shows "\<exists>blocks offset len. mf_blocks m = Some blocks \<and> position div BLOCK < length blocks
    \<and> ex_offset (blocks ! (position div BLOCK)) = Some offset
    \<and> ex_size (blocks ! (position div BLOCK)) = Some len
    \<and> offset \<le> position \<and> position < offset + len \<and> offset + len \<le> sz \<and> len \<le> BLOCK"
proof -
  from extent_ok_nth [OF assms(1)] obtain blocks where b: "mf_blocks m = Some blocks"
    "length blocks = div_ceil sz BLOCK" and ok: "\<And>i. i < length blocks \<Longrightarrow> extent_ok sz i (blocks ! i)"
    by blast
  let ?i = "position div BLOCK"
  have below: "?i * BLOCK \<le> position" by simp
  have above: "position < ?i * BLOCK + BLOCK"
    using mod_less_divisor [OF BLOCK_pos, of position] div_mult_mod_eq [of position BLOCK] by linarith
  have "?i < length blocks"
    using le_less_trans [OF below assms(2)] by (simp add: b less_div_ceil_iff)
  moreover from ok [OF this] have "ex_offset (blocks ! ?i) = Some (?i * BLOCK)"
    "ex_size (blocks ! ?i) = Some (min (sz - ?i * BLOCK) BLOCK)"
    by (simp_all add: extent_ok_def Let_def)
  moreover have "k \<le> position \<Longrightarrow> position < k + BLOCK \<Longrightarrow>
      position < k + min (sz - k) BLOCK \<and> k + min (sz - k) BLOCK \<le> sz" for k
    using assms(2) by auto
  from this [OF below above] have "position < ?i * BLOCK + min (sz - ?i * BLOCK) BLOCK"
    "?i * BLOCK + min (sz - ?i * BLOCK) BLOCK \<le> sz"
    by simp_all
  ultimately show ?thesis using b below by auto
qed

definition sample_manifest :: manifest where
  "sample_manifest =
     \<lparr>mf_version = Some 1, mf_size = Some (4 * 1024 * 1024 + 7), mf_block_size = Some (4 * 1024 * 1024),
      mf_layout = None,
      mf_blocks = Some
        [\<lparr>ex_offset = Some 0, ex_size = Some (4 * 1024 * 1024), ex_hash = Hash_Null\<rparr>,
         \<lparr>ex_offset = Some (4 * 1024 * 1024), ex_size = Some 7,
          ex_hash = Hash_String (''b3-'' @ replicate 64 CHR ''a'')\<rparr>]\<rparr>"

lemma sample_manifest_valid: "manifest_validate sample_manifest = Inr 4194311"
proof -
  have "digest_valid (''b3-'' @ replicate 64 CHR ''a'')"
    by (simp add: digest_valid_def list_all_iff hex_char_def code_def)
  then show ?thesis
    by (simp add: manifest_validate_def sample_manifest_def layout_from_manifest_def
        manifest_version_def BLOCK_def div_ceil_def extent_ok_def)
qed

theorem manifest_covers_disk_witness:
  "\<exists>blocks offset len. mf_blocks sample_manifest = Some blocks \<and> 4194310 div BLOCK < length blocks
    \<and> ex_offset (blocks ! (4194310 div BLOCK)) = Some offset
    \<and> ex_size (blocks ! (4194310 div BLOCK)) = Some len
    \<and> offset \<le> 4194310 \<and> 4194310 < offset + len \<and> offset + len \<le> 4194311 \<and> len \<le> BLOCK"
  using manifest_covers_disk [OF sample_manifest_valid, of 4194310] by simp

theorem layout_sound_witness:
  "MIN_SYSTEM \<le> system_bytes (Paired (128 * 1024 * 1024)) (512 * 1024 * 1024)"
  using layout_sound [of "sample_manifest\<lparr>mf_size := Some (512 * 1024 * 1024)\<rparr>" "512 * 1024 * 1024"
      "Paired (128 * 1024 * 1024)"]
  by (simp add: layout_validate_def MIN_SYSTEM_def ALIGNMENT_def checked_add64_def u64_limit_def)

end
