(* ===== verification/Disk.thy ===== *)
theory Disk
  imports Prelude "HOL-Library.Monad_Syntax"
begin

text \<open>
  Byte-addressed disks: \<open>storage/device.rs\<close> (the \<open>Disk\<close> trait, \<open>LocalDisk\<close>, \<open>export\<close>) and
  \<open>storage/view.rs\<close> (\<open>DiskView\<close>). A trait object is the record of its operations; the state of
  the disk behind it is passed along. A file is its bytes; input/output errors of the operating
  system other than reading past the end are not modelled. The locale \<open>disk_contract\<close> is the
  promise of the trait's documentation; views and exports are proved against it.
\<close>

section \<open>The trait\<close>

record disk_write =
  dw_offset :: nat
  dw_bytes :: "byte list"

type_synonym 's outcome = "(io_error, unit) result \<times> 's"

record 's disk_ops =
  op_size :: "'s \<Rightarrow> nat"
  op_read_at :: "nat \<Rightarrow> nat \<Rightarrow> 's \<Rightarrow> (io_error, byte list) result"
  op_write_at :: "nat \<Rightarrow> byte list \<Rightarrow> 's \<Rightarrow> 's outcome"
  op_write_batch :: "disk_write list \<Rightarrow> 's \<Rightarrow> 's outcome"
  op_sync :: "'s \<Rightarrow> 's outcome"

text \<open>The trait's default \<open>write_batch\<close>: one write after the other, stopping at a failure.\<close>

fun default_write_batch :: "(nat \<Rightarrow> byte list \<Rightarrow> 's \<Rightarrow> 's outcome) \<Rightarrow> disk_write list \<Rightarrow> 's \<Rightarrow> 's outcome" where
  "default_write_batch write [] s = (Inr (), s)"
| "default_write_batch write (w # ws) s =
     (case write (dw_offset w) (dw_bytes w) s of
        (Inl e, s') \<Rightarrow> (Inl e, s')
      | (Inr _, s') \<Rightarrow> default_write_batch write ws s')"

definition disk_range :: "nat \<Rightarrow> nat \<Rightarrow> nat \<Rightarrow> (io_error, unit) result" where
  "disk_range sz offset len =
     (if (case checked_add64 offset len of None \<Rightarrow> True | Some stop \<Rightarrow> sz < stop)
      then Inl (Io_Invalid_Input ''Disk access exceeds its size'') else Inr ())"

section \<open>A disk in a file\<close>

definition read_exact_at :: "byte list \<Rightarrow> nat \<Rightarrow> nat \<Rightarrow> (io_error, byte list) result" where
  "read_exact_at file offset len =
     (if len = 0 \<or> offset + len \<le> length file then Inr (subrange offset len file)
      else Inl (Io_Other ''failed to fill whole buffer''))"

definition write_all_at :: "byte list \<Rightarrow> nat \<Rightarrow> byte list \<Rightarrow> byte list" where
  "write_all_at bytes offset file =
     (if bytes = [] then file
      else overwrite offset bytes (file @ replicate (offset + length bytes - length file) 0))"

record local_disk =
  ld_file :: "byte list"
  ld_size :: nat

definition local_open :: "byte list \<Rightarrow> (io_error, local_disk) result" where
  "local_open file =
     (if length file = 0 then Inl (Io_Invalid_Input ''Expected a nonempty disk image'')
      else Inr \<lparr>ld_file = file, ld_size = length file\<rparr>)"

definition local_read_at :: "nat \<Rightarrow> nat \<Rightarrow> local_disk \<Rightarrow> (io_error, byte list) result" where
  "local_read_at offset len d =
     (case disk_range (ld_size d) offset len of
        Inl e \<Rightarrow> Inl e
      | Inr _ \<Rightarrow> read_exact_at (ld_file d) offset len)"

definition local_write_at :: "nat \<Rightarrow> byte list \<Rightarrow> local_disk \<Rightarrow> local_disk outcome" where
  "local_write_at offset bytes d =
     (case disk_range (ld_size d) offset (length bytes) of
        Inl e \<Rightarrow> (Inl e, d)
      | Inr _ \<Rightarrow> (Inr (), d\<lparr>ld_file := write_all_at bytes offset (ld_file d)\<rparr>))"

definition local_sync :: "local_disk \<Rightarrow> local_disk outcome" where
  "local_sync d = (Inr (), d)"

definition local_ops :: "local_disk disk_ops" where
  "local_ops =
     \<lparr>op_size = ld_size, op_read_at = local_read_at, op_write_at = local_write_at,
      op_write_batch = default_write_batch local_write_at, op_sync = local_sync\<rparr>"

section \<open>Export\<close>

definition EXPORT_BUFFER :: nat where
  "EXPORT_BUFFER = 4 * 1024 * 1024"

function export_loop :: "'s disk_ops \<Rightarrow> 's \<Rightarrow> nat \<Rightarrow> byte list \<Rightarrow> (io_error, byte list) result" where
  "export_loop ops s offset file =
     (if offset < op_size ops s
      then let len = min (op_size ops s - offset) EXPORT_BUFFER
           in case op_read_at ops offset len s of
                Inl e \<Rightarrow> Inl e
              | Inr buffer \<Rightarrow>
                  export_loop ops s (offset + len)
                    (if list_ex (\<lambda>b. b \<noteq> 0) buffer then write_all_at buffer offset file else file)
      else Inr file)"
  by pat_completeness auto
termination
  by (relation "measure (\<lambda>(ops, s, offset, file). op_size ops s - offset)")
    (auto simp: EXPORT_BUFFER_def)

declare export_loop.simps [simp del]

text \<open>
  The exported file, or \<open>None\<close> when it exists already or had to be removed: a failed export
  leaves nothing behind. \<open>set_len\<close> on the new file gives zeros.
\<close>

definition export :: "'s disk_ops \<Rightarrow> 's \<Rightarrow> byte list option \<Rightarrow> (io_error, unit) result \<times> byte list option" where
  "export ops s existing =
     (case existing of
        Some file \<Rightarrow> (Inl (Io_Other ''File exists''), Some file)
      | None \<Rightarrow>
          (case export_loop ops s 0 (replicate (op_size ops s) 0) of
             Inl e \<Rightarrow> (Inl e, None)
           | Inr file \<Rightarrow> (Inr (), Some file)))"

section \<open>Views\<close>

record disk_view =
  vw_offset :: nat
  vw_size :: nat

definition view_new :: "'s disk_ops \<Rightarrow> 's \<Rightarrow> nat \<Rightarrow> nat \<Rightarrow> (io_error, disk_view) result" where
  "view_new ops s offset sz =
     (if sz = 0
         \<or> (case checked_add64 offset sz of None \<Rightarrow> True | Some stop \<Rightarrow> op_size ops s < stop)
      then Inl (Io_Invalid_Input ''Invalid disk view'')
      else Inr \<lparr>vw_offset = offset, vw_size = sz\<rparr>)"

definition view_translate :: "disk_view \<Rightarrow> nat \<Rightarrow> nat \<Rightarrow> (io_error, nat) result" where
  "view_translate v offset len =
     (case disk_range (vw_size v) offset len of
        Inl e \<Rightarrow> Inl e
      | Inr _ \<Rightarrow> Inr ((vw_offset v + offset) mod u64_limit))"

definition view_read_at :: "'s disk_ops \<Rightarrow> disk_view \<Rightarrow> nat \<Rightarrow> nat \<Rightarrow> 's \<Rightarrow> (io_error, byte list) result" where
  "view_read_at ops v offset len s =
     (case view_translate v offset len of
        Inl e \<Rightarrow> Inl e
      | Inr position \<Rightarrow> op_read_at ops position len s)"

definition view_write_at :: "'s disk_ops \<Rightarrow> disk_view \<Rightarrow> nat \<Rightarrow> byte list \<Rightarrow> 's \<Rightarrow> 's outcome" where
  "view_write_at ops v offset bytes s =
     (case view_translate v offset (length bytes) of
        Inl e \<Rightarrow> (Inl e, s)
      | Inr position \<Rightarrow> op_write_at ops position bytes s)"

fun view_translate_all :: "disk_view \<Rightarrow> disk_write list \<Rightarrow> (io_error, disk_write list) result" where
  "view_translate_all v [] = Inr []"
| "view_translate_all v (w # ws) =
     (case view_translate v (dw_offset w) (length (dw_bytes w)) of
        Inl e \<Rightarrow> Inl e
      | Inr position \<Rightarrow>
          (case view_translate_all v ws of
             Inl e \<Rightarrow> Inl e
           | Inr rest \<Rightarrow> Inr (\<lparr>dw_offset = position, dw_bytes = dw_bytes w\<rparr> # rest)))"

definition view_write_batch :: "'s disk_ops \<Rightarrow> disk_view \<Rightarrow> disk_write list \<Rightarrow> 's \<Rightarrow> 's outcome" where
  "view_write_batch ops v writes s =
     (case view_translate_all v writes of
        Inl e \<Rightarrow> (Inl e, s)
      | Inr translated \<Rightarrow> op_write_batch ops translated s)"

definition view_ops :: "'s disk_ops \<Rightarrow> disk_view \<Rightarrow> 's disk_ops" where
  "view_ops ops v =
     \<lparr>op_size = (\<lambda>_. vw_size v), op_read_at = view_read_at ops v, op_write_at = view_write_at ops v,
      op_write_batch = view_write_batch ops v, op_sync = op_sync ops\<rparr>"

section \<open>The contract of a disk\<close>

fun apply_writes :: "disk_write list \<Rightarrow> byte list \<Rightarrow> byte list" where
  "apply_writes [] c = c"
| "apply_writes (w # ws) c = apply_writes ws (overwrite (dw_offset w) (dw_bytes w) c)"

definition in_bounds :: "disk_write list \<Rightarrow> nat \<Rightarrow> bool" where
  "in_bounds ws n = list_all (\<lambda>w. dw_offset w + length (dw_bytes w) \<le> n) ws"

lemma subrange_apply_writes:
  assumes "in_bounds ws n" "i + n \<le> length xs"
  shows "subrange i n (apply_writes
      (map (\<lambda>w. \<lparr>dw_offset = i + dw_offset w, dw_bytes = dw_bytes w\<rparr>) ws) xs)
    = apply_writes ws (subrange i n xs)"
  using assms
  by (induction ws arbitrary: xs) (auto simp: in_bounds_def subrange_overwrite_inside)

lemma length_apply_writes: "in_bounds ws (length xs) \<Longrightarrow> length (apply_writes ws xs) = length xs"
  by (induction ws arbitrary: xs) (auto simp: in_bounds_def)

locale disk_contract =
  fixes ops :: "'s disk_ops" and contents :: "'s \<Rightarrow> byte list" and invar :: "'s \<Rightarrow> bool"
  assumes size_ok: "invar s \<Longrightarrow> op_size ops s = length (contents s)"
    and size_u64: "invar s \<Longrightarrow> length (contents s) < u64_limit"
    and read_ok: "invar s \<Longrightarrow> op_read_at ops offset len s = Inr bytes \<Longrightarrow>
      offset + len \<le> length (contents s) \<and> bytes = subrange offset len (contents s)"
    and write_ok: "invar s \<Longrightarrow> op_write_at ops offset bytes s = (Inr (), s') \<Longrightarrow>
      invar s' \<and> offset + length bytes \<le> length (contents s)
      \<and> contents s' = overwrite offset bytes (contents s)"
    and batch_ok: "invar s \<Longrightarrow> op_write_batch ops writes s = (Inr (), s') \<Longrightarrow>
      invar s' \<and> in_bounds writes (length (contents s)) \<and> contents s' = apply_writes writes (contents s)"
    and sync_ok: "invar s \<Longrightarrow> op_sync ops s = (Inr (), s') \<Longrightarrow> invar s' \<and> contents s' = contents s"

begin

text \<open>A view is again a disk, whose bytes are the window it covers.\<close>

definition view_contents :: "disk_view \<Rightarrow> 's \<Rightarrow> byte list" where
  "view_contents v s = subrange (vw_offset v) (vw_size v) (contents s)"

definition view_invar :: "disk_view \<Rightarrow> 's \<Rightarrow> bool" where
  "view_invar v s = (invar s \<and> vw_offset v + vw_size v \<le> length (contents s))"

lemma view_new_invar:
  "invar s \<Longrightarrow> view_new ops s offset sz = Inr v \<Longrightarrow>
     view_invar v s \<and> v = \<lparr>vw_offset = offset, vw_size = sz\<rparr>"
  by (auto simp: view_new_def view_invar_def size_ok split: if_splits option.splits)

text \<open>The translation into the backing disk does not wrap around.\<close>

lemma translate_ok:
  assumes "view_invar v s" "view_translate v offset len = Inr position"
  shows "offset + len \<le> vw_size v \<and> position = vw_offset v + offset
    \<and> position + len \<le> length (contents s)"
proof -
  have "offset + len \<le> vw_size v" and p: "position = (vw_offset v + offset) mod u64_limit"
    using assms(2)
    by (auto simp: view_translate_def disk_range_def split: sum.splits option.splits if_splits unit.splits)
  moreover have "vw_offset v + offset < u64_limit"
    using calculation(1) assms(1) size_u64 [of s] by (simp add: view_invar_def)
  ultimately show ?thesis using assms(1) by (simp add: view_invar_def)
qed

lemma translate_all_ok:
  assumes "view_invar v s" "view_translate_all v ws = Inr ts"
  shows "in_bounds ws (vw_size v) \<and>
    ts = map (\<lambda>w. \<lparr>dw_offset = vw_offset v + dw_offset w, dw_bytes = dw_bytes w\<rparr>) ws"
  using assms(2)
proof (induction ws arbitrary: ts)
  case Nil
  then show ?case by (simp add: in_bounds_def)
next
  case (Cons w ws)
  then show ?case
    using translate_ok [OF assms(1), of "dw_offset w" "length (dw_bytes w)"]
    by (auto simp: in_bounds_def split: sum.splits)
qed

theorem view_contract: "disk_contract (view_ops ops v) (view_contents v) (view_invar v)"
proof unfold_locales
  fix s
  assume "view_invar v s"
  then show "op_size (view_ops ops v) s = length (view_contents v s)"
    by (simp add: view_ops_def view_contents_def view_invar_def)
  show "length (view_contents v s) < u64_limit"
    using \<open>view_invar v s\<close> size_u64 [of s] by (simp add: view_contents_def view_invar_def)
next
  fix s offset len bytes
  assume inv: "view_invar v s" and "op_read_at (view_ops ops v) offset len s = Inr bytes"
  then obtain position where "view_translate v offset len = Inr position"
    and "op_read_at ops position len s = Inr bytes"
    by (auto simp: view_ops_def view_read_at_def split: sum.splits)
  then show "offset + len \<le> length (view_contents v s) \<and> bytes = subrange offset len (view_contents v s)"
    using translate_ok [OF inv, of offset len position] read_ok [of s position len bytes] inv
    by (simp add: view_contents_def view_invar_def subrange_subrange)
next
  fix s offset bytes s'
  assume inv: "view_invar v s" and "op_write_at (view_ops ops v) offset bytes s = (Inr (), s')"
  then obtain position where tr: "view_translate v offset (length bytes) = Inr position"
    and "op_write_at ops position bytes s = (Inr (), s')"
    by (auto simp: view_ops_def view_write_at_def split: sum.splits)
  then show "view_invar v s' \<and> offset + length bytes \<le> length (view_contents v s)
      \<and> view_contents v s' = overwrite offset bytes (view_contents v s)"
    using translate_ok [OF inv tr] write_ok [of s position bytes s'] inv
    by (simp add: view_contents_def view_invar_def subrange_overwrite_inside)
next
  fix s writes s'
  assume inv: "view_invar v s" and "op_write_batch (view_ops ops v) writes s = (Inr (), s')"
  then obtain ts where tr: "view_translate_all v writes = Inr ts"
    and "op_write_batch ops ts s = (Inr (), s')"
    by (auto simp: view_ops_def view_write_batch_def split: sum.splits)
  then show "view_invar v s' \<and> in_bounds writes (length (view_contents v s))
      \<and> view_contents v s' = apply_writes writes (view_contents v s)"
    using translate_all_ok [OF inv tr] batch_ok [of s ts s'] inv
    by (auto simp: view_contents_def view_invar_def subrange_apply_writes length_apply_writes)
next
  fix s s'
  assume "view_invar v s" "op_sync (view_ops ops v) s = (Inr (), s')"
  then show "view_invar v s' \<and> view_contents v s' = view_contents v s"
    using sync_ok [of s s'] by (simp add: view_ops_def view_contents_def view_invar_def)
qed

text \<open>Writing through a view leaves every disjoint view alone.\<close>

lemma disjoint_view_write:
  assumes inv: "view_invar v s" "view_invar w s"
    and apart: "vw_offset v + vw_size v \<le> vw_offset w \<or> vw_offset w + vw_size w \<le> vw_offset v"
    and written: "op_write_at (view_ops ops v) offset bytes s = (Inr (), s')"
  shows "view_invar w s' \<and> view_contents w s' = view_contents w s"
proof -
  from written obtain position where tr: "view_translate v offset (length bytes) = Inr position"
    and wr: "op_write_at ops position bytes s = (Inr (), s')"
    by (auto simp: view_ops_def view_write_at_def split: sum.splits)
  show ?thesis
    using translate_ok [OF inv(1) tr] write_ok [OF _ wr] inv apart
    by (auto simp: view_contents_def view_invar_def subrange_overwrite_disjoint)
qed

end

locale available_disk = disk_contract +
  assumes read_available: "invar s \<Longrightarrow> len \<le> EXPORT_BUFFER \<Longrightarrow>
    offset + len \<le> length (contents s) \<Longrightarrow> \<exists>bytes. op_read_at ops offset len s = Inr bytes"
begin

lemma overwrite_prefix:
  assumes "take i out = take i c" "drop i out = replicate (length c - i) 0"
    "i + n \<le> length c" "length out = length c"
  shows "take (i + n) (overwrite i (subrange i n c) out) = take (i + n) c
    \<and> drop (i + n) (overwrite i (subrange i n c) out) = replicate (length c - (i + n)) 0"
proof -
  have "drop (i + n) out = replicate (length c - (i + n)) 0"
    using assms(2) by (metis diff_diff_left drop_drop drop_replicate add.commute)
  then show ?thesis
    using assms by (simp add: overwrite_def subrange_def take_add)
qed

lemma zero_prefix:
  assumes "take i out = take i c" "drop i out = replicate (length c - i) (0 :: byte)"
    "i + n \<le> length c" "length out = length c" "\<forall>b \<in> set (subrange i n c). b = 0"
  shows "overwrite i (subrange i n c) out = out"
proof -
  have "subrange i n c = replicate n 0"
    using assms(3,5) by (metis length_subrange replicate_eqI)
  moreover have "subrange i n out = replicate n 0"
    using assms(2,3) by (simp add: subrange_def min_def)
  ultimately show ?thesis
    using assms(3,4) by (metis append_take_drop_id drop_drop overwrite_def subrange_def length_subrange add.commute)
qed

lemma export_loop_copies:
  assumes "invar s" "take offset out = take offset (contents s)"
    "drop offset out = replicate (length (contents s) - offset) 0"
    "offset \<le> length (contents s)" "length out = length (contents s)"
  shows "export_loop ops s offset out = Inr (contents s)"
  using assms
proof (induction "length (contents s) - offset" arbitrary: offset out rule: less_induct)
  case less
  let ?c = "contents s"
  show ?case
  proof (cases "offset < length ?c")
    case False
    then show ?thesis using less.prems by (simp add: export_loop.simps size_ok)
  next
    case True
    define n where "n = min (length ?c - offset) EXPORT_BUFFER"
    have n: "0 < n" "n \<le> EXPORT_BUFFER" "offset + n \<le> length ?c"
      using True by (auto simp: n_def EXPORT_BUFFER_def)
    obtain buffer where read: "op_read_at ops offset n s = Inr buffer"
      using read_available [OF less.prems(1) n(2,3)] by blast
    have buffer: "buffer = subrange offset n ?c"
      using read_ok [OF less.prems(1) read] by simp
    define out' where "out' = overwrite offset buffer out"
    have next_file: "(if list_ex (\<lambda>b. b \<noteq> 0) buffer then write_all_at buffer offset out else out) = out'"
      using n less.prems buffer zero_prefix [OF less.prems(2,3) n(3) less.prems(5)]
      by (auto simp: out'_def write_all_at_def list_ex_iff)
    have "export_loop ops s (offset + n) out' = Inr ?c"
    proof (rule less.hyps)
      show "length ?c - (offset + n) < length ?c - offset" using n True by simp
      show "take (offset + n) out' = take (offset + n) ?c"
        "drop (offset + n) out' = replicate (length ?c - (offset + n)) 0"
        using overwrite_prefix [OF less.prems(2,3) n(3) less.prems(5)] by (simp_all add: out'_def buffer)
      show "length out' = length ?c"
        using n less.prems by (simp add: out'_def buffer)
    qed (use less.prems n in auto)
    then show ?thesis
      using True read less.prems(1) next_file
      by (subst export_loop.simps) (simp add: size_ok n_def [symmetric])
  qed
qed

lemma export_copies: "invar s \<Longrightarrow> export ops s None = (Inr (), Some (contents s))"
  using export_loop_copies [of s 0 "replicate (length (contents s)) 0"]
  by (simp add: export_def size_ok)

end

section \<open>The disk in a file keeps the contract\<close>

definition local_ok :: "local_disk \<Rightarrow> bool" where
  "local_ok d = (ld_size d = length (ld_file d) \<and> 0 < ld_size d \<and> ld_size d < u64_limit)"

lemma disk_range_eq:
  "disk_range sz offset len =
     (if offset + len \<le> sz \<and> offset + len < u64_limit then Inr ()
      else Inl (Io_Invalid_Input ''Disk access exceeds its size''))"
  by (auto simp: disk_range_def checked_add64_def)

lemma write_all_at_inside:
  "offset + length bytes \<le> length out \<Longrightarrow> write_all_at bytes offset out = overwrite offset bytes out"
  by (auto simp: write_all_at_def overwrite_def)

lemma local_write_Inr:
  "local_write_at offset bytes d = (Inr (), d') \<longleftrightarrow>
     offset + length bytes \<le> ld_size d \<and> offset + length bytes < u64_limit
     \<and> d' = d\<lparr>ld_file := write_all_at bytes offset (ld_file d)\<rparr>"
  unfolding local_write_at_def disk_range_eq by (simp split: if_split) blast

lemma local_write_ok:
  assumes "local_ok d" "local_write_at offset bytes d = (Inr (), d')"
  shows "local_ok d' \<and> offset + length bytes \<le> length (ld_file d)
    \<and> ld_file d' = overwrite offset bytes (ld_file d)"
  using assms unfolding local_write_Inr by (auto simp: local_ok_def write_all_at_inside)

lemma local_batch_ok:
  assumes "local_ok d" "default_write_batch local_write_at ws d = (Inr (), d')"
  shows "local_ok d' \<and> in_bounds ws (length (ld_file d)) \<and> ld_file d' = apply_writes ws (ld_file d)"
  using assms
proof (induction ws arbitrary: d)
  case Nil
  then show ?case by (simp add: in_bounds_def)
next
  case (Cons w ws)
  from Cons.prems(2) obtain d1 where one: "local_write_at (dw_offset w) (dw_bytes w) d = (Inr (), d1)"
    and rest: "default_write_batch local_write_at ws d1 = (Inr (), d')"
    by (auto simp del: split_paired_Ex split: prod.splits sum.splits)
  then show ?case
    using local_write_ok [OF Cons.prems(1) one] Cons.IH [OF _ rest] by (simp add: in_bounds_def)
qed

interpretation local: available_disk local_ops ld_file local_ok
proof unfold_locales
  fix d :: local_disk and offset len bytes d' ws
  assume ok: "local_ok d"
  then show "op_size local_ops d = length (ld_file d)" "length (ld_file d) < u64_limit"
    by (simp_all add: local_ops_def local_ok_def)
  show "offset + len \<le> length (ld_file d) \<and> bytes = subrange offset len (ld_file d)"
    if "op_read_at local_ops offset len d = Inr bytes"
    using that ok
    by (simp add: local_ops_def local_read_at_def read_exact_at_def local_ok_def disk_range_eq
        split: if_split_asm)
  show "local_ok d' \<and> offset + length bytes \<le> length (ld_file d)
      \<and> ld_file d' = overwrite offset bytes (ld_file d)"
    if "op_write_at local_ops offset bytes d = (Inr (), d')"
    using that local_write_ok [OF ok] by (simp add: local_ops_def)
  show "local_ok d' \<and> in_bounds ws (length (ld_file d)) \<and> ld_file d' = apply_writes ws (ld_file d)"
    if "op_write_batch local_ops ws d = (Inr (), d')"
    using that local_batch_ok [OF ok] by (simp add: local_ops_def)
  show "local_ok d' \<and> ld_file d' = ld_file d" if "op_sync local_ops d = (Inr (), d')"
    using that ok by (simp add: local_ops_def local_sync_def)
  show "\<exists>bytes. op_read_at local_ops offset len d = Inr bytes"
    if "len \<le> EXPORT_BUFFER" "offset + len \<le> length (ld_file d)"
    using that ok
    by (simp add: local_ops_def local_read_at_def read_exact_at_def local_ok_def disk_range_eq)
qed

lemma local_read_eq:
  assumes "local_ok d"
  shows "local_read_at offset len d =
    (if offset + len \<le> length (ld_file d) then Inr (subrange offset len (ld_file d))
     else Inl (Io_Invalid_Input ''Disk access exceeds its size''))"
  using assms by (simp add: local_read_at_def local_ok_def disk_range_eq read_exact_at_def)

lemma local_view_read_eq:
  assumes "local.view_invar v d"
  shows "view_read_at local_ops v offset len d =
    (if offset + len \<le> vw_size v then Inr (subrange offset len (local.view_contents v d))
     else Inl (Io_Invalid_Input ''Disk access exceeds its size''))"
proof (cases "offset + len \<le> vw_size v")
  case True
  have ok: "local_ok d" and fits: "vw_offset v + vw_size v \<le> length (ld_file d)"
    and lim: "length (ld_file d) < u64_limit"
    using assms by (auto simp: local.view_invar_def local_ok_def)
  have "view_translate v offset len = Inr (vw_offset v + offset)"
    using True fits lim by (simp add: view_translate_def disk_range_eq)
  then show ?thesis
    using True fits ok
    by (simp add: view_read_at_def local_ops_def local_read_eq local.view_contents_def subrange_subrange)
next
  case False
  then show ?thesis
    by (simp add: view_read_at_def view_translate_def disk_range_eq)
qed

interpretation local_view: available_disk "view_ops local_ops v" "local.view_contents v"
  "local.view_invar v" for v
  by (intro available_disk.intro available_disk_axioms.intro local.view_contract)
    (simp add: view_ops_def local_view_read_eq local.view_contents_def local.view_invar_def)

section \<open>Properties\<close>



text \<open>
  C39: an export of a disk or of one of its views is exactly its bytes, and an existing target is
  refused and kept.
\<close>

theorem export_exact:
  assumes "local_open img = Inr d" "length img < u64_limit" "view_new local_ops d off n = Inr v"
  shows "export local_ops d None = (Inr (), Some img)
    \<and> export (view_ops local_ops v) d None = (Inr (), Some (subrange off n img))
    \<and> export local_ops d (Some kept) = (Inl (Io_Other ''File exists''), Some kept)"
proof -
  have ok: "local_ok d" and d: "ld_file d = img"
    using assms by (auto simp: local_open_def local_ok_def split: if_splits)
  have v: "local.view_invar v d \<and> v = \<lparr>vw_offset = off, vw_size = n\<rparr>"
    using local.view_new_invar [OF ok assms(3)] .
  have "export (view_ops local_ops v) d None = (Inr (), Some (local.view_contents v d))"
    using local_view.export_copies v by blast
  moreover have "export local_ops d (Some kept) = (Inl (Io_Other ''File exists''), Some kept)"
    by (simp add: export_def)
  ultimately show ?thesis
    using local.export_copies [OF ok] v d by (auto simp: local.view_contents_def)
qed

theorem export_exact_witness:
  "export (view_ops local_ops \<lparr>vw_offset = 1, vw_size = 2\<rparr>) \<lparr>ld_file = [5, 0, 7, 8], ld_size = 4\<rparr> None
     = (Inr (), Some [0, 7])"
proof -
  let ?d = "\<lparr>ld_file = [5, 0, 7, 8], ld_size = 4\<rparr>"
  have "local_open [5, 0, 7, 8] = Inr ?d" by (simp add: local_open_def)
  moreover have "length [5, 0, 7, 8 :: byte] < u64_limit" by (simp add: u64_limit_def)
  moreover have "view_new local_ops ?d 1 2 = Inr \<lparr>vw_offset = 1, vw_size = 2\<rparr>"
    by (simp add: view_new_def local_ops_def checked_add64_def u64_limit_def)
  ultimately show ?thesis
    using export_exact [where off = 1 and n = 2 and d = ?d] by (simp add: subrange_def)
qed

end
