(* ===== verification/Journal.thy ===== *)
theory Journal
  imports Manifest Disk Rust_Map
begin

text \<open>
  The write journal of a lazy disk, \<open>storage/lazy/journal.rs\<close>: its frames, the index over them
  (records, the index per block, the newest sequence per range, the accounting per generation),
  appending, group commit, sealing, retiring and the scan at open. Files are a map from names to
  bytes, the metadata database a record of its tables; database and file system calls succeed,
  except that a frame's write may fail after some of its bytes, which is an argument of \<open>append\<close>.
  The hash functions are parameters; 64-bit signed integers are \<open>int\<close> with their bounds checked
  where the code checks them.
\<close>

section \<open>Frames\<close>

definition JOURNAL_HEADER :: nat where
  "JOURNAL_HEADER = 112"

definition SEGMENT_BYTES :: nat where
  "SEGMENT_BYTES = 64 * 1024 * 1024"

definition MAX_IO :: nat where
  "MAX_IO = 8 * 1024 * 1024"

definition bytes_of :: "string \<Rightarrow> byte list" where
  "bytes_of s = map (\<lambda>c. of_nat (code c)) s"

definition MAGIC :: "byte list" where
  "MAGIC = bytes_of ''CAIRNJ03''"

definition LEGACY_MAGIC :: "byte list" where
  "LEGACY_MAGIC = bytes_of ''CAIRNJ02''"

definition to_le_bytes :: "int \<Rightarrow> byte list" where
  "to_le_bytes v = map (\<lambda>i. of_int (v div 256 ^ i)) [0..<8]"

definition from_le_bytes :: "byte list \<Rightarrow> int" where
  "from_le_bytes bs =
     (let n = foldr (\<lambda>b acc. int (unat b) + 256 * acc) bs 0
      in if n < 2 ^ 63 then n else n - 2 ^ 64)"

definition integer :: "byte list \<Rightarrow> nat \<Rightarrow> int" where
  "integer header offset = from_le_bytes (subrange offset 8 header)"

record journal_hashes =
  jh_blake3 :: "byte list \<Rightarrow> byte list"
  jh_sha256 :: "byte list \<Rightarrow> byte list"
  jh_hex :: "byte list \<Rightarrow> string"

definition journal_digest :: "journal_hashes \<Rightarrow> byte list \<Rightarrow> byte list \<Rightarrow> byte list" where
  "journal_digest h header data =
     (if take 8 header = MAGIC then jh_blake3 h (header @ data) else jh_sha256 h (header @ data))"

definition frame_header :: "journal_hashes \<Rightarrow> int \<Rightarrow> int \<Rightarrow> nat \<Rightarrow> byte list \<Rightarrow> int \<Rightarrow> byte list" where
  "frame_header h sequence generation offset data written_at =
     (let fields = MAGIC @ to_le_bytes sequence @ to_le_bytes generation @ to_le_bytes (int offset)
                   @ to_le_bytes (int (length data)) @ to_le_bytes written_at;
          checked = fields @ journal_digest h fields []
      in checked @ journal_digest h checked data)"

section \<open>Records\<close>

datatype location =
    Segment_At string nat "byte list"
  | Legacy_At string

record jrecord =
  jr_sequence :: int
  jr_generation :: int
  jr_start :: nat
  jr_end :: nat
  jr_written_at :: int
  jr_location :: location

record legacy_row =
  lr_start :: int
  lr_data :: "byte list"
  lr_checksum :: string
  lr_seq :: int
  lr_generation :: int
  lr_end :: int
  lr_written_at :: int

definition legacy_checksum :: "journal_hashes \<Rightarrow> int \<Rightarrow> int \<Rightarrow> nat \<Rightarrow> byte list \<Rightarrow> string" where
  "legacy_checksum h sequence generation offset bytes =
     jh_hex h (jh_sha256 h (to_le_bytes sequence @ to_le_bytes generation @ to_le_bytes (int offset)
       @ to_le_bytes (int (length bytes)) @ bytes))"

definition legacy_record :: "journal_hashes \<Rightarrow> nat \<Rightarrow> legacy_row \<Rightarrow> (io_error, nat \<times> byte list) result" where
  "legacy_record h sz row =
     (if lr_start row < 0 \<or> lr_seq row < 1 \<or> lr_generation row < 1 \<or> lr_data row = []
         \<or> MAX_IO < length (lr_data row) \<or> lr_end row < lr_start row \<or> int sz < lr_end row
         \<or> nat (lr_end row) \<noteq> saturating_add64 (nat (lr_start row)) (length (lr_data row))
         \<or> legacy_checksum h (lr_seq row) (lr_generation row) (nat (lr_start row)) (lr_data row)
             \<noteq> lr_checksum row
      then Inl (Io_Other ''Local journal integrity check failed'')
      else Inr (nat (lr_start row), lr_data row))"

type_synonym files = "(string, byte list) hash_map"

definition record_read ::
  "journal_hashes \<Rightarrow> files \<Rightarrow> legacy_row list \<Rightarrow> nat \<Rightarrow> jrecord \<Rightarrow> (io_error, byte list) result" where
  "record_read h files legacy sz r =
     (case jr_location r of
        Segment_At name position header \<Rightarrow>
          (case hm_get files name of
             None \<Rightarrow> Inl (Io_Other ''No such file'')
           | Some content \<Rightarrow>
               (case read_exact_at content position JOURNAL_HEADER of
                  Inl e \<Rightarrow> Inl e
                | Inr actual \<Rightarrow>
                    (case read_exact_at content (position + JOURNAL_HEADER) (jr_end r - jr_start r) of
                       Inl e \<Rightarrow> Inl e
                     | Inr data \<Rightarrow>
                         if actual \<noteq> header
                            \<or> journal_digest h (take 48 actual) [] \<noteq> subrange 48 32 actual
                            \<or> journal_digest h (take 80 actual) data \<noteq> drop 80 actual
                         then Inl (Io_Other ''Local journal integrity check failed'')
                         else Inr data)))
      | Legacy_At checksum \<Rightarrow>
          (case find (\<lambda>row. lr_seq row = jr_sequence r) legacy of
             None \<Rightarrow> Inl (Io_Other ''Query returned no rows'')
           | Some row \<Rightarrow>
               (case legacy_record h sz row of
                  Inl e \<Rightarrow> Inl e
                | Inr (start, bytes) \<Rightarrow>
                    if start \<noteq> jr_start r \<or> lr_checksum row \<noteq> checksum
                    then Inl (Io_Other ''Legacy journal changed'')
                    else Inr bytes)))"

section \<open>The journal\<close>

record segment =
  sg_name :: string
  sg_generation :: int
  sg_length :: nat

type_synonym index = "(int, jrecord) btree_map"

record journal =
  jn_records :: index
  jn_blocks :: "(nat, index) btree_map"
  jn_latest :: "(int \<times> nat \<times> nat, int) hash_map"
  jn_epochs :: "(int, nat \<times> int) btree_map"
  jn_segments :: "segment list"
  jn_active :: "nat option"
  jn_generation :: int
  jn_next :: int
  jn_failed :: bool
  jn_durable_through :: int
  jn_pending :: "(string, int) hash_map"
  jn_legacy_through :: int
  jn_dirty_bytes :: nat
  jn_dirty_since :: "int option"
  jn_journal_bytes :: nat

definition journal_failed :: io_error where
  "journal_failed = Io_Other ''Journal needs recovery after failed append''"

definition record_blocks :: "jrecord \<Rightarrow> nat list" where
  "record_blocks r = [jr_start r div BLOCK ..< div_ceil (jr_end r) BLOCK]"

definition range_key :: "jrecord \<Rightarrow> int \<times> nat \<times> nat" where
  "range_key r = (jr_generation r, jr_start r, jr_end r)"

definition block_index :: "(nat, index) btree_map \<Rightarrow> nat \<Rightarrow> index" where
  "block_index blocks b = (case bt_get blocks b of None \<Rightarrow> [] | Some ix \<Rightarrow> ix)"

fun unindex_blocks :: "int \<Rightarrow> nat list \<Rightarrow> (nat, index) btree_map \<Rightarrow> (nat, index) btree_map" where
  "unindex_blocks previous [] blocks = blocks"
| "unindex_blocks previous (b # bs) blocks =
     unindex_blocks previous bs
       (case bt_get blocks b of
          None \<Rightarrow> blocks
        | Some ix \<Rightarrow> bt_insert b (bt_remove previous ix) blocks)"

fun index_blocks :: "jrecord \<Rightarrow> nat list \<Rightarrow> (nat, index) btree_map \<Rightarrow> (nat, index) btree_map" where
  "index_blocks r [] blocks = blocks"
| "index_blocks r (b # bs) blocks =
     index_blocks r bs (bt_insert b (bt_insert (jr_sequence r) r (block_index blocks b)) blocks)"

definition epoch_add :: "jrecord \<Rightarrow> (int, nat \<times> int) btree_map \<Rightarrow> (int, nat \<times> int) btree_map" where
  "epoch_add r epochs =
     (let (bytes, at) = (case bt_get epochs (jr_generation r) of
                           None \<Rightarrow> (0, jr_written_at r) | Some e \<Rightarrow> e)
      in bt_insert (jr_generation r)
           (bytes + (jr_end r - jr_start r), min at (jr_written_at r)) epochs)"

definition journal_insert :: "jrecord \<Rightarrow> journal \<Rightarrow> journal" where
  "journal_insert r j =
     (let previous = hm_get (jn_latest j) (range_key r);
          kept = (case previous of None \<Rightarrow> jn_records j | Some p \<Rightarrow> bt_remove p (jn_records j));
          unindexed = (case previous of
                         None \<Rightarrow> jn_blocks j
                       | Some p \<Rightarrow> unindex_blocks p (record_blocks r) (jn_blocks j))
      in j\<lparr>jn_records := bt_insert (jr_sequence r) r kept,
           jn_blocks := index_blocks r (record_blocks r) unindexed,
           jn_latest := hm_insert (range_key r) (jr_sequence r) (jn_latest j),
           jn_epochs := epoch_add r (jn_epochs j),
           jn_dirty_bytes := jn_dirty_bytes j + (jr_end r - jr_start r),
           jn_dirty_since := Some (case jn_dirty_since j of
                                     None \<Rightarrow> jr_written_at r
                                   | Some at \<Rightarrow> min at (jr_written_at r))\<rparr>)"

subsection \<open>Overlapping records, newest first\<close>

text \<open>The iterator with the greatest next sequence; the last of equal ones, as \<open>max_by_key\<close>.\<close>

fun newest_index :: "nat \<Rightarrow> (nat \<times> int) option \<Rightarrow> jrecord list list \<Rightarrow> (nat \<times> int) option" where
  "newest_index i best [] = best"
| "newest_index i best (rs # rss) =
     newest_index (Suc i)
       (case rs of
          [] \<Rightarrow> best
        | r # _ \<Rightarrow>
            (case best of
               None \<Rightarrow> Some (i, jr_sequence r)
             | Some (_, seq) \<Rightarrow> if seq \<le> jr_sequence r then Some (i, jr_sequence r) else best))
       rss"

text \<open>The gaps left after a record covers its part of them, and whether it covered any.\<close>

fun cut_gaps :: "jrecord \<Rightarrow> (nat \<times> nat) list \<Rightarrow> bool \<times> (nat \<times> nat) list" where
  "cut_gaps r [] = (False, [])"
| "cut_gaps r ((from, to) # gaps) =
     (case cut_gaps r gaps of
        (needed, rest) \<Rightarrow>
          if to \<le> jr_start r \<or> jr_end r \<le> from then (needed, (from, to) # rest)
          else (True, (if from < jr_start r then [(from, jr_start r)] else [])
                      @ (if jr_end r < to then [(jr_end r, to)] else []) @ rest))"

lemma newest_index_bound:
  "newest_index i best rss = Some (k, seq) \<Longrightarrow> best = None \<or> fst (the best) < i \<Longrightarrow>
     k < i + length rss \<and> (best = Some (k, seq) \<or> (i \<le> k \<and> rss ! (k - i) \<noteq> []
       \<and> jr_sequence (hd (rss ! (k - i))) = seq))"
proof (induction i best rss rule: newest_index.induct)
  case (1 i best)
  then show ?case by auto
next
  case (2 i best rs rss)
  define best' where "best' = (case rs of [] \<Rightarrow> best
    | r # _ \<Rightarrow> (case best of None \<Rightarrow> Some (i, jr_sequence r)
        | Some (_, seq) \<Rightarrow> if seq \<le> jr_sequence r then Some (i, jr_sequence r) else best))"
  have run: "newest_index (Suc i) best' rss = Some (k, seq)"
    using "2.prems"(1) by (simp add: best'_def)
  have b: "best' = best \<or> (\<exists>r rs'. rs = r # rs' \<and> best' = Some (i, jr_sequence r))"
    by (auto simp: best'_def split: list.splits option.splits)
  then have "best' = None \<or> fst (the best') < Suc i"
    using "2.prems"(2) by auto
  with "2.IH" run have "k < Suc i + length rss \<and> (best' = Some (k, seq) \<or>
      (Suc i \<le> k \<and> rss ! (k - Suc i) \<noteq> [] \<and> jr_sequence (hd (rss ! (k - Suc i))) = seq))"
    by (simp add: best'_def)
  then show ?case
    using b by (auto simp: nth_Cons')
qed

function overlap_loop ::
  "int \<Rightarrow> nat \<Rightarrow> nat \<Rightarrow> jrecord list list \<Rightarrow> int option \<Rightarrow> (nat \<times> nat) list \<Rightarrow> jrecord list \<Rightarrow>
   jrecord list" where
  "overlap_loop generation start stop indexes previous missing records =
     (case newest_index 0 None indexes of
        None \<Rightarrow> records
      | Some (i, _) \<Rightarrow>
          let r = hd (indexes ! i); indexes' = indexes[i := tl (indexes ! i)]
          in if previous = Some (jr_sequence r)
             then overlap_loop generation start stop indexes' previous missing records
             else if generation < jr_generation r \<or> stop \<le> jr_start r \<or> jr_end r \<le> start
             then overlap_loop generation start stop indexes' (Some (jr_sequence r)) missing records
             else (case cut_gaps r missing of
                     (needed, missing') \<Rightarrow>
                       let records' = (if needed then records @ [r] else records)
                       in if missing' = [] then records'
                          else overlap_loop generation start stop indexes' (Some (jr_sequence r))
                                 missing' records'))"
  by pat_completeness auto

lemma sum_length_tl:
  "i < length rss \<Longrightarrow> rss ! i \<noteq> [] \<Longrightarrow>
     sum_list (map length (rss[i := tl (rss ! i)])) < sum_list (map length rss)"
proof (induction rss arbitrary: i)
  case (Cons rs rss)
  then show ?case by (cases i) (auto simp: neq_Nil_conv)
qed simp

termination overlap_loop
  by (relation "measure (\<lambda>(g, s, e, indexes, p, m, r). sum_list (map length indexes))")
    (auto dest!: newest_index_bound intro!: sum_length_tl)

declare overlap_loop.simps [simp del]

definition overlapping :: "int \<Rightarrow> nat \<Rightarrow> nat \<Rightarrow> journal \<Rightarrow> jrecord list" where
  "overlapping generation start stop j =
     (let indexes = map (\<lambda>ix. rev (map snd ix))
                      (List.map_filter (bt_get (jn_blocks j))
                        [start div BLOCK ..< div_ceil stop BLOCK])
      in overlap_loop generation start stop indexes None [(start, stop)] [])"

definition changed :: "int \<Rightarrow> journal \<Rightarrow> nat list" where
  "changed generation j =
     sorted_list_of_set (set (concat (map record_blocks
       (filter (\<lambda>r. jr_generation r \<le> generation) (map snd (jn_records j))))))"

section \<open>Metadata\<close>

record receipt =
  rc_generation :: int
  rc_backup_id :: string

record completion =
  cp_generation :: int
  cp_captured_at :: int

record database =
  db_manifest :: manifest
  db_generation :: int
  db_next_sequence :: int
  db_sealed :: "(int, manifest option) hash_map"
  db_published :: "receipt option"
  db_completed :: "completion option"
  db_legacy_through :: "int option"
  db_segments :: "(string \<times> int \<times> int) list"

text \<open>The directory of a disk: its files, its metadata and the rows of a legacy journal.\<close>

record store =
  so_files :: files
  so_db :: database
  so_legacy :: "legacy_row list"

section \<open>Appending\<close>

fun digits :: "nat \<Rightarrow> string" where
  "digits n = (if n < 10 then [char_of (48 + n)] else digits (n div 10) @ [char_of (48 + n mod 10)])"

declare digits.simps [simp del]

definition show_int :: "int \<Rightarrow> string" where
  "show_int n = (if n < 0 then CHR ''-'' # digits (nat (- n)) else digits (nat n))"

definition segment_name :: "int \<Rightarrow> int \<Rightarrow> string" where
  "segment_name generation first =
     ''payload-'' @ show_int generation @ ''-'' @ show_int first @ ''.segment''"

definition needs_rotation :: "nat \<Rightarrow> journal \<Rightarrow> bool" where
  "needs_rotation len j =
     (case jn_active j of
        None \<Rightarrow> True
      | Some i \<Rightarrow> SEGMENT_BYTES < sg_length (jn_segments j ! i) + JOURNAL_HEADER + len)"

definition rotate :: "journal \<Rightarrow> store \<Rightarrow> (io_error, journal \<times> store) result" where
  "rotate j st =
     (let name = segment_name (jn_generation j) (jn_next j)
      in if hm_contains (so_files st) name then Inl (Io_Other ''File exists'')
         else Inr (j\<lparr>jn_segments := jn_segments j @
                       [\<lparr>sg_name = name, sg_generation = jn_generation j, sg_length = 0\<rparr>],
                     jn_active := Some (length (jn_segments j))\<rparr>,
                   st\<lparr>so_files := hm_insert name [] (so_files st),
                      so_db := (so_db st)
                        \<lparr>db_next_sequence := jn_next j,
                         db_segments := db_segments (so_db st) @ [(name, jn_generation j, jn_next j)]\<rparr>\<rparr>))"

text \<open>
  One frame at the end of the active segment. \<open>torn\<close> is the number of bytes that reached the
  file when its write failed.
\<close>

definition append_frame ::
  "journal_hashes \<Rightarrow> int \<Rightarrow> nat option \<Rightarrow> nat \<Rightarrow> byte list \<Rightarrow> journal \<Rightarrow> store \<Rightarrow>
   (io_error, int) result \<times> journal \<times> store" where
  "append_frame h now torn offset data j st =
     (let i = the (jn_active j);
          segment = jn_segments j ! i;
          position = sg_length segment;
          header = frame_header h (jn_next j) (jn_generation j) offset data now;
          content = (case hm_get (so_files st) (sg_name segment) of None \<Rightarrow> [] | Some c \<Rightarrow> c)
      in case torn of
           Some n \<Rightarrow>
             (Inl (Io_Other ''write failed''), j\<lparr>jn_failed := True\<rparr>,
              st\<lparr>so_files := hm_insert (sg_name segment)
                   (write_all_at (take n (header @ data)) position content) (so_files st)\<rparr>)
         | None \<Rightarrow>
             let r = \<lparr>jr_sequence = jn_next j, jr_generation = jn_generation j, jr_start = offset,
                      jr_end = offset + length data, jr_written_at = now,
                      jr_location = Segment_At (sg_name segment) position header\<rparr>;
                 frame = JOURNAL_HEADER + length data;
                 j1 = j\<lparr>jn_segments := (jn_segments j)[i := segment\<lparr>sg_length := position + frame\<rparr>],
                        jn_pending := hm_insert (sg_name segment) (jn_next j) (jn_pending j),
                        jn_journal_bytes := jn_journal_bytes j + frame\<rparr>
             in (Inr (jn_next j), (journal_insert r j1)\<lparr>jn_next := jn_next j + 1\<rparr>,
                 st\<lparr>so_files := hm_insert (sg_name segment)
                      (write_all_at (header @ data) position content) (so_files st)\<rparr>))"

definition append ::
  "journal_hashes \<Rightarrow> int \<Rightarrow> nat option \<Rightarrow> nat \<Rightarrow> byte list \<Rightarrow> journal \<Rightarrow> store \<Rightarrow>
   (io_error, int) result \<times> journal \<times> store" where
  "append h now torn offset data j st =
     (if jn_failed j then (Inl journal_failed, j, st)
      else if checked_add_i64 (jn_next j) 1 = None
      then (Inl (Io_Other ''Journal sequence exhausted''), j, st)
      else if needs_rotation (length data) j
      then (case rotate j st of
              Inl e \<Rightarrow> (Inl e, j, st)
            | Inr (j', st') \<Rightarrow> append_frame h now torn offset data j' st')
      else append_frame h now torn offset data j st)"

section \<open>Group commit, sealing and retiring\<close>

record commit_batch =
  cb_through :: int
  cb_frames :: nat
  cb_files :: "string list"

definition check_health :: "journal \<Rightarrow> (io_error, unit) result" where
  "check_health j = (if jn_failed j then Inl journal_failed else Inr ())"

definition journal_commit_batch :: "int \<Rightarrow> journal \<Rightarrow> (io_error, commit_batch option) result" where
  "journal_commit_batch sequence j =
     (case check_health j of
        Inl e \<Rightarrow> Inl e
      | Inr _ \<Rightarrow>
          if sequence \<le> jn_durable_through j then Inr None
          else if jn_next j \<le> sequence \<or> jn_pending j = []
          then Inl (Io_Other ''Invalid journal commit sequence'')
          else Inr (Some \<lparr>cb_through = jn_next j - 1,
                          cb_frames = nat (jn_next j - 1 - jn_durable_through j),
                          cb_files = map fst (jn_pending j)\<rparr>))"

definition journal_committed :: "commit_batch \<Rightarrow> journal \<Rightarrow> (io_error, journal) result" where
  "journal_committed batch j =
     (case check_health j of
        Inl e \<Rightarrow> Inl e
      | Inr _ \<Rightarrow>
          Inr (j\<lparr>jn_durable_through := cb_through batch,
                 jn_pending := hm_retain (\<lambda>_ last. cb_through batch < last) (jn_pending j)\<rparr>))"

definition journal_sealed :: "int \<Rightarrow> journal \<Rightarrow> journal" where
  "journal_sealed generation j = j\<lparr>jn_active := None, jn_generation := generation\<rparr>"

definition journal_sync :: "journal \<Rightarrow> (io_error, unit) result" where
  "journal_sync j =
     (case check_health j of
        Inl e \<Rightarrow> Inl e
      | Inr _ \<Rightarrow>
          if jn_pending j \<noteq> [] then Inl (Io_Other ''Journal still has uncommitted writes'') else Inr ())"

definition journal_fail :: "journal \<Rightarrow> journal" where
  "journal_fail j = j\<lparr>jn_failed := True\<rparr>"

definition list_min :: "int list \<Rightarrow> int option" where
  "list_min xs = (case xs of [] \<Rightarrow> None | x # rest \<Rightarrow> Some (foldl min x rest))"

definition journal_retire :: "int \<Rightarrow> journal \<Rightarrow> string list \<times> journal" where
  "journal_retire generation j =
     (let records = bt_retain (\<lambda>_ r. generation < jr_generation r) (jn_records j);
          latest = hm_retain (\<lambda>(g, _, _) _. generation < g) (jn_latest j);
          epochs = bt_retain (\<lambda>g _. generation < g) (jn_epochs j);
          blocks = filter (\<lambda>(_, ix). ix \<noteq> [])
                     (map (\<lambda>(b, ix). (b, bt_retain (\<lambda>_ r. generation < jr_generation r) ix)) (jn_blocks j));
          kept = filter (\<lambda>s. generation < sg_generation s) (jn_segments j);
          gone = filter (\<lambda>s. \<not> generation < sg_generation s) (jn_segments j)
      in (map sg_name gone
            @ (if 0 \<le> jn_legacy_through j \<and> jn_legacy_through j \<le> generation
               then [''journal.sqlite'', ''journal.sqlite-wal'', ''journal.sqlite-shm''] else []),
          j\<lparr>jn_records := records, jn_blocks := blocks, jn_latest := latest, jn_epochs := epochs,
            jn_segments := kept, jn_active := None,
            jn_dirty_bytes := sum_list (map (\<lambda>(_, bytes, _). bytes) epochs),
            jn_dirty_since := list_min (map (\<lambda>(_, _, at). at) epochs),
            jn_journal_bytes := sum_list (map sg_length kept)\<rparr>))"

text \<open>
  Unlinking of retired files. The legacy database is replaced by a guard that old versions refuse.
\<close>

definition LEGACY_GUARD :: "byte list" where
  "LEGACY_GUARD = bytes_of (''CAIRN segmented journal v2; upgrade required'' @ [NL])"

fun reclaim :: "string list \<Rightarrow> files \<Rightarrow> files" where
  "reclaim [] files = files"
| "reclaim (name # names) files =
     reclaim names
       (if name = ''journal.sqlite'' then hm_insert name LEGACY_GUARD files else hm_remove name files)"

section \<open>Recovery\<close>

text \<open>
  The scan of one segment from \<open>position\<close>. \<open>tail\<close> says that it is the last segment of the open
  generation, whose end may be an interrupted append; \<open>previous\<close> is the last sequence seen.
  The result is the position after the last complete frame, with the journal and sequence then.
\<close>

definition frame_fields_ok :: "byte list \<Rightarrow> nat \<Rightarrow> nat \<Rightarrow> int \<Rightarrow> int \<Rightarrow> int \<Rightarrow> bool" where
  "frame_fields_ok header sz position generation first previous =
     (let sequence = integer header 8; start = integer header 24; count = integer header 32
      in \<not> (take 8 header \<noteq> MAGIC \<and> take 8 header \<noteq> LEGACY_MAGIC
         \<or> sequence < first \<or> sequence \<le> previous
         \<or> (position = 0 \<and> sequence \<noteq> first)
         \<or> (0 < position \<and> sequence \<noteq> previous + 1)
         \<or> integer header 16 \<noteq> generation
         \<or> start < 0 \<or> count \<le> 0 \<or> int MAX_IO < count
         \<or> sz < saturating_add64 (nat start) (nat count)
         \<or> integer header 40 < 0))"

function scan_segment ::
  "journal_hashes \<Rightarrow> files \<Rightarrow> legacy_row list \<Rightarrow> nat \<Rightarrow> string \<Rightarrow> int \<Rightarrow> int \<Rightarrow> bool \<Rightarrow> byte list \<Rightarrow> nat \<Rightarrow>
   int \<Rightarrow> journal \<Rightarrow> (io_error, nat \<times> int \<times> journal) result" where
  "scan_segment h files legacy sz name generation first tail content position previous j =
     (if position < length content
      then if length content - position < JOURNAL_HEADER
           then if \<not> tail then Inl (Io_Other ''Truncated sealed journal'') else Inr (position, previous, j)
           else
             let header = subrange position JOURNAL_HEADER content;
                 sequence = integer header 8;
                 start = nat (integer header 24);
                 count = nat (integer header 32)
             in if journal_digest h (take 48 header) [] \<noteq> subrange 48 32 header
                then Inl (Io_Other ''Invalid journal header checksum'')
                else if \<not> frame_fields_ok header sz position generation first previous
                then Inl (Io_Other ''Invalid journal frame'')
                else if length content - position - JOURNAL_HEADER < count
                then if \<not> tail then Inl (Io_Other ''Truncated sealed journal'')
                     else Inr (position, previous, j)
                else
                  let r = \<lparr>jr_sequence = sequence, jr_generation = generation, jr_start = start,
                           jr_end = start + count, jr_written_at = integer header 40,
                           jr_location = Segment_At name position header\<rparr>
                  in case record_read h files legacy sz r of
                       Inl e \<Rightarrow> Inl e
                     | Inr _ \<Rightarrow>
                         (case checked_add_i64 sequence 1 of
                            None \<Rightarrow> Inl (Io_Other ''Journal sequence exhausted'')
                          | Some after \<Rightarrow>
                              scan_segment h files legacy sz name generation first tail content
                                (position + JOURNAL_HEADER + count) sequence
                                ((journal_insert r j)\<lparr>jn_next := max (jn_next j) after\<rparr>))
      else Inr (position, previous, j))"
  by pat_completeness auto
termination
  by (relation "measure (\<lambda>(h, files, legacy, sz, name, generation, first, tail, content, position, _).
       length content - position)") (auto simp: JOURNAL_HEADER_def)

declare scan_segment.simps [simp del]

text \<open>
  All segments in the order of their first sequence. A torn tail is cut off its file, and the
  last segment of the open generation becomes the active one.
\<close>

fun scan_segments ::
  "journal_hashes \<Rightarrow> legacy_row list \<Rightarrow> nat \<Rightarrow> int \<Rightarrow> nat \<Rightarrow> (string \<times> int \<times> int) list \<Rightarrow> int \<Rightarrow>
   files \<Rightarrow> journal \<Rightarrow> (io_error, files \<times> journal) result" where
  "scan_segments h legacy sz cutoff i [] previous files j = Inr (files, j)"
| "scan_segments h legacy sz cutoff i ((name, generation, first) # rest) previous files j =
     (if generation \<le> cutoff \<or> jn_generation j < generation \<or> first < 1
         \<or> name \<noteq> segment_name generation first
      then Inl (Io_Other ''Invalid journal segment descriptor'')
      else
        (case hm_get files name of
           None \<Rightarrow> Inl (Io_Other ''No such file'')
         | Some content \<Rightarrow>
             let tail = (rest = [] \<and> generation = jn_generation j)
             in case scan_segment h files legacy sz name generation first tail content 0 previous j of
                  Inl e \<Rightarrow> Inl e
                | Inr (position, previous', j') \<Rightarrow>
                    scan_segments h legacy sz cutoff (Suc i) rest previous'
                      (hm_insert name (take position content) files)
                      (j'\<lparr>jn_segments := jn_segments j' @
                            [\<lparr>sg_name = name, sg_generation = generation, sg_length = position\<rparr>],
                          jn_active := (if tail then Some i else jn_active j'),
                          jn_journal_bytes := jn_journal_bytes j' + position\<rparr>)))"

definition empty_journal :: "int \<Rightarrow> int \<Rightarrow> int \<Rightarrow> journal" where
  "empty_journal generation next_sequence legacy_through =
     \<lparr>jn_records = [], jn_blocks = [], jn_latest = [], jn_epochs = [], jn_segments = [],
      jn_active = None, jn_generation = generation, jn_next = next_sequence, jn_failed = False,
      jn_durable_through = next_sequence - 1, jn_pending = [], jn_legacy_through = legacy_through,
      jn_dirty_bytes = 0, jn_dirty_since = None, jn_journal_bytes = 0\<rparr>"

fun load_legacy ::
  "journal_hashes \<Rightarrow> nat \<Rightarrow> int \<Rightarrow> legacy_row list \<Rightarrow> journal \<Rightarrow> (io_error, journal) result" where
  "load_legacy h sz next_sequence [] j = Inr j"
| "load_legacy h sz next_sequence (row # rows) j =
     (case legacy_record h sz row of
        Inl e \<Rightarrow> Inl e
      | Inr (start, bytes) \<Rightarrow>
          if next_sequence \<le> lr_seq row \<or> jn_generation j < lr_generation row
          then Inl (Io_Other ''Invalid legacy journal ordering'')
          else load_legacy h sz next_sequence rows
                 (journal_insert
                    \<lparr>jr_sequence = lr_seq row, jr_generation = lr_generation row, jr_start = start,
                     jr_end = start + length bytes, jr_written_at = lr_written_at row,
                     jr_location = Legacy_At (lr_checksum row)\<rparr> j))"

definition orphan :: "string list \<Rightarrow> string \<Rightarrow> bool" where
  "orphan needed name =
     (starts_with ''payload-'' name \<and> ends_with ''.segment'' name \<and> name \<notin> set needed)"

definition journal_open :: "journal_hashes \<Rightarrow> nat \<Rightarrow> store \<Rightarrow> (io_error, journal \<times> store) result" where
  "journal_open h sz st =
     (let db = so_db st;
          generation = db_generation db; next_sequence = db_next_sequence db;
          cutoff = (case db_published db of None \<Rightarrow> 0 | Some rc \<Rightarrow> rc_generation rc);
          legacy_through = (case db_legacy_through db of None \<Rightarrow> -1 | Some n \<Rightarrow> n);
          j0 = empty_journal generation next_sequence legacy_through
      in if generation < 1 \<or> next_sequence < 1 then Inl (Io_Other ''Invalid journal counters'')
         else if cutoff < 0 \<or> generation \<le> cutoff then Inl (Io_Other ''Invalid publication cutoff'')
         else
           case (if cutoff < legacy_through
                 then if \<not> hm_contains (so_files st) ''journal.sqlite''
                      then Inl (Io_Other ''Legacy journal is missing'')
                      else load_legacy h sz next_sequence
                             (sort_key lr_seq (filter (\<lambda>row. cutoff < lr_generation row) (so_legacy st))) j0
                 else Inr j0) of
             Inl e \<Rightarrow> Inl e
           | Inr j1 \<Rightarrow>
               let previous = foldl max 0 (map fst (jn_records j1))
               in case scan_segments h (so_legacy st) sz cutoff 0
                         (sort_key (\<lambda>(_, _, first). first) (db_segments db)) previous (so_files st) j1 of
                    Inl e \<Rightarrow> Inl e
                  | Inr (files, j2) \<Rightarrow>
                      let needed = map sg_name (jn_segments j2);
                          kept = hm_retain (\<lambda>name _. \<not> orphan needed name) files;
                          swept = (if legacy_through < 0 \<or> cutoff < legacy_through then kept
                                   else reclaim [''journal.sqlite'', ''journal.sqlite-wal'', ''journal.sqlite-shm''] kept)
                      in Inr (j2\<lparr>jn_durable_through := jn_next j2 - 1\<rparr>, st\<lparr>so_files := swept\<rparr>))"

end
