(* ===== verification/Journal_Index.thy ===== *)
theory Journal_Index
  imports Journal
begin

text \<open>
  Proofs about the journal's index. It is related to the log of all records ever inserted: the
  compaction of exact overwrites within a generation, the index per block and the merge that
  stops as soon as the request is covered all leave the newest record for every byte in place.
\<close>

section \<open>The newest record of a byte\<close>

definition covers :: "jrecord \<Rightarrow> nat \<Rightarrow> bool" where
  "covers r p = (jr_start r \<le> p \<and> p < jr_end r)"

definition visible :: "int \<Rightarrow> nat \<Rightarrow> jrecord \<Rightarrow> bool" where
  "visible g p r = (jr_generation r \<le> g \<and> covers r p)"

definition newest :: "int \<Rightarrow> nat \<Rightarrow> jrecord list \<Rightarrow> jrecord option" where
  "newest g p log = find (visible g p) (rev log)"

abbreviation ascending :: "jrecord list \<Rightarrow> bool" where
  "ascending \<equiv> sorted_wrt (\<lambda>a b. jr_sequence a < jr_sequence b)"

abbreviation descending :: "jrecord list \<Rightarrow> bool" where
  "descending \<equiv> sorted_wrt (\<lambda>a b. jr_sequence b < jr_sequence a)"

lemma covers_block:
  "covers r p \<Longrightarrow> p div BLOCK \<in> set (record_blocks r)"
  by (auto simp: covers_def record_blocks_def less_div_ceil_iff div_le_mono
      intro: le_less_trans [OF div_times_less_eq_dividend])

section \<open>The index\<close>

definition index_ok :: "journal \<Rightarrow> jrecord list \<Rightarrow> bool" where
  "index_ok j log =
     (ascending log
      \<and> (\<forall>r \<in> set log. jr_start r < jr_end r)
      \<and> bt_ok (jn_records j)
      \<and> (\<forall>s r. bt_get (jn_records j) s = Some r \<longrightarrow> jr_sequence r = s \<and> r \<in> set log)
      \<and> (\<forall>r \<in> set log. \<exists>r'. bt_get (jn_records j) (jr_sequence r') = Some r'
            \<and> range_key r' = range_key r \<and> jr_sequence r \<le> jr_sequence r')
      \<and> hm_ok (jn_latest j)
      \<and> (\<forall>k q. hm_get (jn_latest j) k = Some q \<longleftrightarrow>
            (\<exists>r. bt_get (jn_records j) q = Some r \<and> range_key r = k))
      \<and> bt_ok (jn_blocks j)
      \<and> (\<forall>b ix. bt_get (jn_blocks j) b = Some ix \<longrightarrow> bt_ok ix)
      \<and> (\<forall>b s r. bt_get (block_index (jn_blocks j) b) s = Some r \<longleftrightarrow>
            bt_get (jn_records j) s = Some r \<and> b \<in> set (record_blocks r)))"

definition blocks_ok :: "(nat, index) btree_map \<Rightarrow> bool" where
  "blocks_ok blocks = (bt_ok blocks \<and> (\<forall>b ix. bt_get blocks b = Some ix \<longrightarrow> bt_ok ix))"

lemma block_index_ok: "blocks_ok blocks \<Longrightarrow> bt_ok (block_index blocks b)"
  by (auto simp: blocks_ok_def block_index_def split: option.split)

lemma unindex_blocks_spec:
  assumes "blocks_ok blocks"
  shows "blocks_ok (unindex_blocks p bs blocks)
    \<and> bt_get (block_index (unindex_blocks p bs blocks) b) s =
        (if b \<in> set bs \<and> s = p then None else bt_get (block_index blocks b) s)"
  using assms
proof (induction bs arbitrary: blocks)
  case (Cons c bs)
  define blocks' where "blocks' = (case bt_get blocks c of None \<Rightarrow> blocks
    | Some ix \<Rightarrow> bt_insert c (bt_remove p ix) blocks)"
  have ok: "blocks_ok blocks'"
    using Cons.prems
    by (auto simp: blocks'_def blocks_ok_def bt.get_ins bt.invar_ins bt.invar_del split: option.split if_splits)
  have "bt_get (block_index blocks' b) s =
      (if b = c \<and> s = p then None else bt_get (block_index blocks b) s)"
    using Cons.prems
    by (auto simp: blocks'_def block_index_def blocks_ok_def bt.get_ins bt_get_remove bt_get_def [of "[]"]
        split: option.split)
  moreover have "unindex_blocks p (c # bs) blocks = unindex_blocks p bs blocks'"
    by (simp add: blocks'_def)
  ultimately show ?case
    using Cons.IH [OF ok] by auto
qed simp

lemma index_blocks_spec:
  assumes "blocks_ok blocks"
  shows "blocks_ok (index_blocks r bs blocks)
    \<and> bt_get (block_index (index_blocks r bs blocks) b) s =
        (if b \<in> set bs \<and> s = jr_sequence r then Some r else bt_get (block_index blocks b) s)"
  using assms
proof (induction bs arbitrary: blocks)
  case (Cons c bs)
  define blocks' where
    "blocks' = bt_insert c (bt_insert (jr_sequence r) r (block_index blocks c)) blocks"
  have ok: "blocks_ok blocks'"
    using Cons.prems block_index_ok [OF Cons.prems, of c]
    by (auto simp: blocks'_def blocks_ok_def bt.get_ins bt.invar_ins split: if_splits)
  have "bt_get (block_index blocks' b) s =
      (if b = c \<and> s = jr_sequence r then Some r else bt_get (block_index blocks b) s)"
    using Cons.prems block_index_ok [OF Cons.prems, of c]
    by (auto simp: blocks'_def blocks_ok_def bt.get_ins block_index_def [of "bt_insert c _ _"]
        split: if_splits) (simp_all add: block_index_def)
  moreover have "index_blocks r (c # bs) blocks = index_blocks r bs blocks'"
    by (simp add: blocks'_def)
  ultimately show ?case
    using Cons.IH [OF ok] by auto
qed simp

lemma index_okD:
  assumes "index_ok j log"
  shows "blocks_ok (jn_blocks j)"
    and "hm_get (jn_latest j) k = Some q \<Longrightarrow> \<exists>r. bt_get (jn_records j) q = Some r \<and> range_key r = k"
    and "bt_get (jn_records j) q = Some r \<Longrightarrow> hm_get (jn_latest j) (range_key r) = Some q"
    and "bt_get (jn_records j) q = Some r \<Longrightarrow> jr_sequence r = q \<and> r \<in> set log"
    and "bt_get (block_index (jn_blocks j) b) s = Some r \<longleftrightarrow>
      bt_get (jn_records j) s = Some r \<and> b \<in> set (record_blocks r)"
    and "bt_ok (jn_records j)" and "hm_ok (jn_latest j)" and "ascending log"
  using assms unfolding index_ok_def blocks_ok_def by blast+

lemma record_blocks_key: "range_key r = range_key r' \<Longrightarrow> record_blocks r = record_blocks r'"
  by (simp add: range_key_def record_blocks_def)

lemma journal_insert_records:
  assumes ok: "index_ok j log" and new: "\<forall>x \<in> set log. jr_sequence x < jr_sequence r"
  shows "bt_ok (jn_records (journal_insert r j))"
    and "bt_get (jn_records (journal_insert r j)) s =
      (if s = jr_sequence r then Some r
       else if hm_get (jn_latest j) (range_key r) = Some s then None
       else bt_get (jn_records j) s)"
  using index_okD(6) [OF ok]
  by (auto simp: journal_insert_def Let_def bt.invar_ins bt.invar_del bt.get_ins bt.get_del
      split: option.split)

lemma journal_insert_latest:
  assumes "index_ok j log"
  shows "hm_ok (jn_latest (journal_insert r j))"
    and "hm_get (jn_latest (journal_insert r j)) k =
      (if k = range_key r then Some (jr_sequence r) else hm_get (jn_latest j) k)"
  using index_okD(7) [OF assms]
  by (simp_all add: journal_insert_def Let_def hm.invar_ins hm.get_ins)

lemma journal_insert_blocks:
  assumes "index_ok j log"
  shows "blocks_ok (jn_blocks (journal_insert r j))"
    and "bt_get (block_index (jn_blocks (journal_insert r j)) b) s =
      (if b \<in> set (record_blocks r) \<and> s = jr_sequence r then Some r
       else if b \<in> set (record_blocks r) \<and> hm_get (jn_latest j) (range_key r) = Some s then None
       else bt_get (block_index (jn_blocks j) b) s)"
proof -
  define blocks where "blocks = (case hm_get (jn_latest j) (range_key r) of None \<Rightarrow> jn_blocks j
    | Some p \<Rightarrow> unindex_blocks p (record_blocks r) (jn_blocks j))"
  have ok: "blocks_ok blocks"
    and get: "bt_get (block_index blocks b) s =
      (if b \<in> set (record_blocks r) \<and> hm_get (jn_latest j) (range_key r) = Some s then None
       else bt_get (block_index (jn_blocks j) b) s)" for b s
    using unindex_blocks_spec [OF index_okD(1) [OF assms]] index_okD(1) [OF assms]
    by (auto simp: blocks_def split: option.split)
  have "jn_blocks (journal_insert r j) = index_blocks r (record_blocks r) blocks"
    by (simp add: journal_insert_def Let_def blocks_def)
  then show "blocks_ok (jn_blocks (journal_insert r j))"
    and "bt_get (block_index (jn_blocks (journal_insert r j)) b) s =
      (if b \<in> set (record_blocks r) \<and> s = jr_sequence r then Some r
       else if b \<in> set (record_blocks r) \<and> hm_get (jn_latest j) (range_key r) = Some s then None
       else bt_get (block_index (jn_blocks j) b) s)"
    using index_blocks_spec [OF ok] get by simp_all
qed

lemma sequence_unused:
  assumes "index_ok j log" "\<forall>x \<in> set log. jr_sequence x < jr_sequence r"
  shows "bt_get (jn_records j) (jr_sequence r) = None"
proof (cases "bt_get (jn_records j) (jr_sequence r)")
  case (Some x)
  then show ?thesis using index_okD(4) [OF assms(1) Some] assms(2) by fastforce
qed simp

lemma latest_iff:
  assumes ok: "index_ok j log"
  shows "hm_get (jn_latest j) k = Some q \<longleftrightarrow> (\<exists>r. bt_get (jn_records j) q = Some r \<and> range_key r = k)"
  using index_okD(2,3) [OF ok] by blast

lemma journal_insert_ok:
  assumes ok: "index_ok j log" and new: "\<forall>x \<in> set log. jr_sequence x < jr_sequence r"
    and ne: "jr_start r < jr_end r"
  shows "index_ok (journal_insert r j) (log @ [r])"
proof -
  let ?j = "journal_insert r j"
  note recs = journal_insert_records [OF ok new] and lat = journal_insert_latest [OF ok, of r]
    and blk = journal_insert_blocks [OF ok, of r] and unused = sequence_unused [OF ok new]
  have seq: "jr_sequence x = s \<and> x \<in> set (log @ [r])" if "bt_get (jn_records ?j) s = Some x" for s x
    using that index_okD(4) [OF ok] by (auto simp: recs split: if_splits)
  have cover: "\<exists>r'. bt_get (jn_records ?j) (jr_sequence r') = Some r'
      \<and> range_key r' = range_key x \<and> jr_sequence x \<le> jr_sequence r'" if x: "x \<in> set (log @ [r])" for x
  proof (cases "range_key x = range_key r")
    case True
    then show ?thesis
      using x new recs(2) [of "jr_sequence r"] by (intro exI [of _ r]) fastforce
  next
    case False
    then have "x \<in> set log" using x by auto
    then obtain r' where r': "bt_get (jn_records j) (jr_sequence r') = Some r'"
      "range_key r' = range_key x" "jr_sequence x \<le> jr_sequence r'"
      using ok unfolding index_ok_def by blast
    have "hm_get (jn_latest j) (range_key r) \<noteq> Some (jr_sequence r')"
      using latest_iff [OF ok] r' False by auto
    then show ?thesis using r' unused by (intro exI [of _ r']) (auto simp: recs)
  qed
  have latest: "hm_get (jn_latest ?j) k = Some q \<longleftrightarrow>
      (\<exists>x. bt_get (jn_records ?j) q = Some x \<and> range_key x = k)" for k q
  proof (cases "q = jr_sequence r")
    case True
    then show ?thesis
      using unused latest_iff [OF ok, of k q] by (simp add: recs(2) lat(2))
  next
    case False
    then show ?thesis
      using latest_iff [OF ok, of k q] latest_iff [OF ok, of "range_key r" q]
      unfolding recs(2) lat(2) by (metis option.distinct(1) option.inject)
  qed
  have blocks: "bt_get (block_index (jn_blocks ?j) b) s = Some x \<longleftrightarrow>
      bt_get (jn_records ?j) s = Some x \<and> b \<in> set (record_blocks x)" for b s x
  proof (cases "s = jr_sequence r")
    case True
    then show ?thesis
      using unused index_okD(5) [OF ok, of b s x] by (auto simp: recs(2) blk(2))
  next
    case False
    show ?thesis
    proof (cases "hm_get (jn_latest j) (range_key r) = Some s")
      case True
      then obtain y where "bt_get (jn_records j) s = Some y" "range_key y = range_key r"
        using latest_iff [OF ok, of "range_key r" s] by blast
      then show ?thesis
        using False True index_okD(5) [OF ok, of b s x] record_blocks_key [of y r]
        by (simp add: recs(2) blk(2)) auto
    qed (use False index_okD(5) [OF ok, of b s x] in \<open>simp add: recs(2) blk(2)\<close>)
  qed
  show ?thesis
    unfolding index_ok_def
  proof (intro conjI allI)
    show "ascending (log @ [r])"
      using index_okD(8) [OF ok] new by (simp add: sorted_wrt_append)
    show "\<forall>x \<in> set (log @ [r]). jr_start x < jr_end x"
      using ok ne by (simp add: index_ok_def)
  qed (use recs(1) seq cover lat(1) latest blk(1) blocks in \<open>auto simp: blocks_ok_def\<close>)
qed

section \<open>The merge of block indexes\<close>

lemma newest_index_None:
  "newest_index i best rss = None \<Longrightarrow> best = None \<and> (\<forall>rs \<in> set rss. rs = [])"
proof (induction i best rss rule: newest_index.induct)
  case (2 i best rs rss)
  then show ?case
    by (cases rs) (auto split: option.splits if_splits)
qed simp

lemma newest_index_max:
  "newest_index i best rss = Some (k, q) \<Longrightarrow>
     (\<forall>k' q'. best = Some (k', q') \<longrightarrow> q' \<le> q) \<and> (\<forall>rs \<in> set rss. rs \<noteq> [] \<longrightarrow> jr_sequence (hd rs) \<le> q)"
proof (induction i best rss rule: newest_index.induct)
  case (2 i best rs rss)
  then show ?case
    by (cases rs; cases best) (fastforce split: if_splits)+
qed simp

definition pool :: "jrecord list list \<Rightarrow> jrecord set" where
  "pool indexes = \<Union> (set ` set indexes)"

lemma newest_index_Some:
  assumes run: "newest_index 0 None indexes = Some (i, q)"
    and desc: "\<forall>rs \<in> set indexes. descending rs"
  defines "r \<equiv> hd (indexes ! i)" and "indexes' \<equiv> indexes[i := tl (indexes ! i)]"
  shows "i < length indexes" and "indexes ! i \<noteq> []" and "r \<in> pool indexes"
    and "\<forall>x \<in> pool indexes. jr_sequence x \<le> jr_sequence r"
    and "pool indexes = insert r (pool indexes')"
    and "\<forall>rs \<in> set indexes'. descending rs"
proof -
  note bound = newest_index_bound [OF run]
  show i: "i < length indexes" and ne: "indexes ! i \<noteq> []" using bound by auto
  have q: "jr_sequence r = q" using bound by (auto simp: r_def)
  have head: "indexes ! i = r # tl (indexes ! i)" using ne by (simp add: r_def)
  have mem: "indexes ! i \<in> set indexes" using i by simp
  show "r \<in> pool indexes" using head mem unfolding pool_def by (metis UN_I list.set_intros(1))
  show "\<forall>x \<in> pool indexes. jr_sequence x \<le> jr_sequence r"
  proof
    fix x assume "x \<in> pool indexes"
    then obtain rs where rs: "rs \<in> set indexes" "x \<in> set rs" by (auto simp: pool_def)
    then obtain y ys where "rs = y # ys" by (metis neq_Nil_conv list.set(1) empty_iff)
    moreover have "jr_sequence y \<le> q"
      using newest_index_max [OF run] rs(1) calculation by fastforce
    ultimately show "jr_sequence x \<le> jr_sequence r"
      using desc rs q by fastforce
  qed
  show "pool indexes = insert r (pool indexes')"
  proof -
    have "set indexes = insert (indexes ! i) (set (take i indexes) \<union> set (drop (Suc i) indexes))"
      using i by (subst id_take_nth_drop [OF i]) auto
    moreover have "set indexes' = insert (tl (indexes ! i)) (set (take i indexes) \<union> set (drop (Suc i) indexes))"
      using i by (simp add: indexes'_def upd_conv_take_nth_drop)
    moreover have "set (indexes ! i) = insert r (set (tl (indexes ! i)))"
      using ne unfolding r_def by (cases "indexes ! i") auto
    ultimately show ?thesis by (simp add: pool_def)
  qed
  show "\<forall>rs \<in> set indexes'. descending rs"
  proof
    fix rs assume "rs \<in> set indexes'"
    then have "rs \<in> set indexes \<or> rs = tl (indexes ! i)"
      unfolding indexes'_def using set_update_subset_insert by fastforce
    moreover have "descending (tl (indexes ! i))"
      using desc mem head by (metis sorted_wrt.simps(2))
    ultimately show "descending rs" using desc by blast
  qed
qed

definition in_gaps :: "nat \<Rightarrow> (nat \<times> nat) list \<Rightarrow> bool" where
  "in_gaps p gaps = (\<exists>(from, to) \<in> set gaps. from \<le> p \<and> p < to)"

lemma in_gaps_Cons: "in_gaps p ((a, b) # gaps) \<longleftrightarrow> (a \<le> p \<and> p < b) \<or> in_gaps p gaps"
  by (auto simp: in_gaps_def)

lemma in_gaps_append: "in_gaps p (xs @ ys) \<longleftrightarrow> in_gaps p xs \<or> in_gaps p ys"
  by (auto simp: in_gaps_def)

lemma in_gaps_Nil [simp]: "\<not> in_gaps p []"
  by (simp add: in_gaps_def)

lemma cut_gaps_spec:
  assumes "cut_gaps r gaps = (needed, gaps')" "jr_start r < jr_end r"
  shows "in_gaps p gaps' \<longleftrightarrow> in_gaps p gaps \<and> \<not> covers r p"
    and "in_gaps p gaps \<Longrightarrow> covers r p \<Longrightarrow> needed"
  using assms(1)
proof (induction r gaps arbitrary: needed gaps' rule: cut_gaps.induct)
  case (2 r a b gaps)
  obtain n rest where cut: "cut_gaps r gaps = (n, rest)" by force
  { case 1
    then show ?case
      using "2.IH"(1) [OF cut] assms(2) cut
      by (auto simp: in_gaps_Cons in_gaps_append covers_def split: if_splits)
  next
    case 2
    then show ?case
      using "2.IH"(2) [OF _ _ cut] cut
      by (auto simp: in_gaps_Cons covers_def split: if_splits)
  }
qed simp_all

text \<open>
  What a merge with the remaining indexes and gaps adds to the result: visible records, newest
  first, none with the sequence just seen, and for every byte of a gap the newest visible one.
\<close>

definition merges :: "int \<Rightarrow> jrecord set \<Rightarrow> int option \<Rightarrow> (nat \<times> nat) list \<Rightarrow> jrecord list \<Rightarrow> bool" where
  "merges g rest previous missing added =
     (descending added
      \<and> (\<forall>a \<in> set added. a \<in> rest \<and> jr_generation a \<le> g \<and> previous \<noteq> Some (jr_sequence a))
      \<and> (\<forall>p r. in_gaps p missing \<and> r \<in> rest \<and> visible g p r
            \<and> (\<forall>x \<in> rest. visible g p x \<longrightarrow> jr_sequence x \<le> jr_sequence r) \<longrightarrow> r \<in> set added))"

lemma mergesD:
  assumes "merges g rest previous missing added"
  shows "descending added"
    and "a \<in> set added \<Longrightarrow> a \<in> rest \<and> jr_generation a \<le> g \<and> previous \<noteq> Some (jr_sequence a)"
    and "in_gaps p missing \<Longrightarrow> r \<in> rest \<Longrightarrow> visible g p r \<Longrightarrow>
      (\<And>x. x \<in> rest \<Longrightarrow> visible g p x \<Longrightarrow> jr_sequence x \<le> jr_sequence r) \<Longrightarrow> r \<in> set added"
  using assms unfolding merges_def by blast+

lemma mergesI:
  assumes "descending added"
    and "\<And>a. a \<in> set added \<Longrightarrow> a \<in> rest \<and> jr_generation a \<le> g \<and> previous \<noteq> Some (jr_sequence a)"
    and "\<And>p r. in_gaps p missing \<Longrightarrow> r \<in> rest \<Longrightarrow> visible g p r \<Longrightarrow>
      \<forall>x \<in> rest. visible g p x \<longrightarrow> jr_sequence x \<le> jr_sequence r \<Longrightarrow> r \<in> set added"
  shows "merges g rest previous missing added"
  using assms unfolding merges_def by blast

lemma merges_skip:
  assumes m: "merges g rest (Some (jr_sequence r)) missing added"
    and top: "\<forall>x \<in> insert r rest. jr_sequence x \<le> jr_sequence r"
    and hidden: "\<And>p. in_gaps p missing \<Longrightarrow> \<not> visible g p r"
    and prev: "\<forall>q. previous = Some q \<longrightarrow> (\<forall>x \<in> insert r rest. jr_sequence x \<le> q)"
  shows "merges g (insert r rest) previous missing added"
proof (rule mergesI)
  show "descending added" by (rule mergesD(1) [OF m])
  show "a \<in> insert r rest \<and> jr_generation a \<le> g \<and> previous \<noteq> Some (jr_sequence a)"
    if "a \<in> set added" for a
  proof -
    have a: "a \<in> rest" "jr_generation a \<le> g" "jr_sequence a \<noteq> jr_sequence r"
      using mergesD(2) [OF m that] by auto
    have "jr_sequence a \<le> jr_sequence r" using top a(1) by blast
    moreover have "previous = Some (jr_sequence a) \<longrightarrow> jr_sequence r \<le> jr_sequence a"
      using prev by blast
    ultimately show ?thesis using a by auto
  qed
  show "x \<in> set added"
    if x: "in_gaps p missing" "x \<in> insert r rest" "visible g p x"
      "\<forall>y \<in> insert r rest. visible g p y \<longrightarrow> jr_sequence y \<le> jr_sequence x" for p x
    using mergesD(3) [OF m x(1), of x] hidden [OF x(1)] x(2-4) by blast
qed

lemma merges_take:
  assumes m: "merges g rest (Some (jr_sequence r)) missing' added"
    and top: "\<forall>x \<in> insert r rest. jr_sequence x \<le> jr_sequence r"
    and uniq: "\<forall>x \<in> rest. jr_sequence x = jr_sequence r \<longrightarrow> x = r"
    and gen: "jr_generation r \<le> g" and ne: "jr_start r < jr_end r"
    and cut: "cut_gaps r missing = (needed, missing')"
    and prev: "previous \<noteq> Some (jr_sequence r)"
      "\<forall>q. previous = Some q \<longrightarrow> (\<forall>x \<in> insert r rest. jr_sequence x \<le> q)"
  shows "merges g (insert r rest) previous missing ((if needed then [r] else []) @ added)"
proof (rule mergesI)
  have less: "jr_sequence a < jr_sequence r" if "a \<in> set added" for a
  proof -
    have "a \<in> rest" "jr_sequence a \<noteq> jr_sequence r" using mergesD(2) [OF m that] by auto
    moreover from this top have "jr_sequence a \<le> jr_sequence r" by blast
    ultimately show ?thesis by simp
  qed
  show "descending ((if needed then [r] else []) @ added)"
    using mergesD(1) [OF m] less by simp
  show "a \<in> insert r rest \<and> jr_generation a \<le> g \<and> previous \<noteq> Some (jr_sequence a)"
    if "a \<in> set ((if needed then [r] else []) @ added)" for a
  proof (cases "a = r")
    case True
    then show ?thesis using gen prev(1) by simp
  next
    case False
    then have "a \<in> set added" using that by (simp split: if_splits)
    moreover from less [OF this] have "previous \<noteq> Some (jr_sequence a)"
      using prev(2) by fastforce
    ultimately show ?thesis using mergesD(2) [OF m] by simp
  qed
  show "x \<in> set ((if needed then [r] else []) @ added)"
    if x: "in_gaps p missing" "x \<in> insert r rest" "visible g p x"
      "\<forall>y \<in> insert r rest. visible g p y \<longrightarrow> jr_sequence y \<le> jr_sequence x" for p x
  proof (cases "covers r p")
    case True
    then have "jr_sequence r \<le> jr_sequence x" using x(4) gen by (simp add: visible_def)
    moreover have "jr_sequence x \<le> jr_sequence r" using top x(2) by blast
    ultimately have "x = r" using x(2) uniq by force
    then show ?thesis using cut_gaps_spec(2) [OF cut ne x(1) True] by simp
  next
    case False
    then have "x \<in> rest" "in_gaps p missing'"
      using x cut_gaps_spec(1) [OF cut ne] by (auto simp: visible_def)
    then show ?thesis using mergesD(3) [OF m, of p x] x by simp
  qed
qed

lemma merges_done: "merges g rest previous [] []"
  by (simp add: merges_def)

lemma overlap_loop_merges:
  assumes "\<forall>rs \<in> set indexes. descending rs"
    and "\<forall>x \<in> pool indexes. \<forall>y \<in> pool indexes. jr_sequence x = jr_sequence y \<longrightarrow> x = y"
    and "\<forall>x \<in> pool indexes. jr_start x < jr_end x"
    and "\<forall>q. previous = Some q \<longrightarrow> (\<forall>x \<in> pool indexes. jr_sequence x \<le> q)"
    and "\<forall>x \<in> pool indexes. previous = Some (jr_sequence x) \<longrightarrow>
      (\<forall>p. in_gaps p missing \<longrightarrow> \<not> visible g p x)"
    and "\<forall>p. in_gaps p missing \<longrightarrow> start \<le> p \<and> p < stop"
  shows "\<exists>added. overlap_loop g start stop indexes previous missing records = records @ added
    \<and> merges g (pool indexes) previous missing added"
  using assms
proof (induction g start stop indexes previous missing records rule: overlap_loop.induct)
  case (1 g start stop indexes previous missing records)
  show ?case
  proof (cases "newest_index 0 None indexes")
    case None
    then have "pool indexes = {}"
      using newest_index_None [OF None] by (auto simp: pool_def)
    then show ?thesis
      using None by (simp add: overlap_loop.simps merges_def)
  next
    case (Some iq)
    obtain i q where iq: "iq = (i, q)" by force
    define r where "r = hd (indexes ! i)"
    define indexes' where "indexes' = indexes[i := tl (indexes ! i)]"
    note pick = newest_index_Some [OF Some [unfolded iq] "1.prems"(1), folded r_def indexes'_def]
    have pool: "pool indexes = insert r (pool indexes')" by (rule pick(5))
    have rest: "\<forall>rs \<in> set indexes'. descending rs" by (rule pick(6))
    have uniq: "\<forall>x \<in> pool indexes'. \<forall>y \<in> pool indexes'. jr_sequence x = jr_sequence y \<longrightarrow> x = y"
      "\<forall>x \<in> pool indexes'. jr_start x < jr_end x"
      using "1.prems"(2,3) pool by auto
    have below: "\<forall>q. Some (jr_sequence r) = Some q \<longrightarrow> (\<forall>x \<in> pool indexes'. jr_sequence x \<le> q)"
      using pick(4) pool by auto
    have same: "x = r" if "x \<in> pool indexes'" "jr_sequence x = jr_sequence r" for x
      using "1.prems"(2) pool that by auto
    have top: "\<forall>x \<in> insert r (pool indexes'). jr_sequence x \<le> jr_sequence r"
      using pick(4) pool by auto
    have prev: "\<forall>q. previous = Some q \<longrightarrow> (\<forall>x \<in> insert r (pool indexes'). jr_sequence x \<le> q)"
      using "1.prems"(4) pool by auto
    note step = overlap_loop.simps [of g start stop indexes previous missing records]
    consider (dup) "previous = Some (jr_sequence r)"
      | (hidden) "previous \<noteq> Some (jr_sequence r)"
          "g < jr_generation r \<or> stop \<le> jr_start r \<or> jr_end r \<le> start"
      | (seen) "previous \<noteq> Some (jr_sequence r)"
          "\<not> (g < jr_generation r \<or> stop \<le> jr_start r \<or> jr_end r \<le> start)" by blast
    then show ?thesis
    proof cases
      case dup
      have hid: "\<forall>x \<in> pool indexes'. previous = Some (jr_sequence x) \<longrightarrow>
          (\<forall>p. in_gaps p missing \<longrightarrow> \<not> visible g p x)"
        using "1.prems"(5) pool by auto
      from "1.IH"(1) [OF Some iq [symmetric] r_def indexes'_def dup rest uniq _ hid "1.prems"(6)] dup below
      obtain added where "overlap_loop g start stop indexes' previous missing records = records @ added"
        "merges g (pool indexes') (Some (jr_sequence r)) missing added" by auto
      moreover have "merges g (insert r (pool indexes')) previous missing added"
        using "1.prems"(5) pick(3) dup by (intro merges_skip [OF calculation(2) top _ prev]) auto
      moreover have "overlap_loop g start stop indexes previous missing records
          = overlap_loop g start stop indexes' previous missing records"
        using dup Some iq by (subst step) (simp add: r_def [symmetric] indexes'_def [symmetric])
      ultimately show ?thesis using pool by auto
    next
      case hidden
      have hide: "\<not> visible g p r" if "in_gaps p missing" for p
        using hidden(2) "1.prems"(6) that by (auto simp: visible_def covers_def)
      then have hid: "\<forall>x \<in> pool indexes'. Some (jr_sequence r) = Some (jr_sequence x) \<longrightarrow>
          (\<forall>p. in_gaps p missing \<longrightarrow> \<not> visible g p x)"
        using same by auto
      from "1.IH"(2) [OF Some iq [symmetric] r_def indexes'_def hidden rest uniq below hid "1.prems"(6)]
      obtain added where
        "overlap_loop g start stop indexes' (Some (jr_sequence r)) missing records = records @ added"
        "merges g (pool indexes') (Some (jr_sequence r)) missing added" by auto
      moreover have "merges g (insert r (pool indexes')) previous missing added"
        using hide by (intro merges_skip [OF calculation(2) top _ prev]) auto
      ultimately show ?thesis
        using hidden Some iq by (simp add: step pool r_def [symmetric] indexes'_def [symmetric])
    next
      case seen
      obtain needed missing' where cut: "cut_gaps r missing = (needed, missing')" by force
      have ne: "jr_start r < jr_end r" using "1.prems"(3) pick(3) by blast
      have gen: "jr_generation r \<le> g" using seen(2) by simp
      have gone: "in_gaps p missing' \<longleftrightarrow> in_gaps p missing \<and> \<not> covers r p" for p
        by (rule cut_gaps_spec(1) [OF cut ne])
      let ?records = "if needed then records @ [r] else records"
      have "\<exists>added. (if missing' = [] then ?records
          else overlap_loop g start stop indexes' (Some (jr_sequence r)) missing' ?records)
            = ?records @ added
          \<and> merges g (pool indexes') (Some (jr_sequence r)) missing' added"
      proof (cases "missing' = []")
        case True
        then show ?thesis using merges_done by auto
      next
        case False
        have hid: "\<forall>x \<in> pool indexes'. Some (jr_sequence r) = Some (jr_sequence x) \<longrightarrow>
            (\<forall>p. in_gaps p missing' \<longrightarrow> \<not> visible g p x)"
          using same gone by (auto simp: visible_def)
        have inside: "\<forall>p. in_gaps p missing' \<longrightarrow> start \<le> p \<and> p < stop"
          using "1.prems"(6) gone by auto
        from "1.IH"(3) [OF Some iq [symmetric] r_def indexes'_def seen cut [symmetric] refl False
            rest uniq below hid inside] False
        show ?thesis by simp
      qed
      then obtain added where run: "(if missing' = [] then ?records
          else overlap_loop g start stop indexes' (Some (jr_sequence r)) missing' ?records)
            = ?records @ added"
        and m: "merges g (pool indexes') (Some (jr_sequence r)) missing' added" by blast
      have "merges g (insert r (pool indexes')) previous missing ((if needed then [r] else []) @ added)"
        using same by (intro merges_take [OF m top _ gen ne cut seen(1) prev]) auto
      moreover have "overlap_loop g start stop indexes previous missing records
          = records @ (if needed then [r] else []) @ added"
        using seen Some iq cut run
        by (simp add: step r_def [symmetric] indexes'_def [symmetric] Let_def split: if_splits)
      ultimately show ?thesis using pool by auto
    qed
  qed
qed

section \<open>The records that answer a read\<close>

lemma find_rev_Some:
  assumes "ascending log" "r \<in> set log" "P r" "\<forall>x \<in> set log. P x \<longrightarrow> jr_sequence x \<le> jr_sequence r"
  shows "find P (rev log) = Some r"
  using assms
proof (induction log rule: rev_induct)
  case (snoc x log)
  show ?case
  proof (cases "P x")
    case True
    then have "x = r"
      using snoc.prems by (fastforce simp: sorted_wrt_append)
    then show ?thesis using True by simp
  next
    case False
    then show ?thesis using snoc by (fastforce simp: sorted_wrt_append)
  qed
qed simp

lemma ascending_unique:
  "ascending log \<Longrightarrow> x \<in> set log \<Longrightarrow> y \<in> set log \<Longrightarrow> jr_sequence x = jr_sequence y \<Longrightarrow> x = y"
  by (induction log) auto

lemma newest_Some:
  assumes "newest g p log = Some r" "ascending log"
  shows "r \<in> set log \<and> visible g p r \<and> (\<forall>x \<in> set log. visible g p x \<longrightarrow> jr_sequence x \<le> jr_sequence r)"
  using assms
proof (induction log rule: rev_induct)
  case (snoc x log)
  then show ?case
    by (cases "visible g p x") (auto simp: newest_def sorted_wrt_append less_imp_le)
qed (simp add: newest_def)

lemma newest_None: "newest g p log = None \<longleftrightarrow> (\<forall>r \<in> set log. \<not> visible g p r)"
  by (auto simp: newest_def find_None_iff)

lemma newest_indexed:
  assumes ok: "index_ok j log" and new: "newest g p log = Some r"
  shows "bt_get (jn_records j) (jr_sequence r) = Some r"
proof -
  from newest_Some [OF new index_okD(8) [OF ok]] have r: "r \<in> set log" "visible g p r"
    and top: "\<And>x. x \<in> set log \<Longrightarrow> visible g p x \<Longrightarrow> jr_sequence x \<le> jr_sequence r" by auto
  from r ok obtain r' where r': "bt_get (jn_records j) (jr_sequence r') = Some r'"
    "range_key r' = range_key r" "jr_sequence r \<le> jr_sequence r'"
    unfolding index_ok_def by blast
  have "visible g p r'" using r r'(2) by (simp add: visible_def covers_def range_key_def)
  then have "jr_sequence r' = jr_sequence r"
    using top [of r'] index_okD(4) [OF ok r'(1)] r'(3) by simp
  moreover have "r' \<in> set log" using index_okD(4) [OF ok r'(1)] by simp
  ultimately have "r' = r"
    using index_okD(8) [OF ok] r(1) by (metis ascending_unique)
  then show ?thesis using r'(1) by simp
qed

lemma block_list_descending:
  assumes "index_ok j log" "bt_get (jn_blocks j) b = Some ix"
  shows "descending (rev (map snd ix))"
proof -
  have ok: "bt_ok ix" using index_okD(1) [OF assms(1)] assms(2) by (auto simp: blocks_ok_def)
  have key: "jr_sequence r = s" if "(s, r) \<in> set ix" for s r
  proof -
    have "bt_get (block_index (jn_blocks j) b) s = Some r"
      using that assms(2) bt.set_entries [OF ok] by (auto simp: block_index_def)
    then show ?thesis using index_okD(4,5) [OF assms(1)] by blast
  qed
  have "sorted_wrt (<) (map fst ix)"
    using ok by (simp add: bt_ok_def strict_sorted_iff)
  moreover have "map fst ix = map jr_sequence (map snd ix)"
    using key by (auto simp: case_prod_unfold)
  ultimately have "sorted_wrt (<) (map jr_sequence (map snd ix))"
    by metis
  then show ?thesis
    by (simp add: sorted_wrt_rev sorted_wrt_map)
qed

lemma block_lists_pool:
  assumes ok: "index_ok j log"
  shows "r \<in> pool (map (\<lambda>ix. rev (map snd ix)) (List.map_filter (bt_get (jn_blocks j)) bs)) \<longleftrightarrow>
    bt_get (jn_records j) (jr_sequence r) = Some r \<and> (\<exists>b \<in> set bs. b \<in> set (record_blocks r))"
    (is "?l \<longleftrightarrow> ?r")
proof -
  have "?l \<longleftrightarrow> (\<exists>b \<in> set bs. \<exists>ix s. bt_get (jn_blocks j) b = Some ix \<and> (s, r) \<in> set ix)"
    by (force simp: pool_def List.map_filter_def)
  also have "\<dots> \<longleftrightarrow> (\<exists>b \<in> set bs. \<exists>s. bt_get (block_index (jn_blocks j) b) s = Some r)"
  proof -
    have "(\<exists>ix. bt_get (jn_blocks j) b = Some ix \<and> (s, r) \<in> set ix)
        \<longleftrightarrow> bt_get (block_index (jn_blocks j) b) s = Some r" for b s
      using bt.set_entries [of "the (bt_get (jn_blocks j) b)"] index_okD(1) [OF ok]
      by (auto simp: block_index_def blocks_ok_def bt_get_def [of "[]"] split: option.split)
    then show ?thesis by blast
  qed
  also have "\<dots> \<longleftrightarrow> ?r"
    using index_okD(4,5) [OF ok] by blast
  finally show ?thesis .
qed

lemma overlapping_merges:
  assumes ok: "index_ok j log"
  defines "recs \<equiv> {r. bt_get (jn_records j) (jr_sequence r) = Some r}"
  shows "\<exists>rest. overlapping g start stop j = rest
    \<and> descending rest \<and> (\<forall>r \<in> set rest. r \<in> recs \<and> jr_generation r \<le> g)
    \<and> (\<forall>p r. start \<le> p \<and> p < stop \<and> newest g p log = Some r \<longrightarrow> r \<in> set rest)"
proof -
  define indexes where "indexes = map (\<lambda>ix. rev (map snd ix))
      (List.map_filter (bt_get (jn_blocks j)) [start div BLOCK ..< div_ceil stop BLOCK])"
  have desc: "\<forall>rs \<in> set indexes. descending rs"
    using block_list_descending [OF ok] by (auto simp: indexes_def List.map_filter_def)
  have mem: "r \<in> pool indexes \<longleftrightarrow> r \<in> recs \<and>
      (\<exists>b \<in> set [start div BLOCK ..< div_ceil stop BLOCK]. b \<in> set (record_blocks r))" for r
    unfolding indexes_def recs_def using block_lists_pool [OF ok] by simp
  have inlog: "r \<in> set log" if "r \<in> recs" for r
    using that index_okD(4) [OF ok] by (auto simp: recs_def)
  have "\<exists>added. overlap_loop g start stop indexes None [(start, stop)] [] = [] @ added
      \<and> merges g (pool indexes) None [(start, stop)] added"
  proof (rule overlap_loop_merges [OF desc])
    show "\<forall>x \<in> pool indexes. \<forall>y \<in> pool indexes. jr_sequence x = jr_sequence y \<longrightarrow> x = y"
      using mem by (auto simp: recs_def)
    show "\<forall>x \<in> pool indexes. jr_start x < jr_end x"
      using mem inlog ok by (auto simp: index_ok_def)
  qed (auto simp: in_gaps_def)
  then obtain added where run: "overlapping g start stop j = added"
    and m: "merges g (pool indexes) None [(start, stop)] added"
    by (auto simp: overlapping_def indexes_def)
  have "r \<in> set added" if p: "start \<le> p" "p < stop" and new: "newest g p log = Some r" for p r
  proof -
    have r: "r \<in> recs" using newest_indexed [OF ok new] by (simp add: recs_def)
    have vis: "visible g p r" "\<And>x. x \<in> set log \<Longrightarrow> visible g p x \<Longrightarrow> jr_sequence x \<le> jr_sequence r"
      using newest_Some [OF new index_okD(8) [OF ok]] by auto
    have "p div BLOCK \<in> set (record_blocks r)" using vis(1) covers_block by (simp add: visible_def)
    moreover have "p div BLOCK \<in> set [start div BLOCK ..< div_ceil stop BLOCK]"
      using p by (auto simp: less_div_ceil_iff div_le_mono intro: le_less_trans [OF div_times_less_eq_dividend])
    ultimately have "r \<in> pool indexes" using r mem by blast
    then show ?thesis
      using vis mem inlog p by (intro mergesD(3) [OF m, of p]) (auto simp: in_gaps_def)
  qed
  then show ?thesis
    using run mergesD(1,2) [OF m] mem by (intro exI [of _ added]) auto
qed

lemma find_descending:
  assumes "descending rs" "r \<in> set rs" "P r" "\<And>x. x \<in> set rs \<Longrightarrow> P x \<Longrightarrow> jr_sequence x \<le> jr_sequence r"
  shows "find P rs = Some r"
  using find_rev_Some [of "rev rs" r P] assms by (simp add: sorted_wrt_rev)

text \<open>For every byte of a request, the first covering record of the answer is the newest one.\<close>

theorem overlapping_newest:
  assumes ok: "index_ok j log" and p: "start \<le> p" "p < stop"
  shows "find (\<lambda>r. covers r p) (overlapping g start stop j) = newest g p log"
proof -
  from overlapping_merges [OF ok, of g start stop] have desc: "descending (overlapping g start stop j)"
    and mem: "\<And>r. r \<in> set (overlapping g start stop j) \<Longrightarrow> r \<in> set log \<and> jr_generation r \<le> g"
    and all: "\<And>r. newest g p log = Some r \<Longrightarrow> r \<in> set (overlapping g start stop j)"
    using index_okD(4) [OF ok] p by auto
  show ?thesis
  proof (cases "newest g p log")
    case None
    then have "\<forall>r \<in> set (overlapping g start stop j). \<not> covers r p"
      using mem by (auto simp: newest_None visible_def)
    then show ?thesis using None by (simp add: find_None_iff)
  next
    case (Some r)
    have "find (\<lambda>r. covers r p) (overlapping g start stop j) = Some r"
      using newest_Some [OF Some index_okD(8) [OF ok]] mem
      by (intro find_descending [OF desc all [OF Some]]) (auto simp: visible_def)
    then show ?thesis using Some by simp
  qed
qed

end
