(* ===== verification/Lazy_Disk.thy ===== *)
theory Lazy_Disk
  imports Journal
begin

text \<open>
  The demand-paged disk of \<open>storage/lazy/mod.rs\<close>, \<open>lazy/generations.rs\<close> and \<open>lazy/state.rs\<close>: an immutable base named by
  a manifest, overlaid by the journal. An operation runs as one step; the locks that make it so
  are not modelled. Blocks come from the memory cache, the cache directory or the remote source,
  which are parameters of the operations that read them, so that they may change in any way between
  two operations; filling them is left out. Metrics and tracing are left out.
\<close>

section \<open>State\<close>

record accounting =
  ac_dirty_bytes :: nat
  ac_dirty_since :: "int option"
  ac_generation :: int
  ac_journal_bytes :: nat
  ac_published :: "receipt option"

record lazy_disk =
  lz_size :: nat
  lz_base :: manifest
  lz_journal :: journal
  lz_store :: store
  lz_accounting :: accounting

record sources =
  sr_hashes :: hashes
  sr_journal :: journal_hashes
  sr_memory :: "string \<Rightarrow> byte list option"
  sr_cache :: "string \<Rightarrow> byte list option"
  sr_fetch :: "string \<Rightarrow> (io_error, byte list) result"

definition i64_MAX :: int where
  "i64_MAX = 2 ^ 63 - 1"

definition lazy_check :: "lazy_disk \<Rightarrow> nat \<Rightarrow> nat \<Rightarrow> (io_error, unit) result" where
  "lazy_check d offset len =
     (if MAX_IO < len then Inl (Io_Other ''Disk request exceeds the I/O limit'')
      else disk_range (lz_size d) offset len)"

section \<open>Base blocks\<close>

definition base_block :: "sources \<Rightarrow> extent \<Rightarrow> (io_error, byte list) result" where
  "base_block sr block =
     (case ex_size block of
        None \<Rightarrow> Inl (Io_Other ''Invalid extent'')
      | Some len \<Rightarrow>
          (case ex_hash block of
             Hash_String hash \<Rightarrow>
               (case sr_memory sr hash of
                  Some bytes \<Rightarrow>
                    if length bytes \<noteq> len then Inl (Io_Other ''Invalid cached block extent'')
                    else Inr bytes
                | None \<Rightarrow>
                    let cached = map_option (take (BLOCK + 1)) (sr_cache sr hash)
                    in if (case cached of
                             Some bytes \<Rightarrow> length bytes = len \<and> digest_matches (sr_hashes sr) hash bytes
                           | None \<Rightarrow> False)
                       then Inr (the cached)
                       else (case sr_fetch sr hash of
                               Inl e \<Rightarrow> Inl e
                             | Inr bytes \<Rightarrow>
                                 if length bytes \<noteq> len \<or> \<not> digest_matches (sr_hashes sr) hash bytes
                                 then Inl (Io_Other ''Remote block integrity check failed'')
                                 else Inr bytes))
           | _ \<Rightarrow> Inl (Io_Other ''Missing base block hash'')))"

section \<open>Reading a generation\<close>

text \<open>
  The gaps of the buffer that a record fills between \<open>begin\<close> and \<open>finish\<close>, and the gaps left.
\<close>

fun fill_gaps ::
  "nat \<Rightarrow> nat \<Rightarrow> byte list \<Rightarrow> nat \<Rightarrow> nat \<Rightarrow> (nat \<times> nat) list \<Rightarrow> byte list \<Rightarrow> byte list \<times> (nat \<times> nat) list" where
  "fill_gaps offset start data first finish [] buffer = (buffer, [])"
| "fill_gaps offset start data first finish ((gap_start, gap_end) # gaps) buffer =
     (let from = max gap_start first; to = min gap_end finish
      in if from < to
         then let buffer' = overwrite from (subrange (offset + from - start) (to - from) data) buffer;
                  (buffer'', rest) = fill_gaps offset start data first finish gaps buffer'
              in (buffer'', (if gap_start < from then [(gap_start, from)] else [])
                            @ (if to < gap_end then [(to, gap_end)] else []) @ rest)
         else let (buffer'', rest) = fill_gaps offset start data first finish gaps buffer
              in (buffer'', (gap_start, gap_end) # rest))"

definition cached_record :: "sources \<Rightarrow> lazy_disk \<Rightarrow> jrecord \<Rightarrow> (io_error, byte list) result" where
  "cached_record sr d r =
     record_read (sr_journal sr) (so_files (lz_store d)) (so_legacy (lz_store d)) (lz_size d) r"

fun fill_records ::
  "sources \<Rightarrow> lazy_disk \<Rightarrow> nat \<Rightarrow> nat \<Rightarrow> jrecord list \<Rightarrow> (nat \<times> nat) list \<Rightarrow> byte list \<Rightarrow>
   (io_error, byte list \<times> (nat \<times> nat) list) result" where
  "fill_records sr d offset len [] missing buffer = Inr (buffer, missing)"
| "fill_records sr d offset len (r # rs) missing buffer =
     (case cached_record sr d r of
        Inl e \<Rightarrow> Inl e
      | Inr data \<Rightarrow>
          let start = jr_start r;
              first = max start offset - offset;
              finish = min (start + length data) (offset + len) - offset;
              (buffer', missing') = fill_gaps offset start data first finish missing buffer
          in if missing' = [] then Inr (buffer', missing')
             else fill_records sr d offset len rs missing' buffer')"

definition extent_at :: "manifest \<Rightarrow> nat \<Rightarrow> extent option" where
  "extent_at m i = (case mf_blocks m of None \<Rightarrow> None | Some blocks \<Rightarrow> nth_opt i blocks)"

fun copy_block ::
  "byte list option \<Rightarrow> nat \<Rightarrow> nat \<Rightarrow> nat \<Rightarrow> nat \<Rightarrow> (nat \<times> nat) list \<Rightarrow> byte list \<Rightarrow> byte list" where
  "copy_block block offset i start finish [] buffer = buffer"
| "copy_block block offset i start finish ((gap_start, gap_end) # gaps) buffer =
     (let from = max gap_start start; to = min gap_end finish
      in copy_block block offset i start finish gaps
           (if from < to
            then overwrite from
                   (case block of
                      Some bytes \<Rightarrow> subrange (offset + from - i * BLOCK) (to - from) bytes
                    | None \<Rightarrow> replicate (to - from) 0) buffer
            else buffer))"

definition needs_block :: "(nat \<times> nat) list \<Rightarrow> nat \<Rightarrow> nat \<Rightarrow> bool" where
  "needs_block missing start finish = list_ex (\<lambda>(from, to). from < finish \<and> start < to) missing"

function base_loop ::
  "sources \<Rightarrow> manifest \<Rightarrow> nat \<Rightarrow> nat \<Rightarrow> nat \<Rightarrow> (nat \<times> nat) list \<Rightarrow> byte list \<Rightarrow> (io_error, byte list) result" where
  "base_loop sr m offset stop position missing buffer =
     (if position < stop
      then let i = position div BLOCK;
               limit = min ((i + 1) * BLOCK) stop;
               start = position - offset;
               finish = limit - offset
           in if needs_block missing start finish
              then (case (case extent_at m i of
                            None \<Rightarrow> Inr None
                          | Some extent \<Rightarrow>
                              if ex_hash extent = Hash_Null then Inr None
                              else map_sum id Some (base_block sr extent)) of
                      Inl e \<Rightarrow> Inl e
                    | Inr block \<Rightarrow>
                        base_loop sr m offset stop limit missing
                          (copy_block block offset i start finish missing buffer))
              else base_loop sr m offset stop limit missing buffer
      else Inr buffer)"
  by pat_completeness auto

lemma block_limit_progress: "position < stop \<Longrightarrow> position < min (BLOCK + position div BLOCK * BLOCK) stop"
proof -
  have "position < position div BLOCK * BLOCK + BLOCK"
    using mod_less_divisor [OF BLOCK_pos, of position] div_mult_mod_eq [of position BLOCK] by linarith
  then show "position < stop \<Longrightarrow> ?thesis" by (simp add: algebra_simps)
qed

termination base_loop
  by (relation "measure (\<lambda>(sr, m, offset, stop, position, missing, buffer). stop - position)")
    (use block_limit_progress in \<open>auto intro!: diff_less_mono2\<close>)

declare base_loop.simps [simp del]

definition read_generation ::
  "sources \<Rightarrow> lazy_disk \<Rightarrow> int \<Rightarrow> nat \<Rightarrow> byte list \<Rightarrow> (io_error, byte list) result" where
  "read_generation sr d generation offset buffer =
     (let len = length buffer
      in case lazy_check d offset len of
           Inl e \<Rightarrow> Inl e
         | Inr _ \<Rightarrow>
             if len = 0 then Inr []
             else (case fill_records sr d offset len
                          (overlapping generation offset (offset + len) (lz_journal d))
                          [(0, len)] buffer of
                     Inl e \<Rightarrow> Inl e
                   | Inr (filled, missing) \<Rightarrow>
                       if missing = [] then Inr filled
                       else base_loop sr (lz_base d) offset (offset + len) offset missing filled))"

definition lazy_read_at :: "sources \<Rightarrow> nat \<Rightarrow> nat \<Rightarrow> lazy_disk \<Rightarrow> (io_error, byte list) result" where
  "lazy_read_at sr offset len d = read_generation sr d i64_MAX offset (replicate len 0)"

section \<open>Writing\<close>

definition update_accounting :: "lazy_disk \<Rightarrow> lazy_disk" where
  "update_accounting d =
     (let j = lz_journal d
      in d\<lparr>lz_accounting :=
             \<lparr>ac_dirty_bytes = jn_dirty_bytes j, ac_dirty_since = jn_dirty_since j,
              ac_generation = jn_generation j, ac_journal_bytes = jn_journal_bytes j,
              ac_published = ac_published (lz_accounting d)\<rparr>\<rparr>)"

text \<open>What the operating system does with a write: the time, and a torn frame or a failed sync.\<close>

record io_outcome =
  io_now :: int
  io_torn :: "nat option"
  io_sync_fails :: bool

fun check_writes :: "lazy_disk \<Rightarrow> disk_write list \<Rightarrow> nat \<Rightarrow> (io_error, nat) result" where
  "check_writes d [] tot = Inr tot"
| "check_writes d (w # ws) tot =
     (case lazy_check d (dw_offset w) (length (dw_bytes w)) of
        Inl e \<Rightarrow> Inl e
      | Inr _ \<Rightarrow>
          if MAX_IO < tot + length (dw_bytes w)
          then Inl (Io_Other ''Disk write batch exceeds its byte limit'')
          else check_writes d ws (tot + length (dw_bytes w)))"

fun append_all ::
  "journal_hashes \<Rightarrow> io_outcome \<Rightarrow> disk_write list \<Rightarrow> int option \<Rightarrow> lazy_disk \<Rightarrow>
   (io_error, int option) result \<times> lazy_disk" where
  "append_all h io [] newest_seq d = (Inr newest_seq, d)"
| "append_all h io (w # ws) newest_seq d =
     (if dw_bytes w = [] then append_all h io ws newest_seq d
      else (case append h (io_now io) (io_torn io) (dw_offset w) (dw_bytes w) (lz_journal d) (lz_store d) of
              (Inl e, j, st) \<Rightarrow> (Inl e, d\<lparr>lz_journal := journal_fail j, lz_store := st\<rparr>)
            | (Inr sequence, j, st) \<Rightarrow>
                append_all h io ws (Some sequence) (d\<lparr>lz_journal := j, lz_store := st\<rparr>)))"

definition commit_write :: "io_outcome \<Rightarrow> int \<Rightarrow> lazy_disk \<Rightarrow> lazy_disk outcome" where
  "commit_write io sequence d =
     (case journal_commit_batch sequence (lz_journal d) of
        Inl e \<Rightarrow> (Inl e, d)
      | Inr None \<Rightarrow> (Inr (), d)
      | Inr (Some batch) \<Rightarrow>
          if io_sync_fails io
          then (Inl (Io_Other ''sync failed''), d\<lparr>lz_journal := journal_fail (lz_journal d)\<rparr>)
          else (case journal_committed batch (lz_journal d) of
                  Inl e \<Rightarrow> (Inl e, d)
                | Inr j \<Rightarrow> (Inr (), d\<lparr>lz_journal := j\<rparr>)))"

definition append_writes :: "sources \<Rightarrow> io_outcome \<Rightarrow> disk_write list \<Rightarrow> lazy_disk \<Rightarrow> lazy_disk outcome" where
  "append_writes sr io writes d =
     (if 128 < length writes then (Inl (Io_Other ''Too many disk writes in one batch''), d)
      else (case check_writes d writes 0 of
              Inl e \<Rightarrow> (Inl e, d)
            | Inr tot \<Rightarrow>
                if tot = 0 then (Inr (), d)
                else (case append_all (sr_journal sr) io writes None d of
                        (Inl e, d') \<Rightarrow> (Inl e, d')
                      | (Inr sequence, d') \<Rightarrow> commit_write io (the sequence) (update_accounting d'))))"

definition lazy_write_at :: "sources \<Rightarrow> io_outcome \<Rightarrow> nat \<Rightarrow> byte list \<Rightarrow> lazy_disk \<Rightarrow> lazy_disk outcome" where
  "lazy_write_at sr io offset bytes d =
     append_writes sr io [\<lparr>dw_offset = offset, dw_bytes = bytes\<rparr>] d"

definition lazy_write_batch :: "sources \<Rightarrow> io_outcome \<Rightarrow> disk_write list \<Rightarrow> lazy_disk \<Rightarrow> lazy_disk outcome" where
  "lazy_write_batch sr io writes d =
     (if length writes = 1
      then lazy_write_at sr io (dw_offset (hd writes)) (dw_bytes (hd writes)) d
      else if 128 < length writes then (Inl (Io_Other ''Too many disk writes in one batch''), d)
      else append_writes sr io writes d)"

definition lazy_sync :: "lazy_disk \<Rightarrow> lazy_disk outcome" where
  "lazy_sync d =
     (case journal_sync (lz_journal d) of Inl e \<Rightarrow> (Inl e, d) | Inr _ \<Rightarrow> (Inr (), d))"

definition lazy_ops :: "sources \<Rightarrow> io_outcome \<Rightarrow> lazy_disk disk_ops" where
  "lazy_ops sr io =
     \<lparr>op_size = lz_size, op_read_at = lazy_read_at sr, op_write_at = lazy_write_at sr io,
      op_write_batch = lazy_write_batch sr io, op_sync = lazy_sync\<rparr>"

section \<open>Generations\<close>

definition seal_with_completion :: "bool \<Rightarrow> int \<Rightarrow> lazy_disk \<Rightarrow> (io_error, int) result \<times> lazy_disk" where
  "seal_with_completion completed now d =
     (case journal_sync (lz_journal d) of
        Inl e \<Rightarrow> (Inl e, d)
      | Inr _ \<Rightarrow>
          let db = so_db (lz_store d); generation = db_generation db
          in case checked_add_i64 generation 1 of
               None \<Rightarrow> (Inl (Io_Other ''Generation exhausted''), d)
             | Some after \<Rightarrow>
                 if hm_contains (db_sealed db) generation
                 then (Inl (Io_Other ''UNIQUE constraint failed''), d)
                 else
                   let db' = db\<lparr>db_generation := after,
                                db_next_sequence := jn_next (lz_journal d),
                                db_sealed := hm_insert generation None (db_sealed db),
                                db_completed := (if completed
                                   then Some \<lparr>cp_generation = generation, cp_captured_at = now\<rparr>
                                   else db_completed db)\<rparr>
                   in (Inr generation,
                       update_accounting
                         (d\<lparr>lz_journal := journal_sealed after (lz_journal d),
                            lz_store := (lz_store d)\<lparr>so_db := db'\<rparr>\<rparr>)))"

definition has_sealed :: "int \<Rightarrow> lazy_disk \<Rightarrow> bool" where
  "has_sealed generation d = hm_contains (db_sealed (so_db (lz_store d))) generation"

text \<open>One block as a generation has it, and its identity: none for a block of zeros.\<close>

definition reconstruct ::
  "sources \<Rightarrow> lazy_disk \<Rightarrow> int \<Rightarrow> nat \<Rightarrow> (io_error, byte list \<times> string option) result" where
  "reconstruct sr d generation i =
     (let offset = i * BLOCK
      in case read_generation sr d generation offset (replicate (min (lz_size d - offset) BLOCK) 0) of
           Inl e \<Rightarrow> Inl e
         | Inr bytes \<Rightarrow>
             Inr (bytes, if list_all (\<lambda>b. b = 0) bytes then None
                         else Some (digest_block (sr_hashes sr) bytes)))"

definition set_hash :: "nat \<Rightarrow> string option \<Rightarrow> manifest \<Rightarrow> manifest" where
  "set_hash i hash m =
     m\<lparr>mf_blocks := map_option (\<lambda>blocks. blocks[i := (blocks ! i)
          \<lparr>ex_hash := (case hash of None \<Rightarrow> Hash_Null | Some s \<Rightarrow> Hash_String s)\<rparr>]) (mf_blocks m)\<rparr>"

fun capture_blocks ::
  "sources \<Rightarrow> lazy_disk \<Rightarrow> int \<Rightarrow> nat list \<Rightarrow> manifest \<Rightarrow> (io_error, manifest) result" where
  "capture_blocks sr d generation [] m = Inr m"
| "capture_blocks sr d generation (i # is) m =
     (case reconstruct sr d generation i of
        Inl e \<Rightarrow> Inl e
      | Inr (_, hash) \<Rightarrow> capture_blocks sr d generation is (set_hash i hash m))"

text \<open>\<open>order\<close> is the order in which the working set has the changed blocks rebuilt.\<close>

definition capture ::
  "sources \<Rightarrow> (nat list \<Rightarrow> nat list) \<Rightarrow> int \<Rightarrow> lazy_disk \<Rightarrow> (io_error, manifest) result \<times> lazy_disk" where
  "capture sr order generation d =
     (let db = so_db (lz_store d)
      in case hm_get (db_sealed db) generation of
           None \<Rightarrow> (Inl (Io_Other ''Query returned no rows''), d)
         | Some (Some m) \<Rightarrow> (Inr m, d)
         | Some None \<Rightarrow>
             (case capture_blocks sr d generation (order (changed generation (lz_journal d))) (db_manifest db) of
                Inl e \<Rightarrow> (Inl e, d)
              | Inr m \<Rightarrow>
                  (Inr m, d\<lparr>lz_store := (lz_store d)
                     \<lparr>so_db := db\<lparr>db_sealed := hm_insert generation (Some m) (db_sealed db)\<rparr>\<rparr>\<rparr>)))"

definition captured_block ::
  "sources \<Rightarrow> int \<Rightarrow> string \<Rightarrow> lazy_disk \<Rightarrow> (io_error, byte list) result" where
  "captured_block sr generation hash d =
     (case hm_get (db_sealed (so_db (lz_store d))) generation of
        None \<Rightarrow> Inl (Io_Other ''Query returned no rows'')
      | Some None \<Rightarrow> Inl (Io_Other ''Invalid column type'')
      | Some (Some m) \<Rightarrow>
          (case mf_blocks m of
             None \<Rightarrow> Inl (Io_Other ''Invalid captured manifest'')
           | Some blocks \<Rightarrow>
               (case find (\<lambda>b. ex_hash b = Hash_String hash) blocks of
                  None \<Rightarrow> Inl (Io_Other ''Block outside captured generation'')
                | Some block \<Rightarrow>
                    (case (ex_offset block, ex_size block) of
                       (Some offset, Some len) \<Rightarrow>
                         if BLOCK < len then Inl (Io_Other ''Invalid extent'')
                         else (case read_generation sr d generation offset (replicate len 0) of
                                 Inl e \<Rightarrow> Inl e
                               | Inr bytes \<Rightarrow>
                                   if \<not> digest_matches (sr_hashes sr) hash bytes
                                   then Inl (Io_Other ''Captured generation changed'')
                                   else Inr bytes)
                     | _ \<Rightarrow> Inl (Io_Other ''Invalid extent'')))))"

definition publish :: "int \<Rightarrow> receipt \<Rightarrow> manifest \<Rightarrow> lazy_disk \<Rightarrow> lazy_disk" where
  "publish generation rc m d =
     (let db = so_db (lz_store d);
          db' = db\<lparr>db_manifest := m,
                   db_sealed := hm_retain (\<lambda>g _. generation < g) (db_sealed db),
                   db_published := Some rc,
                   db_segments := filter (\<lambda>(_, g, _). generation < g) (db_segments db)\<rparr>;
          (retired, j) = journal_retire generation (lz_journal d);
          d1 = update_accounting
                 (d\<lparr>lz_base := m, lz_journal := j,
                    lz_store := (lz_store d)\<lparr>so_files := reclaim retired (so_files (lz_store d)),
                                             so_db := db'\<rparr>\<rparr>)
      in d1\<lparr>lz_accounting := (lz_accounting d1)\<lparr>ac_published := Some rc\<rparr>\<rparr>)"

definition commit_published :: "int \<Rightarrow> string \<Rightarrow> lazy_disk \<Rightarrow> lazy_disk outcome" where
  "commit_published generation backup_id d =
     (let db = so_db (lz_store d);
          rc = \<lparr>rc_generation = generation, rc_backup_id = backup_id\<rparr>;
          already_published = (db_published db = Some rc)
      in if already_published \<and> ac_published (lz_accounting d) = Some rc then (Inr (), d)
         else
           case (if already_published then Inr (db_manifest db)
                 else case hm_get (db_sealed db) generation of
                        Some (Some m) \<Rightarrow> Inr m
                      | _ \<Rightarrow> Inl (Io_Other ''Query returned no rows'')) of
             Inl e \<Rightarrow> (Inl e, d)
           | Inr m \<Rightarrow>
               (case manifest_validate m of
                  Inl e \<Rightarrow> (Inl e, d)
                | Inr _ \<Rightarrow> (Inr (), publish generation rc m d)))"

section \<open>Creating and opening\<close>

definition connect :: "sources \<Rightarrow> store \<Rightarrow> (io_error, lazy_disk) result" where
  "connect sr st =
     (case manifest_validate (db_manifest (so_db st)) of
        Inl e \<Rightarrow> Inl e
      | Inr sz \<Rightarrow>
          (case journal_open (sr_journal sr) sz st of
             Inl e \<Rightarrow> Inl e
           | Inr (j, st') \<Rightarrow>
               Inr \<lparr>lz_size = sz, lz_base = db_manifest (so_db st), lz_journal = j, lz_store = st',
                    lz_accounting =
                      \<lparr>ac_dirty_bytes = jn_dirty_bytes j, ac_dirty_since = jn_dirty_since j,
                       ac_generation = jn_generation j, ac_journal_bytes = jn_journal_bytes j,
                       ac_published = db_published (so_db st)\<rparr>\<rparr>))"

definition initial_store :: "manifest \<Rightarrow> int \<Rightarrow> store" where
  "initial_store m generation =
     \<lparr>so_files = [(''journal.sqlite'', LEGACY_GUARD)],
      so_db = \<lparr>db_manifest = m, db_generation = generation, db_next_sequence = 1, db_sealed = [],
               db_published = None, db_completed = None, db_legacy_through = None, db_segments = []\<rparr>,
      so_legacy = []\<rparr>"

definition create_at_generation :: "sources \<Rightarrow> manifest \<Rightarrow> int \<Rightarrow> (io_error, lazy_disk) result" where
  "create_at_generation sr m generation =
     (case manifest_validate m of
        Inl e \<Rightarrow> Inl e
      | Inr _ \<Rightarrow>
          if generation < 1 \<or> generation = i64_MAX
          then Inl (Io_Other ''Invalid initial journal generation'')
          else connect sr (initial_store m generation))"

end
