(* ===== verification/Lazy_Reads.thy ===== *)
theory Lazy_Reads
  imports Journal_Index Lazy_Disk
begin

text \<open>
  Proofs about reading a lazy disk: the gap-tracking read of a generation returns, for every byte,
  the newest write the generation sees, or the byte of the verified base block, or zero for a block
  the base does not have; it never returns anything for a block it cannot get.
\<close>

section \<open>What a generation contains\<close>

definition record_data :: "sources \<Rightarrow> lazy_disk \<Rightarrow> jrecord \<Rightarrow> byte list" where
  "record_data sr d r = (case cached_record sr d r of Inl _ \<Rightarrow> [] | Inr bytes \<Rightarrow> bytes)"

definition readable :: "sources \<Rightarrow> lazy_disk \<Rightarrow> jrecord \<Rightarrow> bool" where
  "readable sr d r =
     (cached_record sr d r = Inr (record_data sr d r)
      \<and> length (record_data sr d r) = jr_end r - jr_start r)"

definition base_byte :: "(string \<Rightarrow> byte list) \<Rightarrow> manifest \<Rightarrow> nat \<Rightarrow> byte" where
  "base_byte truth m p =
     (case extent_at m (p div BLOCK) of
        None \<Rightarrow> 0
      | Some ex \<Rightarrow> (case ex_hash ex of Hash_String h \<Rightarrow> truth h ! (p mod BLOCK) | _ \<Rightarrow> 0))"

definition disk_byte :: "sources \<Rightarrow> (string \<Rightarrow> byte list) \<Rightarrow> lazy_disk \<Rightarrow> jrecord list \<Rightarrow> int \<Rightarrow> nat \<Rightarrow> byte" where
  "disk_byte sr truth d log g p =
     (case newest g p log of
        Some r \<Rightarrow> record_data sr d r ! (p - jr_start r)
      | None \<Rightarrow> base_byte truth (lz_base d) p)"

text \<open>No source delivers a block that passes verification without being the block meant.\<close>

definition honest :: "sources \<Rightarrow> (string \<Rightarrow> byte list) \<Rightarrow> bool" where
  "honest sr truth =
     ((\<forall>h b. sr_memory sr h = Some b \<longrightarrow> b = truth h)
      \<and> (\<forall>h b. sr_cache sr h = Some b \<and> digest_matches (sr_hashes sr) h (take (BLOCK + 1) b) \<longrightarrow>
            take (BLOCK + 1) b = truth h)
      \<and> (\<forall>h b. sr_fetch sr h = Inr b \<and> digest_matches (sr_hashes sr) h b \<longrightarrow> b = truth h))"

lemma base_block_truth:
  assumes "honest sr truth" "base_block sr ex = Inr bytes"
  shows "\<exists>h len. ex_hash ex = Hash_String h \<and> ex_size ex = Some len \<and> bytes = truth h \<and> length bytes = len"
  using assms
  by (auto simp: base_block_def honest_def Let_def split: option.splits hash_value.splits if_splits sum.splits)

definition disk_ok :: "sources \<Rightarrow> lazy_disk \<Rightarrow> jrecord list \<Rightarrow> bool" where
  "disk_ok sr d log =
     (index_ok (lz_journal d) log
      \<and> (\<forall>r. bt_get (jn_records (lz_journal d)) (jr_sequence r) = Some r \<longrightarrow> readable sr d r)
      \<and> manifest_validate (lz_base d) = Inr (lz_size d))"

section \<open>Filling the gaps of a request\<close>

definition gaps_within :: "nat \<Rightarrow> (nat \<times> nat) list \<Rightarrow> bool" where
  "gaps_within n gaps = (\<forall>(a, b) \<in> set gaps. b \<le> n)"

lemma fill_gaps_spec:
  assumes "fill_gaps offset start data first finish gaps buffer = (buffer', gaps')"
    and "gaps_within (length buffer) gaps"
    and "\<And>k. first \<le> k \<Longrightarrow> k < finish \<Longrightarrow> start \<le> offset + k \<and> offset + k < start + length data"
  shows "length buffer' = length buffer \<and> gaps_within (length buffer) gaps'
    \<and> (in_gaps k gaps' \<longleftrightarrow> in_gaps k gaps \<and> \<not> (first \<le> k \<and> k < finish))
    \<and> (k < length buffer \<longrightarrow> buffer' ! k =
         (if in_gaps k gaps \<and> first \<le> k \<and> k < finish then data ! (offset + k - start) else buffer ! k))"
  using assms(1,2)
proof (induction gaps arbitrary: buffer buffer' gaps')
  case (Cons gap gaps)
  obtain a b where gap: "gap = (a, b)" by force
  define lw where "lw = max a first"
  define up where "up = min b finish"
  have b: "b \<le> length buffer" and rest: "gaps_within (length buffer) gaps"
    using Cons.prems(2) by (auto simp: gaps_within_def gap)
  show ?case
  proof (cases "lw < up")
    case True
    define piece where "piece = subrange (offset + lw - start) (up - lw) data"
    obtain b2 g2 where run: "fill_gaps offset start data first finish gaps (overwrite lw piece buffer) = (b2, g2)"
      by force
    have ends: "first \<le> lw" "lw < finish" "first \<le> up - 1" "up - 1 < finish" "0 < up"
      using True by (auto simp: lw_def up_def)
    have bnd: "start \<le> offset + lw" "offset + up \<le> start + length data"
      using assms(3) [OF ends(1,2)] assms(3) [OF ends(3,4)] ends(5) by linarith+
    then have piece: "length piece = up - lw"
      using True by (simp add: piece_def)
    have len: "length (overwrite lw piece buffer) = length buffer"
      using True b piece by (simp add: up_def)
    have over: "overwrite lw piece buffer ! k =
        (if lw \<le> k \<and> k < up then data ! (offset + k - start) else buffer ! k)" if "k < length buffer"
    proof -
      have "overwrite lw piece buffer ! k = (if lw \<le> k \<and> k < lw + length piece then piece ! (k - lw) else buffer ! k)"
        using True b piece that by (intro nth_overwrite) (auto simp: up_def)
      moreover have "piece ! (k - lw) = data ! (offset + k - start)" if "lw \<le> k" "k < up"
        using that bnd True by (simp add: piece_def nth_subrange)
      ultimately show ?thesis using piece True by auto
    qed
    have out: "buffer' = b2" "gaps' = (if a < lw then [(a, lw)] else []) @ (if up < b then [(up, b)] else []) @ g2"
      using Cons.prems(1) True run by (auto simp: gap lw_def up_def piece_def Let_def split: prod.splits)
    have ih: "length b2 = length buffer \<and> gaps_within (length buffer) g2
        \<and> (in_gaps k g2 \<longleftrightarrow> in_gaps k gaps \<and> \<not> (first \<le> k \<and> k < finish))
        \<and> (k < length buffer \<longrightarrow> b2 ! k = (if in_gaps k gaps \<and> first \<le> k \<and> k < finish
             then data ! (offset + k - start) else overwrite lw piece buffer ! k))"
      using Cons.IH [OF run] rest len by simp
    have cut: "lw \<le> k \<and> k < up \<longleftrightarrow> (a \<le> k \<and> k < b) \<and> first \<le> k \<and> k < finish"
      by (auto simp: lw_def up_def)
    have "a \<le> lw" "up \<le> b" by (simp_all add: lw_def up_def)
    then have left: "in_gaps k gaps' \<longleftrightarrow> (a \<le> k \<and> k < lw) \<or> (up \<le> k \<and> k < b) \<or> in_gaps k g2"
      unfolding out(2) by (auto simp: in_gaps_Cons in_gaps_append)
    have "(a \<le> k \<and> k < lw) \<or> (up \<le> k \<and> k < b) \<longleftrightarrow> (a \<le> k \<and> k < b) \<and> \<not> (first \<le> k \<and> k < finish)"
      using True by (auto simp: lw_def up_def)
    then have gap_left: "in_gaps k gaps' \<longleftrightarrow> in_gaps k (gap # gaps) \<and> \<not> (first \<le> k \<and> k < finish)"
      using left ih by (auto simp: gap in_gaps_Cons)
    have "gaps_within (length buffer) gaps'"
      using ih b True by (auto simp: out(2) gaps_within_def up_def)
    moreover have "k < length buffer \<longrightarrow> buffer' ! k = (if in_gaps k (gap # gaps) \<and> first \<le> k \<and> k < finish
        then data ! (offset + k - start) else buffer ! k)"
      using ih over cut by (auto simp: out(1) gap in_gaps_Cons)
    ultimately show ?thesis using ih gap_left out(1) by simp
  next
    case False
    obtain b2 g2 where run: "fill_gaps offset start data first finish gaps buffer = (b2, g2)" by force
    have "buffer' = b2" "gaps' = (a, b) # g2"
      using Cons.prems(1) False run by (auto simp: gap lw_def up_def Let_def)
    then show ?thesis
      using Cons.IH [OF run rest] b False
      by (auto simp: gap in_gaps_Cons gaps_within_def lw_def up_def)
  qed
qed auto

lemma readable_covers:
  assumes "readable sr d r" "k < len"
  shows "covers r (offset + k) \<longleftrightarrow>
    max (jr_start r) offset - offset \<le> k
    \<and> k < min (jr_start r + length (record_data sr d r)) (offset + len) - offset"
  using assms by (auto simp: readable_def covers_def)

lemma fill_records_spec:
  assumes "\<forall>r \<in> set rs. readable sr d r" "gaps_within len gaps" "length buffer = len"
  shows "\<exists>buffer' gaps'. fill_records sr d offset len rs gaps buffer = Inr (buffer', gaps')
    \<and> length buffer' = len \<and> gaps_within len gaps'
    \<and> (\<forall>k < len.
        (in_gaps k gaps' \<longleftrightarrow> in_gaps k gaps \<and> find (\<lambda>r. covers r (offset + k)) rs = None)
        \<and> buffer' ! k =
            (case (if in_gaps k gaps then find (\<lambda>r. covers r (offset + k)) rs else None) of
               None \<Rightarrow> buffer ! k
             | Some r \<Rightarrow> record_data sr d r ! (offset + k - jr_start r)))"
  using assms
proof (induction rs arbitrary: gaps buffer)
  case Nil
  then show ?case by (simp split: option.split)
next
  case (Cons r rs)
  define first where "first = max (jr_start r) offset - offset"
  define finish where "finish = min (jr_start r + length (record_data sr d r)) (offset + len) - offset"
  have r: "readable sr d r" using Cons.prems(1) by simp
  have inside: "jr_start r \<le> offset + k \<and> offset + k < jr_start r + length (record_data sr d r)"
    if "first \<le> k" "k < finish" for k
    using that by (auto simp: first_def finish_def)
  obtain b1 g1 where run:
    "fill_gaps offset (jr_start r) (record_data sr d r) first finish gaps buffer = (b1, g1)" by force
  note one = fill_gaps_spec [OF run _ inside, unfolded Cons.prems(3), OF Cons.prems(2)]
  have cov: "covers r (offset + k) \<longleftrightarrow> first \<le> k \<and> k < finish" if "k < len" for k
    unfolding first_def finish_def by (rule readable_covers [OF r that])
  have step: "fill_records sr d offset len (r # rs) gaps buffer =
      (if g1 = [] then Inr (b1, g1) else fill_records sr d offset len rs g1 b1)"
    using r run by (simp add: readable_def first_def finish_def)
  show ?case
  proof (cases "g1 = []")
    case True
    then have "find (\<lambda>r. covers r (offset + k)) (r # rs) = Some r" if "in_gaps k gaps" "k < len" for k
      using one [of k] cov that by auto
    then show ?thesis
      using True step one cov by (auto split: option.split)
  next
    case False
    have "gaps_within len g1" "length b1 = len" using one by auto
    then obtain b2 g2 where rest: "fill_records sr d offset len rs g1 b1 = Inr (b2, g2)"
      "length b2 = len" "gaps_within len g2"
      and spec: "\<And>k. k < len \<Longrightarrow>
        (in_gaps k g2 \<longleftrightarrow> in_gaps k g1 \<and> find (\<lambda>r. covers r (offset + k)) rs = None)
        \<and> b2 ! k = (case (if in_gaps k g1 then find (\<lambda>r. covers r (offset + k)) rs else None) of
               None \<Rightarrow> b1 ! k
             | Some r \<Rightarrow> record_data sr d r ! (offset + k - jr_start r))"
      using Cons.IH [of g1 b1] Cons.prems(1) by auto
    have "(in_gaps k g2 \<longleftrightarrow> in_gaps k gaps \<and> find (\<lambda>r. covers r (offset + k)) (r # rs) = None)
        \<and> b2 ! k = (case (if in_gaps k gaps then find (\<lambda>r. covers r (offset + k)) (r # rs) else None) of
               None \<Rightarrow> buffer ! k
             | Some r \<Rightarrow> record_data sr d r ! (offset + k - jr_start r))" if "k < len" for k
      using spec [OF that] one [of k] cov [OF that] that by (auto split: option.split)
    then show ?thesis using False step rest by auto
  qed
qed

section \<open>Base blocks\<close>

lemma copy_block_spec:
  assumes "gaps_within (length buffer) gaps"
    and "\<And>bytes k. block = Some bytes \<Longrightarrow> start \<le> k \<Longrightarrow> k < finish \<Longrightarrow>
      i * BLOCK \<le> offset + k \<and> offset + k - i * BLOCK < length bytes"
  shows "length (copy_block block offset i start finish gaps buffer) = length buffer
    \<and> (k < length buffer \<longrightarrow> copy_block block offset i start finish gaps buffer ! k =
        (if in_gaps k gaps \<and> start \<le> k \<and> k < finish
         then (case block of None \<Rightarrow> 0 | Some bytes \<Rightarrow> bytes ! (offset + k - i * BLOCK))
         else buffer ! k))"
  using assms(1)
proof (induction gaps arbitrary: buffer)
  case (Cons gap gaps)
  obtain a b where gap: "gap = (a, b)" by force
  define lw where "lw = max a start"
  define up where "up = min b finish"
  define piece where "piece = (case block of Some bytes \<Rightarrow> subrange (offset + lw - i * BLOCK) (up - lw) bytes
    | None \<Rightarrow> replicate (up - lw) 0)"
  define buffer' where "buffer' = (if lw < up then overwrite lw piece buffer else buffer)"
  have b: "b \<le> length buffer" and rest: "gaps_within (length buffer) gaps"
    using Cons.prems by (auto simp: gaps_within_def gap)
  have piece: "length piece = up - lw \<and> (\<forall>k. lw \<le> k \<and> k < up \<longrightarrow>
      piece ! (k - lw) = (case block of None \<Rightarrow> 0 | Some bytes \<Rightarrow> bytes ! (offset + k - i * BLOCK)))"
    if "lw < up"
  proof (cases block)
    case (Some bytes)
    have ends: "start \<le> lw" "lw < finish" "start \<le> up - 1" "up - 1 < finish" "0 < up"
      using that by (auto simp: lw_def up_def)
    have "i * BLOCK \<le> offset + lw" "offset + lw - i * BLOCK + (up - lw) \<le> length bytes"
      using assms(2) [OF Some ends(1,2)] assms(2) [OF Some ends(3,4)] ends(5) that by linarith+
    then show ?thesis
      using that Some by (auto simp: piece_def nth_subrange)
  qed (use that in \<open>auto simp: piece_def\<close>)
  have len: "length buffer' = length buffer"
    using piece b by (auto simp: buffer'_def up_def)
  have one: "buffer' ! k = (if lw \<le> k \<and> k < up
      then (case block of None \<Rightarrow> 0 | Some bytes \<Rightarrow> bytes ! (offset + k - i * BLOCK)) else buffer ! k)"
    if "k < length buffer"
    using piece b that nth_overwrite [of lw piece buffer k] by (auto simp: buffer'_def up_def)
  have "copy_block block offset i start finish (gap # gaps) buffer
      = copy_block block offset i start finish gaps buffer'"
    by (simp only: gap copy_block.simps Let_def buffer'_def piece_def flip: lw_def up_def)
  then show ?case
    using Cons.IH [of buffer'] rest len one by (auto simp: gap in_gaps_Cons lw_def up_def)
qed simp

lemma block_mod: "position div BLOCK * BLOCK \<le> position" "position < position div BLOCK * BLOCK + BLOCK"
  using mod_less_divisor [OF BLOCK_pos, of position] div_mult_mod_eq [of position BLOCK] by linarith+

lemma block_index_unique:
  assumes "i * BLOCK \<le> p" "p < i * BLOCK + BLOCK"
  shows "p div BLOCK = i" "p mod BLOCK = p - i * BLOCK"
proof -
  show "p div BLOCK = i"
    using assms by (intro div_nat_eqI) (simp_all add: algebra_simps)
  then show "p mod BLOCK = p - i * BLOCK"
    using modulo_nat_def [of p BLOCK] by (simp add: mult.commute)
qed

lemma extent_at_valid:
  assumes "manifest_validate m = Inr sz" "extent_at m i = Some ex"
  shows "extent_ok sz i ex"
  using extent_ok_nth [OF assms(1)] assms(2) by (auto simp: extent_at_def nth_opt_def split: if_splits)

lemma base_choice:
  assumes "honest sr truth" "manifest_validate m = Inr sz"
    and block: "(case extent_at m i of None \<Rightarrow> Inr None
      | Some ex \<Rightarrow> if ex_hash ex = Hash_Null then Inr None else map_sum id Some (base_block sr ex)) = Inr block"
    and p: "i * BLOCK \<le> p" "p < i * BLOCK + BLOCK" "p < sz"
  shows "(case block of None \<Rightarrow> 0 | Some bytes \<Rightarrow> bytes ! (p - i * BLOCK)) = base_byte truth m p"
    and "block = Some bytes \<Longrightarrow> p - i * BLOCK < length bytes"
proof -
  have i: "p div BLOCK = i" "p mod BLOCK = p - i * BLOCK" by (rule block_index_unique [OF p(1,2)])+
  have "(case block of None \<Rightarrow> 0 | Some bytes \<Rightarrow> bytes ! (p - i * BLOCK)) = base_byte truth m p
    \<and> (\<forall>bytes. block = Some bytes \<longrightarrow> p - i * BLOCK < length bytes)"
  proof (cases "extent_at m i")
    case None
    then show ?thesis using block by (auto simp: base_byte_def i)
  next
    case (Some ex)
    show ?thesis
    proof (cases "ex_hash ex = Hash_Null")
      case True
      then show ?thesis using block Some by (auto simp: base_byte_def i)
    next
      case False
      then obtain bytes where b: "base_block sr ex = Inr bytes" "block = Some bytes"
        using block Some by (cases "base_block sr ex") auto
      have "ex_size ex = Some (min (sz - i * BLOCK) BLOCK)"
        using extent_at_valid [OF assms(2) Some] by (simp add: extent_ok_def Let_def)
      then show ?thesis
        using base_block_truth [OF assms(1) b(1)] b(2) Some p by (auto simp: base_byte_def i)
    qed
  qed
  then show "(case block of None \<Rightarrow> 0 | Some bytes \<Rightarrow> bytes ! (p - i * BLOCK)) = base_byte truth m p"
    and "block = Some bytes \<Longrightarrow> p - i * BLOCK < length bytes" by auto
qed

lemma needs_block_gaps:
  "\<not> needs_block gaps start finish \<Longrightarrow> start \<le> k \<Longrightarrow> k < finish \<Longrightarrow> \<not> in_gaps k gaps"
  by (fastforce simp: needs_block_def list_ex_iff in_gaps_def)

lemma base_loop_spec:
  assumes "base_loop sr m offset stop position missing buffer = Inr out"
    and "honest sr truth" "manifest_validate m = Inr sz" "stop \<le> sz"
    and "offset \<le> position" "stop = offset + length buffer" "gaps_within (length buffer) missing"
  shows "length out = length buffer \<and> (\<forall>k < length buffer. out ! k =
    (if in_gaps k missing \<and> position \<le> offset + k then base_byte truth m (offset + k) else buffer ! k))"
  using assms
proof (induction sr m offset stop position missing buffer rule: base_loop.induct)
  case (1 sr m offset stop position missing buffer)
  show ?case
  proof (cases "position < stop")
    case False
    then show ?thesis using "1.prems" by (auto simp: base_loop.simps)
  next
    case True
    define i where "i = position div BLOCK"
    define limit where "limit = min ((i + 1) * BLOCK) stop"
    have lim: "position < limit" "limit \<le> stop" "limit \<le> i * BLOCK + BLOCK" "i * BLOCK \<le> position"
      using block_limit_progress [OF True] block_mod(1) [of position] by (auto simp: limit_def i_def)
    show ?thesis
    proof (cases "needs_block missing (position - offset) (limit - offset)")
      case False
      have out: "base_loop sr m offset stop limit missing buffer = Inr out"
        using "1.prems"(1) True False by (simp add: base_loop.simps [of _ _ _ _ position] Let_def i_def limit_def)
      have ih: "length out = length buffer \<and> (\<forall>k < length buffer. out ! k =
          (if in_gaps k missing \<and> limit \<le> offset + k then base_byte truth m (offset + k) else buffer ! k))"
        using "1.IH"(2) [OF True i_def limit_def refl refl False out] lim "1.prems" by simp
      have "\<not> in_gaps k missing" if "position \<le> offset + k" "offset + k < limit" for k
        using needs_block_gaps [OF False, of k] that by linarith
      then show ?thesis using ih lim by auto
    next
      case True
      note needed = this
      obtain block where block: "(case extent_at m i of None \<Rightarrow> Inr None
          | Some ex \<Rightarrow> if ex_hash ex = Hash_Null then Inr None else map_sum id Some (base_block sr ex)) = Inr block"
        and out: "base_loop sr m offset stop limit missing
          (copy_block block offset i (position - offset) (limit - offset) missing buffer) = Inr out"
        using "1.prems"(1) \<open>position < stop\<close> True
        by (auto simp: base_loop.simps [of _ _ _ _ position] Let_def i_def limit_def split: sum.splits)
      define buffer' where "buffer' = copy_block block offset i (position - offset) (limit - offset) missing buffer"
      have choice: "(case block of None \<Rightarrow> 0 | Some bytes \<Rightarrow> bytes ! (offset + k - i * BLOCK)) = base_byte truth m (offset + k)"
        and inside: "\<And>bytes. block = Some bytes \<Longrightarrow> i * BLOCK \<le> offset + k \<and> offset + k - i * BLOCK < length bytes"
        if "position - offset \<le> k" "k < limit - offset" for k
      proof -
        have "i * BLOCK \<le> offset + k" "offset + k < i * BLOCK + BLOCK" "offset + k < sz"
          using that lim "1.prems"(4,5) by linarith+
        then show "(case block of None \<Rightarrow> 0 | Some bytes \<Rightarrow> bytes ! (offset + k - i * BLOCK)) = base_byte truth m (offset + k)"
          and "\<And>bytes. block = Some bytes \<Longrightarrow> i * BLOCK \<le> offset + k \<and> offset + k - i * BLOCK < length bytes"
          using base_choice [OF "1.prems"(2,3) block] by auto
      qed
      note spec = copy_block_spec [OF "1.prems"(7), of block "position - offset" "limit - offset" i offset,
          OF inside, folded buffer'_def]
      have copy: "length buffer' = length buffer" using spec by blast
      have copied: "buffer' ! k = (if in_gaps k missing \<and> position \<le> offset + k \<and> offset + k < limit
           then base_byte truth m (offset + k) else buffer ! k)" if k: "k < length buffer" for k
      proof (cases "position - offset \<le> k \<and> k < limit - offset")
        case True
        then have "position \<le> offset + k" "offset + k < limit" by linarith+
        then show ?thesis using spec [of k] k choice [of k] True by simp
      next
        case False
        then have "\<not> (position \<le> offset + k \<and> offset + k < limit)" by linarith
        then show ?thesis using spec [of k] k False by auto
      qed
      have ih: "length out = length buffer' \<and> (\<forall>k < length buffer'. out ! k =
          (if in_gaps k missing \<and> limit \<le> offset + k then base_byte truth m (offset + k) else buffer' ! k))"
        unfolding buffer'_def
      proof (rule "1.IH"(1) [OF \<open>position < stop\<close> i_def limit_def refl refl needed block out "1.prems"(2-4)])
        show "offset \<le> limit" using lim(1) "1.prems"(5) by simp
      qed (use copy "1.prems"(6,7) in \<open>simp_all flip: buffer'_def\<close>)
      show ?thesis
      proof (intro conjI allI impI)
        show "length out = length buffer" using ih copy by simp
        fix k assume k: "k < length buffer"
        then show "out ! k = (if in_gaps k missing \<and> position \<le> offset + k
            then base_byte truth m (offset + k) else buffer ! k)"
          using ih copied [OF k] copy lim(1) by (cases "limit \<le> offset + k") simp_all
      qed
    qed
  qed
qed

section \<open>Reading\<close>

lemma lazy_check_ok: "lazy_check d offset n = Inr u \<Longrightarrow> n \<le> MAX_IO \<and> offset + n \<le> lz_size d"
  by (auto simp: lazy_check_def disk_range_def split: if_splits option.splits)

lemma overlapping_readable:
  assumes "disk_ok sr d log"
  shows "\<forall>r \<in> set (overlapping g start stop (lz_journal d)). readable sr d r"
  using overlapping_merges [of "lz_journal d" log g start stop] assms by (auto simp: disk_ok_def)

lemma fill_records_newest:
  assumes ok: "disk_ok sr d log"
  shows "\<exists>filled missing. fill_records sr d offset (length buffer)
        (overlapping g offset (offset + length buffer) (lz_journal d)) [(0, length buffer)] buffer
        = Inr (filled, missing)
    \<and> length filled = length buffer \<and> gaps_within (length buffer) missing
    \<and> (\<forall>k < length buffer. (in_gaps k missing \<longleftrightarrow> newest g (offset + k) log = None)
        \<and> (\<forall>r. newest g (offset + k) log = Some r \<longrightarrow>
             filled ! k = record_data sr d r ! (offset + k - jr_start r)))"
proof -
  let ?rs = "overlapping g offset (offset + length buffer) (lz_journal d)"
  have "gaps_within (length buffer) [(0, length buffer)]" by (simp add: gaps_within_def)
  from fill_records_spec [OF overlapping_readable [OF ok] this refl]
  obtain filled missing where run: "fill_records sr d offset (length buffer) ?rs [(0, length buffer)] buffer
      = Inr (filled, missing)" "length filled = length buffer" "gaps_within (length buffer) missing"
    and spec: "\<And>k. k < length buffer \<Longrightarrow>
      (in_gaps k missing \<longleftrightarrow> in_gaps k [(0, length buffer)] \<and> find (\<lambda>r. covers r (offset + k)) ?rs = None)
      \<and> filled ! k = (case (if in_gaps k [(0, length buffer)] then find (\<lambda>r. covers r (offset + k)) ?rs else None)
          of None \<Rightarrow> buffer ! k | Some r \<Rightarrow> record_data sr d r ! (offset + k - jr_start r))"
    by blast
  have "find (\<lambda>r. covers r (offset + k)) ?rs = newest g (offset + k) log" if "k < length buffer" for k
    using overlapping_newest [of "lz_journal d" log offset "offset + k" "offset + length buffer" g] ok that
    by (simp add: disk_ok_def)
  then have "(in_gaps k missing \<longleftrightarrow> newest g (offset + k) log = None)
        \<and> (\<forall>r. newest g (offset + k) log = Some r \<longrightarrow>
             filled ! k = record_data sr d r ! (offset + k - jr_start r))" if "k < length buffer" for k
    using spec [OF that] that by (auto simp: in_gaps_Cons)
  then show ?thesis using run by blast
qed

definition span :: "(nat \<Rightarrow> byte) \<Rightarrow> nat \<Rightarrow> nat \<Rightarrow> byte list" where
  "span f offset n = map f [offset ..< offset + n]"

lemma span_eqI: "length xs = n \<Longrightarrow> (\<And>k. k < n \<Longrightarrow> xs ! k = f (offset + k)) \<Longrightarrow> xs = span f offset n"
  by (auto simp: span_def intro!: nth_equalityI)

lemma read_generation_exact:
  assumes ok: "disk_ok sr d log" and honest: "honest sr truth"
    and run: "read_generation sr d g offset buffer = Inr out"
  shows "offset + length buffer \<le> lz_size d
    \<and> out = span (disk_byte sr truth d log g) offset (length buffer)"
proof -
  obtain u where check: "lazy_check d offset (length buffer) = Inr u"
    using run by (auto simp: read_generation_def Let_def split: sum.splits)
  note bound = lazy_check_ok [OF check]
  from fill_records_newest [OF ok, of offset buffer g] obtain filled missing where
    fill: "fill_records sr d offset (length buffer)
        (overlapping g offset (offset + length buffer) (lz_journal d)) [(0, length buffer)] buffer
        = Inr (filled, missing)" "length filled = length buffer" "gaps_within (length buffer) missing"
    and got: "\<And>k. k < length buffer \<Longrightarrow> in_gaps k missing \<longleftrightarrow> newest g (offset + k) log = None"
    and new: "\<And>k r. k < length buffer \<Longrightarrow> newest g (offset + k) log = Some r \<Longrightarrow>
      filled ! k = record_data sr d r ! (offset + k - jr_start r)"
    by blast
  show ?thesis
  proof (cases "buffer = [] \<or> missing = []")
    case True
    have "length out = length buffer \<and> (buffer \<noteq> [] \<longrightarrow> out = filled)"
      using run check fill True by (auto simp: read_generation_def Let_def split: if_splits)
    moreover have "filled ! k = disk_byte sr truth d log g (offset + k)" if "k < length buffer" for k
      using got [OF that] new [OF that] True that
      by (cases "newest g (offset + k) log") (auto simp: disk_byte_def)
    ultimately show ?thesis using bound by (intro conjI span_eqI) auto
  next
    case False
    have loop: "base_loop sr (lz_base d) offset (offset + length buffer) offset missing filled = Inr out"
      using run check fill(1) False by (simp add: read_generation_def Let_def)
    have val: "manifest_validate (lz_base d) = Inr (lz_size d)" using ok by (simp add: disk_ok_def)
    note base = base_loop_spec [OF loop honest val _ order_refl, unfolded fill(2), OF conjunct2 [OF bound] refl fill(3)]
    have "out ! k = disk_byte sr truth d log g (offset + k)" if k: "k < length buffer" for k
      using base got [OF k] new [OF k] k by (cases "newest g (offset + k) log") (simp_all add: disk_byte_def)
    then show ?thesis using base bound by (intro conjI span_eqI) auto
  qed
qed

text \<open>Reads succeed when every block the base names can be obtained from some source.\<close>

definition base_available :: "sources \<Rightarrow> manifest \<Rightarrow> bool" where
  "base_available sr m =
     (\<forall>i ex. extent_at m i = Some ex \<and> ex_hash ex \<noteq> Hash_Null \<longrightarrow> (\<exists>bytes. base_block sr ex = Inr bytes))"

lemma base_loop_available:
  assumes "base_available sr m"
  shows "\<exists>out. base_loop sr m offset stop position missing buffer = Inr out"
  using assms
proof (induction sr m offset stop position missing buffer rule: base_loop.induct)
  case (1 sr m offset stop position missing buffer)
  have "\<exists>block. (case extent_at m i of None \<Rightarrow> Inr None
      | Some ex \<Rightarrow> if ex_hash ex = Hash_Null then Inr None else map_sum id Some (base_block sr ex)) = Inr block" for i
    using "1.prems" by (fastforce simp: base_available_def split: option.split)
  then obtain block where "(case extent_at m (position div BLOCK) of None \<Rightarrow> Inr None
      | Some ex \<Rightarrow> if ex_hash ex = Hash_Null then Inr None else map_sum id Some (base_block sr ex)) = Inr block"
    by blast
  then show ?case
    using "1.IH" "1.prems" by (subst base_loop.simps) (auto simp: Let_def)
qed

lemma read_generation_available:
  assumes ok: "disk_ok sr d log" and "base_available sr (lz_base d)"
    and "lazy_check d offset (length buffer) = Inr u"
  shows "\<exists>out. read_generation sr d g offset buffer = Inr out"
  using fill_records_newest [OF ok, of offset buffer g] base_loop_available [OF assms(2)] assms(3)
  by (auto simp: read_generation_def Let_def)

end
