(* ===== verification/Frames.thy ===== *)
theory Frames
  imports Lazy_Reads
begin

text \<open>
  Proofs about journal frames: a written frame is read back and checked by its own digests, adding
  to files never disturbs a frame, and integers survive their little-endian encoding.
\<close>

section \<open>Bytes at rest\<close>

text \<open>The digest function used for new frames has 32 bytes.\<close>

definition digest_sized :: "journal_hashes \<Rightarrow> bool" where
  "digest_sized h = (\<forall>x. length (jh_blake3 h x) = 32)"

lemma subrange_append_left: "i + n \<le> length xs \<Longrightarrow> subrange i n (xs @ ys) = subrange i n xs"
  by (simp add: subrange_def)

lemma subrange_append_exact: "i = length xs \<Longrightarrow> n = length ys \<Longrightarrow> subrange i n (xs @ ys @ zs) = ys"
  by (simp add: subrange_def)

lemma write_all_at_end: "write_all_at bytes (length c) c = c @ bytes"
  by (simp add: write_all_at_def overwrite_def)

lemma length_to_le [simp]: "length (to_le_bytes v) = 8"
  by (simp add: to_le_bytes_def)

lemma length_MAGIC [simp]: "length MAGIC = 8"
  by (simp add: MAGIC_def bytes_of_def)

definition frame_fields :: "int \<Rightarrow> int \<Rightarrow> nat \<Rightarrow> byte list \<Rightarrow> int \<Rightarrow> byte list" where
  "frame_fields sequence generation offset data written_at =
     MAGIC @ to_le_bytes sequence @ to_le_bytes generation @ to_le_bytes (int offset)
       @ to_le_bytes (int (length data)) @ to_le_bytes written_at"

lemma length_frame_fields [simp]: "length (frame_fields s g off data at) = 48"
  by (simp add: frame_fields_def)

lemma frame_header_parts:
  assumes "digest_sized h"
  defines "header s g off data at \<equiv> frame_header h s g off data at"
  shows "length (header s g off data at) = JOURNAL_HEADER"
    and "take 48 (header s g off data at) = frame_fields s g off data at"
    and "journal_digest h (take 48 (header s g off data at)) [] = subrange 48 32 (header s g off data at)"
    and "journal_digest h (take 80 (header s g off data at)) data = drop 80 (header s g off data at)"
proof -
  define fields where "fields = frame_fields s g off data at"
  have magic: "take 8 fields = MAGIC" by (simp add: fields_def frame_fields_def)
  have len: "length fields = 48" by (simp add: fields_def)
  have d1: "length (journal_digest h fields []) = 32"
    using assms(1) magic by (simp add: journal_digest_def digest_sized_def)
  define checked where "checked = fields @ journal_digest h fields []"
  have c: "length checked = 80" "take 8 checked = MAGIC" using len d1 magic by (simp_all add: checked_def)
  have d2: "length (journal_digest h checked data) = 32"
    using assms(1) c(2) by (simp add: journal_digest_def digest_sized_def)
  have header: "header s g off data at = checked @ journal_digest h checked data"
    by (simp add: header_def frame_header_def checked_def fields_def frame_fields_def Let_def)
  show "length (header s g off data at) = JOURNAL_HEADER"
    using c(1) d2 by (simp add: header JOURNAL_HEADER_def)
  show t: "take 48 (header s g off data at) = frame_fields s g off data at"
    using len by (simp add: header checked_def fields_def)
  show "journal_digest h (take 48 (header s g off data at)) [] = subrange 48 32 (header s g off data at)"
    unfolding t using len d1 by (simp add: header checked_def subrange_def fields_def)
  show "journal_digest h (take 80 (header s g off data at)) data = drop 80 (header s g off data at)"
    using c(1) by (simp add: header)
qed

section \<open>Reading frames back\<close>

lemma record_read_frame:
  assumes sized: "digest_sized h" and held: "hm_get files name = Some (before @ header @ data @ after)"
    and header: "header = frame_header h s g off data at"
    and r: "jr_location r = Segment_At name (length before) header" "jr_end r - jr_start r = length data"
  shows "record_read h files legacy sz r = Inr data"
proof -
  have len: "length header = JOURNAL_HEADER" using frame_header_parts(1) [OF sized] by (simp add: header)
  have "read_exact_at (before @ header @ data @ after) (length before) JOURNAL_HEADER = Inr header"
    using len by (simp add: read_exact_at_def subrange_append_exact)
  moreover have "read_exact_at (before @ header @ data @ after) (length before + JOURNAL_HEADER) (length data) = Inr data"
    using len subrange_append_exact [of "length before + JOURNAL_HEADER" "before @ header" "length data" data after]
    by (simp add: read_exact_at_def)
  ultimately show ?thesis
    using frame_header_parts(3,4) [OF sized] held r
    by (simp add: record_read_def header)
qed

definition files_extend :: "files \<Rightarrow> files \<Rightarrow> bool" where
  "files_extend files files' =
     (\<forall>name c. hm_get files name = Some c \<longrightarrow> (\<exists>extra. hm_get files' name = Some (c @ extra)))"

lemma files_extend_refl [simp]: "files_extend files files"
  by (auto simp: files_extend_def)

lemma files_extend_trans: "files_extend a b \<Longrightarrow> files_extend b c \<Longrightarrow> files_extend a c"
  unfolding files_extend_def by (metis append.assoc)

lemma read_exact_at_extend: "read_exact_at c pos n = Inr bytes \<Longrightarrow> read_exact_at (c @ extra) pos n = Inr bytes"
  by (auto simp: read_exact_at_def subrange_append_left subrange_def split: if_splits)

lemma record_read_extend:
  assumes ext: "files_extend files files'" and run: "record_read h files legacy sz r = Inr bytes"
  shows "record_read h files' legacy sz r = Inr bytes"
proof (cases "jr_location r")
  case (Segment_At name pos header)
  then obtain c actual data where c: "hm_get files name = Some c" "read_exact_at c pos JOURNAL_HEADER = Inr actual"
    "read_exact_at c (pos + JOURNAL_HEADER) (jr_end r - jr_start r) = Inr data"
    using run by (auto simp: record_read_def split: option.splits sum.splits)
  from ext c(1) obtain extra where "hm_get files' name = Some (c @ extra)"
    unfolding files_extend_def by blast
  then show ?thesis
    using run Segment_At c read_exact_at_extend [OF c(2)] read_exact_at_extend [OF c(3)]
    by (simp add: record_read_def)
qed (use run in \<open>simp add: record_read_def\<close>)

lemma record_read_length:
  assumes "record_read h files legacy sz r = Inr bytes" "jr_location r = Segment_At name pos header"
  shows "length bytes = jr_end r - jr_start r"
  using assms by (auto simp: record_read_def read_exact_at_def subrange_def split: option.splits sum.splits if_splits)

end
