(* ===== verification/Lazy_Writes.thy ===== *)
theory Lazy_Writes
  imports Frames
begin

text \<open>
  The invariant of a lazy disk and its writes: an acknowledged write is exactly an overwrite of the
  disk's bytes, a failed one changes no byte, and neither disturbs what a sealed generation holds.
\<close>

section \<open>The invariant\<close>

definition segments_ok :: "journal \<Rightarrow> files \<Rightarrow> bool" where
  "segments_ok j files =
     (hm_ok files
      \<and> distinct (map sg_name (jn_segments j))
      \<and> (\<forall>s \<in> set (jn_segments j). hm_contains files (sg_name s) \<and> starts_with ''payload-'' (sg_name s)
           \<and> sg_generation s \<le> jn_generation j)
      \<and> (\<forall>q r name pos header. bt_get (jn_records j) q = Some r \<and> jr_location r = Segment_At name pos header \<longrightarrow>
           (\<exists>s \<in> set (jn_segments j). sg_name s = name \<and> sg_generation s = jr_generation r))
      \<and> (\<not> jn_failed j \<longrightarrow> (\<forall>i. jn_active j = Some i \<longrightarrow> i < length (jn_segments j)
           \<and> sg_generation (jn_segments j ! i) = jn_generation j
           \<and> (\<exists>c. hm_get files (sg_name (jn_segments j ! i)) = Some c
                \<and> length c = sg_length (jn_segments j ! i)))))"

definition log_ok :: "journal \<Rightarrow> jrecord list \<Rightarrow> bool" where
  "log_ok j log =
     ((\<forall>r \<in> set log. jr_sequence r < jn_next j \<and> jr_generation r \<le> jn_generation j)
      \<and> sorted_wrt (\<lambda>a b. jr_generation a \<le> jr_generation b) log
      \<and> jn_generation j \<le> i64_MAX)"

definition log_inside :: "nat \<Rightarrow> jrecord list \<Rightarrow> bool" where
  "log_inside sz log = (\<forall>r \<in> set log. jr_end r \<le> sz)"

definition lazy_ok :: "sources \<Rightarrow> lazy_disk \<Rightarrow> jrecord list \<Rightarrow> bool" where
  "lazy_ok sr d log =
     (disk_ok sr d log \<and> log_ok (lz_journal d) log
      \<and> segments_ok (lz_journal d) (so_files (lz_store d))
      \<and> log_inside (lz_size d) log
      \<and> lz_size d < u64_limit)"

lemma newest_append: "newest g p (log @ [r]) = (if visible g p r then Some r else newest g p log)"
  by (simp add: newest_def)

definition segment_key :: "segment \<Rightarrow> string \<times> int" where
  "segment_key s = (sg_name s, sg_generation s)"

lemma segments_ok_keys:
  "segments_ok j files \<longleftrightarrow>
     hm_ok files
     \<and> distinct (map fst (map segment_key (jn_segments j)))
     \<and> (\<forall>(n, g) \<in> set (map segment_key (jn_segments j)). hm_contains files n
          \<and> starts_with ''payload-'' n \<and> g \<le> jn_generation j)
     \<and> (\<forall>q r name pos header. bt_get (jn_records j) q = Some r \<and> jr_location r = Segment_At name pos header \<longrightarrow>
          (name, jr_generation r) \<in> set (map segment_key (jn_segments j)))
     \<and> (\<not> jn_failed j \<longrightarrow> (\<forall>i. jn_active j = Some i \<longrightarrow> i < length (jn_segments j)
           \<and> sg_generation (jn_segments j ! i) = jn_generation j
           \<and> (\<exists>c. hm_get files (sg_name (jn_segments j ! i)) = Some c
                \<and> length c = sg_length (jn_segments j ! i))))"
proof -
  have "map fst (map segment_key xs) = map sg_name xs" for xs
    by (simp add: segment_key_def)
  moreover have "(n, g) \<in> set (map segment_key xs) \<longleftrightarrow> (\<exists>s \<in> set xs. sg_name s = n \<and> sg_generation s = g)" for n g xs
    by (auto simp: segment_key_def)
  moreover have "(\<forall>(n, g) \<in> set (map segment_key xs). P n g) \<longleftrightarrow> (\<forall>s \<in> set xs. P (sg_name s) (sg_generation s))" for P xs
    by (auto simp: segment_key_def)
  ultimately show ?thesis by (simp only: segments_ok_def)
qed

section \<open>Appending a frame\<close>

lemma rotate_ok:
  assumes seg: "segments_ok j (so_files st)" and run: "rotate j st = Inr (j', st')"
  shows "segments_ok j' (so_files st') \<and> files_extend (so_files st) (so_files st')
    \<and> jn_active j' \<noteq> None \<and> jn_records j' = jn_records j \<and> jn_blocks j' = jn_blocks j
    \<and> jn_latest j' = jn_latest j \<and> jn_next j' = jn_next j \<and> jn_generation j' = jn_generation j
    \<and> jn_failed j' = jn_failed j \<and> so_legacy st' = so_legacy st"
proof -
  define name where "name = segment_name (jn_generation j) (jn_next j)"
  have fresh: "\<not> hm_contains (so_files st) name"
    and out: "j' = j\<lparr>jn_segments := jn_segments j @
        [\<lparr>sg_name = name, sg_generation = jn_generation j, sg_length = 0\<rparr>],
        jn_active := Some (length (jn_segments j))\<rparr>"
      "so_files st' = hm_insert name [] (so_files st)" "so_legacy st' = so_legacy st"
    using run by (auto simp: rotate_def Let_def name_def split: if_splits)
  have files: "hm_ok (so_files st)" using seg by (simp add: segments_ok_def)
  have get: "hm_get (so_files st') k = (if k = name then Some [] else hm_get (so_files st) k)" for k
    using files by (simp add: out(2) hm.get_ins)
  have new: "name \<notin> set (map sg_name (jn_segments j))"
    using seg fresh by (auto simp: segments_ok_def)
  have pay: "starts_with ''payload-'' name" by (simp add: name_def segment_name_def starts_with_def)
  have "segments_ok j' (so_files st')"
    unfolding segments_ok_def
  proof (intro conjI)
    show "hm_ok (so_files st')" using files by (simp add: out(2) hm.invar_ins)
    show "distinct (map sg_name (jn_segments j'))"
      using seg new by (auto simp: segments_ok_def out(1))
    show "\<forall>s \<in> set (jn_segments j'). hm_contains (so_files st') (sg_name s)
        \<and> starts_with ''payload-'' (sg_name s) \<and> sg_generation s \<le> jn_generation j'"
      using seg pay get by (auto simp: segments_ok_def out(1) hm_contains_def)
    show "\<forall>q r name pos header. bt_get (jn_records j') q = Some r \<and> jr_location r = Segment_At name pos header \<longrightarrow>
           (\<exists>s \<in> set (jn_segments j'). sg_name s = name \<and> sg_generation s = jr_generation r)"
      using seg by (auto simp: segments_ok_def out(1))
    show "\<not> jn_failed j' \<longrightarrow> (\<forall>i. jn_active j' = Some i \<longrightarrow> i < length (jn_segments j')
           \<and> sg_generation (jn_segments j' ! i) = jn_generation j'
           \<and> (\<exists>c. hm_get (so_files st') (sg_name (jn_segments j' ! i)) = Some c
                \<and> length c = sg_length (jn_segments j' ! i)))"
      using get by (simp add: out(1))
  qed
  moreover have "files_extend (so_files st) (so_files st')"
    using get fresh by (auto simp: files_extend_def hm_contains_def)
  ultimately show ?thesis using out by simp
qed

lemma index_ok_cong:
  "jn_records j' = jn_records j \<Longrightarrow> jn_blocks j' = jn_blocks j \<Longrightarrow> jn_latest j' = jn_latest j \<Longrightarrow>
     index_ok j' log = index_ok j log"
  by (simp add: index_ok_def)

text \<open>A frame that could not be written: nothing is indexed, and files only grow.\<close>

lemma append_frame_torn:
  assumes seg: "segments_ok j (so_files st)" and live: "\<not> jn_failed j" "jn_active j \<noteq> None"
    and run: "append_frame h now (Some n) offset data j st = (res, j', st')"
  shows "(\<exists>e. res = Inl e) \<and> j' = j\<lparr>jn_failed := True\<rparr> \<and> segments_ok j' (so_files st')
    \<and> files_extend (so_files st) (so_files st') \<and> so_legacy st' = so_legacy st \<and> so_db st' = so_db st"
proof -
  obtain i where i: "jn_active j = Some i" using live(2) by auto
  define s where "s = jn_segments j ! i"
  obtain c where c: "hm_get (so_files st) (sg_name s) = Some c" "length c = sg_length s"
    using seg live(1) i by (auto simp: segments_ok_def s_def)
  define part where "part = take n (frame_header h (jn_next j) (jn_generation j) offset data now @ data)"
  have files: "hm_ok (so_files st)" using seg by (simp add: segments_ok_def)
  have out: "res = Inl (Io_Other ''write failed'')" "j' = j\<lparr>jn_failed := True\<rparr>"
    "so_files st' = hm_insert (sg_name s) (c @ part) (so_files st)"
    "so_legacy st' = so_legacy st" "so_db st' = so_db st"
    using run i c write_all_at_end [of part c]
    by (auto simp: append_frame_def Let_def s_def part_def)
  have get: "hm_get (so_files st') k = (if k = sg_name s then Some (c @ part) else hm_get (so_files st) k)" for k
    using files by (simp add: out(3) hm.get_ins)
  have "segments_ok j' (so_files st')"
    using seg get files by (auto simp: segments_ok_def out(2,3) hm_contains_def hm.invar_ins)
  moreover have "files_extend (so_files st) (so_files st')"
    using get c by (auto simp: files_extend_def)
  ultimately show ?thesis using out by blast
qed

definition appended :: "journal_hashes \<Rightarrow> int \<Rightarrow> nat \<Rightarrow> byte list \<Rightarrow> journal \<Rightarrow> jrecord \<Rightarrow> bool" where
  "appended h now offset data j r =
     (jr_sequence r = jn_next j \<and> jr_generation r = jn_generation j \<and> jr_start r = offset
      \<and> jr_end r = offset + length data \<and> jr_written_at r = now
      \<and> (\<exists>name pos. jr_location r = Segment_At name pos
            (frame_header h (jn_next j) (jn_generation j) offset data now)))"

definition indexed_from :: "journal \<Rightarrow> jrecord \<Rightarrow> journal \<Rightarrow> bool" where
  "indexed_from j r j' =
     (\<forall>q x. bt_get (jn_records j') q = Some x \<longrightarrow> x = r \<or> bt_get (jn_records j) q = Some x)"

lemma append_frame_written:
  assumes seg: "segments_ok j (so_files st)" and live: "\<not> jn_failed j" "jn_active j \<noteq> None"
    and ok: "index_ok j log" "log_ok j log" and sized: "digest_sized h" and data: "data \<noteq> []"
    and run: "append_frame h now None offset data j st = (res, j', st')"
  shows "res = Inr (jn_next j) \<and> segments_ok j' (so_files st')
    \<and> files_extend (so_files st) (so_files st') \<and> so_legacy st' = so_legacy st \<and> so_db st' = so_db st
    \<and> jn_next j' = jn_next j + 1 \<and> jn_generation j' = jn_generation j
    \<and> (\<exists>r. appended h now offset data j r \<and> index_ok j' (log @ [r]) \<and> indexed_from j r j'
         \<and> record_read h (so_files st') (so_legacy st') sz r = Inr data)"
proof -
  obtain i where i: "jn_active j = Some i" using live(2) by auto
  define s where "s = jn_segments j ! i"
  obtain c where c: "hm_get (so_files st) (sg_name s) = Some c" "length c = sg_length s"
    and il: "i < length (jn_segments j)" and sgen: "sg_generation s = jn_generation j"
    using seg live(1) i by (auto simp: segments_ok_def s_def)
  define header where "header = frame_header h (jn_next j) (jn_generation j) offset data now"
  define r where "r = \<lparr>jr_sequence = jn_next j, jr_generation = jn_generation j, jr_start = offset,
    jr_end = offset + length data, jr_written_at = now, jr_location = Segment_At (sg_name s) (length c) header\<rparr>"
  define j1 where "j1 = j\<lparr>jn_segments := (jn_segments j)
      [i := s\<lparr>sg_length := length c + (JOURNAL_HEADER + length data)\<rparr>],
    jn_pending := hm_insert (sg_name s) (jn_next j) (jn_pending j),
    jn_journal_bytes := jn_journal_bytes j + (JOURNAL_HEADER + length data)\<rparr>"
  have out: "res = Inr (jn_next j)" "j' = (journal_insert r j1)\<lparr>jn_next := jn_next j + 1\<rparr>"
    "so_files st' = hm_insert (sg_name s) (c @ header @ data) (so_files st)"
    "so_legacy st' = so_legacy st" "so_db st' = so_db st"
    using run i c write_all_at_end [of "header @ data" c]
    by (auto simp: append_frame_def Let_def s_def header_def r_def j1_def)
  have files: "hm_ok (so_files st)" using seg by (simp add: segments_ok_def)
  have get: "hm_get (so_files st') k = (if k = sg_name s then Some (c @ header @ data) else hm_get (so_files st) k)" for k
    using files by (simp add: out(3) hm.get_ins)
  have ok1: "index_ok j1 log" using ok(1) by (simp add: j1_def cong: index_ok_cong)
  have new: "\<forall>x \<in> set log. jr_sequence x < jr_sequence r" using ok(2) by (simp add: log_ok_def r_def)
  have "index_ok (journal_insert r j1) (log @ [r])"
    using journal_insert_ok [OF ok1 new] data by (simp add: r_def)
  then have index: "index_ok j' (log @ [r])" by (simp add: out(2) cong: index_ok_cong)
  have read: "record_read h (so_files st') (so_legacy st') sz r = Inr data"
    by (rule record_read_frame [OF sized, where before = c and after = "[]" and name = "sg_name s" and header = header])
      (simp_all add: get header_def r_def)
  have segs: "jn_segments j' = (jn_segments j)[i := s\<lparr>sg_length := length c + (JOURNAL_HEADER + length data)\<rparr>]"
    "jn_active j' = Some i" "jn_failed j' = jn_failed j" "jn_generation j' = jn_generation j"
    by (simp_all add: out(2) journal_insert_def Let_def j1_def i)
  have keys: "map segment_key (jn_segments j') = map segment_key (jn_segments j)"
    using il by (simp add: segs(1) map_update s_def segment_key_def) (metis list_update_id nth_map segment_key_def)
  have old: "bt_get (jn_records j') q = Some x \<Longrightarrow> x = r \<or> bt_get (jn_records j) q = Some x" for q x
    using journal_insert_records(2) [OF ok1 new, of q] by (auto simp: out(2) j1_def split: if_splits)
  have "segments_ok j' (so_files st')"
    unfolding segments_ok_keys
  proof (intro conjI)
    show "hm_ok (so_files st')" using files by (simp add: out(3) hm.invar_ins)
    show "distinct (map fst (map segment_key (jn_segments j')))"
      using seg by (simp add: keys segments_ok_keys)
    show "\<forall>(n, g) \<in> set (map segment_key (jn_segments j')). hm_contains (so_files st') n
        \<and> starts_with ''payload-'' n \<and> g \<le> jn_generation j'"
      unfolding keys segs(4) using seg get by (fastforce simp: segments_ok_keys hm_contains_def)
    show "\<forall>q x name pos header. bt_get (jn_records j') q = Some x \<and> jr_location x = Segment_At name pos header \<longrightarrow>
        (name, jr_generation x) \<in> set (map segment_key (jn_segments j'))"
    proof (intro allI impI, elim conjE)
      fix q x name pos hdr
      assume x: "bt_get (jn_records j') q = Some x" "jr_location x = Segment_At name pos hdr"
      show "(name, jr_generation x) \<in> set (map segment_key (jn_segments j'))"
      proof (cases "x = r")
        case True
        then have "(name, jr_generation x) = segment_key (jn_segments j ! i)"
          using x(2) sgen by (simp add: r_def segment_key_def s_def)
        then show ?thesis unfolding keys using il by simp
      next
        case False
        then show ?thesis using old [OF x(1)] seg x(2) unfolding keys segments_ok_keys by blast
      qed
    qed
    show "\<not> jn_failed j' \<longrightarrow> (\<forall>i. jn_active j' = Some i \<longrightarrow> i < length (jn_segments j')
           \<and> sg_generation (jn_segments j' ! i) = jn_generation j'
           \<and> (\<exists>c. hm_get (so_files st') (sg_name (jn_segments j' ! i)) = Some c
                \<and> length c = sg_length (jn_segments j' ! i)))"
      using il get sgen frame_header_parts(1) [OF sized] by (simp add: segs header_def)
  qed
  moreover have "files_extend (so_files st) (so_files st')"
    using get c by (auto simp: files_extend_def)
  moreover have "appended h now offset data j r"
    by (simp add: appended_def r_def header_def)
  moreover have "indexed_from j r j'" using old by (simp add: indexed_from_def)
  ultimately show ?thesis
    using out index read segs(4) by auto
qed

text \<open>What an append does, written or not.\<close>

definition append_effect ::
  "journal_hashes \<Rightarrow> int \<Rightarrow> nat \<Rightarrow> byte list \<Rightarrow> nat \<Rightarrow> jrecord list \<Rightarrow> journal \<Rightarrow> (io_error, int) result \<Rightarrow>
   journal \<Rightarrow> store \<Rightarrow> bool" where
  "append_effect h now offset data sz log j res j' st' =
     (case res of
        Inl _ \<Rightarrow> index_ok j' log \<and> log_ok j' log \<and> jn_records j' = jn_records j
      | Inr q \<Rightarrow> q = jn_next j \<and> jn_next j' = jn_next j + 1
          \<and> (\<exists>r. appended h now offset data j r \<and> index_ok j' (log @ [r]) \<and> log_ok j' (log @ [r])
               \<and> indexed_from j r j'
               \<and> record_read h (so_files st') (so_legacy st') sz r = Inr data))"

definition store_kept :: "store \<Rightarrow> store \<Rightarrow> bool" where
  "store_kept st st' =
     (files_extend (so_files st) (so_files st') \<and> so_legacy st' = so_legacy st
      \<and> db_manifest (so_db st') = db_manifest (so_db st)
      \<and> db_generation (so_db st') = db_generation (so_db st)
      \<and> db_sealed (so_db st') = db_sealed (so_db st)
      \<and> db_published (so_db st') = db_published (so_db st))"

lemma store_kept_refl [simp]: "store_kept st st"
  by (simp add: store_kept_def)

lemma store_kept_trans: "store_kept a b \<Longrightarrow> store_kept b c \<Longrightarrow> store_kept a c"
  using files_extend_trans by (auto simp: store_kept_def)

lemma log_ok_append:
  assumes "log_ok j log" "appended h now offset data j r" "jn_next j' = jn_next j + 1"
    "jn_generation j' = jn_generation j"
  shows "log_ok j' (log @ [r])"
  using assms by (auto simp: log_ok_def appended_def sorted_wrt_append)

lemma append_frame_ok:
  assumes seg: "segments_ok j (so_files st)" and live: "\<not> jn_failed j" "jn_active j \<noteq> None"
    and ok: "index_ok j log" "log_ok j log" and sized: "digest_sized h" and data: "data \<noteq> []"
    and run: "append_frame h now torn offset data j st = (res, j', st')"
  shows "segments_ok j' (so_files st') \<and> store_kept st st' \<and> jn_generation j' = jn_generation j
    \<and> append_effect h now offset data sz log j res j' st'"
proof (cases torn)
  case None
  then show ?thesis
    using append_frame_written [OF seg live ok sized data run [unfolded None], where sz = sz]
      log_ok_append [OF ok(2)]
    by (auto simp: append_effect_def store_kept_def)
next
  case (Some n)
  then show ?thesis
    using append_frame_torn [OF seg live run [unfolded Some]] ok
    by (auto simp: append_effect_def store_kept_def log_ok_def cong: index_ok_cong)
qed

lemma append_ok:
  assumes seg: "segments_ok j (so_files st)"
    and ok: "index_ok j log" "log_ok j log" and sized: "digest_sized h" and data: "data \<noteq> []"
    and run: "append h now torn offset data j st = (res, j', st')"
  shows "segments_ok j' (so_files st') \<and> store_kept st st' \<and> jn_generation j' = jn_generation j
    \<and> append_effect h now offset data sz log j res j' st'"
proof (cases "jn_failed j \<or> checked_add_i64 (jn_next j) 1 = None")
  case True
  then show ?thesis using run seg ok by (auto simp: append_def append_effect_def split: if_splits)
next
  case False
  show ?thesis
  proof (cases "needs_rotation (length data) j")
    case stay: False
    then have "jn_active j \<noteq> None" by (auto simp: needs_rotation_def split: option.splits)
    moreover have "append_frame h now torn offset data j st = (res, j', st')"
      using run False stay by (auto simp: append_def)
    ultimately show ?thesis
      using append_frame_ok [OF seg _ _ ok sized data] False by blast
  next
    case turn: True
    show ?thesis
    proof (cases "rotate j st")
      case (Inl e)
      then show ?thesis using run False turn seg ok by (auto simp: append_def append_effect_def)
    next
      case (Inr p)
      obtain j1 st1 where p: "p = (j1, st1)" by force
      have run1: "append_frame h now torn offset data j1 st1 = (res, j', st')"
        using run False turn Inr p by (auto simp: append_def)
      note rot = rotate_ok [OF seg Inr [unfolded p]]
      have kept: "store_kept st st1"
        using rot Inr p by (auto simp: store_kept_def rotate_def Let_def split: if_splits)
      have "index_ok j1 log" "log_ok j1 log"
        using rot ok by (auto simp: log_ok_def cong: index_ok_cong)
      from append_frame_ok [OF _ _ _ this sized data run1, where sz = sz] rot False
      have "segments_ok j' (so_files st') \<and> store_kept st1 st' \<and> jn_generation j' = jn_generation j1
        \<and> append_effect h now offset data sz log j1 res j' st'" by simp
      then show ?thesis
        using rot store_kept_trans [OF kept] by (auto simp: append_effect_def appended_def indexed_from_def split: sum.splits)
    qed
  qed
qed

section \<open>Bytes of a disk across an append\<close>

lemma readable_extend:
  assumes "readable sr d r" "store_kept (lz_store d) (lz_store d')" "lz_size d' = lz_size d"
  shows "readable sr d' r \<and> record_data sr d' r = record_data sr d r"
proof -
  have "cached_record sr d r = Inr (record_data sr d r)" using assms(1) by (simp add: readable_def)
  then have "cached_record sr d' r = Inr (record_data sr d r)"
    using record_read_extend [of "so_files (lz_store d)" "so_files (lz_store d')"] assms(2,3)
    by (auto simp: cached_record_def store_kept_def)
  then show ?thesis using assms(1) by (simp add: readable_def record_data_def)
qed

lemma disk_byte_extend:
  assumes ok: "disk_ok sr d log" and "store_kept (lz_store d) (lz_store d')" "lz_size d' = lz_size d"
    "lz_base d' = lz_base d"
  shows "disk_byte sr truth d' log g p = disk_byte sr truth d log g p"
proof (cases "newest g p log")
  case (Some r)
  then have "readable sr d r" using ok newest_indexed [of "lz_journal d" log g p r] by (auto simp: disk_ok_def)
  then show ?thesis using readable_extend [OF _ assms(2,3)] Some by (simp add: disk_byte_def)
qed (use assms(4) in \<open>simp add: disk_byte_def\<close>)

lemma lazy_append:
  assumes ok: "lazy_ok sr d log" and sized: "digest_sized (sr_journal sr)" and data: "data \<noteq> []"
    and inside: "offset + length data \<le> lz_size d"
    and run: "append (sr_journal sr) now torn offset data (lz_journal d) (lz_store d) = (res, j', st')"
  defines "d' \<equiv> d\<lparr>lz_journal := j', lz_store := st'\<rparr>"
  shows "store_kept (lz_store d) st' \<and> jn_generation j' = jn_generation (lz_journal d) \<and>
    (case res of
       Inl e \<Rightarrow> lazy_ok sr d' log \<and> (\<forall>g p. disk_byte sr truth d' log g p = disk_byte sr truth d log g p)
     | Inr q \<Rightarrow> q = jn_next (lz_journal d) \<and> jn_next j' = jn_next (lz_journal d) + 1 \<and>
        (\<exists>r. lazy_ok sr d' (log @ [r]) \<and> (\<forall>g p. disk_byte sr truth d' (log @ [r]) g p =
          (if jn_generation (lz_journal d) \<le> g \<and> offset \<le> p \<and> p < offset + length data
           then data ! (p - offset) else disk_byte sr truth d log g p))))"
proof -
  have disk: "disk_ok sr d log" and seg: "segments_ok (lz_journal d) (so_files (lz_store d))"
    and log: "index_ok (lz_journal d) log" "log_ok (lz_journal d) log" and sz: "lz_size d < u64_limit" "log_inside (lz_size d) log"
    using ok by (auto simp: lazy_ok_def disk_ok_def)
  note app = append_ok [OF seg log sized data run, where sz = "lz_size d"]
  have kept: "store_kept (lz_store d) (lz_store d')" using app by (simp add: d'_def)
  have same: "lz_size d' = lz_size d" "lz_base d' = lz_base d" "lz_journal d' = j'" "lz_store d' = st'"
    by (simp_all add: d'_def)
  have byte: "disk_byte sr truth d' log g p = disk_byte sr truth d log g p" for g p
    by (rule disk_byte_extend [OF disk kept same(1,2)])
  show ?thesis
  proof (cases res)
    case (Inl e)
    then have eff: "index_ok j' log" "log_ok j' log" "jn_records j' = jn_records (lz_journal d)"
      using app by (auto simp: append_effect_def)
    have "readable sr d' r" if "bt_get (jn_records j') (jr_sequence r) = Some r" for r
      using readable_extend [OF _ kept same(1)] that disk eff(3) by (auto simp: disk_ok_def)
    then have "lazy_ok sr d' log"
      using eff app disk sz by (simp add: lazy_ok_def disk_ok_def same)
    then show ?thesis using byte Inl app by simp
  next
    case (Inr q)
    then obtain r where r: "appended (sr_journal sr) now offset data (lz_journal d) r"
      and eff: "index_ok j' (log @ [r])" "log_ok j' (log @ [r])" "indexed_from (lz_journal d) r j'"
      and read: "record_read (sr_journal sr) (so_files st') (so_legacy st') (lz_size d) r = Inr data"
      and q: "q = jn_next (lz_journal d)" "jn_next j' = jn_next (lz_journal d) + 1"
      using app by (auto simp: append_effect_def)
    have new: "cached_record sr d' r = Inr data" "record_data sr d' r = data"
      using read by (simp_all add: cached_record_def record_data_def same)
    have "readable sr d' r" using new r by (simp add: readable_def appended_def)
    then have "readable sr d' x" if "bt_get (jn_records j') (jr_sequence x) = Some x" for x
      using that eff(3) readable_extend [OF _ kept same(1), of sr x] disk
      unfolding indexed_from_def disk_ok_def by blast
    moreover have "log_inside (lz_size d) (log @ [r])"
      using sz(2) r inside by (auto simp: log_inside_def appended_def)
    ultimately have "lazy_ok sr d' (log @ [r])"
      using eff app disk sz by (simp add: lazy_ok_def disk_ok_def same)
    moreover have "disk_byte sr truth d' (log @ [r]) g p =
        (if jn_generation (lz_journal d) \<le> g \<and> offset \<le> p \<and> p < offset + length data
         then data ! (p - offset) else disk_byte sr truth d log g p)" for g p
      using byte [of g p] new(2) r
      by (auto simp: disk_byte_def newest_append visible_def covers_def appended_def)
    ultimately show ?thesis using Inr q app by auto
  qed
qed

section \<open>Batches\<close>

definition poke :: "disk_write \<Rightarrow> (nat \<Rightarrow> byte) \<Rightarrow> nat \<Rightarrow> byte" where
  "poke w f p =
     (if dw_offset w \<le> p \<and> p < dw_offset w + length (dw_bytes w) then dw_bytes w ! (p - dw_offset w) else f p)"

lemma poke_empty [simp]: "dw_bytes w = [] \<Longrightarrow> poke w f = f"
  by (auto simp: poke_def fun_eq_iff)

text \<open>
  Between two states of a disk only the given writes were made, in the open generation: nothing
  else of the disk is different, and sealed generations keep their bytes.
\<close>

definition wrote ::
  "sources \<Rightarrow> (string \<Rightarrow> byte list) \<Rightarrow> disk_write list \<Rightarrow> lazy_disk \<Rightarrow> jrecord list \<Rightarrow> lazy_disk \<Rightarrow> jrecord list \<Rightarrow> bool" where
  "wrote sr truth ws d log d' log' =
     (lazy_ok sr d' log' \<and> store_kept (lz_store d) (lz_store d')
      \<and> lz_size d' = lz_size d \<and> lz_base d' = lz_base d
      \<and> jn_generation (lz_journal d') = jn_generation (lz_journal d)
      \<and> (\<forall>g. disk_byte sr truth d' log' g =
           (if jn_generation (lz_journal d) \<le> g then fold poke ws (disk_byte sr truth d log g)
            else disk_byte sr truth d log g)))"

lemma wrote_refl: "lazy_ok sr d log \<Longrightarrow> wrote sr truth [] d log d log"
  by (simp add: wrote_def)

lemma wrote_trans:
  assumes "wrote sr truth ws d log d1 log1" "wrote sr truth vs d1 log1 d2 log2"
  shows "wrote sr truth (ws @ vs) d log d2 log2"
  using assms store_kept_trans by (fastforce simp: wrote_def)

lemma lazy_ok_journal:
  assumes ok: "lazy_ok sr d log" and d': "lz_size d' = lz_size d" "lz_base d' = lz_base d" "lz_store d' = lz_store d"
    and j': "jn_records (lz_journal d') = jn_records (lz_journal d)" "jn_blocks (lz_journal d') = jn_blocks (lz_journal d)"
      "jn_latest (lz_journal d') = jn_latest (lz_journal d)" "jn_segments (lz_journal d') = jn_segments (lz_journal d)"
      "jn_active (lz_journal d') = jn_active (lz_journal d)" "jn_generation (lz_journal d') = jn_generation (lz_journal d)"
      "jn_next (lz_journal d') = jn_next (lz_journal d)" "jn_failed (lz_journal d) \<Longrightarrow> jn_failed (lz_journal d')"
  shows "wrote sr truth [] d log d' log"
proof -
  have "record_data sr d' r = record_data sr d r" "readable sr d' r = readable sr d r" for r
    by (simp_all add: readable_def record_data_def cached_record_def d')
  then have "disk_byte sr truth d' log g = disk_byte sr truth d log g" for g
    by (auto simp: disk_byte_def d' fun_eq_iff split: option.split)
  moreover have "lazy_ok sr d' log"
    using ok \<open>\<And>r. readable sr d' r = readable sr d r\<close> index_ok_cong [OF j'(1-3)]
    by (auto simp: lazy_ok_def disk_ok_def log_ok_def segments_ok_def d' j')
  ultimately show ?thesis by (simp add: wrote_def d' j')
qed

lemma append_all_ok:
  assumes ok: "lazy_ok sr d log" and sized: "digest_sized (sr_journal sr)"
    and bound: "in_bounds ws (lz_size d)"
    and run: "append_all (sr_journal sr) io ws n d = (res, d')"
  shows "\<exists>k log'. wrote sr truth (take k ws) d log d' log' \<and> (\<forall>q. res = Inr q \<longrightarrow> k = length ws)"
  using ok run bound
proof (induction ws arbitrary: n d log)
  case Nil
  then show ?case using wrote_refl by fastforce
next
  case (Cons w ws)
  show ?case
  proof (cases "dw_bytes w = []")
    case True
    then have "append_all (sr_journal sr) io ws n d = (res, d')" using Cons.prems(2) by simp
    from Cons.IH [OF Cons.prems(1) this] Cons.prems(3) obtain k log' where
      "wrote sr truth (take k ws) d log d' log'" "\<forall>q. res = Inr q \<longrightarrow> k = length ws"
      by (auto simp: in_bounds_def)
    then show ?thesis
      using True by (intro exI [of _ "Suc k"] exI [of _ log']) (simp add: wrote_def)
  next
    case False
    obtain r1 j1 st1 where app: "append (sr_journal sr) (io_now io) (io_torn io) (dw_offset w) (dw_bytes w)
        (lz_journal d) (lz_store d) = (r1, j1, st1)" by (metis prod_cases3)
    define d1 where "d1 = d\<lparr>lz_journal := j1, lz_store := st1\<rparr>"
    have "dw_offset w + length (dw_bytes w) \<le> lz_size d" using Cons.prems(3) by (simp add: in_bounds_def)
    note one = lazy_append [OF Cons.prems(1) sized False this app, where truth = truth, folded d1_def]
    have same: "lz_size d1 = lz_size d" "lz_base d1 = lz_base d" "lz_journal d1 = j1" "lz_store d1 = st1"
      by (simp_all add: d1_def)
    show ?thesis
    proof (cases r1)
      case (Inl e)
      then have "wrote sr truth [] d log d1 log"
        using one same by (auto simp: wrote_def)
      moreover have "wrote sr truth [] d1 log d' log"
        using one Inl Cons.prems(2) False app
        by (intro lazy_ok_journal) (auto simp: d1_def journal_fail_def)
      ultimately have "wrote sr truth [] d log d' log" using wrote_trans by fastforce
      then show ?thesis using Cons.prems(2) False app Inl by (intro exI [of _ 0] exI [of _ log]) auto
    next
      case (Inr q)
      then obtain r where r: "lazy_ok sr d1 (log @ [r])"
        and bytes: "\<And>g p. disk_byte sr truth d1 (log @ [r]) g p =
          (if jn_generation (lz_journal d) \<le> g \<and> dw_offset w \<le> p \<and> p < dw_offset w + length (dw_bytes w)
           then dw_bytes w ! (p - dw_offset w) else disk_byte sr truth d log g p)"
        using one by auto
      have first: "wrote sr truth [w] d log d1 (log @ [r])"
        using one same r bytes by (auto simp: wrote_def poke_def fun_eq_iff)
      have "append_all (sr_journal sr) io ws (Some q) d1 = (res, d')"
        using Cons.prems(2) False app Inr by (simp add: d1_def)
      from Cons.IH [OF r this] Cons.prems(3) obtain k log' where
        "wrote sr truth (take k ws) d1 (log @ [r]) d' log'" "\<forall>q. res = Inr q \<longrightarrow> k = length ws"
        by (auto simp: in_bounds_def same)
      with wrote_trans [OF first] show ?thesis
        by (intro exI [of _ "Suc k"] exI [of _ log']) auto
    qed
  qed
qed

lemma commit_write_ok:
  assumes ok: "lazy_ok sr d log" and run: "commit_write io q d = (res, d')"
  shows "wrote sr truth [] d log d' log"
  using run
  by (intro lazy_ok_journal [OF ok])
    (auto simp: commit_write_def journal_committed_def journal_fail_def check_health_def
      split: sum.splits option.splits if_splits)

lemma check_writes_ok: "check_writes d ws tot = Inr n \<Longrightarrow> in_bounds ws (lz_size d) \<and> n = tot + sum_list (map (length \<circ> dw_bytes) ws)"
proof (induction ws arbitrary: tot)
  case (Cons w ws)
  then obtain u where "lazy_check d (dw_offset w) (length (dw_bytes w)) = Inr u"
    "check_writes d ws (tot + length (dw_bytes w)) = Inr n"
    by (auto split: sum.splits if_splits)
  with Cons.IH [of "tot + length (dw_bytes w)"] lazy_check_ok [of d "dw_offset w" "length (dw_bytes w)" u]
  show ?case by (simp add: in_bounds_def)
qed (simp add: in_bounds_def)

lemma append_writes_ok:
  assumes ok: "lazy_ok sr d log" and sized: "digest_sized (sr_journal sr)"
    and run: "append_writes sr io ws d = (res, d')"
  shows "\<exists>k log'. wrote sr truth (take k ws) d log d' log'
    \<and> (\<forall>u. res = Inr u \<longrightarrow> k = length ws \<and> in_bounds ws (lz_size d))
    \<and> (k = 0 \<or> in_bounds ws (lz_size d))"
proof (cases "128 < length ws \<or> (\<exists>e. check_writes d ws 0 = Inl e)")
  case True
  then have "d' = d" "\<exists>e. res = Inl e" using run by (auto simp: append_writes_def split: if_splits)
  then show ?thesis using wrote_refl [OF ok] by (intro exI [of _ 0] exI [of _ log]) auto
next
  case False
  then obtain tot where tot: "check_writes d ws 0 = Inr tot" by (cases "check_writes d ws 0") auto
  note bounds = check_writes_ok [OF tot]
  show ?thesis
  proof (cases "tot = 0")
    case True
    then have empty: "\<forall>w \<in> set ws. dw_bytes w = []" using bounds by auto
    then have "fold poke ws f = f" for f by (induction ws) auto
    then have "wrote sr truth (take (length ws) ws) d log d log" using ok by (simp add: wrote_def)
    moreover have "d' = d" using run False tot True by (auto simp: append_writes_def)
    ultimately show ?thesis using bounds by blast
  next
    case nonempty: False
    obtain r1 d1 where app: "append_all (sr_journal sr) io ws None d = (r1, d1)" by force
    from append_all_ok [OF ok sized conjunct1 [OF bounds] app] obtain k log' where w: "wrote sr truth (take k ws) d log d1 log'"
      "\<forall>q. r1 = Inr q \<longrightarrow> k = length ws" by blast
    show ?thesis
    proof (cases r1)
      case (Inl e)
      then have "d' = d1" "res = Inl e" using run False tot nonempty app by (auto simp: append_writes_def)
      then show ?thesis using w bounds by blast
    next
      case (Inr q)
      then have commit: "commit_write io (the q) (update_accounting d1) = (res, d')"
        using run False tot nonempty app by (auto simp: append_writes_def)
      have "wrote sr truth [] d1 log' (update_accounting d1) log'"
        using w(1) by (intro lazy_ok_journal) (auto simp: wrote_def update_accounting_def Let_def)
      moreover from this have "wrote sr truth [] (update_accounting d1) log' d' log'"
        using commit_write_ok [OF _ commit] unfolding wrote_def by blast
      ultimately have "wrote sr truth (take k ws) d log d' log'"
        using wrote_trans [OF w(1)] wrote_trans by fastforce
      then show ?thesis using w(2) Inr bounds by blast
    qed
  qed
qed

lemma lazy_write_batch_ok:
  assumes "lazy_ok sr d log" "digest_sized (sr_journal sr)" "lazy_write_batch sr io ws d = (res, d')"
  shows "\<exists>k log'. wrote sr truth (take k ws) d log d' log'
    \<and> (\<forall>u. res = Inr u \<longrightarrow> k = length ws \<and> in_bounds ws (lz_size d))
    \<and> (k = 0 \<or> in_bounds ws (lz_size d))"
proof (cases "128 < length ws")
  case True
  then have "d' = d" "\<exists>e. res = Inl e" using assms(3) by (auto simp: lazy_write_batch_def)
  then show ?thesis using wrote_refl [OF assms(1)] by (intro exI [of _ 0] exI [of _ log]) auto
next
  case False
  have "append_writes sr io ws d = (res, d')"
  proof (cases "length ws = 1")
    case True
    then obtain w where "ws = [w]" by (cases ws) auto
    then show ?thesis using assms(3) by (cases w) (simp add: lazy_write_batch_def lazy_write_at_def)
  qed (use False assms(3) in \<open>auto simp: lazy_write_batch_def\<close>)
  then show ?thesis by (rule append_writes_ok [OF assms(1,2)])
qed

section \<open>The contract of a disk\<close>

definition journal_log :: "lazy_disk \<Rightarrow> jrecord list" where
  "journal_log d = map snd (jn_records (lz_journal d))"

text \<open>The compaction of exact overwrites is invisible.\<close>

lemma newest_compact:
  assumes ok: "index_ok j log"
  shows "newest g p (map snd (jn_records j)) = newest g p log"
proof -
  let ?log = "map snd (jn_records j)"
  have entries: "(q, r) \<in> set (jn_records j) \<longleftrightarrow> bt_get (jn_records j) q = Some r" for q r
    using bt.set_entries [OF index_okD(6) [OF ok]] by simp
  have key: "(q, r) \<in> set (jn_records j) \<Longrightarrow> jr_sequence r = q" for q r
    using entries index_okD(4) [OF ok] by blast
  have mem: "r \<in> set ?log \<longleftrightarrow> bt_get (jn_records j) (jr_sequence r) = Some r" for r
  proof -
    have "r \<in> set ?log \<longleftrightarrow> (\<exists>q. (q, r) \<in> set (jn_records j))" by force
    also have "\<dots> \<longleftrightarrow> (jr_sequence r, r) \<in> set (jn_records j)" using key by blast
    finally show ?thesis by (simp add: entries)
  qed
  have asc: "ascending ?log"
  proof -
    have "map fst (jn_records j) = map jr_sequence ?log"
      using key by (auto simp: case_prod_unfold)
    moreover have "sorted_wrt (<) (map fst (jn_records j))"
      using index_okD(6) [OF ok] by (simp add: bt_ok_def strict_sorted_iff)
    ultimately show ?thesis by (simp only: sorted_wrt_map)
  qed
  show ?thesis
  proof (cases "newest g p log")
    case None
    have "r \<in> set log" if "r \<in> set ?log" for r
      using that mem index_okD(4) [OF ok] by blast
    then show ?thesis using None newest_None by metis
  next
    case (Some r)
    note r = newest_Some [OF Some index_okD(8) [OF ok]] and idx = newest_indexed [OF ok Some]
    have "newest g p ?log = Some r"
      unfolding newest_def
    proof (rule find_rev_Some [OF asc])
      show "r \<in> set ?log" using idx mem by blast
      show "visible g p r" using r by blast
      show "\<forall>x \<in> set ?log. visible g p x \<longrightarrow> jr_sequence x \<le> jr_sequence r"
        using r mem index_okD(4) [OF ok] by blast
    qed
    then show ?thesis using Some by simp
  qed
qed

lemma disk_byte_compact:
  "disk_ok sr d log \<Longrightarrow> disk_byte sr truth d (journal_log d) g = disk_byte sr truth d log g"
  by (auto simp: disk_byte_def disk_ok_def journal_log_def newest_compact fun_eq_iff)

definition lazy_contents :: "sources \<Rightarrow> (string \<Rightarrow> byte list) \<Rightarrow> int \<Rightarrow> lazy_disk \<Rightarrow> byte list" where
  "lazy_contents sr truth g d = span (disk_byte sr truth d (journal_log d) g) 0 (lz_size d)"

definition lazy_invar :: "sources \<Rightarrow> (string \<Rightarrow> byte list) \<Rightarrow> lazy_disk \<Rightarrow> bool" where
  "lazy_invar sr truth d = (honest sr truth \<and> digest_sized (sr_journal sr) \<and> (\<exists>log. lazy_ok sr d log))"

lemma length_lazy_contents [simp]: "length (lazy_contents sr truth g d) = lz_size d"
  by (simp add: lazy_contents_def span_def)

lemma lazy_contents_log:
  "lazy_ok sr d log \<Longrightarrow> lazy_contents sr truth g d = span (disk_byte sr truth d log g) 0 (lz_size d)"
  using disk_byte_compact [of sr d log] by (simp add: lazy_contents_def lazy_ok_def)

lemma length_span [simp]: "length (span f i n) = n"
  by (simp add: span_def)

lemma subrange_span: "offset + n \<le> m \<Longrightarrow> subrange offset n (span f 0 m) = span f offset n"
  by (auto simp: span_def subrange_def intro!: nth_equalityI)

lemma overwrite_span:
  "dw_offset w + length (dw_bytes w) \<le> m \<Longrightarrow> overwrite (dw_offset w) (dw_bytes w) (span f 0 m) = span (poke w f) 0 m"
  by (rule nth_equalityI) (auto simp: span_def nth_overwrite poke_def)

lemma apply_writes_span: "in_bounds ws m \<Longrightarrow> apply_writes ws (span f 0 m) = span (fold poke ws f) 0 m"
  by (induction ws arbitrary: f) (auto simp: in_bounds_def overwrite_span)

lemma wrote_contents:
  assumes ok: "lazy_ok sr d log" and w: "wrote sr truth ws d log d' log'" and b: "in_bounds ws (lz_size d)"
  shows "lazy_contents sr truth g d' =
    (if jn_generation (lz_journal d) \<le> g then apply_writes ws (lazy_contents sr truth g d)
     else lazy_contents sr truth g d)"
  using w b lazy_contents_log [OF ok, of truth g] lazy_contents_log [of sr d' log' truth g]
  by (simp add: wrote_def apply_writes_span)

lemma lazy_generation_bound: "lazy_ok sr d log \<Longrightarrow> jn_generation (lz_journal d) \<le> i64_MAX"
  by (simp add: lazy_ok_def log_ok_def)

interpretation lazy: disk_contract "lazy_ops sr io" "lazy_contents sr truth i64_MAX" "lazy_invar sr truth"
  for sr io truth
proof unfold_locales
  fix s
  assume "lazy_invar sr truth s"
  then show "op_size (lazy_ops sr io) s = length (lazy_contents sr truth i64_MAX s)"
    and "length (lazy_contents sr truth i64_MAX s) < u64_limit"
    by (auto simp: lazy_ops_def lazy_invar_def lazy_ok_def)
next
  fix s offset len bytes
  assume "lazy_invar sr truth s" and run: "op_read_at (lazy_ops sr io) offset len s = Inr bytes"
  then obtain log where ok: "lazy_ok sr s log" "honest sr truth" by (auto simp: lazy_invar_def)
  have "read_generation sr s i64_MAX offset (replicate len 0) = Inr bytes"
    using run by (simp add: lazy_ops_def lazy_read_at_def)
  from read_generation_exact [OF _ ok(2) this, of log] ok(1) lazy_contents_log [OF ok(1)]
  show "offset + len \<le> length (lazy_contents sr truth i64_MAX s)
      \<and> bytes = subrange offset len (lazy_contents sr truth i64_MAX s)"
    by (auto simp: lazy_ok_def subrange_span)
next
  fix s writes s'
  assume inv: "lazy_invar sr truth s" and run: "op_write_batch (lazy_ops sr io) writes s = (Inr (), s')"
  then obtain log where ok: "lazy_ok sr s log" "digest_sized (sr_journal sr)" by (auto simp: lazy_invar_def)
  from lazy_write_batch_ok [OF ok, of io writes "Inr ()" s' truth] run obtain log'
    where "wrote sr truth writes s log s' log'" "in_bounds writes (lz_size s)"
    by (auto simp: lazy_ops_def)
  then show "lazy_invar sr truth s' \<and> in_bounds writes (length (lazy_contents sr truth i64_MAX s))
      \<and> lazy_contents sr truth i64_MAX s' = apply_writes writes (lazy_contents sr truth i64_MAX s)"
    using wrote_contents [OF ok(1)] lazy_generation_bound [OF ok(1)] inv
    by (auto simp: lazy_invar_def wrote_def)
next
  fix s offset bytes s'
  assume inv: "lazy_invar sr truth s" and run: "op_write_at (lazy_ops sr io) offset bytes s = (Inr (), s')"
  then obtain log where ok: "lazy_ok sr s log" "digest_sized (sr_journal sr)" by (auto simp: lazy_invar_def)
  let ?ws = "[\<lparr>dw_offset = offset, dw_bytes = bytes\<rparr>]"
  from append_writes_ok [OF ok, of io ?ws "Inr ()" s' truth] run obtain log'
    where "wrote sr truth ?ws s log s' log'" "in_bounds ?ws (lz_size s)"
    by (auto simp: lazy_ops_def lazy_write_at_def)
  then show "lazy_invar sr truth s' \<and> offset + length bytes \<le> length (lazy_contents sr truth i64_MAX s)
      \<and> lazy_contents sr truth i64_MAX s' = overwrite offset bytes (lazy_contents sr truth i64_MAX s)"
    using wrote_contents [OF ok(1)] lazy_generation_bound [OF ok(1)] inv
    by (auto simp: lazy_invar_def wrote_def in_bounds_def)
next
  fix s s'
  assume "lazy_invar sr truth s" "op_sync (lazy_ops sr io) s = (Inr (), s')"
  then show "lazy_invar sr truth s' \<and> lazy_contents sr truth i64_MAX s' = lazy_contents sr truth i64_MAX s"
    by (auto simp: lazy_ops_def lazy_sync_def split: sum.splits)
qed

end
