(* ===== verification/Lazy_Generations.thy ===== *)
theory Lazy_Generations
  imports Lazy_Writes
begin

text \<open>
  Sealing, capturing and publishing generations. A sealed generation keeps its bytes whatever is
  written later; its captured manifest describes exactly those bytes; and publishing it, which
  drops its journal and replaces the base, changes no byte a reader can see.
\<close>

section \<open>Retiring journal records\<close>

lemma block_index_retain:
  assumes "blocks_ok blocks"
  shows "block_index (filter (\<lambda>(_, ix). ix \<noteq> []) (map (\<lambda>(b, ix). (b, bt_retain P ix)) blocks)) b
    = bt_retain P (block_index blocks b)"
proof -
  have "map_of (filter (\<lambda>(_, ix). ix \<noteq> []) (map (\<lambda>(b, ix). (b, bt_retain P ix)) xs)) b =
      (case map_of xs b of None \<Rightarrow> None | Some ix \<Rightarrow> if bt_retain P ix = [] then None else Some (bt_retain P ix))"
    if "distinct (map fst xs)" for xs :: "(nat, index) btree_map"
    using that
  proof (induction xs)
    case (Cons e xs)
    obtain c ix where e: "e = (c, ix)" by force
    have fresh: "map_of xs c = None" using Cons.prems by (simp add: e map_of_eq_None_iff)
    have ih: "map_of (filter (\<lambda>(_, ix). ix \<noteq> []) (map (\<lambda>(b, ix). (b, bt_retain P ix)) xs)) b =
      (case map_of xs b of None \<Rightarrow> None | Some ix \<Rightarrow> if bt_retain P ix = [] then None else Some (bt_retain P ix))"
      using Cons by simp
    then show ?case using fresh by (cases "b = c") (auto simp: e)
  qed simp
  moreover have "distinct (map fst blocks)"
    using assms by (simp add: blocks_ok_def bt_ok_def strict_sorted_iff)
  ultimately show ?thesis
    by (auto simp: block_index_def bt_get_def bt_retain_def split: option.split)
qed

lemma blocks_ok_retain:
  assumes "blocks_ok blocks"
  shows "blocks_ok (filter (\<lambda>(_, ix). ix \<noteq> []) (map (\<lambda>(b, ix). (b, bt_retain P ix)) blocks))"
proof -
  let ?m = "map (\<lambda>(b, ix). (b, bt_retain P ix)) blocks"
  have keys: "map fst ?m = map fst blocks" by (simp add: case_prod_unfold comp_def)
  have ok: "bt_ok ?m" using assms by (simp only: blocks_ok_def bt_ok_def keys)
  have sub: "bt_ok ix" if "(b, ix) \<in> set ?m" for b ix
    using that assms bt.set_entries [of blocks] by (auto simp: blocks_ok_def)
  have "bt_ok (filter (\<lambda>(_, ix). ix \<noteq> []) ?m)" by (rule bt_ok_filter [OF ok])
  moreover have "bt_ok ix" if "bt_get (filter (\<lambda>(_, ix). ix \<noteq> []) ?m) b = Some ix" for b ix
  proof -
    have "(b, ix) \<in> set (filter (\<lambda>(_, ix). ix \<noteq> []) ?m)"
      using bt.set_entries [OF calculation] that by blast
    then have "(b, ix) \<in> set ?m" by (simp only: set_filter mem_Collect_eq)
    then show ?thesis by (rule sub)
  qed
  ultimately show ?thesis by (simp add: blocks_ok_def)
qed

text \<open>Retiring keeps the index right for the records of later generations.\<close>

lemma retire_index:
  assumes ok: "index_ok j log" and run: "journal_retire g j = (names, j')"
  shows "index_ok j' (filter (\<lambda>r. g < jr_generation r) log)"
proof -
  let ?keep = "\<lambda>r. g < jr_generation r"
  have j': "jn_records j' = bt_retain (\<lambda>_ r. ?keep r) (jn_records j)"
    "jn_latest j' = hm_retain (\<lambda>(g', _, _) _. g < g') (jn_latest j)"
    "jn_blocks j' = filter (\<lambda>(_, ix). ix \<noteq> []) (map (\<lambda>(b, ix). (b, bt_retain (\<lambda>_ r. ?keep r) ix)) (jn_blocks j))"
    using run by (auto simp: journal_retire_def Let_def)
  have recs: "bt_get (jn_records j') q = Some r \<longleftrightarrow> bt_get (jn_records j) q = Some r \<and> ?keep r" for q r
    using index_okD(6) [OF ok] by (auto simp: j' bt_get_retain split: option.splits)
  have latest: "hm_get (jn_latest j') k = Some q \<longleftrightarrow> hm_get (jn_latest j) k = Some q \<and> g < fst k" for k q
    using index_okD(7) [OF ok] by (cases k) (auto simp: j' hm_get_retain split: option.splits)
  have blk: "bt_get (block_index (jn_blocks j') b) q = Some r \<longleftrightarrow>
      bt_get (block_index (jn_blocks j) b) q = Some r \<and> ?keep r" for b q r
    using block_index_ok [OF index_okD(1) [OF ok], of b]
    by (auto simp: j' block_index_retain [OF index_okD(1) [OF ok]] bt_get_retain split: option.splits)
  have cover: "\<exists>r'. bt_get (jn_records j') (jr_sequence r') = Some r' \<and> range_key r' = range_key r
      \<and> jr_sequence r \<le> jr_sequence r'" if "r \<in> set log" "?keep r" for r
  proof -
    from ok that(1) obtain r' where "bt_get (jn_records j) (jr_sequence r') = Some r'"
      "range_key r' = range_key r" "jr_sequence r \<le> jr_sequence r'"
      unfolding index_ok_def by blast
    then show ?thesis using that(2) recs by (intro exI [of _ r']) (simp add: range_key_def)
  qed
  show ?thesis
    unfolding index_ok_def
  proof (intro conjI allI)
    show "ascending (filter ?keep log)" using index_okD(8) [OF ok] by (rule sorted_wrt_filter)
    show "\<forall>r \<in> set (filter ?keep log). jr_start r < jr_end r" using ok by (simp add: index_ok_def)
    show "bt_ok (jn_records j')" "hm_ok (jn_latest j')"
      using index_okD(6,7) [OF ok] by (simp_all add: j')
    show "bt_get (jn_records j') s = Some r \<longrightarrow> jr_sequence r = s \<and> r \<in> set (filter ?keep log)" for s r
      using recs index_okD(4) [OF ok] by auto
    show "hm_get (jn_latest j') k = Some q \<longleftrightarrow> (\<exists>r. bt_get (jn_records j') q = Some r \<and> range_key r = k)" for k q
      unfolding latest recs latest_iff [OF ok] by (auto simp: range_key_def)
    show "bt_ok (jn_blocks j')" "bt_get (jn_blocks j') b = Some ix \<longrightarrow> bt_ok ix" for b ix
      using blocks_ok_retain [OF index_okD(1) [OF ok]] by (auto simp: j'(3) blocks_ok_def)
    show "bt_get (block_index (jn_blocks j') b) s = Some r \<longleftrightarrow>
        bt_get (jn_records j') s = Some r \<and> b \<in> set (record_blocks r)" for b s r
      unfolding blk recs index_okD(5) [OF ok] by blast
  qed (use cover in auto)
qed

lemma newest_ascending:
  assumes "ascending log" "r \<in> set log" "visible g p r" "\<And>x. x \<in> set log \<Longrightarrow> visible g p x \<Longrightarrow> jr_sequence x \<le> jr_sequence r"
  shows "newest g p log = Some r"
  unfolding newest_def using assms by (intro find_rev_Some) auto

lemma sequence_generation:
  assumes "ascending log" "sorted_wrt (\<lambda>a b. jr_generation a \<le> jr_generation b) log"
    and "r \<in> set log" "x \<in> set log" "jr_sequence r < jr_sequence x"
  shows "jr_generation r \<le> jr_generation x"
proof -
  from assms(3,4) obtain i k where ik: "i < length log" "log ! i = r" "k < length log" "log ! k = x"
    by (metis in_set_conv_nth)
  have "i < k"
  proof (rule ccontr)
    assume "\<not> i < k"
    then have "i = k \<or> jr_sequence (log ! k) < jr_sequence (log ! i)"
      using assms(1) ik by (cases i k rule: linorder_cases) (auto simp: sorted_wrt_iff_nth_less)
    then show False using assms(5) ik by auto
  qed
  then show ?thesis using assms(2) ik by (auto simp: sorted_wrt_iff_nth_less)
qed

text \<open>Generations only grow along the log, so records of retired ones are older than the rest.\<close>

lemma newest_split:
  assumes asc: "ascending log" and mono: "sorted_wrt (\<lambda>a b. jr_generation a \<le> jr_generation b) log" and g: "g \<le> g'"
  shows "newest g' p log =
    (case newest g' p (filter (\<lambda>r. g < jr_generation r) log) of Some r \<Rightarrow> Some r | None \<Rightarrow> newest g p log)"
proof (cases "newest g' p (filter (\<lambda>r. g < jr_generation r) log)")
  case None
  then have old: "visible g' p x \<longleftrightarrow> visible g p x" if "x \<in> set log" for x
    using that g by (force simp: newest_None visible_def)
  have "find (visible g' p) (rev log) = find (visible g p) (rev log)"
    by (rule find_cong) (use old in auto)
  then show ?thesis using None by (simp add: newest_def)
next
  case (Some r)
  note r = newest_Some [OF Some sorted_wrt_filter [OF asc]]
  have "jr_sequence x \<le> jr_sequence r" if x: "x \<in> set log" "visible g' p x" for x
  proof (cases "g < jr_generation x")
    case True
    then show ?thesis using r x by simp
  next
    case False
    then have lower: "jr_generation x < jr_generation r" using r by simp
    have "\<not> jr_sequence r < jr_sequence x"
    proof
      assume "jr_sequence r < jr_sequence x"
      then have "jr_generation r \<le> jr_generation x"
        using sequence_generation [OF asc mono] r x(1) by auto
      then show False using lower by simp
    qed
    then show ?thesis by simp
  qed
  then have "newest g' p log = Some r" using r by (intro newest_ascending [OF asc]) auto
  then show ?thesis using Some by simp
qed

section \<open>Sealed generations\<close>

text \<open>
  The metadata agrees with the journal, and every captured manifest describes the bytes of its
  generation.
\<close>

definition captures_bytes ::
  "sources \<Rightarrow> (string \<Rightarrow> byte list) \<Rightarrow> lazy_disk \<Rightarrow> jrecord list \<Rightarrow> int \<Rightarrow> manifest \<Rightarrow> bool" where
  "captures_bytes sr truth d log g m =
     (mf_size m = Some (lz_size d)
      \<and> (\<forall>p < lz_size d. base_byte truth m p = disk_byte sr truth d log g p))"

definition sealed_ok :: "sources \<Rightarrow> (string \<Rightarrow> byte list) \<Rightarrow> lazy_disk \<Rightarrow> jrecord list \<Rightarrow> bool" where
  "sealed_ok sr truth d log =
     (let db = so_db (lz_store d)
      in db_generation db = jn_generation (lz_journal d)
         \<and> db_manifest db = lz_base d
         \<and> ac_published (lz_accounting d) = db_published db
         \<and> hm_ok (db_sealed db)
         \<and> (\<forall>rc. db_published db = Some rc \<longrightarrow> rc_generation rc < jn_generation (lz_journal d)
              \<and> (\<forall>g v. hm_get (db_sealed db) g = Some v \<longrightarrow> rc_generation rc < g))
         \<and> (\<forall>g v. hm_get (db_sealed db) g = Some v \<longrightarrow> g < jn_generation (lz_journal d)
              \<and> (\<forall>m. v = Some m \<longrightarrow> captures_bytes sr truth d log g m)))"

definition disk_invar :: "sources \<Rightarrow> (string \<Rightarrow> byte list) \<Rightarrow> lazy_disk \<Rightarrow> bool" where
  "disk_invar sr truth d =
     (honest sr truth \<and> digest_sized (sr_journal sr) \<and> (\<exists>log. lazy_ok sr d log \<and> sealed_ok sr truth d log))"

lemma disk_invar_lazy: "disk_invar sr truth d \<Longrightarrow> lazy_invar sr truth d"
  by (auto simp: disk_invar_def lazy_invar_def)

lemma wrote_sealed:
  assumes "sealed_ok sr truth d log" "wrote sr truth ws d log d' log'"
    "ac_published (lz_accounting d') = ac_published (lz_accounting d)"
  shows "sealed_ok sr truth d' log'"
  using assms by (fastforce simp: sealed_ok_def captures_bytes_def wrote_def store_kept_def Let_def)

lemma append_all_published:
  "append_all h io ws n d = (res, d') \<Longrightarrow> lz_accounting d' = lz_accounting d"
  by (induction h io ws n d rule: append_all.induct) (auto split: if_splits sum.splits prod.splits)

lemma append_writes_published:
  assumes "append_writes sr io ws d = (res, d')"
  shows "ac_published (lz_accounting d') = ac_published (lz_accounting d)"
  using assms append_all_published
  by (fastforce simp: append_writes_def commit_write_def update_accounting_def Let_def
      split: if_splits sum.splits option.splits prod.splits)

lemma lazy_write_published:
  assumes "lazy_write_batch sr io ws d = (res, d')"
  shows "ac_published (lz_accounting d') = ac_published (lz_accounting d)"
  using assms append_writes_published [of sr io _ d res d']
  by (auto simp: lazy_write_batch_def lazy_write_at_def split: if_splits)

lemma seal_ok:
  assumes ok: "lazy_ok sr d log" and sealed: "sealed_ok sr truth d log"
    and run: "seal_with_completion completed now d = (Inr g, d')"
  shows "g = jn_generation (lz_journal d) \<and> jn_generation (lz_journal d') = g + 1
    \<and> lz_size d' = lz_size d \<and> jn_records (lz_journal d') = jn_records (lz_journal d)
    \<and> hm_get (db_sealed (so_db (lz_store d'))) g = Some None
    \<and> lazy_ok sr d' log \<and> sealed_ok sr truth d' log
    \<and> (\<forall>g'. disk_byte sr truth d' log g' = disk_byte sr truth d log g')"
proof -
  let ?j = "lz_journal d" let ?db = "so_db (lz_store d)"
  have g: "g = jn_generation ?j" and after: "checked_add_i64 g 1 = Some (g + 1)"
    and fresh: "hm_get (db_sealed ?db) g = None"
    and d': "lz_journal d' = journal_sealed (g + 1) ?j" "lz_size d' = lz_size d" "lz_base d' = lz_base d"
      "so_files (lz_store d') = so_files (lz_store d)" "so_legacy (lz_store d') = so_legacy (lz_store d)"
      "db_generation (so_db (lz_store d')) = g + 1" "db_manifest (so_db (lz_store d')) = db_manifest ?db"
      "db_sealed (so_db (lz_store d')) = hm_insert g None (db_sealed ?db)"
      "db_published (so_db (lz_store d')) = db_published ?db"
      "ac_published (lz_accounting d') = ac_published (lz_accounting d)"
    using run sealed
    by (auto simp: seal_with_completion_def sealed_ok_def Let_def update_accounting_def hm_contains_def
        checked_add_i64_def split: sum.splits option.splits if_splits)
  have rd: "record_data sr d' r = record_data sr d r" "readable sr d' r = readable sr d r" for r
    by (simp_all add: readable_def record_data_def cached_record_def d')
  then have byte: "disk_byte sr truth d' log g' = disk_byte sr truth d log g'" for g'
    by (auto simp: disk_byte_def d' fun_eq_iff split: option.split)
  have j': "jn_records (lz_journal d') = jn_records ?j" "jn_blocks (lz_journal d') = jn_blocks ?j"
    "jn_latest (lz_journal d') = jn_latest ?j" "jn_segments (lz_journal d') = jn_segments ?j"
    "jn_active (lz_journal d') = None" "jn_generation (lz_journal d') = g + 1" "jn_next (lz_journal d') = jn_next ?j"
    by (simp_all add: d' journal_sealed_def)
  have "lazy_ok sr d' log"
    using ok rd(2) index_ok_cong [OF j'(1-3)] after
    by (auto simp: lazy_ok_def disk_ok_def log_ok_def segments_ok_def d'(2-5) j' g checked_add_i64_def
        i64_max_def i64_MAX_def split: if_splits)
  moreover have "sealed_ok sr truth d' log"
    using sealed byte by (auto simp: sealed_ok_def Let_def d'(2-10) j' hm.get_ins hm.invar_ins
        captures_bytes_def g split: if_splits intro!: less_imp_le)
  ultimately show ?thesis
    using g j' byte sealed d' by (auto simp: hm.get_ins sealed_ok_def Let_def)
qed

section \<open>Capturing\<close>

lemma extent_at_set_hash:
  assumes "mf_blocks m = Some blocks" "i < length blocks"
  shows "extent_at (set_hash i hash m) k =
    (if k = i then Some ((blocks ! i)\<lparr>ex_hash := (case hash of None \<Rightarrow> Hash_Null | Some s \<Rightarrow> Hash_String s)\<rparr>)
     else extent_at m k)"
  using assms by (auto simp: extent_at_def set_hash_def nth_opt_def)

lemma set_hash_shape:
  "mf_size (set_hash i hash m) = mf_size m"
  "map_option length (mf_blocks (set_hash i hash m)) = map_option length (mf_blocks m)"
  by (cases "mf_blocks m"; simp add: set_hash_def)+

lemma changed_iff:
  assumes "index_ok j log"
  shows "i \<in> set (changed g j) \<longleftrightarrow> (\<exists>r \<in> set log. jr_generation r \<le> g \<and> i \<in> set (record_blocks r))"
proof -
  have mem: "r \<in> set (map snd (jn_records j)) \<longleftrightarrow> bt_get (jn_records j) (jr_sequence r) = Some r" for r
  proof -
    have "r \<in> set (map snd (jn_records j)) \<longleftrightarrow> (\<exists>q. (q, r) \<in> set (jn_records j))" by force
    also have "\<dots> \<longleftrightarrow> (\<exists>q. bt_get (jn_records j) q = Some r)"
      by (simp add: bt.set_entries [OF index_okD(6) [OF assms]])
    finally show ?thesis using index_okD(4) [OF assms] by blast
  qed
  have "i \<in> set (concat (map f (filter P xs))) \<longleftrightarrow> (\<exists>x. x \<in> set xs \<and> P x \<and> i \<in> set (f x))"
    for f :: "jrecord \<Rightarrow> nat list" and P xs by auto
  then have "i \<in> set (changed g j) \<longleftrightarrow>
      (\<exists>r. r \<in> set (map snd (jn_records j)) \<and> jr_generation r \<le> g \<and> i \<in> set (record_blocks r))"
    unfolding changed_def by (simp only: set_sorted_list_of_set finite_set)
  then have "i \<in> set (changed g j) \<longleftrightarrow> (\<exists>r. bt_get (jn_records j) (jr_sequence r) = Some r
      \<and> jr_generation r \<le> g \<and> i \<in> set (record_blocks r))"
    by (simp only: mem)
  also have "\<dots> \<longleftrightarrow> (\<exists>r \<in> set log. jr_generation r \<le> g \<and> i \<in> set (record_blocks r))"
  proof
    assume "\<exists>r \<in> set log. jr_generation r \<le> g \<and> i \<in> set (record_blocks r)"
    then obtain r where r: "r \<in> set log" "jr_generation r \<le> g" "i \<in> set (record_blocks r)" by blast
    with assms obtain r' where "bt_get (jn_records j) (jr_sequence r') = Some r'" "range_key r' = range_key r"
      unfolding index_ok_def by blast
    with r record_blocks_key [of r' r] show "\<exists>r. bt_get (jn_records j) (jr_sequence r) = Some r
      \<and> jr_generation r \<le> g \<and> i \<in> set (record_blocks r)"
      by (intro exI [of _ r']) (simp add: range_key_def)
  qed (use index_okD(4) [OF assms] in blast)
  finally show ?thesis .
qed

text \<open>
  The object store is consistent with the identities of captured blocks: what it holds under the
  identity of a block of the captured generation is that block.
\<close>

definition blocks_named :: "sources \<Rightarrow> (string \<Rightarrow> byte list) \<Rightarrow> lazy_disk \<Rightarrow> int \<Rightarrow> bool" where
  "blocks_named sr truth d g =
     (\<forall>i bytes h. reconstruct sr d g i = Inr (bytes, Some h) \<longrightarrow> truth h = bytes)"

lemma reconstruct_byte:
  assumes ok: "disk_ok sr d log" and honest: "honest sr truth" and named: "blocks_named sr truth d g"
    and run: "reconstruct sr d g i = Inr (bytes, hash)" and p: "p div BLOCK = i" "p < lz_size d"
  shows "(case hash of None \<Rightarrow> 0 | Some h \<Rightarrow> truth h ! (p mod BLOCK)) = disk_byte sr truth d log g p"
proof -
  define n where "n = min (lz_size d - i * BLOCK) BLOCK"
  have read: "read_generation sr d g (i * BLOCK) (replicate n 0) = Inr bytes"
    and hash: "hash = (if list_all (\<lambda>b. b = 0) bytes then None else Some (digest_block (sr_hashes sr) bytes))"
    using run by (auto simp: reconstruct_def Let_def n_def split: sum.splits)
  have bytes: "bytes = span (disk_byte sr truth d log g) (i * BLOCK) n"
    using read_generation_exact [OF ok honest read] by simp
  have p': "p = i * BLOCK + p mod BLOCK" using p(1) by (metis div_mult_mod_eq)
  then have k: "p mod BLOCK < n" using p(2) by (auto simp: n_def)
  have nth: "bytes ! (p mod BLOCK) = disk_byte sr truth d log g p"
    using k p' by (simp add: bytes span_def)
  show ?thesis
  proof (cases hash)
    case None
    then have "list_all (\<lambda>b. b = 0) bytes" by (simp add: hash split: if_splits)
    moreover have "p mod BLOCK < length bytes" using k by (simp add: bytes)
    ultimately show ?thesis using None nth by (auto simp: list_all_length)
  next
    case (Some h)
    then show ?thesis using named run nth by (simp add: blocks_named_def)
  qed
qed

lemma base_byte_set_hash:
  assumes "mf_blocks m = Some blocks" "i < length blocks"
  shows "base_byte truth (set_hash i hash m) p =
    (if p div BLOCK = i then (case hash of None \<Rightarrow> 0 | Some h \<Rightarrow> truth h ! (p mod BLOCK)) else base_byte truth m p)"
  using extent_at_set_hash [OF assms, of hash "p div BLOCK"]
  by (auto simp: base_byte_def split: option.split)

lemma capture_blocks_ok:
  assumes ok: "disk_ok sr d log" and honest: "honest sr truth" and named: "blocks_named sr truth d g"
    and run: "capture_blocks sr d g is m = Inr m'" and shape: "mf_blocks m = Some blocks"
    and bound: "\<forall>i \<in> set is. i < length blocks" and p: "p < lz_size d"
  shows "mf_size m' = mf_size m \<and> base_byte truth m' p =
    (if p div BLOCK \<in> set is then disk_byte sr truth d log g p else base_byte truth m p)"
  using run shape bound
proof (induction "is" arbitrary: m blocks)
  case (Cons i "is")
  then obtain bytes hash where rec: "reconstruct sr d g i = Inr (bytes, hash)"
    and rest: "capture_blocks sr d g is (set_hash i hash m) = Inr m'"
    by (auto split: sum.splits prod.splits)
  obtain blocks' where b': "mf_blocks (set_hash i hash m) = Some blocks'" "length blocks' = length blocks"
    using set_hash_shape(2) [of i hash m] Cons.prems(2) by auto
  have ih: "mf_size m' = mf_size (set_hash i hash m) \<and> base_byte truth m' p =
    (if p div BLOCK \<in> set is then disk_byte sr truth d log g p else base_byte truth (set_hash i hash m) p)"
    using Cons.IH [OF rest b'(1)] Cons.prems(3) b'(2) by simp
  have "base_byte truth (set_hash i hash m) p = (if p div BLOCK = i then disk_byte sr truth d log g p else base_byte truth m p)"
    using base_byte_set_hash [OF Cons.prems(2), of i truth hash p] Cons.prems(3)
      reconstruct_byte [OF ok honest named rec _ p] by auto
  then show ?case using ih set_hash_shape(1) by auto
qed simp

lemma unchanged_byte:
  assumes ok: "index_ok (lz_journal d) log" and "p div BLOCK \<notin> set (changed g (lz_journal d))"
  shows "disk_byte sr truth d log g p = base_byte truth (lz_base d) p"
proof -
  have "newest g p log = None"
    using assms(2) covers_block unfolding newest_None changed_iff [OF ok] visible_def by blast
  then show ?thesis by (simp add: disk_byte_def)
qed

text \<open>The blocks of a write inside the disk exist in the manifest.\<close>

lemma changed_bound:
  assumes ok: "disk_ok sr d log" and inside: "log_inside (lz_size d) log" and "i \<in> set (changed g (lz_journal d))"
  shows "\<exists>blocks. mf_blocks (lz_base d) = Some blocks \<and> i < length blocks"
proof -
  from ok obtain blocks where blocks: "mf_blocks (lz_base d) = Some blocks" "length blocks = div_ceil (lz_size d) BLOCK"
    using extent_ok_nth [of "lz_base d" "lz_size d"] by (auto simp: disk_ok_def)
  from assms(3) ok obtain r where r: "r \<in> set log" "i \<in> set (record_blocks r)"
    using changed_iff [of "lz_journal d" log i g] by (auto simp: disk_ok_def)
  have "i * BLOCK < jr_end r" using r(2) by (simp add: record_blocks_def less_div_ceil_iff)
  also have "\<dots> \<le> lz_size d" using inside r(1) by (simp add: log_inside_def)
  finally show ?thesis using blocks by (simp add: less_div_ceil_iff)
qed

lemma capture_ok:
  assumes ok: "lazy_ok sr d log" and sealed: "sealed_ok sr truth d log" and honest: "honest sr truth"
    and named: "blocks_named sr truth d g" and order: "\<And>xs. set (order xs) = set xs"
    and run: "capture sr order g d = (res, d')"
  shows "lazy_ok sr d' log \<and> sealed_ok sr truth d' log \<and> lz_size d' = lz_size d
    \<and> lz_journal d' = lz_journal d
    \<and> (\<forall>g'. disk_byte sr truth d' log g' = disk_byte sr truth d log g')
    \<and> (\<forall>m. res = Inr m \<longrightarrow> captures_bytes sr truth d log g m
          \<and> hm_get (db_sealed (so_db (lz_store d'))) g = Some (Some m))"
proof -
  let ?db = "so_db (lz_store d)"
  have disk: "disk_ok sr d log" and inside: "log_inside (lz_size d) log" using ok by (auto simp: lazy_ok_def)
  consider (same) "d' = d" "\<And>m. res = Inr m \<Longrightarrow> hm_get (db_sealed ?db) g = Some (Some m)"
    | (new) m where "hm_get (db_sealed ?db) g = Some None" "res = Inr m"
      "capture_blocks sr d g (order (changed g (lz_journal d))) (db_manifest ?db) = Inr m"
      "d' = d\<lparr>lz_store := (lz_store d)\<lparr>so_db := ?db\<lparr>db_sealed := hm_insert g (Some m) (db_sealed ?db)\<rparr>\<rparr>\<rparr>"
  proof (cases "hm_get (db_sealed ?db) g")
    case (Some v)
    show ?thesis
    proof (cases v)
      case None
      let ?c = "capture_blocks sr d g (order (changed g (lz_journal d))) (db_manifest ?db)"
      show ?thesis
      proof (cases ?c)
        case (Inl e)
        then have "d' = d" "res = Inl e" using run Some None by (simp_all add: capture_def Let_def)
        then show ?thesis by (intro that(1)) simp_all
      next
        case (Inr m)
        then show ?thesis using run Some None by (intro that(2) [of m]) (simp_all add: capture_def Let_def)
      qed
    next
      case (Some m)
      then have "d' = d" "res = Inr m" using run \<open>hm_get (db_sealed ?db) g = Some v\<close>
        by (simp_all add: capture_def Let_def)
      then show ?thesis using Some \<open>hm_get (db_sealed ?db) g = Some v\<close> by (intro that(1)) simp_all
    qed
  next
    case None
    then have "d' = d" "res = Inl (Io_Other ''Query returned no rows'')"
      using run by (simp_all add: capture_def Let_def)
    then show ?thesis by (intro that(1)) simp_all
  qed
  then show ?thesis
  proof cases
    case same
    then show ?thesis using ok sealed by (auto simp: sealed_ok_def Let_def)
  next
    case new
    have base: "db_manifest ?db = lz_base d" using sealed by (simp add: sealed_ok_def Let_def)
    have bytes: "base_byte truth m p = disk_byte sr truth d log g p" and size: "mf_size m = Some (lz_size d)"
      if "p < lz_size d" for p
    proof -
      obtain blocks where blocks: "mf_blocks (lz_base d) = Some blocks" "mf_size (lz_base d) = Some (lz_size d)"
        using disk extent_ok_nth [of "lz_base d" "lz_size d"] by (auto simp: disk_ok_def)
      have "\<forall>i \<in> set (order (changed g (lz_journal d))). i < length blocks"
        using changed_bound [OF disk inside] blocks order by fastforce
      from capture_blocks_ok [OF disk honest named new(3) [unfolded base] blocks(1) this that]
      show "base_byte truth m p = disk_byte sr truth d log g p" "mf_size m = Some (lz_size d)"
        using unchanged_byte [of d log p g sr truth] disk order blocks(2) by (auto simp: disk_ok_def)
    qed
    have pos: "0 < lz_size d"
      using disk extent_ok_nth [of "lz_base d" "lz_size d"] by (auto simp: disk_ok_def)
    have cap: "captures_bytes sr truth d log g m" using bytes size [OF pos] by (simp add: captures_bytes_def)
    have rd: "record_data sr d' r = record_data sr d r" "readable sr d' r = readable sr d r" for r
      by (simp_all add: readable_def record_data_def cached_record_def new(4))
    then have byte: "disk_byte sr truth d' log g' = disk_byte sr truth d log g'" for g'
      by (auto simp: disk_byte_def new(4) fun_eq_iff split: option.split)
    have "lazy_ok sr d' log" using ok rd by (auto simp: lazy_ok_def disk_ok_def new(4))
    moreover have "sealed_ok sr truth d' log"
      using sealed cap byte new(1)
      by (auto simp: sealed_ok_def Let_def new(4) hm.get_ins hm.invar_ins captures_bytes_def split: if_splits)
    moreover have "hm_get (db_sealed (so_db (lz_store d'))) g = Some (Some m)"
      using sealed by (simp add: new(4) hm.get_ins sealed_ok_def Let_def)
    ultimately show ?thesis using byte cap new(2) by (auto simp: new(4))
  qed
qed

section \<open>Publishing\<close>

lemma reclaim_ok: "hm_ok files \<Longrightarrow> hm_ok (reclaim names files)"
  by (induction names files rule: reclaim.induct) (auto simp: hm.invar_ins hm.invar_del)

lemma reclaim_other: "hm_ok files \<Longrightarrow> name \<notin> set names \<Longrightarrow> hm_get (reclaim names files) name = hm_get files name"
  by (induction names files rule: reclaim.induct) (auto simp: hm.get_ins hm.get_del hm.invar_ins hm.invar_del)

lemma retire_fields:
  assumes "journal_retire g j = (names, j')"
  shows "set names \<subseteq> sg_name ` {s \<in> set (jn_segments j). \<not> g < sg_generation s}
      \<union> {''journal.sqlite'', ''journal.sqlite-wal'', ''journal.sqlite-shm''}"
    and "jn_segments j' = filter (\<lambda>s. g < sg_generation s) (jn_segments j)"
    and "jn_active j' = None" "jn_generation j' = jn_generation j" "jn_next j' = jn_next j"
    and "jn_records j' = bt_retain (\<lambda>_ r. g < jr_generation r) (jn_records j)"
  using assms by (auto simp: journal_retire_def Let_def)

lemma kept_name:
  assumes seg: "segments_ok j files" and run: "journal_retire g j = (names, j')"
    and s: "s \<in> set (jn_segments j)" "g < sg_generation s"
  shows "sg_name s \<notin> set names"
proof
  assume "sg_name s \<in> set names"
  then consider s' where "s' \<in> set (jn_segments j)" "\<not> g < sg_generation s'" "sg_name s' = sg_name s"
    | "sg_name s \<in> {''journal.sqlite'', ''journal.sqlite-wal'', ''journal.sqlite-shm''}"
    using retire_fields(1) [OF run] by auto
  then show False
  proof cases
    case 1
    have "distinct (map sg_name (jn_segments j))" using seg by (simp add: segments_ok_def)
    then have "s' = s" using 1(1,3) s(1) by (simp add: distinct_map inj_on_def)
    then show False using 1(2) s(2) by simp
  next
    case 2
    have "starts_with ''payload-'' (sg_name s)" using seg s(1) by (simp add: segments_ok_def)
    then show False using 2 by (auto simp: starts_with_iff)
  qed
qed

lemma publish_fields:
  assumes "journal_retire g (lz_journal d) = (names, j')"
  shows "lz_journal (publish g rc m d) = j'" "lz_size (publish g rc m d) = lz_size d"
    "lz_base (publish g rc m d) = m"
    "so_files (lz_store (publish g rc m d)) = reclaim names (so_files (lz_store d))"
    "so_legacy (lz_store (publish g rc m d)) = so_legacy (lz_store d)"
    "db_manifest (so_db (lz_store (publish g rc m d))) = m"
    "db_sealed (so_db (lz_store (publish g rc m d))) = hm_retain (\<lambda>g' _. g < g') (db_sealed (so_db (lz_store d)))"
    "db_generation (so_db (lz_store (publish g rc m d))) = db_generation (so_db (lz_store d))"
    "db_published (so_db (lz_store (publish g rc m d))) = Some rc"
    "ac_published (lz_accounting (publish g rc m d)) = Some rc"
  using assms by (simp_all add: publish_def Let_def update_accounting_def)

text \<open>Records of later generations stay readable when the files of retired segments go.\<close>

lemma retire_readable:
  assumes seg: "segments_ok (lz_journal d) (so_files (lz_store d))"
    and run: "journal_retire g (lz_journal d) = (names, j')"
    and r: "readable sr d r" "bt_get (jn_records (lz_journal d)) q = Some r" "g < jr_generation r"
  shows "readable sr (publish g rc m d) r \<and> record_data sr (publish g rc m d) r = record_data sr d r"
proof -
  have "cached_record sr (publish g rc m d) r = cached_record sr d r"
  proof (cases "jr_location r")
    case (Segment_At name pos header)
    obtain s where s: "s \<in> set (jn_segments (lz_journal d))" "sg_name s = name" "sg_generation s = jr_generation r"
      using seg r(2) Segment_At unfolding segments_ok_def by blast
    have "name \<notin> set names" using kept_name [OF seg run s(1)] s r(3) by simp
    moreover have "hm_ok (so_files (lz_store d))" using seg by (simp add: segments_ok_def)
    ultimately show ?thesis
      using reclaim_other by (simp add: cached_record_def record_read_def publish_fields [OF run] Segment_At)
  qed (simp add: cached_record_def record_read_def publish_fields [OF run])
  then show ?thesis using r(1) by (simp add: readable_def record_data_def)
qed

lemma retire_segments:
  assumes seg: "segments_ok j files" and run: "journal_retire g j = (names, j')" and ok: "bt_ok (jn_records j)"
  shows "segments_ok j' (reclaim names files)"
  unfolding segments_ok_def retire_fields(2-4) [OF run]
proof (intro conjI)
  have files: "hm_ok files" using seg by (simp add: segments_ok_def)
  show "hm_ok (reclaim names files)" by (rule reclaim_ok [OF files])
  show "distinct (map sg_name (filter (\<lambda>s. g < sg_generation s) (jn_segments j)))"
    using seg by (simp add: segments_ok_def distinct_map_filter)
  show "\<forall>s \<in> set (filter (\<lambda>s. g < sg_generation s) (jn_segments j)).
      hm_contains (reclaim names files) (sg_name s) \<and> starts_with ''payload-'' (sg_name s)
      \<and> sg_generation s \<le> jn_generation j"
    using seg kept_name [OF seg run] reclaim_other [OF files] by (auto simp: segments_ok_def hm_contains_def)
  show "\<forall>q r name pos header. bt_get (jn_records j') q = Some r \<and> jr_location r = Segment_At name pos header \<longrightarrow>
      (\<exists>s \<in> set (filter (\<lambda>s. g < sg_generation s) (jn_segments j)). sg_name s = name \<and> sg_generation s = jr_generation r)"
  proof (intro allI impI, elim conjE)
    fix q r name pos header
    assume r: "bt_get (jn_records j') q = Some r" "jr_location r = Segment_At name pos header"
    then have "bt_get (jn_records j) q = Some r" "g < jr_generation r"
      using ok by (auto simp: retire_fields(6) [OF run] bt_get_retain split: option.splits if_splits)
    with seg r(2) obtain s where "s \<in> set (jn_segments j)" "sg_name s = name" "sg_generation s = jr_generation r"
      unfolding segments_ok_def by blast
    then show "\<exists>s \<in> set (filter (\<lambda>s. g < sg_generation s) (jn_segments j)). sg_name s = name \<and> sg_generation s = jr_generation r"
      using \<open>g < jr_generation r\<close> by (intro bexI [of _ s]) auto
  qed
qed simp

lemma publish_ok:
  fixes rc :: receipt
  assumes ok: "lazy_ok sr d log" and sealed: "sealed_ok sr truth d log"
    and m: "captures_bytes sr truth d log g m" "manifest_validate m = Inr n"
    and rc: "rc_generation rc = g" "g < jn_generation (lz_journal d)"
  defines "d' \<equiv> publish g rc m d" and "log' \<equiv> filter (\<lambda>r. g < jr_generation r) log"
  shows "lazy_ok sr d' log' \<and> sealed_ok sr truth d' log' \<and> lz_size d' = lz_size d
    \<and> (\<forall>g' p. g \<le> g' \<and> p < lz_size d \<longrightarrow> disk_byte sr truth d' log' g' p = disk_byte sr truth d log g' p)"
proof -
  obtain names j' where run: "journal_retire g (lz_journal d) = (names, j')" by force
  note f = publish_fields [OF run, where rc = rc and m = m, folded d'_def]
  have disk: "disk_ok sr d log" and seg: "segments_ok (lz_journal d) (so_files (lz_store d))"
    and index: "index_ok (lz_journal d) log" and log: "log_ok (lz_journal d) log"
    using ok by (auto simp: lazy_ok_def disk_ok_def)
  have index': "index_ok j' log'" unfolding log'_def by (rule retire_index [OF index run])
  have old: "bt_get (jn_records (lz_journal d)) q = Some r \<and> g < jr_generation r"
    if "bt_get (jn_records j') q = Some r" for q r
    using that index_okD(6) [OF index]
    by (auto simp: retire_fields(6) [OF run] bt_get_retain split: option.splits if_splits)
  have read: "readable sr d' r \<and> record_data sr d' r = record_data sr d r"
    if "bt_get (jn_records j') (jr_sequence r) = Some r" for r
    unfolding d'_def using retire_readable [OF seg run] old [OF that] disk by (auto simp: disk_ok_def)
  have size: "n = lz_size d" using m extent_ok_nth [OF m(2)] by (auto simp: captures_bytes_def)
  have "lazy_ok sr d' log'"
    using index' read m(2) size log ok retire_segments [OF seg run index_okD(6) [OF index]]
      sorted_wrt_filter [of _ log]
    by (auto simp: lazy_ok_def disk_ok_def f log_ok_def retire_fields [OF run] log'_def log_inside_def)
  moreover have byte: "disk_byte sr truth d' log' g' p = disk_byte sr truth d log g' p"
    if "g \<le> g'" "p < lz_size d" for g' p
  proof (cases "newest g' p log'")
    case (Some r)
    then have "newest g' p log = Some r"
      using newest_split [OF index_okD(8) [OF index] _ that(1), of p] log by (simp add: log_ok_def log'_def)
    moreover have "record_data sr d' r = record_data sr d r"
      using read newest_indexed [OF index' Some] by blast
    ultimately show ?thesis using Some by (simp add: disk_byte_def)
  next
    case None
    then have "newest g' p log = newest g p log"
      using newest_split [OF index_okD(8) [OF index] _ that(1), of p] log by (simp add: log_ok_def log'_def)
    then have "disk_byte sr truth d log g' p = disk_byte sr truth d log g p" by (simp add: disk_byte_def)
    then show ?thesis using None m(1) that(2) by (simp add: disk_byte_def [of _ _ d'] f captures_bytes_def)
  qed
  moreover have "sealed_ok sr truth d' log'"
    using sealed byte rc
    by (auto simp: sealed_ok_def Let_def f retire_fields [OF run] hm_get_retain captures_bytes_def
        split: option.splits if_splits)
  ultimately show ?thesis using f(2) by blast
qed

lemma commit_published_ok:
  assumes ok: "lazy_ok sr d log" and sealed: "sealed_ok sr truth d log"
    and run: "commit_published g backup d = (res, d')"
  shows "(\<exists>log'. lazy_ok sr d' log' \<and> sealed_ok sr truth d' log' \<and> lz_size d' = lz_size d
    \<and> (\<forall>g' p. g \<le> g' \<and> p < lz_size d \<longrightarrow> disk_byte sr truth d' log' g' p = disk_byte sr truth d log g' p))
    \<and> (if res = Inr () then g < jn_generation (lz_journal d) \<and> (\<forall>g'. has_sealed g' d' \<longleftrightarrow> has_sealed g' d \<and> g < g')
        else d' = d)"
proof (cases "res = Inr () \<and> d' \<noteq> d")
  case False
  have "g < jn_generation (lz_journal d) \<and> (has_sealed g' d \<longrightarrow> g < g')" if "res = Inr ()" for g'
  proof -
    have "db_published (so_db (lz_store d)) = Some \<lparr>rc_generation = g, rc_backup_id = backup\<rparr>"
    proof (rule ccontr)
      assume other: "\<not> ?thesis"
      have "db_published (so_db (lz_store d')) = Some \<lparr>rc_generation = g, rc_backup_id = backup\<rparr>"
        using run that other publish_fields(9)
        by (fastforce simp: commit_published_def Let_def split: if_splits sum.splits option.splits)
      then show False using other False that by simp
    qed
    then show ?thesis using sealed by (auto simp: sealed_ok_def Let_def has_sealed_def hm_contains_def)
  qed
  moreover have "d' = d"
    using False run by (auto simp: commit_published_def Let_def split: if_splits sum.splits option.splits)
  ultimately show ?thesis using ok sealed by auto
next
  case True
  define rc where "rc = \<lparr>rc_generation = g, rc_backup_id = backup\<rparr>"
  have "ac_published (lz_accounting d) = db_published (so_db (lz_store d))"
    using sealed by (simp add: sealed_ok_def Let_def)
  then obtain m n where m: "hm_get (db_sealed (so_db (lz_store d))) g = Some (Some m)" "manifest_validate m = Inr n"
    "d' = publish g rc m d"
    using run True unfolding rc_def
    by (auto simp: commit_published_def Let_def split: if_splits sum.splits option.splits)
  then have cap: "captures_bytes sr truth d log g m" "g < jn_generation (lz_journal d)"
    and rows: "hm_ok (db_sealed (so_db (lz_store d)))"
    using sealed by (auto simp: sealed_ok_def Let_def)
  have "rc_generation rc = g" by (simp add: rc_def)
  note pub = publish_ok [OF ok sealed cap(1) m(2) this cap(2)]
  obtain names j' where run': "journal_retire g (lz_journal d) = (names, j')" by force
  have "has_sealed g' d' \<longleftrightarrow> has_sealed g' d \<and> g < g'" for g'
    using rows by (auto simp: m(3) has_sealed_def hm_contains_def publish_fields [OF run'] hm_get_retain split: option.split)
  then show ?thesis using pub True cap(2) unfolding m(3) by auto
qed

end
