(* ===== verification/Lazy_Spec.thy ===== *)
theory Lazy_Spec
  imports Lazy_Generations
begin

text \<open>
  What a lazy disk promises, stated over an abstract disk: the bytes it has now and the bytes of
  every sealed generation. The operations of \<open>Lazy_Disk\<close> refine it, from creation on.
\<close>

section \<open>The abstract disk\<close>

record spec_disk =
  sp_bytes :: "byte list"
  sp_sealed :: "int \<Rightarrow> byte list option"

definition abs_disk :: "sources \<Rightarrow> (string \<Rightarrow> byte list) \<Rightarrow> lazy_disk \<Rightarrow> spec_disk" where
  "abs_disk sr truth d =
     \<lparr>sp_bytes = lazy_contents sr truth i64_MAX d,
      sp_sealed = (\<lambda>g. if has_sealed g d then Some (lazy_contents sr truth g d) else None)\<rparr>"

datatype disk_event =
    Write_Batch io_outcome "disk_write list"
  | Seal bool int
  | Capture int
  | Publish int string

text \<open>
  A write batch is applied whole when it is acknowledged; when it fails, some first part of it is.
  Sealing names the present bytes; publishing a generation forgets it and the ones before it.
\<close>

inductive spec_step :: "disk_event \<Rightarrow> bool \<Rightarrow> spec_disk \<Rightarrow> spec_disk \<Rightarrow> bool" where
  written: "in_bounds ws (length (sp_bytes s)) \<Longrightarrow>
    spec_step (Write_Batch io ws) True s (s\<lparr>sp_bytes := apply_writes ws (sp_bytes s)\<rparr>)"
| failed: "in_bounds ws (length (sp_bytes s)) \<or> k = 0 \<Longrightarrow>
    spec_step (Write_Batch io ws) False s (s\<lparr>sp_bytes := apply_writes (take k ws) (sp_bytes s)\<rparr>)"
| sealed: "sp_sealed s g = None \<Longrightarrow>
    spec_step (Seal completed now) True s (s\<lparr>sp_sealed := (sp_sealed s)(g \<mapsto> sp_bytes s)\<rparr>)"
| captured: "spec_step (Capture g) ok s s"
| published: "spec_step (Publish g backup) True s (s\<lparr>sp_sealed := (\<lambda>g'. if g < g' then sp_sealed s g' else None)\<rparr>)"
| refused: "e = Seal completed now \<or> e = Publish g backup \<Longrightarrow> spec_step e False s s"

fun disk_step :: "sources \<Rightarrow> (nat list \<Rightarrow> nat list) \<Rightarrow> disk_event \<Rightarrow> lazy_disk \<Rightarrow> bool \<times> lazy_disk" where
  "disk_step sr order (Write_Batch io ws) d =
     (case lazy_write_batch sr io ws d of (res, d') \<Rightarrow> (res = Inr (), d'))"
| "disk_step sr order (Seal completed now) d =
     (case seal_with_completion completed now d of (res, d') \<Rightarrow> (case res of Inl _ \<Rightarrow> False | Inr _ \<Rightarrow> True, d'))"
| "disk_step sr order (Capture g) d =
     (case capture sr order g d of (res, d') \<Rightarrow> (case res of Inl _ \<Rightarrow> False | Inr _ \<Rightarrow> True, d'))"
| "disk_step sr order (Publish g backup) d =
     (case commit_published g backup d of (res, d') \<Rightarrow> (res = Inr (), d'))"

section \<open>Refinement\<close>

lemma contents_eqI:
  assumes "lazy_ok sr d log" "lazy_ok sr d' log'" "lz_size d' = lz_size d"
    and "\<And>p. p < lz_size d \<Longrightarrow> disk_byte sr truth d' log' g' p = disk_byte sr truth d log g p"
  shows "lazy_contents sr truth g' d' = lazy_contents sr truth g d"
  using assms lazy_contents_log [OF assms(1)] lazy_contents_log [OF assms(2)] by (auto simp: span_def)

lemma sealed_below:
  assumes "sealed_ok sr truth d log" "has_sealed g d"
  shows "g < jn_generation (lz_journal d)"
  using assms by (auto simp: sealed_ok_def Let_def has_sealed_def hm_contains_def)

lemma in_bounds_take: "in_bounds ws n \<Longrightarrow> in_bounds (take k ws) n"
  by (auto simp: in_bounds_def list_all_iff dest: in_set_takeD)

lemma write_refines:
  assumes ok: "lazy_ok sr d log" and sealed: "sealed_ok sr truth d log" and sized: "digest_sized (sr_journal sr)"
    and run: "lazy_write_batch sr io ws d = (res, d')"
  shows "(\<exists>log'. lazy_ok sr d' log' \<and> sealed_ok sr truth d' log')
    \<and> spec_step (Write_Batch io ws) (res = Inr ()) (abs_disk sr truth d) (abs_disk sr truth d')"
proof -
  from lazy_write_batch_ok [OF ok sized run] obtain k log' where
    w: "wrote sr truth (take k ws) d log d' log'" and k: "\<And>u. res = Inr u \<Longrightarrow> k = length ws \<and> in_bounds ws (lz_size d)"
    and part: "k = 0 \<or> in_bounds ws (lz_size d)"
    by blast
  have s': "sealed_ok sr truth d' log'" using wrote_sealed [OF sealed w lazy_write_published [OF run]] .
  have ok': "lazy_ok sr d' log'" using w by (simp add: wrote_def)
  have same: "has_sealed g d' = has_sealed g d" for g using w by (simp add: wrote_def has_sealed_def store_kept_def)
  have old: "lazy_contents sr truth g d' = lazy_contents sr truth g d" if "has_sealed g d" for g
    using w sealed_below [OF sealed that] by (intro contents_eqI [OF ok ok']) (auto simp: wrote_def)
  have now: "lazy_contents sr truth i64_MAX d' = apply_writes (take k ws) (lazy_contents sr truth i64_MAX d)"
  proof (cases "k = 0")
    case True
    then show ?thesis using w lazy_generation_bound [OF ok]
      by (simp add: contents_eqI [OF ok ok'] wrote_def)
  next
    case False
    then show ?thesis
      using wrote_contents [OF ok w in_bounds_take, of i64_MAX] part lazy_generation_bound [OF ok] by simp
  qed
  have abs': "abs_disk sr truth d' = (abs_disk sr truth d)
      \<lparr>sp_bytes := apply_writes (take k ws) (sp_bytes (abs_disk sr truth d))\<rparr>"
    using now same old by (auto simp: abs_disk_def)
  show ?thesis
  proof (cases "res = Inr ()")
    case True
    then show ?thesis
      using ok' s' k [of "()"] abs' spec_step.written [of ws "abs_disk sr truth d" io] by (auto simp: abs_disk_def)
  next
    case False
    have "in_bounds ws (length (sp_bytes (abs_disk sr truth d))) \<or> k = 0"
      using part by (auto simp: abs_disk_def)
    from spec_step.failed [OF this, of io] show ?thesis
      using ok' s' abs' False by auto
  qed
qed

lemma seal_refines:
  assumes ok: "lazy_ok sr d log" and sealed: "sealed_ok sr truth d log"
    and run: "seal_with_completion completed now d = (res, d')"
  shows "(\<exists>log'. lazy_ok sr d' log' \<and> sealed_ok sr truth d' log')
    \<and> spec_step (Seal completed now) (case res of Inl _ \<Rightarrow> False | Inr _ \<Rightarrow> True) (abs_disk sr truth d) (abs_disk sr truth d')"
proof (cases res)
  case (Inl e)
  then have "d' = d"
    using run by (auto simp: seal_with_completion_def Let_def split: sum.splits option.splits if_splits)
  then show ?thesis using ok sealed Inl by (auto intro: spec_step.refused)
next
  case (Inr g)
  note seal = seal_ok [OF ok sealed run [unfolded Inr]]
  have fresh: "\<not> has_sealed g d" using sealed_below [OF sealed] seal by auto
  have rows: "has_sealed g' d' \<longleftrightarrow> g' = g \<or> has_sealed g' d" for g'
  proof -
    have "hm_ok (db_sealed (so_db (lz_store d)))" using sealed by (simp add: sealed_ok_def Let_def)
    then show ?thesis
      using run Inr
      by (auto simp: seal_with_completion_def Let_def has_sealed_def hm_contains_def update_accounting_def hm.get_ins
          split: sum.splits option.splits if_splits)
  qed
  have ok': "lazy_ok sr d' log" using seal by blast
  have bytes: "lazy_contents sr truth g' d' = lazy_contents sr truth g' d" for g'
    using seal by (intro contents_eqI [OF ok ok']) auto
  have all: "visible i64_MAX p r \<longleftrightarrow> visible g p r" if "r \<in> set log" for p r
    using that ok seal lazy_generation_bound [OF ok] by (auto simp: lazy_ok_def log_ok_def visible_def)
  have "newest i64_MAX p log = newest g p log" for p
    unfolding newest_def by (rule find_cong) (use all in auto)
  then have "lazy_contents sr truth g d = lazy_contents sr truth i64_MAX d"
    by (intro contents_eqI [OF ok ok]) (simp_all add: disk_byte_def)
  then have "abs_disk sr truth d' = (abs_disk sr truth d)
      \<lparr>sp_sealed := (sp_sealed (abs_disk sr truth d))(g \<mapsto> sp_bytes (abs_disk sr truth d))\<rparr>"
    using bytes rows by (auto simp: abs_disk_def)
  moreover have "sp_sealed (abs_disk sr truth d) g = None" using fresh by (simp add: abs_disk_def)
  ultimately show ?thesis
    using seal Inr spec_step.sealed [of "abs_disk sr truth d" g completed now] by auto
qed

lemma capture_refines:
  assumes ok: "lazy_ok sr d log" and sealed: "sealed_ok sr truth d log" and honest: "honest sr truth"
    and named: "blocks_named sr truth d g" and order: "\<And>xs. set (order xs) = set xs"
    and run: "capture sr order g d = (res, d')"
  shows "(\<exists>log'. lazy_ok sr d' log' \<and> sealed_ok sr truth d' log')
    \<and> spec_step (Capture g) done (abs_disk sr truth d) (abs_disk sr truth d')"
proof -
  note cap = capture_ok [OF ok sealed honest named order run]
  have rows: "has_sealed g' d' \<longleftrightarrow> has_sealed g' d" for g'
    using run sealed
    by (auto simp: capture_def Let_def has_sealed_def hm_contains_def hm.get_ins sealed_ok_def
        split: option.splits sum.splits if_splits)
  have ok': "lazy_ok sr d' log" using cap by blast
  have "lazy_contents sr truth g' d' = lazy_contents sr truth g' d" for g'
    using cap by (intro contents_eqI [OF ok ok']) auto
  then have "abs_disk sr truth d' = abs_disk sr truth d"
    using rows by (simp add: abs_disk_def fun_eq_iff)
  then show ?thesis using cap spec_step.captured by metis
qed

lemma publish_refines:
  assumes ok: "lazy_ok sr d log" and sealed: "sealed_ok sr truth d log"
    and run: "commit_published g backup d = (res, d')"
  shows "(\<exists>log'. lazy_ok sr d' log' \<and> sealed_ok sr truth d' log')
    \<and> spec_step (Publish g backup) (res = Inr ()) (abs_disk sr truth d) (abs_disk sr truth d')"
proof (cases "res = Inr ()")
  case False
  then have "d' = d" using commit_published_ok [OF ok sealed run] by simp
  then show ?thesis using ok sealed False by (auto intro: spec_step.refused)
next
  case True
  note pub = commit_published_ok [OF ok sealed run]
  from pub obtain log' where ok': "lazy_ok sr d' log'" "sealed_ok sr truth d' log'" "lz_size d' = lz_size d"
    and bytes: "\<And>g' p. g \<le> g' \<Longrightarrow> p < lz_size d \<Longrightarrow> disk_byte sr truth d' log' g' p = disk_byte sr truth d log g' p"
    by blast
  have rows: "has_sealed g' d' \<longleftrightarrow> has_sealed g' d \<and> g < g'" for g' using pub True by simp
  have con: "lazy_contents sr truth g' d' = lazy_contents sr truth g' d" if "g \<le> g'" for g'
    using bytes that by (intro contents_eqI [OF ok ok'(1,3)]) auto
  have "g \<le> i64_MAX" using pub True lazy_generation_bound [OF ok] by simp
  then have "abs_disk sr truth d' = (abs_disk sr truth d)
      \<lparr>sp_sealed := (\<lambda>g'. if g < g' then sp_sealed (abs_disk sr truth d) g' else None)\<rparr>"
    using con rows by (auto simp: abs_disk_def fun_eq_iff)
  then show ?thesis
    using ok' True spec_step.published [of g backup "abs_disk sr truth d"] by auto
qed


section \<open>A new disk\<close>

lemma created_fields:
  assumes "create_at_generation sr m g = Inr d"
  shows "\<exists>n. manifest_validate m = Inr n \<and> 1 \<le> g \<and> lz_size d = n \<and> lz_base d = m
    \<and> lz_journal d = empty_journal g 1 (- 1)\<lparr>jn_durable_through := 0\<rparr>
    \<and> lz_store d = initial_store m g \<and> ac_published (lz_accounting d) = None"
  using assms
  by (auto simp: create_at_generation_def connect_def journal_open_def initial_store_def empty_journal_def
      Let_def hm_retain_def orphan_def starts_with_def split: sum.splits if_splits)

lemma created_ok:
  assumes run: "create_at_generation sr m g = Inr d" and "g \<le> i64_MAX"
  shows "lazy_ok sr d [] \<and> sealed_ok sr truth d []"
proof -
  from created_fields [OF run] obtain n where f: "manifest_validate m = Inr n" "lz_size d = n" "lz_base d = m"
    "lz_journal d = empty_journal g 1 (- 1)\<lparr>jn_durable_through := 0\<rparr>" "lz_store d = initial_store m g"
    "ac_published (lz_accounting d) = None" by blast
  have size: "n < u64_limit" using extent_ok_nth [OF f(1)] by (auto simp: u64_limit_def)
  have index: "index_ok (empty_journal g 1 (- 1)\<lparr>jn_durable_through := 0\<rparr>) []"
    by (simp add: index_ok_def empty_journal_def block_index_def bt_get_def)
  show ?thesis
    using f size index assms(2)
    by (auto simp: lazy_ok_def disk_ok_def log_ok_def segments_ok_def sealed_ok_def log_inside_def Let_def
        initial_store_def empty_journal_def bt_get_def hm_ok_def)
qed

text \<open>
  C27: a disk created from a manifest satisfies the invariant of the development, has exactly the
  bytes of the manifest's blocks (zeros where the manifest names none) and no sealed generation.
\<close>

theorem created_disk_exact:
  assumes "create_at_generation sr m g = Inr d" "g \<le> i64_MAX" "honest sr truth" "digest_sized (sr_journal sr)"
  shows "disk_invar sr truth d
    \<and> abs_disk sr truth d = \<lparr>sp_bytes = map (base_byte truth m) [0..<lz_size d], sp_sealed = (\<lambda>_. None)\<rparr>"
proof -
  have ok: "lazy_ok sr d []" "sealed_ok sr truth d []" using created_ok [OF assms(1,2)] by auto
  from created_fields [OF assms(1)] have f: "lz_base d = m" "lz_store d = initial_store m g" by auto
  have "lazy_contents sr truth g' d = map (base_byte truth m) [0..<lz_size d]" for g'
    by (simp add: lazy_contents_log [OF ok(1)] span_def disk_byte_def newest_def f)
  moreover have "\<not> has_sealed g' d" for g'
    by (simp add: has_sealed_def f initial_store_def hm_contains_def)
  ultimately show ?thesis using ok assms(3,4) by (auto simp: disk_invar_def abs_disk_def)
qed

definition demo_sources :: sources where
  "demo_sources =
     \<lparr>sr_hashes = \<lparr>blake3_hex = \<lambda>_. replicate 64 CHR ''a'', sha256_hex = \<lambda>_. []\<rparr>,
      sr_journal = \<lparr>jh_blake3 = \<lambda>_. replicate 32 0, jh_sha256 = \<lambda>_. [], jh_hex = \<lambda>_. []\<rparr>,
      sr_memory = \<lambda>_. None, sr_cache = \<lambda>_. None, sr_fetch = \<lambda>_. Inr (replicate 7 1)\<rparr>"

definition demo_truth :: "string \<Rightarrow> byte list" where
  "demo_truth h = replicate 7 1"

definition demo_io :: io_outcome where
  "demo_io = \<lparr>io_now = 5, io_torn = None, io_sync_fails = False\<rparr>"

definition demo_disk :: lazy_disk where
  "demo_disk =
     \<lparr>lz_size = 4194311, lz_base = sample_manifest,
      lz_journal = empty_journal 1 1 (- 1)\<lparr>jn_durable_through := 0\<rparr>,
      lz_store = initial_store sample_manifest 1,
      lz_accounting = \<lparr>ac_dirty_bytes = 0, ac_dirty_since = None, ac_generation = 1, ac_journal_bytes = 0,
        ac_published = None\<rparr>\<rparr>"

lemma demo_sources_ok: "honest demo_sources demo_truth" "digest_sized (sr_journal demo_sources)"
  by (simp_all add: honest_def demo_sources_def demo_truth_def digest_sized_def)

lemma demo_created: "create_at_generation demo_sources sample_manifest 1 = Inr demo_disk"
  by (simp add: create_at_generation_def connect_def sample_manifest_valid journal_open_def initial_store_def
      empty_journal_def Let_def hm_retain_def orphan_def starts_with_def i64_MAX_def demo_disk_def)

theorem created_disk_exact_witness:
  "disk_invar demo_sources demo_truth demo_disk
    \<and> abs_disk demo_sources demo_truth demo_disk
      = \<lparr>sp_bytes = map (base_byte demo_truth sample_manifest) [0..<lz_size demo_disk], sp_sealed = (\<lambda>_. None)\<rparr>"
  using created_disk_exact [OF demo_created _ demo_sources_ok] by (simp add: i64_MAX_def)

lemma demo_invar: "disk_invar demo_sources demo_truth demo_disk"
proof -
  have "lazy_ok demo_sources demo_disk [] \<and> sealed_ok demo_sources demo_truth demo_disk []"
    by (rule created_ok [OF demo_created]) (simp add: i64_MAX_def)
  then show ?thesis using demo_sources_ok by (auto simp: disk_invar_def)
qed

definition demo_write :: disk_write where
  "demo_write = \<lparr>dw_offset = 3, dw_bytes = [7, 8]\<rparr>"

lemma demo_write_ok: "fst (lazy_write_batch demo_sources demo_io [demo_write] demo_disk) = Inr ()"
proof -
  have check: "check_writes demo_disk [demo_write] 0 = Inr 2"
    by (simp add: demo_disk_def demo_write_def lazy_check_def MAX_IO_def disk_range_def checked_add64_def u64_limit_def)
  obtain q d' where app: "append_all (sr_journal demo_sources) demo_io [demo_write] None demo_disk = (Inr (Some 1), d')"
    "jn_failed (lz_journal d') = False" "jn_next (lz_journal d') = 2" "jn_durable_through (lz_journal d') = 0"
    "jn_pending (lz_journal d') \<noteq> []"
    by (simp add: demo_disk_def demo_write_def demo_io_def append_def empty_journal_def checked_add_i64_def i64_max_def
        needs_rotation_def rotate_def initial_store_def hm_contains_def hm_get_def segment_name_def
        append_frame_def Let_def journal_insert_def hm_insert_def)
  have single: "lazy_write_batch demo_sources demo_io [demo_write] demo_disk = append_writes demo_sources demo_io [demo_write] demo_disk"
    by (simp add: lazy_write_batch_def lazy_write_at_def demo_write_def)
  have "fst (commit_write demo_io 1 (update_accounting d')) = Inr ()"
    using app(2-5)
    by (simp add: commit_write_def update_accounting_def Let_def demo_io_def journal_commit_batch_def
        check_health_def journal_committed_def)
  then show ?thesis
    unfolding single append_writes_def
    using check app(1) by (simp del: check_writes.simps append_all.simps)
qed


section \<open>Reading and capturing\<close>

text \<open>
  C17: a read of a lazy disk that succeeds returns exactly the bytes of the disk, whether they come
  from the journal, a cache or the remote source and however the request straddles them; and every
  request inside the disk within the I/O limit succeeds when the blocks of its base can be obtained.
\<close>

theorem lazy_read_exact:
  assumes "disk_invar sr truth d"
  shows "(lazy_read_at sr offset n d = Inr bytes \<longrightarrow>
        offset + n \<le> lz_size d \<and> bytes = subrange offset n (sp_bytes (abs_disk sr truth d)))
    \<and> (base_available sr (lz_base d) \<and> n \<le> MAX_IO \<and> offset + n \<le> lz_size d \<longrightarrow>
        lazy_read_at sr offset n d = Inr (subrange offset n (sp_bytes (abs_disk sr truth d))))"
proof -
  obtain log where inv: "lazy_ok sr d log" "honest sr truth" using assms by (auto simp: disk_invar_def)
  have exact: "offset + n \<le> lz_size d \<and> bytes = subrange offset n (sp_bytes (abs_disk sr truth d))"
    if "lazy_read_at sr offset n d = Inr bytes" for bytes
    using lazy.read_ok [OF disk_invar_lazy [OF assms], of io offset n bytes for io] that
    by (simp add: lazy_ops_def abs_disk_def)
  moreover have "\<exists>bytes. lazy_read_at sr offset n d = Inr bytes"
    if "base_available sr (lz_base d)" "n \<le> MAX_IO" "offset + n \<le> lz_size d"
  proof -
    have "offset + n < u64_limit" using that(3) inv(1) by (simp add: lazy_ok_def)
    then have "lazy_check d offset (length (replicate n (0 :: byte))) = Inr ()"
      using that by (simp add: lazy_check_def disk_range_def checked_add64_def)
    with read_generation_available [of sr d log] that(1) inv(1) show ?thesis
      by (simp add: lazy_read_at_def lazy_ok_def)
  qed
  ultimately show ?thesis by blast
qed

definition demo_extent :: extent where
  "demo_extent = \<lparr>ex_offset = Some 4194304, ex_size = Some 7, ex_hash = Hash_String (''b3-'' @ replicate 64 CHR ''a'')\<rparr>"

lemma demo_extent_at:
  "extent_at sample_manifest i =
     (if i = 0 then Some \<lparr>ex_offset = Some 0, ex_size = Some 4194304, ex_hash = Hash_Null\<rparr>
      else if i = 1 then Some demo_extent else None)"
  by (simp add: extent_at_def sample_manifest_def nth_opt_def demo_extent_def)

lemma demo_available: "base_available demo_sources sample_manifest"
proof -
  have "digest_matches (sr_hashes demo_sources) (''b3-'' @ replicate 64 CHR ''a'') (replicate 7 1)"
    by (simp add: digest_matches_def demo_sources_def digest_valid_def list_all_iff hex_char_def code_def)
  then have "base_block demo_sources demo_extent = Inr (replicate 7 1)"
    by (simp add: base_block_def demo_sources_def demo_extent_def)
  then show ?thesis by (auto simp: base_available_def demo_extent_at split: if_splits)
qed

theorem lazy_read_exact_witness:
  "lazy_read_at demo_sources 4194304 7 demo_disk
     = Inr (subrange 4194304 7 (sp_bytes (abs_disk demo_sources demo_truth demo_disk)))"
proof -
  have "lz_base demo_disk = sample_manifest" "lz_size demo_disk = 4194311"
    by (simp_all add: demo_disk_def)
  moreover have "7 \<le> MAX_IO" by (simp add: MAX_IO_def)
  ultimately show ?thesis
    using conjunct2 [OF lazy_read_exact [OF demo_invar, of 4194304 7]] demo_available by simp
qed

text \<open>
  C26: the manifest captured for a sealed generation describes exactly the bytes of that generation,
  block by block, although only the blocks the journal touched are rebuilt.
\<close>

theorem capture_exact:
  assumes "disk_invar sr truth d" "blocks_named sr truth d g" "\<forall>xs. set (order xs) = set xs"
    and "capture sr order g d = (Inr m, d')"
  shows "mf_size m = Some (lz_size d) \<and> map (base_byte truth m) [0..<lz_size d] = lazy_contents sr truth g d
    \<and> abs_disk sr truth d' = abs_disk sr truth d"
proof -
  obtain log where inv: "honest sr truth" "lazy_ok sr d log" "sealed_ok sr truth d log"
    using assms(1) by (auto simp: disk_invar_def)
  have cap: "captures_bytes sr truth d log g m"
    using capture_ok [OF inv(2,3,1) assms(2) _ assms(4)] assms(3) by blast
  then have "map (base_byte truth m) [0..<lz_size d] = lazy_contents sr truth g d"
    by (simp add: captures_bytes_def lazy_contents_log [OF inv(2)] span_def)
  moreover have "spec_step (Capture g) True (abs_disk sr truth d) (abs_disk sr truth d')"
    using capture_refines [OF inv(2,3,1) assms(2) _ assms(4)] assms(3) by blast
  ultimately show ?thesis using cap by (auto simp: captures_bytes_def elim: spec_step.cases)
qed

text \<open>One operation after another on the disk of the examples.\<close>

definition sealed_demo :: lazy_disk where
  "sealed_demo = snd (seal_with_completion False 9 demo_disk)"

lemma sealed_demo_eq: "seal_with_completion False 9 demo_disk = (Inr 1, sealed_demo)"
  by (simp add: sealed_demo_def demo_disk_def seal_with_completion_def journal_sync_def check_health_def
      empty_journal_def Let_def initial_store_def checked_add_i64_def i64_max_def hm_contains_def)

lemma sealed_demo_invar: "disk_invar demo_sources demo_truth sealed_demo"
proof -
  obtain log where "lazy_ok demo_sources demo_disk log" "sealed_ok demo_sources demo_truth demo_disk log"
    using demo_invar by (auto simp: disk_invar_def)
  from seal_ok [OF this sealed_demo_eq] show ?thesis using demo_sources_ok by (auto simp: disk_invar_def)
qed

lemma sealed_demo_capture:
  "capture demo_sources (\<lambda>xs. xs) 1 sealed_demo =
     (Inr sample_manifest, snd (capture demo_sources (\<lambda>xs. xs) 1 sealed_demo))"
  by (simp add: sealed_demo_def demo_disk_def seal_with_completion_def journal_sync_def check_health_def
      empty_journal_def Let_def initial_store_def checked_add_i64_def i64_max_def hm_contains_def capture_def
      update_accounting_def journal_sealed_def hm_insert_def hm_get_def changed_def)

lemma demo_byte:
  "base_byte demo_truth sample_manifest p = (if p div BLOCK = 1 then replicate 7 1 ! (p mod BLOCK) else 0)"
  by (simp add: base_byte_def demo_extent_at demo_extent_def demo_truth_def)

lemma seal_base: "lz_base (snd (seal_with_completion completed now d)) = lz_base d"
  by (auto simp: seal_with_completion_def Let_def update_accounting_def split: sum.split option.split)

lemma sealed_demo_named: "blocks_named demo_sources demo_truth sealed_demo 1"
  unfolding blocks_named_def
proof (intro allI impI)
  fix i bytes h
  assume run: "reconstruct demo_sources sealed_demo 1 i = Inr (bytes, Some h)"
  obtain log0 where demo: "lazy_ok demo_sources demo_disk log0" "sealed_ok demo_sources demo_truth demo_disk log0"
    and log0: "log0 = []"
    using created_ok [OF demo_created] by (auto simp: i64_MAX_def)
  note seal = seal_ok [OF demo sealed_demo_eq, unfolded log0]
  define n where "n = min (lz_size sealed_demo - i * BLOCK) BLOCK"
  have size: "lz_size sealed_demo = 4194311" "lz_base sealed_demo = sample_manifest"
  proof -
    have "lz_size demo_disk = 4194311" "lz_base demo_disk = sample_manifest" by (simp_all add: demo_disk_def)
    then show "lz_size sealed_demo = 4194311" "lz_base sealed_demo = sample_manifest"
      using seal seal_base [of False 9 demo_disk] by (simp_all flip: sealed_demo_def)
  qed
  have read: "read_generation demo_sources sealed_demo 1 (i * BLOCK) (replicate n 0) = Inr bytes"
    and some: "\<not> list_all (\<lambda>b. b = 0) bytes"
    using run by (auto simp: reconstruct_def Let_def n_def split: sum.splits if_splits)
  have "disk_ok demo_sources sealed_demo []" using seal by (simp add: lazy_ok_def)
  from read_generation_exact [OF this demo_sources_ok(1) read]
  have bytes: "bytes = span (base_byte demo_truth sample_manifest) (i * BLOCK) n" and inside: "i * BLOCK + n \<le> 4194311"
    using size by (simp_all add: disk_byte_def [abs_def] newest_def)
  have "i = 1"
  proof (rule ccontr)
    assume "i \<noteq> 1"
    then have "(i * BLOCK + k) div BLOCK \<noteq> 1" if "k < n" for k
      using that by (simp add: n_def)
    then show False using some by (auto simp: bytes span_def list_all_length demo_byte)
  qed
  then have "n = 7" by (simp add: n_def size BLOCK_def)
  then show "demo_truth h = bytes"
    using \<open>i = 1\<close> by (auto simp: bytes demo_truth_def BLOCK_def demo_byte intro!: span_eqI)
qed

theorem capture_exact_witness:
  "map (base_byte demo_truth sample_manifest) [0..<lz_size sealed_demo]
     = lazy_contents demo_sources demo_truth 1 sealed_demo"
proof -
  have "blocks_named demo_sources demo_truth sealed_demo 1" by (rule sealed_demo_named)
  then show ?thesis using capture_exact [OF sealed_demo_invar _ _ sealed_demo_capture] by simp
qed

end
