(* ===== verification/Recovery.thy ===== *)
theory Recovery
  imports Frames
begin

text \<open>
  Crash recovery of a journal segment: what \<open>scan_segment\<close> finds in a file that \<open>append_frame\<close> wrote,
  the last write possibly torn, is what the journal held before the crash.
\<close>

section \<open>Integers in headers\<close>

lemma foldr_le_bytes:
  "foldr (\<lambda>b acc. int (unat (b :: byte)) + 256 * acc) (map (\<lambda>i. of_int (v div 256 ^ i)) [k..<k + n]) 0
     = (v div 256 ^ k) mod 256 ^ n"
proof (induction n arbitrary: k)
  case (Suc n)
  let ?x = "v div 256 ^ k"
  have upt: "[k..<k + Suc n] = k # [Suc k..<Suc k + n]" by (simp add: upt_conv_Cons)
  have b: "int (unat (of_int ?x :: byte)) = ?x mod 256"
    by (simp add: uint_nat [symmetric] of_int_def [symmetric] uint_word_of_int)
  have "v div 256 ^ Suc k = ?x div 256" by (simp add: zdiv_zmult2_eq [symmetric] mult.commute)
  then have "foldr (\<lambda>b acc. int (unat (b :: byte)) + 256 * acc) (map (\<lambda>i. of_int (v div 256 ^ i)) [k..<k + Suc n]) 0
      = ?x mod 256 + 256 * (?x div 256 mod 256 ^ n)"
    unfolding upt using b Suc.IH [of "Suc k"] by simp
  also have "\<dots> = ?x mod (256 * 256 ^ n)" by (simp add: zmod_zmult2_eq)
  finally show ?case by simp
qed simp

lemma from_le_to_le: "0 \<le> v \<Longrightarrow> v < 2 ^ 63 \<Longrightarrow> from_le_bytes (to_le_bytes v) = v"
  using foldr_le_bytes [of v 0 8] by (simp add: from_le_bytes_def to_le_bytes_def Let_def)

section \<open>Frames in a segment\<close>

record frame =
  fr_offset :: nat
  fr_data :: "byte list"
  fr_at :: int

definition frame_valid :: "nat \<Rightarrow> frame \<Rightarrow> bool" where
  "frame_valid sz f =
     (fr_data f \<noteq> [] \<and> length (fr_data f) \<le> MAX_IO \<and> fr_offset f + length (fr_data f) \<le> sz
      \<and> 0 \<le> fr_at f \<and> fr_at f < 2 ^ 63)"

definition header_of :: "journal_hashes \<Rightarrow> int \<Rightarrow> int \<Rightarrow> frame \<Rightarrow> byte list" where
  "header_of h g s f = frame_header h s g (fr_offset f) (fr_data f) (fr_at f)"

definition frame_bytes :: "journal_hashes \<Rightarrow> int \<Rightarrow> int \<Rightarrow> frame \<Rightarrow> byte list" where
  "frame_bytes h g s f = header_of h g s f @ fr_data f"

fun segment_bytes :: "journal_hashes \<Rightarrow> int \<Rightarrow> int \<Rightarrow> frame list \<Rightarrow> byte list" where
  "segment_bytes h g s [] = []"
| "segment_bytes h g s (f # fs) = frame_bytes h g s f @ segment_bytes h g (s + 1) fs"

definition frame_record :: "journal_hashes \<Rightarrow> string \<Rightarrow> int \<Rightarrow> int \<Rightarrow> nat \<Rightarrow> frame \<Rightarrow> jrecord" where
  "frame_record h name g s pos f =
     \<lparr>jr_sequence = s, jr_generation = g, jr_start = fr_offset f, jr_end = fr_offset f + length (fr_data f),
      jr_written_at = fr_at f, jr_location = Segment_At name pos (header_of h g s f)\<rparr>"

text \<open>The journal after the frames from position \<open>pos\<close> on were read or written.\<close>

fun replay :: "journal_hashes \<Rightarrow> string \<Rightarrow> int \<Rightarrow> int \<Rightarrow> nat \<Rightarrow> frame list \<Rightarrow> journal \<Rightarrow> journal" where
  "replay h name g s pos [] j = j"
| "replay h name g s pos (f # fs) j =
     replay h name g (s + 1) (pos + JOURNAL_HEADER + length (fr_data f)) fs
       ((journal_insert (frame_record h name g s pos f) j)\<lparr>jn_next := max (jn_next j) (s + 1)\<rparr>)"

lemma header_length: "digest_sized h \<Longrightarrow> length (header_of h g s f) = JOURNAL_HEADER"
  by (simp add: header_of_def frame_header_parts(1))

lemma frame_bytes_length: "digest_sized h \<Longrightarrow> length (frame_bytes h g s f) = JOURNAL_HEADER + length (fr_data f)"
  by (simp add: frame_bytes_def header_length)

lemma header_fields:
  assumes "digest_sized h" "0 \<le> s" "s < 2 ^ 63" "0 \<le> g" "g < 2 ^ 63" "frame_valid sz f" "sz < 2 ^ 63"
  shows "integer (header_of h g s f) 8 = s" "integer (header_of h g s f) 16 = g"
    "integer (header_of h g s f) 24 = int (fr_offset f)" "integer (header_of h g s f) 32 = int (length (fr_data f))"
    "integer (header_of h g s f) 40 = fr_at f" "take 8 (header_of h g s f) = MAGIC"
proof -
  let ?H = "header_of h g s f"
  let ?F = "frame_fields s g (fr_offset f) (fr_data f) (fr_at f)"
  have t: "take 48 ?H = ?F" using frame_header_parts(2) [OF assms(1)] by (simp add: header_of_def)
  have sub: "subrange i 8 ?H = subrange i 8 ?F" if "i + 8 \<le> 48" for i
    using that by (simp add: t [symmetric] subrange_def min_def drop_take)
  have bound: "fr_offset f < 2 ^ 63" "length (fr_data f) < 2 ^ 63" "0 \<le> fr_at f" "fr_at f < 2 ^ 63"
    using assms(6,7) by (auto simp: frame_valid_def)
  have int: "integer ?H i = from_le_bytes (subrange i 8 ?F)" if "i + 8 \<le> 48" for i
    unfolding integer_def sub [OF that] ..
  show "integer ?H 8 = s" "integer ?H 16 = g" "integer ?H 24 = int (fr_offset f)"
    "integer ?H 32 = int (length (fr_data f))" "integer ?H 40 = fr_at f"
    using assms(2-5) bound from_le_to_le
    by (simp_all add: int frame_fields_def subrange_def)
  have "take 8 ?H = take 8 (take 48 ?H)" by simp
  then show "take 8 ?H = MAGIC" unfolding t by (simp add: frame_fields_def)
qed


section \<open>The scan\<close>

definition scan_start :: "int \<Rightarrow> int \<Rightarrow> int \<Rightarrow> nat \<Rightarrow> bool" where
  "scan_start first s previous pos = (previous < s \<and> first \<le> s \<and> (if pos = 0 then s = first else previous = s - 1))"

lemma header_accepted:
  assumes "digest_sized h" "0 \<le> s" "s < 2 ^ 63" "0 \<le> g" "g < 2 ^ 63" "frame_valid sz f" "sz < 2 ^ 63"
    and "scan_start first s previous pos"
  shows "frame_fields_ok (header_of h g s f) sz pos g first previous"
    "journal_digest h (take 48 (header_of h g s f)) [] = subrange 48 32 (header_of h g s f)"
proof -
  note fields = header_fields [OF assms(1-7)]
  have "fr_offset f + length (fr_data f) < u64_limit" using assms(6,7) by (auto simp: frame_valid_def u64_limit_def)
  then have "saturating_add64 (fr_offset f) (length (fr_data f)) \<le> sz"
    using assms(6) by (auto simp: frame_valid_def saturating_add64_def)
  then show "frame_fields_ok (header_of h g s f) sz pos g first previous"
    using assms(6,8) by (auto simp: frame_fields_ok_def fields frame_valid_def scan_start_def Let_def split: if_splits)
  show "journal_digest h (take 48 (header_of h g s f)) [] = subrange 48 32 (header_of h g s f)"
    unfolding header_of_def by (rule frame_header_parts(3) [OF assms(1)])
qed

lemma scan_frame:
  assumes h: "digest_sized h" "0 \<le> g" "g < 2 ^ 63" "sz < 2 ^ 63" "frame_valid sz f"
    and s: "0 \<le> s" "s < i64_max" "scan_start first s previous (length before)"
    and held: "hm_get files name = Some content" "content = before @ frame_bytes h g s f @ rest"
  shows "scan_segment h files legacy sz name g first tail content (length before) previous j =
    scan_segment h files legacy sz name g first tail content (length before + JOURNAL_HEADER + length (fr_data f)) s
      ((journal_insert (frame_record h name g s (length before) f) j)\<lparr>jn_next := max (jn_next j) (s + 1)\<rparr>)"
proof -
  let ?H = "header_of h g s f"
  have s63: "s < 2 ^ 63" using s(2) by (simp add: i64_max_def)
  note fields = header_fields [OF h(1) s(1) s63 h(2,3,5,4)]
  note accepted = header_accepted [OF h(1) s(1) s63 h(2,3,5,4) s(3)]
  have len: "length content = length before + JOURNAL_HEADER + length (fr_data f) + length rest"
    using frame_bytes_length [OF h(1)] by (simp add: held(2))
  have header: "subrange (length before) JOURNAL_HEADER content = ?H"
    using header_length [OF h(1), of g s f]
    by (simp add: held(2) frame_bytes_def subrange_append_exact)
  have read: "record_read h files legacy sz (frame_record h name g s (length before) f) = Inr (fr_data f)"
    by (rule record_read_frame [OF h(1), where before = before and after = rest and header = ?H])
      (simp_all add: held frame_bytes_def frame_record_def header_of_def)
  have after: "checked_add_i64 s 1 = Some (s + 1)"
    using s(1,2) by (simp add: checked_add_i64_def)
  have pos: "0 < JOURNAL_HEADER" by (simp add: JOURNAL_HEADER_def)
  show ?thesis
    apply (subst scan_segment.simps)
    using accepted pos read after
    by (simp add: header Let_def fields len frame_record_def)
qed

lemma scan_frames:
  assumes h: "digest_sized h" "0 \<le> g" "g < 2 ^ 63" "sz < 2 ^ 63"
    and held: "hm_get files name = Some content"
  shows "list_all (frame_valid sz) fs \<Longrightarrow> 0 \<le> s \<Longrightarrow> s + int (length fs) \<le> i64_max \<Longrightarrow>
    scan_start first s previous (length before) \<Longrightarrow> content = before @ segment_bytes h g s fs @ rest \<Longrightarrow>
    scan_segment h files legacy sz name g first tail content (length before) previous j =
    scan_segment h files legacy sz name g first tail content (length before + length (segment_bytes h g s fs))
      (if fs = [] then previous else s + int (length fs) - 1) (replay h name g s (length before) fs j)"
proof (induction fs arbitrary: s before previous j)
  case (Cons f fs)
  let ?j = "(journal_insert (frame_record h name g s (length before) f) j)\<lparr>jn_next := max (jn_next j) (s + 1)\<rparr>"
  have len: "length (before @ frame_bytes h g s f) = length before + JOURNAL_HEADER + length (fr_data f)"
    using frame_bytes_length [OF h(1)] by simp
  have pos: "0 < JOURNAL_HEADER" by (simp add: JOURNAL_HEADER_def)
  have first: "scan_segment h files legacy sz name g first tail content (length before) previous j =
      scan_segment h files legacy sz name g first tail content (length (before @ frame_bytes h g s f)) s ?j"
    unfolding len
    by (rule scan_frame [OF h _ _ _ Cons.prems(4) held]) (use Cons.prems in auto)
  have start: "scan_start first (s + 1) s (length (before @ frame_bytes h g s f))"
    using Cons.prems(4) pos unfolding len by (simp add: scan_start_def split: if_splits)
  have "scan_segment h files legacy sz name g first tail content (length (before @ frame_bytes h g s f)) s ?j =
      scan_segment h files legacy sz name g first tail content
        (length (before @ frame_bytes h g s f) + length (segment_bytes h g (s + 1) fs))
        (if fs = [] then s else s + 1 + int (length fs) - 1) (replay h name g (s + 1) (length (before @ frame_bytes h g s f)) fs ?j)"
    by (rule Cons.IH) (use Cons.prems start in auto)
  moreover have "replay h name g s (length before) (f # fs) j = replay h name g (s + 1) (length (before @ frame_bytes h g s f)) fs ?j"
    by (simp only: replay.simps len)
  moreover have "length before + length (segment_bytes h g s (f # fs))
      = length (before @ frame_bytes h g s f) + length (segment_bytes h g (s + 1) fs)" by simp
  moreover have "(if f # fs = [] then previous else s + int (length (f # fs)) - 1)
      = (if fs = [] then s else s + 1 + int (length fs) - 1)" by simp
  ultimately show ?case using first by (simp only:)
qed simp

lemma scan_torn:
  assumes h: "digest_sized h" "0 \<le> g" "g < 2 ^ 63" "sz < 2 ^ 63" "frame_valid sz f"
    and s: "0 \<le> s" "s < i64_max" "scan_start first s previous (length before)"
    and content: "content = before @ take n (frame_bytes h g s f)" "n < length (frame_bytes h g s f)"
  shows "scan_segment h files legacy sz name g first tail content (length before) previous j =
    (if tail \<or> n = 0 then Inr (length before, previous, j) else Inl (Io_Other ''Truncated sealed journal''))"
proof -
  have s63: "s < 2 ^ 63" using s(2) by (simp add: i64_max_def)
  have len: "length content = length before + n" using content by simp
  note size = frame_bytes_length [OF h(1), of g s f]
  show ?thesis
  proof (cases "n < JOURNAL_HEADER")
    case True
    then show ?thesis by (subst scan_segment.simps) (simp add: len)
  next
    case False
    let ?H = "header_of h g s f"
    note fields = header_fields [OF h(1) s(1) s63 h(2,3,5,4)]
    note accepted = header_accepted [OF h(1) s(1) s63 h(2,3,5,4) s(3)]
    have header: "subrange (length before) JOURNAL_HEADER content = ?H"
      using header_length [OF h(1), of g s f] False
      by (simp add: content(1) frame_bytes_def subrange_def)
    have "n - JOURNAL_HEADER < length (fr_data f)" "0 < n" using False content(2) size by (auto simp: JOURNAL_HEADER_def)
    then show ?thesis
      apply (subst scan_segment.simps)
      using accepted False by (simp add: header Let_def fields len)
  qed
qed


section \<open>The journal that wrote the segment\<close>

text \<open>What the index of a journal holds, and its next sequence.\<close>

definition journal_view :: "journal \<Rightarrow>
    index \<times> (nat, index) btree_map \<times> (int \<times> nat \<times> nat, int) hash_map \<times> (int, nat \<times> int) btree_map \<times> nat \<times> int option \<times> int" where
  "journal_view j = (jn_records j, jn_blocks j, jn_latest j, jn_epochs j, jn_dirty_bytes j, jn_dirty_since j, jn_next j)"

lemma journal_view_insert:
  "journal_view j = journal_view j' \<Longrightarrow>
   journal_view ((journal_insert r j)\<lparr>jn_next := n\<rparr>) = journal_view ((journal_insert r j')\<lparr>jn_next := n\<rparr>)"
  by (simp add: journal_view_def journal_insert_def Let_def split: option.split)

lemma journal_view_replay:
  "journal_view j = journal_view j' \<Longrightarrow> journal_view (replay h name g s pos fs j) = journal_view (replay h name g s pos fs j')"
proof (induction fs arbitrary: s pos j j')
  case (Cons f fs)
  have "jn_next j = jn_next j'" using Cons.prems by (simp add: journal_view_def)
  then show ?case using Cons.IH [OF journal_view_insert [OF Cons.prems]] by simp
qed simp

fun write_frames :: "journal_hashes \<Rightarrow> frame list \<Rightarrow> journal \<Rightarrow> store \<Rightarrow> journal \<times> store" where
  "write_frames h [] j st = (j, st)"
| "write_frames h (f # fs) j st =
     (case append_frame h (fr_at f) None (fr_offset f) (fr_data f) j st of (_, j', st') \<Rightarrow> write_frames h fs j' st')"

definition active_segment :: "journal \<Rightarrow> store \<Rightarrow> string \<Rightarrow> byte list \<Rightarrow> bool" where
  "active_segment j st name content =
     (hm_ok (so_files st) \<and> (\<exists>i. jn_active j = Some i \<and> i < length (jn_segments j) \<and> sg_name (jn_segments j ! i) = name
        \<and> sg_length (jn_segments j ! i) = length content) \<and> hm_get (so_files st) name = Some content)"

lemma append_frame_live:
  assumes sized: "digest_sized h" and seg: "active_segment j st name content"
    and run: "append_frame h (fr_at f) None (fr_offset f) (fr_data f) j st = (r, j', st')"
  shows "active_segment j' st' name (content @ frame_bytes h (jn_generation j) (jn_next j) f)"
    "jn_generation j' = jn_generation j" "jn_next j' = jn_next j + 1"
    "journal_view j' = journal_view ((journal_insert
        (frame_record h name (jn_generation j) (jn_next j) (length content) f) j)\<lparr>jn_next := jn_next j + 1\<rparr>)"
proof -
  obtain i where i: "jn_active j = Some i" "i < length (jn_segments j)" "sg_name (jn_segments j ! i) = name"
    "sg_length (jn_segments j ! i) = length content" and held: "hm_ok (so_files st)" "hm_get (so_files st) name = Some content"
    using seg by (auto simp: active_segment_def)
  note bytes = frame_bytes_length [OF sized, of "jn_generation j" "jn_next j" f]
  show "active_segment j' st' name (content @ frame_bytes h (jn_generation j) (jn_next j) f)"
    using run i held bytes
    by (auto simp: append_frame_def Let_def active_segment_def journal_insert_def hm.invar_ins hm.get_ins
        write_all_at_end frame_bytes_def header_of_def)
  show "jn_generation j' = jn_generation j" "jn_next j' = jn_next j + 1"
    using run by (auto simp: append_frame_def Let_def journal_insert_def)
  show "journal_view j' = journal_view ((journal_insert
        (frame_record h name (jn_generation j) (jn_next j) (length content) f) j)\<lparr>jn_next := jn_next j + 1\<rparr>)"
  proof -
    let ?j = "j\<lparr>jn_segments := (jn_segments j)[i := (jn_segments j ! i)
                  \<lparr>sg_length := length content + (JOURNAL_HEADER + length (fr_data f))\<rparr>],
                jn_pending := hm_insert name (jn_next j) (jn_pending j),
                jn_journal_bytes := jn_journal_bytes j + (JOURNAL_HEADER + length (fr_data f))\<rparr>"
    let ?r = "frame_record h name (jn_generation j) (jn_next j) (length content) f"
    have "j' = (journal_insert ?r ?j)\<lparr>jn_next := jn_next j + 1\<rparr>"
      using run i by (simp add: append_frame_def Let_def frame_record_def header_of_def)
    moreover have "journal_view ?j = journal_view j" by (simp add: journal_view_def)
    ultimately show ?thesis using journal_view_insert [where j = ?j and j' = j and r = ?r] by simp
  qed
qed

lemma write_frames_live:
  assumes sized: "digest_sized h"
  shows "active_segment j st name content \<Longrightarrow> write_frames h fs j st = (j', st') \<Longrightarrow>
    active_segment j' st' name (content @ segment_bytes h (jn_generation j) (jn_next j) fs)
    \<and> jn_generation j' = jn_generation j \<and> jn_next j' = jn_next j + int (length fs)
    \<and> journal_view j' = journal_view (replay h name (jn_generation j) (jn_next j) (length content) fs j)"
proof (induction fs arbitrary: j st content)
  case (Cons f fs)
  obtain r j1 st1 where run: "append_frame h (fr_at f) None (fr_offset f) (fr_data f) j st = (r, j1, st1)"
    using prod_cases3 by blast
  note live = append_frame_live [OF sized Cons.prems(1) run]
  have "write_frames h fs j1 st1 = (j', st')" using Cons.prems(2) run by simp
  note rest = Cons.IH [OF live(1) this]
  let ?r = "frame_record h name (jn_generation j) (jn_next j) (length content) f"
  have "journal_view (replay h name (jn_generation j) (jn_next j + 1) (length content + JOURNAL_HEADER + length (fr_data f)) fs j1)
      = journal_view (replay h name (jn_generation j) (jn_next j) (length content) (f # fs) j)"
    using journal_view_replay [OF live(4)] by simp
  then show ?case
    using rest frame_bytes_length [OF sized, of "jn_generation j" "jn_next j" f] by (simp add: live(2,3) add.assoc)
qed simp

lemma append_frame_torn_bytes:
  assumes seg: "active_segment j st name content"
    and run: "append_frame h (fr_at f) (Some n) (fr_offset f) (fr_data f) j st = (r, j', st')"
  shows "hm_get (so_files st') name = Some (content @ take n (frame_bytes h (jn_generation j) (jn_next j) f))"
    "r = Inl (Io_Other ''write failed'')" "jn_failed j'"
  using assms by (auto simp: append_frame_def Let_def active_segment_def hm.get_ins write_all_at_end
      frame_bytes_def header_of_def)

section \<open>The property\<close>

text \<open>
  C9: Crash recovery. A journal writes frames into a new segment, then a write fails after part of its bytes.
  The journal refuses every further append; and a scan of the file at the next open, from a journal that
  agrees with what was known before the segment, ends after the last complete frame with an index, accounting
  and next sequence equal to those of the journal before the failure, so that cutting the file there restores
  it. The same bytes in a segment that is not the last one are reported as truncated.
\<close>

theorem segment_recovery:
  assumes "digest_sized h" "0 \<le> jn_generation j" "jn_generation j < 2 ^ 63" "sz < 2 ^ 63"
    and "list_all (frame_valid sz) (fs @ [f])" "0 \<le> jn_next j" "jn_next j + int (length fs) < i64_max" "previous < jn_next j"
    and "active_segment j st name []" "write_frames h fs j st = (j1, st1)"
    and "append_frame h (fr_at f) (Some n) (fr_offset f) (fr_data f) j1 st1 = (r, j2, st2)"
    and "n < JOURNAL_HEADER + length (fr_data f)" "journal_view jr = journal_view j"
  shows "append h now torn offset data j2 st2 = (Inl journal_failed, j2, st2)
    \<and> (\<exists>content content2 jr'. hm_get (so_files st1) name = Some content \<and> hm_get (so_files st2) name = Some content2
        \<and> scan_segment h (so_files st2) legacy sz name (jn_generation j) (jn_next j) True content2 0 previous jr
            = Inr (length content, if fs = [] then previous else jn_next j1 - 1, jr')
        \<and> journal_view jr' = journal_view j1 \<and> take (length content) content2 = content
        \<and> (0 < n \<longrightarrow> scan_segment h (so_files st2) legacy sz name (jn_generation j) (jn_next j) False content2 0 previous jr
              = Inl (Io_Other ''Truncated sealed journal'')))"
proof -
  let ?g = "jn_generation j" and ?s = "jn_next j"
  let ?c = "segment_bytes h ?g ?s fs"
  let ?frame = "frame_bytes h ?g (?s + int (length fs)) f"
  let ?c2 = "?c @ take n ?frame"
  let ?prev = "if fs = [] then previous else ?s + int (length fs) - 1"
  let ?jr = "replay h name ?g ?s 0 fs jr"
  have valid: "list_all (frame_valid sz) fs" "frame_valid sz f" using assms(5) by simp_all
  have live: "active_segment j1 st1 name ?c" "jn_generation j1 = ?g" "jn_next j1 = ?s + int (length fs)"
    "journal_view j1 = journal_view (replay h name ?g ?s 0 fs j)"
    using write_frames_live [OF assms(1,9,10)] by simp_all
  have torn: "hm_get (so_files st2) name = Some ?c2" "jn_failed j2"
    using append_frame_torn_bytes [OF live(1) assms(11)] by (simp_all add: live)
  have start: "scan_start ?s ?s previous (length ([] :: byte list))" using assms(8) by (simp add: scan_start_def)
  have scan: "scan_segment h (so_files st2) legacy sz name ?g ?s tail ?c2 0 previous jr =
      scan_segment h (so_files st2) legacy sz name ?g ?s tail ?c2 (length ?c) ?prev ?jr" for tail
    using scan_frames [OF assms(1-4) torn(1) valid(1) assms(6) _ start, where rest = "take n ?frame"] assms(7) by simp
  have "0 < length ?c" if "fs \<noteq> []"
    using that frame_bytes_length [OF assms(1)] by (cases fs) (auto simp: JOURNAL_HEADER_def)
  then have next_start: "scan_start ?s (?s + int (length fs)) ?prev (length ?c)"
    using assms(8) by (auto simp: scan_start_def)
  have n: "n < length ?frame" using assms(12) frame_bytes_length [OF assms(1)] by simp
  have tail: "scan_segment h (so_files st2) legacy sz name ?g ?s tail ?c2 (length ?c) ?prev ?jr =
      (if tail \<or> n = 0 then Inr (length ?c, ?prev, ?jr) else Inl (Io_Other ''Truncated sealed journal''))" for tail
    by (rule scan_torn [OF assms(1-4) valid(2) _ _ next_start refl n]) (use assms(6,7) in auto)
  have "journal_view ?jr = journal_view j1" using journal_view_replay [OF assms(13)] live(4) by simp
  moreover have "append h now torn offset data j2 st2 = (Inl journal_failed, j2, st2)"
    using torn(2) by (simp add: append_def)
  moreover have "hm_get (so_files st1) name = Some ?c" using live(1) by (simp add: active_segment_def)
  ultimately show ?thesis
    using torn(1) scan tail live(3)
    by (intro conjI exI [of _ ?c] exI [of _ ?c2] exI [of _ ?jr]) simp_all
qed


text \<open>A first segment, with one complete frame and one cut in its data.\<close>

definition demo_hashes :: journal_hashes where
  "demo_hashes = \<lparr>jh_blake3 = \<lambda>_. replicate 32 0, jh_sha256 = \<lambda>_. [], jh_hex = \<lambda>_. []\<rparr>"

definition demo_frame :: frame where
  "demo_frame = \<lparr>fr_offset = 4096, fr_data = [1, 2, 3], fr_at = 1000\<rparr>"

definition demo_journal :: journal where
  "demo_journal = (empty_journal 1 1 (- 1))
     \<lparr>jn_segments := [\<lparr>sg_name = ''s'', sg_generation = 1, sg_length = 0\<rparr>], jn_active := Some 0\<rparr>"

definition demo_store :: "database \<Rightarrow> store" where
  "demo_store db = \<lparr>so_files = [(''s'', [])], so_db = db, so_legacy = []\<rparr>"

definition demo_database :: database where
  "demo_database = \<lparr>db_manifest = sample_manifest, db_generation = 1, db_next_sequence = 1, db_sealed = [], db_published = None,
     db_completed = None, db_legacy_through = None, db_segments = [(''s'', 1, 1)]\<rparr>"

theorem segment_recovery_witness:
  "case write_frames demo_hashes [demo_frame] demo_journal (demo_store demo_database) of
     (j1, st1) \<Rightarrow>
       (case append_frame demo_hashes 1000 (Some 114) 4096 [1, 2, 3] j1 st1 of
          (r, j2, st2) \<Rightarrow>
            \<exists>content2 jr'. hm_get (so_files st2) ''s'' = Some content2
              \<and> scan_segment demo_hashes (so_files st2) [] 8192 ''s'' 1 1 True content2 0 0 (empty_journal 1 1 (- 1))
                  = Inr (115, 1, jr')
              \<and> journal_view jr' = journal_view j1)"
proof -
  obtain j1 st1 where w: "write_frames demo_hashes [demo_frame] demo_journal (demo_store demo_database) = (j1, st1)" by fastforce
  obtain r j2 st2 where t: "append_frame demo_hashes (fr_at demo_frame) (Some 114) (fr_offset demo_frame) (fr_data demo_frame) j1 st1
      = (r, j2, st2)"
    using prod_cases3 by blast
  have sized: "digest_sized demo_hashes" by (simp add: digest_sized_def demo_hashes_def)
  have j: "jn_generation demo_journal = 1" "jn_next demo_journal = 1"
    by (simp_all add: demo_journal_def empty_journal_def)
  have seg: "active_segment demo_journal (demo_store demo_database) ''s'' []"
    by (simp add: active_segment_def demo_journal_def demo_store_def hm_ok_def hm_get_def)
  have view: "journal_view (empty_journal 1 1 (- 1)) = journal_view demo_journal"
    by (simp add: journal_view_def demo_journal_def empty_journal_def)
  have "list_all (frame_valid 8192) ([demo_frame] @ [demo_frame])"
    by (simp add: frame_valid_def demo_frame_def MAX_IO_def)
  note rec = segment_recovery [OF sized _ _ _ this _ _ _ seg w t _ view, where legacy = "[]" and previous = 0]
  have size: "hm_get (so_files st1) ''s'' = Some content \<Longrightarrow> length content = 115" for content
    using write_frames_live [OF sized seg w] frame_bytes_length [OF sized, of 1 1 demo_frame]
    by (simp add: active_segment_def j demo_frame_def JOURNAL_HEADER_def)
  have "jn_next j1 = 2" using write_frames_live [OF sized seg w] by (simp add: j)
  then obtain content content2 jr' where "hm_get (so_files st1) ''s'' = Some content" "hm_get (so_files st2) ''s'' = Some content2"
    "scan_segment demo_hashes (so_files st2) [] 8192 ''s'' 1 1 True content2 0 0 (empty_journal 1 1 (- 1)) = Inr (length content, 1, jr')"
    "journal_view jr' = journal_view j1"
    using rec [where now = 0 and torn = None and offset = 0 and data = "[]"]
    by (auto simp: j i64_max_def JOURNAL_HEADER_def demo_frame_def)
  then have "\<exists>content2 jr'. hm_get (so_files st2) ''s'' = Some content2
      \<and> scan_segment demo_hashes (so_files st2) [] 8192 ''s'' 1 1 True content2 0 0 (empty_journal 1 1 (- 1)) = Inr (115, 1, jr')
      \<and> journal_view jr' = journal_view j1"
    using size by auto
  then show ?thesis using w t by (simp add: demo_frame_def)
qed

end
