(* ===== verification/Node_Policy.thy ===== *)
theory Node_Policy
  imports Rust_Map
begin

text \<open>
  Limits of a node: \<open>storage/policy.rs\<close> (storage limits, the space kept in reserve, pausing),
  \<open>nodes.rs\<close> (\<open>Resources\<close>) and the decisions of \<open>microvm/budget.rs\<close> (the shared budget, its control
  group, pressure, guest balloons, disk quota). Control files are fields of a record; what the
  kernel makes of a reclaim request and of a write to them is an argument. Mounting the control
  group and the HTTP calls to the virtual machine monitor are left out.
\<close>

section \<open>Storage limits\<close>

record policy =
  pl_cache_mi_b :: nat
  pl_memory_cache_mi_b :: nat
  pl_reserve_mi_b :: nat
  pl_reserve_percent :: nat
  pl_backup_seconds :: nat
  pl_max_dirty_seconds :: nat

definition default_policy :: policy where
  "default_policy =
     \<lparr>pl_cache_mi_b = 102400, pl_memory_cache_mi_b = 256, pl_reserve_mi_b = 10240,
      pl_reserve_percent = 5, pl_backup_seconds = 60, pl_max_dirty_seconds = 300\<rparr>"

definition policy_validate :: "policy \<Rightarrow> (svc_error, unit) result" where
  "policy_validate p =
     (if 16 * 1024 * 1024 < pl_cache_mi_b p
         \<or> \<not> (4 \<le> pl_memory_cache_mi_b p \<and> pl_memory_cache_mi_b p \<le> 4096)
         \<or> pl_reserve_mi_b p < 64
         \<or> 16 * 1024 * 1024 < pl_reserve_mi_b p
         \<or> \<not> (1 \<le> pl_reserve_percent p \<and> pl_reserve_percent p \<le> 50)
         \<or> \<not> (5 \<le> pl_backup_seconds p \<and> pl_backup_seconds p \<le> 3600)
         \<or> pl_max_dirty_seconds p < pl_backup_seconds p
         \<or> 86400 < pl_max_dirty_seconds p
      then Inl (Bad ''Invalid storage limits.'') else Inr ())"

text \<open>\<open>None\<close> for a value that is no object, \<open>Some None\<close> for an object that does not decode.\<close>

definition policy_for_node :: "policy option option \<Rightarrow> (svc_error, policy) result" where
  "policy_for_node v =
     (case (case v of None \<Rightarrow> Some default_policy | Some decoded \<Rightarrow> decoded) of
        None \<Rightarrow> Inl (Bad ''Invalid node storage limits.'')
      | Some p \<Rightarrow> (case policy_validate p of Inl e \<Rightarrow> Inl e | Inr _ \<Rightarrow> Inr p))"

text \<open>The products are those of 64-bit integers.\<close>

definition policy_reserve :: "policy \<Rightarrow> nat \<Rightarrow> nat" where
  "policy_reserve p tot =
     max (pl_reserve_mi_b p * 1024 * 1024 mod u64_limit)
         (tot div 100 * pl_reserve_percent p mod u64_limit)"

definition saturating_sub_i64 :: "int \<Rightarrow> int \<Rightarrow> int" where
  "saturating_sub_i64 a b = max (- (2 ^ 63)) (min i64_max (a - b))"

datatype pause = Disk_Space | Backup_Lag

definition pause_reason :: "policy \<Rightarrow> nat \<Rightarrow> nat \<Rightarrow> int option \<Rightarrow> int \<Rightarrow> pause option" where
  "pause_reason p tot free dirty_since now =
     (if free \<le> policy_reserve p tot then Some Disk_Space
      else if (case dirty_since of
                 None \<Rightarrow> False
               | Some at \<Rightarrow> int (pl_max_dirty_seconds p * 1000) \<le> saturating_sub_i64 now at)
      then Some Backup_Lag
      else None)"

section \<open>Shared budget\<close>

record resources =
  rs_cpu :: nat
  rs_memory_mi_b :: nat
  rs_disk_mi_b :: nat

definition resources_validate :: "resources \<Rightarrow> (svc_error, unit) result" where
  "resources_validate r =
     (if \<not> (1 \<le> rs_cpu r \<and> rs_cpu r \<le> 4096)
         \<or> \<not> (128 \<le> rs_memory_mi_b r \<and> rs_memory_mi_b r \<le> 1073741824)
         \<or> \<not> (128 \<le> rs_disk_mi_b r \<and> rs_disk_mi_b r \<le> 1099511627776)
      then Inl (Bad ''Invalid node resource limits.'') else Inr ())"

definition CONTROLLER_MEMORY_MIB :: nat where
  "CONTROLLER_MEMORY_MIB = 512"

definition MIN_GUEST_MEMORY_MIB :: nat where
  "MIN_GUEST_MEMORY_MIB = 128"

definition RECLAIM_HEADROOM_DIVISOR :: nat where
  "RECLAIM_HEADROOM_DIVISOR = 10"

record budget =
  bg_slots :: nat
  bg_limits :: resources

definition vm_memory_mib :: "budget \<Rightarrow> nat" where
  "vm_memory_mib b = rs_memory_mi_b (bg_limits b) - CONTROLLER_MEMORY_MIB"

definition budget_validate :: "budget \<Rightarrow> (svc_error, unit) result" where
  "budget_validate b =
     (case resources_validate (bg_limits b) of
        Inl e \<Rightarrow> Inl e
      | Inr _ \<Rightarrow>
          if vm_memory_mib b < MIN_GUEST_MEMORY_MIB
          then Inl (Bad ''Shared RAM must allow 512 MiB for the controller and at least 128 MiB for a guest.'')
          else if \<not> (1 \<le> bg_slots b \<and> bg_slots b \<le> 4096)
          then Inl (Bad ''Use between 1 and 4096 execution slots.'')
          else Inr ())"

text \<open>
  The control files. \<open>cg_memory_max\<close> is \<open>None\<close> when it holds no number; \<open>cg_cpu_max\<close> is the quota in
  a period of 100000.
\<close>

record cgroup =
  cg_memory_current :: nat
  cg_memory_max :: "nat option"
  cg_memory_high :: "nat option"
  cg_cpu_max :: "nat option"

text \<open>What the kernel does: the usage left by a reclaim, and the writes it refuses.\<close>

record kernel =
  kn_reclaimed :: "nat \<Rightarrow> nat"
  kn_memory_max_fails :: bool
  kn_memory_high_fails :: bool

definition budget_apply :: "kernel \<Rightarrow> budget \<Rightarrow> cgroup \<Rightarrow> (svc_error, unit) result \<times> cgroup" where
  "budget_apply k b cg =
     (case budget_validate b of
        Inl e \<Rightarrow> (Inl e, cg)
      | Inr _ \<Rightarrow>
          let memory = rs_memory_mi_b (bg_limits b) * 1048576;
              lower = (case cg_memory_max cg of None \<Rightarrow> True | Some limit \<Rightarrow> memory < limit);
              needed = saturating_add64 (cg_memory_current cg) (CONTROLLER_MEMORY_MIB * 1048576) - memory;
              cg1 = (if lower \<and> 0 < needed
                     then cg\<lparr>cg_memory_current := kn_reclaimed k needed\<rparr> else cg)
          in if lower
                \<and> memory < saturating_add64 (cg_memory_current cg1) (CONTROLLER_MEMORY_MIB * 1048576)
             then (Inl (Conflict ''Shared RAM budget is below current usage plus the controller reserve.''), cg1)
             else
               let cg2 = cg1\<lparr>cg_cpu_max := Some (rs_cpu (bg_limits b) * 100000)\<rparr>
               in if kn_memory_max_fails k
                  then (Inl (Internal ''memory.max''), cg2\<lparr>cg_cpu_max := cg_cpu_max cg\<rparr>)
                  else
                    let cg3 = cg2\<lparr>cg_memory_max := Some memory\<rparr>;
                        high = memory - memory div RECLAIM_HEADROOM_DIVISOR
                    in (Inr (), if kn_memory_high_fails k then cg3 else cg3\<lparr>cg_memory_high := Some high\<rparr>))"

definition memory_usage :: "nat \<Rightarrow> nat option \<Rightarrow> nat" where
  "memory_usage current inactive = current - (case inactive of None \<Rightarrow> 0 | Some n \<Rightarrow> n)"

datatype pressure_kind = Memory_Pressure | Disk_Pressure

definition pressure :: "nat \<Rightarrow> nat \<Rightarrow> nat \<Rightarrow> nat \<Rightarrow> pressure_kind option" where
  "pressure memory memory_limit free_disk disk_reserve =
     (if memory_limit \<le> saturating_add64 memory 256 then Some Memory_Pressure
      else if free_disk \<le> saturating_add64 disk_reserve (128 * 1048576) then Some Disk_Pressure
      else None)"

section \<open>Guest balloons\<close>

definition RECLAIM_ABOVE_PERCENT :: nat where
  "RECLAIM_ABOVE_PERCENT = 85"

definition RETURN_BELOW_PERCENT :: nat where
  "RETURN_BELOW_PERCENT = 75"

definition GUEST_FLOOR_MIB :: nat where
  "GUEST_FLOOR_MIB = 1024"

definition BALLOON_STEP_MIB :: nat where
  "BALLOON_STEP_MIB = 256"

definition balloon_target :: "nat \<Rightarrow> nat \<Rightarrow> nat \<Rightarrow> nat \<Rightarrow> nat option" where
  "balloon_target used_mib limit_mib actual_mib available_mib =
     (if limit_mib * RECLAIM_ABOVE_PERCENT < used_mib * 100
      then let extra = min (available_mib - GUEST_FLOOR_MIB) BALLOON_STEP_MIB
           in if 0 < extra then Some (actual_mib + extra) else None
      else if used_mib * 100 < limit_mib * RETURN_BELOW_PERCENT \<and> 0 < actual_mib
      then Some (actual_mib - BALLOON_STEP_MIB)
      else None)"

text \<open>
  One guest of \<open>rebalance\<close>: its statistics (a missing field reads as zero), and whether the monitor
  says it is running, which an unanswered or unreadable reply counts against.
\<close>

record balloon_stats =
  bs_actual_mib :: "nat option"
  bs_available_memory :: "nat option"
  bs_target_mib :: "nat option"

definition or_zero :: "nat option \<Rightarrow> nat" where
  "or_zero v = (case v of None \<Rightarrow> 0 | Some n \<Rightarrow> n)"

definition rebalance_guest :: "nat \<Rightarrow> nat \<Rightarrow> balloon_stats \<Rightarrow> bool \<Rightarrow> nat option" where
  "rebalance_guest used_mib limit_mib stats running =
     (let actual = or_zero (bs_actual_mib stats);
          available = or_zero (bs_available_memory stats) div 1048576
      in case balloon_target used_mib limit_mib actual available of
           None \<Rightarrow> None
         | Some target \<Rightarrow>
             if target < actual
                \<and> (actual + 16 < or_zero (bs_target_mib stats) \<or> \<not> running)
             then None else Some target)"

section \<open>Disk quota\<close>

datatype fs_tree = Tree_File nat | Tree_Link | Tree_Dir "fs_tree list"

fun allocated :: "fs_tree list \<Rightarrow> nat" where
  "allocated [] = 0"
| "allocated (Tree_File blocks # ts) = saturating_add64 (saturating_mul64 blocks 512) (allocated ts)"
| "allocated (Tree_Link # ts) = allocated ts"
| "allocated (Tree_Dir inner # ts) = saturating_add64 (allocated inner) (allocated ts)"

record disk_usage =
  du_sampled :: nat
  du_bytes :: nat

text \<open>
  \<open>now\<close> and \<open>du_sampled\<close> are in nanoseconds of the monotone clock; \<open>roots\<close> are the directories of the
  node's disks and images.
\<close>

definition disk_bytes ::
  "nat \<Rightarrow> fs_tree list list \<Rightarrow> string \<Rightarrow> (string, disk_usage) hash_map \<Rightarrow> nat \<times> (string, disk_usage) hash_map" where
  "disk_bytes now roots state usage =
     (case hm_get usage state of
        Some value \<Rightarrow>
          if now - du_sampled value < 10 ^ 9 then (du_bytes value, usage)
          else let bytes = foldl (\<lambda>acc root. saturating_add64 acc (allocated root)) 0 roots
               in (bytes, hm_insert state \<lparr>du_sampled = now, du_bytes = bytes\<rparr> usage)
      | None \<Rightarrow>
          let bytes = foldl (\<lambda>acc root. saturating_add64 acc (allocated root)) 0 roots
          in (bytes, hm_insert state \<lparr>du_sampled = now, du_bytes = bytes\<rparr> usage))"

definition charge_disk :: "string \<Rightarrow> nat \<Rightarrow> (string, disk_usage) hash_map \<Rightarrow> (string, disk_usage) hash_map" where
  "charge_disk state bytes usage =
     (case hm_get usage state of
        None \<Rightarrow> usage
      | Some value \<Rightarrow> hm_insert state (value\<lparr>du_bytes := saturating_add64 (du_bytes value) bytes\<rparr>) usage)"

text \<open>
  The budget and the policy are those of the nearest ancestor directory with a budget file, if any.
\<close>

definition disk_space :: "(budget \<times> policy option) option \<Rightarrow> nat \<Rightarrow> nat \<Rightarrow> nat \<Rightarrow> nat \<times> nat" where
  "disk_space configured disk_used tot free =
     (case configured of
        None \<Rightarrow> (tot, free)
      | Some (b, stored) \<Rightarrow>
          let limit = rs_disk_mi_b (bg_limits b) * 1048576;
              remaining = limit - disk_used;
              p = (case stored of None \<Rightarrow> default_policy | Some p \<Rightarrow> p)
          in (tot, min free (saturating_add64 (policy_reserve p tot) remaining)))"

definition pending_space :: "nat \<Rightarrow> nat \<times> nat \<Rightarrow> nat \<times> nat" where
  "pending_space pending sp = (fst sp, snd sp - pending)"

section \<open>Properties\<close>

lemma policy_reserve_exact:
  assumes "policy_validate p = Inr u" "tot < u64_limit"
  shows "policy_reserve p tot = max (pl_reserve_mi_b p * 1048576) (tot div 100 * pl_reserve_percent p)"
    and "policy_reserve p tot \<le> max (2 ^ 44) (tot div 2)"
proof -
  have v: "pl_reserve_mi_b p \<le> 16777216" "pl_reserve_percent p \<le> 50"
    using assms(1) by (auto simp: policy_validate_def split: if_splits)
  have half: "tot div 100 * pl_reserve_percent p \<le> tot div 2"
  proof -
    have "tot div 100 * pl_reserve_percent p \<le> tot div 100 * 50" using v(2) by simp
    also have "\<dots> \<le> tot div 2" by linarith
    finally show ?thesis .
  qed
  have fixed: "pl_reserve_mi_b p * 1048576 \<le> 2 ^ 44" using v(1) by simp
  have "tot div 100 * pl_reserve_percent p < u64_limit" using half assms(2) by linarith
  moreover have "pl_reserve_mi_b p * 1048576 < u64_limit" using v(1) by (simp add: u64_limit_def)
  ultimately show exact: "policy_reserve p tot = max (pl_reserve_mi_b p * 1048576) (tot div 100 * pl_reserve_percent p)"
    by (simp add: policy_reserve_def mult.assoc)
  show "policy_reserve p tot \<le> max (2 ^ 44) (tot div 2)"
    unfolding exact using fixed half by (rule max.mono)
qed

text \<open>
  For limits that pass the check, the reserve of a volume of any size is computed without
  overflow and is at most half of it or 16 TiB; and a volume whose oldest unsaved write is younger
  than the backup interval, with space beyond the reserve, is never paused.
\<close>

theorem storage_limits_sound:
  assumes "policy_for_node v = Inr p" "tot < u64_limit"
  shows "policy_reserve p tot = max (pl_reserve_mi_b p * 1048576) (tot div 100 * pl_reserve_percent p)
    \<and> policy_reserve p tot \<le> max (2 ^ 44) (tot div 2)
    \<and> (policy_reserve p tot < free \<and> now - at < int (pl_backup_seconds p * 1000) \<longrightarrow>
         pause_reason p tot free (Some at) now = None)"
proof -
  obtain u where v: "policy_validate p = Inr u"
    using assms(1) by (auto simp: policy_for_node_def split: option.splits sum.splits)
  have "pl_backup_seconds p \<le> pl_max_dirty_seconds p" "5 \<le> pl_backup_seconds p"
    using v by (auto simp: policy_validate_def split: if_splits)
  then have "pause_reason p tot free (Some at) now = None"
    if "policy_reserve p tot < free" "now - at < int (pl_backup_seconds p * 1000)"
    using that by (auto simp: pause_reason_def saturating_sub_i64_def i64_max_def)
  then show ?thesis using policy_reserve_exact [OF v assms(2)] by blast
qed

theorem storage_limits_sound_witness:
  "pause_reason default_policy (2 ^ 40) (2 ^ 39) (Some 1000) 60999 = None"
  using storage_limits_sound [of None default_policy "2 ^ 40" "2 ^ 39" 60999 1000]
  by (simp add: policy_for_node_def policy_validate_def default_policy_def policy_reserve_def u64_limit_def)

text \<open>
  C38: reclaiming never squeezes a guest below its working floor, moves a balloon by at most one step,
  never deflates a guest that is paused or still inflating, and at one level of use no guest is
  inflated while another is deflated.
\<close>

theorem balloon_safe:
  assumes "rebalance_guest used limit stats running = Some target"
  defines "actual \<equiv> or_zero (bs_actual_mib stats)" and "available \<equiv> or_zero (bs_available_memory stats) div 1048576"
  shows "target \<le> actual + BALLOON_STEP_MIB \<and> actual \<le> target + BALLOON_STEP_MIB
    \<and> (actual < target \<longrightarrow> GUEST_FLOOR_MIB \<le> available - (target - actual)
        \<and> (\<forall>stats' running' target'. rebalance_guest used limit stats' running' = Some target' \<longrightarrow>
              or_zero (bs_actual_mib stats') \<le> target'))
    \<and> (target < actual \<longrightarrow> running \<and> or_zero (bs_target_mib stats) \<le> actual + 16)"
  using assms(1) unfolding actual_def available_def
  by (auto simp: rebalance_guest_def balloon_target_def Let_def RECLAIM_ABOVE_PERCENT_def RETURN_BELOW_PERCENT_def
      split: option.splits if_splits)

theorem balloon_safe_witness:
  "rebalance_guest 90 100 \<lparr>bs_actual_mib = Some 4096, bs_available_memory = Some (1100 * 1048576), bs_target_mib = None\<rparr> True
     = Some 4172 \<and> GUEST_FLOOR_MIB \<le> 1100 - (4172 - 4096)"
proof -
  let ?s = "\<lparr>bs_actual_mib = Some 4096, bs_available_memory = Some (1100 * 1048576), bs_target_mib = None\<rparr>"
  have run: "rebalance_guest 90 100 ?s True = Some 4172"
    by (simp add: rebalance_guest_def balloon_target_def or_zero_def RECLAIM_ABOVE_PERCENT_def GUEST_FLOOR_MIB_def
        BALLOON_STEP_MIB_def)
  then show ?thesis using balloon_safe [OF run] by (simp add: or_zero_def)
qed

text \<open>
  A new shared budget is accepted only if the memory in use and the controller's reserve fit
  into it whenever it lowers the limit, its soft limit stays a tenth below the hard one, and a
  refused budget leaves every limit as it was.
\<close>

theorem budget_never_evicts:
  assumes "budget_apply k b cg = (res, cg')" "cg_memory_current cg' < 2 ^ 63"
  shows "(res = Inr () \<longrightarrow>
      (let memory = rs_memory_mi_b (bg_limits b) * 1048576
       in cg_memory_max cg' = Some memory \<and> cg_cpu_max cg' = Some (rs_cpu (bg_limits b) * 100000)
          \<and> (cg_memory_max cg = None \<or> memory < the (cg_memory_max cg) \<longrightarrow>
               cg_memory_current cg' + CONTROLLER_MEMORY_MIB * 1048576 \<le> memory)
          \<and> (\<not> kn_memory_high_fails k \<longrightarrow>
               (\<exists>high. cg_memory_high cg' = Some high \<and> high + memory div 10 = memory \<and> 0 < memory div 10))))
    \<and> (res \<noteq> Inr () \<longrightarrow> cg_memory_max cg' = cg_memory_max cg \<and> cg_cpu_max cg' = cg_cpu_max cg
         \<and> cg_memory_high cg' = cg_memory_high cg)"
proof (cases "budget_validate b")
  case (Inl e)
  then show ?thesis using assms by (auto simp: budget_apply_def)
next
  case (Inr u)
  have mem: "640 \<le> rs_memory_mi_b (bg_limits b)"
    using Inr by (auto simp: budget_validate_def vm_memory_mib_def CONTROLLER_MEMORY_MIB_def MIN_GUEST_MEMORY_MIB_def
        split: sum.splits if_splits)
  have sat: "n + CONTROLLER_MEMORY_MIB * 1048576 < u64_limit" if "n < 2 ^ 63" for n
    using that by (simp add: CONTROLLER_MEMORY_MIB_def u64_limit_def)
  show ?thesis
    using assms Inr mem sat
    by (auto simp: budget_apply_def Let_def RECLAIM_HEADROOM_DIVISOR_def split: if_splits option.splits)
qed

theorem budget_never_evicts_witness:
  "(let cg' = snd (budget_apply \<lparr>kn_reclaimed = \<lambda>_. 0, kn_memory_max_fails = False, kn_memory_high_fails = False\<rparr>
        \<lparr>bg_slots = 8, bg_limits = \<lparr>rs_cpu = 7, rs_memory_mi_b = 1024, rs_disk_mi_b = 32768\<rparr>\<rparr>
        \<lparr>cg_memory_current = 0, cg_memory_max = None, cg_memory_high = None, cg_cpu_max = None\<rparr>)
    in cg_memory_max cg' = Some 1073741824 \<and> cg_cpu_max cg' = Some 700000)"
proof -
  let ?k = "\<lparr>kn_reclaimed = \<lambda>_. 0, kn_memory_max_fails = False, kn_memory_high_fails = False\<rparr>"
  let ?b = "\<lparr>bg_slots = 8, bg_limits = \<lparr>rs_cpu = 7, rs_memory_mi_b = 1024, rs_disk_mi_b = 32768\<rparr>\<rparr>"
  let ?cg = "\<lparr>cg_memory_current = 0, cg_memory_max = None, cg_memory_high = None, cg_cpu_max = None\<rparr>"
  have ok: "fst (budget_apply ?k ?b ?cg) = Inr () \<and> cg_memory_current (snd (budget_apply ?k ?b ?cg)) = 0"
    by (simp add: budget_apply_def budget_validate_def resources_validate_def vm_memory_mib_def
        CONTROLLER_MEMORY_MIB_def MIN_GUEST_MEMORY_MIB_def saturating_add64_def u64_limit_def Let_def)
  then show ?thesis
    using budget_never_evicts [of ?k ?b ?cg "Inr ()" "snd (budget_apply ?k ?b ?cg)"]
    by (auto simp: Let_def prod_eq_iff)
qed



end
