(* ===== verification/Block_Cache.thy ===== *)
theory Block_Cache
  imports Node_Policy Manifest "HOL-Library.Product_Lexorder"
begin

text \<open>
  Caches of verified blocks: \<open>storage/lazy/memory.rs\<close> (bytes in memory, the foreground working set) and
  \<open>storage/cache.rs\<close> (the index of clean cache files, eviction, write reservations). A least-recently-used
  map is a list, least recent first. A loop that the source would never leave is \<open>None\<close>. Paths are a
  linearly ordered type; the file system's answers and the free space are arguments.
\<close>

section \<open>Bytes in memory\<close>

record bytes_cache =
  bc_entries :: "(string \<times> byte list) list"
  bc_used :: nat
  bc_budget :: nat
  bc_evictions :: nat

definition MAX_CACHE_ENTRIES :: nat where
  "MAX_CACHE_ENTRIES = 8192"

definition bytes_cache_new :: "nat \<Rightarrow> bytes_cache" where
  "bytes_cache_new b = \<lparr>bc_entries = [], bc_used = 0, bc_budget = b, bc_evictions = 0\<rparr>"

definition lru_put :: "'k \<Rightarrow> 'v \<Rightarrow> ('k \<times> 'v) list \<Rightarrow> ('k \<times> 'v) list" where
  "lru_put k v xs = filter (\<lambda>(k', _). k' \<noteq> k) xs @ [(k, v)]"

definition lru_get :: "'k \<Rightarrow> ('k \<times> 'v) list \<Rightarrow> 'v option \<times> ('k \<times> 'v) list" where
  "lru_get k xs = (case map_of xs k of None \<Rightarrow> (None, xs) | Some v \<Rightarrow> (Some v, lru_put k v xs))"

definition cache_get :: "string \<Rightarrow> bool \<Rightarrow> bytes_cache \<Rightarrow> byte list option \<times> bytes_cache" where
  "cache_get key foreground c =
     (if foreground
      then let (v, entries) = lru_get key (bc_entries c) in (v, c\<lparr>bc_entries := entries\<rparr>)
      else (map_of (bc_entries c) key, c))"

definition cache_evict :: "bytes_cache \<Rightarrow> bytes_cache" where
  "cache_evict c =
     (case bc_entries c of
        [] \<Rightarrow> c
      | (_, bytes) # rest \<Rightarrow>
          c\<lparr>bc_entries := rest, bc_used := bc_used c - length bytes, bc_evictions := bc_evictions c + 1\<rparr>)"

text \<open>The entries an insertion starts from hold no value under its key.\<close>

definition cache_pop :: "string \<Rightarrow> bytes_cache \<Rightarrow> bytes_cache" where
  "cache_pop key c =
     (case map_of (bc_entries c) key of
        None \<Rightarrow> c
      | Some previous \<Rightarrow>
          c\<lparr>bc_entries := filter (\<lambda>(k, _). k \<noteq> key) (bc_entries c),
            bc_used := bc_used c - length previous\<rparr>)"

text \<open>Evicting while the bytes do not fit: no result when nothing is left to evict and they still do not.\<close>

function evict_for :: "nat \<Rightarrow> bytes_cache \<Rightarrow> bytes_cache option" where
  "evict_for n c =
     (if bc_budget c < bc_used c + n \<or> MAX_CACHE_ENTRIES \<le> length (bc_entries c)
      then if bc_entries c = [] then None else evict_for n (cache_evict c)
      else Some c)"
  by pat_completeness auto
termination
  by (relation "measure (\<lambda>(n, c). length (bc_entries c))") (auto simp: cache_evict_def split: list.split)

declare evict_for.simps [simp del]

definition cache_insert :: "string \<Rightarrow> byte list \<Rightarrow> bool \<Rightarrow> bytes_cache \<Rightarrow> bytes_cache option" where
  "cache_insert key bytes foreground c =
     (if \<not> foreground \<or> bc_budget c < length bytes then Some c
      else
        map_option
             (\<lambda>c2. c2\<lparr>bc_used := bc_used c2 + length bytes, bc_entries := lru_put key bytes (bc_entries c2)\<rparr>)
             (evict_for (length bytes) (cache_pop key c)))"

function shrink :: "bytes_cache \<Rightarrow> bytes_cache option" where
  "shrink c =
     (if bc_budget c < bc_used c
      then if bc_entries c = [] then None else shrink (cache_evict c)
      else Some c)"
  by pat_completeness auto
termination
  by (relation "measure (\<lambda>c. length (bc_entries c))") (auto simp: cache_evict_def split: list.split)

declare shrink.simps [simp del]

definition cache_resize :: "nat \<Rightarrow> bytes_cache \<Rightarrow> bytes_cache option" where
  "cache_resize b c = shrink (c\<lparr>bc_budget := b\<rparr>)"

section \<open>The working set\<close>

definition CACHE_BLOCK :: nat where
  "CACHE_BLOCK = 4 * 1024 * 1024"

definition block_capacity :: "bytes_cache \<Rightarrow> nat" where
  "block_capacity c = min (div_ceil (bc_budget c) CACHE_BLOCK) MAX_CACHE_ENTRIES"

type_synonym working_set = "nat list"

definition ws_put :: "nat \<Rightarrow> working_set \<Rightarrow> working_set" where
  "ws_put i ws = filter (\<lambda>k. k \<noteq> i) ws @ [i]"

definition ws_resize :: "nat \<Rightarrow> working_set \<Rightarrow> working_set" where
  "ws_resize capacity ws = drop (length ws - capacity) ws"

definition ws_record :: "nat \<Rightarrow> nat \<Rightarrow> nat \<Rightarrow> working_set \<Rightarrow> working_set" where
  "ws_record offset len capacity ws =
     (if len = 0 \<or> capacity = 0 then ws_resize capacity ws
      else ws_resize capacity
             (foldl (\<lambda>acc i. ws_put i acc) ws [offset div CACHE_BLOCK ..< Suc ((offset + len - 1) div CACHE_BLOCK)]))"

definition ws_ranks :: "nat \<Rightarrow> working_set \<Rightarrow> (nat \<times> nat) list \<times> working_set" where
  "ws_ranks capacity ws =
     (let ws' = ws_resize capacity ws in (map (\<lambda>(rank, i). (i, rank)) (enumerate 0 ws'), ws'))"

text \<open>The order in which \<open>capture\<close> has changed blocks rebuilt: by rank, blocks outside the set first.\<close>

definition rebuild_order :: "(nat \<times> nat) list \<Rightarrow> nat list \<Rightarrow> nat list" where
  "rebuild_order ranks changed =
     sort_key (\<lambda>i. case map_of ranks i of None \<Rightarrow> 0 | Some rank \<Rightarrow> rank + 1) changed"

section \<open>Clean cache files\<close>

record 'p clean_index =
  ci_bytes :: nat
  ci_files :: "('p, nat \<times> nat) hash_map"
  ci_oldest :: "(nat \<times> 'p) list"

definition saturating_sub :: "nat \<Rightarrow> nat \<Rightarrow> nat" where
  "saturating_sub a b = a - b"

definition index_remove :: "'p::linorder \<Rightarrow> 'p clean_index \<Rightarrow> nat option \<times> 'p clean_index" where
  "index_remove path ix =
     (case hm_get (ci_files ix) path of
        None \<Rightarrow> (None, ix)
      | Some (sz, modified) \<Rightarrow>
          (Some sz, ix\<lparr>ci_files := hm_remove path (ci_files ix),
                       ci_oldest := remove1 (modified, path) (ci_oldest ix),
                       ci_bytes := saturating_sub (ci_bytes ix) sz\<rparr>))"

definition index_insert :: "'p::linorder \<Rightarrow> nat \<Rightarrow> nat \<Rightarrow> 'p clean_index \<Rightarrow> 'p clean_index" where
  "index_insert path sz modified ix =
     (let ix1 = snd (index_remove path ix)
      in ix1\<lparr>ci_bytes := saturating_add64 (ci_bytes ix1) sz,
             ci_oldest := insort (modified, path) (ci_oldest ix1),
             ci_files := hm_insert path (sz, modified) (ci_files ix1)\<rparr>)"

definition index_touch :: "'p::linorder \<Rightarrow> nat \<Rightarrow> 'p clean_index \<Rightarrow> 'p clean_index" where
  "index_touch path modified ix =
     (case index_remove path ix of
        (None, ix1) \<Rightarrow> ix1
      | (Some sz, ix1) \<Rightarrow> index_insert path sz modified ix1)"

text \<open>What a directory walk reports of one entry of a \<open>lazy/cache\<close> directory.\<close>

record 'p cache_entry =
  ce_path :: 'p
  ce_name :: string
  ce_is_file :: bool
  ce_len :: nat
  ce_modified :: nat

definition index_empty :: "'p clean_index" where
  "index_empty = \<lparr>ci_bytes = 0, ci_files = [], ci_oldest = []\<rparr>"

definition index_add :: "'p::linorder clean_index \<Rightarrow> 'p cache_entry \<Rightarrow> 'p clean_index" where
  "index_add ix e =
     (if \<not> ce_is_file e \<or> \<not> digest_valid (ce_name e) then ix
      else index_insert (ce_path e) (ce_len e) (ce_modified e) ix)"

definition index_scan :: "'p::linorder cache_entry list \<Rightarrow> 'p clean_index" where
  "index_scan found = foldl index_add index_empty found"

text \<open>A fill charges the quota in whole pages and is indexed with its size.\<close>

definition cache_filled ::
  "string \<Rightarrow> 'p::linorder \<Rightarrow> nat \<Rightarrow> nat \<Rightarrow> (string, disk_usage) hash_map \<Rightarrow> (string, 'p clean_index) hash_map \<Rightarrow>
   (io_error, (string, 'p clean_index) hash_map) result \<times> (string, disk_usage) hash_map" where
  "cache_filled state path sz modified usage indexes =
     (let usage' = charge_disk state (saturating_add64 sz 4095 div 4096 * 4096) usage
      in (case hm_get indexes state of
            None \<Rightarrow> Inl (Io_Other ''Clean cache index is missing'')
          | Some ix \<Rightarrow> Inr (hm_insert state (index_insert path sz modified ix) indexes), usage'))"

definition cache_touched ::
  "string \<Rightarrow> 'p::linorder \<Rightarrow> nat \<Rightarrow> (string, 'p clean_index) hash_map \<Rightarrow> (string, 'p clean_index) hash_map" where
  "cache_touched state path modified indexes =
     (case hm_get indexes state of
        None \<Rightarrow> indexes
      | Some ix \<Rightarrow> hm_insert state (index_touch path modified ix) indexes)"

subsection \<open>Eviction\<close>

datatype removal = Removed | Missing | Denied io_error

text \<open>
  The loop that removes the oldest files: an error, or the bytes removed and whether a file was found
  missing; and the index. A file that is ordered but not indexed is found missing the next time.
\<close>

function evict_files ::
  "('p::linorder \<Rightarrow> removal) \<Rightarrow> nat \<Rightarrow> nat \<Rightarrow> 'p clean_index \<Rightarrow>
   (io_error, nat \<times> bool) result \<times> 'p clean_index" where
  "evict_files fs required removed ix =
     (if removed < required
      then (case ci_oldest ix of
              [] \<Rightarrow> (Inr (removed, False), ix)
            | (modified, path) # _ \<Rightarrow>
                (case fs path of
                   Denied e \<Rightarrow> (Inl e, ix)
                 | Missing \<Rightarrow> (Inr (removed, True), snd (index_remove path ix))
                 | Removed \<Rightarrow>
                     (case index_remove path ix of
                        (None, _) \<Rightarrow> (Inr (removed, True), ix)
                      | (Some sz, ix') \<Rightarrow> evict_files fs required (removed + sz) ix')))
      else (Inr (removed, False), ix))"
  by pat_completeness auto

lemma index_remove_oldest_length:
  "index_remove path ix = (Some sz, ix') \<Longrightarrow> length (ci_files ix') < length (ci_files ix)"
proof -
  assume a: "index_remove path ix = (Some sz, ix')"
  then obtain modified where "map_of (ci_files ix) path = Some (sz, modified)"
    by (auto simp: index_remove_def hm_get_def split: option.splits)
  then have "(path, sz, modified) \<in> set (ci_files ix)" by (rule map_of_SomeD)
  then have "length (filter (\<lambda>p. path \<noteq> fst p) (ci_files ix)) < length (ci_files ix)"
    by (intro length_filter_less) auto
  then show ?thesis
    using a by (auto simp: index_remove_def hm_remove_def AList.delete_eq case_prod_unfold split: option.splits)
qed

termination evict_files
  by (relation "measure (\<lambda>(fs, required, removed, ix). length (ci_files ix))")
    (auto intro: index_remove_oldest_length [OF sym])

declare evict_files.simps [simp del]

text \<open>
  What one pass of \<open>evict\<close> sees: the answers of the file system to removals, the total and free space
  before, the free space after.
\<close>

record 'p pass =
  pa_fs :: "'p \<Rightarrow> removal"
  pa_total :: nat
  pa_free :: nat
  pa_free_after :: nat

definition cache_required :: "policy \<Rightarrow> nat \<Rightarrow> nat \<Rightarrow> nat \<Rightarrow> nat \<Rightarrow> nat" where
  "cache_required p bytes incoming tot free =
     max (saturating_add64 bytes incoming - pl_cache_mi_b p * 1024 * 1024)
         (saturating_add64 (policy_reserve p tot) incoming - free)"

text \<open>One pass: \<open>None\<close> when the index has to be built again, otherwise whether the bytes are admitted.\<close>

definition evict_pass ::
  "bool \<Rightarrow> 'p::linorder pass \<Rightarrow> policy \<Rightarrow> nat \<Rightarrow> 'p clean_index \<Rightarrow> (io_error, bool option) result \<times> 'p clean_index" where
  "evict_pass first w p incoming ix =
     (let required = cache_required p (ci_bytes ix) incoming (pa_total w) (pa_free w)
      in case evict_files (pa_fs w) required 0 ix of
           (Inl e, ix') \<Rightarrow> (Inl e, ix')
         | (Inr (removed, missing), ix') \<Rightarrow>
             if missing \<and> first then (Inr None, ix')
             else (Inr (Some (required \<le> removed
                     \<and> saturating_add64 (policy_reserve p (pa_total w)) incoming < pa_free_after w)), ix'))"

type_synonym 'p walk = "(io_error, 'p cache_entry list) result"

definition evict ::
  "'p::linorder walk \<Rightarrow> 'p walk \<Rightarrow> 'p pass \<Rightarrow> 'p pass \<Rightarrow> policy \<Rightarrow> nat \<Rightarrow> bool \<Rightarrow> bool \<Rightarrow> 'p clean_index option \<Rightarrow>
   (io_error, bool) result \<times> 'p clean_index option" where
  "evict walk1 walk2 w1 w2 p incoming reconcile stale known =
     (case (if known = None \<or> reconcile \<and> stale then map_sum (\<lambda>e. e) index_scan walk1
            else Inr (the known)) of
        Inl e \<Rightarrow> (Inl e, known)
      | Inr ix \<Rightarrow>
          (case evict_pass True w1 p incoming ix of
             (Inl e, ix1) \<Rightarrow> (Inl e, Some ix1)
           | (Inr (Some admitted), ix1) \<Rightarrow> (Inr admitted, Some ix1)
           | (Inr None, ix1) \<Rightarrow>
               (case walk2 of
                  Inl e \<Rightarrow> (Inl e, Some ix1)
                | Inr found \<Rightarrow>
                    (case evict_pass False w2 p incoming (index_scan found) of
                       (Inl e, ix2) \<Rightarrow> (Inl e, Some ix2)
                     | (Inr admitted, ix2) \<Rightarrow> (Inr (admitted = Some True), Some ix2)))))"

text \<open>\<open>retire\<close>: clean files of one directory that the current manifest no longer names.\<close>

fun cache_retire ::
  "('p::linorder \<Rightarrow> removal) \<Rightarrow> io_error \<Rightarrow> string list \<Rightarrow> 'p cache_entry list \<Rightarrow> 'p clean_index option \<Rightarrow> nat \<Rightarrow>
   (io_error, nat) result \<times> 'p clean_index option" where
  "cache_retire fs not_found needed [] ix removed = (Inr removed, ix)"
| "cache_retire fs not_found needed (e # entries) ix removed =
     (if \<not> digest_valid (ce_name e) \<or> ce_name e \<in> set needed \<or> \<not> ce_is_file e
      then cache_retire fs not_found needed entries ix removed
      else (case fs (ce_path e) of
              Denied err \<Rightarrow> (Inl err, ix)
            | Missing \<Rightarrow> (Inl not_found, ix)
            | Removed \<Rightarrow>
                cache_retire fs not_found needed entries (map_option (snd \<circ> index_remove (ce_path e)) ix)
                  (removed + ce_len e)))"

section \<open>Write reservations\<close>

definition reserve_write :: "nat \<Rightarrow> nat \<Rightarrow> (io_error, nat) result" where
  "reserve_write bytes pending =
     (case checked_add64 pending bytes of
        None \<Rightarrow> Inl (Io_Other ''Write headroom reservation overflow'')
      | Some n \<Rightarrow> Inr n)"

definition drop_write :: "nat \<Rightarrow> nat \<Rightarrow> nat" where
  "drop_write bytes pending = (pending + u64_limit - bytes) mod u64_limit"

section \<open>The byte cache keeps its budget\<close>

definition cached_bytes :: "(string \<times> byte list) list \<Rightarrow> nat" where
  "cached_bytes es = sum_list (map (length \<circ> snd) es)"

definition bytes_cache_ok :: "bytes_cache \<Rightarrow> bool" where
  "bytes_cache_ok c =
     (distinct (map fst (bc_entries c)) \<and> bc_used c = cached_bytes (bc_entries c)
      \<and> bc_used c \<le> bc_budget c \<and> length (bc_entries c) \<le> MAX_CACHE_ENTRIES)"

text \<open>Bytes are accounted for, whatever the budget: what eviction keeps while it is above it.\<close>

definition cache_accounted :: "bytes_cache \<Rightarrow> bool" where
  "cache_accounted c =
     (distinct (map fst (bc_entries c)) \<and> bc_used c = cached_bytes (bc_entries c)
      \<and> length (bc_entries c) \<le> MAX_CACHE_ENTRIES)"

lemma cached_bytes_simps [simp]:
  "cached_bytes [] = 0"
  "cached_bytes (e # es) = length (snd e) + cached_bytes es"
  "cached_bytes (es @ fs) = cached_bytes es + cached_bytes fs"
  by (simp_all add: cached_bytes_def)

lemma bytes_cache_ok_iff: "bytes_cache_ok c \<longleftrightarrow> cache_accounted c \<and> bc_used c \<le> bc_budget c"
  by (auto simp: bytes_cache_ok_def cache_accounted_def)

lemma cache_evict_drop:
  assumes "cache_accounted c" "bc_entries c \<noteq> []"
  shows "cache_accounted (cache_evict c)" "bc_entries (cache_evict c) = tl (bc_entries c)"
    "bc_budget (cache_evict c) = bc_budget c"
  using assms by (auto simp: cache_evict_def cache_accounted_def split: list.splits)

lemma evict_for_spec:
  "cache_accounted c \<Longrightarrow> n \<le> bc_budget c \<Longrightarrow>
   \<exists>c' i. evict_for n c = Some c' \<and> cache_accounted c' \<and> bc_budget c' = bc_budget c
     \<and> bc_used c' + n \<le> bc_budget c' \<and> length (bc_entries c') < MAX_CACHE_ENTRIES
     \<and> bc_entries c' = drop i (bc_entries c)"
proof (induction n c rule: evict_for.induct)
  case (1 n c)
  show ?case
  proof (cases "bc_budget c < bc_used c + n \<or> MAX_CACHE_ENTRIES \<le> length (bc_entries c)")
    case False
    then show ?thesis
      using "1.prems" by (intro exI [of _ c] exI [of _ 0]) (simp add: evict_for.simps)
  next
    case True
    have ne: "bc_entries c \<noteq> []"
      using True "1.prems" by (auto simp: cache_accounted_def MAX_CACHE_ENTRIES_def)
    note d = cache_evict_drop [OF "1.prems"(1) ne]
    from "1.IH" [OF True ne d(1)] d(3) "1.prems" obtain c' i where
      "evict_for n (cache_evict c) = Some c'" "cache_accounted c'" "bc_budget c' = bc_budget c"
      "bc_used c' + n \<le> bc_budget c'" "length (bc_entries c') < MAX_CACHE_ENTRIES"
      "bc_entries c' = drop i (tl (bc_entries c))"
      by (auto simp: d(2))
    then show ?thesis
      using True ne
      by (intro exI [of _ c'] exI [of _ "Suc i"]) (simp add: evict_for.simps [of n c] drop_Suc)
  qed
qed

lemma shrink_spec:
  "cache_accounted c \<Longrightarrow>
   \<exists>c' i. shrink c = Some c' \<and> bytes_cache_ok c' \<and> bc_budget c' = bc_budget c
     \<and> bc_entries c' = drop i (bc_entries c)"
proof (induction c rule: shrink.induct)
  case (1 c)
  show ?case
  proof (cases "bc_budget c < bc_used c")
    case False
    then show ?thesis
      using "1.prems" by (intro exI [of _ c] exI [of _ 0]) (simp add: shrink.simps bytes_cache_ok_iff)
  next
    case True
    have ne: "bc_entries c \<noteq> []"
      using True "1.prems" by (auto simp: cache_accounted_def)
    note d = cache_evict_drop [OF "1.prems" ne]
    from "1.IH" [OF True ne d(1)] d(3) obtain c' i where
      "shrink (cache_evict c) = Some c'" "bytes_cache_ok c'" "bc_budget c' = bc_budget c"
      "bc_entries c' = drop i (tl (bc_entries c))"
      by (auto simp: d(2))
    then show ?thesis
      using True ne
      by (intro exI [of _ c'] exI [of _ "Suc i"]) (simp add: shrink.simps [of c] drop_Suc)
  qed
qed

lemma cached_bytes_remove:
  "distinct (map fst es) \<Longrightarrow> map_of es k = Some v \<Longrightarrow>
   cached_bytes es = length v + cached_bytes (filter (\<lambda>(k', _). k' \<noteq> k) es)"
proof (induction es)
  case (Cons e es)
  have "filter (\<lambda>(k', _). k' \<noteq> fst e) es = es"
    using Cons.prems(1) by (auto simp: filter_id_conv image_iff)
  then show ?case
    using Cons by (auto split: if_splits prod.splits)
qed simp

lemma distinct_filter_keys: "distinct (map fst es) \<Longrightarrow> distinct (map fst (filter P es))"
  by (simp add: distinct_map inj_on_def)

lemma cache_pop_accounted:
  assumes "cache_accounted c" "map_of (bc_entries c) k = Some v"
  shows "cache_accounted (c\<lparr>bc_entries := filter (\<lambda>(k', _). k' \<noteq> k) (bc_entries c),
    bc_used := bc_used c - length v\<rparr>)"
  using assms cached_bytes_remove [of "bc_entries c" k v]
  by (auto simp: cache_accounted_def distinct_filter_keys intro: order_trans [OF length_filter_le])

lemma map_of_filter_key: "map_of (filter (\<lambda>(k', _). k' \<noteq> k) es) k = None"
  by (auto simp: map_of_eq_None_iff)

lemma map_of_filter_other: "j \<noteq> k \<Longrightarrow> map_of (filter (\<lambda>(k', _). k' \<noteq> k) es) j = map_of es j"
  by (induction es) auto

lemma map_of_drop:
  "distinct (map fst es) \<Longrightarrow> map_of (drop i es) k = Some v \<Longrightarrow> map_of es k = Some v"
  by (metis map_of_SomeD in_set_dropD map_of_is_SomeI)

lemma lru_put_spec:
  assumes "distinct (map fst es)" "map_of es k = None"
  shows "lru_put k v es = es @ [(k, v)]" "distinct (map fst (lru_put k v es))"
proof -
  have "filter (\<lambda>(k', _). k' \<noteq> k) es = es"
    using assms(2) by (force simp: filter_id_conv map_of_eq_None_iff)
  then show "lru_put k v es = es @ [(k, v)]" by (simp add: lru_put_def)
  then show "distinct (map fst (lru_put k v es))"
    using assms by (auto simp: map_of_eq_None_iff)
qed

lemma cache_pop_spec:
  assumes "cache_accounted c"
  shows "cache_accounted (cache_pop key c)" "bc_budget (cache_pop key c) = bc_budget c"
    "map_of (bc_entries (cache_pop key c)) key = None"
    "k \<noteq> key \<Longrightarrow> map_of (bc_entries (cache_pop key c)) k = map_of (bc_entries c) k"
  using assms cache_pop_accounted [of c key]
  by (auto simp: cache_pop_def map_of_filter_other map_of_eq_None_iff split: option.split)

lemma cache_insert_spec:
  assumes ok: "bytes_cache_ok c" and fits: "foreground" "length bytes \<le> bc_budget c"
  shows "\<exists>c'. cache_insert key bytes foreground c = Some c' \<and> bytes_cache_ok c' \<and> bc_budget c' = bc_budget c
    \<and> map_of (bc_entries c') key = Some bytes
    \<and> (\<forall>k v. k \<noteq> key \<and> map_of (bc_entries c') k = Some v \<longrightarrow> map_of (bc_entries c) k = Some v)"
proof -
  have acc: "cache_accounted c" using ok by (simp add: bytes_cache_ok_iff)
  note pop = cache_pop_spec [OF acc]
  obtain c2 i where e: "evict_for (length bytes) (cache_pop key c) = Some c2" "cache_accounted c2"
    "bc_budget c2 = bc_budget c" "bc_used c2 + length bytes \<le> bc_budget c2"
    "length (bc_entries c2) < MAX_CACHE_ENTRIES" "bc_entries c2 = drop i (bc_entries (cache_pop key c))"
    using evict_for_spec [OF pop(1), of "length bytes" key] fits(2) by (auto simp: pop(2))
  have d: "distinct (map fst (bc_entries (cache_pop key c)))" "distinct (map fst (bc_entries c2))"
    using pop(1) [of key] e(2) by (simp_all add: cache_accounted_def)
  have sub: "map_of (bc_entries (cache_pop key c)) k = Some v" if "map_of (bc_entries c2) k = Some v" for k v
    using map_of_drop [OF d(1)] that by (simp add: e(6))
  then have none: "map_of (bc_entries c2) key = None"
    using pop(3) [of key] by (cases "map_of (bc_entries c2) key") auto
  let ?c' = "c2\<lparr>bc_used := bc_used c2 + length bytes, bc_entries := lru_put key bytes (bc_entries c2)\<rparr>"
  have "cache_insert key bytes foreground c = Some ?c'"
    using fits by (simp add: cache_insert_def e(1))
  moreover have "bytes_cache_ok ?c'"
    using e lru_put_spec [OF d(2) none] by (simp add: bytes_cache_ok_def cache_accounted_def)
  moreover have "map_of (lru_put key bytes (bc_entries c2)) key = Some bytes"
    using none by (simp add: lru_put_spec [OF d(2) none] map_add_def)
  moreover have "map_of (bc_entries c) k = Some v"
    if "k \<noteq> key" "map_of (lru_put key bytes (bc_entries c2)) k = Some v" for k v
  proof -
    have "map_of (bc_entries c2) k = Some v"
      using that by (auto simp: lru_put_spec [OF d(2) none] map_add_def split: option.splits)
    then show ?thesis using sub pop(4) [OF that(1)] by simp
  qed
  ultimately show ?thesis using e(3) by auto
qed

lemma cache_get_ok:
  assumes "bytes_cache_ok c"
  shows "bytes_cache_ok (snd (cache_get key foreground c))"
    "fst (cache_get key foreground c) = map_of (bc_entries c) key"
    "map_of (bc_entries (snd (cache_get key foreground c))) k = map_of (bc_entries c) k"
proof -
  let ?es = "bc_entries c"
  have d: "distinct (map fst ?es)" using assms by (simp add: bytes_cache_ok_def)
  have *: "cached_bytes (lru_put key v ?es) = cached_bytes ?es" "length (lru_put key v ?es) = length ?es"
    "distinct (map fst (lru_put key v ?es))" "map_of (lru_put key v ?es) k = map_of ?es k"
    if "map_of ?es key = Some v" for v
  proof -
    let ?f = "filter (\<lambda>(k', _). k' \<noteq> key) ?es"
    show "cached_bytes (lru_put key v ?es) = cached_bytes ?es"
      using cached_bytes_remove [OF d that] by (simp add: lru_put_def)
    have df: "distinct (map fst ?f)" using d by (rule distinct_filter_keys)
    show d': "distinct (map fst (lru_put key v ?es))"
      using df by (auto simp: lru_put_def)
    have "set (lru_put key v ?es) = set ?es"
      using that d by (auto simp: lru_put_def dest: map_of_SomeD eq_key_imp_eq_value)
    then show "map_of (lru_put key v ?es) k = map_of ?es k"
      using map_of_inject_set [OF d' d] by simp
    from \<open>set (lru_put key v ?es) = set ?es\<close> show "length (lru_put key v ?es) = length ?es"
      using distinct_card [of "lru_put key v ?es"] distinct_card [of ?es] d d' by (metis distinct_map)
  qed
  show "bytes_cache_ok (snd (cache_get key foreground c))"
    "fst (cache_get key foreground c) = map_of (bc_entries c) key"
    "map_of (bc_entries (snd (cache_get key foreground c))) k = map_of (bc_entries c) k"
    using assms * by (auto simp: cache_get_def lru_get_def bytes_cache_ok_def split: option.splits)
qed



definition demo_cache :: bytes_cache where
  "demo_cache = \<lparr>bc_entries = [(''first'', [1, 1, 1, 1]), (''second'', [2, 2, 2, 2])], bc_used = 8, bc_budget = 8,
     bc_evictions = 0\<rparr>"

lemma demo_cache_ok: "bytes_cache_ok demo_cache"
  by (simp add: demo_cache_def bytes_cache_ok_def MAX_CACHE_ENTRIES_def)



section \<open>Eviction admits what fits\<close>

definition indexed_bytes :: "('p, nat \<times> nat) hash_map \<Rightarrow> nat" where
  "indexed_bytes files = sum_list (map (\<lambda>(_, sz, _). sz) files)"

definition index_ok :: "'p::linorder clean_index \<Rightarrow> bool" where
  "index_ok ix =
     (hm_ok (ci_files ix) \<and> ci_bytes ix = indexed_bytes (ci_files ix) \<and> ci_bytes ix < u64_limit
      \<and> sorted (ci_oldest ix) \<and> distinct (ci_oldest ix)
      \<and> set (ci_oldest ix) = (\<lambda>(path, _, modified). (modified, path)) ` set (ci_files ix))"

lemma index_ok_empty: "index_ok index_empty"
  by (simp add: index_ok_def index_empty_def indexed_bytes_def u64_limit_def)

lemma oldest_indexed:
  assumes "index_ok ix" "(modified, path) \<in> set (ci_oldest ix)"
  obtains sz where "hm_get (ci_files ix) path = Some (sz, modified)"
proof -
  obtain sz where "(path, sz, modified) \<in> set (ci_files ix)"
    using assms by (auto simp: index_ok_def)
  then have "hm_get (ci_files ix) path = Some (sz, modified)"
    using assms(1) hm.set_entries [of "ci_files ix"] by (auto simp: index_ok_def)
  then show ?thesis by (rule that)
qed

lemma index_remove_spec:
  assumes ok: "index_ok ix" and get: "hm_get (ci_files ix) path = Some (sz, modified)"
  shows "index_remove path ix = (Some sz, ix\<lparr>ci_files := hm_remove path (ci_files ix),
      ci_oldest := remove1 (modified, path) (ci_oldest ix), ci_bytes := ci_bytes ix - sz\<rparr>)"
    and "index_ok (snd (index_remove path ix))"
    and "ci_bytes ix = ci_bytes (snd (index_remove path ix)) + sz"
proof -
  have hm: "hm_ok (ci_files ix)" using ok by (simp add: index_ok_def)
  show r: "index_remove path ix = (Some sz, ix\<lparr>ci_files := hm_remove path (ci_files ix),
      ci_oldest := remove1 (modified, path) (ci_oldest ix), ci_bytes := ci_bytes ix - sz\<rparr>)"
    using get by (simp add: index_remove_def saturating_sub_def)
  have sum: "indexed_bytes (ci_files ix) = sz + indexed_bytes (hm_remove path (ci_files ix))"
    using hm.sum_del [OF hm get, of "\<lambda>(_, sz, _). sz"] by (simp add: indexed_bytes_def)
  then show "ci_bytes ix = ci_bytes (snd (index_remove path ix)) + sz"
    using ok by (simp add: r index_ok_def)
  have files: "set (hm_remove path (ci_files ix)) = {(k, v) \<in> set (ci_files ix). k \<noteq> path}"
    by (rule hm.set_del [OF hm])
  have unique: "(path, v) \<in> set (ci_files ix) \<longleftrightarrow> v = (sz, modified)" for v
    using hm.set_entries [OF hm] get by auto
  have "(\<lambda>(path, _, modified). (modified, path)) ` set (hm_remove path (ci_files ix))
      = set (ci_oldest ix) - {(modified, path)}"
    using ok unique by (force simp: files index_ok_def image_iff)
  then show "index_ok (snd (index_remove path ix))"
    using ok sum hm by (simp add: r index_ok_def hm.invar_del sorted_remove1)
qed

lemma index_remove_none:
  "hm_get (ci_files ix) path = None \<Longrightarrow> index_remove path ix = (None, ix)"
  by (simp add: index_remove_def)

lemma index_remove_ok: "index_ok ix \<Longrightarrow> index_ok (snd (index_remove path ix))"
  by (cases "hm_get (ci_files ix) path") (auto simp: index_remove_none intro: index_remove_spec(2))

lemma index_remove_get:
  assumes "index_ok ix"
  shows "hm_get (ci_files (snd (index_remove path ix))) path = None"
    "ci_bytes (snd (index_remove path ix)) \<le> ci_bytes ix"
  using assms by (auto simp: index_remove_def index_ok_def hm.get_del saturating_sub_def split: option.split)

lemma index_insert_ok:
  assumes ok: "index_ok ix" and fits: "ci_bytes ix + sz < u64_limit"
  shows "index_ok (index_insert path sz modified ix)"
    "ci_bytes (index_insert path sz modified ix) \<le> ci_bytes ix + sz"
proof -
  let ?ix = "snd (index_remove path ix)"
  have ok': "index_ok ?ix" by (rule index_remove_ok [OF ok])
  have hm: "hm_ok (ci_files ?ix)" using ok' by (simp add: index_ok_def)
  note get = index_remove_get [OF ok, of path]
  have sat: "saturating_add64 (ci_bytes ?ix) sz = ci_bytes ?ix + sz"
    using get(2) fits by (simp add: saturating_add64_def)
  have sum: "indexed_bytes (hm_insert path (sz, modified) (ci_files ?ix)) = sz + indexed_bytes (ci_files ?ix)"
    using hm.sum_ins_new [OF hm get(1), of "\<lambda>(_, sz, _). sz" "(sz, modified)"] by (simp add: indexed_bytes_def)
  have notin: "(t, path) \<notin> set (ci_oldest ?ix)" for t
  proof
    assume "(t, path) \<in> set (ci_oldest ?ix)"
    then obtain sz' where "hm_get (ci_files ?ix) path = Some (sz', t)" by (rule oldest_indexed [OF ok'])
    then show False using get(1) by simp
  qed
  have "(path, v) \<notin> set (ci_files ?ix)" for v
    using get(1) hm.set_entries [OF hm] by auto
  then have "{(k, v) \<in> set (ci_files ?ix). k \<noteq> path} = set (ci_files ?ix)" by auto
  then have files: "set (hm_insert path (sz, modified) (ci_files ?ix)) = insert (path, sz, modified) (set (ci_files ?ix))"
    using hm.set_ins [OF hm, of path "(sz, modified)"] by simp
  show "index_ok (index_insert path sz modified ix)"
    using ok' notin sum get(2) fits
    by (simp add: index_insert_def Let_def index_ok_def sat hm.invar_ins files sorted_insort distinct_insort
        set_insort_key)
  show "ci_bytes (index_insert path sz modified ix) \<le> ci_bytes ix + sz"
    using get(2) by (simp add: index_insert_def Let_def sat)
qed


definition walked_bytes :: "'p cache_entry list \<Rightarrow> nat" where
  "walked_bytes found = sum_list (map ce_len found)"

lemma index_scan_from:
  "index_ok ix \<Longrightarrow> ci_bytes ix + walked_bytes found < u64_limit \<Longrightarrow>
   index_ok (foldl index_add ix found) \<and> ci_bytes (foldl index_add ix found) \<le> ci_bytes ix + walked_bytes found"
proof (induction found arbitrary: ix)
  case (Cons e found)
  have "index_ok (index_add ix e) \<and> ci_bytes (index_add ix e) \<le> ci_bytes ix + ce_len e"
    using Cons.prems index_insert_ok [of ix "ce_len e"] by (simp add: index_add_def walked_bytes_def)
  then show ?case
    using Cons.IH [of "index_add ix e"] Cons.prems by (simp add: walked_bytes_def)
qed (simp add: walked_bytes_def)

lemma index_scan_ok:
  assumes "walked_bytes found < u64_limit"
  shows "index_ok (index_scan found)" "ci_bytes (index_scan found) \<le> walked_bytes found"
  using index_scan_from [OF index_ok_empty, of found] assms
  by (simp_all add: index_scan_def index_empty_def)

definition size_of :: "'p clean_index \<Rightarrow> 'p \<Rightarrow> nat" where
  "size_of ix path = (case hm_get (ci_files ix) path of None \<Rightarrow> 0 | Some (sz, _) \<Rightarrow> sz)"

lemma evict_files_spec:
  "index_ok ix \<Longrightarrow> evict_files fs required removed ix = (r, ix') \<Longrightarrow>
   index_ok ix'
   \<and> (\<exists>gone. ci_oldest ix = gone @ ci_oldest ix'
        \<and> (gone \<noteq> [] \<longrightarrow> removed + sum_list (map (size_of ix \<circ> snd) (butlast gone)) < required))
   \<and> (\<forall>n missing. r = Inr (n, missing) \<longrightarrow> n + ci_bytes ix' \<le> removed + ci_bytes ix)"
proof (induction fs required removed ix arbitrary: r ix' rule: evict_files.induct)
  case (1 fs required removed ix)
  note step = "1.prems"(2) [unfolded evict_files.simps [of fs required removed ix]]
  show ?case
  proof (cases "removed < required \<and> ci_oldest ix \<noteq> []")
    case False
    then have "ix' = ix" "r = Inr (removed, False)"
      using step by (auto split: if_splits list.splits)
    then show ?thesis using "1.prems"(1) by simp
  next
    case True
    then obtain modified path rest where old: "ci_oldest ix = (modified, path) # rest"
      by (cases "ci_oldest ix") auto
    obtain sz where get: "hm_get (ci_files ix) path = Some (sz, modified)"
      using oldest_indexed [OF "1.prems"(1), of modified path] old by auto
    define ix1 where "ix1 = ix\<lparr>ci_files := hm_remove path (ci_files ix), ci_oldest := rest,
      ci_bytes := ci_bytes ix - sz\<rparr>"
    note spec = index_remove_spec [OF "1.prems"(1) get]
    have r: "index_remove path ix = (Some sz, ix1)" using spec(1) by (simp add: ix1_def old)
    have fields: "ci_oldest ix1 = rest" "ci_files ix1 = hm_remove path (ci_files ix)"
      by (simp_all add: ix1_def)
    note rem = r fields(1) spec(2,3) [unfolded r snd_conv] fields(2)
    show ?thesis
    proof (cases "fs path")
      case (Denied e)
      then show ?thesis using step True old "1.prems"(1) by auto
    next
      case Missing
      then show ?thesis using step True old rem by auto
    next
      case Removed
      have run: "evict_files fs required (removed + sz) ix1 = (r, ix')"
        using step True by (simp add: old Removed rem(1))
      note ih = "1.IH" [OF _ old refl Removed rem(1) [symmetric] refl rem(3) run]
      then obtain gone where gone: "rest = gone @ ci_oldest ix'"
        "gone \<noteq> [] \<longrightarrow> removed + sz + sum_list (map (size_of ix1 \<circ> snd) (butlast gone)) < required"
        using True rem(2) by (auto simp: comp_def)
      have "size_of ix1 q = size_of ix q" if later: "(t, q) \<in> set rest" for t q
      proof -
        have "hm_get (ci_files ix1) path = None"
          using "1.prems"(1) by (simp add: rem(5) hm.get_del index_ok_def)
        moreover obtain s where "hm_get (ci_files ix1) q = Some (s, t)"
          using oldest_indexed [OF rem(3), of t q] later rem(2) by auto
        ultimately have "q \<noteq> path" by auto
        then show ?thesis
          using "1.prems"(1) by (simp add: size_of_def rem(5) hm.get_del index_ok_def)
      qed
      then have "map (size_of ix1 \<circ> snd) (butlast gone) = map (size_of ix \<circ> snd) (butlast gone)"
        using gone(1) by (fastforce dest: in_set_butlastD)
      from gone(2) [unfolded this]
      have "removed + sum_list (map (size_of ix \<circ> snd) (butlast ((modified, path) # gone))) < required"
        using True get by (cases "gone = []") (simp_all add: size_of_def)
      moreover have "ci_oldest ix = ((modified, path) # gone) @ ci_oldest ix'" by (simp add: old gone(1))
      ultimately have "\<exists>gone. ci_oldest ix = gone @ ci_oldest ix'
          \<and> (gone \<noteq> [] \<longrightarrow> removed + sum_list (map (size_of ix \<circ> snd) (butlast gone)) < required)"
        by blast
      moreover have "index_ok ix' \<and> (\<forall>n missing. r = Inr (n, missing) \<longrightarrow> n + ci_bytes ix' \<le> removed + ci_bytes ix)"
        using ih True rem(4) by auto
      ultimately show ?thesis by blast
    qed
  qed
qed


lemma evict_pass_spec:
  assumes ok: "index_ok ix" and fits: "ci_bytes ix + incoming < u64_limit"
    and reserve: "policy_reserve p (pa_total w) + incoming < u64_limit"
    and pass: "evict_pass first w p incoming ix = (Inr (Some admitted), ix')"
  shows "index_ok ix'"
    and "\<exists>gone. ci_oldest ix = gone @ ci_oldest ix'
        \<and> (gone \<noteq> [] \<longrightarrow> sum_list (map (size_of ix \<circ> snd) (butlast gone))
              < cache_required p (ci_bytes ix) incoming (pa_total w) (pa_free w))"
    and "admitted \<Longrightarrow> ci_bytes ix' + incoming \<le> pl_cache_mi_b p * 1024 * 1024
        \<and> policy_reserve p (pa_total w) + incoming < pa_free_after w"
proof -
  let ?required = "cache_required p (ci_bytes ix) incoming (pa_total w) (pa_free w)"
  obtain n missing where run: "evict_files (pa_fs w) ?required 0 ix = (Inr (n, missing), ix')"
    and admitted: "admitted \<longleftrightarrow> ?required \<le> n
      \<and> saturating_add64 (policy_reserve p (pa_total w)) incoming < pa_free_after w"
    using pass by (auto simp: evict_pass_def Let_def split: prod.splits sum.splits if_splits)
  note spec = evict_files_spec [OF ok run]
  show "index_ok ix'" using spec by blast
  show "\<exists>gone. ci_oldest ix = gone @ ci_oldest ix'
        \<and> (gone \<noteq> [] \<longrightarrow> sum_list (map (size_of ix \<circ> snd) (butlast gone)) < ?required)"
    using spec by simp
  have "n + ci_bytes ix' \<le> ci_bytes ix" using spec by simp
  moreover have "ci_bytes ix + incoming - pl_cache_mi_b p * 1024 * 1024 \<le> ?required"
    using fits by (simp add: cache_required_def saturating_add64_def)
  ultimately show "ci_bytes ix' + incoming \<le> pl_cache_mi_b p * 1024 * 1024
        \<and> policy_reserve p (pa_total w) + incoming < pa_free_after w" if admitted
    using admitted that reserve by (auto simp: saturating_add64_def)
qed

lemma evict_pass_second: "evict_pass False w p incoming ix = (r, ix') \<Longrightarrow> r \<noteq> Inr None"
  by (auto simp: evict_pass_def Let_def split: prod.splits sum.splits if_splits)

definition walk_fits :: "nat \<Rightarrow> 'p walk \<Rightarrow> bool" where
  "walk_fits incoming w = (case w of Inl _ \<Rightarrow> True | Inr found \<Rightarrow> walked_bytes found + incoming < u64_limit)"

text \<open>Every answer of \<open>evict\<close> is that of one pass, over a good index.\<close>

lemma evict_by_pass:
  assumes run: "evict walk1 walk2 w1 w2 p incoming reconcile stale known = (Inr admitted, known')"
    and known: "\<And>ix. known = Some ix \<Longrightarrow> index_ok ix \<and> ci_bytes ix + incoming < u64_limit"
    and walks: "walk_fits incoming walk1" "walk_fits incoming walk2"
  obtains first w ix ix' where "known' = Some ix'" "w = w1 \<or> w = w2" "index_ok ix"
    "ci_bytes ix + incoming < u64_limit" "evict_pass first w p incoming ix = (Inr (Some admitted), ix')"
proof -
  have scan: "index_ok (index_scan found) \<and> ci_bytes (index_scan found) + incoming < u64_limit"
    if "walk_fits incoming (Inr found)" for found :: "'a cache_entry list"
    using that index_scan_ok [of found] by (simp add: walk_fits_def)
  obtain ix where start: "(if known = None \<or> reconcile \<and> stale then map_sum (\<lambda>e. e) index_scan walk1
      else Inr (the known)) = Inr ix"
    using run by (auto simp: evict_def split: sum.splits)
  have ix: "index_ok ix \<and> ci_bytes ix + incoming < u64_limit"
  proof (cases "known = None \<or> reconcile \<and> stale")
    case True
    then show ?thesis using start scan walks(1) by (cases walk1) auto
  next
    case False
    then show ?thesis using start known by auto
  qed
  obtain r ix1 where first: "evict_pass True w1 p incoming ix = (r, ix1)" by fastforce
  note rest = run [unfolded evict_def start first sum.case prod.case]
  show ?thesis
  proof (cases r)
    case (Inl e)
    then show ?thesis using rest by simp
  next
    case (Inr answer)
    show ?thesis
    proof (cases answer)
      case (Some a)
      then show ?thesis using that [of ix1 w1 ix True] rest Inr ix first by auto
    next
      case None
      obtain found where found: "walk2 = Inr found"
        using rest Inr None by (cases walk2) auto
      obtain r2 ix2 where second: "evict_pass False w2 p incoming (index_scan found) = (r2, ix2)" by fastforce
      obtain a where a: "r2 = Inr (Some a)" "admitted = a" "known' = Some ix2"
        using rest Inr None found evict_pass_second [OF second]
        by (auto simp: second split: sum.splits option.splits)
      have "index_ok (index_scan found) \<and> ci_bytes (index_scan found) + incoming < u64_limit"
        using scan walks(2) found by blast
      then show ?thesis using that [of ix2 w2 "index_scan found" False] a second by simp
    qed
  qed
qed



definition demo_index :: "nat clean_index" where
  "demo_index = \<lparr>ci_bytes = 12 * 1024 * 1024,
     ci_files = [(1, 8 * 1024 * 1024, 20), (2, 4 * 1024 * 1024, 10)], ci_oldest = [(10, 2), (20, 1)]\<rparr>"

definition demo_pass :: "nat pass" where
  "demo_pass = \<lparr>pa_fs = \<lambda>_. Removed, pa_total = 2 ^ 40, pa_free = 2 ^ 39, pa_free_after = 2 ^ 39\<rparr>"

definition demo_policy :: policy where
  "demo_policy = default_policy\<lparr>pl_cache_mi_b := 12, pl_reserve_mi_b := 64, pl_reserve_percent := 1\<rparr>"


lemma demo_index_ok: "index_ok demo_index"
  by (auto simp: demo_index_def index_ok_def hm_ok_def indexed_bytes_def u64_limit_def)

lemma demo_evict:
  "evict (Inr []) (Inr []) demo_pass demo_pass demo_policy (4 * 1024 * 1024) False False (Some demo_index)
     = (Inr True, Some (snd (index_remove 2 demo_index)))"
  by (simp add: evict_def evict_pass_def cache_required_def demo_pass_def demo_policy_def demo_index_def
      default_policy_def policy_reserve_def saturating_add64_def u64_limit_def evict_files.simps
      index_remove_def hm_get_def saturating_sub_def)


section \<open>Write reservations add up\<close>

datatype write_event = Reserve nat | Release nat

text \<open>The counter, and the reservations still held; \<open>Release i\<close> drops the \<open>i\<close>th of them.\<close>

fun write_step :: "write_event \<Rightarrow> nat \<times> nat list \<Rightarrow> nat \<times> nat list" where
  "write_step (Reserve n) (pending, held) =
     (case reserve_write n pending of Inl _ \<Rightarrow> (pending, held) | Inr pending' \<Rightarrow> (pending', n # held))"
| "write_step (Release i) (pending, held) =
     (if i < length held then (drop_write (held ! i) pending, take i held @ drop (Suc i) held) else (pending, held))"

definition write_ok :: "nat \<times> nat list \<Rightarrow> bool" where
  "write_ok s = (fst s = sum_list (snd s) \<and> fst s < u64_limit)"

lemma sum_list_take_out:
  "i < length xs \<Longrightarrow> sum_list xs = xs ! i + sum_list (take i xs @ drop (Suc i) xs)" for xs :: "nat list"
  by (subst id_take_nth_drop [of i xs]) auto

lemma write_step_ok: "write_ok s \<Longrightarrow> write_ok (write_step e s)"
proof (cases e)
  case (Release i)
  assume ok: "write_ok s"
  obtain pending held where s: "s = (pending, held)" by fastforce
  have "drop_write (held ! i) pending = sum_list (take i held @ drop (Suc i) held)" if "i < length held"
    using ok sum_list_take_out [OF that] by (simp add: s write_ok_def drop_write_def add.assoc [symmetric])
  then show ?thesis
    using ok sum_list_take_out [of i held] by (auto simp: s Release write_ok_def)
qed (cases s, auto simp: write_ok_def reserve_write_def checked_add64_def)

text \<open>
  After any sequence of write reservations and releases from an idle controller, the pending counter is
  exactly the sum of the reservations still held, so a release never wraps it around; and a further
  reservation is refused exactly when that sum would leave 64 bits, leaving counter and holders unchanged.
\<close>

theorem write_reservations_exact:
  "\<exists>pending held. fold write_step es (0, []) = (pending, held) \<and> pending = sum_list held
     \<and> (case reserve_write n pending of
          Inl _ \<Rightarrow> u64_limit \<le> sum_list held + n \<and> write_step (Reserve n) (pending, held) = (pending, held)
        | Inr pending' \<Rightarrow> pending' = sum_list held + n
            \<and> write_step (Release 0) (write_step (Reserve n) (pending, held)) = (pending, held))"
proof -
  have "write_ok (fold write_step es s)" if "write_ok s" for s
    using that by (induction es arbitrary: s) (simp_all add: write_step_ok)
  moreover have "write_ok (0, [])"
    by (simp add: write_ok_def u64_limit_def)
  ultimately have "write_ok (fold write_step es (0, []))" by blast
  then show ?thesis
    by (cases "fold write_step es (0, [])")
      (auto simp: write_ok_def reserve_write_def checked_add64_def drop_write_def split: option.split)
qed

section \<open>The working set\<close>

lemma length_ws_resize [simp]: "length (ws_resize capacity ws) \<le> capacity"
  by (simp add: ws_resize_def)

lemma ws_record_bounded:
  assumes "distinct ws"
  shows "length (ws_record offset len capacity ws) \<le> capacity" "distinct (ws_record offset len capacity ws)"
proof -
  have "distinct (foldl (\<lambda>acc i. ws_put i acc) ws is)" for "is"
    using assms by (induction "is" arbitrary: ws) (simp_all add: ws_put_def)
  then show "distinct (ws_record offset len capacity ws)"
    using assms by (simp add: ws_record_def ws_resize_def)
  show "length (ws_record offset len capacity ws) \<le> capacity"
    by (simp only: ws_record_def length_ws_resize split: if_split) simp
qed

text \<open>The order in which \<open>capture\<close> rebuilds changed blocks loses none of them.\<close>

lemma rebuild_order_set: "set (rebuild_order ranks changed) = set changed"
  by (simp add: rebuild_order_def)

end
