(* ===== verification/Store.thy ===== *)
theory Store
  imports Rust_Map
begin

text \<open>
  The document store of \<open>store.rs\<close>: one table per kind of record, keyed by the record's id, listed by
  the time of the last update, most recent first (records updated in the same millisecond are listed in
  the order of their updates). A transaction takes effect as a whole or not at all.
\<close>

type_synonym 'v table = "(string \<times> 'v) list"

definition tb_get :: "'v table \<Rightarrow> string \<Rightarrow> 'v option" where
  "tb_get t k = map_of t k"

definition tb_put :: "string \<Rightarrow> 'v \<Rightarrow> 'v table \<Rightarrow> 'v table" where
  "tb_put k v t = (k, v) # filter (\<lambda>(k', _). k' \<noteq> k) t"

definition tb_remove :: "string \<Rightarrow> 'v table \<Rightarrow> 'v table" where
  "tb_remove k t = filter (\<lambda>(k', _). k' \<noteq> k) t"

definition tb_list :: "'v table \<Rightarrow> 'v list" where
  "tb_list t = map snd t"

definition tb_ok :: "'v table \<Rightarrow> bool" where
  "tb_ok t = distinct (map fst t)"

definition transaction :: "('db \<Rightarrow> ('e, 'a) result \<times> 'db) \<Rightarrow> 'db \<Rightarrow> ('e, 'a) result \<times> 'db" where
  "transaction f db = (case f db of (Inl e, _) \<Rightarrow> (Inl e, db) | (Inr x, db') \<Rightarrow> (Inr x, db'))"

lemma map_of_filter_keys: "map_of (filter (\<lambda>(k', _). k' \<noteq> k) t) = (map_of t)(k := None)"
  by (induction t) (auto simp: fun_eq_iff)

lemma distinct_filter_fst: "distinct (map fst t) \<Longrightarrow> distinct (map fst (filter P t))"
  by (simp add: distinct_map inj_on_def)

interpretation tb: keyed_map tb_get tb_put tb_remove "\<lambda>t. t" tb_ok
  by unfold_locales
    (auto simp: tb_get_def tb_put_def tb_remove_def tb_ok_def map_of_filter_keys distinct_filter_fst fun_eq_iff)

lemma tb_ok_Nil [simp]: "tb_ok []"
  by (simp add: tb_ok_def)

lemma tb_get_Nil [simp]: "tb_get [] k = None"
  by (simp add: tb_get_def)

lemma transaction_failed: "transaction f db = (Inl e, db') \<Longrightarrow> db' = db"
  by (auto simp: transaction_def split: prod.splits sum.splits)

lemma transaction_done: "transaction f db = (Inr x, db') \<longleftrightarrow> f db = (Inr x, db')"
  by (auto simp: transaction_def split: prod.splits sum.splits)

text \<open>How many listed records satisfy a condition, after one operation.\<close>

definition tb_count :: "('v \<Rightarrow> bool) \<Rightarrow> 'v table \<Rightarrow> nat" where
  "tb_count P t = length (filter P (tb_list t))"

lemma tb_count_sum: "tb_count P t = sum_list (map (\<lambda>(_, v). if P v then 1 else 0) t)"
  by (induction t) (auto simp: tb_count_def tb_list_def)

lemma tb_count_put:
  assumes "tb_ok t"
  shows "tb_count P (tb_put k v t) + (case tb_get t k of Some u \<Rightarrow> if P u then 1 else 0 | None \<Rightarrow> 0)
    = tb_count P t + (if P v then 1 else 0)"
proof (cases "tb_get t k")
  case None
  then show ?thesis
    using tb.sum_ins_new [OF assms None, of "\<lambda>(_, v). if P v then 1 else 0" v] by (simp add: tb_count_sum)
next
  case (Some u)
  then show ?thesis
    using tb.sum_ins_old [OF assms Some, of "\<lambda>(_, v). if P v then 1 else 0" v] by (simp add: tb_count_sum)
qed

lemma set_tb_list: "tb_ok t \<Longrightarrow> set (tb_list t) = {v. \<exists>k. tb_get t k = Some v}"
  using tb.set_entries [of t] by (auto simp: tb_list_def image_iff)

end
