(* ===== verification/Placement.thy ===== *)
theory Placement
  imports Store Node_Policy Rust_Str
begin

text \<open>
  Admission of executions to nodes: \<open>nodes/placement.rs\<close>, with the helpers of \<open>nodes.rs\<close> and
  \<open>service.rs\<close> it uses. A record has one field per JSON member the code reads, with the value its accessor
  returns (\<open>as_str\<close>, \<open>as_u64\<close>: an option; \<open>== true\<close>: a truth value). The clock is an argument. A free-slot
  fraction is the pair of its terms, compared by cross-multiplication; the quotients of the source are
  exact enough to order fractions whose denominators are below \<open>2^26\<close>.
\<close>

section \<open>Records\<close>

definition LOCAL_NODE_ID :: string where
  "LOCAL_NODE_ID = ''00000000-0000-4000-8000-000000000002''"

definition ON_DEMAND :: string where
  "ON_DEMAND = ''on-demand''"

definition RESERVATION_LEASE_MS :: int where
  "RESERVATION_LEASE_MS = 60000"

definition FRESH_HEARTBEAT_MS :: int where
  "FRESH_HEARTBEAT_MS = 30000"

definition JOURNAL_MIB :: nat where
  "JOURNAL_MIB = 128"

datatype attempt_role = Execution | Destination

record node_rec =
  nd_id :: string
  nd_name :: "string option"
  nd_local :: bool
  nd_accepting :: bool
  nd_revoked :: bool
  nd_maintenance :: "string option"
  nd_pressure :: "string option"
  nd_execution_ready :: bool
  nd_last_seen :: "int option"
  nd_kvm :: bool
  nd_fuse :: bool
  nd_free_mi_b :: "nat option"
  nd_total_mi_b :: "nat option"
  nd_limits :: "resources option"
  nd_limit_disk :: "nat option"
  nd_usage_disk :: "nat option"
  nd_slots :: "nat option"
  nd_runtime_slots :: "nat option"
  nd_tags :: "string list"
  nd_system_tags :: "string list"
  nd_runtimes :: "string list"
  nd_runtime_id :: string
  nd_storage :: "policy option option"

record run_rec =
  rn_id :: string
  rn_agent :: string
  rn_running :: bool
  rn_cancel_requested :: bool
  rn_transition :: bool
  rn_isolated :: bool
  rn_required_tags :: "string list"
  rn_required_runtime :: "string option"
  rn_target_node :: "string option"
  rn_pinned_node :: "string option"
  rn_preferred_node :: "string option"
  rn_disk_mi_b :: "nat option"
  rn_move_request :: bool
  rn_move_reservation :: "string option"

record checkpoint =
  cp_node :: "string option"
  cp_runtime :: "string option"
  cp_disk_mi_b :: "nat option"

record attempt =
  at_role :: attempt_role
  at_run :: string
  at_node :: string
  at_resources :: resources
  at_runtime :: string
  at_created :: int
  at_lease_expires :: int
  at_released :: bool
  at_released_at :: "int option"
  at_additional_mi_b :: nat
  at_materialized :: bool
  at_lease_required :: bool
  at_lease_duration :: "nat option"

record volume =
  vo_node :: string
  vo_run :: string
  vo_storage_mode :: "string option"
  vo_disk_mi_b :: "nat option"
  vo_active_mi_b :: "nat option"
  vo_materialized :: bool

text \<open>The collections a placement reads and writes. A scope is the list of granted ids, \<open>None\<close> for all.\<close>

record fleet_db =
  db_nodes :: "node_rec table"
  db_agents :: "string list option table"
  db_attempts :: "attempt table"
  db_volumes :: "volume table"
  db_checkpoints :: "checkpoint table"
  db_runs :: "run_rec table"
  db_audit :: "(string \<times> string option \<times> string option) list"

section \<open>Helpers\<close>

definition seen_within :: "int \<Rightarrow> node_rec \<Rightarrow> int \<Rightarrow> bool" where
  "seen_within now node max_age_ms =
     (case nd_last_seen node of None \<Rightarrow> False | Some seen \<Rightarrow> now - seen < max_age_ms)"

definition node_tags :: "node_rec \<Rightarrow> string list" where
  "node_tags node = nd_tags node @ nd_system_tags node"

definition is_active_attempt :: "attempt \<Rightarrow> bool" where
  "is_active_attempt a = (\<not> at_released a)"

definition slots :: "node_rec \<Rightarrow> nat" where
  "slots node =
     max 1 (case nd_slots node of
              Some n \<Rightarrow> n
            | None \<Rightarrow> (case nd_runtime_slots node of Some n \<Rightarrow> n | None \<Rightarrow> 4))"

definition allowed :: "string list option \<Rightarrow> string \<Rightarrow> bool" where
  "allowed scope i = (case scope of None \<Rightarrow> True | Some ids \<Rightarrow> i \<in> set ids)"

fun show_nat :: "nat \<Rightarrow> string" where
  "show_nat n = (if n < 10 then [char_of (48 + n)] else show_nat (n div 10) @ [char_of (48 + n mod 10)])"

declare show_nat.simps [simp del]

definition defaults :: resources where
  "defaults = \<lparr>rs_cpu = 2, rs_memory_mi_b = 4096, rs_disk_mi_b = 32768\<rparr>"

text \<open>An absent volume is a null value: neither a mode nor sizes.\<close>

definition disk_total :: "volume option \<Rightarrow> nat \<Rightarrow> bool \<Rightarrow> nat" where
  "disk_total vol requested replacing =
     (case vol of
        None \<Rightarrow> if replacing then saturating_add64 JOURNAL_MIB JOURNAL_MIB else JOURNAL_MIB
      | Some v \<Rightarrow>
          if vo_storage_mode v = Some ON_DEMAND
          then let local = max (case vo_disk_mi_b v of None \<Rightarrow> JOURNAL_MIB | Some n \<Rightarrow> n) JOURNAL_MIB
               in if replacing then saturating_add64 local JOURNAL_MIB else local
          else let tot = or_zero (vo_disk_mi_b v);
                   current = (case vo_active_mi_b v of None \<Rightarrow> tot | Some n \<Rightarrow> n);
                   added = (if replacing then requested else requested - current)
               in saturating_add64 tot added)"

section \<open>A request\<close>

record request =
  rq_run :: run_rec
  rq_access :: "string list option"
  rq_checkpoint :: checkpoint
  rq_moving :: bool
  rq_required_runtime :: "string option"

definition option_or :: "'a option \<Rightarrow> 'a option \<Rightarrow> 'a option" where
  "option_or a b = (case a of None \<Rightarrow> b | Some _ \<Rightarrow> a)"

definition request_new :: "run_rec \<Rightarrow> string list option \<Rightarrow> checkpoint \<Rightarrow> request" where
  "request_new run access cp =
     \<lparr>rq_run = run, rq_access = access, rq_checkpoint = cp, rq_moving = rn_transition run,
      rq_required_runtime = option_or (rn_required_runtime run) (cp_runtime cp)\<rparr>"

definition replacing :: "request \<Rightarrow> string \<Rightarrow> bool" where
  "replacing rq node = (rq_moving rq \<and> cp_node (rq_checkpoint rq) \<noteq> Some node)"

definition only :: "string option \<Rightarrow> string \<Rightarrow> bool" where
  "only v i = (case v of None \<Rightarrow> True | Some j \<Rightarrow> j = i)"

definition eligible :: "int \<Rightarrow> request \<Rightarrow> node_rec \<Rightarrow> bool \<Rightarrow> bool" where
  "eligible now rq node configured =
     (let i = nd_id node; run = rq_run rq;
          has_tags = list_all (\<lambda>tag. tag \<in> set (node_tags node)) (rn_required_tags run);
          has_runtime = (case rq_required_runtime rq of None \<Rightarrow> True | Some r \<Rightarrow> r \<in> set (nd_runtimes node));
          existing = (rq_moving rq \<or> only (cp_node (rq_checkpoint rq)) i);
          local_unconfigured = (nd_local node \<and> \<not> configured);
          ready = (local_unconfigured
                   \<or> nd_kvm node \<and> nd_execution_ready node \<and> seen_within now node FRESH_HEARTBEAT_MS)
      in nd_fuse node \<and> nd_maintenance node = None \<and> \<not> (local_unconfigured \<and> rn_isolated run)
         \<and> has_tags \<and> has_runtime \<and> only (rn_target_node run) i \<and> allowed (rq_access rq) i
         \<and> only (rn_pinned_node run) i \<and> existing \<and> \<not> nd_revoked node \<and> nd_accepting node \<and> ready)"

definition resources_for :: "request \<Rightarrow> node_rec \<Rightarrow> resources option" where
  "resources_for rq node =
     map_option
       (\<lambda>limits.
          let disk = (case option_or (rn_disk_mi_b (rq_run rq)) (cp_disk_mi_b (rq_checkpoint rq)) of
                        Some n \<Rightarrow> n
                      | None \<Rightarrow> min (rs_disk_mi_b defaults) (rs_disk_mi_b limits))
          in \<lparr>rs_cpu = min (rs_cpu limits) 32, rs_memory_mi_b = rs_memory_mi_b limits, rs_disk_mi_b = disk\<rparr>)
       (nd_limits node)"

section \<open>The fleet\<close>

record fleet =
  fl_attempts :: "attempt list"
  fl_volumes :: "volume list"

definition active_on :: "fleet \<Rightarrow> string \<Rightarrow> attempt list" where
  "active_on fl node = filter (\<lambda>a. at_node a = node \<and> is_active_attempt a) (fl_attempts fl)"

definition node_capacity :: "node_rec \<Rightarrow> nat" where
  "node_capacity node = min (slots node) (case nd_runtime_slots node of None \<Rightarrow> u64_limit - 1 | Some n \<Rightarrow> n)"

definition free_slots :: "fleet \<Rightarrow> request \<Rightarrow> node_rec \<Rightarrow> nat" where
  "free_slots fl rq node =
     (let used = length (filter (\<lambda>a. \<not> (rq_moving rq \<and> at_run a = rn_id (rq_run rq))) (active_on fl (nd_id node)))
      in node_capacity node - used)"

definition disk_fits :: "fleet \<Rightarrow> request \<Rightarrow> node_rec \<Rightarrow> resources \<Rightarrow> policy \<Rightarrow> bool" where
  "disk_fits fl rq node res storage_policy =
     (let i = nd_id node; run_id = rn_id (rq_run rq)
      in case nd_free_mi_b node of
           Some free \<Rightarrow>
             let tot = (case nd_total_mi_b node of None \<Rightarrow> free | Some n \<Rightarrow> n);
                 pending = length (active_on fl i);
                 reserve = policy_reserve storage_policy (saturating_mul64 tot 1048576) div 1048576;
                 budget_free = (case nd_limit_disk node of None \<Rightarrow> free | Some n \<Rightarrow> n) - or_zero (nd_usage_disk node);
                 journals = (pending + 1) * JOURNAL_MIB
             in reserve + journals < free \<and> journals < budget_free
         | None \<Rightarrow>
             let used = sum_list (map (\<lambda>v. or_zero (vo_disk_mi_b v))
                          (filter (\<lambda>v. vo_node v = i \<and> vo_run v \<noteq> run_id) (fl_volumes fl))) mod u64_limit;
                 vol = find (\<lambda>v. vo_node v = i \<and> vo_run v = run_id) (fl_volumes fl);
                 needed = disk_total vol (rs_disk_mi_b res) (replacing rq i);
                 limit = or_zero (nd_limit_disk node)
             in (case checked_add64 used needed of None \<Rightarrow> False | Some tot \<Rightarrow> tot \<le> limit))"

definition fit :: "fleet \<Rightarrow> request \<Rightarrow> node_rec \<Rightarrow> resources \<Rightarrow> (svc_error, (nat \<times> nat) option) result" where
  "fit fl rq node res =
     (let free = free_slots fl rq node
      in case policy_for_node (nd_storage node) of
           Inl e \<Rightarrow> Inl e
         | Inr storage_policy \<Rightarrow>
             if free = 0 \<or> nd_pressure node \<noteq> None \<or> \<not> disk_fits fl rq node res storage_policy
             then Inr None else Inr (Some (free, slots node)))"

definition describe :: "fleet \<Rightarrow> request \<Rightarrow> node_rec \<Rightarrow> string" where
  "describe fl rq node =
     (case nd_name node of None \<Rightarrow> nd_id node | Some n \<Rightarrow> n) @ '' has '' @ show_nat (free_slots fl rq node)
     @ '' free slots; check '' @ (case nd_pressure node of None \<Rightarrow> ''shared disk space'' | Some p \<Rightarrow> p)"

section \<open>Choosing a node\<close>

record candidate =
  ca_preferred :: bool
  ca_headroom :: "nat \<times> nat"
  ca_node :: node_rec
  ca_resources :: resources

definition beats :: "candidate \<Rightarrow> candidate \<Rightarrow> bool" where
  "beats c d =
     (ca_preferred c \<and> \<not> ca_preferred d
      \<or> ca_preferred c = ca_preferred d
        \<and> fst (ca_headroom d) * snd (ca_headroom c) < fst (ca_headroom c) * snd (ca_headroom d))"

definition development_node :: "bool \<Rightarrow> node_rec" where
  "development_node configured =
     \<lparr>nd_id = LOCAL_NODE_ID, nd_name = None, nd_local = True, nd_accepting = True, nd_revoked = False,
      nd_maintenance = None, nd_pressure = None, nd_execution_ready = False, nd_last_seen = None,
      nd_kvm = configured, nd_fuse = True, nd_free_mi_b = None, nd_total_mi_b = None,
      nd_limits = Some \<lparr>rs_cpu = 4096, rs_memory_mi_b = 1073741824, rs_disk_mi_b = 1099511627776\<rparr>,
      nd_limit_disk = Some 1099511627776, nd_usage_disk = None, nd_slots = Some 4096, nd_runtime_slots = None,
      nd_tags = [], nd_system_tags = [], nd_runtimes = [], nd_runtime_id = ''local'', nd_storage = None\<rparr>"

record snapshot =
  sn_access :: "string list option"
  sn_checkpoint :: checkpoint
  sn_nodes :: "node_rec list"
  sn_attempts :: "attempt list"
  sn_volumes :: "volume list"

definition no_checkpoint :: checkpoint where
  "no_checkpoint = \<lparr>cp_node = None, cp_runtime = None, cp_disk_mi_b = None\<rparr>"

definition db_checkpoint :: "fleet_db \<Rightarrow> string \<Rightarrow> checkpoint" where
  "db_checkpoint db run = (case tb_get (db_checkpoints db) run of None \<Rightarrow> no_checkpoint | Some cp \<Rightarrow> cp)"

text \<open>Ties keep the preferred node, then the current runner: the key orders the pairs of truth values.\<close>

definition node_order :: "run_rec \<Rightarrow> node_rec \<Rightarrow> nat" where
  "node_order run node =
     (if Some (nd_id node) \<noteq> rn_preferred_node run then 2 else 0) + (if nd_id node \<noteq> LOCAL_NODE_ID then 1 else 0)"

definition snapshot_load :: "fleet_db \<Rightarrow> run_rec \<Rightarrow> bool \<Rightarrow> (svc_error, snapshot) result" where
  "snapshot_load db run configured =
     (case tb_get (db_agents db) (rn_agent run) of
        None \<Rightarrow> Inl (Forbidden ''Agent removed.'')
      | Some access \<Rightarrow>
          let nodes = tb_list (db_nodes db);
              nodes' = (if \<not> configured \<and> list_all (\<lambda>n. nd_id n \<noteq> LOCAL_NODE_ID) nodes
                        then nodes @ [development_node configured] else nodes)
          in Inr \<lparr>sn_access = access, sn_checkpoint = db_checkpoint db (rn_id run),
                  sn_nodes = sort_key (node_order run) nodes', sn_attempts = tb_list (db_attempts db),
                  sn_volumes = tb_list (db_volumes db)\<rparr>)"

definition snapshot_fleet :: "snapshot \<Rightarrow> fleet" where
  "snapshot_fleet sn = \<lparr>fl_attempts = sn_attempts sn, fl_volumes = sn_volumes sn\<rparr>"

definition NO_CAPACITY :: string where
  "NO_CAPACITY = ''No authorized node''"

definition shortage :: "string list \<Rightarrow> string" where
  "shortage full =
     (if full = []
      then NO_CAPACITY @ '' is online and accepting this conversation. The existing environment is preserved.''
      else NO_CAPACITY @ '' has a free execution slot and enough shared headroom: '' @ join ''; '' full
           @ ''. The existing environment is preserved.'')"

definition is_no_capacity :: "svc_error \<Rightarrow> bool" where
  "is_no_capacity e = (case e of Unavailable msg \<Rightarrow> starts_with NO_CAPACITY msg | _ \<Rightarrow> False)"

text \<open>The loop of \<open>select\<close>: the best candidate so far, and the nodes described as full.\<close>

fun select_from ::
  "int \<Rightarrow> fleet \<Rightarrow> request \<Rightarrow> bool \<Rightarrow> node_rec list \<Rightarrow> candidate option \<Rightarrow> string list \<Rightarrow>
   (svc_error, candidate option \<times> string list) result" where
  "select_from now fl rq configured [] best full = Inr (best, full)"
| "select_from now fl rq configured (node # nodes) best full =
     (if \<not> eligible now rq node configured then select_from now fl rq configured nodes best full
      else (case resources_for rq node of
              None \<Rightarrow> select_from now fl rq configured nodes best full
            | Some res \<Rightarrow>
                (case fit fl rq node res of
                   Inl e \<Rightarrow> Inl e
                 | Inr None \<Rightarrow> select_from now fl rq configured nodes best (full @ [describe fl rq node])
                 | Inr (Some headroom) \<Rightarrow>
                     let c = \<lparr>ca_preferred = (Some (nd_id node) = rn_preferred_node (rq_run rq)),
                              ca_headroom = headroom, ca_node = node, ca_resources = res\<rparr>
                     in select_from now fl rq configured nodes
                          (if (case best of None \<Rightarrow> True | Some b \<Rightarrow> beats c b) then Some c else best) full)))"

definition select :: "int \<Rightarrow> snapshot \<Rightarrow> request \<Rightarrow> bool \<Rightarrow> (svc_error, candidate) result" where
  "select now sn rq configured =
     (case select_from now (snapshot_fleet sn) rq configured (sn_nodes sn) None [] of
        Inl e \<Rightarrow> Inl e
      | Inr (None, full) \<Rightarrow> Inl (Unavailable (shortage full))
      | Inr (Some c, _) \<Rightarrow> Inr c)"

section \<open>Reserving and releasing\<close>

record placement =
  po_node :: string
  po_resources :: resources
  po_runtime :: string
  po_lease :: "int option"

definition volume_key :: "string \<Rightarrow> string \<Rightarrow> string" where
  "volume_key run node = run @ '':'' @ node"

text \<open>Writing a run back (\<open>Db::patch_run\<close>).\<close>

definition patch_run :: "string \<Rightarrow> (run_rec \<Rightarrow> run_rec) \<Rightarrow> fleet_db \<Rightarrow> (svc_error, run_rec) result \<times> fleet_db" where
  "patch_run i f db =
     (case tb_get (db_runs db) i of
        None \<Rightarrow> (Inl (Not_Found ''Run not found''), db)
      | Some run \<Rightarrow> (Inr (f run), db\<lparr>db_runs := tb_put i (f run) (db_runs db)\<rparr>))"

definition claim_reservation ::
  "int \<Rightarrow> request \<Rightarrow> node_rec list \<Rightarrow> string \<Rightarrow> string \<Rightarrow> fleet_db \<Rightarrow> (svc_error, placement) result \<times> fleet_db" where
  "claim_reservation now rq nodes reservation attempt db =
     (case tb_get (db_attempts db) reservation of
        None \<Rightarrow> (Inl (Conflict ''Movement reservation is missing.''), db)
      | Some held \<Rightarrow>
          (case find (\<lambda>n. nd_id n = at_node held) nodes of
             None \<Rightarrow> (Inl (Conflict ''Destination removed.''), db)
           | Some rec \<Rightarrow>
               if \<not> nd_fuse rec then (Inl (Conflict ''Destination no longer supports on-demand disks.''), db)
               else if nd_maintenance rec \<noteq> None
               then (Inl (Unavailable ''Destination is preparing for maintenance.''), db)
               else if at_released held \<or> at_run held \<noteq> rn_id (rq_run rq)
                       \<or> \<not> allowed (rq_access rq) (at_node held) \<or> nd_revoked rec
               then (Inl (Conflict ''Movement reservation was revoked.''), db)
               else
                 let consumed = held\<lparr>at_released := True\<rparr>;
                     db1 = db\<lparr>db_attempts := tb_put reservation consumed (db_attempts db)\<rparr>;
                     taken = held\<lparr>at_role := Execution, at_lease_expires := now + RESERVATION_LEASE_MS\<rparr>;
                     db2 = db1\<lparr>db_attempts := tb_put attempt taken (db_attempts db1)\<rparr>
                 in case patch_run (rn_id (rq_run rq)) (\<lambda>r. r\<lparr>rn_move_reservation := None\<rparr>) db2 of
                      (Inl e, db3) \<Rightarrow> (Inl e, db3)
                    | (Inr _, db3) \<Rightarrow>
                        (Inr \<lparr>po_node = at_node taken, po_resources = at_resources taken,
                              po_runtime = at_runtime taken, po_lease = None\<rparr>, db3)))"

text \<open>The volume an admission starts from: the stored one, or a new on-demand one.\<close>

definition admitted_volume :: "fleet_db \<Rightarrow> string \<Rightarrow> string \<Rightarrow> volume" where
  "admitted_volume db run node =
     (let vol = (case tb_get (db_volumes db) (volume_key run node) of
                   Some v \<Rightarrow> v
                 | None \<Rightarrow> \<lparr>vo_node = node, vo_run = run, vo_storage_mode = None, vo_disk_mi_b = None,
                             vo_active_mi_b = None, vo_materialized = False\<rparr>)
      in if \<not> vo_materialized vol then vol\<lparr>vo_storage_mode := Some ON_DEMAND\<rparr> else vol)"

definition new_attempt :: "int \<Rightarrow> request \<Rightarrow> candidate \<Rightarrow> nat \<Rightarrow> attempt" where
  "new_attempt now rq best additional =
     \<lparr>at_role = (if rq_moving rq then Destination else Execution), at_run = rn_id (rq_run rq),
      at_node = nd_id (ca_node best), at_resources = ca_resources best,
      at_runtime = (case rq_required_runtime rq of None \<Rightarrow> nd_runtime_id (ca_node best) | Some r \<Rightarrow> r),
      at_created = now, at_lease_expires = now + RESERVATION_LEASE_MS, at_released = False, at_released_at = None,
      at_additional_mi_b = additional, at_materialized = False, at_lease_required = False, at_lease_duration = None\<rparr>"

definition still_owned :: "request \<Rightarrow> attempt list \<Rightarrow> bool" where
  "still_owned rq attempts =
     list_ex (\<lambda>a. at_run a = rn_id (rq_run rq) \<and> is_active_attempt a \<and> (\<not> rq_moving rq \<or> at_role a = Destination))
       attempts"

definition admit ::
  "int \<Rightarrow> request \<Rightarrow> candidate \<Rightarrow> attempt list \<Rightarrow> string \<Rightarrow> fleet_db \<Rightarrow> (svc_error, placement) result \<times> fleet_db" where
  "admit now rq best attempts attempt db =
     (let run = rn_id (rq_run rq); i = nd_id (ca_node best)
      in if still_owned rq attempts
         then (Inl (Conflict ''Previous execution still owns this conversation.''), db)
         else
           let vol = admitted_volume db run i;
               previous = or_zero (vo_disk_mi_b vol);
               disk = disk_total (Some vol) (rs_disk_mi_b (ca_resources best)) (replacing rq i);
               rec = new_attempt now rq best (disk - previous)
           in (Inr \<lparr>po_node = i, po_resources = at_resources rec, po_runtime = at_runtime rec,
                    po_lease = Some (at_lease_expires rec)\<rparr>,
               db\<lparr>db_attempts := tb_put attempt rec (db_attempts db),
                  db_volumes := tb_put (volume_key run i) (vol\<lparr>vo_disk_mi_b := Some disk\<rparr>) (db_volumes db)\<rparr>))"

definition reserve_in :: "int \<Rightarrow> run_rec \<Rightarrow> string \<Rightarrow> bool \<Rightarrow> fleet_db \<Rightarrow> (svc_error, placement) result \<times> fleet_db" where
  "reserve_in now run attempt configured db =
     (case snapshot_load db run configured of
        Inl e \<Rightarrow> (Inl e, db)
      | Inr sn \<Rightarrow>
          let rq = request_new run (sn_access sn) (sn_checkpoint sn)
          in case (if rq_moving rq then None else rn_move_reservation run) of
               Some reservation \<Rightarrow> claim_reservation now rq (sn_nodes sn) reservation attempt db
             | None \<Rightarrow>
                 (case select now sn rq configured of
                    Inl e \<Rightarrow> (Inl e, db)
                  | Inr best \<Rightarrow> admit now rq best (sn_attempts sn) attempt db))"

text \<open>\<open>reserve\<close> runs in one transaction.\<close>

definition reserve :: "int \<Rightarrow> run_rec \<Rightarrow> string \<Rightarrow> bool \<Rightarrow> fleet_db \<Rightarrow> (svc_error, placement) result \<times> fleet_db" where
  "reserve now run attempt configured = transaction (reserve_in now run attempt configured)"

definition check :: "int \<Rightarrow> run_rec \<Rightarrow> bool \<Rightarrow> fleet_db \<Rightarrow> (svc_error, unit) result" where
  "check now run configured db =
     (case snapshot_load db run configured of
        Inl e \<Rightarrow> Inl e
      | Inr sn \<Rightarrow>
          let rq = request_new run (sn_access sn) (sn_checkpoint sn)
          in if \<not> rq_moving rq \<and> rn_move_reservation run \<noteq> None then Inr ()
             else (case select now sn rq configured of Inl e \<Rightarrow> Inl e | Inr _ \<Rightarrow> Inr ()))"

definition release_in :: "int \<Rightarrow> string \<Rightarrow> fleet_db \<Rightarrow> (svc_error, unit) result \<times> fleet_db" where
  "release_in now attempt db =
     (case tb_get (db_attempts db) attempt of
        None \<Rightarrow> (Inr (), db)
      | Some rec \<Rightarrow>
          if \<not> is_active_attempt rec then (Inr (), db)
          else
            let db1 = db\<lparr>db_attempts :=
                      tb_put attempt (rec\<lparr>at_released := True, at_released_at := Some now\<rparr>) (db_attempts db)\<rparr>;
                key = volume_key (at_run rec) (at_node rec)
            in case tb_get (db_volumes db1) key of
                 None \<Rightarrow> (Inr (), db1)
               | Some vol \<Rightarrow>
                   let vol1 = (if \<not> at_materialized rec
                               then vol\<lparr>vo_disk_mi_b := Some (or_zero (vo_disk_mi_b vol) - at_additional_mi_b rec)\<rparr>
                               else vol);
                       unused = (\<not> vo_materialized vol1
                                 \<and> \<not> list_ex (\<lambda>a. at_run a = at_run rec \<and> at_node a = at_node rec \<and> is_active_attempt a)
                                        (tb_list (db_attempts db1)))
                   in (Inr (), if unused then db1\<lparr>db_volumes := tb_remove key (db_volumes db1)\<rparr>
                               else db1\<lparr>db_volumes := tb_put key vol1 (db_volumes db1)\<rparr>))"

definition release :: "int \<Rightarrow> string \<Rightarrow> fleet_db \<Rightarrow> (svc_error, unit) result \<times> fleet_db" where
  "release now attempt = transaction (release_in now attempt)"

definition materialize :: "string \<Rightarrow> fleet_db \<Rightarrow> (svc_error, unit) result \<times> fleet_db" where
  "materialize attempt =
     transaction (\<lambda>db.
       case tb_get (db_attempts db) attempt of
         None \<Rightarrow> (Inl (Conflict ''Missing disk allocation.''), db)
       | Some rec \<Rightarrow>
           if at_released rec then (Inl (Conflict ''Disk reservation was released.''), db)
           else
             let rec1 = rec\<lparr>at_materialized := True\<rparr>;
                 db1 = db\<lparr>db_attempts := tb_put attempt rec1 (db_attempts db)\<rparr>;
                 key = volume_key (at_run rec1) (at_node rec1)
             in case tb_get (db_volumes db1) key of
                  None \<Rightarrow> (Inl (Conflict ''Missing disk allocation.''), db1)
                | Some vol \<Rightarrow>
                    (Inr (), db1\<lparr>db_volumes :=
                       tb_put key (vol\<lparr>vo_materialized := True, vo_active_mi_b := Some (rs_disk_mi_b (at_resources rec1))\<rparr>)
                         (db_volumes db1)\<rparr>))"

section \<open>Owner controls and leases\<close>

record selection =
  se_pinned :: "string option"
  se_preferred :: "string option"

definition option_list :: "'a option \<Rightarrow> 'a list" where
  "option_list v = (case v of None \<Rightarrow> [] | Some x \<Rightarrow> [x])"

definition unauthorized :: "fleet_db \<Rightarrow> string list option \<Rightarrow> string \<Rightarrow> bool" where
  "unauthorized db access node =
     (\<not> allowed access node
      \<or> node \<noteq> LOCAL_NODE_ID
        \<and> (case tb_get (db_nodes db) node of None \<Rightarrow> True | Some n \<Rightarrow> nd_revoked n))"

text \<open>The loop over the selected nodes; whether a string is a UUID is decided by a library.\<close>

fun check_selected ::
  "(string \<Rightarrow> bool) \<Rightarrow> fleet_db \<Rightarrow> string list option \<Rightarrow> string list \<Rightarrow> (svc_error, unit) result" where
  "check_selected is_uuid db access [] = Inr ()"
| "check_selected is_uuid db access (node # nodes) =
     (if \<not> is_uuid node then Inl (Bad ''Invalid UUID'')
      else if unauthorized db access node
      then Inl (Forbidden ''This node is not authorized for the conversation's agent.'')
      else check_selected is_uuid db access nodes)"

text \<open>
  The input is absent, malformed (\<open>Some None\<close>) or a selection. The answer lists the nodes the agent may
  use, each as its owner sees it.
\<close>

definition configure_in ::
  "(string \<Rightarrow> bool) \<Rightarrow> (node_rec \<Rightarrow> 'v) \<Rightarrow> string \<Rightarrow> selection option option \<Rightarrow> fleet_db \<Rightarrow>
   (svc_error, 'v list \<times> string option \<times> string option) result \<times> fleet_db" where
  "configure_in is_uuid public_view run input db =
     (case tb_get (db_runs db) run of
        None \<Rightarrow> (Inl (Not_Found ''Conversation not found.''), db)
      | Some rec \<Rightarrow>
          (case tb_get (db_agents db) (rn_agent rec) of
             None \<Rightarrow> (Inl (Forbidden ''Agent removed.''), db)
           | Some access \<Rightarrow>
               let visible = map public_view
                     (filter (\<lambda>n. \<not> nd_revoked n \<and> allowed access (nd_id n)) (tb_list (db_nodes db)))
               in case input of
                    None \<Rightarrow> (Inr (visible, rn_pinned_node rec, rn_preferred_node rec), db)
                  | Some None \<Rightarrow> (Inl (Bad ''Invalid placement selection.''), db)
                  | Some (Some sel) \<Rightarrow>
                      (case check_selected is_uuid db access (option_list (se_pinned sel) @ option_list (se_preferred sel)) of
                         Inl e \<Rightarrow> (Inl e, db)
                       | Inr _ \<Rightarrow>
                           if rn_move_request rec \<or> rn_move_reservation rec \<noteq> None
                           then (Inl (Conflict ''Wait for the current movement to finish.''), db)
                           else
                             (case patch_run run
                                     (\<lambda>r. r\<lparr>rn_pinned_node := se_pinned sel, rn_preferred_node := se_preferred sel\<rparr>) db of
                                (Inl e, db1) \<Rightarrow> (Inl e, db1)
                              | (Inr rec1, db1) \<Rightarrow>
                                  (Inr (visible, rn_pinned_node rec1, rn_preferred_node rec1),
                                   db1\<lparr>db_audit := (run, rn_pinned_node rec1, rn_preferred_node rec1) # db_audit db1\<rparr>)))))"

definition configure ::
  "(string \<Rightarrow> bool) \<Rightarrow> (node_rec \<Rightarrow> 'v) \<Rightarrow> string \<Rightarrow> selection option option \<Rightarrow> fleet_db \<Rightarrow>
   (svc_error, 'v list \<times> string option \<times> string option) result \<times> fleet_db" where
  "configure is_uuid public_view run input db =
     (if \<not> is_uuid run then (Inl (Bad ''Invalid UUID''), db)
      else transaction (configure_in is_uuid public_view run input) db)"

text \<open>The transaction of \<open>renew_local\<close>; a removed agent is an empty record, granted the local node.\<close>

definition renew_in :: "string \<Rightarrow> string \<Rightarrow> nat \<Rightarrow> fleet_db \<Rightarrow> (svc_error, unit) result \<times> fleet_db" where
  "renew_in run_id owned lease_ms =
     transaction (\<lambda>db.
       case tb_get (db_runs db) run_id of
         None \<Rightarrow> (Inl (Not_Found ''Conversation removed.''), db)
       | Some run \<Rightarrow>
           let access = (case tb_get (db_agents db) (rn_agent run) of None \<Rightarrow> Some [LOCAL_NODE_ID] | Some a \<Rightarrow> a)
           in case tb_get (db_attempts db) owned of
                None \<Rightarrow> (Inl (Conflict ''Attempt removed.''), db)
              | Some rec \<Rightarrow>
                  if \<not> rn_running run \<or> rn_cancel_requested run \<or> at_released rec \<or> \<not> allowed access LOCAL_NODE_ID
                  then (Inl (Conflict ''Execution no longer authorized.''), db)
                  else (Inr (), db\<lparr>db_attempts :=
                    tb_put owned (rec\<lparr>at_lease_required := True,
                        at_lease_duration := Some (max (or_zero (at_lease_duration rec)) lease_ms)\<rparr>)
                      (db_attempts db)\<rparr>))"

end
