(* ===== verification/Placement_Choice.thy ===== *)
theory Placement_Choice
  imports Placement Complex_Main
begin

text \<open>What \<open>select\<close> chooses, and when it fails.\<close>

section \<open>The candidates\<close>

definition candidate_of :: "int \<Rightarrow> fleet \<Rightarrow> request \<Rightarrow> bool \<Rightarrow> node_rec \<Rightarrow> candidate option" where
  "candidate_of now fl rq configured node =
     (if \<not> eligible now rq node configured then None
      else (case resources_for rq node of
              None \<Rightarrow> None
            | Some res \<Rightarrow>
                (case fit fl rq node res of
                   Inr (Some headroom) \<Rightarrow>
                     Some \<lparr>ca_preferred = (Some (nd_id node) = rn_preferred_node (rq_run rq)),
                           ca_headroom = headroom, ca_node = node, ca_resources = res\<rparr>
                 | _ \<Rightarrow> None)))"

text \<open>The order of \<open>beats\<close> as a number: preferred nodes two above the fraction of free slots.\<close>

definition score :: "candidate \<Rightarrow> rat" where
  "score c = (if ca_preferred c then 2 else 0) + of_nat (fst (ca_headroom c)) / of_nat (snd (ca_headroom c))"

definition headroom_ok :: "candidate \<Rightarrow> bool" where
  "headroom_ok c = (0 < snd (ca_headroom c) \<and> fst (ca_headroom c) \<le> snd (ca_headroom c))"

lemma fraction_less:
  assumes "0 < b" "0 < d"
  shows "of_nat a / of_nat b < (of_nat c / of_nat d :: rat) \<longleftrightarrow> a * d < c * b"
proof -
  have "of_nat a / of_nat b < (of_nat c / of_nat d :: rat) \<longleftrightarrow> (of_nat (a * d) :: rat) < of_nat (c * b)"
    using assms by (simp add: field_simps)
  then show ?thesis by (simp only: of_nat_less_iff)
qed

lemma fraction_unit:
  assumes "0 < b" "a \<le> b"
  shows "0 \<le> (of_nat a / of_nat b :: rat)" "(of_nat a / of_nat b :: rat) \<le> 1"
  using assms by (simp_all add: divide_le_eq_1)

lemma beats_score:
  assumes "headroom_ok c" "headroom_ok d"
  shows "beats c d \<longleftrightarrow> score d < score c"
proof -
  define x where "x = (of_nat (fst (ca_headroom c)) / of_nat (snd (ca_headroom c)) :: rat)"
  define y where "y = (of_nat (fst (ca_headroom d)) / of_nat (snd (ca_headroom d)) :: rat)"
  have bounds: "0 \<le> x" "x \<le> 1" "0 \<le> y" "y \<le> 1"
    using assms fraction_unit by (simp_all add: x_def y_def headroom_ok_def)
  have "fst (ca_headroom d) * snd (ca_headroom c) < fst (ca_headroom c) * snd (ca_headroom d) \<longleftrightarrow> y < x"
    using assms by (simp add: x_def y_def headroom_ok_def fraction_less)
  then show ?thesis
    using bounds by (auto simp: beats_def score_def x_def [symmetric] y_def [symmetric])
qed

lemma slots_pos: "0 < slots node"
  by (simp add: slots_def)

lemma free_slots_le: "free_slots fl rq node \<le> slots node"
  by (simp add: free_slots_def node_capacity_def)

lemma candidate_headroom: "candidate_of now fl rq configured node = Some c \<Longrightarrow> headroom_ok c"
  using free_slots_le [of fl rq node] slots_pos [of node]
  by (auto simp: candidate_of_def fit_def Let_def headroom_ok_def split: if_splits option.splits sum.splits)

section \<open>The loop keeps the best\<close>

definition pick :: "candidate option \<Rightarrow> candidate \<Rightarrow> candidate option" where
  "pick best c = (if (case best of None \<Rightarrow> True | Some b \<Rightarrow> beats c b) then Some c else best)"

lemma pick_simps [simp]:
  "pick None c = Some c"
  "pick (Some b) c = (if beats c b then Some c else Some b)"
  by (simp_all add: pick_def)

lemma select_from_fold:
  "select_from now fl rq configured nodes best full = Inr (best', full') \<Longrightarrow>
   best' = foldl pick best (List.map_filter (candidate_of now fl rq configured) nodes)"
proof (induction nodes arbitrary: best full)
  case (Cons node nodes)
  show ?case
  proof (cases "candidate_of now fl rq configured node")
    case None
    then obtain full1 where "select_from now fl rq configured nodes best full1 = Inr (best', full')"
      using Cons.prems
      by (auto simp: candidate_of_def split: if_splits option.splits sum.splits)
    then show ?thesis using Cons.IH None by (simp add: map_filter_simps)
  next
    case (Some c)
    then have "select_from now fl rq configured nodes (pick best c) full = Inr (best', full')"
      using Cons.prems
      by (auto simp: candidate_of_def pick_def Let_def split: if_splits option.splits sum.splits)
    then show ?thesis using Cons.IH Some by (simp add: map_filter_simps)
  qed
qed (simp add: map_filter_simps)

lemma select_from_error:
  "select_from now fl rq configured nodes best full = Inl e \<Longrightarrow>
   \<exists>m \<in> set nodes. eligible now rq m configured \<and> policy_for_node (nd_storage m) = Inl e"
proof (induction nodes arbitrary: best full)
  case (Cons node nodes)
  show ?case
  proof (cases "eligible now rq node configured \<and> policy_for_node (nd_storage node) = Inl e")
    case False
    then obtain best1 full1 where "select_from now fl rq configured nodes best1 full1 = Inl e"
      using Cons.prems
      by (auto simp: fit_def Let_def split: if_splits option.splits sum.splits)
    then show ?thesis using Cons.IH by auto
  qed auto
qed simp

lemma foldl_pick_first:
  assumes "list_all headroom_ok cs" "headroom_ok b" "foldl pick (Some b) cs = Some r"
  shows "r = b \<and> (\<forall>c \<in> set cs. \<not> beats c b)
    \<or> (\<exists>pre post. cs = pre @ r # post \<and> beats r b \<and> (\<forall>c \<in> set pre. beats r c) \<and> (\<forall>c \<in> set post. \<not> beats c r))"
  using assms
proof (induction cs arbitrary: b)
  case (Cons c cs)
  have ok: "headroom_ok c" "list_all headroom_ok cs" using Cons.prems(1) by simp_all
  have pre_ok: "headroom_ok x" if "x \<in> set cs" for x
    using that ok(2) by (simp add: list_all_iff)
  show ?case
  proof (cases "beats c b")
    case True
    then have "foldl pick (Some c) cs = Some r" using Cons.prems(3) by simp
    from Cons.IH [OF ok(2,1) this] show ?thesis
    proof (elim disjE exE conjE)
      assume "r = c" "\<forall>x \<in> set cs. \<not> beats x c"
      then show ?thesis using True by (intro disjI2 exI [of _ "[]"] exI [of _ cs]) simp
    next
      fix pre post
      assume p: "cs = pre @ r # post" "beats r c" "\<forall>x \<in> set pre. beats r x" "\<forall>x \<in> set post. \<not> beats x r"
      have "headroom_ok r" using p(1) pre_ok by simp
      then have "beats r b"
        using True p(2) ok(1) Cons.prems(2) by (simp add: beats_score)
      then show ?thesis using p by (intro disjI2 exI [of _ "c # pre"] exI [of _ post]) simp
    qed
  next
    case False
    then have "foldl pick (Some b) cs = Some r" using Cons.prems(3) by simp
    from Cons.IH [OF ok(2) Cons.prems(2) this] show ?thesis
    proof (elim disjE exE conjE)
      assume "r = b" "\<forall>x \<in> set cs. \<not> beats x b"
      then show ?thesis using False by simp
    next
      fix pre post
      assume p: "cs = pre @ r # post" "beats r b" "\<forall>x \<in> set pre. beats r x" "\<forall>x \<in> set post. \<not> beats x r"
      have "headroom_ok r" using p(1) pre_ok by simp
      then have "beats r c"
        using False p(2) ok(1) Cons.prems(2) by (simp add: beats_score)
      then show ?thesis using p by (intro disjI2 exI [of _ "c # pre"] exI [of _ post]) simp
    qed
  qed
qed simp

lemma foldl_pick_none: "foldl pick None cs = None \<longleftrightarrow> cs = []"
proof -
  have "foldl pick (Some b) cs \<noteq> None" for b cs
    by (induction cs arbitrary: b) auto
  then show ?thesis by (cases cs) auto
qed

lemma foldl_pick_best:
  assumes "list_all headroom_ok cs" "foldl pick None cs = Some r"
  shows "\<exists>pre post. cs = pre @ r # post \<and> (\<forall>c \<in> set pre. beats r c) \<and> (\<forall>c \<in> set post. \<not> beats c r)"
proof (cases cs)
  case (Cons c rest)
  then have "foldl pick (Some c) rest = Some r" using assms(2) by simp
  moreover have "list_all headroom_ok rest" "headroom_ok c" using assms(1) Cons by simp_all
  ultimately have "r = c \<and> (\<forall>x \<in> set rest. \<not> beats x c)
    \<or> (\<exists>pre post. rest = pre @ r # post \<and> beats r c \<and> (\<forall>x \<in> set pre. beats r x) \<and> (\<forall>x \<in> set post. \<not> beats x r))"
    using foldl_pick_first by blast
  then show ?thesis
  proof (elim disjE exE conjE)
    assume "r = c" "\<forall>x \<in> set rest. \<not> beats x c"
    then show ?thesis using Cons by (intro exI [of _ "[]"] exI [of _ rest]) simp
  next
    fix pre post
    assume "rest = pre @ r # post" "beats r c" "\<forall>x \<in> set pre. beats r x" "\<forall>x \<in> set post. \<not> beats x r"
    then show ?thesis using Cons by (intro exI [of _ "c # pre"] exI [of _ post]) simp
  qed
qed (use assms in simp)

lemma map_filter_split:
  "List.map_filter f xs = pre @ c # post \<Longrightarrow>
   \<exists>us x vs. xs = us @ x # vs \<and> f x = Some c \<and> List.map_filter f us = pre \<and> List.map_filter f vs = post"
proof (induction xs arbitrary: pre)
  case (Cons x xs)
  show ?case
  proof (cases "f x")
    case None
    then obtain us y vs where "xs = us @ y # vs" "f y = Some c" "List.map_filter f us = pre" "List.map_filter f vs = post"
      using Cons by (auto simp: map_filter_simps)
    then show ?thesis using None by (intro exI [of _ "x # us"] exI [of _ y] exI [of _ vs]) (simp add: map_filter_simps)
  next
    case (Some d)
    show ?thesis
    proof (cases pre)
      case Nil
      then show ?thesis using Cons.prems Some
        by (intro exI [of _ "[]"] exI [of _ x] exI [of _ xs]) (simp add: map_filter_simps)
    next
      case (Cons p pre')
      then obtain us y vs where "xs = us @ y # vs" "f y = Some c" "List.map_filter f us = pre'" "List.map_filter f vs = post"
        using Cons.IH [of pre'] Cons.prems Some by (auto simp: map_filter_simps)
      then show ?thesis using Cons Cons.prems Some
        by (intro exI [of _ "x # us"] exI [of _ y] exI [of _ vs]) (simp add: map_filter_simps)
    qed
  qed
qed (simp add: map_filter_simps)

lemma in_map_filter: "c \<in> set (List.map_filter f xs) \<longleftrightarrow> (\<exists>x \<in> set xs. f x = Some c)"
  by (induction xs) (auto simp: map_filter_simps split: option.splits)


lemma shortage_no_capacity: "is_no_capacity (Unavailable (shortage full))"
proof -
  have "strip_prefix p (p @ s) = Some s" for p s by (induction p) auto
  then show ?thesis by (simp add: is_no_capacity_def shortage_def starts_with_def)
qed

lemma select_candidate:
  assumes "select now sn rq configured = Inr best"
  shows "\<exists>node \<in> set (sn_nodes sn). candidate_of now (snapshot_fleet sn) rq configured node = Some best"
proof -
  let ?cs = "List.map_filter (candidate_of now (snapshot_fleet sn) rq configured) (sn_nodes sn)"
  obtain full where "select_from now (snapshot_fleet sn) rq configured (sn_nodes sn) None [] = Inr (Some best, full)"
    using assms by (auto simp: select_def split: sum.splits option.splits prod.splits)
  then have "foldl pick None ?cs = Some best" using select_from_fold by metis
  moreover have "list_all headroom_ok ?cs"
    using candidate_headroom by (auto simp: list_all_iff in_map_filter)
  ultimately have "best \<in> set ?cs" using foldl_pick_best by fastforce
  then show ?thesis by (simp add: in_map_filter)
qed

section \<open>The property\<close>

text \<open>
  C31: The choice of a node. The selected candidate is a node the request may use and that has a free slot
  and room; every such node before it in the order of the snapshot is beaten by it and none after it beats
  it. A failure either says that no node has capacity, and then no node of the snapshot qualifies, or
  reports the invalid storage limits of an eligible node.
\<close>

theorem select_optimal:
  "case select now sn rq configured of
     Inr best \<Rightarrow>
       (\<exists>pre node post. sn_nodes sn = pre @ node # post
          \<and> candidate_of now (snapshot_fleet sn) rq configured node = Some best
          \<and> (\<forall>m \<in> set pre. \<forall>c. candidate_of now (snapshot_fleet sn) rq configured m = Some c \<longrightarrow> beats best c)
          \<and> (\<forall>m \<in> set post. \<forall>c. candidate_of now (snapshot_fleet sn) rq configured m = Some c \<longrightarrow> \<not> beats c best))
   | Inl e \<Rightarrow>
       is_no_capacity e \<and> (\<forall>m \<in> set (sn_nodes sn). candidate_of now (snapshot_fleet sn) rq configured m = None)
       \<or> (\<exists>m \<in> set (sn_nodes sn). eligible now rq m configured \<and> policy_for_node (nd_storage m) = Inl e)"
proof (cases "select_from now (snapshot_fleet sn) rq configured (sn_nodes sn) None []")
  case (Inl e)
  then show ?thesis using select_from_error by (simp add: select_def)
next
  case (Inr out)
  let ?cand = "candidate_of now (snapshot_fleet sn) rq configured"
  let ?cs = "List.map_filter ?cand (sn_nodes sn)"
  obtain best full where out: "out = (best, full)" by fastforce
  have best: "best = foldl pick None ?cs"
    using select_from_fold Inr unfolding out by blast
  show ?thesis
  proof (cases best)
    case None
    then have "?cs = []" using best foldl_pick_none by simp
    then have "?cand m = None" if "m \<in> set (sn_nodes sn)" for m
      using that in_map_filter [of "the (?cand m)" ?cand "sn_nodes sn"] by (cases "?cand m") auto
    then show ?thesis
      using Inr None shortage_no_capacity by (simp add: select_def out)
  next
    case (Some c)
    have "list_all headroom_ok ?cs"
      using candidate_headroom by (auto simp: list_all_iff in_map_filter)
    moreover have "foldl pick None ?cs = Some c" using best Some by simp
    ultimately obtain pre post where
      split: "?cs = pre @ c # post" "\<forall>d \<in> set pre. beats c d" "\<forall>d \<in> set post. \<not> beats d c"
      using foldl_pick_best by blast
    from map_filter_split [OF split(1)] obtain us node vs where
      "sn_nodes sn = us @ node # vs" "?cand node = Some c" "List.map_filter ?cand us = pre" "List.map_filter ?cand vs = post"
      by blast
    moreover have "\<forall>m \<in> set us. \<forall>d. ?cand m = Some d \<longrightarrow> beats c d"
      using split(2) calculation(3) in_map_filter [of _ ?cand us] by blast
    moreover have "\<forall>m \<in> set vs. \<forall>d. ?cand m = Some d \<longrightarrow> \<not> beats d c"
      using split(3) calculation(4) in_map_filter [of _ ?cand vs] by blast
    ultimately show ?thesis using Inr Some by (simp add: select_def out) blast
  qed
qed

text \<open>Two remote nodes, one half used, and a conversation without preferences.\<close>

definition demo_node :: "string \<Rightarrow> nat \<Rightarrow> node_rec" where
  "demo_node i n =
     \<lparr>nd_id = i, nd_name = None, nd_local = False, nd_accepting = True, nd_revoked = False,
      nd_maintenance = None, nd_pressure = None, nd_execution_ready = True, nd_last_seen = Some 0,
      nd_kvm = True, nd_fuse = True, nd_free_mi_b = None, nd_total_mi_b = None,
      nd_limits = Some \<lparr>rs_cpu = 4, rs_memory_mi_b = 8192, rs_disk_mi_b = 65536\<rparr>,
      nd_limit_disk = Some 65536, nd_usage_disk = None, nd_slots = Some n, nd_runtime_slots = None,
      nd_tags = [], nd_system_tags = [], nd_runtimes = [], nd_runtime_id = ''r1'', nd_storage = None\<rparr>"

definition demo_run :: "string \<Rightarrow> run_rec" where
  "demo_run i =
     \<lparr>rn_id = i, rn_agent = ''agent'', rn_running = False, rn_cancel_requested = False, rn_transition = False,
      rn_isolated = False, rn_required_tags = [], rn_required_runtime = None, rn_target_node = None,
      rn_pinned_node = None, rn_preferred_node = None, rn_disk_mi_b = None, rn_move_request = False,
      rn_move_reservation = None\<rparr>"

definition demo_attempt :: "string \<Rightarrow> string \<Rightarrow> attempt" where
  "demo_attempt run node =
     \<lparr>at_role = Execution, at_run = run, at_node = node, at_resources = defaults, at_runtime = ''r1'', at_created = 0,
      at_lease_expires = 60000, at_released = False, at_released_at = None, at_additional_mi_b = 128,
      at_materialized = False, at_lease_required = False, at_lease_duration = None\<rparr>"

definition demo_volume :: "string \<Rightarrow> string \<Rightarrow> volume" where
  "demo_volume run node =
     \<lparr>vo_node = node, vo_run = run, vo_storage_mode = Some ON_DEMAND, vo_disk_mi_b = Some 128,
      vo_active_mi_b = None, vo_materialized = False\<rparr>"

definition demo_db :: fleet_db where
  "demo_db =
     \<lparr>db_nodes = [(''n1'', demo_node ''n1'' 2), (''n2'', demo_node ''n2'' 2)], db_agents = [(''agent'', None)],
      db_attempts = [(''a1'', demo_attempt ''r1'' ''n1'')],
      db_volumes = [(volume_key ''r1'' ''n1'', demo_volume ''r1'' ''n1'')],
      db_checkpoints = [], db_runs = [(''r2'', demo_run ''r2'')], db_audit = []\<rparr>"

definition demo_request :: request where
  "demo_request = request_new (demo_run ''r2'') None no_checkpoint"

definition demo_snapshot :: snapshot where
  "demo_snapshot =
     \<lparr>sn_access = None, sn_checkpoint = no_checkpoint, sn_nodes = [demo_node ''n1'' 2, demo_node ''n2'' 2],
      sn_attempts = [demo_attempt ''r1'' ''n1''], sn_volumes = [demo_volume ''r1'' ''n1'']\<rparr>"

lemmas demo_defs = demo_node_def demo_run_def demo_attempt_def demo_volume_def

lemma demo_load: "snapshot_load demo_db (demo_run ''r2'') True = Inr demo_snapshot"
  by (simp add: snapshot_load_def demo_db_def demo_snapshot_def demo_defs tb_get_def tb_list_def db_checkpoint_def
      node_order_def LOCAL_NODE_ID_def)

lemma demo_policy_valid: "policy_for_node None = Inr default_policy"
  by (simp add: policy_for_node_def policy_validate_def default_policy_def)

lemma demo_select:
  "select 1000 demo_snapshot demo_request True =
     Inr \<lparr>ca_preferred = False, ca_headroom = (2, 2), ca_node = demo_node ''n2'' 2,
          ca_resources = \<lparr>rs_cpu = 4, rs_memory_mi_b = 8192, rs_disk_mi_b = 32768\<rparr>\<rparr>"
  by (simp add: select_def demo_snapshot_def demo_request_def snapshot_fleet_def demo_defs request_new_def
      no_checkpoint_def option_or_def eligible_def Let_def node_tags_def only_def allowed_def seen_within_def
      FRESH_HEARTBEAT_MS_def resources_for_def defaults_def fit_def demo_policy_valid free_slots_def
      active_on_def is_active_attempt_def node_capacity_def slots_def u64_limit_def disk_fits_def disk_total_def
      replacing_def JOURNAL_MIB_def ON_DEMAND_def or_zero_def checked_add64_def beats_def)


theorem select_optimal_witness:
  "\<exists>best. select 1000 demo_snapshot demo_request True = Inr best \<and> nd_id (ca_node best) = ''n2''
     \<and> (\<exists>c. candidate_of 1000 (snapshot_fleet demo_snapshot) demo_request True (demo_node ''n1'' 2) = Some c
          \<and> beats best c)"
proof -
  let ?cand = "candidate_of 1000 (snapshot_fleet demo_snapshot) demo_request True"
  let ?best = "\<lparr>ca_preferred = False, ca_headroom = (2, 2), ca_node = demo_node ''n2'' 2,
    ca_resources = \<lparr>rs_cpu = 4, rs_memory_mi_b = 8192, rs_disk_mi_b = 32768\<rparr>\<rparr>"
  obtain c where c: "?cand (demo_node ''n1'' 2) = Some c"
    by (simp add: candidate_of_def demo_snapshot_def demo_request_def snapshot_fleet_def demo_defs request_new_def
      no_checkpoint_def option_or_def eligible_def Let_def node_tags_def only_def allowed_def seen_within_def
      FRESH_HEARTBEAT_MS_def resources_for_def defaults_def fit_def demo_policy_valid free_slots_def
      active_on_def is_active_attempt_def node_capacity_def slots_def u64_limit_def disk_fits_def disk_total_def
      replacing_def JOURNAL_MIB_def ON_DEMAND_def or_zero_def checked_add64_def)
  have nodes: "sn_nodes demo_snapshot = [demo_node ''n1'' 2, demo_node ''n2'' 2]" by (simp add: demo_snapshot_def)
  from select_optimal [where now = 1000 and sn = demo_snapshot and rq = demo_request and configured = True]
  obtain pre node post where split: "[demo_node ''n1'' 2, demo_node ''n2'' 2] = pre @ node # post"
    "?cand node = Some ?best"
    "\<forall>m \<in> set pre. \<forall>d. ?cand m = Some d \<longrightarrow> beats ?best d"
    by (auto simp: demo_select nodes)
  have "ca_node ?best = node"
    using split(2) by (auto simp: candidate_of_def split: if_splits option.splits sum.splits)
  then have "node = demo_node ''n2'' 2" by simp
  then have "pre = [demo_node ''n1'' 2]"
    using split(1) by (auto simp: Cons_eq_append_conv demo_node_def)
  then have "beats ?best c" using split(3) c by simp
  then show ?thesis using c demo_select by (simp add: demo_node_def)
qed

end
