(* ===== verification/Placement_Admission.thy ===== *)
theory Placement_Admission
  imports Placement_Choice
begin

text \<open>
  Invariants of the placement state over every sequence of reservations, releases, materializations, lease
  renewals and owner configurations, and what one reservation grants.
\<close>

section \<open>The invariant\<close>

definition fleet_nodes :: "bool \<Rightarrow> fleet_db \<Rightarrow> node_rec list" where
  "fleet_nodes configured db =
     (let nodes = tb_list (db_nodes db)
      in if \<not> configured \<and> list_all (\<lambda>n. nd_id n \<noteq> LOCAL_NODE_ID) nodes
         then nodes @ [development_node configured] else nodes)"

definition colon_free :: "string \<Rightarrow> bool" where
  "colon_free s = (CHR '':'' \<notin> set s)"

definition active_at :: "string \<Rightarrow> string \<Rightarrow> attempt \<Rightarrow> bool" where
  "active_at run node a = (at_run a = run \<and> at_node a = node \<and> is_active_attempt a)"

text \<open>Which conversations own a slot of a node.\<close>

definition runs_on :: "fleet_db \<Rightarrow> string \<Rightarrow> string set" where
  "runs_on db node = at_run ` {a \<in> set (tb_list (db_attempts db)). at_node a = node \<and> is_active_attempt a}"

definition slots_ok :: "bool \<Rightarrow> fleet_db \<Rightarrow> bool" where
  "slots_ok configured db = (\<forall>n \<in> set (fleet_nodes configured db). card (runs_on db (nd_id n)) \<le> node_capacity n)"

definition volume_ok :: "attempt table \<Rightarrow> string \<times> volume \<Rightarrow> bool" where
  "volume_ok attempts e =
     (case e of (k, v) \<Rightarrow>
        k = volume_key (vo_run v) (vo_node v) \<and> colon_free (vo_run v) \<and> or_zero (vo_disk_mi_b v) < u64_limit
        \<and> (\<not> vo_materialized v \<longrightarrow>
             vo_storage_mode v = Some ON_DEMAND \<and> list_ex (active_at (vo_run v) (vo_node v)) (tb_list attempts)))"

definition db_ok :: "fleet_db \<Rightarrow> bool" where
  "db_ok db =
     (tb_ok (db_attempts db) \<and> tb_ok (db_volumes db) \<and> tb_ok (db_nodes db)
      \<and> list_all (\<lambda>(k, n). nd_id n = k) (db_nodes db)
      \<and> list_all (\<lambda>(_, a). colon_free (at_run a)) (db_attempts db)
      \<and> list_all (volume_ok (db_attempts db)) (db_volumes db))"

definition placement_ok :: "bool \<Rightarrow> fleet_db \<Rightarrow> bool" where
  "placement_ok configured db = (db_ok db \<and> slots_ok configured db)"

text \<open>New attempts have new ids, and ids of conversations are UUIDs, without a colon.\<close>

inductive placement_step :: "bool \<Rightarrow> fleet_db \<Rightarrow> fleet_db \<Rightarrow> bool" for configured where
  Step_Reserve:
    "tb_get (db_attempts db) attempt = None \<Longrightarrow> colon_free (rn_id run) \<Longrightarrow>
     reserve now run attempt configured db = (r, db') \<Longrightarrow> placement_step configured db db'"
| Step_Release: "release now attempt db = (u, db') \<Longrightarrow> placement_step configured db db'"
| Step_Materialize: "materialize attempt db = (u, db') \<Longrightarrow> placement_step configured db db'"
| Step_Renew: "renew_in run_id owned lease_ms db = (u, db') \<Longrightarrow> placement_step configured db db'"
| Step_Configure: "configure is_uuid (public_view :: node_rec \<Rightarrow> node_rec) run_id input db = (c, db') \<Longrightarrow> placement_step configured db db'"

inductive_cases placement_stepE: "placement_step configured db db'"

section \<open>Helpers\<close>

lemma volume_key_inject:
  "colon_free r \<Longrightarrow> colon_free r' \<Longrightarrow> volume_key r n = volume_key r' n' \<longleftrightarrow> r = r' \<and> n = n'"
proof (induction r arbitrary: r')
  case Nil
  then show ?case by (cases r') (auto simp: volume_key_def colon_free_def)
next
  case (Cons c r)
  then show ?case by (cases r') (auto simp: volume_key_def colon_free_def)
qed

lemma set_tb_put: "set (tb_list (tb_put k v t)) \<subseteq> insert v (set (tb_list t))"
  by (auto simp: tb_list_def tb_put_def)

lemma in_tb_put: "v \<in> set (tb_list (tb_put k v t))"
  by (auto simp: tb_list_def tb_put_def)

lemma in_tb_put_other:
  assumes "u \<in> set (tb_list t)" "tb_ok t" "tb_get t k \<noteq> Some u"
  shows "u \<in> set (tb_list (tb_put k v t))"
proof -
  obtain j where j: "tb_get t j = Some u" using assms(1) set_tb_list [OF assms(2)] by auto
  then have "tb_get (tb_put k v t) j = Some u" using assms(2,3) by (auto simp: tb.get_ins)
  then show ?thesis using set_tb_list [OF tb.invar_ins [OF assms(2)]] by blast
qed

lemma finite_runs_on [simp]: "finite (runs_on db node)"
  by (simp add: runs_on_def)

lemma runs_on_put:
  "runs_on (db\<lparr>db_attempts := tb_put k a (db_attempts db)\<rparr>) node
     \<subseteq> runs_on db node \<union> (if at_node a = node \<and> is_active_attempt a then {at_run a} else {})"
  using set_tb_put [of k a "db_attempts db"] by (auto simp: runs_on_def)

lemma runs_on_attempts: "db_attempts db' = db_attempts db \<Longrightarrow> runs_on db' = runs_on db"
  by (simp add: runs_on_def fun_eq_iff)

lemma runs_onI: "tb_ok (db_attempts db) \<Longrightarrow> tb_get (db_attempts db) k = Some a \<Longrightarrow> is_active_attempt a \<Longrightarrow>
  at_run a \<in> runs_on db (at_node a)"
  using set_tb_list [of "db_attempts db"] by (auto simp: runs_on_def)

lemma fleet_nodes_cong: "db_nodes db' = db_nodes db \<Longrightarrow> fleet_nodes configured db' = fleet_nodes configured db"
  by (simp add: fleet_nodes_def)

lemma slots_ok_mono:
  assumes "slots_ok configured db" "db_nodes db' = db_nodes db" "\<And>node. runs_on db' node \<subseteq> runs_on db node"
  shows "slots_ok configured db'"
proof -
  have "card (runs_on db' node) \<le> card (runs_on db node)" for node
    by (rule card_mono [OF finite_runs_on assms(3)])
  then show ?thesis
    using assms(1) fleet_nodes_cong [OF assms(2)] unfolding slots_ok_def by (metis order_trans)
qed

lemma fleet_nodes_ids: "db_ok db \<Longrightarrow> distinct (map nd_id (fleet_nodes configured db))"
proof -
  assume "db_ok db"
  then have "tb_ok (db_nodes db)" "map nd_id (tb_list (db_nodes db)) = map fst (db_nodes db)"
    by (auto simp: db_ok_def tb_list_def list_all_iff)
  then have "distinct (map nd_id (tb_list (db_nodes db)))" by (simp add: tb_ok_def)
  then show ?thesis
    by (auto simp: fleet_nodes_def Let_def list_all_iff development_node_def)
qed

lemma fleet_nodes_unique:
  "db_ok db \<Longrightarrow> m \<in> set (fleet_nodes configured db) \<Longrightarrow> n \<in> set (fleet_nodes configured db) \<Longrightarrow>
   nd_id m = nd_id n \<Longrightarrow> m = n"
  using fleet_nodes_ids [of db configured] by (auto simp: distinct_map inj_on_def)

lemma snapshot_load_spec:
  "snapshot_load db run configured = Inr sn \<longleftrightarrow>
   (\<exists>access. tb_get (db_agents db) (rn_agent run) = Some access
     \<and> sn = \<lparr>sn_access = access, sn_checkpoint = db_checkpoint db (rn_id run),
             sn_nodes = sort_key (node_order run) (fleet_nodes configured db),
             sn_attempts = tb_list (db_attempts db), sn_volumes = tb_list (db_volumes db)\<rparr>)"
  by (auto simp: snapshot_load_def fleet_nodes_def Let_def split: option.splits)


section \<open>What a reservation does\<close>

definition run_request :: "fleet_db \<Rightarrow> run_rec \<Rightarrow> string list option \<Rightarrow> request" where
  "run_request db run access = request_new run access (db_checkpoint db (rn_id run))"

lemma run_request_simps [simp]:
  "rq_run (run_request db run access) = run"
  "rq_moving (run_request db run access) = rn_transition run"
  "rq_access (run_request db run access) = access"
  by (simp_all add: run_request_def request_new_def)

lemma claim_doneE:
  assumes "claim_reservation now rq nodes reservation attempt db = (Inr pl, db')"
  obtains held rec run taken where
    "tb_get (db_attempts db) reservation = Some held" "\<not> at_released held" "at_run held = rn_id (rq_run rq)"
    "allowed (rq_access rq) (at_node held)" "rec \<in> set nodes" "nd_id rec = at_node held"
    "nd_fuse rec" "nd_maintenance rec = None" "\<not> nd_revoked rec"
    "tb_get (db_runs db) (rn_id (rq_run rq)) = Some run"
    "taken = held\<lparr>at_role := Execution, at_lease_expires := now + RESERVATION_LEASE_MS\<rparr>"
    "db' = db\<lparr>db_attempts := tb_put attempt taken (tb_put reservation (held\<lparr>at_released := True\<rparr>) (db_attempts db)),
              db_runs := tb_put (rn_id (rq_run rq)) (run\<lparr>rn_move_reservation := None\<rparr>) (db_runs db)\<rparr>"
    "po_node pl = at_node held"
proof -
  obtain held where held: "tb_get (db_attempts db) reservation = Some held"
    using assms by (auto simp: claim_reservation_def split: option.splits)
  obtain rec where rec: "find (\<lambda>n. nd_id n = at_node held) nodes = Some rec"
    using assms held by (auto simp: claim_reservation_def split: option.splits)
  have facts: "nd_fuse rec" "nd_maintenance rec = None" "\<not> at_released held" "at_run held = rn_id (rq_run rq)"
    "allowed (rq_access rq) (at_node held)" "\<not> nd_revoked rec"
    using assms by (auto simp: claim_reservation_def held rec split: if_splits)
  obtain run where run: "tb_get (db_runs db) (rn_id (rq_run rq)) = Some run"
    using assms by (auto simp: claim_reservation_def held rec facts patch_run_def Let_def split: option.splits)
  have node: "rec \<in> set nodes" "nd_id rec = at_node held"
    using rec by (auto simp: find_Some_iff)
  show thesis
    using that [OF held facts(3-5) node facts(1,2,6) run refl] assms
    by (auto simp: claim_reservation_def held rec facts patch_run_def run Let_def)
qed


lemma admit_doneE:
  assumes "admit now rq best attempts attempt db = (Inr pl, db')"
  obtains rec vol disk where
    "\<not> still_owned rq attempts"
    "vol = admitted_volume db (rn_id (rq_run rq)) (nd_id (ca_node best))"
    "disk = disk_total (Some vol) (rs_disk_mi_b (ca_resources best)) (replacing rq (nd_id (ca_node best)))"
    "rec = new_attempt now rq best (disk - or_zero (vo_disk_mi_b vol))"
    "db' = db\<lparr>db_attempts := tb_put attempt rec (db_attempts db),
      db_volumes := tb_put (volume_key (rn_id (rq_run rq)) (nd_id (ca_node best))) (vol\<lparr>vo_disk_mi_b := Some disk\<rparr>) (db_volumes db)\<rparr>"
    "po_node pl = nd_id (ca_node best)"
proof -
  have free: "\<not> still_owned rq attempts"
    using assms by (auto simp: admit_def Let_def split: if_splits)
  from that [OF free refl refl refl] show thesis
    using assms free by (auto simp: admit_def Let_def)
qed

lemma new_attempt_simps [simp]:
  "at_role (new_attempt now rq best n) = (if rq_moving rq then Destination else Execution)"
  "at_run (new_attempt now rq best n) = rn_id (rq_run rq)"
  "at_node (new_attempt now rq best n) = nd_id (ca_node best)"
  "\<not> at_released (new_attempt now rq best n)"
  "\<not> at_materialized (new_attempt now rq best n)"
  "at_additional_mi_b (new_attempt now rq best n) = n"
  by (simp_all add: new_attempt_def)

lemma candidate_node: "candidate_of now fl rq configured node = Some best \<Longrightarrow> ca_node best = node"
  by (auto simp: candidate_of_def split: if_splits option.splits sum.splits)

lemma candidate_free:
  "candidate_of now fl rq configured node = Some best \<Longrightarrow> eligible now rq node configured \<and> 0 < free_slots fl rq node"
  by (auto simp: candidate_of_def fit_def Let_def split: if_splits option.splits sum.splits)

lemma reserve_cases:
  assumes "reserve now run attempt configured db = (Inr pl, db')"
  obtains (claim) access reservation held node run1 taken where
      "tb_get (db_agents db) (rn_agent run) = Some access" "\<not> rn_transition run"
      "rn_move_reservation run = Some reservation"
      "tb_get (db_attempts db) reservation = Some held" "\<not> at_released held" "at_run held = rn_id run"
      "allowed access (at_node held)" "node \<in> set (fleet_nodes configured db)" "nd_id node = at_node held"
      "nd_fuse node" "nd_maintenance node = None" "\<not> nd_revoked node"
      "tb_get (db_runs db) (rn_id run) = Some run1"
      "taken = held\<lparr>at_role := Execution, at_lease_expires := now + RESERVATION_LEASE_MS\<rparr>"
      "db' = db\<lparr>db_attempts := tb_put attempt taken (tb_put reservation (held\<lparr>at_released := True\<rparr>) (db_attempts db)),
              db_runs := tb_put (rn_id run) (run1\<lparr>rn_move_reservation := None\<rparr>) (db_runs db)\<rparr>"
      "po_node pl = at_node held"
  | (admit) access node best rec vol disk where
      "tb_get (db_agents db) (rn_agent run) = Some access" "rn_transition run \<or> rn_move_reservation run = None"
      "node \<in> set (fleet_nodes configured db)"
      "candidate_of now \<lparr>fl_attempts = tb_list (db_attempts db), fl_volumes = tb_list (db_volumes db)\<rparr>
         (run_request db run access) configured node = Some best"
      "\<not> still_owned (run_request db run access) (tb_list (db_attempts db))"
      "vol = admitted_volume db (rn_id run) (nd_id node)"
      "disk = disk_total (Some vol) (rs_disk_mi_b (ca_resources best)) (replacing (run_request db run access) (nd_id node))"
      "rec = new_attempt now (run_request db run access) best (disk - or_zero (vo_disk_mi_b vol))"
      "ca_node best = node"
      "db' = db\<lparr>db_attempts := tb_put attempt rec (db_attempts db),
        db_volumes := tb_put (volume_key (rn_id run) (nd_id node)) (vol\<lparr>vo_disk_mi_b := Some disk\<rparr>) (db_volumes db)\<rparr>"
      "po_node pl = nd_id node"
proof -
  have run: "reserve_in now run attempt configured db = (Inr pl, db')"
    using assms by (simp add: reserve_def transaction_done)
  then obtain sn where "snapshot_load db run configured = Inr sn"
    by (auto simp: reserve_in_def split: sum.splits)
  then obtain access where access: "tb_get (db_agents db) (rn_agent run) = Some access"
    and sn: "snapshot_load db run configured = Inr sn" "sn_access sn = access" "sn_checkpoint sn = db_checkpoint db (rn_id run)"
      "sn_nodes sn = sort_key (node_order run) (fleet_nodes configured db)" "sn_attempts sn = tb_list (db_attempts db)"
      "snapshot_fleet sn = \<lparr>fl_attempts = tb_list (db_attempts db), fl_volumes = tb_list (db_volumes db)\<rparr>"
    by (auto simp: snapshot_load_spec snapshot_fleet_def)
  note step = run [unfolded reserve_in_def sn(1) sum.case Let_def sn(2,3) run_request_def [symmetric] run_request_simps]
  show thesis
  proof (cases "rn_transition run \<or> rn_move_reservation run = None")
    case False
    then obtain reservation where reservation: "rn_move_reservation run = Some reservation" by auto
    have "claim_reservation now (run_request db run access)
         (sort_key (node_order run) (fleet_nodes configured db)) reservation attempt db = (Inr pl, db')"
      using False reservation step sn(4) by simp
    then show thesis
    proof (rule claim_doneE)
      fix held rec run1 taken
      assume c: "tb_get (db_attempts db) reservation = Some held" "\<not> at_released held"
        "at_run held = rn_id (rq_run (run_request db run access))"
        "allowed (rq_access (run_request db run access)) (at_node held)"
        "rec \<in> set (sort_key (node_order run) (fleet_nodes configured db))" "nd_id rec = at_node held"
        "nd_fuse rec" "nd_maintenance rec = None" "\<not> nd_revoked rec"
        "tb_get (db_runs db) (rn_id (rq_run (run_request db run access))) = Some run1"
        "taken = held\<lparr>at_role := Execution, at_lease_expires := now + RESERVATION_LEASE_MS\<rparr>"
        "db' = db\<lparr>db_attempts := tb_put attempt taken (tb_put reservation (held\<lparr>at_released := True\<rparr>) (db_attempts db)),
              db_runs := tb_put (rn_id (rq_run (run_request db run access))) (run1\<lparr>rn_move_reservation := None\<rparr>) (db_runs db)\<rparr>"
        "po_node pl = at_node held"
      show thesis
        by (rule claim [OF access _ reservation]) (use False c in auto)
    qed
  next
    case True
    then have "(if rn_transition run then None else rn_move_reservation run) = None" by auto
    then obtain best where best: "select now sn (run_request db run access) configured = Inr best"
      "admit now (run_request db run access) best (sn_attempts sn) attempt db = (Inr pl, db')"
      using step by (auto split: sum.splits)
    from select_candidate [OF best(1)] sn(4,6) obtain node where node: "node \<in> set (fleet_nodes configured db)"
      "candidate_of now \<lparr>fl_attempts = tb_list (db_attempts db), fl_volumes = tb_list (db_volumes db)\<rparr>
         (run_request db run access) configured node = Some best"
      by auto
    note same = candidate_node [OF node(2)]
    from best(2) show thesis
      by (rule admit_doneE)
        (rule admit [OF access True node(1,2)], simp_all add: same sn(5))
  qed
qed

section \<open>Slots\<close>

text \<open>A free slot leaves room for one more conversation than the node has.\<close>

lemma free_slot_card:
  assumes free: "0 < free_slots \<lparr>fl_attempts = tb_list (db_attempts db), fl_volumes = vs\<rparr> rq node"
    and new: "rn_id (rq_run rq) \<notin> runs_on db (nd_id node)"
  shows "card (runs_on db (nd_id node)) < node_capacity node"
proof -
  let ?active = "filter (\<lambda>a. at_node a = nd_id node \<and> is_active_attempt a) (tb_list (db_attempts db))"
  have on: "runs_on db (nd_id node) = at_run ` set ?active"
    by (simp add: runs_on_def)
  have "filter (\<lambda>a. \<not> (rq_moving rq \<and> at_run a = rn_id (rq_run rq))) ?active = ?active"
    unfolding filter_id_conv using new unfolding on by (auto simp: image_iff)
  then have "length ?active < node_capacity node"
    using free by (simp add: free_slots_def active_on_def Let_def)
  moreover have "card (at_run ` set ?active) \<le> length ?active"
    using card_image_le [of "set ?active" at_run] card_length [of ?active] by simp
  ultimately show ?thesis unfolding on by simp
qed

lemma reserve_keeps_slots:
  assumes ok: "db_ok db" "slots_ok configured db" and res: "reserve now run attempt configured db = (Inr pl, db')"
  shows "slots_ok configured db'"
  using res
proof (cases rule: reserve_cases)
  case (claim access reservation held node run1 taken)
  have on: "at_run held \<in> runs_on db (at_node held)"
    using runs_onI [of db reservation held] ok(1) claim(4,5) by (simp add: db_ok_def is_active_attempt_def)
  show ?thesis
  proof (rule slots_ok_mono [OF ok(2)])
    show "db_nodes db' = db_nodes db" by (simp add: claim(15))
    show "runs_on db' node \<subseteq> runs_on db node" for node
    proof -
      have "set (tb_list (db_attempts db')) \<subseteq> insert taken (insert (held\<lparr>at_released := True\<rparr>) (set (tb_list (db_attempts db))))"
        using set_tb_put [of attempt taken] set_tb_put [of reservation "held\<lparr>at_released := True\<rparr>" "db_attempts db"]
        by (auto simp: claim(15))
      then show ?thesis
        using on by (auto simp: runs_on_def is_active_attempt_def claim(14))
    qed
  qed
next
  case (admit access node best rec vol disk)
  have rec: "at_run rec = rn_id run" "at_node rec = nd_id node"
    by (simp_all add: admit(8,9))
  have sub: "runs_on db' n \<subseteq> runs_on db n \<union> (if n = nd_id node then {rn_id run} else {})" for n
    using runs_on_put [where k = attempt and a = rec and db = db and node = n]
    by (auto simp: rec admit(10) runs_on_def split: if_splits)
  have nodes: "fleet_nodes configured db' = fleet_nodes configured db"
    by (rule fleet_nodes_cong) (simp add: admit(10))
  have "card (runs_on db' (nd_id m)) \<le> node_capacity m" if m: "m \<in> set (fleet_nodes configured db)" for m
  proof (cases "nd_id m = nd_id node \<and> rn_id run \<notin> runs_on db (nd_id node)")
    case True
    then have "m = node" using fleet_nodes_unique [OF ok(1) m admit(3)] by simp
    have "card (runs_on db' (nd_id node)) \<le> card (insert (rn_id run) (runs_on db (nd_id node)))"
      using sub [of "nd_id node"] by (intro card_mono) auto
    also have "\<dots> = Suc (card (runs_on db (nd_id node)))" using True by simp
    also have "\<dots> \<le> node_capacity node"
      using free_slot_card [OF candidate_free [OF admit(4), THEN conjunct2]] True by simp
    finally show ?thesis using \<open>m = node\<close> by simp
  next
    case False
    then have "runs_on db' (nd_id m) \<subseteq> runs_on db (nd_id m)" using sub [of "nd_id m"] by (auto split: if_splits)
    then have "card (runs_on db' (nd_id m)) \<le> card (runs_on db (nd_id m))" by (rule card_mono [OF finite_runs_on])
    then show ?thesis using ok(2) m unfolding slots_ok_def by (meson order_trans)
  qed
  then show ?thesis by (simp add: slots_ok_def nodes)
qed


section \<open>Attempts and volumes\<close>

definition keeps_active :: "attempt table \<Rightarrow> attempt table \<Rightarrow> bool" where
  "keeps_active t t' = (\<forall>r n. list_ex (active_at r n) (tb_list t) \<longrightarrow> list_ex (active_at r n) (tb_list t'))"

lemma keeps_active_put:
  assumes "tb_ok t"
    and "\<And>u. tb_get t k = Some u \<Longrightarrow> is_active_attempt u \<Longrightarrow> active_at (at_run u) (at_node u) v"
  shows "keeps_active t (tb_put k v t)"
  unfolding keeps_active_def list_ex_iff
proof (intro allI impI)
  fix r n assume "\<exists>a \<in> set (tb_list t). active_at r n a"
  then obtain a where a: "a \<in> set (tb_list t)" "active_at r n a" by blast
  show "\<exists>a \<in> set (tb_list (tb_put k v t)). active_at r n a"
  proof (cases "tb_get t k = Some a")
    case True
    then have "active_at r n v" using assms(2) [OF True] a(2) by (simp add: active_at_def)
    then show ?thesis using in_tb_put [of v k t] by blast
  next
    case False
    then show ?thesis using in_tb_put_other [OF a(1) assms(1) False] a(2) by blast
  qed
qed

lemma keeps_active_trans: "keeps_active t t' \<Longrightarrow> keeps_active t' t'' \<Longrightarrow> keeps_active t t''"
  by (simp add: keeps_active_def)

lemma list_all_tb_put: "list_all P t \<Longrightarrow> P (k, v) \<Longrightarrow> list_all P (tb_put k v t)"
  by (simp add: tb_put_def list_all_iff)

lemma list_all_tb_remove: "list_all P t \<Longrightarrow> list_all P (tb_remove k t)"
  by (simp add: tb_remove_def list_all_iff)

lemma volume_ok_mono: "keeps_active t t' \<Longrightarrow> list_all (volume_ok t) vs \<Longrightarrow> list_all (volume_ok t') vs"
  by (auto simp: volume_ok_def keeps_active_def list_all_iff)

lemma db_ok_volume:
  "db_ok db \<Longrightarrow> tb_get (db_volumes db) k = Some v \<Longrightarrow> volume_ok (db_attempts db) (k, v)"
  using tb.set_entries [of "db_volumes db"] by (auto simp: db_ok_def list_all_iff)

lemma db_ok_attempt:
  "db_ok db \<Longrightarrow> tb_get (db_attempts db) k = Some a \<Longrightarrow> colon_free (at_run a)"
  using tb.set_entries [of "db_attempts db"] by (auto simp: db_ok_def list_all_iff)

text \<open>Writing attempts that keep the active ones, and a volume that is good beside them.\<close>

lemma db_ok_write:
  assumes "db_ok db" "tb_ok attempts" "keeps_active (db_attempts db) attempts"
    "list_all (\<lambda>(_, a). colon_free (at_run a)) attempts"
    "tb_ok volumes" "list_all (volume_ok attempts) volumes"
    "db_attempts db' = attempts" "db_volumes db' = volumes" "db_nodes db' = db_nodes db"
  shows "db_ok db'"
  using assms by (simp add: db_ok_def)

lemma disk_total_bounds:
  assumes "or_zero (vo_disk_mi_b v) < u64_limit"
  shows "disk_total (Some v) requested moved < u64_limit"
    "or_zero (vo_disk_mi_b v) \<le> disk_total (Some v) requested moved"
  using assms
  by (auto simp: disk_total_def Let_def JOURNAL_MIB_def saturating_add64_def or_zero_def u64_limit_def split: option.splits)

lemma admitted_volume_ok:
  assumes "db_ok db" "colon_free run"
  shows "vo_run (admitted_volume db run node) = run" "vo_node (admitted_volume db run node) = node"
    "or_zero (vo_disk_mi_b (admitted_volume db run node)) < u64_limit"
    "\<not> vo_materialized (admitted_volume db run node) \<Longrightarrow> vo_storage_mode (admitted_volume db run node) = Some ON_DEMAND"
    "tb_get (db_volumes db) (volume_key run node) = Some v \<Longrightarrow> admitted_volume db run node = v"
proof -
  let ?get = "tb_get (db_volumes db) (volume_key run node)"
  have stored: "vo_run v = run \<and> vo_node v = node \<and> or_zero (vo_disk_mi_b v) < u64_limit
      \<and> (\<not> vo_materialized v \<longrightarrow> vo_storage_mode v = Some ON_DEMAND)" if "?get = Some v" for v
    using db_ok_volume [OF assms(1) that] volume_key_inject [OF assms(2)] by (auto simp: volume_ok_def)
  show "admitted_volume db run node = v" if "?get = Some v"
    using that stored [OF that] by (simp add: admitted_volume_def)
  have "vo_run (admitted_volume db run node) = run \<and> vo_node (admitted_volume db run node) = node
    \<and> or_zero (vo_disk_mi_b (admitted_volume db run node)) < u64_limit
    \<and> (\<not> vo_materialized (admitted_volume db run node) \<longrightarrow> vo_storage_mode (admitted_volume db run node) = Some ON_DEMAND)"
  proof (cases ?get)
    case None
    then show ?thesis by (simp add: admitted_volume_def or_zero_def u64_limit_def)
  next
    case (Some v)
    then show ?thesis using stored [OF Some] by (simp add: admitted_volume_def)
  qed
  then show "vo_run (admitted_volume db run node) = run" "vo_node (admitted_volume db run node) = node"
    "or_zero (vo_disk_mi_b (admitted_volume db run node)) < u64_limit"
    "\<not> vo_materialized (admitted_volume db run node) \<Longrightarrow> vo_storage_mode (admitted_volume db run node) = Some ON_DEMAND"
    by simp_all
qed

lemma reserve_keeps_db:
  assumes ok: "db_ok db" and fresh: "tb_get (db_attempts db) attempt = None" and colon: "colon_free (rn_id run)"
    and res: "reserve now run attempt configured db = (Inr pl, db')"
  shows "db_ok db'"
proof -
  have tb: "tb_ok (db_attempts db)" "tb_ok (db_volumes db)" "list_all (\<lambda>(_, a). colon_free (at_run a)) (db_attempts db)"
    "list_all (volume_ok (db_attempts db)) (db_volumes db)"
    using ok by (simp_all add: db_ok_def)
  from res show ?thesis
  proof (cases rule: reserve_cases)
    case (claim access reservation held node run1 taken)
    let ?t1 = "tb_put reservation (held\<lparr>at_released := True\<rparr>) (db_attempts db)"
    let ?t2 = "tb_put attempt taken ?t1"
    have ok1: "tb_ok ?t1" "tb_ok ?t2" using tb(1) by (simp_all add: tb.invar_ins)
    have "attempt \<noteq> reservation" using fresh claim(4) by auto
    then have none: "tb_get ?t1 attempt = None" using tb(1) fresh by (simp add: tb.get_ins)
    have "keeps_active (db_attempts db) ?t2"
      unfolding keeps_active_def list_ex_iff
    proof (intro allI impI)
      fix r n assume "\<exists>a \<in> set (tb_list (db_attempts db)). active_at r n a"
      then obtain a where a: "a \<in> set (tb_list (db_attempts db))" "active_at r n a" by blast
      show "\<exists>a \<in> set (tb_list ?t2). active_at r n a"
      proof (cases "a = held")
        case True
        then have "active_at r n taken" using a(2) by (simp add: claim(14) active_at_def is_active_attempt_def)
        then show ?thesis using in_tb_put [of taken attempt ?t1] by blast
      next
        case False
        then have "a \<in> set (tb_list ?t1)" using in_tb_put_other [OF a(1) tb(1)] claim(4) by simp
        then have "a \<in> set (tb_list ?t2)" using in_tb_put_other [OF _ ok1(1)] none by simp
        then show ?thesis using a(2) by blast
      qed
    qed
    moreover have "colon_free (at_run held)" using db_ok_attempt [OF ok claim(4)] .
    then have "list_all (\<lambda>(_, a). colon_free (at_run a)) ?t2"
      using tb(3) by (intro list_all_tb_put) (simp_all add: claim(14))
    ultimately show ?thesis
      by (intro db_ok_write [OF ok ok1(2) _ _ tb(2) volume_ok_mono [OF _ tb(4)]]) (simp_all add: claim(15))
  next
    case (admit access node best rec vol disk)
    let ?t = "tb_put attempt rec (db_attempts db)"
    let ?v = "vol\<lparr>vo_disk_mi_b := Some disk\<rparr>"
    note vol = admitted_volume_ok [OF ok colon, of "nd_id node", folded admit(6)]
    have keep: "keeps_active (db_attempts db) ?t" using fresh by (intro keeps_active_put [OF tb(1)]) simp
    have "active_at (rn_id run) (nd_id node) rec"
      by (simp add: admit(8,9) active_at_def is_active_attempt_def)
    then have "list_ex (active_at (rn_id run) (nd_id node)) (tb_list ?t)"
      using in_tb_put [of rec attempt] by (auto simp: list_ex_iff)
    then have "volume_ok ?t (volume_key (rn_id run) (nd_id node), ?v)"
      using vol(1-4) colon disk_total_bounds(1) [OF vol(3)] by (auto simp: volume_ok_def admit(7) or_zero_def)
    then have "list_all (volume_ok ?t) (tb_put (volume_key (rn_id run) (nd_id node)) ?v (db_volumes db))"
      using volume_ok_mono [OF keep tb(4)] by (intro list_all_tb_put)
    moreover have "list_all (\<lambda>(_, a). colon_free (at_run a)) ?t"
      using tb(3) colon by (intro list_all_tb_put) (simp_all add: admit(8))
    ultimately show ?thesis
      using tb(1,2) keep by (intro db_ok_write [OF ok, of ?t]) (simp_all add: admit(10) tb.invar_ins)
  qed
qed


section \<open>The other operations\<close>

lemma list_all_tb_others:
  "(\<And>j u. (j, u) \<in> set t \<Longrightarrow> j \<noteq> k \<Longrightarrow> P (j, u)) \<Longrightarrow> list_all P (tb_remove k t)"
  "(\<And>j u. (j, u) \<in> set t \<Longrightarrow> j \<noteq> k \<Longrightarrow> P (j, u)) \<Longrightarrow> P (k, v) \<Longrightarrow> list_all P (tb_put k v t)"
  by (auto simp: list_all_iff tb_put_def tb_remove_def)

lemma volume_ok_release:
  assumes "volume_ok t (k, v)" "tb_ok t" "tb_get t attempt = Some rec" "k \<noteq> volume_key (at_run rec) (at_node rec)"
  shows "volume_ok (tb_put attempt u t) (k, v)"
proof (cases "vo_materialized v")
  case False
  then obtain a where a: "a \<in> set (tb_list t)" "active_at (vo_run v) (vo_node v) a"
    using assms(1) by (auto simp: volume_ok_def list_ex_iff)
  have "a \<noteq> rec" using a(2) assms(1,4) by (auto simp: volume_ok_def active_at_def)
  then have "a \<in> set (tb_list (tb_put attempt u t))"
    using in_tb_put_other [OF a(1) assms(2)] assms(3) by auto
  then show ?thesis using assms(1) a(2) False by (auto simp: volume_ok_def list_ex_iff)
qed (use assms(1) in \<open>auto simp: volume_ok_def\<close>)

lemma release_cases:
  assumes "release now attempt db = (r, db')"
  obtains (idle) "r = Inr ()" "db' = db" "\<And>rec. tb_get (db_attempts db) attempt = Some rec \<Longrightarrow> \<not> is_active_attempt rec"
  | (bare) rec where "r = Inr ()" "tb_get (db_attempts db) attempt = Some rec" "is_active_attempt rec"
      "tb_get (db_volumes db) (volume_key (at_run rec) (at_node rec)) = None"
      "db' = db\<lparr>db_attempts := tb_put attempt (rec\<lparr>at_released := True, at_released_at := Some now\<rparr>) (db_attempts db)\<rparr>"
  | (volume) rec vol vol1 t where "r = Inr ()" "tb_get (db_attempts db) attempt = Some rec" "is_active_attempt rec"
      "tb_get (db_volumes db) (volume_key (at_run rec) (at_node rec)) = Some vol"
      "t = tb_put attempt (rec\<lparr>at_released := True, at_released_at := Some now\<rparr>) (db_attempts db)"
      "vol1 = (if \<not> at_materialized rec
               then vol\<lparr>vo_disk_mi_b := Some (or_zero (vo_disk_mi_b vol) - at_additional_mi_b rec)\<rparr> else vol)"
      "db' = (if \<not> vo_materialized vol \<and> \<not> list_ex (active_at (at_run rec) (at_node rec)) (tb_list t)
              then db\<lparr>db_attempts := t, db_volumes := tb_remove (volume_key (at_run rec) (at_node rec)) (db_volumes db)\<rparr>
              else db\<lparr>db_attempts := t, db_volumes := tb_put (volume_key (at_run rec) (at_node rec)) vol1 (db_volumes db)\<rparr>)"
proof -
  have run: "release_in now attempt db = (r, db')"
    using assms by (auto simp: release_def transaction_def release_in_def Let_def split: option.splits if_splits)
  show thesis
  proof (cases "tb_get (db_attempts db) attempt")
    case None
    then show thesis using idle run by (simp add: release_in_def)
  next
    case (Some rec)
    show thesis
    proof (cases "is_active_attempt rec")
      case False
      then show thesis using idle run Some by (simp add: release_in_def)
    next
      case True
      show thesis
      proof (cases "tb_get (db_volumes db) (volume_key (at_run rec) (at_node rec))")
        case None
        then show thesis using bare [OF _ Some True None] run Some True by (simp add: release_in_def Let_def)
      next
        case (Some vol)
        from volume [OF _ \<open>tb_get (db_attempts db) attempt = Some rec\<close> True Some refl refl] show thesis
          using run True by (simp add: release_in_def Let_def Some \<open>tb_get (db_attempts db) attempt = Some rec\<close>
              active_at_def [abs_def] if_distrib split: if_splits)
      qed
    qed
  qed
qed

lemma release_keeps:
  assumes ok: "placement_ok configured db" and rel: "release now attempt db = (r, db')"
  shows "placement_ok configured db'"
proof -
  have dbo: "db_ok db" and slots: "slots_ok configured db" using ok by (simp_all add: placement_ok_def)
  have tb: "tb_ok (db_attempts db)" "tb_ok (db_volumes db)" "tb_ok (db_nodes db)"
    "list_all (\<lambda>(_, a). colon_free (at_run a)) (db_attempts db)"
    "list_all (volume_ok (db_attempts db)) (db_volumes db)" "list_all (\<lambda>(k, n). nd_id n = k) (db_nodes db)"
    using dbo by (simp_all add: db_ok_def)
  have on: "runs_on db1 node \<subseteq> runs_on db node"
    if "db_attempts db1 = tb_put attempt (rec\<lparr>at_released := True, at_released_at := Some now\<rparr>) (db_attempts db)"
    for db1 rec node
    using set_tb_put [of attempt "rec\<lparr>at_released := True, at_released_at := Some now\<rparr>" "db_attempts db"] that
    by (auto simp: runs_on_def is_active_attempt_def)
  have colon: "list_all (\<lambda>(_, a). colon_free (at_run a))
      (tb_put attempt (rec\<lparr>at_released := True, at_released_at := Some now\<rparr>) (db_attempts db))"
    if "tb_get (db_attempts db) attempt = Some rec" for rec
    using tb(4) db_ok_attempt [OF dbo that] by (intro list_all_tb_put) simp_all
  from rel show ?thesis
  proof (cases rule: release_cases)
    case idle
    then show ?thesis using ok by simp
  next
    case (bare rec)
    let ?t = "tb_put attempt (rec\<lparr>at_released := True, at_released_at := Some now\<rparr>) (db_attempts db)"
    have "volume_ok ?t (k, v)" if kv: "(k, v) \<in> set (db_volumes db)" for k v
    proof (rule volume_ok_release [OF _ tb(1) bare(2)])
      show "volume_ok (db_attempts db) (k, v)" using tb(5) kv by (auto simp: list_all_iff)
      have "tb_get (db_volumes db) k = Some v" using tb.set_entries [OF tb(2)] kv by auto
      then show "k \<noteq> volume_key (at_run rec) (at_node rec)" using bare(4) by auto
    qed
    then have "list_all (volume_ok ?t) (db_volumes db)" by (auto simp: list_all_iff)
    then have "db_ok db'" using tb colon [OF bare(2)] by (simp add: bare(5) db_ok_def tb.invar_ins)
    moreover have "slots_ok configured db'"
      by (rule slots_ok_mono [OF slots _ on [of _ rec]]) (simp_all add: bare(5))
    ultimately show ?thesis by (simp add: placement_ok_def)
  next
    case (volume rec vol vol1 t)
    let ?key = "volume_key (at_run rec) (at_node rec)"
    have others: "volume_ok t (k, v)" if "(k, v) \<in> set (db_volumes db)" "k \<noteq> ?key" for k v
      unfolding volume(5) using that tb(5)
      by (intro volume_ok_release [OF _ tb(1) volume(2)]) (auto simp: list_all_iff)
    have vok: "volume_ok (db_attempts db) (?key, vol)" by (rule db_ok_volume [OF dbo volume(4)])
    have same: "vo_run vol = at_run rec" "vo_node vol = at_node rec"
      using vok volume_key_inject [OF db_ok_attempt [OF dbo volume(2)]] by (auto simp: volume_ok_def)
    have "list_all (volume_ok t) (db_volumes db')"
    proof (cases "\<not> vo_materialized vol \<and> \<not> list_ex (active_at (at_run rec) (at_node rec)) (tb_list t)")
      case True
      then show ?thesis using list_all_tb_others(1) [of "db_volumes db" ?key "volume_ok t"] others
        by (simp add: volume(7))
    next
      case False
      then have "volume_ok t (?key, vol1)"
        using vok same by (auto simp: volume_ok_def volume(6) or_zero_def)
      then show ?thesis
        using list_all_tb_others(2) [of "db_volumes db" ?key "volume_ok t" vol1] others False
        by (simp only: volume(7) if_False fleet_db.simps) simp
    qed
    moreover have "db_attempts db' = t" "db_nodes db' = db_nodes db" "tb_ok (db_volumes db')"
      using tb(2) by (simp_all add: volume(7) tb.invar_ins tb.invar_del)
    ultimately have "db_ok db'"
      using tb colon [OF volume(2)] by (simp add: db_ok_def volume(5) tb.invar_ins)
    moreover have "slots_ok configured db'"
      using on [of db' rec] \<open>db_attempts db' = t\<close> \<open>db_nodes db' = db_nodes db\<close> volume(5)
      by (intro slots_ok_mono [OF slots]) simp_all
    ultimately show ?thesis by (simp add: placement_ok_def)
  qed
qed


text \<open>An attempt that is only annotated keeps its conversation, its node and its slot.\<close>

lemma annotate_keeps:
  assumes ok: "placement_ok configured db" and get: "tb_get (db_attempts db) k = Some rec"
    and same: "at_run a = at_run rec" "at_node a = at_node rec" "at_released a = at_released rec"
  shows "placement_ok configured (db\<lparr>db_attempts := tb_put k a (db_attempts db)\<rparr>)"
    "keeps_active (db_attempts db) (tb_put k a (db_attempts db))"
proof -
  have dbo: "db_ok db" and slots: "slots_ok configured db" using ok by (simp_all add: placement_ok_def)
  have tb: "tb_ok (db_attempts db)" "list_all (volume_ok (db_attempts db)) (db_volumes db)"
    using dbo by (simp_all add: db_ok_def)
  show keep: "keeps_active (db_attempts db) (tb_put k a (db_attempts db))"
    by (rule keeps_active_put [OF tb(1)]) (use get same in \<open>auto simp: active_at_def is_active_attempt_def\<close>)
  have "list_all (\<lambda>(_, a). colon_free (at_run a)) (tb_put k a (db_attempts db))"
    using dbo db_ok_attempt [OF dbo get] by (intro list_all_tb_put) (simp_all add: same(1) db_ok_def)
  then have "db_ok (db\<lparr>db_attempts := tb_put k a (db_attempts db)\<rparr>)"
    using dbo volume_ok_mono [OF keep tb(2)] by (simp add: db_ok_def tb.invar_ins)
  moreover have "runs_on (db\<lparr>db_attempts := tb_put k a (db_attempts db)\<rparr>) node \<subseteq> runs_on db node" for node
  proof (cases "at_node a = node \<and> is_active_attempt a")
    case True
    then have "at_run a \<in> runs_on db node"
      using runs_onI [OF tb(1) get] same by (simp add: is_active_attempt_def)
    then show ?thesis using runs_on_put [where db = db and k = k and a = a and node = node] by (auto split: if_splits)
  qed (use runs_on_put [where db = db and k = k and a = a and node = node] in auto)
  ultimately show "placement_ok configured (db\<lparr>db_attempts := tb_put k a (db_attempts db)\<rparr>)"
    using slots_ok_mono [OF slots] by (simp add: placement_ok_def)
qed

lemma materialize_keeps:
  assumes ok: "placement_ok configured db" and mat: "materialize attempt db = (r, db')"
  shows "placement_ok configured db'"
proof (cases r)
  case (Inl e)
  then have "db' = db" by (intro transaction_failed [OF mat [unfolded materialize_def Inl]])
  then show ?thesis using ok by simp
next
  case (Inr u)
  note run = mat [unfolded materialize_def Inr transaction_done]
  obtain rec where rec: "tb_get (db_attempts db) attempt = Some rec"
    using run by (auto split: option.splits)
  let ?rec = "rec\<lparr>at_materialized := True\<rparr>"
  let ?db1 = "db\<lparr>db_attempts := tb_put attempt ?rec (db_attempts db)\<rparr>"
  let ?key = "volume_key (at_run rec) (at_node rec)"
  have ok1: "placement_ok configured ?db1" by (rule annotate_keeps [OF ok rec]) simp_all
  obtain vol where vol: "tb_get (db_volumes db) ?key = Some vol"
    using run rec by (auto simp: Let_def split: if_splits option.splits)
  let ?vol = "vol\<lparr>vo_materialized := True, vo_active_mi_b := Some (rs_disk_mi_b (at_resources rec))\<rparr>"
  have db': "db' = ?db1\<lparr>db_volumes := tb_put ?key ?vol (db_volumes db)\<rparr>"
    using run rec vol by (auto simp: Let_def split: if_splits)
  have dbo: "db_ok ?db1" using ok1 by (simp add: placement_ok_def)
  have "volume_ok (db_attempts ?db1) (?key, vol)" by (rule db_ok_volume [OF dbo]) (simp add: vol)
  then have "volume_ok (db_attempts ?db1) (?key, ?vol)" by (simp add: volume_ok_def)
  moreover have "list_all (volume_ok (db_attempts ?db1)) (db_volumes db)" "tb_ok (db_volumes db)"
    using dbo by (simp_all add: db_ok_def)
  ultimately have "db_ok db'" using dbo by (simp add: db' db_ok_def list_all_tb_put tb.invar_ins)
  moreover have "slots_ok configured db'"
  proof (rule slots_ok_mono [of configured ?db1])
    show "slots_ok configured ?db1" using ok1 by (simp add: placement_ok_def)
  qed (simp_all add: db' runs_on_def)
  ultimately show ?thesis by (simp add: placement_ok_def)
qed

lemma renew_keeps:
  assumes ok: "placement_ok configured db" and ren: "renew_in run_id owned lease_ms db = (r, db')"
  shows "placement_ok configured db'"
proof (cases r)
  case (Inl e)
  then have "db' = db" by (intro transaction_failed [OF ren [unfolded renew_in_def Inl]])
  then show ?thesis using ok by simp
next
  case (Inr u)
  note run = ren [unfolded renew_in_def Inr transaction_done]
  obtain rec where rec: "tb_get (db_attempts db) owned = Some rec"
    using run by (auto simp: Let_def split: option.splits)
  let ?rec = "rec\<lparr>at_lease_required := True, at_lease_duration := Some (max (or_zero (at_lease_duration rec)) lease_ms)\<rparr>"
  have "db' = db\<lparr>db_attempts := tb_put owned ?rec (db_attempts db)\<rparr>"
    using run rec by (auto simp: Let_def split: option.splits if_splits)
  then show ?thesis using annotate_keeps(1) [OF ok rec, of ?rec] by simp
qed

lemma configure_frame:
  assumes "configure is_uuid public_view run input db = (c, db')"
  shows "db_attempts db' = db_attempts db \<and> db_volumes db' = db_volumes db \<and> db_nodes db' = db_nodes db"
proof (cases "\<not> is_uuid run \<or> (\<exists>e. c = Inl e)")
  case True
  have "db' = db"
  proof (cases "is_uuid run")
    case uuid: True
    with True obtain e where e: "c = Inl e" by auto
    have "transaction (configure_in is_uuid public_view run input) db = (Inl e, db')"
      using assms uuid e by (simp add: configure_def)
    then show ?thesis by (rule transaction_failed)
  qed (use assms in \<open>simp add: configure_def\<close>)
  then show ?thesis by simp
next
  case False
  then obtain x where x: "c = Inr x" by (cases c) auto
  have "configure_in is_uuid public_view run input db = (Inr x, db')"
    using assms False by (simp add: configure_def x transaction_done)
  then show ?thesis
    by (auto simp: configure_in_def Let_def patch_run_def split: option.splits sum.splits if_splits)
qed

lemma placement_ok_frame:
  assumes "placement_ok configured db" "db_attempts db' = db_attempts db" "db_volumes db' = db_volumes db"
    "db_nodes db' = db_nodes db"
  shows "placement_ok configured db'"
  using assms slots_ok_mono [of configured db db'] runs_on_attempts [of db' db] by (simp add: placement_ok_def db_ok_def)

lemma reserve_keeps:
  assumes ok: "placement_ok configured db" and fresh: "tb_get (db_attempts db) attempt = None" "colon_free (rn_id run)"
    and res: "reserve now run attempt configured db = (r, db')"
  shows "placement_ok configured db'"
proof (cases r)
  case (Inl e)
  then have "db' = db" by (intro transaction_failed [OF res [unfolded reserve_def Inl]])
  then show ?thesis using ok by simp
next
  case (Inr pl)
  then show ?thesis
    using ok fresh res reserve_keeps_db reserve_keeps_slots by (auto simp: placement_ok_def)
qed

lemma step_keeps: "placement_step configured db db' \<Longrightarrow> placement_ok configured db \<Longrightarrow> placement_ok configured db'"
proof (erule placement_stepE)
  assume ok: "placement_ok configured db"
  show "tb_get (db_attempts db) attempt = None \<Longrightarrow> colon_free (rn_id run) \<Longrightarrow>
      reserve now run attempt configured db = (r, db') \<Longrightarrow> placement_ok configured db'" for attempt run now r
    by (rule reserve_keeps [OF ok])
  show "release now attempt db = (u, db') \<Longrightarrow> placement_ok configured db'" for now attempt u
    by (rule release_keeps [OF ok])
  show "materialize attempt db = (u, db') \<Longrightarrow> placement_ok configured db'" for attempt u
    by (rule materialize_keeps [OF ok])
  show "renew_in run_id owned lease_ms db = (u, db') \<Longrightarrow> placement_ok configured db'" for run_id owned lease_ms u
    by (rule renew_keeps [OF ok])
  show "configure is_uuid (public_view :: node_rec \<Rightarrow> node_rec) run_id input db = (c, db') \<Longrightarrow> placement_ok configured db'"
    for is_uuid public_view run_id input c
    using placement_ok_frame [OF ok] configure_frame by blast
qed

end
