(* ===== verification/Placement_Grants.thy ===== *)
theory Placement_Grants
  imports Placement_Admission
begin

text \<open>The properties of admission: slots, ownership, authorization, disk accounting.\<close>

section \<open>A small fleet\<close>

definition demo_placed :: fleet_db where
  "demo_placed = snd (reserve 1000 (demo_run ''r2'') ''a2'' True demo_db)"

definition demo_placement :: placement where
  "demo_placement = \<lparr>po_node = ''n2'', po_resources = \<lparr>rs_cpu = 4, rs_memory_mi_b = 8192, rs_disk_mi_b = 32768\<rparr>,
     po_runtime = ''r1'', po_lease = Some 61000\<rparr>"

lemma demo_reserve: "reserve 1000 (demo_run ''r2'') ''a2'' True demo_db = (Inr demo_placement, demo_placed)"
proof -
  have "request_new (demo_run ''r2'') (sn_access demo_snapshot) (sn_checkpoint demo_snapshot) = demo_request"
    by (simp add: demo_request_def demo_snapshot_def)
  moreover have "\<not> rq_moving demo_request" "rn_move_reservation (demo_run ''r2'') = None"
    by (simp_all add: demo_request_def request_new_def demo_run_def)
  ultimately have "reserve_in 1000 (demo_run ''r2'') ''a2'' True demo_db =
      admit 1000 demo_request \<lparr>ca_preferred = False, ca_headroom = (2, 2), ca_node = demo_node ''n2'' 2,
          ca_resources = \<lparr>rs_cpu = 4, rs_memory_mi_b = 8192, rs_disk_mi_b = 32768\<rparr>\<rparr> (sn_attempts demo_snapshot) ''a2'' demo_db"
    by (simp add: reserve_in_def demo_load demo_select Let_def)
  moreover have "\<not> still_owned demo_request (sn_attempts demo_snapshot)"
    by (simp add: still_owned_def demo_request_def demo_snapshot_def request_new_def demo_defs)
  ultimately have "fst (reserve 1000 (demo_run ''r2'') ''a2'' True demo_db) = Inr demo_placement"
    by (simp add: reserve_def transaction_def admit_def Let_def demo_placement_def new_attempt_def demo_node_def
        RESERVATION_LEASE_MS_def demo_request_def request_new_def demo_run_def no_checkpoint_def option_or_def)
  then show ?thesis by (simp add: demo_placed_def prod_eq_iff)
qed

lemma demo_db_ok: "placement_ok True demo_db"
proof -
  have tables: "db_attempts demo_db = [(''a1'', demo_attempt ''r1'' ''n1'')]"
    "db_volumes demo_db = [(volume_key ''r1'' ''n1'', demo_volume ''r1'' ''n1'')]"
    "db_nodes demo_db = [(''n1'', demo_node ''n1'' 2), (''n2'', demo_node ''n2'' 2)]"
    by (simp_all add: demo_db_def)
  have "volume_ok [(''a1'', demo_attempt ''r1'' ''n1'')] (volume_key ''r1'' ''n1'', demo_volume ''r1'' ''n1'')"
    by (simp add: volume_ok_def demo_volume_def demo_attempt_def colon_free_def or_zero_def u64_limit_def
        tb_list_def active_at_def is_active_attempt_def)
  then have dbo: "db_ok demo_db"
    by (simp add: db_ok_def tables tb_ok_def colon_free_def demo_attempt_def demo_node_def)
  have "runs_on demo_db node = (if node = ''n1'' then {''r1''} else {})" for node
    unfolding runs_on_def tables tb_list_def
    by (simp add: Collect_conv_if demo_attempt_def is_active_attempt_def)
  moreover have "fleet_nodes True demo_db = [demo_node ''n1'' 2, demo_node ''n2'' 2]"
    by (simp add: fleet_nodes_def demo_db_def tb_list_def)
  moreover have "nd_id (demo_node i 2) = i" "node_capacity (demo_node i 2) = 2" for i
    by (simp_all add: demo_node_def node_capacity_def slots_def u64_limit_def)
  ultimately have "slots_ok True demo_db"
    by (simp add: slots_ok_def)
  then show ?thesis using dbo by (simp add: placement_ok_def)
qed

section \<open>Slots\<close>

text \<open>
  C5: The placement state machine. From a good state, after any sequence of reservations, releases,
  materializations, lease renewals and owner configurations (successful or refused), the state is good: no node
  runs more conversations than it has slots for its runtime, every volume is stored under its conversation and
  node, and every volume that was never materialized belongs to an attempt that still holds its slot.
\<close>

theorem placement_invariant:
  assumes "(placement_step configured)\<^sup>*\<^sup>* db db'" "placement_ok configured db"
  shows "placement_ok configured db'
    \<and> (\<forall>n \<in> set (fleet_nodes configured db'). card (runs_on db' (nd_id n)) \<le> node_capacity n)"
proof -
  from assms have "placement_ok configured db'"
    by (induction rule: rtranclp_induct) (auto intro: step_keeps)
  then show ?thesis by (auto simp: placement_ok_def slots_ok_def)
qed

theorem placement_invariant_witness:
  "(placement_step True)\<^sup>*\<^sup>* demo_db (snd (release 2000 ''a1'' demo_placed))
   \<and> placement_ok True (snd (release 2000 ''a1'' demo_placed))"
proof -
  have "placement_step True demo_db demo_placed"
    by (rule Step_Reserve [OF _ _ demo_reserve])
      (simp_all add: demo_db_def tb_get_def colon_free_def demo_run_def)
  moreover have "placement_step True demo_placed (snd (release 2000 ''a1'' demo_placed))"
    by (rule Step_Release [where u = "fst (release 2000 ''a1'' demo_placed)" and now = 2000 and attempt = "''a1''"]) simp
  ultimately have run: "(placement_step True)\<^sup>*\<^sup>* demo_db (snd (release 2000 ''a1'' demo_placed))" by simp
  then show ?thesis using placement_invariant [OF run demo_db_ok] by simp
qed

section \<open>Ownership\<close>

definition owners :: "fleet_db \<Rightarrow> string \<Rightarrow> attempt_role \<Rightarrow> nat" where
  "owners db run role = tb_count (\<lambda>a. at_run a = run \<and> is_active_attempt a \<and> at_role a = role) (db_attempts db)"

lemma not_still_owned:
  "\<not> still_owned (run_request db run access) (tb_list (db_attempts db)) \<longleftrightarrow>
   owners db (rn_id run) Destination = 0 \<and> (rn_transition run \<or> owners db (rn_id run) Execution = 0)"
proof -
  have "owners db (rn_id run) role = 0 \<longleftrightarrow>
      (\<forall>a \<in> set (tb_list (db_attempts db)). \<not> (at_run a = rn_id run \<and> is_active_attempt a \<and> at_role a = role))" for role
    by (auto simp: owners_def tb_count_def filter_empty_conv)
  then show ?thesis
    by (auto simp: still_owned_def list_ex_iff) (metis attempt_role.exhaust)
qed

lemma owners_put_new:
  assumes "tb_ok (db_attempts db)" "tb_get (db_attempts db) k = None" "db_attempts db' = tb_put k a (db_attempts db)"
  shows "owners db' r role = owners db r role + (if at_run a = r \<and> is_active_attempt a \<and> at_role a = role then 1 else 0)"
  using tb_count_put [OF assms(1), of "\<lambda>a. at_run a = r \<and> is_active_attempt a \<and> at_role a = role" k a] assms(2,3)
  by (simp add: owners_def)

text \<open>
  C18: Exclusive ownership. A reservation for a conversation at rest succeeds only if no attempt of it is
  active, and then one execution is; a reservation for a movement succeeds only if no destination is held, and
  then one is, the running execution untouched; taking over a movement's reservation turns an active attempt
  into an execution and leaves the number of active attempts as it was. Attempts of other conversations never
  change.
\<close>

theorem placement_exclusive:
  assumes "db_ok db" "tb_get (db_attempts db) attempt = None"
    and "reserve now run attempt configured db = (Inr pl, db')"
  shows "(if rn_transition run
      then owners db (rn_id run) Destination = 0 \<and> owners db' (rn_id run) Destination = 1
           \<and> owners db' (rn_id run) Execution = owners db (rn_id run) Execution
      else if rn_move_reservation run = None
      then owners db (rn_id run) Execution = 0 \<and> owners db (rn_id run) Destination = 0
           \<and> owners db' (rn_id run) Execution = 1 \<and> owners db' (rn_id run) Destination = 0
      else owners db' (rn_id run) Execution + owners db' (rn_id run) Destination
             = owners db (rn_id run) Execution + owners db (rn_id run) Destination
           \<and> 0 < owners db' (rn_id run) Execution)
    \<and> (\<forall>r role. r \<noteq> rn_id run \<longrightarrow> owners db' r role = owners db r role)"
proof -
  have tb: "tb_ok (db_attempts db)" using assms(1) by (simp add: db_ok_def)
  from assms(3) show ?thesis
  proof (cases rule: reserve_cases)
    case (claim access reservation held node run1 taken)
    let ?P = "\<lambda>r role a. at_run a = r \<and> is_active_attempt a \<and> at_role a = role"
    let ?t1 = "tb_put reservation (held\<lparr>at_released := True\<rparr>) (db_attempts db)"
    have "attempt \<noteq> reservation" using assms(2) claim(4) by auto
    then have none: "tb_get ?t1 attempt = None" using tb assms(2) by (simp add: tb.get_ins)
    have one: "tb_count (?P r role) ?t1 + (if ?P r role held then 1 else 0) = owners db r role" for r role
      using tb_count_put [OF tb, of "?P r role" reservation "held\<lparr>at_released := True\<rparr>"] claim(4)
      by (simp add: owners_def is_active_attempt_def)
    have two: "owners db' r role = tb_count (?P r role) ?t1 + (if ?P r role taken then 1 else 0)" for r role
      using tb_count_put [of ?t1 "?P r role" attempt taken] none tb.invar_ins [OF tb]
      by (simp add: owners_def claim(15))
    have act: "is_active_attempt held" "is_active_attempt taken" "at_run taken = rn_id run" "at_role taken = Execution"
      using claim(5,6) by (simp_all add: claim(14) is_active_attempt_def)
    have "owners db' (rn_id run) Execution + owners db' (rn_id run) Destination
        = owners db (rn_id run) Execution + owners db (rn_id run) Destination"
      using one [of "rn_id run" Execution] one [of "rn_id run" Destination] act claim(6)
      by (cases "at_role held") (simp_all add: two)
    moreover have "0 < owners db' (rn_id run) Execution" by (simp add: two act)
    moreover have "owners db' r role = owners db r role" if "r \<noteq> rn_id run" for r role
      using one [of r role] that act claim(6) by (simp add: two)
    ultimately show ?thesis using claim(2,3) by simp
  next
    case (admit access node best rec vol disk)
    have new: "owners db' r role = owners db r role + (if rn_id run = r \<and> role = (if rn_transition run then Destination else Execution) then 1 else 0)"
      for r role
      using owners_put_new [OF tb assms(2), of db' rec r role]
      by (auto simp: admit(8,10) is_active_attempt_def)
    have "owners db (rn_id run) Destination = 0 \<and> (rn_transition run \<or> owners db (rn_id run) Execution = 0)"
      using admit(5) by (simp only: not_still_owned)
    then show ?thesis using admit(2) by (auto simp: new)
  qed
qed

theorem placement_exclusive_witness:
  "db_ok demo_db \<and> owners demo_placed ''r2'' Execution = 1 \<and> owners demo_placed ''r1'' Execution = owners demo_db ''r1'' Execution"
proof -
  have ok: "db_ok demo_db" using demo_db_ok by (simp add: placement_ok_def)
  have "tb_get (db_attempts demo_db) ''a2'' = None" by (simp add: demo_db_def tb_get_def)
  from placement_exclusive [OF ok this demo_reserve] show ?thesis
    using ok by (simp add: demo_run_def)
qed


section \<open>Authorization\<close>

text \<open>
  C25: Every successful reservation is authorized. The node is one of the fleet, granted to the
  conversation's agent, not revoked, able to mount on-demand disks and not under maintenance; a new
  reservation also finds it accepting work and ready, respects the pinned and the target node, the required
  tags and runtime, and keeps an existing environment where it is unless it is moving.
\<close>

theorem placement_authorized:
  assumes "reserve now run attempt configured db = (Inr pl, db')"
  shows "\<exists>access node. tb_get (db_agents db) (rn_agent run) = Some access \<and> allowed access (po_node pl)
    \<and> node \<in> set (fleet_nodes configured db) \<and> nd_id node = po_node pl
    \<and> \<not> nd_revoked node \<and> nd_fuse node \<and> nd_maintenance node = None
    \<and> (rn_transition run \<or> rn_move_reservation run = None \<longrightarrow>
         nd_accepting node \<and> only (rn_pinned_node run) (po_node pl) \<and> only (rn_target_node run) (po_node pl)
         \<and> set (rn_required_tags run) \<subseteq> set (node_tags node)
         \<and> (\<forall>r. rn_required_runtime run = Some r \<longrightarrow> r \<in> set (nd_runtimes node))
         \<and> (rn_transition run \<or> only (cp_node (db_checkpoint db (rn_id run))) (po_node pl))
         \<and> (nd_local node \<and> \<not> configured \<and> \<not> rn_isolated run
            \<or> nd_kvm node \<and> nd_execution_ready node \<and> seen_within now node FRESH_HEARTBEAT_MS))"
  using assms
proof (cases rule: reserve_cases)
  case (claim access reservation held node run1 taken)
  then show ?thesis by (intro exI [of _ access] exI [of _ node]) simp
next
  case (admit access node best rec vol disk)
  have "eligible now (run_request db run access) node configured"
    using candidate_free [OF admit(4)] by blast
  then show ?thesis
    using admit(1,3,11)
    by (intro exI [of _ access] exI [of _ node])
      (auto simp: eligible_def Let_def run_request_def request_new_def option_or_def list_all_iff)
qed

theorem placement_authorized_witness:
  "reserve 1000 (demo_run ''r2'') ''a2'' True demo_db = (Inr demo_placement, demo_placed)
   \<and> (\<exists>node. node \<in> set (fleet_nodes True demo_db) \<and> nd_id node = ''n2'' \<and> \<not> nd_revoked node \<and> nd_accepting node)"
  using placement_authorized [OF demo_reserve] demo_reserve by (auto simp: demo_placement_def demo_run_def)

text \<open>Owner controls obey the same grants.\<close>

lemma configure_authorized:
  assumes "configure is_uuid public_view run (Some (Some sel)) db = (Inr x, db')"
  shows "\<exists>rec access. tb_get (db_runs db) run = Some rec \<and> tb_get (db_agents db) (rn_agent rec) = Some access
    \<and> \<not> rn_move_request rec \<and> rn_move_reservation rec = None
    \<and> list_all (\<lambda>node. is_uuid node \<and> \<not> unauthorized db access node) (option_list (se_pinned sel) @ option_list (se_preferred sel))
    \<and> tb_get (db_runs db') run = Some (rec\<lparr>rn_pinned_node := se_pinned sel, rn_preferred_node := se_preferred sel\<rparr>)"
proof -
  have selected: "check_selected is_uuid db access nodes = Inr () \<longleftrightarrow> list_all (\<lambda>node. is_uuid node \<and> \<not> unauthorized db access node) nodes"
    for access nodes by (induction nodes) auto
  have "configure_in is_uuid public_view run (Some (Some sel)) db = (Inr x, db')"
    using assms by (simp add: configure_def transaction_done split: if_splits)
  then show ?thesis
    using selected
    by (auto simp: configure_in_def Let_def patch_run_def tb_get_def tb_put_def split: option.splits sum.splits if_splits)
qed

section \<open>Disk accounting\<close>

definition disk_of :: "fleet_db \<Rightarrow> string \<Rightarrow> nat" where
  "disk_of db k = (case tb_get (db_volumes db) k of None \<Rightarrow> 0 | Some v \<Rightarrow> or_zero (vo_disk_mi_b v))"

lemma admitted_disk:
  assumes "db_ok db" "colon_free run"
  shows "or_zero (vo_disk_mi_b (admitted_volume db run node)) = disk_of db (volume_key run node)"
proof (cases "tb_get (db_volumes db) (volume_key run node)")
  case None
  then show ?thesis by (simp add: disk_of_def admitted_volume_def or_zero_def)
next
  case (Some v)
  then show ?thesis using admitted_volume_ok(5) [OF assms Some] by (simp add: disk_of_def)
qed

text \<open>A volume that would be dropped on release is one the admission created.\<close>

lemma unused_volume:
  assumes "db_ok db" "colon_free run" "tb_get (db_attempts db) attempt = None"
    and "\<And>j. j \<noteq> attempt \<Longrightarrow> tb_get t j = tb_get (db_attempts db) j" "tb_ok t"
    and "\<not> vo_materialized (admitted_volume db run node)" "\<not> list_ex (active_at run node) (tb_list t)"
  shows "disk_of db (volume_key run node) = 0"
proof (cases "tb_get (db_volumes db) (volume_key run node)")
  case (Some v)
  then have v: "admitted_volume db run node = v" by (rule admitted_volume_ok(5) [OF assms(1,2)])
  obtain a where a: "a \<in> set (tb_list (db_attempts db))" "active_at run node a"
    using db_ok_volume [OF assms(1) Some] assms(6) admitted_volume_ok(1,2) [OF assms(1,2), of node]
    by (auto simp: volume_ok_def list_ex_iff v)
  then obtain j where "tb_get (db_attempts db) j = Some a"
    using set_tb_list [of "db_attempts db"] assms(1) by (auto simp: db_ok_def)
  then have "tb_get t j = Some a" using assms(3,4) by (cases "j = attempt") auto
  then have "a \<in> set (tb_list t)" using set_tb_list [OF assms(5)] by auto
  then show ?thesis using a(2) assms(7) by (auto simp: list_ex_iff)
qed (simp add: disk_of_def)

lemma admitted_release_disk:
  assumes ok: "db_ok db" "colon_free run" "tb_get (db_attempts db) attempt = None"
    and vol: "vol = admitted_volume db run node" "disk = disk_total (Some vol) requested moved"
    and rec: "at_run rec = run" "at_node rec = node" "is_active_attempt rec" "\<not> at_materialized rec"
      "at_additional_mi_b rec = disk - or_zero (vo_disk_mi_b vol)"
    and db': "db' = db\<lparr>db_attempts := tb_put attempt rec (db_attempts db),
        db_volumes := tb_put (volume_key run node) (vol\<lparr>vo_disk_mi_b := Some disk\<rparr>) (db_volumes db)\<rparr>"
    and rel: "release later attempt db' = (r, db'')"
  shows "r = Inr () \<and> disk_of db'' k = disk_of db k
    \<and> db_attempts db'' = tb_put attempt (rec\<lparr>at_released := True, at_released_at := Some later\<rparr>) (db_attempts db')"
proof -
  let ?key = "volume_key run node"
  have tb: "tb_ok (db_attempts db)" "tb_ok (db_volumes db)" using ok(1) by (simp_all add: db_ok_def)
  have tb': "tb_ok (db_attempts db')" "tb_ok (db_volumes db')" using tb by (simp_all add: db' tb.invar_ins)
  have got: "tb_get (db_attempts db') attempt = Some rec" "tb_get (db_volumes db') ?key = Some (vol\<lparr>vo_disk_mi_b := Some disk\<rparr>)"
    using tb by (simp_all add: db' tb.get_ins)
  have prev: "or_zero (vo_disk_mi_b vol) = disk_of db ?key" "or_zero (vo_disk_mi_b vol) \<le> disk"
    using admitted_disk [OF ok(1,2)] disk_total_bounds(2) [OF admitted_volume_ok(3) [OF ok(1,2)]] by (simp_all add: vol)
  from rel show ?thesis
  proof (cases rule: release_cases)
    case idle
    then show ?thesis using got rec by simp
  next
    case (bare rec')
    then show ?thesis using got rec by simp
  next
    case (volume rec' vol' vol1 t)
    have eq: "rec' = rec" "vol' = vol\<lparr>vo_disk_mi_b := Some disk\<rparr>"
      using volume(2,4) got rec by simp_all
    have vol1: "vo_disk_mi_b vol1 = Some (disk_of db ?key)"
      using prev by (simp add: volume(6) eq rec or_zero_def)
    have t: "tb_ok t" "\<And>j. j \<noteq> attempt \<Longrightarrow> tb_get t j = tb_get (db_attempts db) j"
      using tb(1) tb'(1) by (simp_all add: volume(5) tb.invar_ins tb.get_ins [OF tb'(1)]) (simp add: db' tb.get_ins)
    have "disk_of db'' k = disk_of db k"
    proof (cases "k = ?key")
      case False
      then have "tb_get (db_volumes db'') k = tb_get (db_volumes db) k"
        using tb(2) tb'(2) by (simp add: volume(7) eq(1) rec tb.get_ins tb.get_del) (simp add: db' tb.get_ins)
      then show ?thesis by (simp add: disk_of_def)
    next
      case True
      have "tb_get (db_volumes db'') ?key =
          (if \<not> vo_materialized vol \<and> \<not> list_ex (active_at run node) (tb_list t) then None else Some vol1)"
        using tb'(2) by (simp add: volume(7) eq rec tb.get_ins tb.get_del)
      then show ?thesis
        using True vol1 unused_volume [OF ok t(2,1), of node] by (auto simp: disk_of_def or_zero_def vol(1) split: if_splits)
    qed
    then show ?thesis using volume(1,5,7) eq(1) by simp
  qed
qed



section \<open>Disk limits\<close>

definition node_disk :: "fleet_db \<Rightarrow> string \<Rightarrow> nat" where
  "node_disk db node = sum_list (map (\<lambda>v. or_zero (vo_disk_mi_b v)) (filter (\<lambda>v. vo_node v = node) (tb_list (db_volumes db))))"

text \<open>The volumes of a node other than those of a conversation are those stored under another key.\<close>

lemma other_volumes:
  assumes "list_all (volume_ok t) vs" "colon_free run"
  shows "filter (\<lambda>v. vo_node v = node) (tb_list (filter (\<lambda>(k, _). k \<noteq> volume_key run node) vs))
    = filter (\<lambda>v. vo_node v = node \<and> vo_run v \<noteq> run) (tb_list vs)"
  using assms(1)
proof (induction vs)
  case (Cons e vs)
  obtain k v where e: "e = (k, v)" by fastforce
  have "k = volume_key (vo_run v) (vo_node v)" "colon_free (vo_run v)"
    using Cons.prems by (simp_all add: e volume_ok_def)
  then have "k = volume_key run node \<longleftrightarrow> vo_run v = run \<and> vo_node v = node"
    using volume_key_inject [OF _ assms(2)] by simp
  then show ?case using Cons by (auto simp: tb_list_def e)
qed (simp add: tb_list_def)

lemma sum_filter_le: "sum_list (map f (filter (\<lambda>x. P x \<and> Q x) xs)) \<le> sum_list (map f (filter P xs))"
  for f :: "'a \<Rightarrow> nat"
  by (induction xs) auto

lemma admitted_total:
  assumes ok: "db_ok db" "colon_free run"
  shows "disk_total (find (\<lambda>v. vo_node v = node \<and> vo_run v = run) (tb_list (db_volumes db))) requested moved
    = disk_total (Some (admitted_volume db run node)) requested moved"
proof (cases "tb_get (db_volumes db) (volume_key run node)")
  case None
  have "find (\<lambda>v. vo_node v = node \<and> vo_run v = run) (tb_list (db_volumes db)) = None"
  proof (rule ccontr)
    assume "\<not> ?thesis"
    then obtain v where "v \<in> set (tb_list (db_volumes db))" "vo_node v = node" "vo_run v = run"
      by (auto simp: find_None_iff)
    then obtain k where "tb_get (db_volumes db) k = Some v" "vo_node v = node" "vo_run v = run"
      using set_tb_list [of "db_volumes db"] ok by (auto simp: db_ok_def)
    then show False using db_ok_volume [OF ok(1)] None by (fastforce simp: volume_ok_def)
  qed
  then show ?thesis by (simp add: disk_total_def admitted_volume_def None)
next
  case (Some v)
  have v: "vo_node v = node" "vo_run v = run"
    using admitted_volume_ok(1,2,5) [OF ok] Some by metis+
  then have "v \<in> set (tb_list (db_volumes db))"
    using Some set_tb_list [of "db_volumes db"] ok by (auto simp: db_ok_def)
  then obtain u where u: "find (\<lambda>v. vo_node v = node \<and> vo_run v = run) (tb_list (db_volumes db)) = Some u"
    using v by (cases "find (\<lambda>v. vo_node v = node \<and> vo_run v = run) (tb_list (db_volumes db))") (auto simp: find_None_iff)
  then have "u \<in> set (tb_list (db_volumes db))" "vo_node u = node" "vo_run u = run"
    by (auto simp: find_Some_iff)
  then obtain k where "tb_get (db_volumes db) k = Some u" "k = volume_key run node"
    using set_tb_list [of "db_volumes db"] ok db_ok_volume [OF ok(1)] by (fastforce simp: db_ok_def volume_ok_def)
  then have "u = v" using Some by simp
  then show ?thesis using u admitted_volume_ok(5) [OF ok Some] by simp
qed

lemma candidate_disk:
  assumes "candidate_of now fl rq configured node = Some best"
  shows "\<exists>p. policy_for_node (nd_storage node) = Inr p \<and> disk_fits fl rq node (ca_resources best) p"
  using assms by (auto simp: candidate_of_def fit_def Let_def split: if_splits option.splits sum.splits)



end
