(* ===== verification/Json.thy ===== *)
theory Json
  imports Rust_Str "HOL-Library.List_Lexorder" "HOL-Library.Char_ord"
begin

text \<open>
  JSON documents as \<open>serde_json::Value\<close> has them, and the small typed views of them that the service
  shares: \<open>text\<close> of \<open>validation.rs\<close>, the coding agent of \<open>provider.rs\<close> and the execution plan of
  \<open>microvm/plan.rs\<close>. An object is its list of members in the order of the keys, as the ordered map of
  \<open>serde_json\<close> keeps them. A number that is no integer is kept as its text.
\<close>

section \<open>Values\<close>

datatype json =
    JNull
  | JBool bool
  | JNum int
  | JReal string
  | JStr string
  | JArr "json list"
  | JObj "(string \<times> json) list"

text \<open>\<open>value[key]\<close>, \<open>get\<close> and the typed accessors.\<close>

fun jget :: "json \<Rightarrow> string \<Rightarrow> json option" where
  "jget (JObj ms) k = map_of ms k"
| "jget _ k = None"

definition jat :: "json \<Rightarrow> string \<Rightarrow> json" where
  "jat v k = (case jget v k of None \<Rightarrow> JNull | Some x \<Rightarrow> x)"

fun as_str :: "json \<Rightarrow> string option" where
  "as_str (JStr s) = Some s"
| "as_str _ = None"

fun as_u64 :: "json \<Rightarrow> nat option" where
  "as_u64 (JNum n) = (if 0 \<le> n \<and> n < 2 ^ 64 then Some (nat n) else None)"
| "as_u64 _ = None"

fun as_i64 :: "json \<Rightarrow> int option" where
  "as_i64 (JNum n) = (if - (2 ^ 63) \<le> n \<and> n \<le> i64_max then Some n else None)"
| "as_i64 _ = None"

fun as_array :: "json \<Rightarrow> json list option" where
  "as_array (JArr xs) = Some xs"
| "as_array _ = None"

fun is_object :: "json \<Rightarrow> bool" where
  "is_object (JObj ms) = True"
| "is_object _ = False"

text \<open>Insertion into an ordered map.\<close>

fun members_insert :: "string \<Rightarrow> json \<Rightarrow> (string \<times> json) list \<Rightarrow> (string \<times> json) list" where
  "members_insert k v [] = [(k, v)]"
| "members_insert k v ((k', v') # ms) =
     (if k = k' then (k, v) # ms
      else if k < k' then (k, v) # (k', v') # ms
      else (k', v') # members_insert k v ms)"

text \<open>\<open>value[key] = x\<close>: null becomes an object, and a value of another kind panics.\<close>

fun jset :: "string \<Rightarrow> json \<Rightarrow> json \<Rightarrow> json option" where
  "jset k x (JObj ms) = Some (JObj (members_insert k x ms))"
| "jset k x JNull = Some (JObj [(k, x)])"
| "jset k x _ = None"

definition text_of :: "json \<Rightarrow> string \<Rightarrow> string" where
  "text_of v k = (case as_str (jat v k) of None \<Rightarrow> [] | Some s \<Rightarrow> s)"

section \<open>Coding agent\<close>

datatype provider = Codex | Claude

definition provider_of_agent :: "json \<Rightarrow> provider" where
  "provider_of_agent agent = (if jat agent ''provider'' = JStr ''claude'' then Claude else Codex)"

definition provider_of_run :: "json \<Rightarrow> provider" where
  "provider_of_run run = provider_of_agent (jat (jat run ''snapshot'') ''agent'')"

definition provider_parse :: "string \<Rightarrow> (svc_error, provider) result" where
  "provider_parse s =
     (if s = ''codex'' then Inr Codex else if s = ''claude'' then Inr Claude
      else Inl (Bad ''Choose Codex or Claude Code.''))"

fun provider_as_str :: "provider \<Rightarrow> string" where
  "provider_as_str Codex = ''codex''"
| "provider_as_str Claude = ''claude''"

section \<open>Execution plan\<close>

type_synonym plan = json

definition plan_run_id :: "plan \<Rightarrow> string" where
  "plan_run_id p = text_of p ''runId''"

definition plan_cwd :: "plan \<Rightarrow> string" where
  "plan_cwd p = text_of p ''cwd''"

record import_entry =
  im_source :: string
  im_target :: string
  im_read_only :: bool

definition plan_imports :: "plan \<Rightarrow> import_entry list" where
  "plan_imports p =
     (case as_array (jat p ''imports'') of
        None \<Rightarrow> []
      | Some xs \<Rightarrow> map (\<lambda>i. \<lparr>im_source = text_of i ''source'', im_target = text_of i ''target'',
                               im_read_only = (jat i ''readOnly'' = JBool True)\<rparr>) xs)"

definition plan_import_to :: "plan \<Rightarrow> string \<Rightarrow> import_entry option" where
  "plan_import_to p target = List.find (\<lambda>i. im_target i = target) (plan_imports p)"

definition plan_chat_provider :: "plan \<Rightarrow> provider" where
  "plan_chat_provider p = provider_of_agent (jat p ''chat'')"

definition plan_storage :: "plan \<Rightarrow> json" where
  "plan_storage p = jat p ''storage''"

definition plan_resources :: "plan \<Rightarrow> json option" where
  "plan_resources p = jget p ''resources''"

definition plan_command :: "plan \<Rightarrow> string list option" where
  "plan_command p = map_option (List.map_filter as_str) (as_array (jat p ''command''))"

text \<open>\<open>default_disk\<close> is the disk of \<open>placement::defaults\<close>.\<close>

definition set_vm_limits :: "nat \<Rightarrow> nat \<Rightarrow> nat \<Rightarrow> plan \<Rightarrow> plan option" where
  "set_vm_limits default_disk cpu memory p =
     Option.bind
       (if plan_resources p = None
        then jset ''resources'' (JObj [(''diskMiB'', JNum (int default_disk))]) p else Some p)
       (\<lambda>p1. Option.bind (jset ''cpu'' (JNum (int cpu)) (jat p1 ''resources''))
       (\<lambda>r1. Option.bind (jset ''memoryMiB'' (JNum (int memory)) r1)
       (\<lambda>r2. jset ''resources'' r2 p1)))"

definition ENTRYPOINT :: string where
  "ENTRYPOINT = ''/run/cairn-entrypoint/cairn''"

definition plan_for_guest :: "plan \<Rightarrow> json" where
  "plan_for_guest p =
     (case p of
        JObj ms \<Rightarrow>
          let ms' = filter (\<lambda>(k, _). k \<noteq> ''storage'') ms
          in JObj (if plan_command p = None
                   then members_insert ''command'' (JArr [JStr ENTRYPOINT, JStr ''runner-entry'']) ms'
                   else ms')
      | _ \<Rightarrow> p)"

section \<open>Facts\<close>

lemma map_of_members_insert:
  "sorted (map fst ms) \<Longrightarrow> map_of (members_insert k v ms) = (map_of ms)(k \<mapsto> v)"
  by (induction k v ms rule: members_insert.induct) (auto simp: fun_eq_iff)

lemma jget_members_insert [simp]: "map_of (members_insert k v ms) k = Some v"
  by (induction k v ms rule: members_insert.induct) auto

lemma jget_members_insert_other: "k \<noteq> k' \<Longrightarrow> map_of (members_insert k v ms) k' = map_of ms k'"
  by (induction k v ms rule: members_insert.induct) auto

lemma jset_get: "jset k x v = Some v' \<Longrightarrow> jat v' k = x"
  by (cases v) (auto simp: jat_def)

lemma jset_other: "jset k x v = Some v' \<Longrightarrow> k \<noteq> k' \<Longrightarrow> jat v' k' = jat v k'"
  by (cases v) (auto simp: jat_def jget_members_insert_other)

lemma provider_roundtrip: "provider_parse (provider_as_str p) = Inr p"
  by (cases p) (simp_all add: provider_parse_def)

end
