(* ===== verification/Vm_Pool.thy ===== *)
theory Vm_Pool
  imports Node_Policy Json
begin

text \<open>
  The pool of virtual machines of a node: \<open>microvm/pool.rs\<close> with \<open>pool/ready.rs\<close> (prepared machines
  nobody has used) and \<open>pool/retained.rs\<close> (paused machines of a conversation). This theory holds the
  data and the critical sections; each of them runs while the source holds the lock on \<open>slots\<close>.

  \<open>po_tasks\<close> are the reservations that running tasks own: executions, the preparation, and reservations
  an operation has taken out of the pool and not yet finished. What an operation learns from outside (memory
  and disk readings, exited processes, unpublished bytes, the clock) is an \<open>obs\<close>; a loop gets one per
  iteration. An instant is a number of nanoseconds. The lock of a retained machine's capture
  (\<open>idle_control\<close>) and \<open>capture_retained\<close> are left out.
\<close>

section \<open>Machines and reservations\<close>

record vm =
  vm_pid :: "nat option"
  vm_warmed :: bool

record vm_reservation =
  vr_slot :: nat
  vr_vm :: "vm option"
  vr_owner :: "string option"
  vr_anonymous :: "string option"
  vr_prepared :: "budget option"
  vr_completion :: bool
  vr_resumed :: bool
  vr_retained_budget :: "budget option"

record retained_vm =
  rt_run :: string
  rt_budget :: budget
  rt_key :: json
  rt_expires :: nat
  rt_reservation :: vm_reservation
  rt_volume :: "string option"

record preparing =
  pr_slot :: nat
  pr_stop :: bool

record vm_slots =
  sl_occupied :: "bool list"
  sl_ready :: "vm_reservation list"
  sl_retained :: "retained_vm list"
  sl_preparing :: "preparing option"
  sl_retry_after :: "nat option"
  sl_warm_disabled :: bool
  sl_warm_failures :: nat
  sl_warm_circuit_open :: bool

record pool =
  po_capacity :: nat
  po_budget :: "budget option"
  po_cgroup :: "cgroup option"
  po_hardware :: "json option"
  po_warm_enabled :: bool
  po_warm_capacity :: nat
  po_retention :: nat
  po_slots :: vm_slots
  po_stop :: bool
  po_tasks :: "vm_reservation list"

section \<open>Observations\<close>

text \<open>
  The readings \<open>usage\<close> takes: resident bytes of the container, bytes of the node's disks, size and free
  bytes of the file system, and the stored policy if there is one.
\<close>

record readings =
  rd_memory :: "(svc_error, nat) result"
  rd_disk :: "(svc_error, nat) result"
  rd_space :: "(svc_error, nat \<times> nat) result"
  rd_policy :: "(svc_error, policy option) result"

record obs =
  ob_readings :: readings
  ob_status :: "nat \<Rightarrow> string option"
  ob_allocated :: "nat \<Rightarrow> nat option"
  ob_exited :: "nat \<Rightarrow> bool"
  ob_dirty :: "string \<Rightarrow> nat option"
  ob_now :: nat

definition secs :: "nat \<Rightarrow> nat" where
  "secs n = n * 10 ^ 9"

text \<open>\<open>Vm::resident_bytes\<close>: the process status and the shared memory of the block backend.\<close>

fun status_field :: "string \<Rightarrow> string list \<Rightarrow> nat option" where
  "status_field key [] = None"
| "status_field key (line # ls) =
     (case Option.bind (strip_prefix key line) (\<lambda>rest.
             Option.bind (nth_opt 0 (split_ascii_whitespace rest)) (\<lambda>word.
             Option.bind (parse_u64 word) (\<lambda>n.
             if n * 1024 < u64_limit then Some (n * 1024) else None))) of
        Some v \<Rightarrow> Some v
      | None \<Rightarrow> status_field key ls)"

definition resident_bytes :: "obs \<Rightarrow> vm \<Rightarrow> nat option" where
  "resident_bytes ob v =
     Option.bind (vm_pid v) (\<lambda>pid.
     Option.bind (ob_status ob pid) (\<lambda>status.
     Option.bind (status_field ''VmRSS:'' (str_lines status)) (\<lambda>rss.
     let mapped_shared = (case status_field ''RssShmem:'' (str_lines status) of None \<Rightarrow> 0 | Some n \<Rightarrow> n)
     in Option.bind (ob_allocated ob pid) (\<lambda>allocated.
        Some (saturating_add64 rss (allocated - mapped_shared))))))"

definition vm_exited :: "obs \<Rightarrow> vm \<Rightarrow> bool" where
  "vm_exited ob v = (case vm_pid v of None \<Rightarrow> False | Some pid \<Rightarrow> ob_exited ob pid)"

definition accepts_retained :: "vm \<Rightarrow> plan \<Rightarrow> bool" where
  "accepts_retained v p =
     (\<not> vm_warmed v
      \<or> (case as_array (jat (jat p ''chat'') ''args'') of None \<Rightarrow> True | Some xs \<Rightarrow> xs = []))"

definition DEFAULT_DISK_MIB :: nat where
  "DEFAULT_DISK_MIB = 32768"

definition plan_disk_mib :: "plan \<Rightarrow> nat" where
  "plan_disk_mib p =
     (case as_u64 (jat (jat p ''resources'') ''diskMiB'') of None \<Rightarrow> DEFAULT_DISK_MIB | Some n \<Rightarrow> n)"

definition pool_usage :: "readings \<Rightarrow> pool \<Rightarrow> (svc_error, nat option \<times> pressure_kind option) result" where
  "pool_usage rd p =
     (case po_budget p of
        None \<Rightarrow> Inr (None, None)
      | Some b \<Rightarrow>
          rbind (rd_memory rd) (\<lambda>bytes. rbind (rd_disk rd) (\<lambda>disk.
          rbind (rd_space rd) (\<lambda>(tot, free). rbind (rd_policy rd) (\<lambda>stored.
            let memory = bytes div 1048576;
                pol = (case stored of None \<Rightarrow> default_policy | Some pol \<Rightarrow> pol)
            in Inr (Some memory,
                    pressure memory (rs_memory_mi_b (bg_limits b)) free (policy_reserve pol tot)))))))"

text \<open>A missing reading counts as the largest integer.\<close>

definition memory_or_max :: "nat option \<Rightarrow> nat" where
  "memory_or_max m = (case m of None \<Rightarrow> u64_limit - 1 | Some n \<Rightarrow> n)"

definition above_three_quarters :: "nat \<Rightarrow> budget \<Rightarrow> bool" where
  "above_three_quarters memory b = (rs_memory_mi_b (bg_limits b) * 75 div 100 < memory)"

section \<open>Prepared machines\<close>

definition WARM_HEADROOM_MIB :: nat where
  "WARM_HEADROOM_MIB = 2048"

datatype env_var = Not_Present | Not_Unicode | Present string

definition ready_capacity :: "string option \<Rightarrow> (svc_error, nat) result" where
  "ready_capacity v =
     (case v of
        None \<Rightarrow> Inr 1
      | Some s \<Rightarrow>
          (case parse_u64 s of
             Some n \<Rightarrow> if 1 \<le> n \<and> n \<le> 4 then Inr n
                       else Inl (Bad ''CAIRN_READY_VM_POOL_SIZE must be between 1 and 4.'')
           | None \<Rightarrow> Inl (Bad ''CAIRN_READY_VM_POOL_SIZE must be between 1 and 4.'')))"

definition memory_allowance :: "budget \<Rightarrow> nat" where
  "memory_allowance b = max WARM_HEADROOM_MIB (min (rs_memory_mi_b (bg_limits b) div 4) 8192) * 1048576"

definition can_prepare :: "nat \<Rightarrow> nat option \<Rightarrow> budget \<Rightarrow> bool" where
  "can_prepare count bytes b =
     (count = 0
      \<or> (case bytes of
           None \<Rightarrow> False
         | Some n \<Rightarrow> saturating_add64 n (WARM_HEADROOM_MIB * 1048576) \<le> memory_allowance b))"

definition prepared_compatible :: "budget \<Rightarrow> budget \<Rightarrow> nat \<Rightarrow> bool" where
  "prepared_compatible prepared b disk_mib = (prepared = b \<and> disk_mib = DEFAULT_DISK_MIB)"

text \<open>The entries of a directory: name if it is Unicode, kind, what reading a file gives.\<close>

datatype entry_kind = Entry_File "(svc_error, string) result" | Entry_Socket | Entry_Other

datatype home_dir = Home_Missing | Home_Other | Home_Failed svc_error | Home_Dir "(string option \<times> entry_kind) list"

definition policy_file :: "string \<Rightarrow> (svc_error, string) result \<Rightarrow> (svc_error, bool) result" where
  "policy_file expected contents =
     rbind contents (\<lambda>bytes. Inr (take (length expected + 1) bytes = expected))"

definition CODEX_CONFIG :: string where
  "CODEX_CONFIG = ''cli_auth_credentials_store = '' @ [CHR 0x22] @ ''file'' @ [CHR 0x22, NL]"

fun managed_entries :: "bool \<Rightarrow> bool \<Rightarrow> (string option \<times> entry_kind) list \<Rightarrow> (svc_error, bool) result" where
  "managed_entries managed configured [] = Inr (managed \<and> configured)"
| "managed_entries managed configured ((name, kind) # es) =
     (case kind of
        Entry_File contents \<Rightarrow>
          if name = Some ''cairn-managed-auth''
          then rbind (policy_file ''1'' contents) (\<lambda>ok. managed_entries ok configured es)
          else if name = Some ''config.toml''
          then rbind (policy_file CODEX_CONFIG contents) (\<lambda>ok. managed_entries managed ok es)
          else Inr False
      | Entry_Socket \<Rightarrow>
          if name = Some ''cairn-auth.sock'' then managed_entries managed configured es else Inr False
      | Entry_Other \<Rightarrow> Inr False)"

definition GUEST_HOME :: string where
  "GUEST_HOME = ''/home/node''"

text \<open>\<open>home\<close> is what the directory \<open>.codex\<close> of the imported home holds.\<close>

definition ready_eligible :: "(string \<Rightarrow> home_dir) \<Rightarrow> plan \<Rightarrow> (svc_error, bool) result" where
  "ready_eligible home p =
     (if plan_command p \<noteq> None
         \<or> \<not> is_object (jat p ''chat'')
         \<or> plan_chat_provider p \<noteq> Codex
         \<or> (case as_str (jat (jat p ''chat'') ''sessionId'') of None \<Rightarrow> False | Some s \<Rightarrow> s \<noteq> [])
      then Inr False
      else (case plan_import_to p GUEST_HOME of
              None \<Rightarrow> Inr False
            | Some i \<Rightarrow>
                (case home (im_source i) of
                   Home_Missing \<Rightarrow> Inr False
                 | Home_Other \<Rightarrow> Inr False
                 | Home_Failed e \<Rightarrow> Inl e
                 | Home_Dir es \<Rightarrow> managed_entries False False es)))"

text \<open>The entries of a run's disk directory, \<open>None\<close> when there is no such directory.\<close>

definition fresh_disk :: "(string option \<times> entry_kind) list option \<Rightarrow> bool" where
  "fresh_disk es =
     (case es of
        None \<Rightarrow> True
      | Some es \<Rightarrow>
          list_all (\<lambda>(name, kind). (name = Some ''lock'' \<or> name = Some ''ownership.lock'')
                                   \<and> (case kind of Entry_File _ \<Rightarrow> True | _ \<Rightarrow> False)) es)"

section \<open>Retained machines\<close>

definition MAX_RETAINED :: nat where
  "MAX_RETAINED = 2"

definition MAX_MEMORY_BYTES :: nat where
  "MAX_MEMORY_BYTES = 2048 * 1048576"

definition retained_lifetime :: "env_var \<Rightarrow> (svc_error, nat) result" where
  "retained_lifetime v =
     (case v of
        Present s \<Rightarrow>
          (case parse_u64 s of
             Some n \<Rightarrow> if n \<le> 300 then Inr (secs n)
                       else Inl (Bad ''CAIRN_VM_RETENTION_SECONDS must be between 0 and 300.'')
           | None \<Rightarrow> Inl (Bad ''CAIRN_VM_RETENTION_SECONDS must be between 0 and 300.''))
      | Not_Present \<Rightarrow> Inr (secs 180)
      | Not_Unicode \<Rightarrow> Inl (Bad ''Invalid VM retention configuration.''))"

definition retained_eligible :: "plan \<Rightarrow> bool" where
  "retained_eligible p =
     (plan_command p = None \<and> is_object (jat p ''chat'') \<and> plan_chat_provider p = Codex)"

definition import_json :: "import_entry \<Rightarrow> json" where
  "import_json i =
     JObj [(''readOnly'', JBool (im_read_only i)), (''source'', JStr (im_source i)),
           (''target'', JStr (im_target i))]"

definition retained_key :: "plan \<Rightarrow> json" where
  "retained_key p =
     JObj [(''cwd'', JStr (plan_cwd p)),
           (''diskMiB'', JNum (int (plan_disk_mib p))),
           (''imports'', JArr (map import_json (plan_imports p))),
           (''provider'', jat (jat p ''chat'') ''provider''),
           (''sandbox'', jat p ''sandbox''),
           (''writableRoots'', jat (jat p ''chat'') ''writableRoots'')]"

definition within_budget :: "nat \<Rightarrow> nat \<Rightarrow> budget \<Rightarrow> bool" where
  "within_budget count bytes b =
     (count \<le> MAX_RETAINED
      \<and> bytes \<le> min (rs_memory_mi_b (bg_limits b) * 1048576 div 4) MAX_MEMORY_BYTES)"

definition publication_pending :: "obs \<Rightarrow> retained_vm \<Rightarrow> bool" where
  "publication_pending ob idle =
     (case rt_volume idle of
        None \<Rightarrow> False
      | Some v \<Rightarrow> (case ob_dirty ob v of None \<Rightarrow> True | Some n \<Rightarrow> n \<noteq> 0))"

definition retained_compatible :: "obs \<Rightarrow> retained_vm \<Rightarrow> plan \<Rightarrow> budget \<Rightarrow> bool" where
  "retained_compatible ob idle p b =
     ((ob_now ob < rt_expires idle \<or> publication_pending ob idle)
      \<and> rt_budget idle = b
      \<and> rt_key idle = retained_key p
      \<and> (case vr_vm (rt_reservation idle) of None \<Rightarrow> False | Some v \<Rightarrow> accepts_retained v p))"

definition retained_bytes :: "obs \<Rightarrow> retained_vm \<Rightarrow> nat option" where
  "retained_bytes ob idle = Option.bind (vr_vm (rt_reservation idle)) (resident_bytes ob)"

text \<open>\<open>try_fold\<close> with a checked addition.\<close>

fun try_sum :: "nat \<Rightarrow> nat option list \<Rightarrow> nat option" where
  "try_sum acc [] = Some acc"
| "try_sum acc (x # xs) = Option.bind x (\<lambda>n. Option.bind (checked_add64 acc n) (\<lambda>t. try_sum t xs))"

section \<open>Slots\<close>

definition WARM_FAILURE_LIMIT :: nat where
  "WARM_FAILURE_LIMIT = 6"

definition WARM_RETRY_MAX :: nat where
  "WARM_RETRY_MAX = secs 160"

definition WARM_CIRCUIT_COOLDOWN :: nat where
  "WARM_CIRCUIT_COOLDOWN = secs 3600"

definition warming_allowed :: "nat \<Rightarrow> vm_slots \<Rightarrow> bool \<times> vm_slots" where
  "warming_allowed now s =
     (if sl_warm_disabled s \<or> (case sl_retry_after s of None \<Rightarrow> False | Some at \<Rightarrow> now < at)
      then (False, s)
      else
        let s1 = (if sl_warm_circuit_open s
                  then s\<lparr>sl_warm_failures := 0, sl_warm_circuit_open := False\<rparr> else s)
        in (True, s1\<lparr>sl_retry_after := None\<rparr>))"

definition warm_delay :: "vm_slots \<Rightarrow> nat" where
  "warm_delay s =
     (if sl_warm_circuit_open s then WARM_CIRCUIT_COOLDOWN
      else min (secs (10 * 2 ^ (sl_warm_failures s - 1))) WARM_RETRY_MAX)"

definition warm_failure :: "nat \<Rightarrow> vm_slots \<Rightarrow> vm_slots" where
  "warm_failure now s =
     (let failures = min (min (sl_warm_failures s + 1) (2 ^ 32 - 1)) WARM_FAILURE_LIMIT;
          s1 = s\<lparr>sl_warm_failures := failures, sl_warm_circuit_open := (WARM_FAILURE_LIMIT \<le> failures)\<rparr>
      in s1\<lparr>sl_retry_after := Some (now + warm_delay s1)\<rparr>)"

definition ready_bytes :: "obs \<Rightarrow> vm_slots \<Rightarrow> nat option" where
  "ready_bytes ob s = try_sum 0 (map (\<lambda>r. Option.bind (vr_vm r) (resident_bytes ob)) (sl_ready s))"

definition retained_total :: "obs \<Rightarrow> nat \<Rightarrow> vm_slots \<Rightarrow> nat option" where
  "retained_total ob start s = try_sum start (map (retained_bytes ob) (sl_retained s))"

definition occupied_count :: "vm_slots \<Rightarrow> nat" where
  "occupied_count s = length (filter (\<lambda>used. used) (sl_occupied s))"

definition slot_available :: "nat \<Rightarrow> vm_slots \<Rightarrow> bool" where
  "slot_available capacity s = (occupied_count s < capacity)"

text \<open>\<open>position\<close>, and \<open>position\<close> followed by \<open>remove\<close>.\<close>

fun position :: "('a \<Rightarrow> bool) \<Rightarrow> 'a list \<Rightarrow> nat option" where
  "position P [] = None"
| "position P (x # xs) = (if P x then Some 0 else map_option Suc (position P xs))"

fun take_first :: "('a \<Rightarrow> bool) \<Rightarrow> 'a list \<Rightarrow> ('a \<times> 'a list) option" where
  "take_first P [] = None"
| "take_first P (x # xs) = (if P x then Some (x, xs) else map_option (\<lambda>(y, ys). (y, x # ys)) (take_first P xs))"

definition slots_reserve :: "nat \<Rightarrow> vm_slots \<Rightarrow> nat option \<times> vm_slots" where
  "slots_reserve capacity s =
     (if \<not> slot_available capacity s then (None, s)
      else (case position (\<lambda>used. \<not> used) (sl_occupied s) of
              Some i \<Rightarrow> (Some (i + 1), s\<lparr>sl_occupied := (sl_occupied s)[i := True]\<rparr>)
            | None \<Rightarrow>
                if length (sl_occupied s) < capacity
                then (Some (length (sl_occupied s) + 1), s\<lparr>sl_occupied := sl_occupied s @ [True]\<rparr>)
                else (None, s)))"

text \<open>
  The indexing of \<open>release_slot\<close> would panic for a slot that was never handed out; the invariant of
  the pool excludes that.
\<close>

definition release_slot :: "nat \<Rightarrow> bool \<Rightarrow> vm_slots \<Rightarrow> vm_slots" where
  "release_slot slot completion s =
     (let s1 = s\<lparr>sl_occupied := (sl_occupied s)[slot - 1 := False]\<rparr>
      in if completion \<and> (case sl_preparing s of None \<Rightarrow> False | Some pr \<Rightarrow> pr_slot pr = slot)
         then s1\<lparr>sl_preparing := None\<rparr> else s1)"

section \<open>Health\<close>

record health =
  he_capacity :: nat
  he_occupied :: nat
  he_ready :: nat
  he_ready_memory_mi_b :: "nat option"
  he_preparing :: bool
  he_retained :: nat
  he_retained_memory_mi_b :: "nat option"

definition pool_health :: "obs \<Rightarrow> pool \<Rightarrow> health" where
  "pool_health ob p =
     (let s = po_slots p
      in \<lparr>he_capacity = po_capacity p, he_occupied = occupied_count s, he_ready = length (sl_ready s),
          he_ready_memory_mi_b = map_option (\<lambda>n. n div 1048576) (ready_bytes ob s),
          he_preparing = (sl_preparing s \<noteq> None), he_retained = length (sl_retained s),
          he_retained_memory_mi_b = map_option (\<lambda>n. n div 1048576) (retained_total ob 0 s)\<rparr>)"

end
