(* ===== verification/Vm_Pool_Ops.thy ===== *)
theory Vm_Pool_Ops
  imports Vm_Pool
begin

text \<open>
  The operations of the VM pool (\<open>Pool\<close> and \<open>Reservation\<close> of \<open>microvm/pool.rs\<close>), one after the other
  as the \<open>admission\<close> lock orders them. Dropping a reservation spawns the same cleanup as \<open>finish\<close>.
\<close>

section \<open>Ownership of a reservation\<close>

definition res_finish :: "vm_reservation \<Rightarrow> pool \<Rightarrow> pool" where
  "res_finish r p =
     p\<lparr>po_slots := release_slot (vr_slot r) (vr_completion r) (po_slots p),
       po_tasks := remove1 r (po_tasks p)\<rparr>"

definition pop_ready :: "pool \<Rightarrow> vm_reservation option \<times> pool" where
  "pop_ready p =
     (case sl_ready (po_slots p) of
        [] \<Rightarrow> (None, p)
      | r # rs \<Rightarrow> (Some r, p\<lparr>po_slots := (po_slots p)\<lparr>sl_ready := rs\<rparr>, po_tasks := r # po_tasks p\<rparr>))"

definition take_retained :: "(retained_vm \<Rightarrow> bool) \<Rightarrow> pool \<Rightarrow> retained_vm option \<times> pool" where
  "take_retained P p =
     (case take_first P (sl_retained (po_slots p)) of
        None \<Rightarrow> (None, p)
      | Some (idle, rest) \<Rightarrow>
          (Some idle, p\<lparr>po_slots := (po_slots p)\<lparr>sl_retained := rest\<rparr>,
                        po_tasks := rt_reservation idle # po_tasks p\<rparr>))"

definition push_retained :: "retained_vm \<Rightarrow> pool \<Rightarrow> pool" where
  "push_retained idle p =
     p\<lparr>po_slots := (po_slots p)\<lparr>sl_retained := sl_retained (po_slots p) @ [idle]\<rparr>,
       po_tasks := remove1 (rt_reservation idle) (po_tasks p)\<rparr>"

definition replace_task :: "vm_reservation \<Rightarrow> vm_reservation \<Rightarrow> pool \<Rightarrow> pool" where
  "replace_task r r' p = p\<lparr>po_tasks := r' # remove1 r (po_tasks p)\<rparr>"

definition new_reservation :: "nat \<Rightarrow> vm_reservation" where
  "new_reservation slot =
     \<lparr>vr_slot = slot, vr_vm = None, vr_owner = None, vr_anonymous = None, vr_prepared = None,
      vr_completion = False, vr_resumed = False, vr_retained_budget = None\<rparr>"

section \<open>Preparation\<close>

text \<open>What the steps of one preparation answer, and the time at its end.\<close>

record prep_env =
  pe_template :: "(svc_error, vm option) result"
  pe_bootstrap :: "(svc_error, unit) result"
  pe_boot :: "(svc_error, vm) result"
  pe_warm_codex :: "(svc_error, bool) result"
  pe_now :: nat

definition prepare_operation :: "prep_env \<Rightarrow> vm_reservation \<Rightarrow> (svc_error, bool) result \<times> vm_reservation" where
  "prepare_operation pe r =
     (case pe_template pe of
        Inl e \<Rightarrow> (Inl e, r)
      | Inr (Some v) \<Rightarrow> (Inr True, r\<lparr>vr_vm := Some v\<rparr>)
      | Inr None \<Rightarrow>
          (case pe_bootstrap pe of
             Inl e \<Rightarrow> (Inl e, r)
           | Inr _ \<Rightarrow>
               (case pe_boot pe of
                  Inl e \<Rightarrow> (Inl e, r)
                | Inr v \<Rightarrow> (pe_warm_codex pe, r\<lparr>vr_vm := Some v\<rparr>))))"

definition preparation_stopped :: "pool \<Rightarrow> bool" where
  "preparation_stopped p =
     (po_stop p \<or> (case sl_preparing (po_slots p) of None \<Rightarrow> False | Some pr \<Rightarrow> pr_stop pr))"

definition publish_ready :: "budget \<Rightarrow> vm_reservation \<Rightarrow> pool \<Rightarrow> pool" where
  "publish_ready b r p =
     (let s = po_slots p
      in p\<lparr>po_slots := s\<lparr>sl_warm_failures := 0, sl_warm_circuit_open := False, sl_retry_after := None,
                        sl_preparing := None,
                        sl_ready := sl_ready s @ [r\<lparr>vr_prepared := Some b, vr_completion := False\<rparr>]\<rparr>,
           po_tasks := remove1 r (po_tasks p)\<rparr>)"

definition preparation_failed :: "nat \<Rightarrow> (svc_error, bool) result \<Rightarrow> pool \<Rightarrow> pool" where
  "preparation_failed now operation p =
     (if preparation_stopped p then p
      else p\<lparr>po_slots :=
             (case operation of
                Inr ok \<Rightarrow> if ok then po_slots p else (po_slots p)\<lparr>sl_warm_disabled := True\<rparr>
              | Inl _ \<Rightarrow> warm_failure now (po_slots p))\<rparr>)"

definition prepare_end :: "nat \<Rightarrow> budget \<Rightarrow> (svc_error, bool) result \<Rightarrow> vm_reservation \<Rightarrow> pool \<Rightarrow> pool" where
  "prepare_end now b operation r p =
     (if operation = Inr True \<and> \<not> preparation_stopped p then publish_ready b r p
      else res_finish r (preparation_failed now operation p))"

definition prepare :: "prep_env \<Rightarrow> budget \<Rightarrow> vm_reservation \<Rightarrow> pool \<Rightarrow> pool" where
  "prepare pe b r p =
     (case prepare_operation pe r of
        (operation, r') \<Rightarrow> prepare_end (pe_now pe) b operation r' (replace_task r r' p))"

definition stop_preparing :: "pool \<Rightarrow> pool" where
  "stop_preparing p =
     p\<lparr>po_slots := (po_slots p)\<lparr>sl_preparing := map_option (\<lambda>pr. pr\<lparr>pr_stop := True\<rparr>) (sl_preparing (po_slots p))\<rparr>\<rparr>"

text \<open>
  Cancelling waits for the task: it ends as \<open>prepare\<close> does, with whatever its steps answer. The wait would
  last forever if no task owned the preparation, which the invariant of the pool excludes.
\<close>

definition cancel_preparing :: "prep_env \<Rightarrow> budget \<Rightarrow> pool \<Rightarrow> pool" where
  "cancel_preparing pe b p =
     (case sl_preparing (po_slots p) of
        None \<Rightarrow> p
      | Some pr \<Rightarrow>
          (case List.find (\<lambda>r. vr_completion r \<and> vr_slot r = pr_slot pr) (po_tasks p) of
             None \<Rightarrow> stop_preparing p
           | Some r \<Rightarrow> prepare pe b r (stop_preparing p)))"

section \<open>Reclaiming idle machines\<close>

lemma take_first_length: "take_first P xs = Some (x, ys) \<Longrightarrow> length xs = Suc (length ys)"
  by (induction xs arbitrary: ys) (auto split: if_splits)

lemma res_finish_lists [simp]:
  "sl_retained (po_slots (res_finish r p)) = sl_retained (po_slots p)"
  "sl_ready (po_slots (res_finish r p)) = sl_ready (po_slots p)"
  by (simp_all add: res_finish_def release_slot_def Let_def)

lemma take_retained_shrinks:
  "take_retained P p = (Some idle, p1) \<Longrightarrow>
     length (sl_retained (po_slots p)) = Suc (length (sl_retained (po_slots p1)))
     \<and> sl_ready (po_slots p1) = sl_ready (po_slots p)"
  by (auto simp: take_retained_def dest: take_first_length split: option.splits)

lemma pop_ready_shrinks:
  "pop_ready p = (Some r, p1) \<Longrightarrow>
     length (sl_ready (po_slots p)) = Suc (length (sl_ready (po_slots p1)))
     \<and> sl_retained (po_slots p1) = sl_retained (po_slots p)"
  by (auto simp: pop_ready_def split: list.splits)

function retire_retained :: "bool \<Rightarrow> (nat \<Rightarrow> obs) \<Rightarrow> nat \<Rightarrow> pool \<Rightarrow> pool" where
  "retire_retained shutdown env i p =
     (case take_retained (\<lambda>idle. shutdown \<or> \<not> publication_pending (env i) idle) p of
        (None, p1) \<Rightarrow> p1
      | (Some idle, p1) \<Rightarrow> retire_retained shutdown env (Suc i) (res_finish (rt_reservation idle) p1))"
  by pat_completeness auto
termination
  by (relation "measure (\<lambda>(_, _, _, p). length (sl_retained (po_slots p)))")
     (auto dest!: sym [of "(Some _, _)"] take_retained_shrinks)

function retire_ready :: "pool \<Rightarrow> pool" where
  "retire_ready p =
     (case pop_ready p of
        (None, p1) \<Rightarrow> p1
      | (Some r, p1) \<Rightarrow> retire_ready (res_finish r p1))"
  by pat_completeness auto
termination
  by (relation "measure (\<lambda>p. length (sl_ready (po_slots p)))")
     (auto dest!: sym [of "(Some _, _)"] pop_ready_shrinks)

definition retire_idle :: "prep_env \<Rightarrow> budget \<Rightarrow> bool \<Rightarrow> (nat \<Rightarrow> obs) \<Rightarrow> pool \<Rightarrow> pool" where
  "retire_idle pe b shutdown env p = retire_ready (retire_retained shutdown env 0 (cancel_preparing pe b p))"

definition take_idle :: "obs \<Rightarrow> pool \<Rightarrow> vm_reservation option \<times> pool" where
  "take_idle ob p =
     (case take_retained (\<lambda>idle. \<not> publication_pending ob idle) p of
        (Some idle, p1) \<Rightarrow> (Some (rt_reservation idle), p1)
      | (None, p1) \<Rightarrow> pop_ready p1)"

definition idle_count :: "pool \<Rightarrow> nat" where
  "idle_count p = length (sl_retained (po_slots p)) + length (sl_ready (po_slots p))"

lemma take_idle_shrinks: "take_idle ob p = (Some r, p1) \<Longrightarrow> idle_count p = Suc (idle_count p1)"
  by (auto simp: take_idle_def idle_count_def dest!: take_retained_shrinks pop_ready_shrinks
      split: prod.splits option.splits) (auto simp: take_retained_def split: option.splits)

function make_room :: "bool \<Rightarrow> (nat \<Rightarrow> obs) \<Rightarrow> nat \<Rightarrow> pool \<Rightarrow> (svc_error, unit) result \<times> pool" where
  "make_room needs_slot env i p =
     (case pool_usage (ob_readings (env i)) p of
        Inl e \<Rightarrow> (Inl e, p)
      | Inr (_, pressed) \<Rightarrow>
          if pressed = None \<and> (\<not> needs_slot \<or> slot_available (po_capacity p) (po_slots p)) then (Inr (), p)
          else (case take_idle (env i) p of
                  (None, p1) \<Rightarrow> (Inr (), p1)
                | (Some r, p1) \<Rightarrow> make_room needs_slot env (Suc i) (res_finish r p1)))"
  by pat_completeness auto
termination
  by (relation "measure (\<lambda>(_, _, _, p). idle_count p)")
     (auto dest!: sym [of "(Some _, _)"] take_idle_shrinks simp: idle_count_def)

declare retire_retained.simps [simp del] retire_ready.simps [simp del] make_room.simps [simp del]

section \<open>Admission\<close>

definition claim_retained :: "obs \<Rightarrow> plan \<Rightarrow> pool \<Rightarrow> (svc_error, vm_reservation option) result \<times> pool" where
  "claim_retained ob pn p =
     (case take_retained (\<lambda>idle. rt_run idle = plan_run_id pn) p of
        (None, p1) \<Rightarrow> (Inr None, p1)
      | (Some idle, p1) \<Rightarrow>
          let r = rt_reservation idle;
              compatible = (case po_budget p1 of None \<Rightarrow> False | Some b \<Rightarrow> retained_compatible ob idle pn b);
              checked = (if compatible
                         then rbind (pool_usage (ob_readings ob) p1) (\<lambda>(_, pressed). Inr (pressed = None))
                         else Inr False)
          in case checked of
               Inl e \<Rightarrow> (Inl e, res_finish r p1)
             | Inr ok \<Rightarrow>
                 if ok then
                   let r' = r\<lparr>vr_resumed := True, vr_retained_budget := Some (rt_budget idle)\<rparr>
                   in (Inr (Some r'), replace_task r r' p1)
                 else if publication_pending ob idle
                 then (Inl (Too_Early ''Waiting for disk publication before replacing this VM.''),
                       push_retained idle p1)
                 else (Inr None, res_finish r p1))"

text \<open>\<open>elig\<close> and \<open>fresh\<close> are the answers of \<open>ready_eligible\<close> and \<open>fresh_disk\<close> for the plan.\<close>

definition can_claim :: "(svc_error, bool) result \<Rightarrow> (svc_error, bool) result \<Rightarrow> plan \<Rightarrow> pool \<Rightarrow> (svc_error, bool) result" where
  "can_claim elig fresh pn p =
     (if sl_ready (po_slots p) = [] \<or> plan_disk_mib pn \<noteq> DEFAULT_DISK_MIB then Inr False
      else rbind elig (\<lambda>ok. if ok then fresh else Inr False))"

definition claim_ready ::
  "obs \<Rightarrow> (svc_error, bool) result \<Rightarrow> (svc_error, bool) result \<Rightarrow> plan \<Rightarrow> pool
     \<Rightarrow> (svc_error, vm_reservation option) result \<times> pool" where
  "claim_ready ob elig fresh pn p =
     (case can_claim elig fresh pn p of
        Inl e \<Rightarrow> (Inl e, p)
      | Inr ok \<Rightarrow>
          if \<not> ok then (Inr None, p)
          else (case pop_ready p of
                  (None, p1) \<Rightarrow> (Inr None, p1)
                | (Some r, p1) \<Rightarrow>
                    (case pool_usage (ob_readings ob) p1 of
                       Inl e \<Rightarrow> (Inl e, res_finish r p1)
                     | Inr (_, pressed) \<Rightarrow>
                         if pressed = None then (Inr (Some r), p1) else (Inr None, res_finish r p1))))"

definition grant_slot :: "obs \<Rightarrow> pool \<Rightarrow> (svc_error, vm_reservation) result \<times> pool" where
  "grant_slot ob p =
     (case pool_usage (ob_readings ob) p of
        Inl e \<Rightarrow> (Inl e, p)
      | Inr (_, pressed) \<Rightarrow>
          if pressed \<noteq> None then (Inl (Unavailable ''Shared node resources are under pressure.''), p)
          else (case slots_reserve (po_capacity p) (po_slots p) of
                  (None, s) \<Rightarrow> (Inl (Unavailable ''All VM slots are occupied.''), p\<lparr>po_slots := s\<rparr>)
                | (Some slot, s) \<Rightarrow>
                    (Inr (new_reservation slot),
                     p\<lparr>po_slots := s, po_tasks := new_reservation slot # po_tasks p\<rparr>)))"

text \<open>
  \<open>env 0\<close> and \<open>env 3\<close> are the observations of the two reclaiming loops, \<open>env 1\<close>, \<open>env 2\<close> and \<open>env 4\<close> those
  of the three checks.
\<close>

definition pool_reserve ::
  "prep_env \<Rightarrow> budget \<Rightarrow> (nat \<Rightarrow> nat \<Rightarrow> obs) \<Rightarrow> (svc_error, bool) result \<Rightarrow> (svc_error, bool) result \<Rightarrow> plan \<Rightarrow> pool
     \<Rightarrow> (svc_error, vm_reservation) result \<times> pool" where
  "pool_reserve pe b env elig fresh pn p =
     (if po_stop p then (Inl (Unavailable ''VM controller is stopping.''), p)
      else (case make_room False (env 0) 0 (cancel_preparing pe b p) of
              (Inl e, p1) \<Rightarrow> (Inl e, p1)
            | (Inr _, p1) \<Rightarrow>
      (case claim_retained (env 1 0) pn p1 of
              (Inl e, p2) \<Rightarrow> (Inl e, p2)
            | (Inr (Some r), p2) \<Rightarrow> (Inr r, p2)
            | (Inr None, p2) \<Rightarrow>
      (case claim_ready (env 2 0) elig fresh pn p2 of
              (Inl e, p3) \<Rightarrow> (Inl e, p3)
            | (Inr (Some r), p3) \<Rightarrow> (Inr r, p3)
            | (Inr None, p3) \<Rightarrow>
      (case make_room True (env 3) 0 p3 of
              (Inl e, p4) \<Rightarrow> (Inl e, p4)
            | (Inr _, p4) \<Rightarrow> grant_slot (env 4 0) p4)))))"

section \<open>Eviction and maintenance\<close>

definition evict_conversation :: "obs \<Rightarrow> string \<Rightarrow> pool \<Rightarrow> (svc_error, unit) result \<times> pool" where
  "evict_conversation ob run p =
     (case List.find (\<lambda>idle. rt_run idle = run) (sl_retained (po_slots p)) of
        None \<Rightarrow> (Inr (), p)
      | Some found \<Rightarrow>
          if publication_pending ob found
          then (Inl (Too_Early ''Waiting for disk publication before eviction.''), p)
          else (case take_retained (\<lambda>idle. rt_run idle = run) p of
                  (None, p1) \<Rightarrow> (Inr (), p1)
                | (Some idle, p1) \<Rightarrow> (Inr (), res_finish (rt_reservation idle) p1)))"

definition retention_budget :: "budget option \<Rightarrow> obs \<Rightarrow> pool \<Rightarrow> budget option" where
  "retention_budget expected ob p =
     (case po_budget p of
        None \<Rightarrow> None
      | Some b \<Rightarrow>
          if po_stop p \<or> expected \<noteq> Some b then None
          else (case pool_usage (ob_readings ob) p of
                  Inl _ \<Rightarrow> None
                | Inr (usage, pressed) \<Rightarrow>
                    if pressed \<noteq> None \<or> above_three_quarters (memory_or_max usage) b then None
                    else Some b))"

definition idle_exited :: "obs \<Rightarrow> retained_vm \<Rightarrow> bool" where
  "idle_exited ob idle = (case vr_vm (rt_reservation idle) of None \<Rightarrow> False | Some v \<Rightarrow> vm_exited ob v)"

definition retained_healthy :: "obs \<Rightarrow> budget \<Rightarrow> nat option \<Rightarrow> pressure_kind option \<Rightarrow> pool \<Rightarrow> bool" where
  "retained_healthy ob b usage pressed p =
     (let s = po_slots p;
          expired = (case sl_retained s of [] \<Rightarrow> False | idle # _ \<Rightarrow> rt_expires idle \<le> ob_now ob)
      in \<not> list_ex (idle_exited ob) (sl_retained s)
         \<and> \<not> expired
         \<and> \<not> (pressed \<noteq> None \<or> above_three_quarters (memory_or_max usage) b)
         \<and> (case retained_total ob 0 s of
              None \<Rightarrow> False
            | Some n \<Rightarrow> within_budget (length (sl_retained s)) n b))"

function maintain_loop :: "budget \<Rightarrow> (nat \<Rightarrow> obs) \<Rightarrow> nat \<Rightarrow> pool \<Rightarrow> (svc_error, unit) result \<times> pool" where
  "maintain_loop b env i p =
     (case pool_usage (ob_readings (env i)) p of
        Inl e \<Rightarrow> (Inl e, p)
      | Inr (usage, pressed) \<Rightarrow>
          if retained_healthy (env i) b usage pressed p then (Inr (), p)
          else (case take_retained
                       (if list_ex (idle_exited (env i)) (sl_retained (po_slots p)) then idle_exited (env i)
                        else (\<lambda>idle. \<not> publication_pending (env i) idle)) p of
                  (None, p1) \<Rightarrow> (Inr (), p1)
                | (Some idle, p1) \<Rightarrow> maintain_loop b env (Suc i) (res_finish (rt_reservation idle) p1)))"
  by pat_completeness auto
termination
  by (relation "measure (\<lambda>(_, _, _, p). length (sl_retained (po_slots p)))")
     (auto dest!: sym [of "(Some _, _)"] take_retained_shrinks)

definition maintain_retained :: "(nat \<Rightarrow> obs) \<Rightarrow> pool \<Rightarrow> (svc_error, unit) result \<times> pool" where
  "maintain_retained env p =
     (case po_budget p of None \<Rightarrow> (Inr (), p) | Some b \<Rightarrow> maintain_loop b env 0 p)"

function shrink_ready :: "budget \<Rightarrow> (nat \<Rightarrow> obs) \<Rightarrow> nat \<Rightarrow> pool \<Rightarrow> pool" where
  "shrink_ready b env i p =
     (if length (sl_ready (po_slots p)) \<le> 1
         \<or> (case ready_bytes (env i) (po_slots p) of None \<Rightarrow> False | Some n \<Rightarrow> n \<le> memory_allowance b)
      then p
      else (case pop_ready p of
              (None, p1) \<Rightarrow> p1
            | (Some r, p1) \<Rightarrow> shrink_ready b env (Suc i) (res_finish r p1)))"
  by pat_completeness auto
termination
  by (relation "measure (\<lambda>(_, _, _, p). length (sl_ready (po_slots p)))")
     (auto dest!: sym [of "(Some _, _)"] pop_ready_shrinks)

declare maintain_loop.simps [simp del] shrink_ready.simps [simp del]

definition start_preparing :: "nat \<Rightarrow> string \<Rightarrow> pool \<Rightarrow> pool" where
  "start_preparing now directory p =
     (if po_stop p \<or> po_warm_capacity p \<le> length (sl_ready (po_slots p)) \<or> sl_preparing (po_slots p) \<noteq> None
      then p
      else (case warming_allowed now (po_slots p) of
              (allowed, s) \<Rightarrow>
                if \<not> allowed then p\<lparr>po_slots := s\<rparr>
                else (case slots_reserve (po_capacity p) s of
                        (None, s1) \<Rightarrow> p\<lparr>po_slots := s1\<rparr>
                      | (Some slot, s1) \<Rightarrow>
                          p\<lparr>po_slots := s1\<lparr>sl_preparing := Some \<lparr>pr_slot = slot, pr_stop = False\<rparr>\<rparr>,
                            po_tasks := (new_reservation slot)\<lparr>vr_anonymous := Some directory, vr_completion := True\<rparr>
                                        # po_tasks p\<rparr>)))"

text \<open>\<open>env 0\<close> is the check, \<open>env 1\<close> retiring, \<open>env 2\<close> the shrinking loop, \<open>env 3\<close> the last measurement.\<close>

definition maintain_ready ::
  "nat \<Rightarrow> string \<Rightarrow> prep_env \<Rightarrow> (nat \<Rightarrow> nat \<Rightarrow> obs) \<Rightarrow> pool \<Rightarrow> (svc_error, unit) result \<times> pool" where
  "maintain_ready now directory pe env p =
     (if po_stop p \<or> \<not> po_warm_enabled p then (Inr (), p)
      else (case po_budget p of
              None \<Rightarrow> (Inr (), p)
            | Some b \<Rightarrow>
      (case pool_usage (ob_readings (env 0 0)) p of
              Inl e \<Rightarrow> (Inl e, p)
            | Inr (usage, pressed) \<Rightarrow>
          let memory = memory_or_max usage;
              incompatible =
                list_ex (\<lambda>r. case vr_prepared r of
                               None \<Rightarrow> True
                             | Some prepared \<Rightarrow> \<not> prepared_compatible prepared b DEFAULT_DISK_MIB)
                        (sl_ready (po_slots p))
          in if incompatible \<or> pressed \<noteq> None \<or> above_three_quarters memory b
             then (Inr (), retire_idle pe b False (env 1) p)
             else if rs_memory_mi_b (bg_limits b) < saturating_add64 memory WARM_HEADROOM_MIB then (Inr (), p)
             else
               let p1 = shrink_ready b (env 2) 0 p
               in if \<not> can_prepare (length (sl_ready (po_slots p1))) (ready_bytes (env 3 0) (po_slots p1)) b
                  then (Inr (), p1)
                  else (case rd_policy (ob_readings (env 3 0)) of
                          Inl e \<Rightarrow> (Inl e, p1)
                        | Inr _ \<Rightarrow> (Inr (), start_preparing now directory p1)))))"

text \<open>
  One round of \<open>monitor\<close>; failures are logged and balloons are rebalanced by \<open>rebalance_guest\<close>.
\<close>

definition monitor_round ::
  "nat \<Rightarrow> string \<Rightarrow> prep_env \<Rightarrow> budget \<Rightarrow> (nat \<Rightarrow> nat \<Rightarrow> obs) \<Rightarrow> pool \<Rightarrow> pool" where
  "monitor_round now directory pe b env p =
     (if po_stop p then retire_idle pe b True (env 4) p
      else snd (maintain_ready now directory pe env (snd (maintain_retained (env 5) p))))"

definition pool_drain :: "prep_env \<Rightarrow> budget \<Rightarrow> (nat \<Rightarrow> obs) \<Rightarrow> pool \<Rightarrow> pool" where
  "pool_drain pe b env p = retire_idle pe b True env (p\<lparr>po_stop := True\<rparr>)"

section \<open>Configuration\<close>

definition pool_new :: "nat \<Rightarrow> env_var \<Rightarrow> env_var \<Rightarrow> env_var \<Rightarrow> (svc_error, pool) result" where
  "pool_new capacity warm warm_size retention =
     (if capacity = 0 then Inl (Bad ''VM concurrency must be a positive integer.'')
      else
        rbind (if warm = Present ''false'' then Inr False
               else if warm = Present ''true'' \<or> warm = Not_Present then Inr True
               else Inl (Bad ''CAIRN_READY_VM_POOL must be true or false.'')) (\<lambda>warm_enabled.
        rbind (case warm_size of
                 Present v \<Rightarrow> ready_capacity (Some v)
               | Not_Present \<Rightarrow> ready_capacity None
               | Not_Unicode \<Rightarrow> Inl (Bad ''Invalid VM pool size configuration.'')) (\<lambda>warm_capacity.
        rbind (retained_lifetime retention) (\<lambda>lifetime.
          Inr \<lparr>po_capacity = capacity, po_budget = None, po_cgroup = None, po_hardware = None,
               po_warm_enabled = warm_enabled, po_warm_capacity = warm_capacity, po_retention = lifetime,
               po_slots = \<lparr>sl_occupied = [], sl_ready = [], sl_retained = [], sl_preparing = None,
                           sl_retry_after = None, sl_warm_disabled = False, sl_warm_failures = 0,
                           sl_warm_circuit_open = False\<rparr>,
               po_stop = False, po_tasks = []\<rparr>))))"

definition json_u64_or :: "nat \<Rightarrow> json \<Rightarrow> nat" where
  "json_u64_or d v = (case as_u64 v of None \<Rightarrow> d | Some n \<Rightarrow> n)"

text \<open>
  \<open>written\<close> is the outcome of writing the budget file. \<open>initialize\<close> sets the hardware and the control group
  together, so that neither is ever set alone.
\<close>

definition pool_configure ::
  "prep_env \<Rightarrow> budget \<Rightarrow> (nat \<Rightarrow> obs) \<Rightarrow> kernel \<Rightarrow> (svc_error, unit) result \<Rightarrow> budget \<Rightarrow> pool
     \<Rightarrow> (svc_error, unit) result \<times> pool" where
  "pool_configure pe pb env k written next p =
     (case budget_validate next of
        Inl e \<Rightarrow> (Inl e, p)
      | Inr _ \<Rightarrow>
          (case (po_hardware p, po_cgroup p) of
             (Some hardware, Some cg) \<Rightarrow>
               if json_u64_or 0 (jat hardware ''cpu'') < rs_cpu (bg_limits next)
                  \<or> json_u64_or 0 (jat hardware ''memoryMiB'') < rs_memory_mi_b (bg_limits next)
               then (Inl (Bad ''Shared budgets exceed controller capacity.''), p)
               else if po_budget p = Some next then (Inr (), p)
               else
                 let p1 = retire_idle pe pb False env p
                 in (case budget_apply k next cg of
                       (Inl e, cg1) \<Rightarrow> (Inl e, p1\<lparr>po_cgroup := Some cg1\<rparr>)
                     | (Inr _, cg1) \<Rightarrow>
                         (case written of
                            Inr _ \<Rightarrow> (Inr (), p1\<lparr>po_cgroup := Some cg1, po_capacity := bg_slots next,
                                                 po_budget := Some next\<rparr>)
                          | Inl e \<Rightarrow>
                              (case po_budget p1 of
                                 None \<Rightarrow> (Inl e, p1\<lparr>po_cgroup := Some cg1\<rparr>)
                               | Some previous \<Rightarrow>
                                   (case budget_apply k previous cg1 of
                                      (Inl e', cg2) \<Rightarrow> (Inl e', p1\<lparr>po_cgroup := Some cg2\<rparr>)
                                    | (Inr _, cg2) \<Rightarrow> (Inl e, p1\<lparr>po_cgroup := Some cg2\<rparr>)))))
           | _ \<Rightarrow> (Inl (Unavailable ''Controller budgets are not initialized.''), p)))"

definition pool_initialize ::
  "prep_env \<Rightarrow> budget \<Rightarrow> (nat \<Rightarrow> obs) \<Rightarrow> kernel \<Rightarrow> (svc_error, unit) result \<Rightarrow> json \<Rightarrow> cgroup
     \<Rightarrow> (svc_error, budget option) result \<Rightarrow> pool \<Rightarrow> (svc_error, unit) result \<times> pool" where
  "pool_initialize pe pb env k written detected cg persisted p =
     (let limits = \<lparr>rs_cpu = json_u64_or 1 (jat detected ''cpu'') mod 2 ^ 32,
                    rs_memory_mi_b = json_u64_or 128 (jat detected ''memoryMiB''),
                    rs_disk_mi_b = json_u64_or 128 (jat detected ''diskMiB'')\<rparr>
      in if po_hardware p \<noteq> None then (Inl (Conflict ''Controller already initialized.''), p)
         else
           let p1 = p\<lparr>po_hardware := Some detected\<rparr>
           in if po_cgroup p1 \<noteq> None then (Inl (Conflict ''Controller already initialized.''), p1)
              else
                let p2 = p1\<lparr>po_cgroup := Some cg\<rparr>
                in (case persisted of
                      Inl e \<Rightarrow> (Inl e, p2)
                    | Inr stored \<Rightarrow>
                        let b = (case stored of
                                   None \<Rightarrow> \<lparr>bg_slots = po_capacity p2, bg_limits = limits\<rparr>
                                 | Some b \<Rightarrow> b);
                            initial = b\<lparr>bg_limits := (bg_limits b)\<lparr>rs_cpu := min (rs_cpu (bg_limits b)) (rs_cpu limits),
                                          rs_memory_mi_b := min (rs_memory_mi_b (bg_limits b)) (rs_memory_mi_b limits)\<rparr>\<rparr>
                        in pool_configure pe pb env k written initial p2))"

end
