(* ===== verification/Vm_Execute.thy ===== *)
theory Vm_Execute
  imports Vm_Pool_Ops
begin

text \<open>
  \<open>Reservation::execute\<close> of \<open>microvm/pool.rs\<close>: choosing the machine and the disk of an attempt, and keeping
  or releasing the machine afterwards. What disks, templates, machines and the attempt itself answer is
  the record \<open>exec_env\<close>. Beside its result an execution reports the anonymous directories it deletes
  (\<open>discard_anonymous\<close>); a machine that is kept has none. A plan whose resources are no object panics; the unwinding drops the reservation, as
  an error does.
\<close>

record exec_env =
  xe_eligible :: "(svc_error, bool) result"
  xe_fresh :: "(svc_error, bool) result"
  xe_policy :: "(svc_error, policy) result"
  xe_directory :: string
  xe_restore_cached :: "(svc_error, vm option) result"
  xe_eligible_again :: "(svc_error, bool) result"
  xe_fresh_again :: "(svc_error, bool) result"
  xe_codex_ready :: bool
  xe_assign :: "string \<Rightarrow> (svc_error, string) result"
  xe_ownership :: "(svc_error, string) result"
  xe_bootstrap :: "(svc_error, unit) result"
  xe_load :: "(svc_error, string) result"
  xe_authorization :: "(svc_error, bool) result"
  xe_authorize :: "(svc_error, unit) result"
  xe_boot :: "(svc_error, vm) result"
  xe_resume_idle :: "(svc_error, unit) result"
  xe_run :: "(svc_error, int) result"
  xe_load_completed :: "(svc_error, string) result"
  xe_seal :: "(svc_error, unit) result"
  xe_control :: bool
  xe_stopped :: bool
  xe_suspend :: "(svc_error, unit) result"
  xe_load_retained :: "(svc_error, string) result"

text \<open>The outcome of a part of the operation: its result, the reservation, and the directories it deleted.\<close>

type_synonym 'a exec = "(svc_error, 'a) result \<times> vm_reservation \<times> string list"

definition exec_bind :: "'a exec \<Rightarrow> ('a \<Rightarrow> vm_reservation \<Rightarrow> 'b exec) \<Rightarrow> 'b exec" where
  "exec_bind m f =
     (case m of
        (Inl e, r, ds) \<Rightarrow> (Inl e, r, ds)
      | (Inr x, r, ds) \<Rightarrow> (case f x r of (res, r', ds') \<Rightarrow> (res, r', ds @ ds')))"

definition discarded :: "vm_reservation \<Rightarrow> string list" where
  "discarded r = (case vr_anonymous r of None \<Rightarrow> [] | Some d \<Rightarrow> [d])"

definition retire_anonymous :: "vm_reservation \<Rightarrow> vm_reservation" where
  "retire_anonymous r = r\<lparr>vr_vm := None, vr_anonymous := None\<rparr>"

section \<open>Choosing the machine\<close>

definition drop_stale_budget :: "budget option \<Rightarrow> vm_reservation \<Rightarrow> unit exec" where
  "drop_stale_budget b r =
     (if vr_resumed r \<and> vr_retained_budget r \<noteq> b
      then (Inr (), (retire_anonymous r)\<lparr>vr_owner := None, vr_resumed := False, vr_retained_budget := None\<rparr>,
            discarded r)
      else (Inr (), r, []))"

definition restore_cached :: "exec_env \<Rightarrow> plan \<Rightarrow> budget option \<Rightarrow> vm_reservation \<Rightarrow> unit exec" where
  "restore_cached xe pn b r =
     (if vr_prepared r = None \<and> plan_disk_mib pn = DEFAULT_DISK_MIB \<and> b \<noteq> None
      then (case rbind (xe_eligible xe) (\<lambda>ok. if ok then xe_fresh xe else Inr False) of
              Inl e \<Rightarrow> (Inl e, r, [])
            | Inr ok \<Rightarrow>
                if \<not> ok then (Inr (), r, [])
                else (case xe_policy xe of
                        Inl e \<Rightarrow> (Inl e, r, [])
                      | Inr _ \<Rightarrow>
                          (case xe_restore_cached xe of
                             Inl e \<Rightarrow> (Inl e, r\<lparr>vr_anonymous := Some (xe_directory xe)\<rparr>, [])
                           | Inr (Some v) \<Rightarrow>
                               (Inr (), r\<lparr>vr_anonymous := Some (xe_directory xe), vr_vm := Some v, vr_prepared := b\<rparr>, [])
                           | Inr None \<Rightarrow> (Inr (), r\<lparr>vr_anonymous := None\<rparr>, []))))
      else (Inr (), r, []))"

definition execute_compatible :: "exec_env \<Rightarrow> plan \<Rightarrow> budget option \<Rightarrow> vm_reservation \<Rightarrow> (svc_error, bool) result" where
  "execute_compatible xe pn b r =
     (if (case (vr_prepared r, b) of
            (Some prepared, Some b') \<Rightarrow> prepared_compatible prepared b' (plan_disk_mib pn)
          | _ \<Rightarrow> False)
      then rbind (xe_eligible_again xe) (\<lambda>ok.
             if ok then rbind (xe_fresh_again xe) (\<lambda>fresh. Inr (fresh \<and> xe_codex_ready xe)) else Inr False)
      else Inr False)"

definition drop_incompatible :: "bool \<Rightarrow> vm_reservation \<Rightarrow> unit exec" where
  "drop_incompatible compatible r =
     (if vr_prepared r \<noteq> None \<and> \<not> compatible
      then (Inr (), (retire_anonymous r)\<lparr>vr_prepared := None\<rparr>, discarded r)
      else (Inr (), r, []))"

text \<open>A prepared machine has its anonymous directory; without one the source panics.\<close>

definition own_disk :: "exec_env \<Rightarrow> bool \<Rightarrow> vm_reservation \<Rightarrow> unit exec" where
  "own_disk xe compatible r =
     (if compatible
      then (case vr_anonymous r of
              None \<Rightarrow> (Inl (Internal ''panic''), r, [])
            | Some directory \<Rightarrow>
                let r1 = r\<lparr>vr_anonymous := None\<rparr>
                in (case xe_assign xe directory of
                      Inl e \<Rightarrow> (Inl e, r1, [])
                    | Inr lease \<Rightarrow> (Inr (), r1\<lparr>vr_owner := Some lease\<rparr>, [])))
      else (case xe_ownership xe of
              Inl e \<Rightarrow> (Inl e, r, [])
            | Inr lease \<Rightarrow> (Inr (), r\<lparr>vr_owner := Some lease\<rparr>, [])))"

definition start_machine :: "exec_env \<Rightarrow> bool \<Rightarrow> vm_reservation \<Rightarrow> unit exec" where
  "start_machine xe compatible r =
     (case rbind (if compatible then Inr () else xe_bootstrap xe) (\<lambda>_.
             rbind (xe_load xe) (\<lambda>_.
             rbind (xe_authorization xe) (\<lambda>bound. if bound then Inr () else xe_authorize xe))) of
        Inl e \<Rightarrow> (Inl e, r, [])
      | Inr _ \<Rightarrow>
          if compatible then (Inr (), r, [])
          else (case xe_boot xe of
                  Inl e \<Rightarrow> (Inl e, r, [])
                | Inr v \<Rightarrow> (Inr (), r\<lparr>vr_vm := Some v\<rparr>, [])))"

definition execute_limits :: "budget option \<Rightarrow> plan \<Rightarrow> (svc_error, plan) result" where
  "execute_limits b pn =
     (case b of
        None \<Rightarrow> Inr pn
      | Some b' \<Rightarrow>
          (case set_vm_limits 32768 (min (rs_cpu (bg_limits b')) 32) (vm_memory_mib b') pn of
             None \<Rightarrow> Inl (Internal ''panic'')
           | Some pn' \<Rightarrow> Inr pn'))"

definition execute_operation :: "exec_env \<Rightarrow> plan \<Rightarrow> budget option \<Rightarrow> vm_reservation \<Rightarrow> int exec" where
  "execute_operation xe plan0 b r0 =
     (if \<not> is_object (plan_storage plan0)
      then (Inl (Conflict ''S3-backed storage is required for VM execution.''), r0, [])
      else (case execute_limits b plan0 of
              Inl e \<Rightarrow> (Inl e, r0, [])
            | Inr pn \<Rightarrow>
      exec_bind (drop_stale_budget b r0) (\<lambda>_ r.
      if vr_resumed r
      then (case xe_resume_idle xe of
              Inl e \<Rightarrow> (Inl e, r, [])
            | Inr _ \<Rightarrow> (xe_run xe, r, []))
      else
      exec_bind (restore_cached xe pn b r) (\<lambda>_ r1.
      case execute_compatible xe pn b r1 of
        Inl e \<Rightarrow> (Inl e, r1, [])
      | Inr compatible \<Rightarrow>
      exec_bind (drop_incompatible compatible r1) (\<lambda>_ r2.
      exec_bind (own_disk xe compatible r2) (\<lambda>_ r3.
      exec_bind (start_machine xe compatible r3) (\<lambda>_ r4. (xe_run xe, r4, []))))))))"

section \<open>Keeping or releasing it\<close>

function make_space :: "nat \<Rightarrow> budget \<Rightarrow> (nat \<Rightarrow> obs) \<Rightarrow> nat \<Rightarrow> pool \<Rightarrow> pool" where
  "make_space bytes b env i p =
     (if (case retained_total (env i) bytes (po_slots p) of
            None \<Rightarrow> False
          | Some n \<Rightarrow> within_budget (length (sl_retained (po_slots p)) + 1) n b)
      then p
      else (case take_retained (\<lambda>idle. \<not> publication_pending (env i) idle) p of
              (None, p1) \<Rightarrow> p1
            | (Some old, p1) \<Rightarrow> make_space bytes b env (Suc i) (res_finish (rt_reservation old) p1)))"
  by pat_completeness auto
termination
  by (relation "measure (\<lambda>(_, _, _, _, p). length (sl_retained (po_slots p)))")
     (auto dest!: sym [of "(Some _, _)"] take_retained_shrinks)

declare make_space.simps [simp del]

text \<open>\<open>env 0\<close> and \<open>env 1\<close> are the two checks of the budget, \<open>env 2\<close> the loop, \<open>env 3\<close> the last check.\<close>

definition wants_retention :: "exec_env \<Rightarrow> (nat \<Rightarrow> nat \<Rightarrow> obs) \<Rightarrow> budget option \<Rightarrow> plan \<Rightarrow> pool \<Rightarrow> bool" where
  "wants_retention xe env b pn p =
     (xe_control xe \<and> \<not> xe_stopped xe \<and> \<not> po_stop p \<and> retained_eligible pn \<and> po_retention p \<noteq> 0
      \<and> retention_budget b (env 0 0) p \<noteq> None
      \<and> xe_suspend xe = Inr ())"

definition retain_or_finish ::
  "exec_env \<Rightarrow> (nat \<Rightarrow> nat \<Rightarrow> obs) \<Rightarrow> budget option \<Rightarrow> plan \<Rightarrow> vm_reservation \<Rightarrow> string \<Rightarrow> pool \<Rightarrow> pool" where
  "retain_or_finish xe env b pn r volume p =
     (case (retention_budget b (env 1 0) p, Option.bind (vr_vm r) (resident_bytes (env 1 0))) of
        (Some rb, Some bytes) \<Rightarrow>
          if within_budget 1 bytes rb \<and> \<not> po_stop p \<and> \<not> xe_stopped xe
          then
            let p1 = make_space bytes rb (env 2) 0 p
            in if (case retained_total (env 3 0) bytes (po_slots p1) of
                     None \<Rightarrow> False
                   | Some n \<Rightarrow> within_budget (length (sl_retained (po_slots p1)) + 1) n rb)
               then
                 let r' = r\<lparr>vr_prepared := None, vr_resumed := False\<rparr>
                 in push_retained
                      \<lparr>rt_run = plan_run_id pn, rt_budget = rb, rt_key = retained_key pn,
                       rt_expires = ob_now (env 3 0) + po_retention p, rt_reservation = r',
                       rt_volume = Some volume\<rparr>
                      (replace_task r r' p1)
               else res_finish r p1
          else res_finish r p
      | _ \<Rightarrow> res_finish r p)"

definition execute_end ::
  "exec_env \<Rightarrow> (nat \<Rightarrow> nat \<Rightarrow> obs) \<Rightarrow> budget option \<Rightarrow> plan \<Rightarrow> (svc_error, int) result \<Rightarrow> vm_reservation \<Rightarrow> pool
     \<Rightarrow> (svc_error, int) result \<times> pool" where
  "execute_end xe env b pn res r p =
     (if res \<noteq> Inr 0 then (res, res_finish r p)
      else (case rbind (xe_load_completed xe) (\<lambda>_. xe_seal xe) of
              Inl e \<Rightarrow> (Inl e, res_finish r p)
            | Inr _ \<Rightarrow>
                if wants_retention xe env b pn p
                then (case xe_load_retained xe of
                        Inl e \<Rightarrow> (Inl e, res_finish r p)
                      | Inr volume \<Rightarrow> (res, retain_or_finish xe env b pn r volume p))
                else (res, res_finish r p)))"

definition execute ::
  "bool \<Rightarrow> exec_env \<Rightarrow> (nat \<Rightarrow> nat \<Rightarrow> obs) \<Rightarrow> plan \<Rightarrow> vm_reservation \<Rightarrow> pool
     \<Rightarrow> (svc_error, int) result \<times> string list \<times> pool" where
  "execute stopped xe env pn r p =
     (if stopped then (Inr 143, discarded r, res_finish r p)
      else
        let b = po_budget p;
            limited = (case execute_limits b pn of Inl _ \<Rightarrow> pn | Inr pn' \<Rightarrow> pn')
        in (case execute_operation xe pn b r of
              (res, r', ds) \<Rightarrow>
                (case execute_end xe env b limited res r' (replace_task r r' p) of
                   (res', p') \<Rightarrow> (res', ds @ discarded r', p'))))"

end
