(* ===== verification/Vm_Pool_Steps.thy ===== *)
theory Vm_Pool_Steps
  imports Vm_Execute "HOL-Library.Multiset"
begin

text \<open>
  The VM pool as a step relation: one step per critical section, whichever task enters it, so that every
  interleaving of admissions, executions, the preparation and their cleanups is a sequence of steps. The
  invariant says who owns which slot; the operations are shown to be sequences of steps.
\<close>

section \<open>Steps\<close>

definition step_take_retained :: "retained_vm list \<Rightarrow> retained_vm \<Rightarrow> retained_vm list \<Rightarrow> pool \<Rightarrow> pool" where
  "step_take_retained ys idle zs p =
     p\<lparr>po_slots := (po_slots p)\<lparr>sl_retained := ys @ zs\<rparr>, po_tasks := rt_reservation idle # po_tasks p\<rparr>"

definition step_grant :: "nat \<Rightarrow> vm_slots \<Rightarrow> pool \<Rightarrow> pool" where
  "step_grant slot s p = p\<lparr>po_slots := s, po_tasks := new_reservation slot # po_tasks p\<rparr>"

definition step_prepare :: "string \<Rightarrow> nat \<Rightarrow> vm_slots \<Rightarrow> pool \<Rightarrow> pool" where
  "step_prepare directory slot s p =
     p\<lparr>po_slots := s\<lparr>sl_preparing := Some \<lparr>pr_slot = slot, pr_stop = False\<rparr>\<rparr>,
       po_tasks := (new_reservation slot)\<lparr>vr_anonymous := Some directory, vr_completion := True\<rparr> # po_tasks p\<rparr>"

text \<open>What a step must not touch to be no business of the owners.\<close>

definition pool_core :: "pool \<Rightarrow> bool list \<times> vm_reservation list \<times> retained_vm list \<times> preparing option \<times> vm_reservation list" where
  "pool_core p =
     (sl_occupied (po_slots p), sl_ready (po_slots p), sl_retained (po_slots p), sl_preparing (po_slots p), po_tasks p)"

definition keepable :: "vm_reservation \<Rightarrow> bool" where
  "keepable r = (vr_vm r \<noteq> None \<and> vr_owner r \<noteq> None \<and> vr_anonymous r = None \<and> vr_prepared r = None \<and> \<not> vr_completion r)"

text \<open>A machine in preparation is not one that was resumed.\<close>

definition task_ok :: "vm_reservation \<Rightarrow> bool" where
  "task_ok r = (vr_completion r \<longrightarrow> \<not> vr_resumed r)"

definition same_slot :: "vm_reservation \<Rightarrow> vm_reservation \<Rightarrow> bool" where
  "same_slot r r' = (vr_slot r' = vr_slot r \<and> vr_completion r' = vr_completion r \<and> task_ok r')"

inductive pool_step :: "pool \<Rightarrow> pool \<Rightarrow> bool" where
  Aside: "pool_core p' = pool_core p \<Longrightarrow> pool_step p p'"
| Take_Retained: "sl_retained (po_slots p) = ys @ idle # zs \<Longrightarrow> pool_step p (step_take_retained ys idle zs p)"
| Pop_Ready: "pop_ready p = (Some r, p') \<Longrightarrow> pool_step p p'"
| Retain: "rt_reservation idle \<in> set (po_tasks p) \<Longrightarrow> keepable (rt_reservation idle) \<Longrightarrow>
    pool_step p (push_retained idle p)"
| Change: "r \<in> set (po_tasks p) \<Longrightarrow> same_slot r r' \<Longrightarrow> pool_step p (replace_task r r' p)"
| Finish: "r \<in> set (po_tasks p) \<Longrightarrow> pool_step p (res_finish r p)"
| Grant: "slots_reserve (po_capacity p) (po_slots p) = (Some slot, s) \<Longrightarrow> pool_step p (step_grant slot s p)"
| Prepare: "sl_preparing (po_slots p) = None \<Longrightarrow> slots_reserve (po_capacity p) (po_slots p) = (Some slot, s) \<Longrightarrow>
    pool_step p (step_prepare directory slot s p)"
| Publish: "r \<in> set (po_tasks p) \<Longrightarrow> vr_completion r \<Longrightarrow> vr_vm r \<noteq> None \<Longrightarrow> pool_step p (publish_ready b r p)"
| Cancel: "pool_step p (stop_preparing p)"

abbreviation "pool_steps \<equiv> pool_step\<^sup>*\<^sup>*"

section \<open>Invariant\<close>

definition owners :: "pool \<Rightarrow> nat list" where
  "owners p =
     map vr_slot (sl_ready (po_slots p)) @ map (\<lambda>idle. vr_slot (rt_reservation idle)) (sl_retained (po_slots p))
     @ map vr_slot (po_tasks p)"

definition busy_slots :: "bool list \<Rightarrow> nat list" where
  "busy_slots occ = map Suc (filter (\<lambda>i. occ ! i) [0..<length occ])"

definition ready_ok :: "vm_reservation \<Rightarrow> bool" where
  "ready_ok r = (vr_vm r \<noteq> None \<and> vr_prepared r \<noteq> None \<and> \<not> vr_completion r \<and> \<not> vr_resumed r)"

definition preparing_ok :: "preparing option \<Rightarrow> vm_reservation list \<Rightarrow> bool" where
  "preparing_ok pr tasks = (map vr_slot (filter vr_completion tasks) = (case pr of None \<Rightarrow> [] | Some x \<Rightarrow> [pr_slot x]))"

definition pool_inv :: "pool \<Rightarrow> bool" where
  "pool_inv p =
     (distinct (owners p)
      \<and> set (owners p) = set (busy_slots (sl_occupied (po_slots p)))
      \<and> list_all ready_ok (sl_ready (po_slots p))
      \<and> list_all (\<lambda>idle. keepable (rt_reservation idle)) (sl_retained (po_slots p))
      \<and> list_all task_ok (po_tasks p)
      \<and> preparing_ok (sl_preparing (po_slots p)) (po_tasks p))"

section \<open>Slots\<close>

lemma position_Some: "position P xs = Some i \<Longrightarrow> i < length xs \<and> P (xs ! i)"
  by (induction xs arbitrary: i) (auto split: if_splits)

lemma position_None: "position P xs = None \<longleftrightarrow> (\<forall>x\<in>set xs. \<not> P x)"
  by (induction xs) auto

lemma in_busy_slots: "k \<in> set (busy_slots occ) \<longleftrightarrow> 0 < k \<and> k - 1 < length occ \<and> occ ! (k - 1)"
proof -
  have "k \<in> Suc ` {i. i < length occ \<and> occ ! i} \<longleftrightarrow> 0 < k \<and> k - 1 < length occ \<and> occ ! (k - 1)"
    by (cases k) auto
  then show ?thesis by (simp add: busy_slots_def)
qed

lemma length_busy_slots: "length (busy_slots occ) = length (filter (\<lambda>used. used) occ)"
proof (induction occ rule: rev_induct)
  case Nil
  then show ?case by (simp add: busy_slots_def)
next
  case (snoc x occ)
  have "filter (\<lambda>i. (occ @ [x]) ! i) [0..<length occ] = filter (\<lambda>i. occ ! i) [0..<length occ]"
    by (rule filter_cong) (auto simp: nth_append)
  then show ?case using snoc by (simp add: busy_slots_def)
qed

lemma distinct_busy_slots [simp]: "distinct (busy_slots occ)"
  by (simp add: busy_slots_def distinct_map)

lemma busy_slots_free:
  assumes "0 < k"
  shows "set (busy_slots (occ[k - 1 := False])) = set (busy_slots occ) - {k}"
proof (rule set_eqI)
  fix x
  obtain j where "k = Suc j" using assms by (cases k) auto
  then show "x \<in> set (busy_slots (occ[k - 1 := False])) \<longleftrightarrow> x \<in> set (busy_slots occ) - {k}"
    by (cases x; cases "j < length occ") (auto simp: in_busy_slots nth_list_update)
qed

lemma busy_slots_take:
  assumes "i < length occ"
  shows "set (busy_slots (occ[i := True])) = insert (Suc i) (set (busy_slots occ))"
proof (rule set_eqI)
  fix x
  show "x \<in> set (busy_slots (occ[i := True])) \<longleftrightarrow> x \<in> insert (Suc i) (set (busy_slots occ))"
    using assms by (cases x) (auto simp: in_busy_slots nth_list_update)
qed

lemma busy_slots_push: "set (busy_slots (occ @ [True])) = insert (Suc (length occ)) (set (busy_slots occ))"
  by (auto simp: in_busy_slots nth_append)

lemma slots_reserve_Some:
  assumes "slots_reserve c s = (Some slot, s')"
  shows "slot \<notin> set (busy_slots (sl_occupied s))
    \<and> set (busy_slots (sl_occupied s')) = insert slot (set (busy_slots (sl_occupied s)))
    \<and> sl_ready s' = sl_ready s \<and> sl_retained s' = sl_retained s \<and> sl_preparing s' = sl_preparing s"
  using assms
  by (auto simp: slots_reserve_def in_busy_slots busy_slots_take [simplified] busy_slots_push position_None
      dest!: position_Some split: if_splits option.splits)

lemma slots_reserve_None: "slots_reserve c s = (None, s') \<Longrightarrow> s' = s"
  by (auto simp: slots_reserve_def split: if_splits option.splits)

lemma slots_reserve_succeeds:
  assumes "slot_available c s"
  shows "\<exists>slot s'. slots_reserve c s = (Some slot, s')"
proof (cases "position (\<lambda>used. \<not> used) (sl_occupied s)")
  case None
  then have "filter (\<lambda>used. used) (sl_occupied s) = sl_occupied s"
    by (auto simp: position_None intro!: filter_True)
  then show ?thesis using None assms
    by (auto simp: slots_reserve_def slot_available_def occupied_count_def)
next
  case (Some i)
  then show ?thesis using assms by (simp add: slots_reserve_def)
qed

lemma release_slot_fields [simp]:
  "sl_occupied (release_slot k c s) = (sl_occupied s)[k - 1 := False]"
  "sl_ready (release_slot k c s) = sl_ready s"
  "sl_retained (release_slot k c s) = sl_retained s"
  "sl_preparing (release_slot k c s) =
     (if c \<and> (case sl_preparing s of None \<Rightarrow> False | Some pr \<Rightarrow> pr_slot pr = k) then None else sl_preparing s)"
  by (auto simp: release_slot_def Let_def)


section \<open>Steps keep the invariant\<close>

lemma distinct_map_remove1:
  assumes "distinct (map f xs)" "x \<in> set xs"
  shows "distinct (map f (remove1 x xs))" "set (map f (remove1 x xs)) = set (map f xs) - {f x}"
proof -
  have d: "distinct xs" using assms(1) by (simp add: distinct_map)
  show "distinct (map f (remove1 x xs))" using assms(1) d by (auto simp: distinct_map inj_on_def)
  show "set (map f (remove1 x xs)) = set (map f xs) - {f x}"
    using assms d by (auto simp: distinct_map inj_on_def)
qed

lemma list_all_remove1: "list_all P xs \<Longrightarrow> list_all P (remove1 x xs)"
  using set_remove1_subset [of x xs] by (auto simp: list_all_iff)

lemma filter_remove1_other: "\<not> P x \<Longrightarrow> filter P (remove1 x xs) = filter P xs"
  by (induction xs) auto

lemma pool_inv_perm:
  assumes "pool_inv p" "mset (owners p') = mset (owners p)" "sl_occupied (po_slots p') = sl_occupied (po_slots p)"
    and "list_all ready_ok (sl_ready (po_slots p'))"
    and "list_all (\<lambda>idle. keepable (rt_reservation idle)) (sl_retained (po_slots p'))"
    and "list_all task_ok (po_tasks p')" "preparing_ok (sl_preparing (po_slots p')) (po_tasks p')"
  shows "pool_inv p'"
  using assms mset_eq_setD [OF assms(2)] mset_eq_imp_distinct_iff [OF assms(2)] by (simp add: pool_inv_def)

lemma pool_inv_core: "pool_core p' = pool_core p \<Longrightarrow> pool_inv p' = pool_inv p"
  by (simp add: pool_core_def pool_inv_def owners_def)

lemma pool_invD:
  assumes "pool_inv p"
  shows "distinct (map vr_slot (po_tasks p))"
    and "r \<in> set (po_tasks p) \<Longrightarrow> vr_slot r \<in> set (busy_slots (sl_occupied (po_slots p)))"
    and "r \<in> set (po_tasks p) \<Longrightarrow>
           vr_slot r \<notin> vr_slot ` set (sl_ready (po_slots p)) \<union> (\<lambda>i. vr_slot (rt_reservation i)) ` set (sl_retained (po_slots p))"
  using assms by (auto simp: pool_inv_def owners_def)

lemma preparing_ok_task:
  assumes "preparing_ok pr tasks" "r \<in> set tasks" "vr_completion r"
  shows "(\<exists>x. pr = Some x \<and> pr_slot x = vr_slot r) \<and> filter vr_completion tasks = [r]"
proof -
  have "r \<in> set (filter vr_completion tasks)" using assms by simp
  then show ?thesis using assms(1) unfolding preparing_ok_def
    by (cases "filter vr_completion tasks"; cases pr) (auto simp del: set_filter)
qed

lemma pool_inv_finish:
  assumes inv: "pool_inv p" and r: "r \<in> set (po_tasks p)"
  shows "pool_inv (res_finish r p)"
proof -
  note d = distinct_map_remove1 [OF pool_invD(1) [OF inv] r]
  have pos: "0 < vr_slot r" using pool_invD(2) [OF inv r] by (simp add: in_busy_slots)
  have "distinct (owners (res_finish r p))"
    using inv d by (auto simp: pool_inv_def owners_def res_finish_def)
  moreover have "set (owners (res_finish r p)) = set (owners p) - {vr_slot r}"
    using d(2) pool_invD(3) [OF inv r] by (auto simp: owners_def res_finish_def)
  moreover have "preparing_ok (sl_preparing (po_slots (res_finish r p))) (po_tasks (res_finish r p))"
  proof (cases "vr_completion r")
    case True
    have "preparing_ok (sl_preparing (po_slots p)) (po_tasks p)" using inv by (simp add: pool_inv_def)
    from preparing_ok_task [OF this r True] True show ?thesis
      by (auto simp: res_finish_def preparing_ok_def filter_remove1)
  next
    case False
    then show ?thesis using inv
      by (simp add: pool_inv_def res_finish_def preparing_ok_def filter_remove1_other)
  qed
  ultimately show ?thesis
    using inv busy_slots_free [OF pos] by (auto simp: pool_inv_def res_finish_def list_all_remove1)
qed

lemma pool_inv_replace:
  assumes inv: "pool_inv p" and r: "r \<in> set (po_tasks p)" and same: "same_slot r r'"
  shows "pool_inv (replace_task r r' p)"
proof -
  note d = distinct_map_remove1 [OF pool_invD(1) [OF inv] r]
  have "distinct (owners (replace_task r r' p))"
    using inv d same pool_invD(3) [OF inv r] by (auto simp: pool_inv_def owners_def replace_task_def same_slot_def)
  moreover have "set (owners (replace_task r r' p)) = set (owners p)"
    using d(2) r same by (auto simp: owners_def replace_task_def same_slot_def)
  moreover have "preparing_ok (sl_preparing (po_slots p)) (r' # remove1 r (po_tasks p))"
  proof (cases "vr_completion r")
    case True
    have "preparing_ok (sl_preparing (po_slots p)) (po_tasks p)" using inv by (simp add: pool_inv_def)
    from preparing_ok_task [OF this r True] True same show ?thesis
      by (auto simp: preparing_ok_def same_slot_def filter_remove1)
  next
    case False
    then show ?thesis using inv same
      by (simp add: pool_inv_def preparing_ok_def filter_remove1_other same_slot_def)
  qed
  ultimately show ?thesis using inv same by (simp add: pool_inv_def replace_task_def list_all_remove1 same_slot_def)
qed

lemma pool_inv_retain:
  assumes inv: "pool_inv p" and r: "rt_reservation idle \<in> set (po_tasks p)" and k: "keepable (rt_reservation idle)"
  shows "pool_inv (push_retained idle p)"
proof -
  note d = distinct_map_remove1 [OF pool_invD(1) [OF inv] r]
  have "distinct (owners (push_retained idle p))"
    using inv d pool_invD(3) [OF inv r] by (auto simp: pool_inv_def owners_def push_retained_def)
  moreover have "set (owners (push_retained idle p)) = set (owners p)"
    using d(2) r by (auto simp: owners_def push_retained_def)
  ultimately show ?thesis using inv k
    by (simp add: pool_inv_def push_retained_def preparing_ok_def filter_remove1_other keepable_def list_all_remove1)
qed

lemma pool_inv_publish:
  assumes inv: "pool_inv p" and r: "r \<in> set (po_tasks p)" and c: "vr_completion r" and v: "vr_vm r \<noteq> None"
  shows "pool_inv (publish_ready b r p)"
proof -
  note d = distinct_map_remove1 [OF pool_invD(1) [OF inv] r]
  have "distinct (owners (publish_ready b r p))"
    using inv d pool_invD(3) [OF inv r] by (auto simp: pool_inv_def owners_def publish_ready_def Let_def)
  moreover have "set (owners (publish_ready b r p)) = set (owners p)"
    using d(2) r by (auto simp: owners_def publish_ready_def Let_def)
  moreover have "preparing_ok None (remove1 r (po_tasks p))"
  proof -
    have "preparing_ok (sl_preparing (po_slots p)) (po_tasks p)" using inv by (simp add: pool_inv_def)
    from preparing_ok_task [OF this r c] show ?thesis
      by (simp add: preparing_ok_def filter_remove1)
  qed
  moreover have "\<not> vr_resumed r" using inv r c by (auto simp: pool_inv_def list_all_iff task_ok_def)
  ultimately show ?thesis using inv v
    by (simp add: pool_inv_def publish_ready_def Let_def ready_ok_def list_all_remove1)
qed

lemma pool_inv_add:
  assumes inv: "pool_inv p" and res: "slots_reserve c (po_slots p) = (Some (vr_slot r), s)"
    and prep: "preparing_ok pr (r # po_tasks p)" and ok: "task_ok r"
  shows "pool_inv (p\<lparr>po_slots := s\<lparr>sl_preparing := pr\<rparr>, po_tasks := r # po_tasks p\<rparr>)" (is "pool_inv ?p")
proof -
  note s = slots_reserve_Some [OF res]
  have "mset (owners ?p) = add_mset (vr_slot r) (mset (owners p))" using s by (simp add: owners_def)
  then have "set (owners ?p) = insert (vr_slot r) (set (owners p))" "distinct (owners ?p) \<longleftrightarrow> vr_slot r \<notin> set (owners p) \<and> distinct (owners p)"
    using mset_eq_setD [of "owners ?p" "vr_slot r # owners p"] mset_eq_imp_distinct_iff [of "owners ?p" "vr_slot r # owners p"]
    by simp_all
  then show ?thesis using inv s prep ok by (simp add: pool_inv_def)
qed

lemma pool_inv_grant:
  assumes inv: "pool_inv p" and res: "slots_reserve c (po_slots p) = (Some slot, s)"
  shows "pool_inv (step_grant slot s p)"
    and "sl_preparing (po_slots p) = None \<Longrightarrow> pool_inv (step_prepare directory slot s p)"
proof -
  have same: "s\<lparr>sl_preparing := sl_preparing (po_slots p)\<rparr> = s" using slots_reserve_Some [OF res] by simp
  have "preparing_ok (sl_preparing (po_slots p)) (new_reservation slot # po_tasks p)"
    using inv by (simp add: pool_inv_def preparing_ok_def new_reservation_def)
  from pool_inv_add [OF inv _ this, of c s] show "pool_inv (step_grant slot s p)"
    using res same by (simp add: step_grant_def new_reservation_def task_ok_def)
next
  assume "sl_preparing (po_slots p) = None"
  then have "preparing_ok (Some \<lparr>pr_slot = slot, pr_stop = False\<rparr>)
      ((new_reservation slot)\<lparr>vr_anonymous := Some directory, vr_completion := True\<rparr> # po_tasks p)"
    using inv by (simp add: pool_inv_def preparing_ok_def new_reservation_def)
  from pool_inv_add [OF inv _ this, of c s] show "pool_inv (step_prepare directory slot s p)"
    using res by (simp add: step_prepare_def new_reservation_def task_ok_def)
qed

theorem pool_inv_step: "pool_step p p' \<Longrightarrow> pool_inv p \<Longrightarrow> pool_inv p'"
proof (induction rule: pool_step.induct)
  case (Take_Retained p ys idle zs)
  have "\<not> vr_completion (rt_reservation idle)" using Take_Retained by (simp add: pool_inv_def keepable_def)
  then have "preparing_ok (sl_preparing (po_slots p)) (rt_reservation idle # po_tasks p)"
    using Take_Retained by (simp add: pool_inv_def preparing_ok_def)
  then show ?case
    using Take_Retained by - (rule pool_inv_perm [of p], simp_all add: step_take_retained_def owners_def pool_inv_def task_ok_def keepable_def)
next
  case (Pop_Ready p r p')
  then obtain rs where rs: "sl_ready (po_slots p) = r # rs"
    and p': "p' = p\<lparr>po_slots := (po_slots p)\<lparr>sl_ready := rs\<rparr>, po_tasks := r # po_tasks p\<rparr>"
    by (auto simp: pop_ready_def split: list.splits)
  have "\<not> vr_completion r" using Pop_Ready rs by (simp add: pool_inv_def ready_ok_def)
  then have "preparing_ok (sl_preparing (po_slots p)) (r # po_tasks p)"
    using Pop_Ready by (simp add: pool_inv_def preparing_ok_def)
  then show ?case
    using Pop_Ready rs unfolding p' by - (rule pool_inv_perm [of p], simp_all add: owners_def pool_inv_def task_ok_def ready_ok_def)
next
  case (Cancel p)
  then show ?case
    by (cases "sl_preparing (po_slots p)") (simp_all add: pool_inv_def owners_def stop_preparing_def preparing_ok_def)
qed (auto dest: pool_inv_core intro: pool_inv_retain pool_inv_replace pool_inv_finish pool_inv_grant pool_inv_publish)

lemma pool_inv_steps: "pool_steps p p' \<Longrightarrow> pool_inv p \<Longrightarrow> pool_inv p'"
  by (induction rule: rtranclp_induct) (auto intro: pool_inv_step)

end
