(* ===== verification/Vm_Pool_Refine.thy ===== *)
theory Vm_Pool_Refine
  imports Vm_Pool_Steps
begin

text \<open>
  The operations of the VM pool are sequences of its critical sections: what the step relation keeps, every
  operation keeps, however it is interleaved with others.
\<close>

section \<open>Operations are sequences of steps\<close>

text \<open>\<open>reclaims p p'\<close>: only idle machines have been given up on the way.\<close>

definition reclaims :: "pool \<Rightarrow> pool \<Rightarrow> bool" where
  "reclaims p p' \<longleftrightarrow> pool_steps p p' \<and> po_tasks p' = po_tasks p \<and> po_budget p' = po_budget p
     \<and> po_capacity p' = po_capacity p \<and> po_stop p' = po_stop p"

lemma reclaims_refl [simp]: "reclaims p p"
  by (simp add: reclaims_def)

lemma reclaims_trans: "reclaims p q \<Longrightarrow> reclaims q r \<Longrightarrow> reclaims p r"
  by (auto simp: reclaims_def)

lemma take_first_split:
  "take_first P xs = Some (x, rest) \<Longrightarrow> \<exists>ys zs. xs = ys @ x # zs \<and> rest = ys @ zs \<and> P x \<and> (\<forall>y\<in>set ys. \<not> P y)"
proof (induction xs arbitrary: rest)
  case (Cons a xs)
  show ?case
  proof (cases "P a")
    case True
    then show ?thesis using Cons.prems by (intro exI [of _ "[]"] exI [of _ xs]) auto
  next
    case False
    then obtain rest' where "take_first P xs = Some (x, rest')" "rest = a # rest'" using Cons.prems by auto
    with Cons.IH [of rest'] obtain ys zs where "xs = ys @ x # zs \<and> rest' = ys @ zs \<and> P x \<and> (\<forall>y\<in>set ys. \<not> P y)" by blast
    then show ?thesis using False \<open>rest = a # rest'\<close> by (intro exI [of _ "a # ys"] exI [of _ zs]) auto
  qed
qed simp

lemma take_first_None: "take_first P xs = None \<longleftrightarrow> (\<forall>x\<in>set xs. \<not> P x)"
  by (induction xs) (auto split: if_splits)

lemma take_retained_step:
  assumes "take_retained P p = (Some idle, p1)"
  shows "pool_step p p1 \<and> po_tasks p1 = rt_reservation idle # po_tasks p \<and> po_budget p1 = po_budget p
    \<and> po_capacity p1 = po_capacity p \<and> po_stop p1 = po_stop p \<and> P idle \<and> idle \<in> set (sl_retained (po_slots p))
    \<and> sl_occupied (po_slots p1) = sl_occupied (po_slots p)"
proof -
  obtain rest where t: "take_first P (sl_retained (po_slots p)) = Some (idle, rest)"
    and p1: "p1 = p\<lparr>po_slots := (po_slots p)\<lparr>sl_retained := rest\<rparr>, po_tasks := rt_reservation idle # po_tasks p\<rparr>"
    using assms by (auto simp: take_retained_def split: option.splits)
  obtain ys zs where "sl_retained (po_slots p) = ys @ idle # zs" "rest = ys @ zs" "P idle"
    using take_first_split [OF t] by blast
  then show ?thesis using pool_step.Take_Retained [of p ys idle zs] by (simp add: p1 step_take_retained_def)
qed

lemma take_retained_None: "take_retained P p = (None, p1) \<longleftrightarrow> p1 = p \<and> (\<forall>idle\<in>set (sl_retained (po_slots p)). \<not> P idle)"
  using take_first_None [of P "sl_retained (po_slots p)"] by (auto simp: take_retained_def split: option.splits)

lemma pop_ready_step:
  assumes "pop_ready p = (Some r, p1)"
  shows "pool_step p p1 \<and> po_tasks p1 = r # po_tasks p \<and> po_budget p1 = po_budget p
    \<and> po_capacity p1 = po_capacity p \<and> po_stop p1 = po_stop p \<and> r \<in> set (sl_ready (po_slots p))
    \<and> sl_occupied (po_slots p1) = sl_occupied (po_slots p)"
  using assms pool_step.Pop_Ready [OF assms] by (auto simp: pop_ready_def split: list.splits)

lemma pop_ready_None: "pop_ready p = (None, p1) \<longleftrightarrow> p1 = p \<and> sl_ready (po_slots p) = []"
  by (auto simp: pop_ready_def split: list.splits)

lemma res_finish_keeps [simp]:
  "po_budget (res_finish r p) = po_budget p" "po_capacity (res_finish r p) = po_capacity p"
  "po_stop (res_finish r p) = po_stop p" "po_tasks (res_finish r p) = remove1 r (po_tasks p)"
  by (simp_all add: res_finish_def)

lemma finish_taken:
  assumes "pool_step p p1" "po_tasks p1 = r # po_tasks p" "po_budget p1 = po_budget p"
    "po_capacity p1 = po_capacity p" "po_stop p1 = po_stop p"
  shows "reclaims p (res_finish r p1)"
proof -
  have "pool_step p1 (res_finish r p1)" using assms(2) by (intro pool_step.Finish) simp
  then have "pool_steps p (res_finish r p1)" using assms(1) by (meson converse_rtranclp_into_rtranclp r_into_rtranclp)
  then show ?thesis using assms by (simp add: reclaims_def)
qed

lemma reclaims_retained: "take_retained P p = (Some idle, p1) \<Longrightarrow> reclaims p (res_finish (rt_reservation idle) p1)"
  using take_retained_step [of P p idle p1] by (intro finish_taken) auto

lemma reclaims_ready: "pop_ready p = (Some r, p1) \<Longrightarrow> reclaims p (res_finish r p1)"
  using pop_ready_step [of p r p1] by (intro finish_taken) auto

lemma take_idle_step:
  assumes "take_idle ob p = (Some r, p1)"
  shows "reclaims p (res_finish r p1)"
  using assms unfolding take_idle_def
  by (auto simp: take_retained_None intro: reclaims_retained reclaims_ready split: prod.splits option.splits)

lemma take_idle_None: "take_idle ob p = (None, p1) \<Longrightarrow> p1 = p"
  unfolding take_idle_def by (auto simp: take_retained_None pop_ready_None split: prod.splits option.splits)

lemma reclaims_retire_retained: "reclaims p (retire_retained shutdown env i p)"
proof (induction shutdown env i p rule: retire_retained.induct)
  case (1 shutdown env i p)
  then show ?case
    by (subst retire_retained.simps)
      (auto simp: take_retained_None intro: reclaims_trans reclaims_retained split: prod.split option.split)
qed

lemma reclaims_retire_ready: "reclaims p (retire_ready p)"
proof (induction p rule: retire_ready.induct)
  case (1 p)
  then show ?case
    by (subst retire_ready.simps)
      (auto simp: pop_ready_None intro: reclaims_trans reclaims_ready split: prod.split option.split)
qed

lemma reclaims_make_room: "reclaims p (snd (make_room needs_slot env i p))"
proof (induction needs_slot env i p rule: make_room.induct)
  case (1 needs_slot env i p)
  then show ?case
    by (subst make_room.simps)
      (auto dest!: take_idle_None intro: reclaims_trans take_idle_step split: prod.split option.split sum.split)
qed

lemma reclaims_maintain_loop: "reclaims p (snd (maintain_loop b env i p))"
proof (induction b env i p rule: maintain_loop.induct)
  case (1 b env i p)
  then show ?case
    by (subst maintain_loop.simps)
      (auto simp: take_retained_None intro: reclaims_trans reclaims_retained split: prod.split option.split sum.split)
qed

lemma reclaims_shrink_ready: "reclaims p (shrink_ready b env i p)"
proof (induction b env i p rule: shrink_ready.induct)
  case (1 b env i p)
  then show ?case
    by (subst shrink_ready.simps)
      (auto simp: pop_ready_None intro: reclaims_trans reclaims_ready split: prod.split option.split)
qed

lemma reclaims_make_space: "reclaims p (make_space bytes b env i p)"
proof (induction bytes b env i p rule: make_space.induct)
  case (1 bytes b env i p)
  then show ?case
    by (subst make_space.simps)
      (auto simp: take_retained_None intro: reclaims_trans reclaims_retained split: prod.split option.split)
qed

section \<open>Preparation and its cancellation\<close>

definition live :: "pool \<Rightarrow> vm_reservation list" where
  "live p = filter (\<lambda>r. \<not> vr_completion r) (po_tasks p)"

text \<open>Nothing but the slots and the tasks has changed.\<close>

definition same_config :: "pool \<Rightarrow> pool \<Rightarrow> bool" where
  "same_config p p' = (po_budget p' = po_budget p \<and> po_capacity p' = po_capacity p \<and> po_stop p' = po_stop p)"

lemma filter_single: "filter P xs = [r] \<Longrightarrow> P r \<and> r \<in> set xs"
  by (drule arg_cong [where f = set]) auto

lemma remove1_only: "filter P xs = [r] \<Longrightarrow> remove1 r xs = filter (\<lambda>x. \<not> P x) xs"
proof (induction xs)
  case (Cons x xs)
  then show ?case
  proof (cases "P x")
    case True
    then have "x = r" "filter P xs = []" using Cons.prems by auto
    then show ?thesis using True by (auto simp: filter_empty_conv intro: sym [OF filter_True])
  next
    case False
    moreover have "P r" using filter_single [OF Cons.prems] by simp
    ultimately show ?thesis using Cons by auto
  qed
qed simp

lemma pool_inv_preparing:
  assumes "pool_inv p" "sl_preparing (po_slots p) = Some pr"
  obtains r where "filter vr_completion (po_tasks p) = [r]" "vr_slot r = pr_slot pr" "vr_completion r" "r \<in> set (po_tasks p)"
proof -
  have "map vr_slot (filter vr_completion (po_tasks p)) = [pr_slot pr]"
    using assms by (simp add: pool_inv_def preparing_ok_def)
  then obtain r where r: "filter vr_completion (po_tasks p) = [r]" "vr_slot r = pr_slot pr" by (auto simp: map_eq_Cons_conv)
  then show ?thesis using filter_single [OF r(1)] by (intro that [of r]) simp_all
qed

lemma pool_inv_idle: "pool_inv p \<Longrightarrow> sl_preparing (po_slots p) = None \<Longrightarrow> live p = po_tasks p"
  by (auto simp: pool_inv_def preparing_ok_def live_def filter_empty_conv intro!: filter_True)

lemma prepare_operation_spec:
  assumes "prepare_operation pe r = (operation, r')"
  shows "vr_slot r' = vr_slot r" "vr_completion r' = vr_completion r" "vr_resumed r' = vr_resumed r"
    "operation = Inr True \<Longrightarrow> vr_vm r' \<noteq> None"
  using assms by (auto simp: prepare_operation_def split: sum.splits option.splits)

lemma preparation_failed_core: "pool_core (preparation_failed now operation p) = pool_core p"
  by (auto simp: preparation_failed_def pool_core_def warm_failure_def Let_def split: sum.splits)

lemma preparation_failed_simps [simp]:
  "po_tasks (preparation_failed now operation p) = po_tasks p"
  "po_budget (preparation_failed now operation p) = po_budget p"
  "po_capacity (preparation_failed now operation p) = po_capacity p"
  "po_stop (preparation_failed now operation p) = po_stop p"
  "sl_ready (po_slots (preparation_failed now operation p)) = sl_ready (po_slots p)"
  "sl_retained (po_slots (preparation_failed now operation p)) = sl_retained (po_slots p)"
  "sl_occupied (po_slots (preparation_failed now operation p)) = sl_occupied (po_slots p)"
  "sl_preparing (po_slots (preparation_failed now operation p)) = sl_preparing (po_slots p)"
  by (auto simp: preparation_failed_def warm_failure_def Let_def split: sum.splits)

lemma prepare_steps:
  assumes inv: "pool_inv p" and r: "r \<in> set (po_tasks p)" and c: "vr_completion r"
  shows "pool_steps p (prepare pe b r p) \<and> po_tasks (prepare pe b r p) = remove1 r (po_tasks p)
    \<and> same_config p (prepare pe b r p)"
proof -
  obtain operation r' where o: "prepare_operation pe r = (operation, r')" by fastforce
  note spec = prepare_operation_spec [OF o]
  have "task_ok r" using inv r by (auto simp: pool_inv_def list_all_iff)
  then have "same_slot r r'" using spec by (simp add: same_slot_def task_ok_def)
  then have 1: "pool_step p (replace_task r r' p)" by (rule pool_step.Change [OF r])
  have r': "r' \<in> set (po_tasks (replace_task r r' p))" "vr_completion r'" using spec c by (simp_all add: replace_task_def)
  show ?thesis
  proof (cases "operation = Inr True \<and> \<not> preparation_stopped (replace_task r r' p)")
    case True
    then have "pool_step (replace_task r r' p) (prepare pe b r p)"
      using pool_step.Publish [OF r'] spec(4) by (simp add: prepare_def o prepare_end_def)
    then show ?thesis using 1 True
      by (auto simp: prepare_def o prepare_end_def publish_ready_def Let_def replace_task_def same_config_def)
  next
    case False
    let ?q = "preparation_failed (pe_now pe) operation (replace_task r r' p)"
    have "pool_step (replace_task r r' p) ?q" by (rule pool_step.Aside [OF preparation_failed_core])
    moreover have "pool_step ?q (res_finish r' ?q)" using r' by (intro pool_step.Finish) simp
    ultimately have "pool_steps p (res_finish r' ?q)" using 1
      by (meson converse_rtranclp_into_rtranclp r_into_rtranclp)
    then show ?thesis using False by (auto simp: prepare_def o prepare_end_def replace_task_def same_config_def)
  qed
qed

lemma stop_preparing_simps [simp]:
  "po_tasks (stop_preparing p) = po_tasks p" "po_budget (stop_preparing p) = po_budget p"
  "po_capacity (stop_preparing p) = po_capacity p" "po_stop (stop_preparing p) = po_stop p"
  "sl_ready (po_slots (stop_preparing p)) = sl_ready (po_slots p)"
  "sl_retained (po_slots (stop_preparing p)) = sl_retained (po_slots p)"
  "sl_occupied (po_slots (stop_preparing p)) = sl_occupied (po_slots p)"
  "sl_preparing (po_slots (stop_preparing p)) = map_option (\<lambda>pr. pr\<lparr>pr_stop := True\<rparr>) (sl_preparing (po_slots p))"
  by (simp_all add: stop_preparing_def)

text \<open>Cancelling ends the preparation, frees its slot and touches nothing else.\<close>

lemma cancel_preparing_spec:
  fixes pe :: prep_env and b :: budget
  assumes inv: "pool_inv p"
  defines "q \<equiv> cancel_preparing pe b p"
  shows "pool_steps p q" "po_tasks q = live p" "same_config p q" "sl_preparing (po_slots q) = None"
    "sl_ready (po_slots q) = sl_ready (po_slots p)" "sl_retained (po_slots q) = sl_retained (po_slots p)"
proof -
  have "pool_steps p q \<and> po_tasks q = live p \<and> same_config p q \<and> sl_preparing (po_slots q) = None
    \<and> sl_ready (po_slots q) = sl_ready (po_slots p) \<and> sl_retained (po_slots q) = sl_retained (po_slots p)"
  proof (cases "sl_preparing (po_slots p)")
    case None
    then show ?thesis using pool_inv_idle [OF inv] by (simp add: q_def cancel_preparing_def same_config_def)
  next
    case (Some pr)
    obtain r where r: "filter vr_completion (po_tasks p) = [r]" "vr_slot r = pr_slot pr" "vr_completion r" "r \<in> set (po_tasks p)"
      using pool_inv_preparing [OF inv Some] by blast
    have "List.find (\<lambda>r. vr_completion r \<and> vr_slot r = pr_slot pr) (po_tasks p) = Some r"
    proof (cases "List.find (\<lambda>r. vr_completion r \<and> vr_slot r = pr_slot pr) (po_tasks p)")
      case None
      then show ?thesis using r by (auto simp: find_None_iff)
    next
      case (Some x)
      then have "x \<in> set (po_tasks p)" "vr_completion x" by (auto simp: find_Some_iff)
      then have "x \<in> set (filter vr_completion (po_tasks p))" by simp
      then show ?thesis using r(1) Some by (simp del: set_filter)
    qed
    then have q: "q = prepare pe b r (stop_preparing p)" using Some by (simp add: q_def cancel_preparing_def)
    have step: "pool_step p (stop_preparing p)" by (rule pool_step.Cancel)
    note inv1 = pool_inv_step [OF step inv]
    have P: "pool_steps (stop_preparing p) q" "po_tasks q = remove1 r (po_tasks p)" "same_config p q"
      using prepare_steps [OF inv1, of r pe b] r q by (simp_all add: same_config_def)
    moreover have "sl_preparing (po_slots q) = None \<and> sl_ready (po_slots q) = sl_ready (po_slots p)
        \<and> sl_retained (po_slots q) = sl_retained (po_slots p)"
    proof -
      obtain operation r' where o: "prepare_operation pe r = (operation, r')" by fastforce
      have "preparation_stopped (replace_task r r' (stop_preparing p))"
        using Some by (simp add: preparation_stopped_def replace_task_def)
      then show ?thesis using Some r prepare_operation_spec [OF o]
        by (simp add: q prepare_def o prepare_end_def preparation_failed_def res_finish_def replace_task_def)
    qed
    ultimately show ?thesis using step remove1_only [OF r(1)]
      by (auto simp: live_def intro: converse_rtranclp_into_rtranclp)
  qed
  then show "pool_steps p q" "po_tasks q = live p" "same_config p q" "sl_preparing (po_slots q) = None"
    "sl_ready (po_slots q) = sl_ready (po_slots p)" "sl_retained (po_slots q) = sl_retained (po_slots p)" by blast+
qed

section \<open>Admission\<close>

text \<open>A reservation as admission hands it out.\<close>

definition granted_ok :: "vm_reservation \<Rightarrow> bool" where
  "granted_ok r =
     (\<not> vr_completion r \<and> (vr_prepared r = None \<longrightarrow> vr_anonymous r = None)
      \<and> (vr_prepared r \<noteq> None \<longrightarrow> vr_vm r \<noteq> None)
      \<and> (vr_resumed r \<longrightarrow> vr_vm r \<noteq> None \<and> vr_owner r \<noteq> None \<and> vr_anonymous r = None \<and> vr_prepared r = None))"

definition granted :: "('e, vm_reservation option) result \<Rightarrow> vm_reservation list" where
  "granted res = (case res of Inr (Some r) \<Rightarrow> [r] | _ \<Rightarrow> [])"

lemma granted_simps [simp]: "granted (Inl e) = []" "granted (Inr None) = []" "granted (Inr (Some r)) = [r]"
  by (simp_all add: granted_def)

definition grants :: "pool \<Rightarrow> (svc_error, vm_reservation option) result \<times> pool \<Rightarrow> bool" where
  "grants p out =
     (pool_steps p (snd out) \<and> same_config p (snd out) \<and> po_tasks (snd out) = granted (fst out) @ po_tasks p
      \<and> list_all granted_ok (granted (fst out)))"

lemma reclaims_grants: "reclaims p q \<Longrightarrow> granted res = [] \<Longrightarrow> grants p (res, q)"
  by (simp add: grants_def reclaims_def same_config_def)

lemma same_config_trans: "same_config p q \<Longrightarrow> same_config q r \<Longrightarrow> same_config p r"
  by (simp add: same_config_def)

lemma grants_after: "reclaims p q \<Longrightarrow> grants q out \<Longrightarrow> grants p out"
  by (auto simp: grants_def reclaims_def same_config_def)

lemma grants_none: "grants p (res, q) \<Longrightarrow> granted res = [] \<Longrightarrow> reclaims p q"
  by (simp add: grants_def reclaims_def same_config_def)

lemma grants_next: "grants p (Inr None, q) \<Longrightarrow> grants q out \<Longrightarrow> grants p out"
  using grants_none [of p "Inr None" q] grants_after [of p q out] by simp

lemma claim_retained_grants:
  assumes inv: "pool_inv p"
  shows "grants p (claim_retained ob pn p)"
proof (cases "take_retained (\<lambda>idle. rt_run idle = plan_run_id pn) p")
  case (Pair found p1)
  show ?thesis
  proof (cases found)
    case None
    then have "p1 = p" using Pair by (simp add: take_retained_None)
    then show ?thesis using Pair None by (simp add: claim_retained_def grants_def same_config_def)
  next
    case (Some idle)
    note step = take_retained_step [OF Pair [unfolded Some]]
    let ?r = "rt_reservation idle" and ?r' = "(rt_reservation idle)\<lparr>vr_resumed := True, vr_retained_budget := Some (rt_budget idle)\<rparr>"
    have keep: "keepable ?r" using inv step by (auto simp: pool_inv_def list_all_iff)
    have 1: "reclaims p (res_finish ?r p1)" by (rule reclaims_retained [OF Pair [unfolded Some]])
    have "pool_step p1 (push_retained idle p1)" using step keep by (intro pool_step.Retain) simp_all
    then have 2: "reclaims p (push_retained idle p1)"
      using step by (auto simp: reclaims_def push_retained_def intro: converse_rtranclp_into_rtranclp)
    have "pool_step p1 (replace_task ?r ?r' p1)"
      using step keep by (intro pool_step.Change) (simp_all add: same_slot_def keepable_def task_ok_def)
    then have 3: "grants p (Inr (Some ?r'), replace_task ?r ?r' p1)"
      using step keep by (auto simp: grants_def replace_task_def same_config_def granted_ok_def keepable_def
          intro: converse_rtranclp_into_rtranclp)
    show ?thesis using 3 by (auto simp: claim_retained_def Pair Some Let_def intro!: reclaims_grants 1 2 split: sum.split)
  qed
qed

lemma claim_ready_grants:
  assumes inv: "pool_inv p"
  shows "grants p (claim_ready ob elig fresh pn p)"
proof (cases "pop_ready p")
  case (Pair found p1)
  show ?thesis
  proof (cases found)
    case None
    then have "p1 = p" using Pair by (simp add: pop_ready_None)
    then show ?thesis using Pair None
      by (auto simp: claim_ready_def intro!: reclaims_grants split: sum.split)
  next
    case (Some r)
    note step = pop_ready_step [OF Pair [unfolded Some]]
    have "ready_ok r" using inv step by (auto simp: pool_inv_def list_all_iff)
    then have "grants p (Inr (Some r), p1)"
      using step by (auto simp: grants_def same_config_def granted_ok_def ready_ok_def)
    then show ?thesis
      by (auto simp: claim_ready_def Pair Some intro!: reclaims_grants reclaims_ready [OF Pair [unfolded Some]] split: sum.split)
  qed
qed

definition as_grant :: "(svc_error, vm_reservation) result \<times> pool \<Rightarrow> (svc_error, vm_reservation option) result \<times> pool" where
  "as_grant out = (case fst out of Inl e \<Rightarrow> Inl e | Inr r \<Rightarrow> Inr (Some r), snd out)"

lemma as_grant_simps [simp]: "as_grant (Inl e, q) = (Inl e, q)" "as_grant (Inr r, q) = (Inr (Some r), q)"
  by (simp_all add: as_grant_def)

lemma grant_slot_grants: "grants p (as_grant (grant_slot ob p))"
proof -
  have "grants p (as_grant (Inr (new_reservation slot), p\<lparr>po_slots := s, po_tasks := new_reservation slot # po_tasks p\<rparr>))"
    if "slots_reserve (po_capacity p) (po_slots p) = (Some slot, s)" for slot s
    using pool_step.Grant [OF that]
    by (auto simp: grants_def step_grant_def same_config_def granted_ok_def new_reservation_def)
  moreover have "p\<lparr>po_slots := s\<rparr> = p" if "slots_reserve (po_capacity p) (po_slots p) = (None, s)" for s
    using slots_reserve_None [OF that] by simp
  ultimately show ?thesis
    by (auto simp: grant_slot_def intro!: reclaims_grants split: sum.split prod.split option.split)
qed

lemma pool_reserve_grants:
  assumes inv: "pool_inv p" and up: "\<not> po_stop p"
  shows "grants (cancel_preparing pe b p) (as_grant (pool_reserve pe b env elig fresh pn p))"
proof -
  let ?p0 = "cancel_preparing pe b p"
  obtain r1 p1 where m1: "make_room False (env 0) 0 ?p0 = (r1, p1)" by fastforce
  have R1: "reclaims ?p0 p1" using reclaims_make_room [of ?p0 False "env 0" 0] m1 by simp
  have I1: "pool_inv p1" using R1 cancel_preparing_spec(1) [OF inv, of pe b] inv by (auto simp: reclaims_def dest: pool_inv_steps)
  obtain r2 p2 where m2: "claim_retained (env 1 0) pn p1 = (r2, p2)" by fastforce
  have G2: "grants p1 (r2, p2)" using claim_retained_grants [OF I1, of "env 1 0" pn] m2 by simp
  have I2: "pool_inv p2" using G2 I1 by (auto simp: grants_def dest: pool_inv_steps)
  obtain r3 p3 where m3: "claim_ready (env 2 0) elig fresh pn p2 = (r3, p3)" by fastforce
  have G3: "grants p2 (r3, p3)" using claim_ready_grants [OF I2, of "env 2 0" elig fresh pn] m3 by simp
  obtain r4 p4 where m4: "make_room True (env 3) 0 p3 = (r4, p4)" by fastforce
  have R4: "reclaims p3 p4" using reclaims_make_room [of p3 True "env 3" 0] m4 by simp
  note G5 = grant_slot_grants [of p4 "env 4 0"]
  have A: "grants p3 (as_grant (case r4 of Inl e \<Rightarrow> (Inl e, p4) | Inr _ \<Rightarrow> grant_slot (env 4 0) p4))"
    using grants_after [OF R4 G5] R4 by (auto intro: reclaims_grants split: sum.split)
  have B: "grants p2 (as_grant (case r3 of Inl e \<Rightarrow> (Inl e, p3) | Inr (Some r) \<Rightarrow> (Inr r, p3)
      | Inr None \<Rightarrow> (case r4 of Inl e \<Rightarrow> (Inl e, p4) | Inr _ \<Rightarrow> grant_slot (env 4 0) p4)))"
    using G3 A by (auto intro: grants_next split: sum.split option.split)
  have C: "grants p1 (as_grant (case r2 of Inl e \<Rightarrow> (Inl e, p2) | Inr (Some r) \<Rightarrow> (Inr r, p2)
      | Inr None \<Rightarrow> (case r3 of Inl e \<Rightarrow> (Inl e, p3) | Inr (Some r) \<Rightarrow> (Inr r, p3)
      | Inr None \<Rightarrow> (case r4 of Inl e \<Rightarrow> (Inl e, p4) | Inr _ \<Rightarrow> grant_slot (env 4 0) p4))))"
    using G2 B by (auto intro: grants_next split: sum.split option.split)
  have "grants ?p0 (as_grant (case r1 of Inl e \<Rightarrow> (Inl e, p1) | Inr _ \<Rightarrow> (case r2 of Inl e \<Rightarrow> (Inl e, p2) | Inr (Some r) \<Rightarrow> (Inr r, p2)
      | Inr None \<Rightarrow> (case r3 of Inl e \<Rightarrow> (Inl e, p3) | Inr (Some r) \<Rightarrow> (Inr r, p3)
      | Inr None \<Rightarrow> (case r4 of Inl e \<Rightarrow> (Inl e, p4) | Inr _ \<Rightarrow> grant_slot (env 4 0) p4)))))"
    using grants_after [OF R1 C] R1 by (auto intro: reclaims_grants split: sum.split)
  then show ?thesis using up
    by (cases r1; cases r2; cases r3; cases r4) (simp_all add: pool_reserve_def m1 m2 m3 m4 del: One_nat_def split: option.splits)
qed

section \<open>Execution\<close>

lemma exec_bind_cases:
  "exec_bind m f = (case fst m of Inl e \<Rightarrow> (Inl e, fst (snd m), snd (snd m))
     | Inr x \<Rightarrow> (case f x (fst (snd m)) of (res, r', ds') \<Rightarrow> (res, r', snd (snd m) @ ds')))"
  by (simp add: exec_bind_def split: prod.split sum.split)

text \<open>What every part of the operation keeps.\<close>

definition exec_ok :: "vm_reservation \<Rightarrow> 'a exec \<Rightarrow> bool" where
  "exec_ok r out = (vr_slot (fst (snd out)) = vr_slot r \<and> vr_completion (fst (snd out)) = vr_completion r)"

lemma exec_ok_bind:
  assumes "exec_ok r m" "\<And>x r' ds. m = (Inr x, r', ds) \<Longrightarrow> exec_ok r' (f x r')"
  shows "exec_ok r (exec_bind m f)"
  using assms by (cases m) (auto simp: exec_bind_def exec_ok_def split: sum.split prod.split)

lemma exec_ok_parts:
  "exec_ok r (drop_stale_budget b r)" "exec_ok r (restore_cached xe pn b r)"
  "exec_ok r (drop_incompatible c r)" "exec_ok r (own_disk xe c r)" "exec_ok r (start_machine xe c r)"
  by (auto simp: exec_ok_def drop_stale_budget_def restore_cached_def drop_incompatible_def own_disk_def
      start_machine_def retire_anonymous_def Let_def split: sum.split option.split)

lemma execute_operation_ok: "exec_ok r (execute_operation xe pn b r)"
  unfolding execute_operation_def
  by (auto intro!: exec_ok_bind exec_ok_parts split: sum.split) (auto simp: exec_ok_def)

text \<open>A machine whose run ended has its disk, and no anonymous directory.\<close>

lemma exec_bind_Inr:
  "exec_bind m f = (Inr y, r', ds) \<longleftrightarrow>
     (\<exists>x r1 ds1 ds2. m = (Inr x, r1, ds1) \<and> f x r1 = (Inr y, r', ds2) \<and> ds = ds1 @ ds2)"
  by (cases m) (auto simp: exec_bind_def split: sum.splits prod.splits)

lemma own_disk_Inr:
  "own_disk xe c r = (Inr x, r', ds) \<Longrightarrow>
     ds = [] \<and> vr_owner r' \<noteq> None \<and> vr_vm r' = vr_vm r \<and> vr_prepared r' = vr_prepared r
     \<and> (if c then vr_anonymous r' = None else vr_anonymous r' = vr_anonymous r)"
  by (auto simp: own_disk_def Let_def split: if_splits option.splits sum.splits)

lemma start_machine_Inr:
  "start_machine xe c r = (Inr x, r', ds) \<Longrightarrow>
     ds = [] \<and> vr_owner r' = vr_owner r \<and> vr_anonymous r' = vr_anonymous r \<and> vr_prepared r' = vr_prepared r
     \<and> (if c then vr_vm r' = vr_vm r else vr_vm r' \<noteq> None)"
  by (auto simp: start_machine_def split: if_splits option.splits sum.splits)

lemma execute_compatible_prepared: "execute_compatible xe pn b r = Inr True \<Longrightarrow> vr_prepared r \<noteq> None"
  by (auto simp: execute_compatible_def split: option.splits if_splits)

definition staged_ok :: "vm_reservation \<Rightarrow> bool" where
  "staged_ok r = ((vr_prepared r = None \<longrightarrow> vr_anonymous r = None) \<and> (vr_prepared r \<noteq> None \<longrightarrow> vr_vm r \<noteq> None))"

lemma restore_cached_staged:
  "restore_cached xe pn b r = (Inr x, r', ds) \<Longrightarrow> staged_ok r \<Longrightarrow> staged_ok r' \<and> ds = [] \<and> vr_resumed r' = vr_resumed r"
  by (auto simp: restore_cached_def staged_ok_def split: if_splits sum.splits option.splits)

lemma drop_incompatible_staged:
  assumes "drop_incompatible c r = (Inr x, r', ds)" "staged_ok r"
  shows "if c then r' = r \<and> ds = [] else vr_anonymous r' = None"
  using assms by (auto simp: drop_incompatible_def retire_anonymous_def staged_ok_def split: if_splits)

lemma drop_stale_budget_simps:
  "vr_resumed r \<and> vr_retained_budget r \<noteq> b \<Longrightarrow> drop_stale_budget b r =
     (Inr (), (retire_anonymous r)\<lparr>vr_owner := None, vr_resumed := False, vr_retained_budget := None\<rparr>, discarded r)"
  "\<not> (vr_resumed r \<and> vr_retained_budget r \<noteq> b) \<Longrightarrow> drop_stale_budget b r = (Inr (), r, [])"
  by (auto simp: drop_stale_budget_def)

lemma execute_operation_Inr:
  assumes "execute_operation xe pn b r = (Inr status, r', ds)" "granted_ok r"
  shows "vr_vm r' \<noteq> None \<and> vr_owner r' \<noteq> None \<and> vr_anonymous r' = None"
proof -
  obtain pn' where lim: "execute_limits b pn = Inr pn'" and obj: "is_object (plan_storage pn)"
    using assms(1) by (auto simp: execute_operation_def split: if_splits sum.splits)
  obtain r0 ds0 ds1 where s: "drop_stale_budget b r = (Inr (), r0, ds0)"
    and run: "(if vr_resumed r0 then (case xe_resume_idle xe of Inl e \<Rightarrow> (Inl e, r0, []) | Inr _ \<Rightarrow> (xe_run xe, r0, []))
      else exec_bind (restore_cached xe pn' b r0) (\<lambda>_ r1. case execute_compatible xe pn' b r1 of Inl e \<Rightarrow> (Inl e, r1, [])
        | Inr c \<Rightarrow> exec_bind (drop_incompatible c r1) (\<lambda>_ r2. exec_bind (own_disk xe c r2) (\<lambda>_ r3.
            exec_bind (start_machine xe c r3) (\<lambda>_ r4. (xe_run xe, r4, [])))))) = (Inr status, r', ds1)"
    using assms(1) by (auto simp: execute_operation_def lim obj exec_bind_Inr)
  show ?thesis
  proof (cases "vr_resumed r0")
    case True
    then have "r0 = r" "r' = r" using s run by (auto simp: drop_stale_budget_def retire_anonymous_def split: if_splits sum.splits)
    then show ?thesis using True assms(2) by (simp add: granted_ok_def)
  next
    case False
    have "staged_ok r0" using s assms(2)
      by (auto simp: drop_stale_budget_def retire_anonymous_def staged_ok_def granted_ok_def split: if_splits)
    obtain x r1 ds2 ds3 where 1: "restore_cached xe pn' b r0 = (Inr x, r1, ds2)"
      and rest: "(case execute_compatible xe pn' b r1 of Inl e \<Rightarrow> (Inl e, r1, [])
        | Inr c \<Rightarrow> exec_bind (drop_incompatible c r1) (\<lambda>_ r2. exec_bind (own_disk xe c r2) (\<lambda>_ r3.
            exec_bind (start_machine xe c r3) (\<lambda>_ r4. (xe_run xe, r4, []))))) = (Inr status, r', ds3)"
      using run False by (auto simp only: if_False exec_bind_Inr [where m = "restore_cached xe pn' b r0"])
    obtain c where c: "execute_compatible xe pn' b r1 = Inr c"
      using rest by (cases "execute_compatible xe pn' b r1") auto
    obtain r2 ds4 r3 ds5 ds6 where 2: "drop_incompatible c r1 = (Inr (), r2, ds4)" "own_disk xe c r2 = (Inr (), r3, ds5)"
      and 3: "start_machine xe c r3 = (Inr (), r', ds6)"
      using rest by (auto simp: c exec_bind_Inr)
    have st: "staged_ok r1" using restore_cached_staged [OF 1 \<open>staged_ok r0\<close>] by simp
    have "vr_prepared r1 \<noteq> None" if c using execute_compatible_prepared [of xe pn' b r1] c that by simp
    then show ?thesis
      using drop_incompatible_staged [OF 2(1) st] own_disk_Inr [OF 2(2)] start_machine_Inr [OF 3] st
      by (cases c) (auto simp: staged_ok_def)
  qed
qed

text \<open>The task gives its reservation up, by finishing or by retaining it.\<close>

definition consumes :: "vm_reservation \<Rightarrow> pool \<Rightarrow> pool \<Rightarrow> bool" where
  "consumes r p q = (pool_steps p q \<and> same_config p q \<and> po_tasks q = remove1 r (po_tasks p))"

lemma consumes_finish: "r \<in> set (po_tasks p) \<Longrightarrow> consumes r p (res_finish r p)"
  using pool_step.Finish [of r p] by (auto simp: consumes_def same_config_def)

lemma consumes_after: "reclaims p p1 \<Longrightarrow> consumes r p1 q \<Longrightarrow> consumes r p q"
  by (auto simp: consumes_def reclaims_def same_config_def)

lemma consumes_retain:
  assumes "r \<in> set (po_tasks p)" "keepable (rt_reservation idle)" "same_slot r (rt_reservation idle)"
  shows "consumes r p (push_retained idle (replace_task r (rt_reservation idle) p))"
proof -
  have "pool_step p (replace_task r (rt_reservation idle) p)" using assms by (intro pool_step.Change)
  moreover have "pool_step (replace_task r (rt_reservation idle) p) (push_retained idle (replace_task r (rt_reservation idle) p))"
    using assms by (intro pool_step.Retain) (simp_all add: replace_task_def)
  ultimately have "pool_steps p (push_retained idle (replace_task r (rt_reservation idle) p))"
    by (meson converse_rtranclp_into_rtranclp r_into_rtranclp)
  then show ?thesis by (simp add: consumes_def same_config_def push_retained_def replace_task_def)
qed

lemma consumes_retain_or_finish:
  assumes r: "r \<in> set (po_tasks p)" and k: "keepable (r\<lparr>vr_prepared := None, vr_resumed := False\<rparr>)"
  shows "consumes r p (retain_or_finish xe env b pn r volume p)"
proof -
  let ?r = "r\<lparr>vr_prepared := None, vr_resumed := False\<rparr>"
  have same: "same_slot r ?r" by (simp add: same_slot_def task_ok_def)
  have T: "r \<in> set (po_tasks (make_space bytes rb (env 2) 0 p))" for bytes rb
    using r reclaims_make_space [of p bytes rb "env 2" 0] by (simp add: reclaims_def)
  have "consumes r p (push_retained \<lparr>rt_run = run, rt_budget = rb, rt_key = key, rt_expires = at, rt_reservation = ?r, rt_volume = v\<rparr>
      (replace_task r ?r (make_space bytes rb (env 2) 0 p)))" for run rb key at v bytes
    using consumes_after [OF reclaims_make_space consumes_retain [OF T,
          of "\<lparr>rt_run = run, rt_budget = rb, rt_key = key, rt_expires = at, rt_reservation = ?r, rt_volume = v\<rparr>"]] k same
    by simp
  moreover have "consumes r p (res_finish r (make_space bytes rb (env 2) 0 p))" for bytes rb
    by (rule consumes_after [OF reclaims_make_space consumes_finish [OF T]])
  ultimately show ?thesis using consumes_finish [OF r]
    unfolding retain_or_finish_def Let_def by (simp split: option.split)
qed

lemma execute_end_consumes:
  assumes "r \<in> set (po_tasks p)" "\<not> vr_completion r"
    and "\<And>status. res = Inr status \<Longrightarrow> vr_vm r \<noteq> None \<and> vr_owner r \<noteq> None \<and> vr_anonymous r = None"
  shows "consumes r p (snd (execute_end xe env b pn res r p))"
proof (cases "res = Inr 0")
  case True
  then have "keepable (r\<lparr>vr_prepared := None, vr_resumed := False\<rparr>)" using assms by (simp add: keepable_def)
  then show ?thesis using consumes_finish [OF assms(1)] consumes_retain_or_finish [OF assms(1)]
    by (auto simp: execute_end_def split: sum.split)
next
  case False
  then show ?thesis using consumes_finish [OF assms(1)] by (simp add: execute_end_def)
qed

lemma execute_consumes:
  assumes r: "r \<in> set (po_tasks p)" and ok: "granted_ok r"
  shows "consumes r p (snd (snd (execute stopped xe env pn r p)))"
proof (cases stopped)
  case True
  then show ?thesis using consumes_finish [OF r] by (simp add: execute_def)
next
  case False
  obtain res r' ds where o: "execute_operation xe pn (po_budget p) r = (res, r', ds)" by (metis prod_cases3)
  have same: "same_slot r r'" "\<not> vr_completion r'"
    using execute_operation_ok [of r xe pn "po_budget p"] ok
    by (simp_all add: o exec_ok_def same_slot_def task_ok_def granted_ok_def)
  have "vr_vm r' \<noteq> None \<and> vr_owner r' \<noteq> None \<and> vr_anonymous r' = None" if "res = Inr status" for status
    using execute_operation_Inr [OF o [unfolded that] ok] .
  then have C: "consumes r' (replace_task r r' p) (snd (execute_end xe env b' pn' res r' (replace_task r r' p)))" for b' pn'
    using same by (intro execute_end_consumes) (simp_all add: replace_task_def)
  have "consumes r p q" if "consumes r' (replace_task r r' p) q" for q
    using that pool_step.Change [OF r same(1)]
    by (auto simp: consumes_def same_config_def replace_task_def intro: converse_rtranclp_into_rtranclp)
  then show ?thesis using C False by (simp add: execute_def o Let_def split: prod.split) (metis snd_conv)
qed

section \<open>All operations\<close>

text \<open>
  What can happen to the pool, one operation after the other; \<open>Run\<close>, \<open>Prepared\<close> and \<open>Dropped\<close> name the slot
  of the reservation that a task holds.
\<close>

datatype pool_op =
    Reserve prep_env budget "nat \<Rightarrow> nat \<Rightarrow> obs" "(svc_error, bool) result" "(svc_error, bool) result" plan
  | Run nat bool exec_env "nat \<Rightarrow> nat \<Rightarrow> obs" plan
  | Prepared nat prep_env budget
  | Dropped nat
  | Evict obs string
  | Maintain_Retained "nat \<Rightarrow> obs"
  | Maintain_Ready nat string prep_env "nat \<Rightarrow> nat \<Rightarrow> obs"
  | Configure prep_env budget "nat \<Rightarrow> obs" kernel "(svc_error, unit) result" budget
  | Drain prep_env budget "nat \<Rightarrow> obs"

definition task_at :: "nat \<Rightarrow> bool \<Rightarrow> pool \<Rightarrow> vm_reservation option" where
  "task_at slot preparing p = List.find (\<lambda>r. vr_slot r = slot \<and> vr_completion r = preparing) (po_tasks p)"

definition with_task :: "nat \<Rightarrow> bool \<Rightarrow> (vm_reservation \<Rightarrow> pool) \<Rightarrow> pool \<Rightarrow> pool" where
  "with_task slot preparing f p = (case task_at slot preparing p of None \<Rightarrow> p | Some r \<Rightarrow> f r)"

fun run_op :: "pool_op \<Rightarrow> pool \<Rightarrow> pool" where
  "run_op (Reserve pe b env elig fresh pn) p = snd (pool_reserve pe b env elig fresh pn p)"
| "run_op (Run slot stopped xe env pn) p = with_task slot False (\<lambda>r. snd (snd (execute stopped xe env pn r p))) p"
| "run_op (Prepared slot pe b) p = with_task slot True (\<lambda>r. prepare pe b r p) p"
| "run_op (Dropped slot) p = with_task slot False (\<lambda>r. res_finish r p) p"
| "run_op (Evict ob run) p = snd (evict_conversation ob run p)"
| "run_op (Maintain_Retained env) p = snd (maintain_retained env p)"
| "run_op (Maintain_Ready now directory pe env) p = snd (maintain_ready now directory pe env p)"
| "run_op (Configure pe pb env k written next) p = snd (pool_configure pe pb env k written next p)"
| "run_op (Drain pe b env) p = pool_drain pe b env p"

definition seq_inv :: "pool \<Rightarrow> bool" where
  "seq_inv p = (pool_inv p \<and> list_all granted_ok (live p))"

definition evolves :: "pool \<Rightarrow> pool \<Rightarrow> bool" where
  "evolves p q \<longleftrightarrow> pool_steps p q \<and> (\<forall>r\<in>set (live q). r \<in> set (live p) \<or> granted_ok r)"

lemma evolves_refl [simp]: "evolves p p"
  by (simp add: evolves_def)

lemma evolves_trans: "evolves p q \<Longrightarrow> evolves q r \<Longrightarrow> evolves p r"
  by (auto simp: evolves_def intro: rtranclp_trans)

lemma evolves_seq_inv: "evolves p q \<Longrightarrow> seq_inv p \<Longrightarrow> seq_inv q"
  by (auto simp: evolves_def seq_inv_def list_all_iff intro: pool_inv_steps)

lemma evolves_reclaims: "reclaims p q \<Longrightarrow> evolves p q"
  by (simp add: evolves_def reclaims_def live_def)

lemma evolves_consumes: "consumes r p q \<Longrightarrow> evolves p q"
  using set_remove1_subset by (force simp: evolves_def consumes_def live_def)

lemma evolves_aside: "pool_core q = pool_core p \<Longrightarrow> evolves p q"
  by (auto simp: evolves_def live_def pool_core_def intro!: r_into_rtranclp pool_step.Aside)

lemma evolves_cancel: "pool_inv p \<Longrightarrow> evolves p (cancel_preparing pe b p)"
  using cancel_preparing_spec(1,2) [of p pe b] by (auto simp: evolves_def live_def)

lemma evolves_retire_idle: "pool_inv p \<Longrightarrow> evolves p (retire_idle pe b shutdown env p)"
  unfolding retire_idle_def
  by (rule evolves_trans [OF evolves_cancel
        evolves_reclaims [OF reclaims_trans [OF reclaims_retire_retained reclaims_retire_ready]]])

lemma evolves_reserve:
  assumes "pool_inv p"
  shows "evolves p (snd (pool_reserve pe b env elig fresh pn p))"
proof (cases "po_stop p")
  case True
  then show ?thesis by (simp add: pool_reserve_def)
next
  case False
  let ?out = "as_grant (pool_reserve pe b env elig fresh pn p)"
  have "evolves (cancel_preparing pe b p) (snd ?out)"
    using pool_reserve_grants [OF assms False, of pe b env elig fresh pn]
    by (auto simp: grants_def evolves_def live_def list_all_iff)
  then show ?thesis using evolves_trans [OF evolves_cancel [OF assms]] by (simp add: as_grant_def)
qed

lemma evolves_start_preparing: "evolves p (start_preparing now directory p)"
proof -
  obtain allowed s where w: "warming_allowed now (po_slots p) = (allowed, s)" by fastforce
  let ?p = "p\<lparr>po_slots := s\<rparr>"
  have flags: "evolves p ?p" using w
    by (intro evolves_aside) (auto simp: warming_allowed_def pool_core_def Let_def split: if_splits)
  have same: "sl_preparing s = sl_preparing (po_slots p)" using w by (auto simp: warming_allowed_def Let_def split: if_splits)
  obtain slot s1 where res: "slots_reserve (po_capacity p) s = (slot, s1)" by fastforce
  show ?thesis
  proof (cases slot)
    case None
    then show ?thesis using flags res slots_reserve_None [of "po_capacity p" s s1] by (auto simp: start_preparing_def w)
  next
    case (Some k)
    have "evolves ?p (step_prepare directory k s1 ?p)" if "sl_preparing (po_slots p) = None"
      using pool_step.Prepare [of ?p k s1 directory] that same res Some
      by (auto simp: evolves_def live_def step_prepare_def)
    then show ?thesis using flags evolves_trans [OF flags] res Some
      by (auto simp: start_preparing_def w step_prepare_def)
  qed
qed

lemma evolves_maintain_ready:
  assumes "pool_inv p"
  shows "evolves p (snd (maintain_ready now directory pe env p))"
  using evolves_retire_idle [OF assms] evolves_reclaims [OF reclaims_shrink_ready]
    evolves_trans [OF evolves_reclaims [OF reclaims_shrink_ready] evolves_start_preparing]
  by (auto simp: maintain_ready_def Let_def split: option.split sum.split)

lemma evolves_configure:
  assumes "pool_inv p"
  shows "evolves p (snd (pool_configure pe pb env k written next p))"
proof -
  have "evolves p q" if "pool_core q = pool_core (retire_idle pe pb False env p)" for q
    by (rule evolves_trans [OF evolves_retire_idle [OF assms] evolves_aside [OF that]])
  then show ?thesis
    by (simp add: pool_configure_def Let_def pool_core_def split: sum.split option.split prod.split)
qed

lemma evolves_evict: "evolves p (snd (evict_conversation ob run p))"
  by (auto simp: evict_conversation_def take_retained_None intro: evolves_reclaims reclaims_retained
      split: option.split prod.split)

lemma task_atD: "task_at slot preparing p = Some r \<Longrightarrow> r \<in> set (po_tasks p) \<and> vr_completion r = preparing"
  by (auto simp: task_at_def find_Some_iff)

lemma evolves_prepare:
  assumes "pool_inv p" "r \<in> set (po_tasks p)" "vr_completion r"
  shows "evolves p (prepare pe b r p)"
  using prepare_steps [OF assms, of pe b] by (intro evolves_consumes [of r]) (simp add: consumes_def)

lemma run_op_evolves:
  assumes "seq_inv p"
  shows "evolves p (run_op op p)"
proof (cases op)
  case (Run slot stopped xe env pn)
  have "evolves p (snd (snd (execute stopped xe env pn r p)))" if "task_at slot False p = Some r" for r
    using assms task_atD [OF that]
    by (intro evolves_consumes [OF execute_consumes]) (auto simp: seq_inv_def list_all_iff live_def)
  then show ?thesis by (simp add: Run with_task_def split: option.split)
next
  case (Prepared slot pe b)
  then show ?thesis using assms task_atD [of slot True p]
    by (auto simp: with_task_def seq_inv_def intro!: evolves_prepare split: option.split)
next
  case (Dropped slot)
  then show ?thesis using task_atD [of slot False p]
    by (auto simp: with_task_def intro!: evolves_consumes consumes_finish split: option.split)
next
  case (Maintain_Retained env)
  then show ?thesis
    by (auto simp: maintain_retained_def intro!: evolves_reclaims reclaims_maintain_loop split: option.split)
next
  case (Drain pe b env)
  let ?p = "p\<lparr>po_stop := True\<rparr>"
  have core: "pool_core ?p = pool_core p" by (simp add: pool_core_def)
  then have "pool_inv ?p" using assms pool_inv_core [OF core] by (simp add: seq_inv_def)
  from evolves_trans [OF evolves_aside [OF core] evolves_retire_idle [OF this]] show ?thesis
    by (simp add: Drain pool_drain_def)
qed (use assms in \<open>simp_all add: seq_inv_def evolves_reserve evolves_evict evolves_maintain_ready evolves_configure\<close>)

text \<open>
  C11: each operation of the pool (admission, execution, the end of a preparation, dropping a
  reservation, eviction, both maintenance passes, a new budget, draining), whatever it observes on the way
  and however it fails, is a sequence of critical sections, and leaves a pool in which the reservations of
  running tasks are as admission hands them out.
\<close>

theorem pool_operations_refine:
  assumes "seq_inv p"
  shows "pool_steps p (run_op op p) \<and> seq_inv (run_op op p)"
  using run_op_evolves [OF assms] evolves_seq_inv [OF run_op_evolves [OF assms] assms] by (simp add: evolves_def)

text \<open>A pool of two slots that has just started, and a node at rest.\<close>

definition idle_pool :: pool where
  "idle_pool =
     \<lparr>po_capacity = 2, po_budget = None, po_cgroup = None, po_hardware = None, po_warm_enabled = True,
      po_warm_capacity = 1, po_retention = secs 180,
      po_slots = \<lparr>sl_occupied = [], sl_ready = [], sl_retained = [], sl_preparing = None, sl_retry_after = None,
                  sl_warm_disabled = False, sl_warm_failures = 0, sl_warm_circuit_open = False\<rparr>,
      po_stop = False, po_tasks = []\<rparr>"

definition calm_obs :: obs where
  "calm_obs =
     \<lparr>ob_readings = \<lparr>rd_memory = Inr 0, rd_disk = Inr 0, rd_space = Inr (2 ^ 40, 2 ^ 39), rd_policy = Inr None\<rparr>,
      ob_status = (\<lambda>_. None), ob_allocated = (\<lambda>_. None), ob_exited = (\<lambda>_. False), ob_dirty = (\<lambda>_. Some 0),
      ob_now = 0\<rparr>"

definition demo_budget :: budget where
  "demo_budget = \<lparr>bg_slots = 2, bg_limits = \<lparr>rs_cpu = 2, rs_memory_mi_b = 4096, rs_disk_mi_b = 65536\<rparr>\<rparr>"

definition demo_prep :: prep_env where
  "demo_prep = \<lparr>pe_template = Inl (Internal []), pe_bootstrap = Inr (), pe_boot = Inl (Internal []),
                pe_warm_codex = Inr False, pe_now = 0\<rparr>"

lemma pool_new_idle: "pool_new 2 Not_Present Not_Present Not_Present = Inr idle_pool"
  by (simp add: pool_new_def idle_pool_def ready_capacity_def retained_lifetime_def)

lemma pool_inv_new: "pool_new capacity warm ready_size retention = Inr p \<Longrightarrow> seq_inv p"
  by (auto simp: pool_new_def seq_inv_def pool_inv_def owners_def busy_slots_def preparing_ok_def live_def rbind_Inr_iff
      split: if_splits)

theorem pool_operations_refine_witness:
  "seq_inv (run_op (Reserve demo_prep demo_budget (\<lambda>_ _. calm_obs) (Inr False) (Inr False) JNull) idle_pool)"
  by (rule pool_operations_refine [OF pool_inv_new [OF pool_new_idle], THEN conjunct2])

end
