(* ===== verification/Vm_Pool_Props.thy ===== *)
theory Vm_Pool_Props
  imports Vm_Pool_Refine
begin

text \<open>
  Properties of the VM pool: who owns which slot, when a request is granted, that unpublished machines
  are kept, which directories an execution deletes, and how failing preparations back off.
\<close>

section \<open>Slots\<close>

interpretation vmp: step_system "\<lambda>p. \<exists>c w s t. pool_new c w s t = Inr p" pool_step pool_inv
  by unfold_locales (auto dest: pool_inv_new pool_inv_step simp: seq_inv_def)

lemma occupied_count_owners: "pool_inv p \<Longrightarrow> occupied_count (po_slots p) = length (owners p)"
  unfolding occupied_count_def length_busy_slots [symmetric] pool_inv_def
  by (metis distinct_busy_slots distinct_card)

lemma remove1_length: "x \<in> set xs \<Longrightarrow> Suc (length (remove1 x xs)) = length xs"
  by (induction xs) auto

lemma occupied_step:
  assumes "pool_inv p" "pool_step p p'"
  shows "occupied_count (po_slots p') \<le> max (occupied_count (po_slots p)) (po_capacity p)"
proof -
  note eq = occupied_count_owners [OF assms(1)] occupied_count_owners [OF pool_inv_step [OF assms(2,1)]]
  have grant: "length (owners q) = Suc (length (owners p))" "occupied_count (po_slots p) < po_capacity p"
    if "slots_reserve (po_capacity p) (po_slots p) = (Some slot, s)" "q = step_grant slot s p \<or> q = step_prepare d slot s p"
    for slot s q d
    using slots_reserve_Some [OF that(1)] that
    by (auto simp: owners_def step_grant_def step_prepare_def slots_reserve_def slot_available_def split: if_splits)
  have "length (owners p') \<le> length (owners p) \<or> occupied_count (po_slots p) < po_capacity p \<and> length (owners p') = Suc (length (owners p))"
    using assms(2)
  proof cases
    case (Pop_Ready r)
    then show ?thesis by (auto simp: owners_def pop_ready_def split: list.splits)
  next
    case (Grant slot s)
    then show ?thesis using grant [of slot s p'] by simp
  next
    case (Prepare slot s d)
    then show ?thesis using grant [of slot s p' d] by simp
  qed (auto simp: owners_def pool_core_def step_take_retained_def push_retained_def replace_task_def res_finish_def
      publish_ready_def Let_def stop_preparing_def dest!: remove1_length)
  then show ?thesis unfolding eq by linarith
qed

text \<open>
  C4: under every interleaving of critical sections, starting from a new pool, each occupied slot
  belongs to exactly one reservation (prepared, retained, or held by a task) and a slot of a reservation
  is never free, so that releasing a slot cannot be out of range; a preparation that is registered is
  held by exactly one task; and no step raises the number of occupied slots above the capacity.
\<close>

theorem slots_owned:
  assumes "pool_new capacity warm ready_size retention = Inr p0" "pool_steps p0 p"
  shows "distinct (owners p)
    \<and> (\<forall>k. k \<in> set (owners p) \<longleftrightarrow> 0 < k \<and> k - 1 < length (sl_occupied (po_slots p)) \<and> sl_occupied (po_slots p) ! (k - 1))
    \<and> occupied_count (po_slots p) = length (owners p)
    \<and> map vr_slot (filter vr_completion (po_tasks p)) = (case sl_preparing (po_slots p) of None \<Rightarrow> [] | Some pr \<Rightarrow> [pr_slot pr])
    \<and> (\<forall>p'. pool_step p p' \<longrightarrow> occupied_count (po_slots p') \<le> max (occupied_count (po_slots p)) (po_capacity p))"
proof -
  have inv: "pool_inv p" by (rule vmp.reachable_inv [OF _ assms(2)]) (use assms(1) in blast)
  then have "distinct (owners p)" "set (owners p) = set (busy_slots (sl_occupied (po_slots p)))"
    "preparing_ok (sl_preparing (po_slots p)) (po_tasks p)" by (simp_all add: pool_inv_def)
  then show ?thesis
    using occupied_count_owners [OF inv] occupied_step [OF inv] by (simp add: in_busy_slots preparing_ok_def)
qed

theorem slots_owned_witness:
  "distinct (owners (run_op (Reserve demo_prep demo_budget (\<lambda>_ _. calm_obs) (Inr False) (Inr False) JNull) idle_pool))"
  using slots_owned [OF pool_new_idle,
      of "run_op (Reserve demo_prep demo_budget (\<lambda>_ _. calm_obs) (Inr False) (Inr False) JNull) idle_pool"]
    run_op_evolves [OF pool_inv_new [OF pool_new_idle]]
  by (simp add: evolves_def del: run_op.simps)

section \<open>Admission\<close>

lemma pool_usage_cong: "po_budget p = po_budget q \<Longrightarrow> pool_usage rd p = pool_usage rd q"
  by (simp add: pool_usage_def)

lemma length_filter_split: "length (filter P xs) + length (filter (\<lambda>x. \<not> P x) xs) = length xs"
  by (rule sum_length_filter_compl)

text \<open>How many retained machines have unpublished writes at some observation.\<close>

definition pinned_count :: "(nat \<Rightarrow> obs) \<Rightarrow> pool \<Rightarrow> nat" where
  "pinned_count env p = length (filter (\<lambda>idle. \<exists>i. publication_pending (env i) idle) (sl_retained (po_slots p)))"

lemma take_retained_pinned: "take_retained P p = (Some idle, p1) \<Longrightarrow> pinned_count env p1 \<le> pinned_count env p"
  by (auto simp: take_retained_def pinned_count_def dest!: take_first_split split: option.splits)

lemma take_retained_ready: "take_retained P p = (found, p1) \<Longrightarrow> sl_ready (po_slots p1) = sl_ready (po_slots p)"
  by (auto simp: take_retained_def split: option.splits)

lemma pinned_count_finish [simp]: "pinned_count env (res_finish r p) = pinned_count env p"
  by (simp add: pinned_count_def)

lemma take_idle_pinned: "take_idle ob p = (Some r, p1) \<Longrightarrow> pinned_count env p1 \<le> pinned_count env p"
  by (auto simp: take_idle_def take_retained_None pinned_count_def pop_ready_def
      dest: take_retained_pinned [of _ _ _ _ env, unfolded pinned_count_def] split: prod.splits option.splits list.splits)

lemma take_idle_exists:
  assumes inv: "pool_inv p" and full: "\<not> slot_available (po_capacity p) (po_slots p)"
    and room: "length (po_tasks p) + pinned_count env p < po_capacity p"
  shows "\<exists>r p1. take_idle (env i) p = (Some r, p1)"
proof (rule ccontr)
  assume none: "\<nexists>r p1. take_idle (env i) p = (Some r, p1)"
  then have t: "take_retained (\<lambda>idle. \<not> publication_pending (env i) idle) p = (None, p)" "sl_ready (po_slots p) = []"
    by (auto simp: take_idle_def take_retained_None pop_ready_def split: prod.splits option.splits list.splits)
  then have "filter (\<lambda>idle. \<exists>i. publication_pending (env i) idle) (sl_retained (po_slots p)) = sl_retained (po_slots p)"
    by (auto simp: take_retained_None intro!: filter_True)
  then show False
    using full room t(2) occupied_count_owners [OF inv] by (simp add: pinned_count_def slot_available_def owners_def)
qed

lemma make_room_makes_room:
  assumes "pool_inv p" "\<And>i. \<exists>m. pool_usage (ob_readings (env i)) p = Inr (m, None)"
    and "length (po_tasks p) + pinned_count env p < po_capacity p"
  shows "\<exists>q. make_room True env i p = (Inr (), q) \<and> slot_available (po_capacity q) (po_slots q) \<and> po_budget q = po_budget p"
  using assms
proof (induction True env i p rule: make_room.induct)
  case (1 env i p)
  obtain m where use: "pool_usage (ob_readings (env i)) p = Inr (m, None)" using "1.prems"(2) by blast
  show ?case
  proof (cases "slot_available (po_capacity p) (po_slots p)")
    case True
    then show ?thesis by (subst make_room.simps) (simp add: use)
  next
    case False
    obtain r p1 where t: "take_idle (env i) p = (Some r, p1)"
      using take_idle_exists [OF "1.prems"(1) False "1.prems"(3)] by blast
    let ?q = "res_finish r p1"
    have R: "reclaims p ?q" by (rule take_idle_step [OF t])
    then have b: "po_budget ?q = po_budget p" and c: "po_capacity ?q = po_capacity p" and tk: "po_tasks ?q = po_tasks p"
      by (simp_all only: reclaims_def)
    have "pool_inv ?q" using R "1.prems"(1) by (auto simp: reclaims_def intro: pool_inv_steps)
    moreover have "\<exists>m. pool_usage (ob_readings (env j)) ?q = Inr (m, None)" for j
      using "1.prems"(2) [of j] pool_usage_cong [OF b] by simp
    moreover have "length (po_tasks ?q) + pinned_count env ?q < po_capacity ?q"
      unfolding c tk using "1.prems"(3) take_idle_pinned [OF t, of env] by simp
    ultimately have "\<exists>q. make_room True env (Suc i) ?q = (Inr (), q) \<and> slot_available (po_capacity q) (po_slots q)
        \<and> po_budget q = po_budget ?q"
      using "1.hyps" [OF use refl _ t [symmetric]] False t by simp
    then show ?thesis by (subst make_room.simps) (simp add: use False t del: res_finish_keeps, simp add: b [simplified])
  qed
qed

lemma make_room_calm: "pool_usage (ob_readings (env i)) p = Inr (m, None) \<Longrightarrow> make_room False env i p = (Inr (), p)"
  by (subst make_room.simps) simp

lemma claim_retained_answers:
  assumes calm: "\<exists>m. pool_usage (ob_readings ob) p = Inr (m, None)"
    and own: "\<And>idle. idle \<in> set (sl_retained (po_slots p)) \<Longrightarrow> rt_run idle = plan_run_id pn \<Longrightarrow> publication_pending ob idle \<Longrightarrow>
           \<exists>b. po_budget p = Some b \<and> retained_compatible ob idle pn b"
  shows "\<exists>found q. claim_retained ob pn p = (Inr found, q) \<and> pinned_count env q \<le> pinned_count env p"
proof (cases "take_retained (\<lambda>idle. rt_run idle = plan_run_id pn) p")
  case (Pair found p1)
  show ?thesis
  proof (cases found)
    case None
    then have "p1 = p" using Pair by (simp add: take_retained_None)
    then show ?thesis using Pair None by (simp add: claim_retained_def)
  next
    case (Some idle)
    note step = take_retained_step [OF Pair [unfolded Some]]
    have use: "\<exists>m. pool_usage (ob_readings ob) p1 = Inr (m, None)"
      using calm pool_usage_cong [of p1 p] step by simp
    have less: "pinned_count env p1 \<le> pinned_count env p" by (rule take_retained_pinned [OF Pair [unfolded Some]])
    show ?thesis
    proof (cases "\<exists>b. po_budget p = Some b \<and> retained_compatible ob idle pn b")
      case True
      then show ?thesis using use less step
        by (auto simp: claim_retained_def Pair Some Let_def pinned_count_def replace_task_def)
    next
      case False
      then have "\<not> publication_pending ob idle" using own [of idle] step by blast
      then show ?thesis using False less step
        by (auto simp: claim_retained_def Pair Some Let_def split: option.splits)
    qed
  qed
qed

lemma claim_ready_answers:
  assumes "\<exists>m. pool_usage (ob_readings ob) p = Inr (m, None)"
  shows "\<exists>found q. claim_ready ob (Inr e) (Inr f) pn p = (Inr found, q) \<and> (found = None \<longrightarrow> q = p)"
proof -
  have "\<exists>m. pool_usage (ob_readings ob) p1 = Inr (m, None)" if "pop_ready p = (Some r, p1)" for r p1
    using assms pool_usage_cong [of p1 p] pop_ready_step [OF that] by simp
  then show ?thesis
    by (cases "pop_ready p") (auto simp: claim_ready_def can_claim_def pop_ready_None split: option.splits; fastforce)
qed


text \<open>A pool whose only slot holds a retained machine with the given disk.\<close>

definition kept_machine :: "string option \<Rightarrow> retained_vm" where
  "kept_machine disk =
     \<lparr>rt_run = ''a'', rt_budget = demo_budget, rt_key = JNull, rt_expires = 0,
      rt_reservation = (new_reservation 1)\<lparr>vr_vm := Some \<lparr>vm_pid = Some 7, vm_warmed = False\<rparr>, vr_owner := Some ''a''\<rparr>,
      rt_volume = disk\<rparr>"

definition full_pool :: "string option \<Rightarrow> pool" where
  "full_pool disk =
     idle_pool\<lparr>po_capacity := 1,
       po_slots := (po_slots idle_pool)\<lparr>sl_occupied := [True], sl_retained := [kept_machine disk]\<rparr>\<rparr>"

lemma full_pool_inv: "pool_inv (full_pool disk)"
  by (simp add: full_pool_def idle_pool_def kept_machine_def pool_inv_def owners_def busy_slots_def preparing_ok_def
      keepable_def new_reservation_def)


section \<open>Unpublished machines\<close>

lemma take_retained_keeps:
  assumes "take_retained P p = (found, p1)" "idle \<in> set (sl_retained (po_slots p))" "\<not> P idle"
  shows "idle \<in> set (sl_retained (po_slots p1))"
  using assms by (auto simp: take_retained_def dest!: take_first_split split: option.splits)

lemma take_idle_keeps:
  assumes "take_idle ob p = (found, p1)" "idle \<in> set (sl_retained (po_slots p))" "publication_pending ob idle"
  shows "idle \<in> set (sl_retained (po_slots p1))"
  using assms take_retained_keeps [of "\<lambda>idle. \<not> publication_pending ob idle" p _ _ idle]
  by (fastforce simp: take_idle_def pop_ready_def split: prod.splits option.splits list.splits)

definition kept :: "retained_vm \<Rightarrow> pool \<Rightarrow> bool" where
  "kept idle p = (idle \<in> set (sl_retained (po_slots p)))"

lemma kept_finish [simp]: "kept idle (res_finish r p) = kept idle p"
  by (simp add: kept_def)

lemmas kept_take = take_retained_keeps [folded kept_def] take_idle_keeps [folded kept_def]

lemma kept_pop_ready: "pop_ready p = (found, p1) \<Longrightarrow> kept idle p1 = kept idle p"
  by (auto simp: kept_def pop_ready_def split: list.splits)

lemma kept_make_room:
  "kept idle p \<Longrightarrow> (\<And>i. publication_pending (env i) idle) \<Longrightarrow> kept idle (snd (make_room needs_slot env i p))"
proof (induction needs_slot env i p rule: make_room.induct)
  case (1 needs_slot env i p)
  show ?case
  proof (cases "take_idle (env i) p")
    case (Pair found p1)
    have k: "kept idle p1" using kept_take(2) [OF Pair "1.prems"(1,2)] .
    show ?thesis using "1.IH" [OF _ refl] Pair k "1.prems"
      by (subst make_room.simps) (auto split: sum.split option.split)
  qed
qed

lemma kept_retire_retained:
  "kept idle p \<Longrightarrow> (\<And>i. publication_pending (env i) idle) \<Longrightarrow> kept idle (retire_retained False env i p)"
proof (induction False env i p rule: retire_retained.induct)
  case (1 env i p)
  show ?case
  proof (cases "take_retained (\<lambda>idle. False \<or> \<not> publication_pending (env i) idle) p")
    case (Pair found p1)
    have k: "kept idle p1" using kept_take(1) [OF Pair "1.prems"(1)] "1.prems"(2) by simp
    show ?thesis using "1.hyps" [of _ p1] Pair k "1.prems" by (subst retire_retained.simps) (auto split: option.split)
  qed
qed

lemma kept_retire_ready: "kept idle (retire_ready p) = kept idle p"
proof (induction p rule: retire_ready.induct)
  case (1 p)
  show ?case
  proof (cases "pop_ready p")
    case (Pair found p1)
    then show ?thesis using "1.IH" [of _ p1] kept_pop_ready [OF Pair]
      by (subst retire_ready.simps) (auto split: option.split)
  qed
qed

lemma kept_shrink_ready: "kept idle (shrink_ready b env i p) = kept idle p"
proof (induction b env i p rule: shrink_ready.induct)
  case (1 b env i p)
  show ?case
  proof (cases "pop_ready p")
    case (Pair found p1)
    then show ?thesis using "1.IH" [of _ p1] kept_pop_ready [OF Pair]
      by (subst shrink_ready.simps) (auto split: option.split)
  qed
qed

lemma kept_maintain_loop:
  "kept idle p \<Longrightarrow> (\<And>i. publication_pending (env i) idle \<and> \<not> idle_exited (env i) idle) \<Longrightarrow> kept idle (snd (maintain_loop b env i p))"
proof (induction b env i p rule: maintain_loop.induct)
  case (1 b env i p)
  let ?P = "if list_ex (idle_exited (env i)) (sl_retained (po_slots p)) then idle_exited (env i)
    else (\<lambda>idle. \<not> publication_pending (env i) idle)"
  show ?case
  proof (cases "take_retained ?P p")
    case (Pair found p1)
    have k: "kept idle p1" using kept_take(1) [OF Pair "1.prems"(1)] "1.prems"(2) by simp
    show ?thesis using "1.IH" [OF _ refl] Pair k "1.prems"
      by (subst maintain_loop.simps) (auto split: sum.split option.split)
  qed
qed

lemma kept_cancel: "pool_inv p \<Longrightarrow> kept idle (cancel_preparing pe b p) = kept idle p"
  using cancel_preparing_spec(6) [of p pe b] by (simp add: kept_def)

lemma kept_retire_idle:
  "pool_inv p \<Longrightarrow> kept idle p \<Longrightarrow> (\<And>i. publication_pending (env i) idle) \<Longrightarrow> kept idle (retire_idle pe b False env p)"
  by (simp add: retire_idle_def kept_retire_ready kept_retire_retained kept_cancel)

lemma kept_claim_retained:
  assumes "kept idle p" "rt_run idle \<noteq> plan_run_id pn"
  shows "kept idle (snd (claim_retained ob pn p))"
proof (cases "take_retained (\<lambda>idle. rt_run idle = plan_run_id pn) p")
  case (Pair found p1)
  have "kept idle p1" by (rule kept_take(1) [OF Pair assms])
  then show ?thesis
    by (auto simp: claim_retained_def Pair Let_def kept_def replace_task_def push_retained_def split: option.split sum.split)
qed

lemma kept_claim_ready: "kept idle (snd (claim_ready ob elig fresh pn p)) = kept idle p"
proof (cases "pop_ready p")
  case (Pair found p1)
  then show ?thesis using kept_pop_ready [OF Pair, of idle]
    by (auto simp: claim_ready_def split: option.split sum.split)
qed

lemma slots_reserve_retained: "slots_reserve c s = (found, s1) \<Longrightarrow> sl_retained s1 = sl_retained s"
  by (auto simp: slots_reserve_def split: if_splits option.splits)

lemma kept_grant_slot: "kept idle (snd (grant_slot ob p)) = kept idle p"
  by (auto simp: grant_slot_def kept_def dest: slots_reserve_retained split: sum.split prod.split option.split)

lemma kept_reserve:
  assumes inv: "pool_inv p" and k: "kept idle p" and other: "rt_run idle \<noteq> plan_run_id pn"
    and pend: "\<And>k i. publication_pending (env k i) idle"
  shows "kept idle (snd (pool_reserve pe b env elig fresh pn p))"
proof -
  obtain r1 p1 where m1: "make_room False (env 0) 0 (cancel_preparing pe b p) = (r1, p1)" by fastforce
  have 1: "kept idle p1" using kept_make_room [of idle "cancel_preparing pe b p" "env 0" False 0] k pend m1
    by (simp add: kept_cancel [OF inv])
  obtain r2 p2 where m2: "claim_retained (env 1 0) pn p1 = (r2, p2)" by fastforce
  have 2: "kept idle p2" using kept_claim_retained [OF 1 other, of "env 1 0"] m2 by simp
  obtain r3 p3 where m3: "claim_ready (env 2 0) elig fresh pn p2 = (r3, p3)" by fastforce
  have 3: "kept idle p3" using kept_claim_ready [of idle "env 2 0" elig fresh pn p2] 2 m3 by simp
  obtain r4 p4 where m4: "make_room True (env 3) 0 p3 = (r4, p4)" by fastforce
  have 4: "kept idle p4" using kept_make_room [of idle p3 "env 3" True 0] 3 pend m4 by simp
  show ?thesis using k 1 2 3 4 kept_grant_slot [of idle "env 4 0" p4]
    by (cases r1; cases r2; cases r3; cases r4)
      (simp_all add: pool_reserve_def m1 m2 m3 m4 del: One_nat_def split: option.split)
qed

lemma kept_start_preparing: "kept idle (start_preparing now directory p) = kept idle p"
proof -
  obtain allowed s1 where w: "warming_allowed now (po_slots p) = (allowed, s1)" by fastforce
  then have "sl_retained s1 = sl_retained (po_slots p)" by (auto simp: warming_allowed_def Let_def split: if_splits)
  then show ?thesis
    by (auto simp: start_preparing_def kept_def w dest: slots_reserve_retained split: prod.split option.split)
qed

lemma kept_maintain_ready:
  assumes "pool_inv p" "kept idle p" "\<And>k i. publication_pending (env k i) idle"
  shows "kept idle (snd (maintain_ready now directory pe env p))"
  using kept_retire_idle [OF assms(1,2), of "env 1"] assms
  by (auto simp: maintain_ready_def Let_def kept_shrink_ready kept_start_preparing split: option.split sum.split)

lemma kept_configure:
  assumes "pool_inv p" "kept idle p" "\<And>i. publication_pending (env i) idle"
  shows "kept idle (snd (pool_configure pe pb env k written next p))"
  using kept_retire_idle [OF assms, of pe pb] assms(2)
  by (auto simp: pool_configure_def Let_def kept_def split: sum.split option.split prod.split)


definition dirty_obs :: obs where
  "dirty_obs = calm_obs\<lparr>ob_dirty := (\<lambda>_. Some 4096)\<rparr>"


text \<open>
  C40: when a conversation returns and its retained machine has unpublished writes, the machine is resumed
  with its slot and the budget it was retained under, or it stays retained and the request is refused with
  status 425, or a reading of the node failed after the machine was taken out: then the request fails with
  that error and the machine is given up although its writes are unpublished.
\<close>

theorem returning_conversation:
  assumes "take_retained (\<lambda>idle. rt_run idle = plan_run_id pn) p = (Some idle, p1)" "publication_pending ob idle"
    and "claim_retained ob pn p = (res, p2)"
  shows "res = Inr (Some ((rt_reservation idle)\<lparr>vr_resumed := True, vr_retained_budget := Some (rt_budget idle)\<rparr>))
      \<and> sl_retained (po_slots p2) = sl_retained (po_slots p1) \<and> po_budget p1 = Some (rt_budget idle)
    \<or> res = Inl (Too_Early ''Waiting for disk publication before replacing this VM.'')
      \<and> sl_retained (po_slots p2) = sl_retained (po_slots p1) @ [idle]
    \<or> (\<exists>e. pool_usage (ob_readings ob) p1 = Inl e \<and> res = Inl e \<and> p2 = res_finish (rt_reservation idle) p1)"
proof (cases "case po_budget p1 of None \<Rightarrow> False | Some b \<Rightarrow> retained_compatible ob idle pn b")
  case True
  then obtain b where b: "po_budget p1 = Some b" "retained_compatible ob idle pn b" by (auto split: option.splits)
  then have "b = rt_budget idle" by (simp add: retained_compatible_def)
  then show ?thesis
    using assms b by (cases "pool_usage (ob_readings ob) p1") (auto simp: claim_retained_def Let_def replace_task_def push_retained_def split: if_splits)
next
  case False
  then have "claim_retained ob pn p = (Inl (Too_Early ''Waiting for disk publication before replacing this VM.''), push_retained idle p1)"
    using assms(1,2) by (simp add: claim_retained_def Let_def)
  then show ?thesis using assms(3) by (simp add: push_retained_def)
qed

definition failed_obs :: obs where
  "failed_obs = dirty_obs\<lparr>ob_readings := (ob_readings calm_obs)\<lparr>rd_memory := Inl (Internal ''memory.current'')\<rparr>\<rparr>"

definition returning_pool :: pool where
  "returning_pool = (full_pool None)\<lparr>po_budget := Some demo_budget,
      po_slots := (po_slots (full_pool None))\<lparr>sl_retained := [(kept_machine (Some ''d''))\<lparr>rt_key := retained_key (JObj [(''runId'', JStr ''a'')])\<rparr>]\<rparr>\<rparr>"

lemma returning_machine:
  "take_retained (\<lambda>idle. rt_run idle = plan_run_id (JObj [(''runId'', JStr ''a'')])) returning_pool
     = (Some (hd (sl_retained (po_slots returning_pool))), snd (take_retained (\<lambda>_. True) returning_pool))"
  "publication_pending failed_obs (hd (sl_retained (po_slots returning_pool)))"
  by (simp_all add: returning_pool_def full_pool_def kept_machine_def idle_pool_def publication_pending_def failed_obs_def dirty_obs_def
      calm_obs_def take_retained_def plan_run_id_def text_of_def jat_def Let_def)

theorem returning_conversation_witness:
  "fst (claim_retained failed_obs (JObj [(''runId'', JStr ''a'')]) returning_pool) = Inl (Internal ''memory.current'')
     \<and> snd (claim_retained failed_obs (JObj [(''runId'', JStr ''a'')]) returning_pool)
        = res_finish (rt_reservation (hd (sl_retained (po_slots returning_pool)))) (snd (take_retained (\<lambda>_. True) returning_pool))"
proof -
  have f: "fst (claim_retained failed_obs (JObj [(''runId'', JStr ''a'')]) returning_pool) = Inl (Internal ''memory.current'')"
    by (simp add: returning_pool_def full_pool_def kept_machine_def idle_pool_def publication_pending_def failed_obs_def dirty_obs_def calm_obs_def
      claim_retained_def take_retained_def plan_run_id_def text_of_def jat_def Let_def retained_compatible_def accepts_retained_def
      pool_usage_def)
  then show ?thesis
    using returning_conversation [OF returning_machine prod.collapse [symmetric]] by auto
qed

section \<open>Directories of anonymous machines\<close>

lemma own_disk_assign: "\<not> c \<Longrightarrow> own_disk (xe\<lparr>xe_assign := g\<rparr>) c r = own_disk xe c r"
  by (simp add: own_disk_def)

lemma assign_irrelevant [simp]:
  "restore_cached (xe\<lparr>xe_assign := g\<rparr>) pn b r = restore_cached xe pn b r"
  "execute_compatible (xe\<lparr>xe_assign := g\<rparr>) pn b r = execute_compatible xe pn b r"
  "start_machine (xe\<lparr>xe_assign := g\<rparr>) c r = start_machine xe c r"
  by (simp_all add: restore_cached_def execute_compatible_def start_machine_def
      cong del: if_weak_cong sum.case_cong_weak option.case_cong_weak)

text \<open>The operation once it is known whether the prepared machine fits.\<close>

definition run_staged :: "exec_env \<Rightarrow> bool \<Rightarrow> vm_reservation \<Rightarrow> int exec" where
  "run_staged xe compatible r1 =
     exec_bind (drop_incompatible compatible r1) (\<lambda>_ r2.
     exec_bind (own_disk xe compatible r2) (\<lambda>_ r3.
     exec_bind (start_machine xe compatible r3) (\<lambda>_ r4. (xe_run xe, r4, []))))"

lemma run_staged_assign: "run_staged (xe\<lparr>xe_assign := g\<rparr>) False r1 = run_staged xe False r1"
  by (simp add: run_staged_def own_disk_assign)

lemma run_staged_deletes:
  assumes "run_staged xe c r1 = (res, r', ds)"
  shows "set (ds @ discarded r') \<subseteq> set (discarded r1) \<and> (c \<longrightarrow> ds @ discarded r' = [])"
  using assms
  by (cases c)
    (auto simp: run_staged_def exec_bind_def drop_incompatible_def own_disk_def start_machine_def retire_anonymous_def
      discarded_def Let_def split: if_splits sum.splits option.splits prod.splits)

lemma execute_operation_staged:
  "execute_operation xe plan0 b r0 =
     (if \<not> is_object (plan_storage plan0)
      then (Inl (Conflict ''S3-backed storage is required for VM execution.''), r0, [])
      else (case execute_limits b plan0 of
              Inl e \<Rightarrow> (Inl e, r0, [])
            | Inr pn \<Rightarrow>
      exec_bind (drop_stale_budget b r0) (\<lambda>_ r.
      if vr_resumed r then (case xe_resume_idle xe of Inl e \<Rightarrow> (Inl e, r, []) | Inr _ \<Rightarrow> (xe_run xe, r, []))
      else exec_bind (restore_cached xe pn b r) (\<lambda>_ r1.
        case execute_compatible xe pn b r1 of Inl e \<Rightarrow> (Inl e, r1, []) | Inr c \<Rightarrow> run_staged xe c r1))))"
  unfolding execute_operation_def run_staged_def by (rule refl)

lemma restore_cached_deletes:
  "restore_cached xe pn b r = (res, r1, ds) \<Longrightarrow> ds = [] \<and> set (discarded r1) \<subseteq> set (discarded r) \<union> {xe_directory xe}"
  by (auto simp: restore_cached_def discarded_def split: if_splits sum.splits option.splits)

definition staged :: "exec_env \<Rightarrow> plan \<Rightarrow> budget option \<Rightarrow> vm_reservation \<Rightarrow> int exec" where
  "staged xe pn b r =
     exec_bind (restore_cached xe pn b r) (\<lambda>_ r1.
       case execute_compatible xe pn b r1 of Inl e \<Rightarrow> (Inl e, r1, []) | Inr c \<Rightarrow> run_staged xe c r1)"

lemma staged_deletes:
  assumes "staged xe pn b r = (res, r', ds)"
  shows "set (ds @ discarded r') \<subseteq> set (discarded r) \<union> {xe_directory xe}
    \<and> (ds @ discarded r' \<noteq> [] \<longrightarrow> staged (xe\<lparr>xe_assign := g\<rparr>) pn b r = (res, r', ds))"
proof (cases "restore_cached xe pn b r")
  case (fields res1 r1 ds1)
  note restored = restore_cached_deletes [OF fields]
  show ?thesis
  proof (cases "isl res1 \<or> isl (execute_compatible xe pn b r1)")
    case True
    then show ?thesis using assms restored
      by (auto simp: staged_def exec_bind_def fields split: sum.splits)
  next
    case False
    then obtain x c where c: "res1 = Inr x" "execute_compatible xe pn b r1 = Inr c"
      by (cases res1; cases "execute_compatible xe pn b r1") auto
    then have s: "run_staged xe c r1 = (res, r', ds)"
      using assms restored by (auto simp: staged_def exec_bind_def fields split: prod.splits)
    show ?thesis using run_staged_deletes [OF s] restored s c run_staged_assign [where xe = xe and g = g and ?r1.0 = r1]
      by (cases c) (auto simp: staged_def exec_bind_def fields)
  qed
qed

text \<open>
  C22: an execution deletes at most the anonymous directory the reservation came with and the one it
  restored itself, and only if it has not tried to assign a directory to the conversation: when
  anything is deleted, the outcome does not depend on what an assignment would have answered. A run that
  ends leaves its conversation's disk in place.
\<close>

theorem assigned_disk_kept:
  assumes ok: "granted_ok r" and out: "execute_operation xe pn b r = (res, r', ds)"
  shows "set (ds @ discarded r') \<subseteq> set (discarded r) \<union> {xe_directory xe}
    \<and> (ds @ discarded r' \<noteq> [] \<longrightarrow> (\<forall>g. execute_operation (xe\<lparr>xe_assign := g\<rparr>) pn b r = (res, r', ds)))
    \<and> ((\<exists>status. res = Inr status) \<longrightarrow> vr_owner r' \<noteq> None \<and> discarded r' = [])"
proof -
  have run: "(\<exists>status. res = Inr status) \<longrightarrow> vr_owner r' \<noteq> None \<and> discarded r' = []"
    using execute_operation_Inr [of xe pn b r _ r' ds] out ok by (auto simp: discarded_def)
  have resumed: "discarded r = []" if "vr_resumed r" using that ok by (simp add: granted_ok_def discarded_def)
  note op = execute_operation_staged [folded staged_def]
  show ?thesis
  proof (cases "is_object (plan_storage pn) \<and> \<not> isl (execute_limits b pn)")
    case False
    then show ?thesis using out run by (auto simp: op split: sum.splits if_splits)
  next
    case True
    then obtain pn' where pn': "is_object (plan_storage pn)" "execute_limits b pn = Inr pn'"
      by (cases "execute_limits b pn") auto
    define r0 where "r0 = fst (snd (drop_stale_budget b r))"
    have r0: "drop_stale_budget b r = (Inr (), r0, [])" "discarded r0 = discarded r" "vr_resumed r0 \<Longrightarrow> r0 = r"
      unfolding r0_def using resumed
      by (cases "vr_resumed r \<and> vr_retained_budget r \<noteq> b";
          simp add: drop_stale_budget_def retire_anonymous_def; simp add: discarded_def)+
    show ?thesis
    proof (cases "vr_resumed r0")
      case True
      then show ?thesis using out run pn' r0 resumed
        by (auto simp: op exec_bind_def split: sum.splits)
    next
      case False
      then have "staged xe pn' b r0 = (res, r', ds)"
        using out pn' r0(1) by (auto simp: op exec_bind_def split: prod.splits)
      from staged_deletes [OF this] show ?thesis
        using run pn' r0 False by (auto simp: op exec_bind_def)
    qed
  qed
qed

definition demo_exec :: exec_env where
  "demo_exec =
     \<lparr>xe_eligible = Inr False, xe_fresh = Inr False, xe_policy = Inr default_policy, xe_directory = ''new'',
      xe_restore_cached = Inr None, xe_eligible_again = Inr False, xe_fresh_again = Inr False, xe_codex_ready = False,
      xe_assign = (\<lambda>d. Inr d), xe_ownership = Inr ''a'', xe_bootstrap = Inr (), xe_load = Inr ''a'',
      xe_authorization = Inr True, xe_authorize = Inr (), xe_boot = Inr \<lparr>vm_pid = Some 9, vm_warmed = False\<rparr>,
      xe_resume_idle = Inr (), xe_run = Inr 0, xe_load_completed = Inr ''a'', xe_seal = Inr (), xe_control = True,
      xe_stopped = False, xe_suspend = Inr (), xe_load_retained = Inr ''a''\<rparr>"

definition spare :: vm_reservation where
  "spare = (new_reservation 1)\<lparr>vr_vm := Some \<lparr>vm_pid = Some 7, vm_warmed = True\<rparr>, vr_anonymous := Some ''spare'',
                               vr_prepared := Some demo_budget\<rparr>"

lemma spare_replaced:
  "execute_operation demo_exec (JObj [(''storage'', JObj [])]) None spare =
     (Inr 0, spare\<lparr>vr_vm := Some \<lparr>vm_pid = Some 9, vm_warmed = False\<rparr>, vr_anonymous := None, vr_prepared := None,
                    vr_owner := Some ''a''\<rparr>, [''spare''])"
  by (simp add: execute_operation_def demo_exec_def spare_def new_reservation_def plan_storage_def jat_def execute_limits_def
      drop_stale_budget_def restore_cached_def execute_compatible_def drop_incompatible_def own_disk_def start_machine_def
      exec_bind_def retire_anonymous_def discarded_def)

theorem assigned_disk_kept_witness:
  "execute_operation (demo_exec\<lparr>xe_assign := (\<lambda>_. Inl (Internal ''lost''))\<rparr>) (JObj [(''storage'', JObj [])]) None spare
     = execute_operation demo_exec (JObj [(''storage'', JObj [])]) None spare"
  using assigned_disk_kept [OF _ spare_replaced] spare_replaced
  by (simp add: granted_ok_def spare_def new_reservation_def)

section \<open>Backing off\<close>

definition fail_at :: "nat list \<Rightarrow> vm_slots \<Rightarrow> vm_slots" where
  "fail_at ts s = foldl (\<lambda>s now. warm_failure now s) s ts"

definition backoff :: "nat \<Rightarrow> nat" where
  "backoff earlier = (if earlier < 5 then secs (10 * 2 ^ earlier) else secs 3600)"

lemma fail_at_failures:
  "sl_warm_failures s = 0 \<Longrightarrow> \<not> sl_warm_circuit_open s \<Longrightarrow>
     sl_warm_failures (fail_at ts s) = min (length ts) 6 \<and> (sl_warm_circuit_open (fail_at ts s) \<longleftrightarrow> 6 \<le> length ts)
     \<and> sl_warm_disabled (fail_at ts s) = sl_warm_disabled s"
proof (induction ts rule: rev_induct)
  case Nil
  then show ?case by (simp add: fail_at_def)
next
  case (snoc t ts)
  then show ?case by (auto simp: fail_at_def warm_failure_def Let_def WARM_FAILURE_LIMIT_def)
qed

text \<open>
  After preparations have failed at the times \<open>ts\<close> and then at \<open>now\<close>, none is started before 10, 20, 40, 80 or
  160 seconds have passed, the delay doubling with each failure, or before an hour after the sixth; from
  then on one may start, the next hour's pause only after six further failures.
\<close>

theorem preparation_backs_off:
  assumes "sl_warm_failures s = 0" "\<not> sl_warm_circuit_open s" "\<not> sl_warm_disabled s"
  shows "(fst (warming_allowed t (fail_at (ts @ [now]) s)) \<longleftrightarrow> now + backoff (length ts) \<le> t)
    \<and> (now + backoff (length ts) \<le> t \<longrightarrow>
         sl_warm_failures (snd (warming_allowed t (fail_at (ts @ [now]) s))) = (if length ts < 5 then Suc (length ts) else 0)
         \<and> \<not> sl_warm_circuit_open (snd (warming_allowed t (fail_at (ts @ [now]) s))))"
proof -
  let ?s = "fail_at (ts @ [now]) s"
  note f = fail_at_failures [OF assms(1,2), of "ts @ [now]"]
  have "sl_retry_after ?s = Some (now + warm_delay ?s)"
    by (simp add: fail_at_def warm_failure_def Let_def warm_delay_def)
  moreover have "warm_delay ?s = backoff (length ts)"
  proof (cases "length ts < 5")
    case True
    then have "length ts = 0 \<or> length ts = 1 \<or> length ts = 2 \<or> length ts = 3 \<or> length ts = 4" by linarith
    then show ?thesis using f by (elim disjE) (simp_all add: warm_delay_def backoff_def WARM_RETRY_MAX_def secs_def)
  next
    case False
    then show ?thesis using f by (simp add: warm_delay_def backoff_def WARM_CIRCUIT_COOLDOWN_def)
  qed
  ultimately show ?thesis using f assms(3) by (auto simp: warming_allowed_def Let_def)
qed

theorem preparation_backs_off_witness:
  "\<not> fst (warming_allowed (secs 3599) (fail_at [0, 0, 0, 0, 0, 0] (po_slots idle_pool)))"
  using preparation_backs_off [of "po_slots idle_pool" "secs 3599" "[0, 0, 0, 0, 0]" 0]
  by (simp add: idle_pool_def secs_def backoff_def)

end
