(* ===== verification/Shared_Blocks.thy ===== *)
theory Shared_Blocks
  imports Store Rust_Str
begin

text \<open>
  Ownership of immutable objects in remote storage (\<open>nodes/shared_blocks.rs\<close>): publications reserve the
  objects of their blocks, verified objects are shared by content, and the collector deletes an object some time
  after its last reference is gone. The four tables are fields of a record; each operation runs in one
  transaction. The digest and the supply of fresh identifiers are arguments, the clock too.
\<close>

section \<open>Tables\<close>

datatype object_state = Obj_Pending | Obj_Ready | Obj_Invalid | Obj_Deleting

record shared_object =
  so_destination :: string
  so_hash :: string
  so_size :: nat
  so_location :: string
  so_state :: object_state
  so_unused_at :: "int option"
  so_retry_at :: int

record remote_deletion =
  rl_location :: string
  rl_key :: string
  rl_prefix :: bool
  rl_retry_at :: int

record shared_db =
  sd_publications :: "(string \<times> string) list"
  sd_objects :: "(string \<times> shared_object) list"
  sd_references :: "(string \<times> string) list"
  sd_deletions :: "(string \<times> remote_deletion) list"

definition GRACE_MS :: int where
  "GRACE_MS = 300000"

definition BATCH :: nat where
  "BATCH = 32"

definition object_key :: "string \<Rightarrow> string \<Rightarrow> string" where
  "object_key hash object = ''shared-blocks/v1/'' @ hash @ ''/'' @ object"

text \<open>\<open>UPDATE shared_objects SET ... WHERE ...\<close>.\<close>

definition update_objects ::
  "(string \<Rightarrow> shared_object \<Rightarrow> bool) \<Rightarrow> (shared_object \<Rightarrow> shared_object) \<Rightarrow> shared_db \<Rightarrow> shared_db" where
  "update_objects P f db = db\<lparr>sd_objects := map (\<lambda>(k, ob). (k, if P k ob then f ob else ob)) (sd_objects db)\<rparr>"

definition referenced :: "shared_db \<Rightarrow> string \<Rightarrow> bool" where
  "referenced db object = list_ex (\<lambda>(_, k). k = object) (sd_references db)"

text \<open>The ready object of a destination with this content; the table has at most one.\<close>

definition lookup_ready :: "shared_db \<Rightarrow> string \<Rightarrow> string \<Rightarrow> (string \<times> nat) option" where
  "lookup_ready db destination hash =
     map_option (\<lambda>(k, ob). (k, so_size ob))
       (List.find (\<lambda>(_, ob). so_destination ob = destination \<and> so_hash ob = hash \<and> so_state ob = Obj_Ready) (sd_objects db))"

section \<open>Reservation\<close>

record manifest_block =
  mb_hash :: "string option"
  mb_size :: nat
  mb_object :: "string option"

record reserved_object =
  ro_id :: string
  ro_hash :: string
  ro_size :: nat
  ro_ready :: bool

definition insert_reference :: "string \<Rightarrow> string \<Rightarrow> shared_db \<Rightarrow> (svc_error, shared_db) result" where
  "insert_reference publication object db =
     (if (publication, object) \<in> set (sd_references db) then Inl (Internal ''UNIQUE'')
      else Inr (db\<lparr>sd_references := sd_references db @ [(publication, object)]\<rparr>))"

definition revive :: "string \<Rightarrow> shared_db \<Rightarrow> shared_db" where
  "revive object = update_objects (\<lambda>k ob. k = object \<and> so_unused_at ob \<noteq> None) (\<lambda>ob. ob\<lparr>so_unused_at := None\<rparr>)"

definition insert_object :: "string \<Rightarrow> shared_object \<Rightarrow> shared_db \<Rightarrow> (svc_error, shared_db) result" where
  "insert_object k ob db =
     (if k \<in> fst ` set (sd_objects db) then Inl (Internal ''UNIQUE'')
      else Inr (db\<lparr>sd_objects := sd_objects db @ [(k, ob)]\<rparr>))"

text \<open>\<open>location\<close> and its digest \<open>destination\<close> are those of the point; \<open>new\<close> is the identifier \<open>id()\<close> returns.\<close>

definition reserve_hash ::
  "string \<Rightarrow> string \<Rightarrow> string \<Rightarrow> string \<Rightarrow> string \<Rightarrow> nat \<Rightarrow> shared_db \<Rightarrow> (svc_error, reserved_object \<times> shared_db) result" where
  "reserve_hash location destination publication new hash bytes db =
     (case lookup_ready db destination hash of
        Some (k, stored_size) \<Rightarrow>
          if stored_size \<noteq> bytes then Inl (Bad ''Shared block size mismatch.'')
          else rbind (insert_reference publication k (revive k db)) (\<lambda>db1.
                 Inr (\<lparr>ro_id = k, ro_hash = hash, ro_size = bytes, ro_ready = True\<rparr>, db1))
      | None \<Rightarrow>
          rbind (insert_object new \<lparr>so_destination = destination, so_hash = hash, so_size = bytes, so_location = location,
                   so_state = Obj_Pending, so_unused_at = None, so_retry_at = 0\<rparr> db) (\<lambda>db1.
          rbind (insert_reference publication new db1) (\<lambda>db2.
            Inr (\<lparr>ro_id = new, ro_hash = hash, ro_size = bytes, ro_ready = False\<rparr>, db2))))"

text \<open>
  The blocks of the manifest one after the other; \<open>objects\<close> are those reserved so far, in the order of
  the manifest, and \<open>new i\<close> is the identifier for the \<open>i\<close>th block if it needs one.
\<close>

fun reserve_blocks ::
  "string \<Rightarrow> string \<Rightarrow> string \<Rightarrow> (nat \<Rightarrow> string) \<Rightarrow> nat \<Rightarrow> manifest_block list \<Rightarrow> reserved_object list \<Rightarrow> shared_db
     \<Rightarrow> (svc_error, (manifest_block list \<times> reserved_object list) \<times> shared_db) result" where
  "reserve_blocks location destination publication new i [] objects db = Inr (([], objects), db)"
| "reserve_blocks location destination publication new i (b # bs) objects db =
     (case mb_hash b of
        None \<Rightarrow>
          rbind (reserve_blocks location destination publication new (Suc i) bs objects db) (\<lambda>((bs', os), db').
            Inr ((b # bs', os), db'))
      | Some hash \<Rightarrow>
          rbind (case List.find (\<lambda>ob. ro_hash ob = hash) objects of
                   Some ob \<Rightarrow> Inr (ob, objects, db)
                 | None \<Rightarrow> rbind (reserve_hash location destination publication (new i) hash (mb_size b) db) (\<lambda>(ob, db1).
                              Inr (ob, objects @ [ob], db1))) (\<lambda>(ob, objects1, db1).
          if ro_size ob \<noteq> mb_size b then Inl (Bad ''Shared block size mismatch.'')
          else rbind (reserve_blocks location destination publication new (Suc i) bs objects1 db1) (\<lambda>((bs', os), db').
                 Inr ((b\<lparr>mb_object := Some (ro_id ob)\<rparr> # bs', os), db'))))"

definition insert_publication :: "string \<Rightarrow> string \<Rightarrow> shared_db \<Rightarrow> (svc_error, shared_db) result" where
  "insert_publication publication run db =
     (if publication \<in> fst ` set (sd_publications db) then Inl (Internal ''UNIQUE'')
      else Inr (db\<lparr>sd_publications := sd_publications db @ [(publication, run)]\<rparr>))"

definition shared_reserve ::
  "(string \<Rightarrow> string) \<Rightarrow> (nat \<Rightarrow> string) \<Rightarrow> string \<Rightarrow> string \<Rightarrow> string \<Rightarrow> manifest_block list \<Rightarrow> shared_db
     \<Rightarrow> (svc_error, manifest_block list \<times> reserved_object list) result \<times> shared_db" where
  "shared_reserve digest new location publication run blocks db =
     (case rbind (insert_publication publication run db) (\<lambda>db1.
             reserve_blocks location (digest location) publication new 0 blocks [] db1) of
        Inl e \<Rightarrow> (Inl e, db)
      | Inr (out, db') \<Rightarrow> (Inr out, db'))"

section \<open>Completion\<close>

definition pending_objects :: "shared_db \<Rightarrow> string \<Rightarrow> (string \<times> shared_object) list" where
  "pending_objects db publication =
     filter (\<lambda>(k, ob). so_state ob = Obj_Pending \<and> (publication, k) \<in> set (sd_references db)) (sd_objects db)"

definition settle_object ::
  "int \<Rightarrow> string \<Rightarrow> string \<times> shared_object \<Rightarrow> (string \<times> string) list \<times> shared_db
     \<Rightarrow> (svc_error, (string \<times> string) list \<times> shared_db) result" where
  "settle_object now publication entry st =
     (case (entry, st) of
        ((object, ob), (replacements, db)) \<Rightarrow>
          (case lookup_ready db (so_destination ob) (so_hash ob) of
             None \<Rightarrow> Inr (replacements, update_objects (\<lambda>k _. k = object) (\<lambda>ob. ob\<lparr>so_state := Obj_Ready\<rparr>) db)
           | Some (canonical, canonical_size) \<Rightarrow>
               if so_size ob \<noteq> canonical_size then Inl (Bad ''Shared block size mismatch.'')
               else
                 let db1 = (if (publication, canonical) \<in> set (sd_references db) then db
                            else db\<lparr>sd_references := sd_references db @ [(publication, canonical)]\<rparr>);
                     db2 = update_objects (\<lambda>k _. k = canonical) (\<lambda>ob. ob\<lparr>so_unused_at := None\<rparr>) db1;
                     db3 = db2\<lparr>sd_references := filter (\<lambda>r. r \<noteq> (publication, object)) (sd_references db2)\<rparr>;
                     db4 = update_objects (\<lambda>k _. k = object) (\<lambda>ob. ob\<lparr>so_unused_at := Some now\<rparr>) db3
                 in Inr ((object, canonical) # replacements, db4)))"

fun settle_objects ::
  "int \<Rightarrow> string \<Rightarrow> (string \<times> shared_object) list \<Rightarrow> (string \<times> string) list \<times> shared_db
     \<Rightarrow> (svc_error, (string \<times> string) list \<times> shared_db) result" where
  "settle_objects now publication [] st = Inr st"
| "settle_objects now publication (e # es) st = rbind (settle_object now publication e st) (settle_objects now publication es)"

definition verified :: "shared_db \<Rightarrow> string \<Rightarrow> (svc_error, unit) result" where
  "verified db publication =
     (if list_ex (\<lambda>(p, k). p = publication \<and> list_ex (\<lambda>(k', ob). k' = k \<and> so_state ob \<noteq> Obj_Ready) (sd_objects db))
           (sd_references db)
      then Inl (Conflict ''A shared block was invalidated during publication.'') else Inr ())"

definition replace_blocks :: "(string \<times> string) list \<Rightarrow> manifest_block list \<Rightarrow> manifest_block list" where
  "replace_blocks replacements =
     map (\<lambda>b. case mb_object b of
                None \<Rightarrow> b
              | Some k \<Rightarrow> (case map_of replacements k of None \<Rightarrow> b | Some c \<Rightarrow> b\<lparr>mb_object := Some c\<rparr>))"

definition complete_uploads ::
  "int \<Rightarrow> string \<Rightarrow> manifest_block list \<Rightarrow> shared_db \<Rightarrow> (svc_error, manifest_block list) result \<times> shared_db" where
  "complete_uploads now publication blocks db =
     (case settle_objects now publication (pending_objects db publication) ([], db) of
        Inl e \<Rightarrow> (Inl e, db)
      | Inr (replacements, db') \<Rightarrow>
          (case verified db' publication of
             Inl e \<Rightarrow> (Inl e, db)
           | Inr _ \<Rightarrow> (Inr (replace_blocks replacements blocks), db')))"

section \<open>Release and collection\<close>

definition shared_release :: "int \<Rightarrow> string \<Rightarrow> shared_db \<Rightarrow> shared_db" where
  "shared_release now publication db =
     (let db1 = update_objects
                  (\<lambda>k _. (publication, k) \<in> set (sd_references db)
                         \<and> \<not> list_ex (\<lambda>(p, k'). k' = k \<and> p \<noteq> publication) (sd_references db))
                  (\<lambda>ob. ob\<lparr>so_unused_at := Some now\<rparr>) db
      in db1\<lparr>sd_publications := filter (\<lambda>(p, _). p \<noteq> publication) (sd_publications db1),
             sd_references := filter (\<lambda>(p, _). p \<noteq> publication) (sd_references db1)\<rparr>)"

definition release_run :: "int \<Rightarrow> string \<Rightarrow> string list \<Rightarrow> shared_db \<Rightarrow> shared_db" where
  "release_run now run keep db =
     foldl (\<lambda>db p. if p \<in> set keep then db else shared_release now p db) db
       (map fst (filter (\<lambda>(_, r). r = run) (sd_publications db)))"

definition bool_text :: "bool \<Rightarrow> string" where
  "bool_text b = (if b then ''true'' else ''false'')"

definition queue_remote :: "(string \<Rightarrow> string) \<Rightarrow> string \<Rightarrow> string \<Rightarrow> bool \<Rightarrow> shared_db \<Rightarrow> shared_db" where
  "queue_remote digest location key prefix db =
     (let k = digest (location @ [NL] @ key @ [NL] @ bool_text prefix)
      in if k \<in> fst ` set (sd_deletions db) then db
         else db\<lparr>sd_deletions := sd_deletions db
                   @ [(k, \<lparr>rl_location = location, rl_key = key, rl_prefix = prefix, rl_retry_at = 0\<rparr>)]\<rparr>)"

definition invalidate :: "string \<Rightarrow> shared_db \<Rightarrow> shared_db" where
  "invalidate object =
     update_objects (\<lambda>k ob. k = object \<and> so_state ob = Obj_Ready) (\<lambda>ob. ob\<lparr>so_state := Obj_Invalid\<rparr>)"

record deletion =
  de_id :: string
  de_location :: string
  de_key :: string
  de_prefix :: bool
  de_shared :: bool

text \<open>Ordering by two columns is a stable sort by the second followed by one by the first.\<close>

definition due_objects :: "int \<Rightarrow> int \<Rightarrow> shared_db \<Rightarrow> (string \<times> shared_object) list" where
  "due_objects now cutoff db =
     take BATCH
       (sort_key (\<lambda>(_, ob). so_retry_at ob)
         (sort_key (\<lambda>(_, ob). case so_unused_at ob of None \<Rightarrow> 0 | Some t \<Rightarrow> t)
           (filter (\<lambda>(k, ob). (case so_unused_at ob of None \<Rightarrow> False | Some t \<Rightarrow> t \<le> cutoff)
                              \<and> so_retry_at ob \<le> now \<and> \<not> referenced db k) (sd_objects db))))"

definition due_deletions :: "int \<Rightarrow> shared_db \<Rightarrow> (string \<times> remote_deletion) list" where
  "due_deletions now db =
     take BATCH (sort_key (\<lambda>(_, d). rl_retry_at d) (filter (\<lambda>(_, d). rl_retry_at d \<le> now) (sd_deletions db)))"

definition claim :: "int \<Rightarrow> int \<Rightarrow> shared_db \<Rightarrow> deletion list \<times> shared_db" where
  "claim now cutoff db =
     (let rows = due_objects now cutoff db;
          db1 = update_objects (\<lambda>k _. k \<in> fst ` set rows) (\<lambda>ob. ob\<lparr>so_state := Obj_Deleting, so_retry_at := now + 60000\<rparr>) db;
          queued = due_deletions now db1;
          db2 = db1\<lparr>sd_deletions := map (\<lambda>(k, d). (k, if k \<in> fst ` set queued then d\<lparr>rl_retry_at := now + 60000\<rparr> else d))
                                     (sd_deletions db1)\<rparr>
      in (map (\<lambda>(k, ob). \<lparr>de_id = k, de_location = so_location ob, de_key = object_key (so_hash ob) k, de_prefix = False,
                          de_shared = True\<rparr>) rows
          @ map (\<lambda>(k, d). \<lparr>de_id = k, de_location = rl_location d, de_key = rl_key d, de_prefix = rl_prefix d,
                           de_shared = False\<rparr>) queued,
          db2))"

text \<open>The rows of deletions whose objects are gone from the remote store.\<close>

definition forget_deleted :: "deletion \<Rightarrow> shared_db \<Rightarrow> shared_db" where
  "forget_deleted d db =
     (if de_shared d
      then db\<lparr>sd_objects := filter (\<lambda>(k, ob). \<not> (k = de_id d \<and> so_state ob = Obj_Deleting \<and> \<not> referenced db k)) (sd_objects db)\<rparr>
      else db\<lparr>sd_deletions := filter (\<lambda>(k, _). k \<noteq> de_id d) (sd_deletions db)\<rparr>)"

definition collection_due :: "int \<Rightarrow> shared_db \<Rightarrow> bool" where
  "collection_due now db =
     (list_ex (\<lambda>(_, ob). (case so_unused_at ob of None \<Rightarrow> False | Some t \<Rightarrow> t \<le> now - GRACE_MS) \<and> so_retry_at ob \<le> now) (sd_objects db)
      \<or> list_ex (\<lambda>(_, d). rl_retry_at d \<le> now) (sd_deletions db))"

definition claim_due :: "int \<Rightarrow> shared_db \<Rightarrow> deletion list \<times> shared_db" where
  "claim_due now db = (if collection_due now db then claim now (now - GRACE_MS) db else ([], db))"

definition finish_deletions :: "deletion list \<Rightarrow> shared_db \<Rightarrow> shared_db" where
  "finish_deletions completed db = foldl (\<lambda>db d. forget_deleted d db) db completed"

end
