(* ===== verification/Disk_Grants.thy ===== *)
theory Disk_Grants
  imports Placement Shared_Blocks
begin

text \<open>
  Read grants of mounted disks (\<open>nodes/disk_grants.rs\<close>): a grant names the publications a node may read for a
  run, its published base and the newer candidates that were announced to it. The digest of a credential and
  the random token are arguments; documents are records of the fields the code reads.
\<close>

section \<open>Documents\<close>

record disk_grant =
  dg_run :: string
  dg_node :: "string option"
  dg_backups :: "string list"
  dg_generation :: "int option"
  dg_published :: "string option"
  dg_pending :: "(string \<times> int) list"

text \<open>A stored publication, with the blocks of its decrypted manifest.\<close>

record backup_point =
  bp_id :: string
  bp_run :: string
  bp_node :: "string option"
  bp_generation :: "int option"
  bp_s3 :: bool
  bp_shared :: bool
  bp_location :: string
  bp_blocks :: "manifest_block list"

record grant_run =
  gn_node :: "string option"
  gn_agent :: string
  gn_running :: bool
  gn_cancel_requested :: bool
  gn_move_node :: "string option"

record grant_db =
  gd_grants :: "disk_grant table"
  gd_runs :: "grant_run table"
  gd_agents :: "string list option table"
  gd_nodes :: "bool table"

definition owner_node :: "string option \<Rightarrow> string" where
  "owner_node node = (case node of None \<Rightarrow> LOCAL_NODE_ID | Some n \<Rightarrow> n)"

section \<open>Issuing and authorizing\<close>

definition put_grant ::
  "(string \<Rightarrow> string) \<Rightarrow> string \<Rightarrow> string \<Rightarrow> string \<Rightarrow> string list \<Rightarrow> disk_grant table \<Rightarrow> string \<times> disk_grant table" where
  "put_grant digest token run node backups t =
     (token, tb_put (digest token)
        \<lparr>dg_run = run, dg_node = Some node, dg_backups = backups, dg_generation = None, dg_published = None, dg_pending = []\<rparr> t)"

definition new_disk :: "(string \<Rightarrow> string) \<Rightarrow> string \<Rightarrow> string \<Rightarrow> string \<Rightarrow> disk_grant table \<Rightarrow> string \<times> disk_grant table" where
  "new_disk digest token run node t = put_grant digest token run node [] t"

definition issue_grant ::
  "(string \<Rightarrow> string) \<Rightarrow> string \<Rightarrow> string \<Rightarrow> string \<Rightarrow> backup_point \<Rightarrow> disk_grant table
     \<Rightarrow> (svc_error, string) result \<times> disk_grant table" where
  "issue_grant digest token run node backup t =
     (if \<not> bp_s3 backup then (Inl (Conflict ''On-demand disks require a verified S3 recovery point.''), t)
      else (case put_grant digest token run node [bp_id backup] t of (tok, t') \<Rightarrow> (Inr tok, t')))"

definition authorize_grant :: "(string \<Rightarrow> string) \<Rightarrow> string \<Rightarrow> grant_db \<Rightarrow> (svc_error, disk_grant option) result" where
  "authorize_grant digest credential db =
     (case tb_get (gd_grants db) (digest credential) of
        None \<Rightarrow> Inr None
      | Some g \<Rightarrow>
          (case tb_get (gd_runs db) (dg_run g) of
             None \<Rightarrow> Inl (Not_Found ''Run not found'')
           | Some run \<Rightarrow>
               let node = (case dg_node g of None \<Rightarrow> [] | Some n \<Rightarrow> n)
               in (case tb_get (gd_agents db) (gn_agent run) of
                     None \<Rightarrow> Inl (Not_Found ''Record not found'')
                   | Some scope \<Rightarrow>
                       (case tb_get (gd_nodes db) node of
                          None \<Rightarrow> Inl (Not_Found ''Record not found'')
                        | Some revoked \<Rightarrow>
                            let owner = (owner_node (gn_node run) = node \<or> gn_move_node run = Some node);
                                cancelling = (gn_running run \<and> gn_cancel_requested run)
                            in if revoked \<or> \<not> owner \<or> cancelling \<or> \<not> allowed scope node
                               then Inl (Forbidden ''Disk ownership or authorization changed.'')
                               else Inr (Some g)))))"

section \<open>Extending and acknowledging\<close>

definition extend_grant :: "string \<Rightarrow> int \<Rightarrow> disk_grant \<Rightarrow> disk_grant" where
  "extend_grant backup generation g =
     g\<lparr>dg_backups := (if backup \<in> set (dg_backups g) then dg_backups g else dg_backups g @ [backup]),
       dg_pending := (if backup \<in> fst ` set (dg_pending g) then dg_pending g else dg_pending g @ [(backup, generation)])\<rparr>"

definition acknowledge_grant :: "string \<Rightarrow> int \<Rightarrow> disk_grant \<Rightarrow> disk_grant" where
  "acknowledge_grant backup generation g =
     (let pending = filter (\<lambda>(_, gen). generation < gen) (dg_pending g)
      in g\<lparr>dg_generation := Some generation, dg_published := Some backup,
           dg_backups := backup # map fst pending, dg_pending := pending\<rparr>)"

definition current_generation :: "disk_grant \<Rightarrow> int" where
  "current_generation g = (case dg_generation g of None \<Rightarrow> 0 | Some n \<Rightarrow> n)"

text \<open>The body of \<open>update\<close> for one grant: \<open>Inr None\<close> where the transaction writes nothing.\<close>

definition update_one :: "bool \<Rightarrow> backup_point \<Rightarrow> disk_grant \<Rightarrow> (svc_error, disk_grant option) result" where
  "update_one acknowledged backup g =
     (if dg_run g \<noteq> bp_run backup \<or> owner_node (dg_node g) \<noteq> owner_node (bp_node backup)
      then Inl (Forbidden ''Publication belongs to another disk owner.'')
      else (case bp_generation backup of
              None \<Rightarrow> Inl (Bad ''Missing journal publication generation.'')
            | Some generation \<Rightarrow>
                if \<not> 0 < generation then Inl (Bad ''Missing journal publication generation.'')
                else if generation < current_generation g then Inr None
                else if generation = current_generation g
                then (if dg_published g = Some (bp_id backup) then Inr None
                      else Inl (Conflict ''Conflicting journal publication generation.''))
                else if acknowledged then Inr (Some (acknowledge_grant (bp_id backup) generation g))
                else Inr (Some (extend_grant (bp_id backup) generation g))))"

definition update_grant ::
  "string \<Rightarrow> backup_point \<Rightarrow> bool \<Rightarrow> disk_grant table \<Rightarrow> (svc_error, unit) result \<times> disk_grant table" where
  "update_grant grant_id backup acknowledged t =
     (case tb_get t grant_id of
        None \<Rightarrow> (Inl (Forbidden ''Disk read grant missing.''), t)
      | Some g \<Rightarrow>
          (case update_one acknowledged backup g of
             Inl e \<Rightarrow> (Inl e, t)
           | Inr None \<Rightarrow> (Inr (), t)
           | Inr (Some g') \<Rightarrow> (Inr (), tb_put grant_id g' t)))"

definition grant_extend :: "string \<Rightarrow> backup_point \<Rightarrow> disk_grant table \<Rightarrow> (svc_error, unit) result \<times> disk_grant table" where
  "grant_extend grant_id backup t = update_grant grant_id backup False t"

definition grant_acknowledged :: "string \<Rightarrow> backup_point \<Rightarrow> disk_grant table \<Rightarrow> (svc_error, unit) result \<times> disk_grant table" where
  "grant_acknowledged grant_id backup t = update_grant grant_id backup True t"

definition pinned :: "string \<Rightarrow> disk_grant table \<Rightarrow> string list" where
  "pinned run t = concat (map dg_backups (filter (\<lambda>g. dg_run g = run) (tb_list t)))"

section \<open>Invariant of a grant\<close>

definition grant_ok :: "disk_grant \<Rightarrow> bool" where
  "grant_ok g \<longleftrightarrow> fst ` set (dg_pending g) \<subseteq> set (dg_backups g)
     \<and> (\<forall>b. dg_published g = Some b \<longrightarrow> b \<in> set (dg_backups g))
     \<and> list_all (\<lambda>(_, gen). current_generation g < gen) (dg_pending g)"

lemma grant_okD:
  assumes "grant_ok g"
  shows "(b, gen) \<in> set (dg_pending g) \<Longrightarrow> b \<in> set (dg_backups g)"
    "dg_published g = Some b \<Longrightarrow> b \<in> set (dg_backups g)"
    "(b, gen) \<in> set (dg_pending g) \<Longrightarrow> current_generation g < gen"
  using assms by (force simp: grant_ok_def list_all_iff)+

lemma grant_okI:
  assumes "\<And>b gen. (b, gen) \<in> set (dg_pending g) \<Longrightarrow> b \<in> set (dg_backups g) \<and> current_generation g < gen"
    and "\<And>b. dg_published g = Some b \<Longrightarrow> b \<in> set (dg_backups g)"
  shows "grant_ok g"
  using assms by (force simp: grant_ok_def list_all_iff)

lemma acknowledge_pending:
  "(b, gen) \<in> set (dg_pending (acknowledge_grant backup generation g))
     \<longleftrightarrow> (b, gen) \<in> set (dg_pending g) \<and> generation < gen"
  by (simp add: acknowledge_grant_def Let_def)

lemma acknowledge_backups:
  "b \<in> set (dg_backups (acknowledge_grant backup generation g))
     \<longleftrightarrow> b = backup \<or> (\<exists>gen. (b, gen) \<in> set (dg_pending g) \<and> generation < gen)"
  by (force simp: acknowledge_grant_def Let_def)

lemma acknowledge_fields [simp]:
  "current_generation (acknowledge_grant backup generation g) = generation"
  "dg_published (acknowledge_grant backup generation g) = Some backup"
  "dg_run (acknowledge_grant backup generation g) = dg_run g"
  "dg_node (acknowledge_grant backup generation g) = dg_node g"
  by (simp_all add: acknowledge_grant_def Let_def current_generation_def)

lemma extend_fields [simp]:
  "current_generation (extend_grant backup generation g) = current_generation g"
  "dg_published (extend_grant backup generation g) = dg_published g"
  "dg_run (extend_grant backup generation g) = dg_run g"
  "dg_node (extend_grant backup generation g) = dg_node g"
  "set (dg_backups (extend_grant backup generation g)) = insert backup (set (dg_backups g))"
  by (auto simp: extend_grant_def current_generation_def)

lemma extend_pending:
  "(b, gen) \<in> set (dg_pending (extend_grant backup generation g))
     \<longleftrightarrow> (b, gen) \<in> set (dg_pending g) \<or> (backup \<notin> fst ` set (dg_pending g) \<and> b = backup \<and> gen = generation)"
  by (auto simp: extend_grant_def)

lemma acknowledge_ok: "grant_ok (acknowledge_grant backup generation g)"
  by (rule grant_okI) (auto simp: acknowledge_pending acknowledge_backups)

lemma extend_ok:
  assumes "grant_ok g" "current_generation g < generation"
  shows "grant_ok (extend_grant backup generation g)"
  using assms by (intro grant_okI) (auto simp: extend_pending dest: grant_okD)

text \<open>What \<open>update_one\<close> writes, when it writes.\<close>

lemma update_one_cases:
  assumes "update_one acknowledged backup g = Inr (Some g')"
  obtains generation where "bp_generation backup = Some generation" "0 < generation"
    "current_generation g < generation" "dg_run g = bp_run backup"
    "g' = (if acknowledged then acknowledge_grant (bp_id backup) generation g else extend_grant (bp_id backup) generation g)"
  using assms unfolding update_one_def by (force split: if_splits option.splits)

lemma update_one_ok:
  assumes "grant_ok g" "update_one acknowledged backup g = Inr (Some g')"
  shows "grant_ok g' \<and> current_generation g \<le> current_generation g' \<and> dg_run g' = dg_run g
    \<and> bp_id backup \<in> set (dg_backups g') \<and> set (dg_backups g') \<subseteq> insert (bp_id backup) (set (dg_backups g))
    \<and> bp_run backup = dg_run g"
  using assms(2)
proof (cases rule: update_one_cases)
  case (1 generation)
  with assms(1) show ?thesis
    by (auto simp: acknowledge_ok extend_ok acknowledge_backups dest: grant_okD)
qed

lemma update_grant_cases:
  assumes "update_grant grant_id backup acknowledged t = (res, t')"
  obtains "t' = t" | g g' where "tb_get t grant_id = Some g" "update_one acknowledged backup g = Inr (Some g')"
    "t' = tb_put grant_id g' t" "res = Inr ()"
  using assms by (auto simp: update_grant_def split: option.splits sum.splits)

text \<open>A run of updates of one grant, in any order.\<close>

fun update_all :: "(backup_point \<times> bool) list \<Rightarrow> disk_grant \<Rightarrow> disk_grant" where
  "update_all [] g = g"
| "update_all ((backup, acknowledged) # us) g =
     update_all us (case update_one acknowledged backup g of Inr (Some g') \<Rightarrow> g' | _ \<Rightarrow> g)"

lemma update_one_pins:
  assumes "grant_ok g" "update_one acknowledged backup g = Inr (Some g')" "(b, gen) \<in> set (dg_pending g)"
    and "current_generation g' < gen"
  shows "(b, gen) \<in> set (dg_pending g')"
  using assms(2)
proof (cases rule: update_one_cases)
  case (1 generation)
  with assms show ?thesis by (auto simp: acknowledge_pending extend_pending split: if_splits)
qed

lemma update_all_pins:
  assumes "grant_ok g"
  shows "grant_ok (update_all us g) \<and> current_generation g \<le> current_generation (update_all us g)
    \<and> ((b, gen) \<in> set (dg_pending g) \<and> current_generation (update_all us g) < gen
         \<longrightarrow> b \<in> set (dg_backups (update_all us g)))"
  using assms
proof (induction us arbitrary: g)
  case Nil
  then show ?case by (auto dest: grant_okD)
next
  case (Cons u us)
  obtain backup acknowledged where u: "u = (backup, acknowledged)" by (cases u)
  show ?case
  proof (cases "update_one acknowledged backup g")
    case (Inr r)
    show ?thesis
    proof (cases r)
      case (Some g')
      note ok = update_one_ok [OF Cons.prems Inr [unfolded Some]]
      note ih = Cons.IH [of g'] and pins = update_one_pins [OF Cons.prems Inr [unfolded Some], of b gen]
      show ?thesis using ok ih pins by (auto simp: u Inr Some)
    qed (use Cons u Inr in simp)
  qed (use Cons u in simp)
qed

end
