(* ===== verification/Publication_Gc.thy ===== *)
theory Publication_Gc
  imports Disk_Grants
begin

text \<open>
  Publications of disks to remote storage and the collection of superseded ones
  (\<open>nodes/publication.rs\<close>): the upload intent, the completion and the commit of a publication,
  what a run still depends on, the retirement of the other publications, and the deletion of a conversation.
  The identifiers \<open>id()\<close> draws, the clock, the digest of a deletion, and the hashes of a decrypted
  legacy manifest are arguments.
\<close>

section \<open>State\<close>

record pub_run =
  pj_head :: "string option"
  pj_move :: "string option"

text \<open>
  A publication between its upload intent and its commit: the point with the blocks of its manifest, the
  objects it reserved, those already uploaded, and whether the duplicates are settled.
\<close>

record publishing =
  pg_point :: backup_point
  pg_objects :: "reserved_object list"
  pg_uploaded :: "string list"
  pg_settled :: bool

text \<open>What holds the operation lock of a run: a publication, or a collection with what it keeps and still retires.\<close>

datatype activity = Publishing publishing | Collecting "string list" "backup_point list"

text \<open>
  The tables of the store, the local manifests (upload intents), the running activities by run, the remote
  storage (content digest by key), the deletions under way and the identifiers drawn so far.
\<close>

record pub_state =
  ps_db :: shared_db
  ps_points :: "backup_point table"
  ps_runs :: "pub_run table"
  ps_grants :: "disk_grant table"
  ps_intents :: "((string \<times> string) \<times> backup_point) list"
  ps_active :: "activity table"
  ps_remote :: "string \<Rightarrow> string option"
  ps_claimed :: "deletion list"
  ps_used :: "string list"

definition block_key :: "string \<Rightarrow> string \<Rightarrow> string" where
  "block_key run hash = ''node-backups/'' @ run @ ''/blocks/'' @ hash"

definition manifest_key :: "string \<Rightarrow> string \<Rightarrow> string" where
  "manifest_key run point = ''node-backups/'' @ run @ ''/'' @ point @ ''.json''"

section \<open>One publication\<close>

text \<open>\<open>write_intent\<close>: reserve the objects of the blocks and write the local manifest, within the budget.\<close>

definition write_intent ::
  "(string \<Rightarrow> string) \<Rightarrow> (nat \<Rightarrow> string) \<Rightarrow> nat \<Rightarrow> nat \<Rightarrow> (backup_point \<Rightarrow> nat) \<Rightarrow> backup_point \<Rightarrow> pub_state
     \<Rightarrow> (svc_error, publishing) result \<times> pub_state" where
  "write_intent digest new occupied budget intent_len point st =
     (case shared_reserve digest new (bp_location point) (bp_id point) (bp_run point) (bp_blocks point) (ps_db st) of
        (Inl e, _) \<Rightarrow> (Inl e, st)
      | (Inr (blocks, objects), db) \<Rightarrow>
          let point1 = point\<lparr>bp_blocks := blocks\<rparr>; st1 = st\<lparr>ps_db := db\<rparr>
          in if min (occupied + intent_len point1) (2 ^ 64 - 1) > budget
             then (Inl (Internal ''Publication cache budget exhausted; the current disk remains available.''), st1)
             else (Inr \<lparr>pg_point = point1, pg_objects = objects, pg_uploaded = [], pg_settled = False\<rparr>,
                   st1\<lparr>ps_intents := ((bp_run point, bp_id point), point1)
                         # filter (\<lambda>(k, _). k \<noteq> (bp_run point, bp_id point)) (ps_intents st1)\<rparr>))"

text \<open>One \<open>PUT\<close> of \<open>start_uploads\<close>: the bytes were checked against the hash before.\<close>

definition upload_object :: "reserved_object \<Rightarrow> publishing \<Rightarrow> pub_state \<Rightarrow> publishing \<times> pub_state" where
  "upload_object ob pg st =
     (pg\<lparr>pg_uploaded := ro_id ob # pg_uploaded pg\<rparr>,
      st\<lparr>ps_remote := (ps_remote st)(object_key (ro_hash ob) (ro_id ob) \<mapsto> ro_hash ob)\<rparr>)"

definition uploads_finished :: "publishing \<Rightarrow> bool" where
  "uploads_finished pg = list_all (\<lambda>ob. ro_ready ob \<or> ro_id ob \<in> set (pg_uploaded pg)) (pg_objects pg)"

definition publish_manifest :: "int \<Rightarrow> publishing \<Rightarrow> pub_state \<Rightarrow> (svc_error, publishing) result \<times> pub_state" where
  "publish_manifest now pg st =
     (case complete_uploads now (bp_id (pg_point pg)) (bp_blocks (pg_point pg)) (ps_db st) of
        (Inl e, _) \<Rightarrow> (Inl e, st)
      | (Inr blocks, db) \<Rightarrow>
          let point = (pg_point pg)\<lparr>bp_blocks := blocks\<rparr>
          in (Inr (pg\<lparr>pg_point := point, pg_settled := True\<rparr>),
              st\<lparr>ps_db := db,
                 ps_intents := ((bp_run point, bp_id point), point)
                   # filter (\<lambda>(k, _). k \<noteq> (bp_run point, bp_id point)) (ps_intents st)\<rparr>))"

definition same_disk :: "string option \<Rightarrow> string option \<Rightarrow> string option \<Rightarrow> bool \<Rightarrow> string option \<Rightarrow> backup_point \<Rightarrow> pub_state \<Rightarrow> bool" where
  "same_disk runner node attempt on_demand grant_id point st =
     ((if on_demand
       then (case grant_id of
               None \<Rightarrow> False
             | Some i \<Rightarrow> (case tb_get (ps_grants st) i of
                            None \<Rightarrow> False
                          | Some g \<Rightarrow> dg_run g = bp_run point \<and> dg_node g = bp_node point))
       else runner = attempt)
      \<and> node = bp_node point)"

definition commit_point :: "bool \<Rightarrow> backup_point \<Rightarrow> pub_state \<Rightarrow> (svc_error, unit) result \<times> pub_state" where
  "commit_point same point st =
     (if \<not> same then (Inl (Conflict ''Disk owner changed during publication.''), st)
      else (case verified (ps_db st) (bp_id point) of
              Inl e \<Rightarrow> (Inl e, st)
            | Inr _ \<Rightarrow>
                (case tb_get (ps_runs st) (bp_run point) of
                   None \<Rightarrow> (Inl (Not_Found ''Conversation missing.''), st)
                 | Some run \<Rightarrow>
                     (Inr (), st\<lparr>ps_points := tb_put (bp_id point) point (ps_points st),
                                 ps_runs := tb_put (bp_run point) (run\<lparr>pj_head := Some (bp_id point)\<rparr>) (ps_runs st)\<rparr>))))"

section \<open>Collection\<close>

definition node_backups_for_run :: "pub_state \<Rightarrow> string \<Rightarrow> backup_point list" where
  "node_backups_for_run st run = filter (\<lambda>p. bp_run p = run) (tb_list (ps_points st))"

text \<open>
  \<open>retained\<close>: the points of the run, what it keeps, and the legacy blocks those need; \<open>None\<close> defers
  the cleanup.
\<close>

definition retained ::
  "(backup_point \<Rightarrow> string list option) \<Rightarrow> string \<Rightarrow> pub_state
     \<Rightarrow> (svc_error, (backup_point list \<times> string list \<times> string list) option) result" where
  "retained hashes run st =
     (let pins = pinned run (ps_grants st); points = node_backups_for_run st run
      in case tb_get (ps_runs st) run of
           None \<Rightarrow> Inl (Not_Found ''Run not found'')
         | Some current \<Rightarrow>
             rbind (case pj_head current of
                      Some head \<Rightarrow> Inr (pins @ [head])
                    | None \<Rightarrow> if points \<noteq> [] then Inl (Conflict ''Published disk pointer missing; cleanup deferred.'')
                              else Inr pins)
               (\<lambda>keep1. let keep = keep1 @ (case pj_move current of None \<Rightarrow> [] | Some i \<Rightarrow> [i])
                  in if list_ex (\<lambda>i. \<not> list_ex (\<lambda>p. bp_id p = i) points) keep
                     then Inl (Conflict ''A referenced disk manifest is missing; cleanup deferred.'')
                     else let legacy = filter (\<lambda>p. bp_id p \<in> set keep \<and> \<not> bp_shared p) points
                          in if list_ex (\<lambda>p. hashes p = None) legacy then Inr None
                             else Inr (Some (points, keep, concat (map (\<lambda>p. the (hashes p)) legacy)))))"

definition superseded :: "backup_point list \<Rightarrow> string list \<Rightarrow> backup_point list" where
  "superseded points keep = filter (\<lambda>p. bp_id p \<notin> set keep) points"

definition queue_deletion :: "(string \<Rightarrow> string) \<Rightarrow> string \<Rightarrow> string \<Rightarrow> bool \<Rightarrow> pub_state \<Rightarrow> pub_state" where
  "queue_deletion digest location key prefix st = st\<lparr>ps_db := queue_remote digest location key prefix (ps_db st)\<rparr>"

definition retire_point :: "(string \<Rightarrow> string) \<Rightarrow> int \<Rightarrow> string \<Rightarrow> backup_point \<Rightarrow> pub_state \<Rightarrow> pub_state" where
  "retire_point digest now run point st =
     (let st1 = (if bp_s3 point \<and> (run, bp_id point) \<notin> fst ` set (ps_intents st)
                 then queue_deletion digest (bp_location point) (manifest_key run (bp_id point)) False st else st)
      in st1\<lparr>ps_db := shared_release now (bp_id point) (ps_db st1), ps_points := tb_remove (bp_id point) (ps_points st1)\<rparr>)"

definition retire_points :: "(string \<Rightarrow> string) \<Rightarrow> int \<Rightarrow> string \<Rightarrow> backup_point list \<Rightarrow> pub_state \<Rightarrow> pub_state" where
  "retire_points digest now run points st = foldl (\<lambda>st p. retire_point digest now run p st) st points"

definition read_intent :: "string \<Rightarrow> string \<Rightarrow> backup_point \<Rightarrow> (svc_error, backup_point) result" where
  "read_intent run i point =
     (if bp_id point \<noteq> i \<or> bp_run point \<noteq> run then Inl (Bad ''Invalid publication upload inventory; cleanup deferred.'')
      else Inr point)"

text \<open>\<open>receipt hash\<close>: the block has a receipt of its upload to the location of the point.\<close>

definition abandoned_keys ::
  "(backup_point \<Rightarrow> string list option) \<Rightarrow> (string \<Rightarrow> bool) \<Rightarrow> string \<Rightarrow> backup_point \<Rightarrow> string list
     \<Rightarrow> (svc_error, string list) result" where
  "abandoned_keys hashes receipt run point needed =
     (if bp_shared point then Inr [manifest_key run (bp_id point)]
      else (case hashes point of
              None \<Rightarrow> Inl (Bad ''manifest'')
            | Some hs \<Rightarrow> Inr (manifest_key run (bp_id point)
                              # map (block_key run) (filter (\<lambda>h. h \<notin> set needed \<and> \<not> receipt h) (remdups hs)))))"

fun queue_abandoned ::
  "(backup_point \<Rightarrow> string list option) \<Rightarrow> (string \<Rightarrow> bool) \<Rightarrow> (string \<Rightarrow> string) \<Rightarrow> string \<Rightarrow> string list \<Rightarrow> string list
     \<Rightarrow> ((string \<times> string) \<times> backup_point) list \<Rightarrow> pub_state \<Rightarrow> (svc_error, unit) result \<times> pub_state" where
  "queue_abandoned hashes receipt digest run keep needed [] st = (Inr (), st)"
| "queue_abandoned hashes receipt digest run keep needed ((k, point0) # es) st =
     (if fst k \<noteq> run \<or> snd k \<in> set keep then queue_abandoned hashes receipt digest run keep needed es st
      else (case rbind (read_intent run (snd k) point0) (\<lambda>point.
                   if bp_s3 point then rbind (abandoned_keys hashes receipt run point needed) (\<lambda>keys. Inr (bp_location point, keys))
                   else Inr ([], [])) of
              Inl e \<Rightarrow> (Inl e, st)
            | Inr (location, keys) \<Rightarrow>
                let st1 = foldl (\<lambda>st key. queue_deletion digest location key False st) st keys
                in queue_abandoned hashes receipt digest run keep needed es
                     (st1\<lparr>ps_intents := filter (\<lambda>(k', _). k' \<noteq> k) (ps_intents st1)\<rparr>)))"

definition collect_unused ::
  "(backup_point \<Rightarrow> string list option) \<Rightarrow> (string \<Rightarrow> bool) \<Rightarrow> (string \<Rightarrow> string) \<Rightarrow> int \<Rightarrow> string \<Rightarrow> pub_state
     \<Rightarrow> (svc_error, unit) result \<times> pub_state" where
  "collect_unused hashes receipt digest now run st =
     (case retained hashes run st of
        Inl e \<Rightarrow> (Inl e, st)
      | Inr None \<Rightarrow> (Inr (), st)
      | Inr (Some (points, keep, needed)) \<Rightarrow>
          let st1 = retire_points digest now run (superseded points keep) st
          in (case queue_abandoned hashes receipt digest run keep needed (ps_intents st1) st1 of
                (Inl e, st2) \<Rightarrow> (Inl e, st2)
              | (Inr _, st2) \<Rightarrow> (Inr (), st2\<lparr>ps_db := release_run now run keep (ps_db st2)\<rparr>)))"

section \<open>Deletion of a conversation\<close>

definition purge_locations :: "string \<Rightarrow> pub_state \<Rightarrow> string list" where
  "purge_locations run st =
     remdups (map bp_location (filter bp_s3 (node_backups_for_run st run
       @ map snd (filter (\<lambda>(k, _). fst k = run) (ps_intents st)))))"

definition run_prefix :: "string \<Rightarrow> string" where
  "run_prefix run = ''node-backups/'' @ run @ ''/''"

definition purge_run :: "(string \<Rightarrow> string) \<Rightarrow> int \<Rightarrow> string \<Rightarrow> pub_state \<Rightarrow> pub_state" where
  "purge_run digest now run st =
     (let st1 = foldl (\<lambda>st l. queue_deletion digest l (run_prefix run) True st) st (purge_locations run st);
          points = map bp_id (node_backups_for_run st run)
      in st1\<lparr>ps_intents := filter (\<lambda>(k, _). fst k \<noteq> run) (ps_intents st1),
             ps_db := release_run now run [] (ps_db st1),
             ps_points := filter (\<lambda>(k, _). k \<notin> set points) (ps_points st1),
             ps_grants := filter (\<lambda>(_, g). dg_run g \<noteq> run) (ps_grants st1)\<rparr>)"

section \<open>Reading a block\<close>

text \<open>
  The block a granted node reads: the first publication of the grant that has it, from the remote storage; a
  missing publication ends the request.
\<close>

fun find_block :: "string \<Rightarrow> manifest_block list \<Rightarrow> manifest_block option" where
  "find_block hash [] = None"
| "find_block hash (b # bs) = (if mb_hash b = Some hash then Some b else find_block hash bs)"

fun granted_block :: "backup_point table \<Rightarrow> string \<Rightarrow> string list \<Rightarrow> (svc_error, backup_point \<times> manifest_block) result" where
  "granted_block points hash [] = Inl (Forbidden ''Block outside disk scope.'')"
| "granted_block points hash (i # is) =
     (case tb_get points i of
        None \<Rightarrow> Inl (Not_Found ''Record not found'')
      | Some p \<Rightarrow> (case find_block hash (bp_blocks p) of
                     None \<Rightarrow> granted_block points hash is
                   | Some b \<Rightarrow> Inr (p, b)))"

definition read_shared ::
  "(backup_point \<Rightarrow> string \<Rightarrow> (svc_error, string) result) \<Rightarrow> pub_state \<Rightarrow> disk_grant \<Rightarrow> string
     \<Rightarrow> (svc_error, string) result \<times> pub_state" where
  "read_shared legacy st g hash =
     (case granted_block (ps_points st) hash (dg_backups g) of
        Inl e \<Rightarrow> (Inl e, st)
      | Inr (p, b) \<Rightarrow>
          if \<not> bp_shared p then (legacy p hash, st)
          else (case mb_object b of
                  None \<Rightarrow> (Inl (Bad ''Invalid identifier.''), st)
                | Some k \<Rightarrow>
                    (case ps_remote st (object_key hash k) of
                       None \<Rightarrow> (Inl (Not_Found ''object''), st)
                     | Some content \<Rightarrow>
                         if content = hash then (Inr content, st)
                         else (Inl (Conflict ''Recovery block integrity check failed.''),
                               st\<lparr>ps_db := invalidate k (ps_db st)\<rparr>))))"

end
