(* ===== verification/Shared_Ledger.thy ===== *)
theory Shared_Ledger
  imports Shared_Blocks
begin

text \<open>
  The invariant of the tables of shared objects, and that every operation of \<open>nodes/shared_blocks.rs\<close>
  keeps it. \<open>settles\<close> describes what completing a publication changes.
\<close>

section \<open>Invariant of the tables\<close>

definition objs :: "shared_db \<Rightarrow> string \<Rightarrow> shared_object option" where
  "objs db = map_of (sd_objects db)"

definition refs :: "shared_db \<Rightarrow> (string \<times> string) set" where
  "refs db = set (sd_references db)"

definition pubs :: "shared_db \<Rightarrow> string set" where
  "pubs db = fst ` set (sd_publications db)"

text \<open>
  References lead from a publication to an object; exactly the objects without one have the time they
  were last used, and only those are being deleted; an object that is still uploaded belongs to one
  publication; and a destination has one verified object for each content.
\<close>

definition db_inv :: "shared_db \<Rightarrow> bool" where
  "db_inv db \<longleftrightarrow>
     distinct (map fst (sd_objects db))
     \<and> (\<forall>p k. (p, k) \<in> refs db \<longrightarrow> p \<in> pubs db \<and> objs db k \<noteq> None)
     \<and> (\<forall>k ob. objs db k = Some ob \<longrightarrow> (so_unused_at ob = None \<longleftrightarrow> (\<exists>p. (p, k) \<in> refs db)))
     \<and> (\<forall>k ob. objs db k = Some ob \<longrightarrow> so_state ob = Obj_Deleting \<longrightarrow> so_unused_at ob \<noteq> None)
     \<and> (\<forall>k ob p q. objs db k = Some ob \<longrightarrow> so_state ob = Obj_Pending \<longrightarrow> (p, k) \<in> refs db \<longrightarrow> (q, k) \<in> refs db \<longrightarrow> p = q)
     \<and> (\<forall>k k' ob ob'. objs db k = Some ob \<longrightarrow> objs db k' = Some ob' \<longrightarrow> so_state ob = Obj_Ready \<longrightarrow> so_state ob' = Obj_Ready \<longrightarrow>
          so_destination ob = so_destination ob' \<longrightarrow> so_hash ob = so_hash ob' \<longrightarrow> k = k')"

lemma db_invI:
  assumes "distinct (map fst (sd_objects db))"
    "\<And>p k. (p, k) \<in> refs db \<Longrightarrow> p \<in> pubs db \<and> objs db k \<noteq> None"
    "\<And>k ob. objs db k = Some ob \<Longrightarrow> so_unused_at ob = None \<longleftrightarrow> (\<exists>p. (p, k) \<in> refs db)"
    "\<And>k ob. objs db k = Some ob \<Longrightarrow> so_state ob = Obj_Deleting \<Longrightarrow> so_unused_at ob \<noteq> None"
    "\<And>k ob p q. objs db k = Some ob \<Longrightarrow> so_state ob = Obj_Pending \<Longrightarrow> (p, k) \<in> refs db \<Longrightarrow> (q, k) \<in> refs db \<Longrightarrow> p = q"
    "\<And>k k' ob ob'. objs db k = Some ob \<Longrightarrow> objs db k' = Some ob' \<Longrightarrow> so_state ob = Obj_Ready \<Longrightarrow> so_state ob' = Obj_Ready \<Longrightarrow>
          so_destination ob = so_destination ob' \<Longrightarrow> so_hash ob = so_hash ob' \<Longrightarrow> k = k'"
  shows "db_inv db"
  using assms unfolding db_inv_def by blast

lemma db_invD:
  assumes "db_inv db"
  shows "distinct (map fst (sd_objects db))"
    "(p, k) \<in> refs db \<Longrightarrow> p \<in> pubs db" "(p, k) \<in> refs db \<Longrightarrow> \<exists>ob. objs db k = Some ob"
    "objs db k = Some ob \<Longrightarrow> so_unused_at ob = None \<longleftrightarrow> (\<exists>p. (p, k) \<in> refs db)"
    "objs db k = Some ob \<Longrightarrow> so_state ob = Obj_Deleting \<Longrightarrow> so_unused_at ob \<noteq> None"
    "objs db k = Some ob \<Longrightarrow> so_state ob = Obj_Pending \<Longrightarrow> (p, k) \<in> refs db \<Longrightarrow> (q, k) \<in> refs db \<Longrightarrow> p = q"
    "objs db k = Some ob \<Longrightarrow> objs db k' = Some ob' \<Longrightarrow> so_state ob = Obj_Ready \<Longrightarrow> so_state ob' = Obj_Ready \<Longrightarrow>
          so_destination ob = so_destination ob' \<Longrightarrow> so_hash ob = so_hash ob' \<Longrightarrow> k = k'"
  using assms unfolding db_inv_def by blast+

lemma objs_update [simp]:
  "objs (update_objects P f db) k = map_option (\<lambda>ob. if P k ob then f ob else ob) (objs db k)"
proof -
  have "map_of (map (\<lambda>(k, ob). (k, if P k ob then f ob else ob)) xs) k =
      map_option (\<lambda>ob. if P k ob then f ob else ob) (map_of xs k)" for xs
    by (induction xs) auto
  then show ?thesis by (simp add: objs_def update_objects_def)
qed

lemma update_fields [simp]:
  "refs (update_objects P f db) = refs db" "pubs (update_objects P f db) = pubs db"
  "sd_references (update_objects P f db) = sd_references db"
  "sd_publications (update_objects P f db) = sd_publications db"
  "map fst (sd_objects (update_objects P f db)) = map fst (sd_objects db)"
  by (simp_all add: refs_def pubs_def update_objects_def case_prod_unfold)

lemma objs_fields [simp]:
  "objs (db\<lparr>sd_references := r\<rparr>) = objs db" "objs (db\<lparr>sd_publications := u\<rparr>) = objs db"
  "objs (db\<lparr>sd_deletions := d\<rparr>) = objs db"
  "refs (db\<lparr>sd_references := r\<rparr>) = set r" "refs (db\<lparr>sd_publications := u\<rparr>) = refs db"
  "refs (db\<lparr>sd_objects := ob\<rparr>) = refs db" "refs (db\<lparr>sd_deletions := d\<rparr>) = refs db"
  "pubs (db\<lparr>sd_references := r\<rparr>) = pubs db" "pubs (db\<lparr>sd_objects := ob\<rparr>) = pubs db"
  "pubs (db\<lparr>sd_deletions := d\<rparr>) = pubs db" "pubs (db\<lparr>sd_publications := u\<rparr>) = fst ` set u"
  by (simp_all add: objs_def refs_def pubs_def)

lemma referenced_refs: "referenced db k \<longleftrightarrow> (\<exists>p. (p, k) \<in> refs db)"
  by (auto simp: referenced_def refs_def list_ex_iff)

lemma objs_entry: "distinct (map fst (sd_objects db)) \<Longrightarrow> (k, ob) \<in> set (sd_objects db) \<longleftrightarrow> objs db k = Some ob"
  by (simp add: objs_def)

lemma find_SomeD: "List.find P xs = Some x \<Longrightarrow> x \<in> set xs \<and> P x"
  by (induction xs) (auto split: if_splits)

lemma lookup_ready_Some:
  assumes "lookup_ready db destination hash = Some (k, s)" "distinct (map fst (sd_objects db))"
  shows "\<exists>ob. objs db k = Some ob \<and> so_destination ob = destination \<and> so_hash ob = hash \<and> so_state ob = Obj_Ready \<and> so_size ob = s"
proof -
  obtain k' ob where f: "List.find (\<lambda>(_, ob). so_destination ob = destination \<and> so_hash ob = hash \<and> so_state ob = Obj_Ready) (sd_objects db) = Some (k', ob)"
    and e: "k' = k" "so_size ob = s" using assms(1) by (auto simp: lookup_ready_def)
  show ?thesis using find_SomeD [OF f] objs_entry [OF assms(2)] e by auto
qed

lemma lookup_ready_None:
  assumes "lookup_ready db destination hash = None" "objs db k = Some ob" "so_state ob = Obj_Ready"
    "so_destination ob = destination"
  shows "so_hash ob \<noteq> hash"
  using assms by (auto simp: lookup_ready_def find_None_iff objs_def dest!: map_of_SomeD)

section \<open>Operations keep it\<close>

text \<open>An operation that changes times and retires rows: what it has to show.\<close>

definition row_ok :: "shared_db \<Rightarrow> shared_db \<Rightarrow> string \<Rightarrow> shared_object \<Rightarrow> bool" where
  "row_ok db db' k ob' \<longleftrightarrow> (\<exists>ob. objs db k = Some ob
     \<and> so_destination ob' = so_destination ob \<and> so_hash ob' = so_hash ob
     \<and> (so_state ob' = Obj_Ready \<longrightarrow> so_state ob = Obj_Ready) \<and> (so_state ob' = Obj_Pending \<longrightarrow> so_state ob = Obj_Pending)
     \<and> (so_state ob' = Obj_Deleting \<longrightarrow> so_unused_at ob' \<noteq> None)
     \<and> (so_unused_at ob' = None \<longleftrightarrow> (\<exists>p. (p, k) \<in> refs db')))"

definition ref_ok :: "shared_db \<Rightarrow> shared_db \<Rightarrow> string \<Rightarrow> string \<Rightarrow> bool" where
  "ref_ok db db' p k \<longleftrightarrow> p \<in> pubs db' \<and> objs db' k \<noteq> None
     \<and> ((p, k) \<in> refs db \<or> (\<exists>ob. objs db k = Some ob \<and> so_state ob = Obj_Ready))"

lemma db_inv_change:
  assumes inv: "db_inv db" and keys: "distinct (map fst (sd_objects db'))"
    and row': "\<And>k ob. objs db' k = Some ob \<Longrightarrow> row_ok db db' k ob"
    and ref': "\<And>p k. (p, k) \<in> refs db' \<Longrightarrow> ref_ok db db' p k"
  shows "db_inv db'"
proof -
  note row = row' [unfolded row_ok_def] and ref = ref' [unfolded ref_ok_def]
  show ?thesis
  proof (rule db_invI [OF keys])
  fix p k assume "(p, k) \<in> refs db'"
  then show "p \<in> pubs db' \<and> objs db' k \<noteq> None" using ref by blast
next
  fix k ob assume "objs db' k = Some ob"
  then show "so_unused_at ob = None \<longleftrightarrow> (\<exists>p. (p, k) \<in> refs db')" using row by blast
next
  fix k ob assume "objs db' k = Some ob" "so_state ob = Obj_Deleting"
  then show "so_unused_at ob \<noteq> None" using row by blast
next
  fix k ob p q assume k: "objs db' k = Some ob" "so_state ob = Obj_Pending" "(p, k) \<in> refs db'" "(q, k) \<in> refs db'"
  obtain o1 where o1: "objs db k = Some o1" "so_state o1 = Obj_Pending" using row [OF k(1)] k(2) by blast
  then have "(p, k) \<in> refs db" "(q, k) \<in> refs db" using ref [OF k(3)] ref [OF k(4)] by auto
  then show "p = q" using db_invD(6) [OF inv o1] by blast
next
  fix k k' ob ob' assume k: "objs db' k = Some ob" "objs db' k' = Some ob'" "so_state ob = Obj_Ready" "so_state ob' = Obj_Ready"
    "so_destination ob = so_destination ob'" "so_hash ob = so_hash ob'"
  obtain o1 where o1: "objs db k = Some o1" "so_state o1 = Obj_Ready" "so_destination o1 = so_destination ob" "so_hash o1 = so_hash ob"
    using row [OF k(1)] k(3) by metis
  obtain o2 where o2: "objs db k' = Some o2" "so_state o2 = Obj_Ready" "so_destination o2 = so_destination ob'" "so_hash o2 = so_hash ob'"
    using row [OF k(2)] k(4) by metis
  show "k = k'" using db_invD(7) [OF inv o1(1) o2(1) o1(2) o2(2)] o1 o2 k by simp
  qed
qed

lemma db_inv_publication:
  assumes inv: "db_inv db" and i: "insert_publication p run db = Inr db'"
  shows "db_inv db' \<and> pubs db' = insert p (pubs db) \<and> p \<notin> pubs db \<and> objs db' = objs db \<and> refs db' = refs db"
proof -
  have db': "db' = db\<lparr>sd_publications := sd_publications db @ [(p, run)]\<rparr>" and p: "p \<notin> pubs db"
    using i by (auto simp: insert_publication_def pubs_def split: if_splits)
  have f: "pubs db' = insert p (pubs db)" "objs db' = objs db" "refs db' = refs db" "sd_objects db' = sd_objects db"
    by (simp_all add: db' pubs_def)
  have "db_inv db'"
  proof (rule db_inv_change [OF inv])
    fix k ob assume "objs db' k = Some ob"
    then show "row_ok db db' k ob"
      using db_invD(4,5) [OF inv, of k ob] by (simp add: f row_ok_def)
  next
    fix q k assume "(q, k) \<in> refs db'"
    then show "ref_ok db db' q k"
      using db_invD(2,3) [OF inv, of q k] by (auto simp: f ref_ok_def)
  qed (use db_invD(1) [OF inv] f in simp)
  then show ?thesis using f p by simp
qed

text \<open>What one reservation leaves: the object with the content, and a reference to it.\<close>

lemma reserve_hash_inv:
  assumes inv: "db_inv db" and p: "publication \<in> pubs db"
    and r: "reserve_hash location destination publication new hash bytes db = Inr (ob, db')"
  shows "db_inv db' \<and> pubs db' = pubs db \<and> refs db' = insert (publication, ro_id ob) (refs db)
    \<and> (\<forall>k o1. objs db k = Some o1 \<longrightarrow>
          (\<exists>o2. objs db' k = Some o2 \<and> so_state o2 = so_state o1 \<and> so_hash o2 = so_hash o1 \<and> so_size o2 = so_size o1))
    \<and> (\<forall>k o2. objs db' k = Some o2 \<longrightarrow> objs db k \<noteq> None \<or> k = new \<and> so_state o2 = Obj_Pending)
    \<and> (\<exists>o2. objs db' (ro_id ob) = Some o2 \<and> so_hash o2 = hash \<and> so_size o2 = bytes \<and> ro_hash ob = hash \<and> ro_size ob = bytes
          \<and> (so_state o2 = Obj_Ready \<or> so_state o2 = Obj_Pending \<and> ro_id ob = new \<and> objs db new = None))"
proof (cases "lookup_ready db destination hash")
  case None
  let ?o = "\<lparr>so_destination = destination, so_hash = hash, so_size = bytes, so_location = location,
     so_state = Obj_Pending, so_unused_at = None, so_retry_at = 0\<rparr>"
  have new: "new \<notin> fst ` set (sd_objects db)" and ob: "ob = \<lparr>ro_id = new, ro_hash = hash, ro_size = bytes, ro_ready = False\<rparr>"
    and db': "db' = db\<lparr>sd_objects := sd_objects db @ [(new, ?o)], sd_references := sd_references db @ [(publication, new)]\<rparr>"
    using r None by (auto simp: reserve_hash_def insert_object_def insert_reference_def rbind_Inr_iff split: if_splits)
  have on: "objs db new = None" using new by (simp add: objs_def map_of_eq_None_iff)
  have o': "objs db' k = (if k = new then Some ?o else objs db k)" for k
    using on by (auto simp: db' objs_def map_add_def split: option.split)
  have fresh: "(q, new) \<notin> refs db" for q using db_invD(3) [OF inv, of q new] on by auto
  have r': "refs db' = insert (publication, new) (refs db)" by (simp add: db' refs_def)
  have p': "pubs db' = pubs db" by (simp add: db' pubs_def)
  have "db_inv db'"
  proof (rule db_invI)
    show "distinct (map fst (sd_objects db'))" using db_invD(1) [OF inv] new by (auto simp: db')
  next
    fix q k assume "(q, k) \<in> refs db'"
    then show "q \<in> pubs db' \<and> objs db' k \<noteq> None" using db_invD(2,3) [OF inv, of q k] p by (auto simp: r' p' o')
  next
    fix k o1 assume "objs db' k = Some o1"
    then show "so_unused_at o1 = None \<longleftrightarrow> (\<exists>p. (p, k) \<in> refs db')" using db_invD(4) [OF inv, of k o1] by (auto simp: r' o' split: if_splits)
  next
    fix k o1 assume "objs db' k = Some o1" "so_state o1 = Obj_Deleting"
    then show "so_unused_at o1 \<noteq> None" using db_invD(5) [OF inv, of k o1] by (auto simp: o' split: if_splits)
  next
    fix k o1 q q' assume "objs db' k = Some o1" "so_state o1 = Obj_Pending" "(q, k) \<in> refs db'" "(q', k) \<in> refs db'"
    then show "q = q'" using db_invD(6) [OF inv, of k o1 q q'] fresh by (auto simp: o' r' split: if_splits)
  next
    fix k k' o1 o2 assume "objs db' k = Some o1" "objs db' k' = Some o2" "so_state o1 = Obj_Ready" "so_state o2 = Obj_Ready"
      "so_destination o1 = so_destination o2" "so_hash o1 = so_hash o2"
    then show "k = k'" using db_invD(7) [OF inv, of k o1 k' o2] by (auto simp: o' split: if_splits)
  qed
  then show ?thesis using r' p' o' on by (auto simp: ob)
next
  case (Some found)
  obtain k0 where s: "found = (k0, bytes)" and ob: "ob = \<lparr>ro_id = k0, ro_hash = hash, ro_size = bytes, ro_ready = True\<rparr>"
    and db': "db' = (revive k0 db)\<lparr>sd_references := sd_references db @ [(publication, k0)]\<rparr>"
    using r Some by (auto simp: reserve_hash_def insert_reference_def rbind_Inr_iff revive_def split: if_splits prod.splits)
  obtain o0 where o0: "objs db k0 = Some o0" "so_destination o0 = destination" "so_hash o0 = hash" "so_state o0 = Obj_Ready" "so_size o0 = bytes"
    using lookup_ready_Some [OF Some [unfolded s] db_invD(1) [OF inv]] by blast
  have o': "objs db' k = map_option (\<lambda>o1. if k = k0 then o1\<lparr>so_unused_at := None\<rparr> else o1) (objs db k)" for k
    by (auto simp: db' revive_def map_option_case split: option.split)
  have r': "refs db' = insert (publication, k0) (refs db)" by (simp add: db' refs_def)
  have p': "pubs db' = pubs db" by (simp add: db' revive_def)
  have "db_inv db'"
  proof (rule db_inv_change [OF inv])
    fix k ob assume "objs db' k = Some ob"
    then obtain o1 where o1: "objs db k = Some o1" "ob = (if k = k0 then o1\<lparr>so_unused_at := None\<rparr> else o1)" by (auto simp: o')
    then show "row_ok db db' k ob"
      using db_invD(4,5) [OF inv o1(1)] o0 by (cases "k = k0") (auto simp: r' row_ok_def)
  next
    fix q k assume "(q, k) \<in> refs db'"
    then show "ref_ok db db' q k"
      using db_invD(2,3) [OF inv, of q k] p o0 by (auto simp: r' p' o' ref_ok_def)
  qed (use db_invD(1) [OF inv] in \<open>simp add: db' revive_def\<close>)
  then show ?thesis using r' p' o' o0 by (auto simp: ob)
qed

text \<open>Rows keep their state and content, new ones are being uploaded.\<close>

definition keeps :: "shared_db \<Rightarrow> shared_db \<Rightarrow> bool" where
  "keeps db db' \<longleftrightarrow> (\<forall>k o1. objs db k = Some o1 \<longrightarrow>
     (\<exists>o2. objs db' k = Some o2 \<and> so_state o2 = so_state o1 \<and> so_hash o2 = so_hash o1 \<and> so_size o2 = so_size o1))"

definition adds :: "(nat \<Rightarrow> string) \<Rightarrow> shared_db \<Rightarrow> shared_db \<Rightarrow> bool" where
  "adds new db db' \<longleftrightarrow> (\<forall>k ob. objs db' k = Some ob \<longrightarrow> objs db k = None \<longrightarrow> k \<in> range new \<and> so_state ob = Obj_Pending)"

lemma keeps_refl [simp]: "keeps db db"
  by (simp add: keeps_def)

lemma adds_refl [simp]: "adds new db db"
  by (simp add: adds_def)

lemma keepsD:
  "keeps db db' \<Longrightarrow> objs db k = Some o1 \<Longrightarrow>
     \<exists>o2. objs db' k = Some o2 \<and> so_state o2 = so_state o1 \<and> so_hash o2 = so_hash o1 \<and> so_size o2 = so_size o1"
  by (simp add: keeps_def)

lemma keeps_trans: "keeps a b \<Longrightarrow> keeps b c \<Longrightarrow> keeps a c"
  unfolding keeps_def [of a c] by (fastforce dest: keepsD)

lemma adds_trans: "adds new a b \<Longrightarrow> adds new b c \<Longrightarrow> keeps b c \<Longrightarrow> adds new a c"
  unfolding adds_def [of new a c] by (fastforce simp: adds_def dest: keepsD)

text \<open>The blocks of a publication's manifest name objects it references, with their content.\<close>

definition block_ok :: "shared_db \<Rightarrow> string \<Rightarrow> manifest_block \<Rightarrow> bool" where
  "block_ok db p b \<longleftrightarrow> (\<forall>h. mb_hash b = Some h \<longrightarrow>
     (\<exists>k ob. mb_object b = Some k \<and> (p, k) \<in> refs db \<and> objs db k = Some ob \<and> so_hash ob = h \<and> so_size ob = mb_size b))"

definition reserved_ok :: "shared_db \<Rightarrow> string \<Rightarrow> reserved_object \<Rightarrow> bool" where
  "reserved_ok db p r \<longleftrightarrow> (p, ro_id r) \<in> refs db
     \<and> (\<exists>ob. objs db (ro_id r) = Some ob \<and> so_hash ob = ro_hash r \<and> so_size ob = ro_size r)"

lemma block_ok_mono: "block_ok db p b \<Longrightarrow> keeps db db' \<Longrightarrow> refs db \<subseteq> refs db' \<Longrightarrow> block_ok db' p b"
  unfolding block_ok_def by (fastforce dest: keepsD)

lemma reserved_ok_mono: "reserved_ok db p r \<Longrightarrow> keeps db db' \<Longrightarrow> refs db \<subseteq> refs db' \<Longrightarrow> reserved_ok db' p r"
  unfolding reserved_ok_def by (fastforce dest: keepsD)

definition grows :: "(nat \<Rightarrow> string) \<Rightarrow> string \<Rightarrow> shared_db \<Rightarrow> shared_db \<Rightarrow> bool" where
  "grows new p db db' \<longleftrightarrow> db_inv db' \<and> pubs db' = pubs db \<and> keeps db db' \<and> adds new db db'
     \<and> refs db \<subseteq> refs db' \<and> refs db' \<subseteq> refs db \<union> {p} \<times> UNIV"

lemma grows_refl: "db_inv db \<Longrightarrow> grows new p db db"
  by (simp add: grows_def)

lemma grows_trans: "grows new p a b \<Longrightarrow> grows new p b c \<Longrightarrow> grows new p a c"
  unfolding grows_def by (auto intro: keeps_trans adds_trans)

lemma reserve_hash_grows:
  assumes "db_inv db" "p \<in> pubs db" "reserve_hash location destination p (new i) hash bytes db = Inr (r, db')"
  shows "grows new p db db' \<and> reserved_ok db' p r \<and> ro_hash r = hash"
proof -
  note R = reserve_hash_inv [OF assms]
  obtain o2 where o2: "objs db' (ro_id r) = Some o2" "so_hash o2 = hash" "so_size o2 = bytes" "ro_hash r = hash" "ro_size r = bytes"
    "so_state o2 = Obj_Ready \<or> so_state o2 = Obj_Pending \<and> ro_id r = new i \<and> objs db (new i) = None"
    using R by blast
  have "keeps db db'" unfolding keeps_def using R by blast
  moreover have "adds new db db'" unfolding adds_def using R by blast
  ultimately show ?thesis using R o2 by (auto simp: grows_def reserved_ok_def)
qed

lemma reserve_blocks_grows:
  assumes "reserve_blocks location destination p new i bs objects db = Inr ((bs', os), db')"
    "db_inv db" "p \<in> pubs db" "list_all (reserved_ok db p) objects"
  shows "grows new p db db' \<and> list_all (block_ok db' p) bs' \<and> list_all (reserved_ok db' p) os
    \<and> map mb_hash bs' = map mb_hash bs \<and> map mb_size bs' = map mb_size bs"
  using assms
proof (induction location destination p new i bs objects db arbitrary: bs' os db' rule: reserve_blocks.induct)
  case (1 location destination p new i objects db)
  then show ?case by (simp add: grows_refl)
next
  case (2 location destination p new i b bs objects db)
  show ?case
  proof (cases "mb_hash b")
    case None
    then obtain bs1 where bs1: "reserve_blocks location destination p new (Suc i) bs objects db = Inr ((bs1, os), db')" "bs' = b # bs1"
      using "2.prems"(1) by (auto simp: rbind_Inr_iff)
    then show ?thesis using "2.IH"(1) [OF None bs1(1) "2.prems"(2-4)] None by (simp add: block_ok_def)
  next
    case (Some hash)
    define first where "first = (case List.find (\<lambda>ob. ro_hash ob = hash) objects of
        Some ob \<Rightarrow> Inr (ob, objects, db)
      | None \<Rightarrow> rbind (reserve_hash location destination p (new i) hash (mb_size b) db) (\<lambda>(ob, db1). Inr (ob, objects @ [ob], db1)))"
    obtain r objects1 db1 bs1 where f: "first = Inr (r, objects1, db1)" and sz: "ro_size r = mb_size b"
      and rest: "reserve_blocks location destination p new (Suc i) bs objects1 db1 = Inr ((bs1, os), db')"
      and bs': "bs' = b\<lparr>mb_object := Some (ro_id r)\<rparr> # bs1"
      using "2.prems"(1) Some by (auto simp: rbind_Inr_iff first_def [symmetric] split: if_splits prod.splits)
    have G: "grows new p db db1 \<and> list_all (reserved_ok db1 p) objects1 \<and> reserved_ok db1 p r \<and> ro_hash r = hash"
    proof (cases "List.find (\<lambda>ob. ro_hash ob = hash) objects")
      case (Some r0)
      then show ?thesis using f find_SomeD [OF Some] "2.prems"(2,4) by (auto simp: first_def list_all_iff grows_refl)
    next
      case None
      then have h: "reserve_hash location destination p (new i) hash (mb_size b) db = Inr (r, db1)" "objects1 = objects @ [r]"
        using f by (auto simp: first_def rbind_Inr_iff)
      have "grows new p db db1 \<and> reserved_ok db1 p r \<and> ro_hash r = hash"
        using reserve_hash_grows [where new = new and i = i, OF "2.prems"(2,3) h(1)] by simp
      then show ?thesis using "2.prems"(4) h(2) by (auto simp: list_all_iff grows_def intro: reserved_ok_mono)
    qed
    have IH: "grows new p db1 db' \<and> list_all (block_ok db' p) bs1 \<and> list_all (reserved_ok db' p) os
        \<and> map mb_hash bs1 = map mb_hash bs \<and> map mb_size bs1 = map mb_size bs"
      using "2.IH"(2) [OF Some, of r objects1 db1] rest sz G "2.prems"(3) by (simp add: grows_def)
    have "reserved_ok db' p r" using G IH by (auto simp: grows_def intro: reserved_ok_mono)
    then have "block_ok db' p (b\<lparr>mb_object := Some (ro_id r)\<rparr>)" using G Some sz by (auto simp: block_ok_def reserved_ok_def)
    then show ?thesis using G IH grows_trans [of new p db db1 db'] bs' by simp
  qed
qed

lemma release_fields:
  defines "alone db p k \<equiv> (p, k) \<in> refs db \<and> (\<forall>q. (q, k) \<in> refs db \<longrightarrow> q = p)"
  shows "objs (shared_release now p db) k = map_option (\<lambda>ob. if alone db p k then ob\<lparr>so_unused_at := Some now\<rparr> else ob) (objs db k)"
    and "refs (shared_release now p db) = {(q, k) \<in> refs db. q \<noteq> p}"
    and "pubs (shared_release now p db) = pubs db - {p}"
    and "map fst (sd_objects (shared_release now p db)) = map fst (sd_objects db)"
  by (auto simp: shared_release_def Let_def alone_def refs_def pubs_def list_ex_iff map_option_case split: option.split)

lemma db_inv_release:
  assumes inv: "db_inv db"
  shows "db_inv (shared_release now p db)" (is "db_inv ?d")
proof (rule db_inv_change [OF inv])
  fix k ob assume "objs ?d k = Some ob"
  then obtain o1 where o1: "objs db k = Some o1"
    "ob = (if (p, k) \<in> refs db \<and> (\<forall>q. (q, k) \<in> refs db \<longrightarrow> q = p) then o1\<lparr>so_unused_at := Some now\<rparr> else o1)"
    by (auto simp: release_fields(1))
  then show "row_ok db ?d k ob"
    using db_invD(4,5) [OF inv o1(1)] by (auto simp: row_ok_def release_fields(2))
next
  fix q k assume "(q, k) \<in> refs ?d"
  then show "ref_ok db ?d q k"
    using db_invD(2,3) [OF inv, of q k] by (auto simp: ref_ok_def release_fields)
qed (use db_invD(1) [OF inv] in \<open>simp add: release_fields\<close>)

lemma db_inv_update:
  assumes inv: "db_inv db"
    and f: "\<And>k ob. objs db k = Some ob \<Longrightarrow> P k ob \<Longrightarrow>
        so_destination (f ob) = so_destination ob \<and> so_hash (f ob) = so_hash ob \<and> so_unused_at (f ob) = so_unused_at ob
        \<and> so_state (f ob) \<noteq> Obj_Ready \<and> so_state (f ob) \<noteq> Obj_Pending \<and> (so_state (f ob) = Obj_Deleting \<longrightarrow> so_unused_at ob \<noteq> None)"
  shows "db_inv (update_objects P f db)" (is "db_inv ?d")
proof (rule db_inv_change [OF inv])
  fix k ob assume "objs ?d k = Some ob"
  then obtain o1 where o1: "objs db k = Some o1" "ob = (if P k o1 then f o1 else o1)" by auto
  then show "row_ok db ?d k ob"
    using db_invD(4,5) [OF inv o1(1)] f [OF o1(1)] by (auto simp: row_ok_def)
next
  fix q k assume "(q, k) \<in> refs ?d"
  then show "ref_ok db ?d q k" using db_invD(2,3) [OF inv, of q k] by (auto simp: ref_ok_def)
qed (use db_invD(1) [OF inv] in simp)

lemma db_inv_invalidate: "db_inv db \<Longrightarrow> db_inv (invalidate k db)"
  unfolding invalidate_def by (rule db_inv_update) auto

lemma due_objects_unused:
  assumes "db_inv db" "(k, ob) \<in> set (due_objects now cutoff db)"
  shows "objs db k = Some ob \<and> so_unused_at ob \<noteq> None \<and> (\<forall>p. (p, k) \<notin> refs db)"
  using assms(2) objs_entry [OF db_invD(1) [OF assms(1)], of k ob]
  by (auto simp: due_objects_def referenced_refs dest!: in_set_takeD split: option.splits)

lemma db_inv_deletions: "db_inv (db\<lparr>sd_deletions := d\<rparr>) = db_inv db"
  by (simp add: db_inv_def)

lemma db_inv_claim:
  assumes inv: "db_inv db"
  shows "db_inv (snd (claim now cutoff db))"
proof -
  have "db_inv (update_objects (\<lambda>k _. k \<in> fst ` set (due_objects now cutoff db))
      (\<lambda>ob. ob\<lparr>so_state := Obj_Deleting, so_retry_at := now + 60000\<rparr>) db)"
    by (rule db_inv_update [OF inv]) (auto dest!: due_objects_unused [OF inv])
  then show ?thesis by (simp add: claim_def Let_def db_inv_deletions)
qed

lemma forget_objs:
  assumes "distinct (map fst (sd_objects db))"
  shows "objs (forget_deleted d db) k =
    (if de_shared d \<and> k = de_id d \<and> (\<exists>ob. objs db k = Some ob \<and> so_state ob = Obj_Deleting) \<and> (\<forall>p. (p, k) \<notin> refs db)
     then None else objs db k)"
  using hm_get_retain [of "sd_objects db" "\<lambda>k ob. \<not> (k = de_id d \<and> so_state ob = Obj_Deleting \<and> \<not> referenced db k)" k] assms
  by (cases "objs db k") (auto simp: forget_deleted_def objs_def hm_get_def hm_retain_def hm_ok_def referenced_refs)

lemma db_inv_forget:
  assumes inv: "db_inv db"
  shows "db_inv (forget_deleted d db)" (is "db_inv ?d")
proof (rule db_inv_change [OF inv])
  have r: "refs ?d = refs db" and p: "pubs ?d = pubs db" by (simp_all add: forget_deleted_def)
  fix k
  show "row_ok db ?d k ob" if "objs ?d k = Some ob" for ob
    using that db_invD(4,5) [OF inv, of k ob] by (auto simp: row_ok_def r forget_objs [OF db_invD(1) [OF inv]] split: if_splits)
  show "ref_ok db ?d q k" if "(q, k) \<in> refs ?d" for q
    using that db_invD(2,3) [OF inv, of q k] by (auto simp: ref_ok_def r p forget_objs [OF db_invD(1) [OF inv]])
qed (use db_invD(1) [OF inv] in \<open>simp add: forget_deleted_def distinct_filter_fst\<close>)

section \<open>Completion keeps it\<close>

text \<open>\<open>waiting db p es\<close>: the objects \<open>es\<close> are still to be settled for publication \<open>p\<close>.\<close>

definition waiting :: "shared_db \<Rightarrow> string \<Rightarrow> (string \<times> shared_object) list \<Rightarrow> bool" where
  "waiting db p es \<longleftrightarrow> distinct (map fst es) \<and> (\<forall>(k, ob) \<in> set es. (p, k) \<in> refs db
     \<and> (\<exists>o1. objs db k = Some o1 \<and> so_state o1 = Obj_Pending \<and> so_destination o1 = so_destination ob
          \<and> so_hash o1 = so_hash ob \<and> so_size o1 = so_size ob))"

text \<open>
  What settling changes: rows keep their content, and a pending row of the publication may become ready;
  each object the publication referenced stays or is replaced by a ready one with the same content.
\<close>

definition same_row :: "shared_object \<Rightarrow> shared_object \<Rightarrow> bool" where
  "same_row ob ob' \<longleftrightarrow> so_hash ob' = so_hash ob \<and> so_size ob' = so_size ob"

definition rows_settle :: "string \<Rightarrow> shared_db \<Rightarrow> shared_db \<Rightarrow> bool" where
  "rows_settle p db db' \<longleftrightarrow> (\<forall>k. objs db k = None \<longleftrightarrow> objs db' k = None)
     \<and> (\<forall>k ob ob'. objs db k = Some ob \<longrightarrow> objs db' k = Some ob' \<longrightarrow> same_row ob ob'
          \<and> (so_state ob' = so_state ob \<or> so_state ob = Obj_Pending \<and> so_state ob' = Obj_Ready \<and> (p, k) \<in> refs db))"

definition refs_settle :: "string \<Rightarrow> (string \<times> string) list \<Rightarrow> shared_db \<Rightarrow> shared_db \<Rightarrow> bool" where
  "refs_settle p reps db db' \<longleftrightarrow> pubs db' = pubs db
     \<and> (\<forall>q k. q \<noteq> p \<longrightarrow> ((q, k) \<in> refs db' \<longleftrightarrow> (q, k) \<in> refs db))
     \<and> (\<forall>k. (p, k) \<in> refs db' \<longrightarrow> (p, k) \<in> refs db \<or> (\<exists>ob. objs db k = Some ob \<and> so_state ob = Obj_Ready))
     \<and> (\<forall>k. (p, k) \<in> refs db \<longrightarrow> map_of reps k = None \<longrightarrow> (p, k) \<in> refs db')
     \<and> (\<forall>k c. map_of reps k = Some c \<longrightarrow> (p, k) \<in> refs db \<and> (p, k) \<notin> refs db' \<and> (p, c) \<in> refs db'
          \<and> (\<exists>ok. objs db' k = Some ok \<and> so_state ok = Obj_Pending)
          \<and> (\<exists>ob. objs db k = Some ob \<and> so_state ob = Obj_Pending
               \<and> (\<exists>oc. objs db' c = Some oc \<and> so_state oc = Obj_Ready \<and> same_row ob oc)))"

definition settles :: "string \<Rightarrow> (string \<times> string) list \<Rightarrow> shared_db \<Rightarrow> shared_db \<Rightarrow> bool" where
  "settles p reps db db' \<longleftrightarrow> rows_settle p db db' \<and> refs_settle p reps db db'"

lemma waiting_other:
  assumes "waiting db p ((k0, e) # es)"
    and "\<And>k. k \<noteq> k0 \<Longrightarrow> (p, k) \<in> refs db \<Longrightarrow> (p, k) \<in> refs db'"
    and "\<And>k o1. k \<noteq> k0 \<Longrightarrow> objs db k = Some o1 \<Longrightarrow> so_state o1 = Obj_Pending \<Longrightarrow> objs db' k = Some o1"
  shows "waiting db' p es"
  unfolding waiting_def
proof (intro conjI ballI)
  show "distinct (map fst es)" using assms(1) by (simp add: waiting_def)
next
  fix x assume x: "x \<in> set es"
  obtain k ob where kv: "x = (k, ob)" by (cases x)
  have "k \<noteq> k0" using assms(1) x kv by (force simp: waiting_def)
  moreover obtain o1 where "(p, k) \<in> refs db" "objs db k = Some o1" "so_state o1 = Obj_Pending" "so_destination o1 = so_destination ob"
      "so_hash o1 = so_hash ob" "so_size o1 = so_size ob"
    using assms(1) x kv unfolding waiting_def by fastforce
  ultimately show "case x of (k, ob) \<Rightarrow> (p, k) \<in> refs db' \<and> (\<exists>o1. objs db' k = Some o1 \<and> so_state o1 = Obj_Pending
      \<and> so_destination o1 = so_destination ob \<and> so_hash o1 = so_hash ob \<and> so_size o1 = so_size ob)"
    using assms(2,3) kv by auto
qed

lemma settle_ready:
  assumes inv: "db_inv db" and w: "waiting db p ((k0, e) # es)"
    and none: "lookup_ready db (so_destination e) (so_hash e) = None"
  defines "db' \<equiv> update_objects (\<lambda>k _. k = k0) (\<lambda>ob. ob\<lparr>so_state := Obj_Ready\<rparr>) db"
  shows "db_inv db' \<and> waiting db' p es \<and> settles p [] db db'"
proof -
  obtain o1 where o1: "(p, k0) \<in> refs db" "objs db k0 = Some o1" "so_state o1 = Obj_Pending" "so_destination o1 = so_destination e"
      "so_hash o1 = so_hash e" using w by (auto simp: waiting_def)
  have o': "objs db' k = map_option (\<lambda>ob. if k = k0 then ob\<lparr>so_state := Obj_Ready\<rparr> else ob) (objs db k)" for k
    by (simp add: db'_def)
  have only: "k = k0" if "objs db k = Some ob" "so_state ob = Obj_Ready" "so_destination ob = so_destination e" "so_hash ob = so_hash e" for k ob
    using lookup_ready_None [OF none that(1,2,3)] that(4) by simp
  have "db_inv db'"
  proof (rule db_invI)
    show "distinct (map fst (sd_objects db'))" using db_invD(1) [OF inv] by (simp add: db'_def)
  next
    fix q k assume "(q, k) \<in> refs db'"
    then show "q \<in> pubs db' \<and> objs db' k \<noteq> None" using db_invD(2,3) [OF inv, of q k] by (auto simp: db'_def)
  next
    fix k ob assume "objs db' k = Some ob"
    then show "so_unused_at ob = None \<longleftrightarrow> (\<exists>q. (q, k) \<in> refs db')" using db_invD(4) [OF inv, of k] by (cases "k = k0") (auto simp: db'_def)
  next
    fix k ob assume "objs db' k = Some ob" "so_state ob = Obj_Deleting"
    then show "so_unused_at ob \<noteq> None" using db_invD(5) [OF inv, of k ob] by (cases "k = k0") (auto simp: o')
  next
    fix k ob q q' assume "objs db' k = Some ob" "so_state ob = Obj_Pending" "(q, k) \<in> refs db'" "(q', k) \<in> refs db'"
    then show "q = q'" using db_invD(6) [OF inv, of k ob q q'] by (cases "k = k0") (auto simp: db'_def)
  next
    fix k k' a b assume ab: "objs db' k = Some a" "objs db' k' = Some b" "so_state a = Obj_Ready" "so_state b = Obj_Ready"
      "so_destination a = so_destination b" "so_hash a = so_hash b"
    show "k = k'"
    proof (cases "k = k0 \<or> k' = k0")
      case True
      have "k' = k0" if "k = k0"
        using only [of k' b] ab o1 that by (cases "k' = k0") (auto simp: o')
      moreover have "k = k0" if "k' = k0"
        using only [of k a] ab o1 that by (cases "k = k0") (auto simp: o')
      ultimately show ?thesis using True by blast
    next
      case False
      then show ?thesis using ab db_invD(7) [OF inv, of k a k' b] by (simp add: o')
    qed
  qed
  moreover have "waiting db' p es" by (rule waiting_other [OF w]) (auto simp: db'_def)
  moreover have "rows_settle p db db'" using o1(1,2,3) by (auto simp: rows_settle_def o' same_row_def)
  then have "settles p [] db db'" by (simp add: settles_def refs_settle_def) (simp add: db'_def)
  ultimately show ?thesis by blast
qed

lemma settle_replace:
  assumes inv: "db_inv db" and w: "waiting db p ((k0, e) # es)"
    and found: "lookup_ready db (so_destination e) (so_hash e) = Some (c, so_size e)"
    and s: "settle_object now p (k0, e) (reps, db) = Inr (reps', db')"
  shows "reps' = (k0, c) # reps \<and> db_inv db' \<and> waiting db' p es \<and> settles p [(k0, c)] db db'"
proof -
  obtain o0 where o0: "(p, k0) \<in> refs db" "objs db k0 = Some o0" "so_state o0 = Obj_Pending" "so_hash o0 = so_hash e" "so_size o0 = so_size e"
    using w by (auto simp: waiting_def)
  obtain oc where oc: "objs db c = Some oc" "so_state oc = Obj_Ready" "so_hash oc = so_hash e" "so_size oc = so_size e"
    using lookup_ready_Some [OF found db_invD(1) [OF inv]] by blast
  have ne: "c \<noteq> k0" using o0 oc by auto
  have alone: "q = p" if "(q, k0) \<in> refs db" for q using db_invD(6) [OF inv o0(2,3) that o0(1)] .
  have o': "objs db' k = map_option (\<lambda>ob. if k = c then ob\<lparr>so_unused_at := None\<rparr> else if k = k0 then ob\<lparr>so_unused_at := Some now\<rparr> else ob) (objs db k)" for k
    using s ne by (cases "k = c"; cases "k = k0") (auto simp: settle_object_def found Let_def option.map_comp comp_def split: if_splits)
  have r': "refs db' = insert (p, c) (refs db) - {(p, k0)}" and reps': "reps' = (k0, c) # reps" and p': "pubs db' = pubs db"
    and d': "map fst (sd_objects db') = map fst (sd_objects db)"
    using s ne by (auto simp: settle_object_def found Let_def refs_def split: if_splits)
  have "db_inv db'"
  proof (rule db_inv_change [OF inv])
    fix k ob assume "objs db' k = Some ob"
    then obtain o1 where o1: "objs db k = Some o1"
      "ob = (if k = c then o1\<lparr>so_unused_at := None\<rparr> else if k = k0 then o1\<lparr>so_unused_at := Some now\<rparr> else o1)" by (auto simp: o')
    have unref: "(q, k0) \<notin> refs db'" for q using alone [of q] ne by (auto simp: r')
    have others: "(q, k) \<in> refs db' \<longleftrightarrow> (q, k) \<in> refs db" if "k \<noteq> c" "k \<noteq> k0" for q using that by (auto simp: r')
    have "(p, c) \<in> refs db'" using ne by (simp add: r')
    then show "row_ok db db' k ob"
      using o1 db_invD(4,5) [OF inv o1(1)] oc o0 ne unref others
      by (cases "k = c"; cases "k = k0") (auto simp: row_ok_def)
  next
    fix q k assume "(q, k) \<in> refs db'"
    then show "ref_ok db db' q k"
      using db_invD(2,3) [OF inv, of q k] db_invD(2) [OF inv o0(1)] oc by (auto simp: ref_ok_def r' p' o')
  qed (use db_invD(1) [OF inv] in \<open>simp add: d'\<close>)
  moreover have "waiting db' p es"
    by (rule waiting_other [OF w]) (use oc in \<open>auto simp: r' o'\<close>)
  moreover have "rows_settle p db db'" by (auto simp: rows_settle_def o' same_row_def)
  moreover have "refs_settle p [(k0, c)] db db'"
    using o0 oc ne db_invD(3) [OF inv] by (auto simp: refs_settle_def r' p' o' same_row_def)
  ultimately show ?thesis using reps' by (simp add: settles_def)
qed

lemma rows_settleD:
  "rows_settle p a b \<Longrightarrow> objs a k = Some oa \<Longrightarrow> objs b k = Some ob \<Longrightarrow> same_row oa ob
     \<and> (so_state ob = so_state oa \<or> so_state oa = Obj_Pending \<and> so_state ob = Obj_Ready \<and> (p, k) \<in> refs a)"
  by (simp add: rows_settle_def)

lemma refs_settleD:
  "refs_settle p reps a b \<Longrightarrow> map_of reps k = Some c \<Longrightarrow>
     (p, k) \<in> refs a \<and> (p, k) \<notin> refs b \<and> (p, c) \<in> refs b \<and> (\<exists>ok. objs b k = Some ok \<and> so_state ok = Obj_Pending)
     \<and> (\<exists>ob. objs a k = Some ob \<and> so_state ob = Obj_Pending
          \<and> (\<exists>oc. objs b c = Some oc \<and> so_state oc = Obj_Ready \<and> same_row ob oc))"
  by (simp add: refs_settle_def)

lemma settles_refl: "settles p [] db db"
  by (simp add: settles_def rows_settle_def refs_settle_def same_row_def)

lemma rows_settle_trans:
  assumes "rows_settle p a b" "rows_settle p b c" "refs_settle p reps a b"
  shows "rows_settle p a c"
  unfolding rows_settle_def
proof (intro conjI allI impI)
  fix k
  show "objs a k = None \<longleftrightarrow> objs c k = None" using assms(1,2) by (simp add: rows_settle_def)
  fix oa oc assume k: "objs a k = Some oa" "objs c k = Some oc"
  then obtain ob where ob: "objs b k = Some ob" using assms(2) by (metis not_None_eq rows_settle_def)
  have ab: "same_row oa ob" "so_state ob = so_state oa \<or> so_state oa = Obj_Pending \<and> so_state ob = Obj_Ready \<and> (p, k) \<in> refs a"
    using assms(1) k ob by (auto simp: rows_settle_def)
  have bc: "same_row ob oc" "so_state oc = so_state ob \<or> so_state ob = Obj_Pending \<and> so_state oc = Obj_Ready \<and> (p, k) \<in> refs b"
    using assms(2) k ob by (auto simp: rows_settle_def)
  show "same_row oa oc" using ab bc by (simp add: same_row_def)
  have "(p, k) \<in> refs a" if "(p, k) \<in> refs b" "so_state oa = Obj_Pending"
    using assms(3) that k by (auto simp: refs_settle_def)
  then show "so_state oc = so_state oa \<or> so_state oa = Obj_Pending \<and> so_state oc = Obj_Ready \<and> (p, k) \<in> refs a"
    using ab(2) bc(2) by auto
qed

lemma refs_settle_trans:
  assumes R: "rows_settle p a b" "rows_settle p b c" and S: "refs_settle p r1 a b" "refs_settle p r2 b c"
  shows "refs_settle p (r2 @ r1) a c"
  unfolding refs_settle_def
proof (intro conjI allI impI)
  show "pubs c = pubs a" using S by (simp add: refs_settle_def)
  show "(q, k) \<in> refs c \<longleftrightarrow> (q, k) \<in> refs a" if "q \<noteq> p" for q k using S that by (simp add: refs_settle_def)
  have pend: "(p, k) \<in> refs a \<and> (\<exists>oa. objs a k = Some oa \<and> so_state oa = Obj_Pending \<and> same_row oa ob)"
    if t: "(p, k) \<in> refs b" "objs b k = Some ob" "so_state ob = Obj_Pending" for k ob
  proof -
    obtain oa where oa: "objs a k = Some oa" using R(1) t(2) by (metis not_None_eq rows_settle_def)
    then have "same_row oa ob \<and> so_state oa = Obj_Pending" using rows_settleD [OF R(1) oa t(2)] t(3) by auto
    then show ?thesis using S(1) t(1) oa by (auto simp: refs_settle_def)
  qed
  show old: "(p, k) \<in> refs a \<or> (\<exists>ob. objs a k = Some ob \<and> so_state ob = Obj_Ready)" if t: "(p, k) \<in> refs c" for k
  proof (cases "(p, k) \<in> refs b")
    case True
    then show ?thesis using S(1) by (simp add: refs_settle_def)
  next
    case False
    then obtain ob where ob: "objs b k = Some ob" "so_state ob = Obj_Ready" using S(2) t by (auto simp: refs_settle_def)
    then obtain oa where oa: "objs a k = Some oa" using R(1) by (metis not_None_eq rows_settle_def)
    then show ?thesis using rows_settleD [OF R(1) oa ob(1)] ob(2) by auto
  qed
  show "(p, k) \<in> refs c" if "(p, k) \<in> refs a" "map_of (r2 @ r1) k = None" for k
    using S that by (auto simp: refs_settle_def map_add_def split: option.splits)
  fix k d assume k: "map_of (r2 @ r1) k = Some d"
  have "(p, k) \<in> refs a \<and> (p, k) \<notin> refs c \<and> (p, d) \<in> refs c
    \<and> (\<exists>ok. objs c k = Some ok \<and> so_state ok = Obj_Pending)
    \<and> (\<exists>ob. objs a k = Some ob \<and> so_state ob = Obj_Pending \<and> (\<exists>oc. objs c d = Some oc \<and> so_state oc = Obj_Ready \<and> same_row ob oc))"
  proof (cases "map_of r2 k")
    case (Some d')
    then have "d' = d" using k by (simp add: map_add_def)
    then obtain ob oc ok where b: "(p, k) \<in> refs b" "(p, k) \<notin> refs c" "(p, d) \<in> refs c" "objs b k = Some ob" "so_state ob = Obj_Pending"
      "objs c d = Some oc" "so_state oc = Obj_Ready" "same_row ob oc"
      "objs c k = Some ok" "so_state ok = Obj_Pending" using S(2) Some unfolding refs_settle_def by blast
    then show ?thesis using pend [OF b(1,4,5)] by (auto simp: same_row_def)
  next
    case None
    then have k1: "map_of r1 k = Some d" using k by (simp add: map_add_def)
    then obtain oa od ok where a: "(p, k) \<in> refs a" "(p, k) \<notin> refs b" "(p, d) \<in> refs b" "objs a k = Some oa" "so_state oa = Obj_Pending"
      "objs b d = Some od" "so_state od = Obj_Ready" "same_row oa od"
      "objs b k = Some ok" "so_state ok = Obj_Pending" using S(1) unfolding refs_settle_def by blast
    have "map_of r2 d = None"
    proof (rule ccontr)
      assume "map_of r2 d \<noteq> None"
      then show False using refs_settleD [OF S(2)] a(6,7) by fastforce
    qed
    then have d: "(p, d) \<in> refs c" using S(2) a(3) by (simp add: refs_settle_def)
    obtain oc where oc: "objs c d = Some oc" using R(2) a(6) by (metis not_None_eq rows_settle_def)
    then have ready: "so_state oc = Obj_Ready" "same_row oa oc"
      using rows_settleD [OF R(2) a(6) oc] a(7,8) by (auto simp: same_row_def)
    have nc: "(p, k) \<notin> refs c" using S(2) a(2,9,10) by (auto simp: refs_settle_def)
    obtain ok' where ok': "objs c k = Some ok'" using R(2) a(9) by (metis not_None_eq rows_settle_def)
    then have "so_state ok' = Obj_Pending" using rows_settleD [OF R(2) a(9) ok'] a(2,10) by auto
    then show ?thesis using a d oc ready nc ok' by blast
  qed
  then show "(p, k) \<in> refs a" "(p, k) \<notin> refs c" "(p, d) \<in> refs c" "\<exists>ok. objs c k = Some ok \<and> so_state ok = Obj_Pending"
    "\<exists>ob. objs a k = Some ob \<and> so_state ob = Obj_Pending \<and> (\<exists>oc. objs c d = Some oc \<and> so_state oc = Obj_Ready \<and> same_row ob oc)" by blast+
qed

lemma settles_trans: "settles p r1 a b \<Longrightarrow> settles p r2 b c \<Longrightarrow> settles p (r2 @ r1) a c"
  unfolding settles_def by (blast intro: rows_settle_trans refs_settle_trans)

lemma settle_object_step:
  assumes inv: "db_inv db" and w: "waiting db p ((k0, e) # es)"
    and s: "settle_object now p (k0, e) (reps, db) = Inr (reps', db')"
  shows "\<exists>r. reps' = r @ reps \<and> db_inv db' \<and> waiting db' p es \<and> settles p r db db'"
proof (cases "lookup_ready db (so_destination e) (so_hash e)")
  case None
  have db': "db' = update_objects (\<lambda>k _. k = k0) (\<lambda>ob. ob\<lparr>so_state := Obj_Ready\<rparr>) db" "reps' = reps"
    using s None by (simp_all add: settle_object_def)
  then show ?thesis using settle_ready [OF inv w None] by auto
next
  case (Some found)
  then obtain c where c: "lookup_ready db (so_destination e) (so_hash e) = Some (c, so_size e)"
    using s by (cases found) (auto simp: settle_object_def split: if_splits)
  show ?thesis using settle_replace [OF inv w c s] by (intro exI [of _ "[(k0, c)]"]) simp
qed

lemma settle_objects_steps:
  assumes "db_inv db" "waiting db p es" "settle_objects now p es (reps, db) = Inr (reps', db')"
  shows "\<exists>r. reps' = r @ reps \<and> db_inv db' \<and> settles p r db db'"
  using assms
proof (induction es arbitrary: reps db)
  case Nil
  then show ?case using settles_refl [of p db] by auto
next
  case (Cons x es)
  obtain k0 e where x: "x = (k0, e)" by (cases x)
  obtain reps1 db1 where s1: "settle_object now p (k0, e) (reps, db) = Inr (reps1, db1)"
    and s2: "settle_objects now p es (reps1, db1) = Inr (reps', db')" using Cons.prems(3) x by (auto simp: rbind_Inr_iff)
  obtain r1 where 1: "reps1 = r1 @ reps" "db_inv db1" "waiting db1 p es" "settles p r1 db db1"
    using settle_object_step [OF Cons.prems(1) Cons.prems(2) [unfolded x] s1] by blast
  obtain r2 where 2: "reps' = r2 @ reps1" "db_inv db'" "settles p r2 db1 db'"
    using Cons.IH [OF 1(2,3) s2] by blast
  show ?case using 1 2 settles_trans [OF 1(4) 2(3)] by (intro exI [of _ "r2 @ r1"]) simp
qed

lemma waiting_pending:
  assumes "db_inv db"
  shows "waiting db p (pending_objects db p)"
  using db_invD(1) [OF assms] objs_entry [OF db_invD(1) [OF assms]]
  by (auto simp: waiting_def pending_objects_def refs_def distinct_filter_fst)

lemma verified_ready:
  assumes "db_inv db" "verified db p = Inr u" "(p, k) \<in> refs db"
  shows "\<exists>ob. objs db k = Some ob \<and> so_state ob = Obj_Ready"
proof -
  obtain ob where ob: "objs db k = Some ob" using db_invD(3) [OF assms(1,3)] by blast
  then have "(k, ob) \<in> set (sd_objects db)" using objs_entry [OF db_invD(1) [OF assms(1)]] by simp
  then show ?thesis using assms(2,3) ob by (force simp: verified_def refs_def list_ex_iff split: if_splits)
qed

lemma block_ok_settles:
  assumes ok: "block_ok db p b" and s: "settles p reps db db'"
  shows "block_ok db' p (hd (replace_blocks reps [b]))"
proof (cases "mb_hash b")
  case None
  then show ?thesis by (auto simp: replace_blocks_def block_ok_def split: option.split)
next
  case (Some h)
  then obtain k ob where k: "mb_object b = Some k" "(p, k) \<in> refs db" "objs db k = Some ob" "so_hash ob = h" "so_size ob = mb_size b"
    using ok by (auto simp: block_ok_def)
  have R: "rows_settle p db db'" "refs_settle p reps db db'" using s by (simp_all add: settles_def)
  show ?thesis
  proof (cases "map_of reps k")
    case None
    obtain ob' where ob': "objs db' k = Some ob'" using R(1) k(3) by (metis not_None_eq rows_settle_def)
    have "(p, k) \<in> refs db'" using R(2) k(2) None by (simp add: refs_settle_def)
    then show ?thesis using None k ob' Some rows_settleD [OF R(1) k(3) ob']
      by (auto simp: replace_blocks_def block_ok_def same_row_def)
  next
    case (Some c)
    then show ?thesis using refs_settleD [OF R(2) Some] k \<open>mb_hash b = Some h\<close>
      by (auto simp: replace_blocks_def block_ok_def same_row_def)
  qed
qed

lemma block_ok_other:
  assumes "block_ok db q b" "q \<noteq> p" "settles p reps db db'"
  shows "block_ok db' q b"
  unfolding block_ok_def
proof (intro allI impI)
  have R: "rows_settle p db db'" "refs_settle p reps db db'" using assms(3) by (simp_all add: settles_def)
  fix h assume "mb_hash b = Some h"
  then obtain k ob where k: "mb_object b = Some k" "(q, k) \<in> refs db" "objs db k = Some ob" "so_hash ob = h" "so_size ob = mb_size b"
    using assms(1) by (auto simp: block_ok_def)
  obtain ob' where ob': "objs db' k = Some ob'" using R(1) k(3) by (metis not_None_eq rows_settle_def)
  have "(q, k) \<in> refs db'" using R(2) k(2) assms(2) by (simp add: refs_settle_def)
  then show "\<exists>k ob. mb_object b = Some k \<and> (q, k) \<in> refs db' \<and> objs db' k = Some ob \<and> so_hash ob = h \<and> so_size ob = mb_size b"
    using k ob' rows_settleD [OF R(1) k(3) ob'] by (auto simp: same_row_def)
qed

lemma complete_uploads_steps:
  assumes inv: "db_inv db" and c: "complete_uploads now p blocks db = (Inr blocks', db')"
  shows "\<exists>reps. db_inv db' \<and> settles p reps db db' \<and> blocks' = replace_blocks reps blocks \<and> verified db' p = Inr ()"
proof -
  obtain reps where s: "settle_objects now p (pending_objects db p) ([], db) = Inr (reps, db')"
    and v: "verified db' p = Inr ()" "blocks' = replace_blocks reps blocks"
    using c by (auto simp: complete_uploads_def split: sum.splits)
  show ?thesis using settle_objects_steps [OF inv waiting_pending [OF inv] s] v by auto
qed

end
