(* ===== verification/Publication_Steps.thy ===== *)
theory Publication_Steps
  imports Publication_Gc Manifest Shared_Ledger
begin

text \<open>
  Every interleaving of publications, collections, disk grants and the deletion of remote objects: the steps
  of \<open>nodes/publication.rs\<close>, \<open>nodes/disk_grants.rs\<close> and \<open>nodes/shared_blocks.rs\<close> that
  run as one transaction (or one remote request), their invariant, and that every step keeps it. The operation
  lock of a run is held by at most one activity.
\<close>

section \<open>Steps\<close>

definition set_activity :: "string \<Rightarrow> activity \<Rightarrow> pub_state \<Rightarrow> pub_state" where
  "set_activity run a st = st\<lparr>ps_active := tb_put run a (ps_active st)\<rparr>"

definition end_activity :: "string \<Rightarrow> pub_state \<Rightarrow> pub_state" where
  "end_activity run st = st\<lparr>ps_active := tb_remove run (ps_active st)\<rparr>"

definition unlocked :: "pub_state \<Rightarrow> string \<Rightarrow> bool" where
  "unlocked st run = (tb_get (ps_active st) run = None)"

definition draw_ids :: "string \<Rightarrow> pub_state \<Rightarrow> pub_state" where
  "draw_ids i st = st\<lparr>ps_used := i # map fst (sd_objects (ps_db st)) @ ps_used st\<rparr>"

definition delete_remote :: "deletion \<Rightarrow> (string \<Rightarrow> string option) \<Rightarrow> string \<Rightarrow> string option" where
  "delete_remote d remote k = (if k = de_key d \<or> de_prefix d \<and> starts_with (de_key d) k then None else remote k)"

text \<open>
  \<open>Begin\<close> draws the identifiers of the publication and its objects, \<open>Forget_Run\<close> is the deletion of
  the conversation whose recovery references \<open>purge\<close> retires. A node acknowledges only a publication that
  its grant was extended with or issued for, and the point it names is read in the same transaction.
\<close>

inductive pub_step :: "(string \<Rightarrow> string) \<Rightarrow> pub_state \<Rightarrow> pub_state \<Rightarrow> bool" for digest where
  New_Run: "tb_get (ps_runs st) run = None \<Longrightarrow>
    pub_step digest st (st\<lparr>ps_runs := tb_put run \<lparr>pj_head = None, pj_move = None\<rparr> (ps_runs st)\<rparr>)"
| Begin: "unlocked st (bp_run point) \<Longrightarrow> bp_shared point \<Longrightarrow> bp_s3 point \<Longrightarrow>
    list_all (\<lambda>b. \<forall>h. mb_hash b = Some h \<longrightarrow> digest_valid h) (bp_blocks point) \<Longrightarrow>
    bp_id point \<notin> set (ps_used st) \<Longrightarrow> (\<And>i. new i \<notin> set (ps_used st)) \<Longrightarrow>
    write_intent digest new occupied budget intent_len point st = (Inr pg, st') \<Longrightarrow>
    pub_step digest st (draw_ids (bp_id point) (set_activity (bp_run point) (Publishing pg) st'))"
| Begin_Failed: "unlocked st (bp_run point) \<Longrightarrow>
    list_all (\<lambda>b. \<forall>h. mb_hash b = Some h \<longrightarrow> digest_valid h) (bp_blocks point) \<Longrightarrow>
    bp_id point \<notin> set (ps_used st) \<Longrightarrow> (\<And>i. new i \<notin> set (ps_used st)) \<Longrightarrow>
    write_intent digest new occupied budget intent_len point st = (Inl e, st') \<Longrightarrow>
    pub_step digest st (draw_ids (bp_id point) st')"
| Upload: "tb_get (ps_active st) run = Some (Publishing pg) \<Longrightarrow> \<not> pg_settled pg \<Longrightarrow>
    ob \<in> set (pg_objects pg) \<Longrightarrow> \<not> ro_ready ob \<Longrightarrow> upload_object ob pg st = (pg', st') \<Longrightarrow>
    pub_step digest st (set_activity run (Publishing pg') st')"
| Settle: "tb_get (ps_active st) run = Some (Publishing pg) \<Longrightarrow> \<not> pg_settled pg \<Longrightarrow> uploads_finished pg \<Longrightarrow>
    publish_manifest now pg st = (Inr pg', st') \<Longrightarrow>
    pub_step digest st (set_activity run (Publishing pg') st')"
| Commit: "tb_get (ps_active st) run = Some (Publishing pg) \<Longrightarrow> pg_settled pg \<Longrightarrow>
    commit_point (same_disk runner node attempt on_demand grant_id (pg_point pg) st) (pg_point pg) st = (Inr (), st') \<Longrightarrow>
    pub_step digest st (end_activity run st')"
| Abort: "pub_step digest st (end_activity run st)"
| Decide: "unlocked st run \<Longrightarrow> retained hashes run st = Inr (Some (points, keep, needed)) \<Longrightarrow>
    pub_step digest st (set_activity run (Collecting keep (superseded points keep)) st)"
| Retire: "tb_get (ps_active st) run = Some (Collecting keep (p # todo)) \<Longrightarrow>
    pub_step digest st (set_activity run (Collecting keep todo) (retire_point digest now run p st))"
| Abandon: "tb_get (ps_active st) run = Some (Collecting keep todo) \<Longrightarrow>
    queue_abandoned hashes receipt digest run keep needed (ps_intents st) st = (r, st') \<Longrightarrow> pub_step digest st st'"
| Release: "tb_get (ps_active st) run = Some (Collecting keep []) \<Longrightarrow>
    pub_step digest st (end_activity run (st\<lparr>ps_db := release_run now run keep (ps_db st)\<rparr>))"
| Forget_Run: "unlocked st run \<Longrightarrow>
    pub_step digest st ((purge_run digest now run st)\<lparr>ps_runs := tb_remove run (ps_runs st)\<rparr>)"
| New_Disk: "new_disk token_digest token run node (ps_grants st) = (tok, t) \<Longrightarrow> pub_step digest st (st\<lparr>ps_grants := t\<rparr>)"
| Issue: "unlocked st run \<Longrightarrow> tb_get (ps_points st) (bp_id p) = Some p \<Longrightarrow> bp_run p = run \<Longrightarrow>
    issue_grant token_digest token run node p (ps_grants st) = (Inr tok, t) \<Longrightarrow> pub_step digest st (st\<lparr>ps_grants := t\<rparr>)"
| Extend: "unlocked st (bp_run p) \<Longrightarrow> tb_get (ps_points st) (bp_id p) = Some p \<Longrightarrow>
    grant_extend i p (ps_grants st) = (Inr (), t) \<Longrightarrow> pub_step digest st (st\<lparr>ps_grants := t\<rparr>)"
| Acknowledge: "tb_get (ps_grants st) i = Some g \<Longrightarrow> bp_id p \<in> set (dg_backups g) \<Longrightarrow>
    tb_get (ps_points st) (bp_id p) = Some p \<Longrightarrow>
    grant_acknowledged i p (ps_grants st) = (Inr (), t) \<Longrightarrow> pub_step digest st (st\<lparr>ps_grants := t\<rparr>)"
| Invalidate: "pub_step digest st (st\<lparr>ps_db := invalidate k (ps_db st)\<rparr>)"
| Claim: "claim_due now (ps_db st) = (ds, db) \<Longrightarrow>
    pub_step digest st (st\<lparr>ps_db := db, ps_claimed := ds @ ps_claimed st\<rparr>)"
| Delete: "d \<in> set (ps_claimed st) \<Longrightarrow> pub_step digest st (st\<lparr>ps_remote := delete_remote d (ps_remote st)\<rparr>)"
| Finish: "set completed \<subseteq> set (ps_claimed st) \<Longrightarrow>
    pub_step digest st (st\<lparr>ps_db := finish_deletions completed (ps_db st)\<rparr>)"

section \<open>Invariant\<close>

definition available :: "(string \<Rightarrow> string option) \<Rightarrow> string \<Rightarrow> shared_object \<Rightarrow> bool" where
  "available remote k ob \<longleftrightarrow> remote (object_key (so_hash ob) k) = Some (so_hash ob)"

text \<open>What a claimed deletion removes: an object being deleted, or keys outside the shared objects.\<close>

definition claim_ok :: "shared_db \<Rightarrow> deletion \<Rightarrow> bool" where
  "claim_ok db d \<longleftrightarrow>
     (if de_shared d
      then \<not> de_prefix d \<and> (\<exists>h. digest_valid h \<and> de_key d = object_key h (de_id d))
           \<and> (\<forall>ob. objs db (de_id d) = Some ob \<longrightarrow> so_state ob = Obj_Deleting)
      else starts_with ''node-backups/'' (de_key d))"

definition rows_ok :: "shared_db \<Rightarrow> (string \<Rightarrow> string option) \<Rightarrow> bool" where
  "rows_ok db remote \<longleftrightarrow> (\<forall>k ob. objs db k = Some ob \<longrightarrow> digest_valid (so_hash ob)
     \<and> (so_state ob = Obj_Ready \<or> so_state ob = Obj_Invalid \<longrightarrow> available remote k ob))"

definition queue_ok :: "shared_db \<Rightarrow> bool" where
  "queue_ok db \<longleftrightarrow> (\<forall>(_, d) \<in> set (sd_deletions db). starts_with ''node-backups/'' (rl_key d))"

definition store_ok :: "shared_db \<Rightarrow> (string \<Rightarrow> string option) \<Rightarrow> deletion list \<Rightarrow> bool" where
  "store_ok db remote claimed \<longleftrightarrow> db_inv db \<and> distinct (map fst (sd_publications db)) \<and> rows_ok db remote \<and> queue_ok db
     \<and> (\<forall>d \<in> set claimed. claim_ok db d)"

definition ids_ok :: "shared_db \<Rightarrow> backup_point table \<Rightarrow> deletion list \<Rightarrow> string list \<Rightarrow> bool" where
  "ids_ok db points claimed used \<longleftrightarrow> (\<forall>k ob. objs db k = Some ob \<longrightarrow> k \<in> set used) \<and> pubs db \<subseteq> set used
     \<and> (\<forall>i p. tb_get points i = Some p \<longrightarrow> i \<in> set used) \<and> (\<forall>d \<in> set claimed. de_shared d \<longrightarrow> de_id d \<in> set used)"

text \<open>A publication whose blocks all name objects that are verified, or were.\<close>

definition no_pending :: "shared_db \<Rightarrow> string \<Rightarrow> bool" where
  "no_pending db p \<longleftrightarrow> (\<forall>k ob. (p, k) \<in> refs db \<longrightarrow> objs db k = Some ob \<longrightarrow> so_state ob \<noteq> Obj_Pending)"

definition point_ok :: "shared_db \<Rightarrow> backup_point \<Rightarrow> bool" where
  "point_ok db p \<longleftrightarrow> (bp_shared p \<longrightarrow> (bp_id p, bp_run p) \<in> set (sd_publications db)
     \<and> (\<forall>b \<in> set (bp_blocks p). block_ok db (bp_id p) b) \<and> no_pending db (bp_id p))"

definition points_ok :: "shared_db \<Rightarrow> backup_point table \<Rightarrow> bool" where
  "points_ok db points \<longleftrightarrow> tb_ok points \<and> (\<forall>i p. tb_get points i = Some p \<longrightarrow> bp_id p = i \<and> point_ok db p)"

definition stored :: "backup_point table \<Rightarrow> string \<Rightarrow> string \<Rightarrow> bool" where
  "stored points run i \<longleftrightarrow> (\<exists>p. tb_get points i = Some p \<and> bp_run p = run)"

definition grants_ok :: "backup_point table \<Rightarrow> disk_grant table \<Rightarrow> bool" where
  "grants_ok points grants \<longleftrightarrow> tb_ok grants
     \<and> (\<forall>i g. tb_get grants i = Some g \<longrightarrow> grant_ok g \<and> (\<forall>b \<in> set (dg_backups g). stored points (dg_run g) b))"

definition runs_ok :: "backup_point table \<Rightarrow> pub_run table \<Rightarrow> bool" where
  "runs_ok points runs \<longleftrightarrow> tb_ok runs
     \<and> (\<forall>r run h. tb_get runs r = Some run \<longrightarrow> pj_head run = Some h \<longrightarrow> stored points r h)"

definition reserved :: "shared_db \<Rightarrow> (string \<Rightarrow> string option) \<Rightarrow> string \<Rightarrow> publishing \<Rightarrow> bool" where
  "reserved db remote i pg \<longleftrightarrow>
     (\<forall>k ob. (i, k) \<in> refs db \<longrightarrow> objs db k = Some ob \<longrightarrow> so_state ob = Obj_Pending \<longrightarrow>
        (\<exists>ro \<in> set (pg_objects pg). ro_id ro = k \<and> \<not> ro_ready ro))
     \<and> (\<forall>ro \<in> set (pg_objects pg). \<exists>ob. objs db (ro_id ro) = Some ob \<and> so_hash ob = ro_hash ro \<and> (i, ro_id ro) \<in> refs db)
     \<and> (\<forall>k \<in> set (pg_uploaded pg). \<exists>ob. objs db k = Some ob \<and> (i, k) \<in> refs db \<and> available remote k ob)"

definition publishing_ok :: "shared_db \<Rightarrow> (string \<Rightarrow> string option) \<Rightarrow> backup_point table \<Rightarrow> string \<Rightarrow> publishing \<Rightarrow> bool" where
  "publishing_ok db remote points run pg \<longleftrightarrow>
     (let p = pg_point pg; i = bp_id p
      in bp_run p = run \<and> bp_shared p \<and> (i, run) \<in> set (sd_publications db) \<and> tb_get points i = None
         \<and> (\<forall>b \<in> set (bp_blocks p). block_ok db i b)
         \<and> (if pg_settled pg then no_pending db i else reserved db remote i pg))"

definition collecting_ok ::
  "backup_point table \<Rightarrow> pub_run table \<Rightarrow> disk_grant table \<Rightarrow> string \<Rightarrow> string list \<Rightarrow> backup_point list \<Rightarrow> bool" where
  "collecting_ok points runs grants run keep todo \<longleftrightarrow>
     set (pinned run grants) \<subseteq> set keep
     \<and> (\<forall>r h. tb_get runs run = Some r \<longrightarrow> pj_head r = Some h \<longrightarrow> h \<in> set keep)
     \<and> (\<forall>i p. tb_get points i = Some p \<longrightarrow> bp_run p = run \<longrightarrow> i \<in> set keep \<or> p \<in> set todo)
     \<and> (\<forall>p \<in> set todo. bp_run p = run \<and> bp_id p \<notin> set keep \<and> tb_get points (bp_id p) = Some p)
     \<and> distinct (map bp_id todo)"

fun activity_ok ::
  "shared_db \<Rightarrow> (string \<Rightarrow> string option) \<Rightarrow> backup_point table \<Rightarrow> pub_run table \<Rightarrow> disk_grant table \<Rightarrow> string \<Rightarrow> activity \<Rightarrow> bool" where
  "activity_ok db remote points runs grants run (Publishing pg) = publishing_ok db remote points run pg"
| "activity_ok db remote points runs grants run (Collecting keep todo) = collecting_ok points runs grants run keep todo"

definition active_ok ::
  "shared_db \<Rightarrow> (string \<Rightarrow> string option) \<Rightarrow> backup_point table \<Rightarrow> pub_run table \<Rightarrow> disk_grant table \<Rightarrow> activity table \<Rightarrow> bool" where
  "active_ok db remote points runs grants active \<longleftrightarrow> tb_ok active
     \<and> (\<forall>r a. tb_get active r = Some a \<longrightarrow> activity_ok db remote points runs grants r a)"

definition pub_inv :: "pub_state \<Rightarrow> bool" where
  "pub_inv st \<longleftrightarrow> store_ok (ps_db st) (ps_remote st) (ps_claimed st)
     \<and> ids_ok (ps_db st) (ps_points st) (ps_claimed st) (ps_used st) \<and> points_ok (ps_db st) (ps_points st)
     \<and> grants_ok (ps_points st) (ps_grants st) \<and> runs_ok (ps_points st) (ps_runs st)
     \<and> active_ok (ps_db st) (ps_remote st) (ps_points st) (ps_runs st) (ps_grants st) (ps_active st)"

end
