(* ===== verification/Publication_Frame.thy ===== *)
theory Publication_Frame
  imports Publication_Steps
begin

text \<open>
  What an operation on the tables of shared objects leaves alone: \<open>frame Q\<close> says that the publications
  outside \<open>Q\<close> keep their rows and references. The parts of the invariant follow from it.
\<close>

section \<open>Keys of remote objects\<close>

lemma digest_valid_no_slash: "digest_valid h \<Longrightarrow> CHR ''/'' \<notin> set h"
proof -
  assume v: "digest_valid h"
  have hex: "CHR ''/'' \<notin> set x" if "list_all hex_char x" for x
    using that by (auto simp: list_all_iff hex_char_def is_digit_def code_def)
  show ?thesis
  proof (cases "strip_prefix ''b3-'' h")
    case None
    then show ?thesis using v hex by (simp add: digest_valid_def Let_def)
  next
    case (Some rest)
    then have "h = ''b3-'' @ rest" by (simp add: strip_prefix_Some)
    then show ?thesis using v hex Some by (auto simp: digest_valid_def Let_def)
  qed
qed

lemma object_key_inj:
  assumes "object_key h k = object_key h' k'" "digest_valid h" "digest_valid h'"
  shows "h = h' \<and> k = k'"
proof -
  have e: "h @ CHR ''/'' # k = h' @ CHR ''/'' # k'" using assms(1) by (simp add: object_key_def)
  have "takeWhile (\<lambda>c. c \<noteq> CHR ''/'') (x @ CHR ''/'' # y) = x" if "digest_valid x" for x y
    using digest_valid_no_slash [OF that] by (induction x) auto
  then have "h = h'" using e assms(2,3) by metis
  then show ?thesis using e by simp
qed

lemma object_key_outside: "\<not> starts_with ''node-backups/'' (object_key h k)"
  by (simp add: starts_with_iff object_key_def)

lemma prefix_outside: "starts_with ''node-backups/'' p \<Longrightarrow> \<not> starts_with p (object_key h k)"
  by (auto simp: starts_with_iff object_key_def)

section \<open>Frame\<close>

definition frame :: "string set \<Rightarrow> shared_db \<Rightarrow> shared_db \<Rightarrow> bool" where
  "frame Q db db' \<longleftrightarrow>
     (\<forall>p r. p \<notin> Q \<longrightarrow> (p, r) \<in> set (sd_publications db) \<longrightarrow> (p, r) \<in> set (sd_publications db'))
     \<and> (\<forall>p k. p \<notin> Q \<longrightarrow> ((p, k) \<in> refs db' \<longleftrightarrow> (p, k) \<in> refs db))
     \<and> (\<forall>p k ob. p \<notin> Q \<longrightarrow> (p, k) \<in> refs db \<longrightarrow> objs db k = Some ob \<longrightarrow>
          (\<exists>ob'. objs db' k = Some ob' \<and> same_row ob ob' \<and> (so_state ob' = Obj_Pending \<longrightarrow> so_state ob = Obj_Pending)))"

lemma frameD:
  assumes "frame Q db db'" "p \<notin> Q"
  shows "(p, r) \<in> set (sd_publications db) \<Longrightarrow> (p, r) \<in> set (sd_publications db')"
    "(p, k) \<in> refs db' \<longleftrightarrow> (p, k) \<in> refs db"
    "(p, k) \<in> refs db \<Longrightarrow> objs db k = Some ob \<Longrightarrow>
       \<exists>ob'. objs db' k = Some ob' \<and> same_row ob ob' \<and> (so_state ob' = Obj_Pending \<longrightarrow> so_state ob = Obj_Pending)"
  using assms unfolding frame_def by blast+

lemma frame_refl: "frame Q db db"
  by (auto simp: frame_def same_row_def)

lemma frame_trans:
  assumes "frame Q a b" "frame R b c"
  shows "frame (Q \<union> R) a c"
  unfolding frame_def
proof (intro conjI allI impI)
  fix p r assume "p \<notin> Q \<union> R" "(p, r) \<in> set (sd_publications a)"
  then show "(p, r) \<in> set (sd_publications c)" using frameD(1) [OF assms(1)] frameD(1) [OF assms(2)] by simp
next
  fix p k assume "p \<notin> Q \<union> R"
  then show "(p, k) \<in> refs c \<longleftrightarrow> (p, k) \<in> refs a" using frameD(2) [OF assms(1)] frameD(2) [OF assms(2)] by simp
next
  fix p k oa assume p: "p \<notin> Q \<union> R" "(p, k) \<in> refs a" "objs a k = Some oa"
  then obtain ob where ob: "objs b k = Some ob" "same_row oa ob" "so_state ob = Obj_Pending \<longrightarrow> so_state oa = Obj_Pending"
    using frameD(3) [OF assms(1), of p k oa] by auto
  have "(p, k) \<in> refs b" using frameD(2) [OF assms(1), of p] p by simp
  then obtain oc where "objs c k = Some oc" "same_row ob oc" "so_state oc = Obj_Pending \<longrightarrow> so_state ob = Obj_Pending"
    using frameD(3) [OF assms(2), of p k ob] p ob by auto
  then show "\<exists>oc. objs c k = Some oc \<and> same_row oa oc \<and> (so_state oc = Obj_Pending \<longrightarrow> so_state oa = Obj_Pending)"
    using ob by (auto simp: same_row_def)
qed

lemma frame_mono: "frame Q a b \<Longrightarrow> Q \<subseteq> R \<Longrightarrow> frame R a b"
  unfolding frame_def by blast

text \<open>Available objects that some publication references stay available.\<close>

definition remote_keeps :: "shared_db \<Rightarrow> (string \<Rightarrow> string option) \<Rightarrow> (string \<Rightarrow> string option) \<Rightarrow> bool" where
  "remote_keeps db remote remote' \<longleftrightarrow>
     (\<forall>p k ob. (p, k) \<in> refs db \<longrightarrow> objs db k = Some ob \<longrightarrow> available remote k ob \<longrightarrow> available remote' k ob)"

lemma remote_keeps_refl [simp]: "remote_keeps db remote remote"
  by (simp add: remote_keeps_def)

lemma block_ok_frame:
  assumes "frame Q db db'" "p \<notin> Q" "block_ok db p b"
  shows "block_ok db' p b"
  unfolding block_ok_def
proof (intro allI impI)
  fix h assume "mb_hash b = Some h"
  then obtain k ob where k: "mb_object b = Some k" "(p, k) \<in> refs db" "objs db k = Some ob" "so_hash ob = h" "so_size ob = mb_size b"
    using assms(3) by (auto simp: block_ok_def)
  then show "\<exists>k ob. mb_object b = Some k \<and> (p, k) \<in> refs db' \<and> objs db' k = Some ob \<and> so_hash ob = h \<and> so_size ob = mb_size b"
    using frameD(2) [OF assms(1,2), of k] frameD(3) [OF assms(1,2) k(2,3)] by (auto simp: same_row_def)
qed

lemma no_pending_frame:
  assumes "db_inv db" "frame Q db db'" "p \<notin> Q" "no_pending db p"
  shows "no_pending db' p"
  unfolding no_pending_def
proof (intro allI impI)
  fix k ob' assume k: "(p, k) \<in> refs db'" "objs db' k = Some ob'"
  then have r: "(p, k) \<in> refs db" using frameD(2) [OF assms(2,3)] by simp
  then obtain ob where ob: "objs db k = Some ob" using db_invD(3) [OF assms(1)] by blast
  then show "so_state ob' \<noteq> Obj_Pending" using frameD(3) [OF assms(2,3) r ob] k assms(4) r by (auto simp: no_pending_def)
qed

lemma point_ok_frame:
  "db_inv db \<Longrightarrow> frame Q db db' \<Longrightarrow> (bp_shared p \<Longrightarrow> bp_id p \<notin> Q) \<Longrightarrow> point_ok db p \<Longrightarrow> point_ok db' p"
  by (auto simp: point_ok_def intro: frameD(1) block_ok_frame no_pending_frame)

lemma points_ok_frame:
  assumes "points_ok db points" "db_inv db" "frame Q db db'" "tb_ok points'"
    and "\<And>i p. tb_get points' i = Some p \<Longrightarrow> tb_get points i = Some p \<and> (bp_shared p \<longrightarrow> i \<notin> Q)"
  shows "points_ok db' points'"
  unfolding points_ok_def
proof (intro conjI allI impI assms(4))
  fix i p assume "tb_get points' i = Some p"
  then have i: "tb_get points i = Some p" "bp_shared p \<Longrightarrow> i \<notin> Q" using assms(5) by auto
  then have "bp_id p = i" "point_ok db p" using assms(1) by (auto simp: points_ok_def)
  then show "bp_id p = i" "point_ok db' p" using point_ok_frame [OF assms(2,3)] i by auto
qed

lemma reserved_frame:
  assumes "db_inv db" "frame Q db db'" "i \<notin> Q" "remote_keeps db remote remote'" "reserved db remote i pg"
  shows "reserved db' remote' i pg"
  unfolding reserved_def
proof (intro conjI allI impI ballI)
  note f = frameD [OF assms(2,3)]
  fix k ob' assume k: "(i, k) \<in> refs db'" "objs db' k = Some ob'" "so_state ob' = Obj_Pending"
  then have r: "(i, k) \<in> refs db" using f(2) by simp
  then obtain ob where ob: "objs db k = Some ob" using db_invD(3) [OF assms(1)] by blast
  then show "\<exists>ro\<in>set (pg_objects pg). ro_id ro = k \<and> \<not> ro_ready ro"
    using f(3) [OF r ob] k r assms(5) by (auto simp: reserved_def)
next
  note f = frameD [OF assms(2,3)]
  fix ro assume "ro \<in> set (pg_objects pg)"
  then obtain ob where ob: "objs db (ro_id ro) = Some ob" "so_hash ob = ro_hash ro" "(i, ro_id ro) \<in> refs db"
    using assms(5) by (auto simp: reserved_def)
  then show "\<exists>ob. objs db' (ro_id ro) = Some ob \<and> so_hash ob = ro_hash ro \<and> (i, ro_id ro) \<in> refs db'"
    using f(2) f(3) [OF ob(3,1)] by (auto simp: same_row_def)
next
  note f = frameD [OF assms(2,3)]
  fix k assume "k \<in> set (pg_uploaded pg)"
  then obtain ob where ob: "objs db k = Some ob" "(i, k) \<in> refs db" "available remote k ob"
    using assms(5) by (auto simp: reserved_def)
  then have "available remote' k ob" using assms(4) by (auto simp: remote_keeps_def)
  then show "\<exists>ob. objs db' k = Some ob \<and> (i, k) \<in> refs db' \<and> available remote' k ob"
    using f(2) [of k] f(3) [OF ob(2,1)] ob by (auto simp: same_row_def available_def)
qed

lemma publishing_frame:
  assumes "publishing_ok db remote points run pg" "db_inv db" "frame Q db db'" "bp_id (pg_point pg) \<notin> Q"
    and "remote_keeps db remote remote'" "tb_get points' (bp_id (pg_point pg)) = None"
  shows "publishing_ok db' remote' points' run pg"
  using assms frameD(1) [OF assms(3,4)] block_ok_frame [OF assms(3,4)] no_pending_frame [OF assms(2,3,4)]
    reserved_frame [OF assms(2,3,4,5), of pg]
  by (auto simp: publishing_ok_def Let_def)

lemma active_ok_frame:
  assumes "active_ok db remote points runs grants active" "db_inv db" "frame {} db db'" "remote_keeps db remote remote'"
  shows "active_ok db' remote' points runs grants active"
  unfolding active_ok_def
proof (intro conjI allI impI)
  show "tb_ok active" using assms(1) by (simp add: active_ok_def)
  fix r a assume "tb_get active r = Some a"
  then have a: "activity_ok db remote points runs grants r a" using assms(1) by (simp add: active_ok_def)
  show "activity_ok db' remote' points runs grants r a"
  proof (cases a)
    case (Publishing pg)
    then show ?thesis
      using a publishing_frame [OF _ assms(2,3) _ assms(4), of points r pg points] by (simp add: publishing_ok_def Let_def)
  next
    case (Collecting keep todo)
    then show ?thesis using a by simp
  qed
qed

text \<open>A step that touches the shared tables and the remote storage only.\<close>

lemma inv_db:
  assumes inv: "pub_inv st" and f: "frame {} (ps_db st) db" "remote_keeps (ps_db st) (ps_remote st) remote"
    and s: "store_ok db remote claimed" and u: "ids_ok db (ps_points st) claimed used"
    and st': "ps_db st' = db" "ps_remote st' = remote" "ps_claimed st' = claimed" "ps_used st' = used"
      "ps_points st' = ps_points st" "ps_runs st' = ps_runs st" "ps_grants st' = ps_grants st" "ps_active st' = ps_active st"
  shows "pub_inv st'"
proof -
  have d: "db_inv (ps_db st)" and t: "tb_ok (ps_points st)" using inv by (auto simp: pub_inv_def store_ok_def points_ok_def)
  have "points_ok db (ps_points st)" by (rule points_ok_frame [OF _ d f(1) t]) (use inv in \<open>auto simp: pub_inv_def\<close>)
  moreover have "active_ok db remote (ps_points st) (ps_runs st) (ps_grants st) (ps_active st)"
    by (rule active_ok_frame [OF _ d f]) (use inv in \<open>auto simp: pub_inv_def\<close>)
  ultimately show ?thesis using inv s u by (simp add: pub_inv_def st')
qed

end
