(* ===== verification/Publication_Ops.thy ===== *)
theory Publication_Ops
  imports Publication_Frame
begin

text \<open>The operations on the shared tables keep \<open>store_ok\<close> and leave other publications alone.\<close>

lemma store_okD:
  assumes "store_ok db remote claimed"
  shows "db_inv db" "distinct (map fst (sd_publications db))" "rows_ok db remote" "queue_ok db"
    "d \<in> set claimed \<Longrightarrow> claim_ok db d"
  using assms by (auto simp: store_ok_def)

lemma rows_okD:
  assumes "rows_ok db remote" "objs db k = Some ob"
  shows "digest_valid (so_hash ob)" "so_state ob = Obj_Ready \<or> so_state ob = Obj_Invalid \<Longrightarrow> available remote k ob"
  using assms by (auto simp: rows_ok_def)

section \<open>Reservation\<close>

lemma reserve_hash_fields:
  assumes "reserve_hash location destination p new hash bytes db = Inr (r, db')"
  shows "sd_publications db' = sd_publications db \<and> sd_deletions db' = sd_deletions db"
  using assms
  by (auto simp: reserve_hash_def insert_reference_def insert_object_def rbind_Inr_iff revive_def update_objects_def
      split: option.splits prod.splits if_splits)

lemma reserve_hash_ready:
  assumes "db_inv db" "p \<in> pubs db" "reserve_hash location destination p new hash bytes db = Inr (r, db')" "ro_ready r"
  shows "\<exists>ob. objs db' (ro_id r) = Some ob \<and> so_state ob = Obj_Ready"
proof (cases "lookup_ready db destination hash")
  case None
  then show ?thesis using assms(3,4) by (auto simp: reserve_hash_def rbind_Inr_iff)
next
  case (Some found)
  obtain k s where f: "found = (k, s)" by (cases found)
  obtain o1 where o1: "objs db k = Some o1" "so_state o1 = Obj_Ready"
    using lookup_ready_Some [OF Some [unfolded f] db_invD(1) [OF assms(1)]] by blast
  have k: "ro_id r = k" using assms(3) Some f by (auto simp: reserve_hash_def rbind_Inr_iff split: if_splits)
  obtain o2 where "objs db' k = Some o2" "so_state o2 = so_state o1"
    using reserve_hash_inv [OF assms(1-3)] o1(1) by blast
  then show ?thesis using k o1(2) by simp
qed

text \<open>The publication references exactly the objects it reserved; those not uploaded yet are not marked ready.\<close>

definition owns :: "shared_db \<Rightarrow> string \<Rightarrow> reserved_object list \<Rightarrow> bool" where
  "owns db p os \<longleftrightarrow> (\<forall>k ob. (p, k) \<in> refs db \<longrightarrow> objs db k = Some ob \<longrightarrow> so_state ob = Obj_Pending \<longrightarrow>
     (\<exists>r \<in> set os. ro_id r = k \<and> \<not> ro_ready r))"

lemma reserve_hash_owns:
  assumes inv: "db_inv db" "p \<in> pubs db" and r: "reserve_hash location destination p new hash bytes db = Inr (r, db')"
    and o: "owns db p os"
  shows "owns db' p (os @ [r])"
  unfolding owns_def
proof (intro allI impI)
  fix k ob assume k: "(p, k) \<in> refs db'" "objs db' k = Some ob" "so_state ob = Obj_Pending"
  show "\<exists>x\<in>set (os @ [r]). ro_id x = k \<and> \<not> ro_ready x"
  proof (cases "k = ro_id r")
    case True
    then show ?thesis using reserve_hash_ready [OF inv r] k by auto
  next
    case False
    then have old: "(p, k) \<in> refs db" using reserve_hash_inv [OF inv r] k(1) by auto
    then obtain o1 where o1: "objs db k = Some o1" using db_invD(3) [OF inv(1)] by blast
    have "so_state o1 = Obj_Pending" using reserve_hash_inv [OF inv r] o1 k by force
    then show ?thesis using o old o1 by (auto simp: owns_def)
  qed
qed

lemma reserve_hash_content:
  assumes "db_inv db" "p \<in> pubs db" "reserve_hash location destination p new hash bytes db = Inr (r, db')"
    "objs db' k = Some ob" "objs db k = None"
  shows "so_hash ob = hash"
proof -
  have new: "k = new" using reserve_hash_inv [OF assms(1-3)] assms(4,5) by blast
  obtain o2 where "objs db' (ro_id r) = Some o2" "so_hash o2 = hash" using reserve_hash_inv [OF assms(1-3)] by blast
  moreover have "ro_id r = new"
  proof (cases "lookup_ready db destination hash")
    case None
    then show ?thesis using assms(3) by (auto simp: reserve_hash_def rbind_Inr_iff)
  next
    case (Some found)
    then obtain k0 where "db' = (revive k0 db)\<lparr>sd_references := sd_references db @ [(p, k0)]\<rparr>"
      using assms(3) by (auto simp: reserve_hash_def insert_reference_def rbind_Inr_iff revive_def split: if_splits prod.splits)
    then have "objs db' k = None" using assms(5) by (simp add: revive_def)
    then show ?thesis using assms(4) by simp
  qed
  ultimately show ?thesis using new assms(4) by simp
qed

lemma reserve_blocks_more:
  assumes "reserve_blocks location destination p new i bs objects db = Inr ((bs', os), db')"
    "db_inv db" "p \<in> pubs db" "owns db p objects" "list_all (reserved_ok db p) objects"
  shows "sd_publications db' = sd_publications db \<and> sd_deletions db' = sd_deletions db \<and> owns db' p os
    \<and> (\<forall>k ob. objs db' k = Some ob \<longrightarrow> objs db k = None \<longrightarrow> Some (so_hash ob) \<in> mb_hash ` set bs)"
  using assms
proof (induction location destination p new i bs objects db arbitrary: bs' os db' rule: reserve_blocks.induct)
  case (1 location destination p new i objects db)
  then show ?case by simp
next
  case (2 location destination p new i b bs objects db)
  show ?case
  proof (cases "mb_hash b")
    case None
    then obtain bs1 where bs1: "reserve_blocks location destination p new (Suc i) bs objects db = Inr ((bs1, os), db')"
      using "2.prems"(1) by (auto simp: rbind_Inr_iff)
    then show ?thesis using "2.IH"(1) [OF None bs1 "2.prems"(2-5)] by auto
  next
    case (Some hash)
    define first where "first = (case List.find (\<lambda>ob. ro_hash ob = hash) objects of
        Some ob \<Rightarrow> Inr (ob, objects, db)
      | None \<Rightarrow> rbind (reserve_hash location destination p (new i) hash (mb_size b) db) (\<lambda>(ob, db1). Inr (ob, objects @ [ob], db1)))"
    obtain r objects1 db1 bs1 where f: "first = Inr (r, objects1, db1)" and sz: "ro_size r = mb_size b"
      and rest: "reserve_blocks location destination p new (Suc i) bs objects1 db1 = Inr ((bs1, os), db')"
      using "2.prems"(1) Some by (auto simp: rbind_Inr_iff first_def [symmetric] split: if_splits prod.splits)
    show ?thesis
    proof (cases "List.find (\<lambda>ob. ro_hash ob = hash) objects")
      case (Some r0)
      then have e: "r0 = r" "objects1 = objects" "db1 = db" using f by (simp_all add: first_def)
      show ?thesis
        using "2.IH"(2) [OF \<open>mb_hash b = Some hash\<close>, of r objects1 db1 bs1 os db'] rest sz "2.prems"(2-5) e by simp
    next
      case None
      then have h: "reserve_hash location destination p (new i) hash (mb_size b) db = Inr (r, db1)" "objects1 = objects @ [r]"
        using f by (auto simp: first_def rbind_Inr_iff)
      have G: "grows new p db db1" "reserved_ok db1 p r"
        using reserve_hash_grows [where new = new and i = i, OF "2.prems"(2,3) h(1)] by simp_all
      have O: "owns db1 p objects1" using reserve_hash_owns [OF "2.prems"(2,3) h(1) "2.prems"(4)] h(2) by simp
      have R: "list_all (reserved_ok db1 p) objects1"
        using "2.prems"(5) h(2) G by (auto simp: list_all_iff grows_def intro: reserved_ok_mono)
      have IH: "sd_publications db' = sd_publications db1 \<and> sd_deletions db' = sd_deletions db1 \<and> owns db' p os
          \<and> (\<forall>k ob. objs db' k = Some ob \<longrightarrow> objs db1 k = None \<longrightarrow> Some (so_hash ob) \<in> mb_hash ` set bs)"
        using "2.IH"(2) [OF Some, of r objects1 db1 bs1 os db'] rest sz G(1) O R "2.prems"(3) by (simp add: grows_def)
      have content: "Some (so_hash ob) \<in> mb_hash ` set (b # bs)" if ob: "objs db' k = Some ob" "objs db k = None" for k ob
      proof (cases "objs db1 k")
        case None
        then show ?thesis using IH ob by auto
      next
        case (Some o1)
        obtain o2 where "objs db' k = Some o2" "so_hash o2 = so_hash o1"
          using keepsD [of db1 db' k o1] reserve_blocks_grows [OF rest _ _ R] G(1) "2.prems"(3) Some by (auto simp: grows_def)
        then show ?thesis
          using reserve_hash_content [OF "2.prems"(2,3) h(1) Some ob(2)] ob(1) \<open>mb_hash b = Some hash\<close> by auto
      qed
      show ?thesis using IH content reserve_hash_fields [OF h(1)] by auto
    qed
  qed
qed

text \<open>Rows that exist keep their content and availability; claimed deletions stay what they are.\<close>

lemma claims_kept:
  assumes "\<And>d. d \<in> set claimed \<Longrightarrow> claim_ok db d"
    and "\<And>d ob'. d \<in> set claimed \<Longrightarrow> de_shared d \<Longrightarrow> objs db' (de_id d) = Some ob' \<Longrightarrow>
          (\<exists>ob. objs db (de_id d) = Some ob \<and> (so_state ob = Obj_Deleting \<longrightarrow> so_state ob' = Obj_Deleting))"
    and "d \<in> set claimed"
  shows "claim_ok db' d"
  using assms(1) [OF assms(3)] assms(2) [OF assms(3)] by (fastforce simp: claim_ok_def)

lemma reserve_ok:
  assumes s: "store_ok db remote claimed" and u: "ids_ok db points claimed used"
    and p: "p \<notin> set used" and new: "\<And>i. new i \<notin> set used"
    and valid: "list_all (\<lambda>b. \<forall>h. mb_hash b = Some h \<longrightarrow> digest_valid h) bs"
    and r: "shared_reserve digest new location p run bs db = (Inr (bs', os), db')"
  shows "store_ok db' remote claimed \<and> frame {p} db db' \<and> (p, run) \<in> set (sd_publications db')
    \<and> (\<forall>b \<in> set bs'. block_ok db' p b) \<and> owns db' p os \<and> (\<forall>x \<in> set os. reserved_ok db' p x)
    \<and> pubs db' = insert p (pubs db)"
proof -
  note inv = store_okD [OF s]
  obtain db1 where i: "insert_publication p run db = Inr db1"
    and rb: "reserve_blocks location (digest location) p new 0 bs [] db1 = Inr ((bs', os), db')"
    using r by (auto simp: shared_reserve_def rbind_Inr_iff split: sum.splits)
  have pub1: "sd_publications db1 = sd_publications db @ [(p, run)]" "sd_deletions db1 = sd_deletions db"
    "p \<notin> fst ` set (sd_publications db)" using i by (auto simp: insert_publication_def split: if_splits)
  have 1: "db_inv db1" "p \<in> pubs db1" "pubs db1 = insert p (pubs db)" "objs db1 = objs db" "refs db1 = refs db" "p \<notin> pubs db"
    using db_inv_publication [OF inv(1) i] by auto
  have o1: "owns db1 p []" using 1 db_invD(2) [OF inv(1), of p] by (auto simp: owns_def)
  have G: "grows new p db1 db'" "list_all (block_ok db' p) bs'" "list_all (reserved_ok db' p) os"
    using reserve_blocks_grows [OF rb 1(1,2)] by simp_all
  have M: "sd_publications db' = sd_publications db1" "sd_deletions db' = sd_deletions db1" "owns db' p os"
    and content: "\<And>k ob. objs db' k = Some ob \<Longrightarrow> objs db k = None \<Longrightarrow> Some (so_hash ob) \<in> mb_hash ` set bs"
    using reserve_blocks_more [OF rb 1(1,2) o1] 1(4) by auto
  have keep: "\<exists>o2. objs db' k = Some o2 \<and> so_state o2 = so_state o1 \<and> so_hash o2 = so_hash o1 \<and> so_size o2 = so_size o1"
    if "objs db k = Some o1" for k o1 using keepsD [of db1 db' k o1] G(1) that 1(4) by (simp add: grows_def)
  have pend: "k \<in> range new \<and> so_state ob = Obj_Pending" if "objs db' k = Some ob" "objs db k = None" for k ob
    using G(1) that 1(4) by (auto simp: grows_def adds_def)
  have rows: "rows_ok db' remote"
    unfolding rows_ok_def
  proof (intro allI impI conjI)
    fix k ob assume k: "objs db' k = Some ob"
    show "digest_valid (so_hash ob)"
    proof (cases "objs db k")
      case None
      then show ?thesis using content [OF k] valid by (force simp: list_all_iff)
    next
      case (Some o1)
      then show ?thesis using keep [OF Some] rows_okD(1) [OF inv(3) Some] k by auto
    qed
    assume st: "so_state ob = Obj_Ready \<or> so_state ob = Obj_Invalid"
    then obtain o1 where o1: "objs db k = Some o1" using pend [OF k] by (cases "objs db k") auto
    then show "available remote k ob" using keep [OF o1] rows_okD(2) [OF inv(3) o1] k st by (auto simp: available_def)
  qed
  have claims: "claim_ok db' d" if d: "d \<in> set claimed" for d
  proof (rule claims_kept [where db = db and db' = db' and claimed = claimed, OF inv(5) _ d])
    fix d ob' assume d: "d \<in> set claimed" "de_shared d" "objs db' (de_id d) = Some ob'"
    have "de_id d \<in> set used" using u d(1,2) by (auto simp: ids_ok_def)
    then have "objs db (de_id d) \<noteq> None" using pend [OF d(3)] new by (metis rangeE)
    then show "\<exists>ob. objs db (de_id d) = Some ob \<and> (so_state ob = Obj_Deleting \<longrightarrow> so_state ob' = Obj_Deleting)"
      using keep [of "de_id d"] d(3) by auto
  qed
  have fr: "frame {p} db db'"
    using keep G(1) 1(5) by (fastforce simp: frame_def M pub1 grows_def same_row_def)
  have "pubs db' = insert p (pubs db)" using G(1) 1(3) by (simp add: grows_def)
  then show ?thesis
    using s G M pub1 rows claims fr by (auto simp: store_ok_def queue_ok_def grows_def list_all_iff)
qed

section \<open>Completion\<close>

lemma complete_fields:
  assumes "complete_uploads now p blocks db = (Inr blocks', db')"
  shows "sd_publications db' = sd_publications db \<and> sd_deletions db' = sd_deletions db"
proof -
  have obj: "sd_publications db2 = sd_publications db1 \<and> sd_deletions db2 = sd_deletions db1"
    if "settle_object now p e (r1, db1) = Inr (r2, db2)" for e r1 db1 r2 db2
    using that by (auto simp: settle_object_def update_objects_def Let_def split: prod.splits option.splits if_splits)
  have "sd_publications db2 = sd_publications db1 \<and> sd_deletions db2 = sd_deletions db1"
    if "settle_objects now p es (r1, db1) = Inr (r2, db2)" for es r1 db1 r2 db2
    using that by (induction es arbitrary: r1 db1) (auto simp: rbind_Inr_iff dest!: obj)
  then show ?thesis using assms by (auto simp: complete_uploads_def split: sum.splits prod.splits)
qed

lemma complete_ok:
  assumes s: "store_ok db remote claimed"
    and up: "\<And>k ob. (p, k) \<in> refs db \<Longrightarrow> objs db k = Some ob \<Longrightarrow> so_state ob = Obj_Pending \<Longrightarrow> available remote k ob"
    and blocks: "\<forall>b \<in> set bs. block_ok db p b"
    and c: "complete_uploads now p bs db = (Inr bs', db')"
  shows "store_ok db' remote claimed \<and> frame {p} db db' \<and> (\<forall>b \<in> set bs'. block_ok db' p b) \<and> no_pending db' p
    \<and> sd_publications db' = sd_publications db \<and> (\<forall>k. objs db k = None \<longrightarrow> objs db' k = None)"
proof -
  note inv = store_okD [OF s]
  obtain reps where st: "db_inv db'" "settles p reps db db'" "bs' = replace_blocks reps bs" "verified db' p = Inr ()"
    using complete_uploads_steps [OF inv(1) c] by blast
  have R: "rows_settle p db db'" "refs_settle p reps db db'" using st(2) by (simp_all add: settles_def)
  have same: "objs db' k = None \<longleftrightarrow> objs db k = None" for k using R(1) by (simp add: rows_settle_def)
  have prior: "\<exists>ob. objs db k = Some ob \<and> same_row ob ob'
      \<and> (so_state ob' = so_state ob \<or> so_state ob = Obj_Pending \<and> so_state ob' = Obj_Ready \<and> (p, k) \<in> refs db)"
    if k: "objs db' k = Some ob'" for k ob'
  proof (cases "objs db k")
    case None
    then show ?thesis using same [of k] k by simp
  next
    case (Some ob)
    then show ?thesis using rows_settleD [OF R(1) Some k] by simp
  qed
  have rows: "rows_ok db' remote"
    unfolding rows_ok_def
  proof (intro allI impI conjI)
    fix k ob' assume k: "objs db' k = Some ob'"
    obtain ob where ob: "objs db k = Some ob" "same_row ob ob'"
      "so_state ob' = so_state ob \<or> so_state ob = Obj_Pending \<and> so_state ob' = Obj_Ready \<and> (p, k) \<in> refs db"
      using prior [OF k] by blast
    show "digest_valid (so_hash ob')" using rows_okD(1) [OF inv(3) ob(1)] ob(2) by (simp add: same_row_def)
    assume "so_state ob' = Obj_Ready \<or> so_state ob' = Obj_Invalid"
    then have "available remote k ob" using ob(3) rows_okD(2) [OF inv(3) ob(1)] up [OF _ ob(1)] by auto
    then show "available remote k ob'" using ob(2) by (simp add: same_row_def available_def)
  qed
  have claims: "claim_ok db' d" if d: "d \<in> set claimed" for d
  proof (rule claims_kept [where db = db and db' = db' and claimed = claimed, OF inv(5) _ d])
    fix d ob' assume "objs db' (de_id d) = Some ob'"
    then obtain ob where "objs db (de_id d) = Some ob"
      "so_state ob' = so_state ob \<or> so_state ob = Obj_Pending \<and> so_state ob' = Obj_Ready" using prior by blast
    then show "\<exists>ob. objs db (de_id d) = Some ob \<and> (so_state ob = Obj_Deleting \<longrightarrow> so_state ob' = Obj_Deleting)" by auto
  qed
  have fr: "frame {p} db db'"
    unfolding frame_def
  proof (intro conjI allI impI)
    fix q k ob assume q: "q \<notin> {p}" "(q, k) \<in> refs db" "objs db k = Some ob"
    obtain ob' where ob': "objs db' k = Some ob'" using same [of k] q(3) by auto
    then show "\<exists>ob'. objs db' k = Some ob' \<and> same_row ob ob' \<and> (so_state ob' = Obj_Pending \<longrightarrow> so_state ob = Obj_Pending)"
      using rows_settleD [OF R(1) q(3) ob'] by auto
  qed (use R(2) complete_fields [OF c] in \<open>auto simp: refs_settle_def\<close>)
  have b: "\<forall>b \<in> set bs'. block_ok db' p b"
    using blocks block_ok_settles [OF _ st(2)] by (auto simp: st(3) replace_blocks_def)
  have np: "no_pending db' p" unfolding no_pending_def
    using verified_ready [OF st(1,4)] by fastforce
  show ?thesis
    using s st(1) complete_fields [OF c] rows claims fr b np same by (simp add: store_ok_def queue_ok_def)
qed

section \<open>Invalidation, collection and release\<close>

text \<open>An update that leaves referenced rows, the content of rows and their verified state as they are.\<close>

lemma update_ok:
  assumes s: "store_ok db remote claimed" and inv: "db_inv (update_objects P f db)"
    and f: "\<And>k ob. objs db k = Some ob \<Longrightarrow> P k ob \<Longrightarrow> same_row ob (f ob)
      \<and> (so_state (f ob) = so_state ob \<or> so_state ob = Obj_Ready \<and> so_state (f ob) = Obj_Invalid
           \<or> so_state (f ob) = Obj_Deleting \<and> \<not> referenced db k)"
  shows "store_ok (update_objects P f db) remote claimed \<and> frame {} db (update_objects P f db)"
proof -
  note old = store_okD [OF s]
  have rows: "rows_ok (update_objects P f db) remote"
    unfolding rows_ok_def
  proof (intro allI impI conjI)
    fix k ob' assume "objs (update_objects P f db) k = Some ob'"
    then obtain ob where ob: "objs db k = Some ob" "ob' = (if P k ob then f ob else ob)" by auto
    note r = rows_okD [OF old(3) ob(1)]
    show "digest_valid (so_hash ob')" using r(1) ob f [OF ob(1)] by (auto simp: same_row_def)
    assume "so_state ob' = Obj_Ready \<or> so_state ob' = Obj_Invalid"
    then show "available remote k ob'" using r(2) ob f [OF ob(1)] by (auto simp: same_row_def available_def split: if_splits)
  qed
  have claims: "claim_ok (update_objects P f db) d" if d: "d \<in> set claimed" for d
  proof (rule claims_kept [where db = db and claimed = claimed, OF old(5) _ d])
    fix d ob' assume "objs (update_objects P f db) (de_id d) = Some ob'"
    then obtain ob where ob: "objs db (de_id d) = Some ob" "ob' = (if P (de_id d) ob then f ob else ob)" by auto
    then show "\<exists>ob. objs db (de_id d) = Some ob \<and> (so_state ob = Obj_Deleting \<longrightarrow> so_state ob' = Obj_Deleting)"
      using f [OF ob(1)] by auto
  qed
  have "frame {} db (update_objects P f db)"
    unfolding frame_def
  proof (intro conjI allI impI)
    fix p k ob assume k: "(p, k) \<in> refs db" "objs db k = Some ob"
    then have "referenced db k" by (auto simp: referenced_refs)
    then show "\<exists>ob'. objs (update_objects P f db) k = Some ob' \<and> same_row ob ob' \<and> (so_state ob' = Obj_Pending \<longrightarrow> so_state ob = Obj_Pending)"
      using f [OF k(2)] k(2) by (cases "P k ob") (auto simp: same_row_def)
  qed simp_all
  then show ?thesis using s inv rows claims by (simp add: store_ok_def queue_ok_def update_objects_def)
qed

lemma invalidate_ok:
  assumes s: "store_ok db remote claimed"
  shows "store_ok (invalidate k db) remote claimed \<and> frame {} db (invalidate k db)"
  unfolding invalidate_def
  by (rule update_ok [OF s]) (use db_inv_invalidate [OF store_okD(1) [OF s], of k] in \<open>auto simp: invalidate_def same_row_def\<close>)

lemma queue_remote_fields [simp]:
  "sd_publications (queue_remote digest l k pre db) = sd_publications db"
  "objs (queue_remote digest l k pre db) = objs db" "refs (queue_remote digest l k pre db) = refs db"
  "pubs (queue_remote digest l k pre db) = pubs db" "db_inv (queue_remote digest l k pre db) = db_inv db"
  by (simp_all add: queue_remote_def Let_def db_inv_deletions pubs_def)

lemma frame_fields:
  "sd_publications db' = sd_publications db \<Longrightarrow> objs db' = objs db \<Longrightarrow> refs db' = refs db \<Longrightarrow> frame {} db db'"
  by (simp add: frame_def same_row_def)

lemma queue_remote_ok:
  assumes "store_ok db remote claimed" "starts_with ''node-backups/'' k"
  shows "store_ok (queue_remote digest l k pre db) remote claimed \<and> frame {} db (queue_remote digest l k pre db)"
proof -
  have "queue_ok (queue_remote digest l k pre db)"
    using assms by (auto simp: store_ok_def queue_ok_def queue_remote_def Let_def)
  then show ?thesis
    using assms(1) by (simp add: store_ok_def rows_ok_def claim_ok_def frame_fields)
qed

lemma starts_manifest_key: "starts_with ''node-backups/'' (manifest_key run p)"
  by (simp add: manifest_key_def starts_with_iff)

lemma starts_block_key: "starts_with ''node-backups/'' (block_key run p)"
  by (simp add: block_key_def starts_with_iff)

lemma forget_ok:
  assumes s: "store_ok db remote claimed" and d: "d \<in> set claimed"
  shows "store_ok (forget_deleted d db) remote claimed \<and> frame {} db (forget_deleted d db)"
proof -
  note inv = store_okD [OF s] and ob' = forget_objs [OF db_invD(1) [OF store_okD(1) [OF s]], of d]
  have kept: "objs (forget_deleted d db) k = Some ob \<Longrightarrow> objs db k = Some ob" for k ob
    by (simp add: ob' split: if_splits)
  have r: "refs (forget_deleted d db) = refs db" and p: "sd_publications (forget_deleted d db) = sd_publications db"
    by (simp_all add: forget_deleted_def)
  have "frame {} db (forget_deleted d db)"
    by (auto simp: frame_def r p ob' same_row_def)
  moreover have "rows_ok (forget_deleted d db) remote"
    using inv(3) by (auto simp: rows_ok_def dest: kept)
  moreover have "queue_ok (forget_deleted d db)"
    using inv(4) by (auto simp: queue_ok_def forget_deleted_def)
  moreover have "claim_ok (forget_deleted d db) e" if "e \<in> set claimed" for e
    using inv(5) [OF that] by (auto simp: claim_ok_def dest: kept)
  ultimately show ?thesis using s db_inv_forget [OF inv(1), of d] by (simp add: store_ok_def p)
qed

lemma finish_ok:
  assumes "store_ok db remote claimed" "set ds \<subseteq> set claimed"
  shows "store_ok (finish_deletions ds db) remote claimed \<and> frame {} db (finish_deletions ds db)
    \<and> (\<forall>k ob. objs (finish_deletions ds db) k = Some ob \<longrightarrow> objs db k = Some ob) \<and> pubs (finish_deletions ds db) = pubs db"
  using assms
proof (induction ds arbitrary: db)
  case Nil
  then show ?case by (simp add: finish_deletions_def frame_refl)
next
  case (Cons d ds)
  have 1: "store_ok (forget_deleted d db) remote claimed" "frame {} db (forget_deleted d db)"
    using forget_ok [OF Cons.prems(1), of d] Cons.prems(2) by simp_all
  have e: "finish_deletions (d # ds) db = finish_deletions ds (forget_deleted d db)" by (simp add: finish_deletions_def)
  have "objs (forget_deleted d db) k = Some ob \<Longrightarrow> objs db k = Some ob" for k ob
    by (simp add: forget_objs [OF db_invD(1) [OF store_okD(1) [OF Cons.prems(1)]]] split: if_splits)
  moreover have "pubs (forget_deleted d db) = pubs db" by (simp add: forget_deleted_def)
  ultimately show ?case using Cons.IH [OF 1(1)] Cons.prems(2) frame_trans [OF 1(2)] by (auto simp: e)
qed

lemma frame_deletions: "frame Q a (db\<lparr>sd_deletions := x\<rparr>) = frame Q a db"
  by (simp add: frame_def)

lemma claim_ok_deletions: "claim_ok (db\<lparr>sd_deletions := x\<rparr>) d = claim_ok db d"
  by (simp add: claim_ok_def)

lemma claim_step_ok:
  assumes s: "store_ok db remote claimed" and c: "claim now cutoff db = (ds, db')"
  shows "store_ok db' remote (ds @ claimed) \<and> frame {} db db' \<and> (\<forall>k. objs db k = None \<longrightarrow> objs db' k = None) \<and> pubs db' = pubs db
    \<and> (\<forall>d \<in> set ds. de_shared d \<longrightarrow> objs db (de_id d) \<noteq> None)"
proof -
  note inv = store_okD [OF s]
  define rows where "rows = due_objects now cutoff db"
  define f where "f = (\<lambda>ob::shared_object. ob\<lparr>so_state := Obj_Deleting, so_retry_at := now + 60000\<rparr>)"
  define db1 where "db1 = update_objects (\<lambda>k _. k \<in> fst ` set rows) f db"
  define dels where "dels = map (\<lambda>(k, d). (k, if k \<in> fst ` set (due_deletions now db1) then d\<lparr>rl_retry_at := now + 60000\<rparr> else d)) (sd_deletions db1)"
  have db': "db' = db1\<lparr>sd_deletions := dels\<rparr>"
    and ds: "ds = map (\<lambda>(k, ob). \<lparr>de_id = k, de_location = so_location ob, de_key = object_key (so_hash ob) k, de_prefix = False,
          de_shared = True\<rparr>) rows
        @ map (\<lambda>(k, d). \<lparr>de_id = k, de_location = rl_location d, de_key = rl_key d, de_prefix = rl_prefix d, de_shared = False\<rparr>)
            (due_deletions now db1)"
    using c by (simp_all add: claim_def Let_def rows_def db1_def f_def dels_def)
  have due: "objs db k = Some ob" "\<not> referenced db k" if "(k, ob) \<in> set rows" for k ob
    using due_objects_unused [OF inv(1) that [unfolded rows_def]] by (auto simp: referenced_refs)
  have "db_inv db1" using db_inv_claim [OF inv(1), of now cutoff] c by (simp add: db' db_inv_deletions)
  then have 1: "store_ok db1 remote claimed" "frame {} db db1"
    using update_ok [OF s, of "\<lambda>k _. k \<in> fst ` set rows" f] due by (force simp: db1_def f_def same_row_def)+
  have q: "set (due_deletions now db1) \<subseteq> set (sd_deletions db1)"
    by (auto simp: due_deletions_def dest!: in_set_takeD)
  have q1: "\<forall>(k, d) \<in> set (sd_deletions db1). starts_with ''node-backups/'' (rl_key d)"
    using 1(1) by (simp add: store_ok_def queue_ok_def)
  have row: "claim_ok db1 d" if d: "d = \<lparr>de_id = k, de_location = so_location ob, de_key = object_key (so_hash ob) k,
      de_prefix = False, de_shared = True\<rparr>" "(k, ob) \<in> set rows" for d k ob
  proof -
    have "k \<in> fst ` set rows" using d(2) by force
    then show ?thesis using d(1) due(1) [OF d(2)] rows_okD(1) [OF inv(3) due(1) [OF d(2)]] by (auto simp: claim_ok_def db1_def f_def)
  qed
  have queued: "claim_ok db1 d" if d: "d = \<lparr>de_id = k, de_location = rl_location r, de_key = rl_key r, de_prefix = rl_prefix r,
      de_shared = False\<rparr>" "(k, r) \<in> set (due_deletions now db1)" for d k r
    using d q q1 by (auto simp: claim_ok_def)
  have new: "claim_ok db1 d" if "d \<in> set ds" for d
    using that unfolding ds set_append set_map by (auto intro: row queued)
  have "\<forall>(k, d) \<in> set dels. starts_with ''node-backups/'' (rl_key d)" using q1 by (force simp: dels_def)
  moreover have "db_inv db1" "rows_ok db1 remote" "\<And>d. d \<in> set claimed \<Longrightarrow> claim_ok db1 d" "distinct (map fst (sd_publications db1))"
    using 1(1) by (simp_all add: store_ok_def)
  ultimately have "store_ok db' remote (ds @ claimed)"
    using new by (auto simp: store_ok_def db' db_inv_deletions rows_ok_def queue_ok_def claim_ok_deletions)
  moreover have "\<forall>k. objs db k = None \<longrightarrow> objs db' k = None" "pubs db' = pubs db" by (simp_all add: db' db1_def)
  moreover have "\<forall>d \<in> set ds. de_shared d \<longrightarrow> objs db (de_id d) \<noteq> None" using due(1) by (auto simp: ds)
  ultimately show ?thesis using 1(2) by (simp add: db' frame_deletions)
qed

end
