(* ===== verification/Publication_Inv.thy ===== *)
theory Publication_Inv
  imports Publication_Ops
begin

text \<open>Every step keeps the invariant.\<close>

section \<open>Releasing publications\<close>

lemma release_publications: "sd_publications (shared_release now p db) = filter (\<lambda>(q, _). q \<noteq> p) (sd_publications db)"
  by (simp add: shared_release_def Let_def)

lemma release_ok:
  assumes s: "store_ok db remote claimed"
  shows "store_ok (shared_release now p db) remote claimed \<and> frame {p} db (shared_release now p db)
    \<and> (\<forall>k. objs db k = None \<longrightarrow> objs (shared_release now p db) k = None)"
proof -
  note inv = store_okD [OF s] and f = release_fields [of now p db]
  have row: "\<exists>ob. objs db k = Some ob \<and> same_row ob ob' \<and> so_state ob' = so_state ob"
    if "objs (shared_release now p db) k = Some ob'" for k ob'
    using that by (auto simp: f(1) same_row_def split: if_splits)
  have "rows_ok (shared_release now p db) remote"
    using inv(3) by (fastforce simp: rows_ok_def available_def same_row_def dest: row)
  moreover have "queue_ok (shared_release now p db)"
    using inv(4) by (simp add: queue_ok_def shared_release_def Let_def update_objects_def)
  moreover have "claim_ok (shared_release now p db) d" if d: "d \<in> set claimed" for d
  proof (rule claims_kept [where db = db and claimed = claimed, OF inv(5) _ d])
    fix d ob' assume "objs (shared_release now p db) (de_id d) = Some ob'"
    from row [OF this] show "\<exists>ob. objs db (de_id d) = Some ob \<and> (so_state ob = Obj_Deleting \<longrightarrow> so_state ob' = Obj_Deleting)" by auto
  qed
  moreover have "frame {p} db (shared_release now p db)"
    by (auto simp: frame_def f(1,2) same_row_def release_publications)
  ultimately show ?thesis
    using s db_inv_release [OF inv(1)] f(1) by (auto simp: store_ok_def release_publications distinct_filter_fst)
qed

lemma release_many_ok:
  assumes "store_ok db remote claimed"
  shows "store_ok (foldl (\<lambda>db p. if p \<in> set keep then db else shared_release now p db) db ps) remote claimed
    \<and> frame (set ps - set keep) db (foldl (\<lambda>db p. if p \<in> set keep then db else shared_release now p db) db ps)
    \<and> (\<forall>k. objs db k = None \<longrightarrow> objs (foldl (\<lambda>db p. if p \<in> set keep then db else shared_release now p db) db ps) k = None)
    \<and> pubs (foldl (\<lambda>db p. if p \<in> set keep then db else shared_release now p db) db ps) = pubs db - (set ps - set keep)"
  using assms
proof (induction ps arbitrary: db)
  case Nil
  then show ?case by (simp add: frame_refl)
next
  case (Cons p ps)
  show ?case
  proof (cases "p \<in> set keep")
    case True
    then have "set (p # ps) - set keep = set ps - set keep" by auto
    then show ?thesis using Cons True by simp
  next
    case False
    note r = release_ok [OF Cons.prems, of now p]
    note ih = Cons.IH [of "shared_release now p db"]
    have "set (p # ps) - set keep = {p} \<union> (set ps - set keep)" using False by auto
    then show ?thesis
      using False r ih frame_trans [of "{p}" db "shared_release now p db"] release_fields(3) [of now p db] by auto
  qed
qed

lemma release_run_ok:
  fixes keep :: "string list" and run :: string
  assumes "store_ok db remote claimed"
  defines "Q \<equiv> {p. (p, run) \<in> set (sd_publications db)} - set keep"
  shows "store_ok (release_run now run keep db) remote claimed \<and> frame Q db (release_run now run keep db)
    \<and> (\<forall>k. objs db k = None \<longrightarrow> objs (release_run now run keep db) k = None)
    \<and> pubs (release_run now run keep db) \<subseteq> pubs db"
proof -
  have e: "set (map fst (filter (\<lambda>(_, r). r = run) (sd_publications db))) - set keep = Q"
    by (force simp: Q_def)
  show ?thesis
    using release_many_ok [OF assms(1), of keep now "map fst (filter (\<lambda>(_, r). r = run) (sd_publications db))", unfolded e]
    by (auto simp: release_run_def)
qed

section \<open>Parts of the invariant\<close>

lemma pub_invD:
  assumes "pub_inv st"
  shows "store_ok (ps_db st) (ps_remote st) (ps_claimed st)" "ids_ok (ps_db st) (ps_points st) (ps_claimed st) (ps_used st)"
    "points_ok (ps_db st) (ps_points st)" "grants_ok (ps_points st) (ps_grants st)" "runs_ok (ps_points st) (ps_runs st)"
    "active_ok (ps_db st) (ps_remote st) (ps_points st) (ps_runs st) (ps_grants st) (ps_active st)"
    "db_inv (ps_db st)" "tb_ok (ps_points st)" "tb_ok (ps_active st)" "tb_ok (ps_grants st)" "tb_ok (ps_runs st)"
  using assms by (auto simp: pub_inv_def store_ok_def points_ok_def active_ok_def grants_ok_def runs_ok_def)

lemma pub_inv_active:
  "pub_inv st \<Longrightarrow> tb_get (ps_active st) r = Some a \<Longrightarrow>
     activity_ok (ps_db st) (ps_remote st) (ps_points st) (ps_runs st) (ps_grants st) r a"
  by (simp add: pub_inv_def active_ok_def)

lemma active_put:
  assumes "tb_ok active" "activity_ok db remote points runs grants r a"
    and "\<And>q b. q \<noteq> r \<Longrightarrow> tb_get active q = Some b \<Longrightarrow> activity_ok db remote points runs grants q b"
  shows "active_ok db remote points runs grants (tb_put r a active)"
  using assms by (auto simp: active_ok_def tb.invar_ins tb.get_ins split: if_splits)

lemma active_remove:
  assumes "tb_ok active"
    and "\<And>q b. q \<noteq> r \<Longrightarrow> tb_get active q = Some b \<Longrightarrow> activity_ok db remote points runs grants q b"
  shows "active_ok db remote points runs grants (tb_remove r active)"
  using assms by (auto simp: active_ok_def tb.invar_del tb.get_del split: if_splits)

text \<open>Two activities publish different points, and neither publishes a stored one.\<close>

lemma publishing_distinct:
  assumes "pub_inv st" "tb_get (ps_active st) r = Some (Publishing pg)" "tb_get (ps_active st) q = Some (Publishing pg')" "q \<noteq> r"
  shows "bp_id (pg_point pg') \<noteq> bp_id (pg_point pg)"
proof
  assume e: "bp_id (pg_point pg') = bp_id (pg_point pg)"
  have "(bp_id (pg_point pg), r) \<in> set (sd_publications (ps_db st))" "(bp_id (pg_point pg'), q) \<in> set (sd_publications (ps_db st))"
    using pub_inv_active [OF assms(1,2)] pub_inv_active [OF assms(1,3)] by (simp_all add: publishing_ok_def Let_def)
  then show False using e assms(4) store_okD(2) [OF pub_invD(1) [OF assms(1)]] by (metis eq_key_imp_eq_value)
qed

text \<open>
  The general step: publications in \<open>Q\<close> change, no stored point and no other activity's publication is
  one of them.
\<close>

lemma activity_frame:
  assumes "activity_ok db remote points runs grants q b" "db_inv db" "frame Q db db'" "remote_keeps db remote remote'"
    and "\<And>pg. b = Publishing pg \<Longrightarrow> bp_id (pg_point pg) \<notin> Q \<and> tb_get points' (bp_id (pg_point pg)) = None"
    and "\<And>keep todo. b = Collecting keep todo \<Longrightarrow> collecting_ok points runs grants q keep todo \<Longrightarrow>
           collecting_ok points' runs' grants' q keep todo"
  shows "activity_ok db' remote' points' runs' grants' q b"
proof (cases b)
  case (Publishing pg)
  then show ?thesis using assms(1) publishing_frame [OF _ assms(2,3) _ assms(4)] assms(5) by auto
next
  case (Collecting keep todo)
  then show ?thesis using assms(1,6) by simp
qed

section \<open>Publishing\<close>

lemma activity_mono:
  assumes inv: "pub_inv st" and f: "frame {i} (ps_db st) db'" "remote_keeps (ps_db st) (ps_remote st) remote'"
    and q: "tb_get (ps_active st) q = Some b" "\<And>pg. b = Publishing pg \<Longrightarrow> bp_id (pg_point pg) \<noteq> i"
  shows "activity_ok db' remote' (ps_points st) (ps_runs st) (ps_grants st) q b"
  by (rule activity_frame [OF pub_inv_active [OF inv q(1)] pub_invD(7) [OF inv] f])
    (use q(2) pub_inv_active [OF inv q(1)] in \<open>auto simp: publishing_ok_def Let_def\<close>)

lemma points_frame:
  assumes inv: "pub_inv st" and "frame {i} (ps_db st) db'" "tb_get (ps_points st) i = None"
  shows "points_ok db' (ps_points st)"
  by (rule points_ok_frame [OF pub_invD(3,7) [OF inv] assms(2) pub_invD(8) [OF inv]]) (use assms(3) in auto)

text \<open>What \<open>write_intent\<close> returns and leaves behind.\<close>

lemma write_intent_ok:
  assumes inv: "pub_inv st" and p: "bp_id point \<notin> set (ps_used st)" and new: "\<And>i. new i \<notin> set (ps_used st)"
    and valid: "list_all (\<lambda>b. \<forall>h. mb_hash b = Some h \<longrightarrow> digest_valid h) (bp_blocks point)"
    and w: "write_intent digest new occupied budget intent_len point st = (r, st')"
  shows "store_ok (ps_db st') (ps_remote st) (ps_claimed st) \<and> frame {bp_id point} (ps_db st) (ps_db st')
    \<and> pubs (ps_db st') \<subseteq> insert (bp_id point) (pubs (ps_db st)) \<and> tb_get (ps_points st) (bp_id point) = None
    \<and> ps_remote st' = ps_remote st \<and> ps_claimed st' = ps_claimed st \<and> ps_points st' = ps_points st \<and> ps_runs st' = ps_runs st
    \<and> ps_grants st' = ps_grants st \<and> ps_active st' = ps_active st \<and> ps_used st' = ps_used st
    \<and> (\<forall>pg. r = Inr pg \<longrightarrow> bp_shared point \<longrightarrow> publishing_ok (ps_db st') (ps_remote st) (ps_points st) (bp_run point) pg
         \<and> bp_id (pg_point pg) = bp_id point)"
proof -
  have none: "tb_get (ps_points st) (bp_id point) = None" using pub_invD(2) [OF inv] p by (fastforce simp: ids_ok_def)
  obtain res db where r0: "shared_reserve digest new (bp_location point) (bp_id point) (bp_run point) (bp_blocks point) (ps_db st) = (res, db)"
    by fastforce
  show ?thesis
  proof (cases res)
    case (Inl e)
    then show ?thesis using w r0 none pub_invD(1) [OF inv] by (auto simp: write_intent_def frame_refl)
  next
    case (Inr out)
    obtain bs os where out: "out = (bs, os)" by (cases out)
    note R = reserve_ok [OF pub_invD(1,2) [OF inv] p new valid r0 [unfolded Inr out]]
    have st': "ps_db st' = db" "ps_remote st' = ps_remote st" "ps_claimed st' = ps_claimed st" "ps_points st' = ps_points st"
      "ps_runs st' = ps_runs st" "ps_grants st' = ps_grants st" "ps_active st' = ps_active st" "ps_used st' = ps_used st"
      using w r0 Inr out by (auto simp: write_intent_def Let_def split: if_splits)
    have pg: "pg = \<lparr>pg_point = point\<lparr>bp_blocks := bs\<rparr>, pg_objects = os, pg_uploaded = [], pg_settled = False\<rparr>" if "r = Inr pg" for pg
      using w r0 Inr out that by (auto simp: write_intent_def Let_def split: if_splits)
    have "publishing_ok db (ps_remote st) (ps_points st) (bp_run point)
        \<lparr>pg_point = point\<lparr>bp_blocks := bs\<rparr>, pg_objects = os, pg_uploaded = [], pg_settled = False\<rparr>" if "bp_shared point"
      using R none that by (auto simp: publishing_ok_def Let_def reserved_def owns_def reserved_ok_def)
    then show ?thesis using R none by (auto simp: st' dest!: pg)
  qed
qed

lemma ids_draw:
  assumes "ids_ok db points claimed used" "pubs db' \<subseteq> insert i (pubs db)"
  shows "ids_ok db' points claimed (i # map fst (sd_objects db') @ used)"
  using assms by (auto simp: ids_ok_def objs_def dest!: map_of_SomeD intro: rev_image_eqI)

lemma inv_begin:
  assumes inv: "pub_inv st" and free: "unlocked st (bp_run point)" and p: "bp_id point \<notin> set (ps_used st)" "\<And>i. new i \<notin> set (ps_used st)"
    and valid: "list_all (\<lambda>b. \<forall>h. mb_hash b = Some h \<longrightarrow> digest_valid h) (bp_blocks point)"
    and w: "write_intent digest new occupied budget intent_len point st = (r, st')"
    and st2: "st2 = st' \<or> (\<exists>pg. r = Inr pg \<and> bp_shared point \<and> st2 = set_activity (bp_run point) (Publishing pg) st')"
  shows "pub_inv (draw_ids (bp_id point) st2)"
proof -
  note W = write_intent_ok [OF inv p valid w]
  have f: "frame {bp_id point} (ps_db st) (ps_db st')" and none: "tb_get (ps_points st) (bp_id point) = None" using W by auto
  have old: "activity_ok (ps_db st') (ps_remote st) (ps_points st) (ps_runs st) (ps_grants st) q b"
    if q: "tb_get (ps_active st) q = Some b" for q b
  proof (rule activity_mono [OF inv f _ q])
    fix pg assume "b = Publishing pg"
    then have "bp_id (pg_point pg) \<in> pubs (ps_db st)"
      using pub_inv_active [OF inv q] by (force simp: publishing_ok_def Let_def pubs_def)
    then show "bp_id (pg_point pg) \<noteq> bp_id point" using pub_invD(2) [OF inv] p(1) by (auto simp: ids_ok_def)
  qed simp
  have s2: "ps_db st2 = ps_db st'" "ps_remote st2 = ps_remote st" "ps_claimed st2 = ps_claimed st" "ps_points st2 = ps_points st"
    "ps_runs st2 = ps_runs st" "ps_grants st2 = ps_grants st" "ps_used st2 = ps_used st"
    using W st2 by (auto simp: set_activity_def)
  have "active_ok (ps_db st') (ps_remote st) (ps_points st) (ps_runs st) (ps_grants st) (ps_active st2)"
    using st2
  proof
    assume "st2 = st'"
    then show ?thesis using W old pub_invD(9) [OF inv] by (auto simp: active_ok_def)
  next
    assume "\<exists>pg. r = Inr pg \<and> bp_shared point \<and> st2 = set_activity (bp_run point) (Publishing pg) st'"
    then obtain pg where "r = Inr pg" "bp_shared point" "st2 = set_activity (bp_run point) (Publishing pg) st'" by blast
    then show ?thesis using W active_put [OF pub_invD(9) [OF inv]] old by (auto simp: set_activity_def)
  qed
  moreover have "points_ok (ps_db st') (ps_points st)" by (rule points_frame [OF inv f none])
  moreover have "ids_ok (ps_db st') (ps_points st) (ps_claimed st) (bp_id point # map fst (sd_objects (ps_db st')) @ ps_used st)"
    using ids_draw [OF pub_invD(2) [OF inv]] W by blast
  ultimately show ?thesis using W pub_invD(4,5) [OF inv] by (simp add: pub_inv_def draw_ids_def s2)
qed

text \<open>An object key written with its own content makes no other object unavailable.\<close>

lemma upload_keeps:
  assumes "rows_ok db remote" "digest_valid h"
  shows "remote_keeps db remote (remote(object_key h k \<mapsto> h))" "rows_ok db (remote(object_key h k \<mapsto> h))"
proof -
  have av: "available (remote(object_key h k \<mapsto> h)) j ob" if "available remote j ob" "digest_valid (so_hash ob)" for j ob
    using that object_key_inj [OF _ that(2) assms(2)] by (auto simp: available_def)
  show "remote_keeps db remote (remote(object_key h k \<mapsto> h))"
    using av rows_okD(1) [OF assms(1)] by (auto simp: remote_keeps_def)
  show "rows_ok db (remote(object_key h k \<mapsto> h))"
    using assms(1) av by (auto simp: rows_ok_def)
qed

lemma inv_upload:
  assumes inv: "pub_inv st" and a: "tb_get (ps_active st) run = Some (Publishing pg)" "\<not> pg_settled pg"
    and ob: "ob \<in> set (pg_objects pg)" and u: "upload_object ob pg st = (pg', st')"
  shows "pub_inv (set_activity run (Publishing pg') st')"
proof -
  define i where "i = bp_id (pg_point pg)"
  have P: "publishing_ok (ps_db st) (ps_remote st) (ps_points st) run pg" using pub_inv_active [OF inv a(1)] by simp
  then have res: "reserved (ps_db st) (ps_remote st) i pg" using a(2) by (simp add: publishing_ok_def Let_def i_def)
  then obtain o1 where o1: "objs (ps_db st) (ro_id ob) = Some o1" "so_hash o1 = ro_hash ob" "(i, ro_id ob) \<in> refs (ps_db st)"
    using ob by (auto simp: reserved_def)
  define remote where "remote = (ps_remote st)(object_key (ro_hash ob) (ro_id ob) \<mapsto> ro_hash ob)"
  have pg': "pg' = pg\<lparr>pg_uploaded := ro_id ob # pg_uploaded pg\<rparr>" and st': "st' = st\<lparr>ps_remote := remote\<rparr>"
    using u by (simp_all add: upload_object_def remote_def)
  note s = store_okD [OF pub_invD(1) [OF inv]]
  have v: "digest_valid (ro_hash ob)" using rows_okD(1) [OF s(3) o1(1)] o1(2) by simp
  note up = upload_keeps [OF s(3) v, of "ro_id ob", folded remote_def]
  have av: "available remote (ro_id ob) o1" by (simp add: available_def remote_def o1(2))
  have "reserved (ps_db st) remote i pg" by (rule reserved_frame [OF s(1) frame_refl [of "{}"] _ up(1) res]) simp
  then have "reserved (ps_db st) remote i pg'" using av o1 by (auto simp: reserved_def pg')
  then have new: "publishing_ok (ps_db st) remote (ps_points st) run pg'"
    using P a(2) by (simp add: publishing_ok_def Let_def pg' i_def)
  have old: "activity_ok (ps_db st) remote (ps_points st) (ps_runs st) (ps_grants st) q b"
    if "tb_get (ps_active st) q = Some b" for q b
    by (rule activity_frame [OF pub_inv_active [OF inv that] s(1) frame_refl [of "{}"] up(1)])
      (use pub_inv_active [OF inv that] in \<open>auto simp: publishing_ok_def Let_def\<close>)
  have "active_ok (ps_db st) remote (ps_points st) (ps_runs st) (ps_grants st) (tb_put run (Publishing pg') (ps_active st))"
    by (rule active_put [OF pub_invD(9) [OF inv]]) (use new old in auto)
  then show ?thesis
    using inv up(2) by (simp add: pub_inv_def set_activity_def st' store_ok_def)
qed

lemma ids_shrink:
  assumes ids: "ids_ok db points claimed used" and k: "\<And>k. objs db k = None \<Longrightarrow> objs db' k = None" and p: "pubs db' \<subseteq> pubs db"
    and t: "\<And>i p. tb_get points' i = Some p \<Longrightarrow> tb_get points i = Some p"
  shows "ids_ok db' points' claimed used"
  unfolding ids_ok_def
proof (intro conjI allI impI ballI)
  show "k \<in> set used" if "objs db' k = Some ob" for k ob
    using that k [of k] ids by (cases "objs db k") (auto simp: ids_ok_def)
  show "i \<in> set used" if "tb_get points' i = Some p" for i p using t [OF that] ids by (auto simp: ids_ok_def)
qed (use ids p in \<open>auto simp: ids_ok_def\<close>)

lemma inv_settle:
  assumes inv: "pub_inv st" and a: "tb_get (ps_active st) run = Some (Publishing pg)" "\<not> pg_settled pg" "uploads_finished pg"
    and u: "publish_manifest now pg st = (Inr pg', st')"
  shows "pub_inv (set_activity run (Publishing pg') st')"
proof -
  define i where "i = bp_id (pg_point pg)"
  note s = pub_invD(1) [OF inv]
  have P: "publishing_ok (ps_db st) (ps_remote st) (ps_points st) run pg" using pub_inv_active [OF inv a(1)] by simp
  then have P': "bp_run (pg_point pg) = run" "bp_shared (pg_point pg)" "(i, run) \<in> set (sd_publications (ps_db st))"
    "tb_get (ps_points st) i = None" "\<forall>b \<in> set (bp_blocks (pg_point pg)). block_ok (ps_db st) i b"
    "reserved (ps_db st) (ps_remote st) i pg" using a(2) by (simp_all add: publishing_ok_def Let_def i_def)
  obtain bs db where c: "complete_uploads now i (bp_blocks (pg_point pg)) (ps_db st) = (Inr bs, db)"
    and pg': "pg' = pg\<lparr>pg_point := (pg_point pg)\<lparr>bp_blocks := bs\<rparr>, pg_settled := True\<rparr>"
    and st': "ps_db st' = db" "ps_remote st' = ps_remote st" "ps_claimed st' = ps_claimed st" "ps_points st' = ps_points st"
      "ps_runs st' = ps_runs st" "ps_grants st' = ps_grants st" "ps_active st' = ps_active st" "ps_used st' = ps_used st"
    using u by (auto simp: publish_manifest_def Let_def i_def split: prod.splits sum.splits)
  have up: "available (ps_remote st) k ob" if k: "(i, k) \<in> refs (ps_db st)" "objs (ps_db st) k = Some ob" "so_state ob = Obj_Pending" for k ob
  proof -
    obtain ro where "ro \<in> set (pg_objects pg)" "ro_id ro = k" "\<not> ro_ready ro" using P'(6) k by (auto simp: reserved_def)
    then have "k \<in> set (pg_uploaded pg)" using a(3) by (auto simp: uploads_finished_def list_all_iff)
    then show ?thesis using P'(6) k(2) by (auto simp: reserved_def)
  qed
  note C = complete_ok [OF s up P'(5) c]
  have f: "frame {i} (ps_db st) db" and C': "\<forall>b \<in> set bs. block_ok db i b" "no_pending db i"
    "sd_publications db = sd_publications (ps_db st)" using C by blast+
  have new: "publishing_ok db (ps_remote st) (ps_points st) run pg'"
    using C' P'(1-4) by (simp add: publishing_ok_def Let_def pg' i_def)
  have old: "activity_ok db (ps_remote st) (ps_points st) (ps_runs st) (ps_grants st) q b"
    if "q \<noteq> run" "tb_get (ps_active st) q = Some b" for q b
    by (rule activity_mono [OF inv f _ that(2)]) (use publishing_distinct [OF inv a(1)] that i_def in auto)
  have "active_ok db (ps_remote st) (ps_points st) (ps_runs st) (ps_grants st) (tb_put run (Publishing pg') (ps_active st))"
    by (rule active_put [OF pub_invD(9) [OF inv]]) (use new old in auto)
  moreover have "points_ok db (ps_points st)" by (rule points_frame [OF inv f P'(4)])
  moreover have "ids_ok db (ps_points st) (ps_claimed st) (ps_used st)"
  proof (rule ids_shrink [OF pub_invD(2) [OF inv]])
    show "objs db k = None" if "objs (ps_db st) k = None" for k using C that by blast
    have "sd_publications db = sd_publications (ps_db st)" using C by blast
    then show "pubs db \<subseteq> pubs (ps_db st)" by (simp add: pubs_def)
  qed
  moreover have "store_ok db (ps_remote st) (ps_claimed st)" using C by blast
  ultimately show ?thesis using pub_invD(4,5) [OF inv] by (simp add: pub_inv_def set_activity_def st')
qed

lemma stored_put: "tb_ok points \<Longrightarrow> tb_get points i = None \<Longrightarrow> stored points r j \<Longrightarrow> stored (tb_put i p points) r j"
  by (auto simp: stored_def tb.get_ins)

lemma inv_commit:
  assumes inv: "pub_inv st" and a: "tb_get (ps_active st) run = Some (Publishing pg)" "pg_settled pg"
    and c: "commit_point same (pg_point pg) st = (Inr (), st')"
  shows "pub_inv (end_activity run st')"
proof -
  define i where "i = bp_id (pg_point pg)"
  have P: "publishing_ok (ps_db st) (ps_remote st) (ps_points st) run pg" using pub_inv_active [OF inv a(1)] by simp
  then have P': "bp_run (pg_point pg) = run" "bp_shared (pg_point pg)" "(i, run) \<in> set (sd_publications (ps_db st))"
    "tb_get (ps_points st) i = None" "\<forall>b \<in> set (bp_blocks (pg_point pg)). block_ok (ps_db st) i b" "no_pending (ps_db st) i"
    using a(2) by (simp_all add: publishing_ok_def Let_def i_def)
  obtain r where r: "tb_get (ps_runs st) run = Some r"
    and st': "st' = st\<lparr>ps_points := tb_put i (pg_point pg) (ps_points st), ps_runs := tb_put run (r\<lparr>pj_head := Some i\<rparr>) (ps_runs st)\<rparr>"
    using c P'(1) by (auto simp: commit_point_def i_def split: if_splits sum.splits option.splits)
  note t = pub_invD(8) [OF inv]
  have get: "tb_get (tb_put i (pg_point pg) (ps_points st)) j = (if j = i then Some (pg_point pg) else tb_get (ps_points st) j)" for j
    using t by (simp add: tb.get_ins)
  have "point_ok (ps_db st) (pg_point pg)" using P' by (simp add: point_ok_def i_def)
  then have pts: "points_ok (ps_db st) (tb_put i (pg_point pg) (ps_points st))"
    using pub_invD(3) [OF inv] t by (auto simp: points_ok_def get tb.invar_ins split: if_splits) (simp add: i_def)
  have grants: "grants_ok (tb_put i (pg_point pg) (ps_points st)) (ps_grants st)"
    using pub_invD(4) [OF inv] stored_put [OF t P'(4)] by (fastforce simp: grants_ok_def)
  have runs: "runs_ok (tb_put i (pg_point pg) (ps_points st)) (tb_put run (r\<lparr>pj_head := Some i\<rparr>) (ps_runs st))"
  proof -
    have "stored (tb_put i (pg_point pg) (ps_points st)) run i" using P'(1) by (simp add: stored_def get)
    then show ?thesis
      using pub_invD(5) [OF inv] pub_invD(11) [OF inv]
      by (auto simp: runs_ok_def tb.get_ins tb.invar_ins split: if_splits intro: stored_put [OF t P'(4)])
  qed
  have old: "activity_ok (ps_db st) (ps_remote st) (tb_put i (pg_point pg) (ps_points st))
      (tb_put run (r\<lparr>pj_head := Some i\<rparr>) (ps_runs st)) (ps_grants st) q b"
    if q: "q \<noteq> run" "tb_get (ps_active st) q = Some b" for q b
  proof (rule activity_frame [OF pub_inv_active [OF inv q(2)] pub_invD(7) [OF inv] frame_refl [of "{}"] remote_keeps_refl])
    fix pg' assume b: "b = Publishing pg'"
    then show "bp_id (pg_point pg') \<notin> {} \<and> tb_get (tb_put i (pg_point pg) (ps_points st)) (bp_id (pg_point pg')) = None"
      using publishing_distinct [OF inv a(1), folded i_def, of q pg'] q pub_inv_active [OF inv q(2)]
      by (auto simp: get publishing_ok_def Let_def)
  next
    fix keep todo assume "b = Collecting keep todo" and k: "collecting_ok (ps_points st) (ps_runs st) (ps_grants st) q keep todo"
    have "tb_get (tb_put run (r\<lparr>pj_head := Some i\<rparr>) (ps_runs st)) q = tb_get (ps_runs st) q"
      using q(1) pub_invD(11) [OF inv] by (simp add: tb.get_ins)
    then show "collecting_ok (tb_put i (pg_point pg) (ps_points st)) (tb_put run (r\<lparr>pj_head := Some i\<rparr>) (ps_runs st)) (ps_grants st) q keep todo"
      using k q(1) P'(1,4) by (auto simp: collecting_ok_def get)
  qed
  have "active_ok (ps_db st) (ps_remote st) (tb_put i (pg_point pg) (ps_points st))
      (tb_put run (r\<lparr>pj_head := Some i\<rparr>) (ps_runs st)) (ps_grants st) (tb_remove run (ps_active st))"
    by (rule active_remove [OF pub_invD(9) [OF inv] old])
  moreover have "ids_ok (ps_db st) (tb_put i (pg_point pg) (ps_points st)) (ps_claimed st) (ps_used st)"
    using pub_invD(2) [OF inv] P'(3) by (fastforce simp: ids_ok_def get pubs_def split: if_splits)
  ultimately show ?thesis using inv pts grants runs by (simp add: pub_inv_def end_activity_def st')
qed

lemma inv_abort: "pub_inv st \<Longrightarrow> pub_inv (end_activity run st)"
  by (auto simp: pub_inv_def end_activity_def active_ok_def tb.invar_del tb.get_del)

section \<open>Grants\<close>

lemma set_pinned:
  "tb_ok t \<Longrightarrow> b \<in> set (pinned run t) \<longleftrightarrow> (\<exists>i g. tb_get t i = Some g \<and> dg_run g = run \<and> b \<in> set (dg_backups g))"
  by (force simp: pinned_def tb_list_def tb_get_def tb_ok_def)

lemma inv_grants:
  assumes inv: "pub_inv st" and g: "grant_ok g" "\<And>b. b \<in> set (dg_backups g) \<Longrightarrow> stored (ps_points st) (dg_run g) b"
    and c: "\<And>keep todo. tb_get (ps_active st) (dg_run g) = Some (Collecting keep todo) \<Longrightarrow> set (dg_backups g) \<subseteq> set keep"
  shows "pub_inv (st\<lparr>ps_grants := tb_put i g (ps_grants st)\<rparr>)"
proof -
  note t = pub_invD(10) [OF inv]
  have "grants_ok (ps_points st) (tb_put i g (ps_grants st))"
    using pub_invD(4) [OF inv] g t by (auto simp: grants_ok_def tb.get_ins tb.invar_ins split: if_splits)
  moreover have "activity_ok (ps_db st) (ps_remote st) (ps_points st) (ps_runs st) (tb_put i g (ps_grants st)) q b"
    if q: "tb_get (ps_active st) q = Some b" for q b
  proof (rule activity_frame [OF pub_inv_active [OF inv q] pub_invD(7) [OF inv] frame_refl [of "{}"] remote_keeps_refl])
    fix keep todo assume b: "b = Collecting keep todo" and k: "collecting_ok (ps_points st) (ps_runs st) (ps_grants st) q keep todo"
    have "x \<in> set keep" if x: "x \<in> set (pinned q (tb_put i g (ps_grants st)))" for x
    proof -
      obtain j g1 where j: "tb_get (tb_put i g (ps_grants st)) j = Some g1" "dg_run g1 = q" "x \<in> set (dg_backups g1)"
        using x set_pinned [OF tb.invar_ins [OF t]] by blast
      show ?thesis
      proof (cases "j = i")
        case True
        then show ?thesis using j c [of keep todo] q b t by (auto simp: tb.get_ins)
      next
        case False
        then have "x \<in> set (pinned q (ps_grants st))" using j t by (auto simp: set_pinned tb.get_ins)
        then show ?thesis using k by (auto simp: collecting_ok_def)
      qed
    qed
    then show "collecting_ok (ps_points st) (ps_runs st) (tb_put i g (ps_grants st)) q keep todo"
      using k by (auto simp: collecting_ok_def)
  qed (use pub_inv_active [OF inv q] in \<open>auto simp: publishing_ok_def Let_def\<close>)
  ultimately show ?thesis using inv by (simp add: pub_inv_def active_ok_def)
qed

lemma fresh_grant_ok: "grant_ok \<lparr>dg_run = r, dg_node = n, dg_backups = bs, dg_generation = None, dg_published = None, dg_pending = []\<rparr>"
  by (simp add: grant_ok_def)

lemma inv_new_disk:
  assumes "pub_inv st" "new_disk token_digest token run node (ps_grants st) = (tok, t)"
  shows "pub_inv (st\<lparr>ps_grants := t\<rparr>)"
  using assms(2) inv_grants [OF assms(1) fresh_grant_ok [of run "Some node" "[]"]] by (auto simp: new_disk_def put_grant_def)

lemma inv_issue:
  assumes "pub_inv st" "unlocked st run" "tb_get (ps_points st) (bp_id p) = Some p" "bp_run p = run"
    and "issue_grant token_digest token run node p (ps_grants st) = (Inr tok, t)"
  shows "pub_inv (st\<lparr>ps_grants := t\<rparr>)"
  using assms(2-5) inv_grants [OF assms(1) fresh_grant_ok [of run "Some node" "[bp_id p]"]]
  by (auto simp: issue_grant_def put_grant_def unlocked_def stored_def split: if_splits)

lemma inv_update_grant:
  assumes inv: "pub_inv st" and p: "tb_get (ps_points st) (bp_id p) = Some p" and u: "update_grant i p acknowledged (ps_grants st) = (Inr (), t)"
    and c: "\<And>g. tb_get (ps_grants st) i = Some g \<Longrightarrow> dg_run g = bp_run p \<Longrightarrow> unlocked st (bp_run p) \<or> bp_id p \<in> set (dg_backups g)"
  shows "pub_inv (st\<lparr>ps_grants := t\<rparr>)"
  using u
proof (cases rule: update_grant_cases)
  case 1
  then show ?thesis using inv by simp
next
  case (2 g g')
  have G: "grant_ok g" "\<And>b. b \<in> set (dg_backups g) \<Longrightarrow> stored (ps_points st) (dg_run g) b"
    using pub_invD(4) [OF inv] 2(1) by (auto simp: grants_ok_def)
  note U = update_one_ok [OF G(1) 2(2)]
  show ?thesis
    unfolding 2(3)
  proof (rule inv_grants [OF inv])
    show "grant_ok g'" using U by simp
    show "stored (ps_points st) (dg_run g') b" if "b \<in> set (dg_backups g')" for b
      using that U G(2) p by (cases "b = bp_id p") (auto simp: stored_def)
    fix keep todo assume a: "tb_get (ps_active st) (dg_run g') = Some (Collecting keep todo)"
    then have "bp_id p \<in> set (dg_backups g)" using c [OF 2(1)] U by (auto simp: unlocked_def)
    then have "set (dg_backups g') \<subseteq> set (dg_backups g)" using U by auto
    moreover have "set (pinned (dg_run g) (ps_grants st)) \<subseteq> set keep"
      using pub_inv_active [OF inv a] U by (simp add: collecting_ok_def)
    ultimately show "set (dg_backups g') \<subseteq> set keep" using 2(1) set_pinned [OF pub_invD(10) [OF inv]] by blast
  qed
qed

section \<open>Collection\<close>

lemma points_of_run: "tb_ok points \<Longrightarrow> p \<in> set (tb_list points) \<longleftrightarrow> (\<exists>i. tb_get points i = Some p)"
  by (force simp: tb_list_def tb_get_def tb_ok_def)

lemma retained_keeps:
  assumes "retained hashes run st = Inr (Some (points, keep, needed))"
  shows "set (pinned run (ps_grants st)) \<subseteq> set keep \<and> points = node_backups_for_run st run
    \<and> (\<forall>r h. tb_get (ps_runs st) run = Some r \<longrightarrow> pj_head r = Some h \<longrightarrow> h \<in> set keep)
    \<and> (\<forall>r i. tb_get (ps_runs st) run = Some r \<longrightarrow> pj_move r = Some i \<longrightarrow> i \<in> set keep)
    \<and> (\<forall>i \<in> set keep. \<exists>p \<in> set points. bp_id p = i)"
proof -
  obtain current where c: "tb_get (ps_runs st) run = Some current"
    using assms by (auto simp: retained_def Let_def split: option.splits)
  show ?thesis
    using assms c by (auto simp: retained_def Let_def rbind_Inr_iff list_ex_iff split: option.splits if_splits)
qed

lemma inv_decide:
  assumes inv: "pub_inv st" and free: "unlocked st run" and r: "retained hashes run st = Inr (Some (points, keep, needed))"
  shows "pub_inv (set_activity run (Collecting keep (superseded points keep)) st)"
proof -
  note R = retained_keeps [OF r] and t = pub_invD(8) [OF inv]
  have pts: "set points = {p. \<exists>i. tb_get (ps_points st) i = Some p \<and> bp_run p = run}"
    using R points_of_run [OF t] by (auto simp: node_backups_for_run_def)
  have key: "bp_id p = i" if "tb_get (ps_points st) i = Some p" for i p using pub_invD(3) [OF inv] that by (auto simp: points_ok_def)
  have "map bp_id (tb_list (ps_points st)) = map fst (ps_points st)"
    using key t by (auto simp: tb_list_def tb_get_def tb_ok_def)
  then have "distinct (map bp_id points)"
    using R t by (simp add: node_backups_for_run_def tb_ok_def) (metis distinct_map_filter)
  then have "collecting_ok (ps_points st) (ps_runs st) (ps_grants st) run keep (superseded points keep)"
    using R pts key by (auto simp: collecting_ok_def superseded_def distinct_map_filter)
  then have "active_ok (ps_db st) (ps_remote st) (ps_points st) (ps_runs st) (ps_grants st)
      (tb_put run (Collecting keep (superseded points keep)) (ps_active st))"
    using active_put [OF pub_invD(9) [OF inv]] pub_inv_active [OF inv] by simp
  then show ?thesis using inv by (simp add: pub_inv_def set_activity_def)
qed

end
