(* ===== verification/Publication_Collect.thy ===== *)
theory Publication_Collect
  imports Publication_Inv
begin

text \<open>The collector's steps keep the invariant of publications; so does the deletion of a conversation.\<close>

section \<open>Steps on the shared tables\<close>

lemma ids_fewer:
  "ids_ok db points claimed used \<Longrightarrow> (\<And>k. objs db k = None \<Longrightarrow> objs db' k = None) \<Longrightarrow> pubs db' \<subseteq> pubs db \<Longrightarrow>
     ids_ok db' points claimed used"
  by (rule ids_shrink) auto

lemma inv_tables:
  assumes inv: "pub_inv st" and s: "store_ok db (ps_remote st) (ps_claimed st)" "frame {} (ps_db st) db"
    and k: "\<And>k. objs (ps_db st) k = None \<Longrightarrow> objs db k = None" "pubs db \<subseteq> pubs (ps_db st)"
  shows "pub_inv (st\<lparr>ps_db := db\<rparr>)"
  by (rule inv_db [OF inv s(2) remote_keeps_refl s(1) ids_fewer [OF pub_invD(2) [OF inv] k]]) simp_all

lemma inv_invalidate:
  assumes "pub_inv st"
  shows "pub_inv (st\<lparr>ps_db := invalidate k (ps_db st)\<rparr>)"
  using invalidate_ok [OF pub_invD(1) [OF assms], of k] by (intro inv_tables [OF assms]) (auto simp: invalidate_def)

lemma inv_finish:
  assumes inv: "pub_inv st" and d: "set completed \<subseteq> set (ps_claimed st)"
  shows "pub_inv (st\<lparr>ps_db := finish_deletions completed (ps_db st)\<rparr>)"
proof -
  note F = finish_ok [OF pub_invD(1) [OF inv] d]
  show ?thesis
  proof (rule inv_tables [OF inv])
    fix k assume "objs (ps_db st) k = None"
    then show "objs (finish_deletions completed (ps_db st)) k = None"
      using F by (cases "objs (finish_deletions completed (ps_db st)) k") auto
  qed (use F in auto)
qed

lemma inv_queue:
  assumes "pub_inv st" "starts_with ''node-backups/'' k"
  shows "pub_inv (queue_deletion digest l k pre st)"
  unfolding queue_deletion_def
  using queue_remote_ok [OF pub_invD(1) [OF assms(1)] assms(2)] by (intro inv_tables [OF assms(1)]) auto

lemma inv_claim:
  assumes inv: "pub_inv st" and c: "claim_due now (ps_db st) = (ds, db)"
  shows "pub_inv (st\<lparr>ps_db := db, ps_claimed := ds @ ps_claimed st\<rparr>)"
proof (cases "collection_due now (ps_db st)")
  case False
  then have "ds = []" "db = ps_db st" using c by (simp_all add: claim_due_def)
  then show ?thesis using inv by (simp add: pub_inv_def)
next
  case True
  then have "claim now (now - GRACE_MS) (ps_db st) = (ds, db)" using c by (simp add: claim_due_def)
  note C = claim_step_ok [OF pub_invD(1) [OF inv] this]
  have C': "frame {} (ps_db st) db" "store_ok db (ps_remote st) (ds @ ps_claimed st)" "pubs db = pubs (ps_db st)"
    and none: "\<And>k. objs (ps_db st) k = None \<Longrightarrow> objs db k = None"
    and claimed: "\<And>d. d \<in> set ds \<Longrightarrow> de_shared d \<Longrightarrow> objs (ps_db st) (de_id d) \<noteq> None" using C by blast+
  have "ids_ok db (ps_points st) (ps_claimed st) (ps_used st)"
    by (rule ids_fewer [OF pub_invD(2) [OF inv] none]) (use C'(3) in auto)
  moreover have "de_id d \<in> set (ps_used st)" if d: "d \<in> set ds" "de_shared d" for d
    using claimed [OF d] pub_invD(2) [OF inv] by (auto simp: ids_ok_def)
  ultimately have "ids_ok db (ps_points st) (ds @ ps_claimed st) (ps_used st)" by (auto simp: ids_ok_def)
  then show ?thesis by (intro inv_db [OF inv C'(1) remote_keeps_refl C'(2)]) auto
qed

text \<open>Deleting what a claim names removes no object that is referenced or verified.\<close>

lemma delete_keeps:
  assumes s: "store_ok db remote claimed" and d: "d \<in> set claimed"
    and k: "objs db k = Some ob" "so_state ob \<noteq> Obj_Deleting" "available remote k ob"
  shows "available (delete_remote d remote) k ob"
proof -
  note inv = store_okD [OF s] and c = store_okD(5) [OF s d]
  have v: "digest_valid (so_hash ob)" using rows_okD(1) [OF inv(3) k(1)] .
  have "object_key (so_hash ob) k \<noteq> de_key d \<and> \<not> (de_prefix d \<and> starts_with (de_key d) (object_key (so_hash ob) k))"
  proof (cases "de_shared d")
    case True
    then obtain h where h: "digest_valid h" "de_key d = object_key h (de_id d)" "\<not> de_prefix d"
      "\<And>ob. objs db (de_id d) = Some ob \<Longrightarrow> so_state ob = Obj_Deleting" using c by (auto simp: claim_ok_def)
    then show ?thesis using object_key_inj [OF _ v h(1), of k "de_id d"] k by auto
  next
    case False
    then have "starts_with ''node-backups/'' (de_key d)" using c by (simp add: claim_ok_def)
    then show ?thesis using prefix_outside object_key_outside by metis
  qed
  then show ?thesis using k(3) by (auto simp: available_def delete_remote_def)
qed

lemma inv_delete:
  assumes inv: "pub_inv st" and d: "d \<in> set (ps_claimed st)"
  shows "pub_inv (st\<lparr>ps_remote := delete_remote d (ps_remote st)\<rparr>)"
proof (rule inv_db [OF inv frame_refl])
  note s = pub_invD(1) [OF inv] and db = pub_invD(7) [OF inv]
  have "so_state ob \<noteq> Obj_Deleting" if "(p, k) \<in> refs (ps_db st)" "objs (ps_db st) k = Some ob" for p k ob
    using db_invD(4,5) [OF db that(2)] that(1) by auto
  then show "remote_keeps (ps_db st) (ps_remote st) (delete_remote d (ps_remote st))"
    using delete_keeps [OF s d] unfolding remote_keeps_def by blast
  have "rows_ok (ps_db st) (delete_remote d (ps_remote st))"
    using store_okD(3) [OF s] delete_keeps [OF s d] unfolding rows_ok_def by force
  then show "store_ok (ps_db st) (delete_remote d (ps_remote st)) (ps_claimed st)" using s by (simp add: store_ok_def)
qed (use pub_invD(2) [OF inv] in auto)

section \<open>Retiring and releasing\<close>

lemma inv_abandoned:
  assumes "pub_inv st" "queue_abandoned hashes receipt digest run keep needed es st = (r, st')"
  shows "pub_inv st'"
  using assms
proof (induction hashes receipt digest run keep needed es st arbitrary: r rule: queue_abandoned.induct)
  case (2 hashes receipt digest run keep needed k point0 es st)
  have intents: "pub_inv (s\<lparr>ps_intents := x\<rparr>) = pub_inv s" for s x by (simp add: pub_inv_def)
  have many: "pub_inv (foldl (\<lambda>st key. queue_deletion digest l key False st) s keys)"
    if "pub_inv s" "\<And>k. k \<in> set keys \<Longrightarrow> starts_with ''node-backups/'' k" for l keys s
    using that by (induction keys arbitrary: s) (auto intro: inv_queue)
  have keys: "starts_with ''node-backups/'' x"
    if "abandoned_keys hashes receipt run point needed = Inr keys" "x \<in> set keys" for point keys x
    using that by (auto simp: abandoned_keys_def starts_manifest_key starts_block_key split: if_splits option.splits)
  show ?case
  proof (cases "fst k \<noteq> run \<or> snd k \<in> set keep")
    case True
    then show ?thesis using 2 by simp
  next
    case False
    define out where "out = rbind (read_intent run (snd k) point0) (\<lambda>point.
      if bp_s3 point then rbind (abandoned_keys hashes receipt run point needed) (\<lambda>keys. Inr (bp_location point, keys))
      else Inr ([], []))"
    show ?thesis
    proof (cases out)
      case (Inl e)
      then show ?thesis using "2.prems" False by (simp add: out_def)
    next
      case (Inr lk)
      obtain l ks where lk: "lk = (l, ks)" by (cases lk)
      have "starts_with ''node-backups/'' x" if "x \<in> set ks" for x
        using Inr lk that by (auto simp: out_def rbind_Inr_iff intro: keys split: if_splits)
      then have "pub_inv (foldl (\<lambda>st key. queue_deletion digest l key False st) st ks)"
        using many [OF "2.prems"(1)] by blast
      then show ?thesis
        using "2.IH"(2) [OF False Inr [unfolded out_def] lk [symmetric] refl] "2.prems"(2) False Inr lk
        by (simp add: out_def [symmetric] intents Let_def)
    qed
  qed
qed simp

lemma collecting_other:
  assumes k: "collecting_ok points runs grants q keep todo"
    and shrink: "\<And>i p. tb_get points' i = Some p \<Longrightarrow> tb_get points i = Some p"
    and kept: "\<And>i p. tb_get points i = Some p \<Longrightarrow> bp_run p = q \<Longrightarrow> tb_get points' i = Some p"
    and pins: "set (pinned q grants') \<subseteq> set (pinned q grants)" and runs: "tb_get runs' q = tb_get runs q"
  shows "collecting_ok points' runs' grants' q keep todo"
  unfolding collecting_ok_def
proof (intro conjI ballI)
  show "set (pinned q grants') \<subseteq> set keep" using k pins unfolding collecting_ok_def by blast
  show "\<forall>r h. tb_get runs' q = Some r \<longrightarrow> pj_head r = Some h \<longrightarrow> h \<in> set keep"
    using k unfolding collecting_ok_def runs by blast
  show "\<forall>i p. tb_get points' i = Some p \<longrightarrow> bp_run p = q \<longrightarrow> i \<in> set keep \<or> p \<in> set todo"
    using k shrink unfolding collecting_ok_def by blast
  fix p assume p: "p \<in> set todo"
  then show "bp_run p = q" "bp_id p \<notin> set keep" using k unfolding collecting_ok_def by blast+
  then show "tb_get points' (bp_id p) = Some p" using k p kept unfolding collecting_ok_def by blast
qed (use k in \<open>simp add: collecting_ok_def\<close>)

lemma inv_retire:
  assumes inv: "pub_inv st" and a: "tb_get (ps_active st) run = Some (Collecting keep (p # todo))"
  shows "pub_inv (set_activity run (Collecting keep todo) (retire_point digest now run p st))"
proof -
  have K: "collecting_ok (ps_points st) (ps_runs st) (ps_grants st) run keep (p # todo)" using pub_inv_active [OF inv a] by simp
  then have p: "bp_run p = run" "bp_id p \<notin> set keep" "tb_get (ps_points st) (bp_id p) = Some p"
    and pins: "set (pinned run (ps_grants st)) \<subseteq> set keep" by (auto simp: collecting_ok_def)
  define db1 where "db1 = (if bp_s3 p \<and> (run, bp_id p) \<notin> fst ` set (ps_intents st)
    then queue_remote digest (bp_location p) (manifest_key run (bp_id p)) False (ps_db st) else ps_db st)"
  define db where "db = shared_release now (bp_id p) db1"
  define points where "points = tb_remove (bp_id p) (ps_points st)"
  have st': "retire_point digest now run p st = st\<lparr>ps_db := db, ps_points := points\<rparr>"
    by (simp add: retire_point_def Let_def db_def db1_def points_def queue_deletion_def)
  have 1: "store_ok db1 (ps_remote st) (ps_claimed st)" "frame {} (ps_db st) db1" "objs db1 = objs (ps_db st)" "pubs db1 = pubs (ps_db st)"
    using queue_remote_ok [OF pub_invD(1) [OF inv] starts_manifest_key] pub_invD(1) [OF inv] by (auto simp: db1_def frame_refl)
  note R = release_ok [OF 1(1), of now "bp_id p", folded db_def]
  have f: "frame {bp_id p} (ps_db st) db" using R frame_trans [OF 1(2), of "{bp_id p}" db] by simp
  note t = pub_invD(8) [OF inv]
  have get: "tb_get points i = Some q \<longleftrightarrow> i \<noteq> bp_id p \<and> tb_get (ps_points st) i = Some q" for i q
    using t by (auto simp: points_def tb.get_del)
  have keepst: "stored points r i" if "stored (ps_points st) r i" "r = run \<Longrightarrow> i \<in> set keep" for r i
    using that p by (auto simp: stored_def get)
  have grants: "grants_ok points (ps_grants st)"
    unfolding grants_ok_def
  proof (intro conjI allI impI ballI)
    fix i g b assume g: "tb_get (ps_grants st) i = Some g" and b: "b \<in> set (dg_backups g)"
    then have "stored (ps_points st) (dg_run g) b" using pub_invD(4) [OF inv] by (auto simp: grants_ok_def)
    moreover have "b \<in> set keep" if "dg_run g = run" using pins g b that set_pinned [OF pub_invD(10) [OF inv]] by blast
    ultimately show "stored points (dg_run g) b" by (rule keepst)
  qed (use pub_invD(4) [OF inv] in \<open>auto simp: grants_ok_def\<close>)
  have head: "h \<in> set keep" if "tb_get (ps_runs st) run = Some r" "pj_head r = Some h" for r h
    using K that by (auto simp: collecting_ok_def)
  have runs: "runs_ok points (ps_runs st)"
    using pub_invD(5) [OF inv] head by (auto simp: runs_ok_def intro!: keepst)
  have pts: "points_ok db points"
    by (rule points_ok_frame [OF pub_invD(3,7) [OF inv] f]) (use get t in \<open>auto simp: points_def tb.invar_del\<close>)
  have own: "collecting_ok points (ps_runs st) (ps_grants st) run keep todo"
    unfolding collecting_ok_def
  proof (intro conjI)
    show "\<forall>i q. tb_get points i = Some q \<longrightarrow> bp_run q = run \<longrightarrow> i \<in> set keep \<or> q \<in> set todo"
    proof (intro allI impI)
      fix i q assume q: "tb_get points i = Some q" "bp_run q = run"
      then have i: "i \<noteq> bp_id p" "tb_get (ps_points st) i = Some q" using get by auto
      have "bp_id q = i" using pub_invD(3) [OF inv] i(2) by (auto simp: points_ok_def)
      then show "i \<in> set keep \<or> q \<in> set todo" using K i q(2) by (auto simp: collecting_ok_def)
    qed
    show "\<forall>q\<in>set todo. bp_run q = run \<and> bp_id q \<notin> set keep \<and> tb_get points (bp_id q) = Some q"
    proof
      fix q assume q: "q \<in> set todo"
      have d: "bp_id p \<notin> bp_id ` set todo" using K by (simp add: collecting_ok_def)
      have "bp_run q = run \<and> bp_id q \<notin> set keep \<and> tb_get (ps_points st) (bp_id q) = Some q"
        using K q unfolding collecting_ok_def by (meson list.set_intros(2))
      moreover have "bp_id q \<noteq> bp_id p" using d q by (metis imageI)
      ultimately show "bp_run q = run \<and> bp_id q \<notin> set keep \<and> tb_get points (bp_id q) = Some q" by (simp add: get)
    qed
    show "set (pinned run (ps_grants st)) \<subseteq> set keep" by (rule pins)
    show "\<forall>r h. tb_get (ps_runs st) run = Some r \<longrightarrow> pj_head r = Some h \<longrightarrow> h \<in> set keep" using head by blast
    show "distinct (map bp_id todo)" using K by (simp add: collecting_ok_def)
  qed
  have old: "activity_ok db (ps_remote st) points (ps_runs st) (ps_grants st) q b" if q: "q \<noteq> run" "tb_get (ps_active st) q = Some b" for q b
  proof (rule activity_frame [OF pub_inv_active [OF inv q(2)] pub_invD(7) [OF inv] f remote_keeps_refl])
    fix pg assume "b = Publishing pg"
    then have "tb_get (ps_points st) (bp_id (pg_point pg)) = None" using pub_inv_active [OF inv q(2)] by (simp add: publishing_ok_def Let_def)
    then show "bp_id (pg_point pg) \<notin> {bp_id p} \<and> tb_get points (bp_id (pg_point pg)) = None"
      using p(3) get [of "bp_id (pg_point pg)"] by (cases "tb_get points (bp_id (pg_point pg))") auto
  next
    fix keep1 todo1 assume "collecting_ok (ps_points st) (ps_runs st) (ps_grants st) q keep1 todo1"
    then show "collecting_ok points (ps_runs st) (ps_grants st) q keep1 todo1"
      by (rule collecting_other) (use get p(1,3) q(1) in auto)
  qed
  have "active_ok db (ps_remote st) points (ps_runs st) (ps_grants st) (tb_put run (Collecting keep todo) (ps_active st))"
    by (rule active_put [OF pub_invD(9) [OF inv]]) (use own old in auto)
  moreover have "ids_ok db points (ps_claimed st) (ps_used st)"
    by (rule ids_shrink [OF pub_invD(2) [OF inv]]) (use R 1 get release_fields(3) [of now "bp_id p" db1] in \<open>auto simp: db_def\<close>)
  ultimately show ?thesis using R pts grants runs by (simp add: pub_inv_def set_activity_def st')
qed

text \<open>A publication registered for the run is not one of another run.\<close>

lemma registered_run:
  assumes "store_ok db remote claimed" "(i, r) \<in> set (sd_publications db)" "(i, q) \<in> set (sd_publications db)"
  shows "r = q"
  using assms by (auto simp: store_ok_def dest: eq_key_imp_eq_value)

lemma inv_release:
  assumes inv: "pub_inv st" and a: "tb_get (ps_active st) run = Some (Collecting keep [])"
  shows "pub_inv (end_activity run (st\<lparr>ps_db := release_run now run keep (ps_db st)\<rparr>))"
proof -
  have K: "collecting_ok (ps_points st) (ps_runs st) (ps_grants st) run keep []" using pub_inv_active [OF inv a] by simp
  define db where "db = release_run now run keep (ps_db st)"
  define Q where "Q = {p. (p, run) \<in> set (sd_publications (ps_db st))} - set keep"
  note s = pub_invD(1) [OF inv]
  note R = release_run_ok [OF s, of now run keep, folded db_def Q_def]
  have f: "frame Q (ps_db st) db" using R by blast
  have pts: "points_ok db (ps_points st)"
  proof (rule points_ok_frame [OF pub_invD(3,7) [OF inv] f pub_invD(8) [OF inv]])
    fix i p assume i: "tb_get (ps_points st) i = Some p"
    have "i \<notin> Q" if "bp_shared p"
    proof
      assume "i \<in> Q"
      then have q: "(i, run) \<in> set (sd_publications (ps_db st))" "i \<notin> set keep" by (simp_all add: Q_def)
      have "(i, bp_run p) \<in> set (sd_publications (ps_db st))"
        using pub_invD(3) [OF inv] i that by (auto simp: points_ok_def point_ok_def)
      then have "bp_run p = run" using registered_run [OF s _ q(1)] by blast
      then show False using K i q(2) by (auto simp: collecting_ok_def)
    qed
    then show "tb_get (ps_points st) i = Some p \<and> (bp_shared p \<longrightarrow> i \<notin> Q)" using i by simp
  qed
  have old: "activity_ok db (ps_remote st) (ps_points st) (ps_runs st) (ps_grants st) q b"
    if q: "q \<noteq> run" "tb_get (ps_active st) q = Some b" for q b
  proof (rule activity_frame [OF pub_inv_active [OF inv q(2)] pub_invD(7) [OF inv] f remote_keeps_refl])
    fix pg assume "b = Publishing pg"
    then have "(bp_id (pg_point pg), q) \<in> set (sd_publications (ps_db st))" "tb_get (ps_points st) (bp_id (pg_point pg)) = None"
      using pub_inv_active [OF inv q(2)] by (simp_all add: publishing_ok_def Let_def)
    then show "bp_id (pg_point pg) \<notin> Q \<and> tb_get (ps_points st) (bp_id (pg_point pg)) = None"
      using registered_run [OF s] q(1) by (auto simp: Q_def)
  qed
  have "active_ok db (ps_remote st) (ps_points st) (ps_runs st) (ps_grants st) (tb_remove run (ps_active st))"
    by (rule active_remove [OF pub_invD(9) [OF inv] old])
  moreover have "ids_ok db (ps_points st) (ps_claimed st) (ps_used st)"
    by (rule ids_fewer [OF pub_invD(2) [OF inv]]) (use R in blast)+
  moreover have "store_ok db (ps_remote st) (ps_claimed st)" using R by blast
  ultimately show ?thesis using pts pub_invD(4,5) [OF inv] by (simp add: pub_inv_def end_activity_def db_def)
qed

section \<open>Deleting a conversation\<close>

lemma get_filter: "tb_ok t \<Longrightarrow> tb_get (filter (\<lambda>(k, v). P k v) t) k = (case tb_get t k of None \<Rightarrow> None | Some v \<Rightarrow> if P k v then Some v else None)"
  unfolding tb_get_def tb_ok_def by (induction t) (auto split: option.splits if_splits simp: map_of_eq_None_iff [symmetric])

lemma inv_forget:
  assumes inv: "pub_inv st" and free: "unlocked st run"
  shows "pub_inv ((purge_run digest now run st)\<lparr>ps_runs := tb_remove run (ps_runs st)\<rparr>)"
proof -
  define st1 where "st1 = foldl (\<lambda>st l. queue_deletion digest l (run_prefix run) True st) st (purge_locations run st)"
  have many: "pub_inv (foldl (\<lambda>st l. queue_deletion digest l (run_prefix run) True st) s ls)
      \<and> ps_points (foldl (\<lambda>st l. queue_deletion digest l (run_prefix run) True st) s ls) = ps_points s
      \<and> ps_grants (foldl (\<lambda>st l. queue_deletion digest l (run_prefix run) True st) s ls) = ps_grants s
      \<and> ps_runs (foldl (\<lambda>st l. queue_deletion digest l (run_prefix run) True st) s ls) = ps_runs s
      \<and> ps_active (foldl (\<lambda>st l. queue_deletion digest l (run_prefix run) True st) s ls) = ps_active s"
    if "pub_inv s" for s ls
    using that
  proof (induction ls arbitrary: s)
    case (Cons l ls)
    have "starts_with ''node-backups/'' (run_prefix run)" by (simp add: run_prefix_def starts_with_iff)
    then show ?case using Cons.IH [OF inv_queue [OF Cons.prems]] by (simp add: queue_deletion_def)
  qed simp
  have inv1: "pub_inv st1" and f1: "ps_points st1 = ps_points st" "ps_grants st1 = ps_grants st" "ps_runs st1 = ps_runs st"
    "ps_active st1 = ps_active st" using many [OF inv, of "purge_locations run st"] by (simp_all add: st1_def)
  define points where "points = filter (\<lambda>(k, _). k \<notin> set (map bp_id (node_backups_for_run st run))) (ps_points st)"
  define grants where "grants = filter (\<lambda>(_, g). dg_run g \<noteq> run) (ps_grants st)"
  define db where "db = release_run now run [] (ps_db st1)"
  have st': "(purge_run digest now run st)\<lparr>ps_runs := tb_remove run (ps_runs st)\<rparr>
      = st1\<lparr>ps_intents := filter (\<lambda>(k, _). fst k \<noteq> run) (ps_intents st1), ps_db := db, ps_points := points, ps_grants := grants,
            ps_runs := tb_remove run (ps_runs st)\<rparr>"
    by (simp add: purge_run_def Let_def st1_def [symmetric] db_def points_def grants_def f1)
  define Q where "Q = {p. (p, run) \<in> set (sd_publications (ps_db st1))}"
  note s = pub_invD(1) [OF inv1] and t = pub_invD(8) [OF inv]
  have R: "store_ok db (ps_remote st1) (ps_claimed st1)" "frame Q (ps_db st1) db" "\<And>k. objs (ps_db st1) k = None \<Longrightarrow> objs db k = None"
    "pubs db \<subseteq> pubs (ps_db st1)" using release_run_ok [OF s, of now run "[]"] by (auto simp: db_def Q_def)
  have key: "bp_id p = i" if "tb_get (ps_points st) i = Some p" for i p using pub_invD(3) [OF inv] that by (auto simp: points_ok_def)
  have mine: "i \<in> set (map bp_id (node_backups_for_run st run)) \<longleftrightarrow> bp_run p = run" if "tb_get (ps_points st) i = Some p" for i p
    using that key [OF that] key by (auto simp: node_backups_for_run_def points_of_run [OF t])
  have get: "tb_get points i = Some p \<longleftrightarrow> tb_get (ps_points st) i = Some p \<and> bp_run p \<noteq> run" for i p
    using mine [of i p] by (auto simp: points_def get_filter [OF t] split: option.splits if_splits dest: mine)
  have gget: "tb_get grants i = Some g \<longleftrightarrow> tb_get (ps_grants st) i = Some g \<and> dg_run g \<noteq> run" for i g
    by (auto simp: grants_def get_filter [OF pub_invD(10) [OF inv]] split: option.splits if_splits)
  have rget: "tb_get (tb_remove run (ps_runs st)) r = (if r = run then None else tb_get (ps_runs st) r)" for r
    using pub_invD(11) [OF inv] by (simp add: tb.get_del)
  have keepst: "stored points r i" if "stored (ps_points st) r i" "r \<noteq> run" for r i using that by (auto simp: stored_def get)
  have tg: "tb_ok points" "tb_ok grants" using t pub_invD(10) [OF inv] by (simp_all add: points_def grants_def tb_ok_def distinct_filter_fst)
  have pts: "points_ok db points"
  proof (rule points_ok_frame [OF pub_invD(3,7) [OF inv1] R(2) tg(1)])
    fix i p assume i: "tb_get points i = Some p"
    then have g: "tb_get (ps_points st) i = Some p" "bp_run p \<noteq> run" by (simp_all add: get)
    have "(i, bp_run p) \<in> set (sd_publications (ps_db st1))" if "bp_shared p"
      using pub_invD(3) [OF inv1] g that by (auto simp: points_ok_def point_ok_def f1)
    then show "tb_get (ps_points st1) i = Some p \<and> (bp_shared p \<longrightarrow> i \<notin> Q)"
      using g registered_run [OF s] by (auto simp: f1 Q_def)
  qed
  have gr: "grants_ok points grants"
    using pub_invD(4) [OF inv] tg(2) by (auto simp: grants_ok_def gget intro: keepst)
  have rn: "runs_ok points (tb_remove run (ps_runs st))"
    using pub_invD(5) [OF inv] by (auto simp: runs_ok_def rget tb.invar_del intro: keepst split: if_splits)
  have act: "activity_ok db (ps_remote st1) points (tb_remove run (ps_runs st)) grants q b" if q: "tb_get (ps_active st) q = Some b" for q b
  proof -
    have ne: "q \<noteq> run" using free q by (auto simp: unlocked_def)
    have q1: "tb_get (ps_active st1) q = Some b" using q f1 by simp
    show ?thesis
    proof (rule activity_frame [OF pub_inv_active [OF inv1 q1] pub_invD(7) [OF inv1] R(2) remote_keeps_refl])
      fix pg assume "b = Publishing pg"
      then have "(bp_id (pg_point pg), q) \<in> set (sd_publications (ps_db st1))" "tb_get (ps_points st) (bp_id (pg_point pg)) = None"
        using pub_inv_active [OF inv1 q1] by (simp_all add: publishing_ok_def Let_def f1)
      then show "bp_id (pg_point pg) \<notin> Q \<and> tb_get points (bp_id (pg_point pg)) = None"
        using registered_run [OF s] ne get [of "bp_id (pg_point pg)"] by (cases "tb_get points (bp_id (pg_point pg))") (auto simp: Q_def)
    next
      fix keep todo assume "collecting_ok (ps_points st1) (ps_runs st1) (ps_grants st1) q keep todo"
      then show "collecting_ok points (tb_remove run (ps_runs st)) grants q keep todo"
      proof (rule collecting_other)
        show "set (pinned q grants) \<subseteq> set (pinned q (ps_grants st1))"
          using set_pinned [OF tg(2)] set_pinned [OF pub_invD(10) [OF inv1]] unfolding f1 gget by blast
      qed (use get ne in \<open>auto simp: f1 rget\<close>)
    qed
  qed
  have "active_ok db (ps_remote st1) points (tb_remove run (ps_runs st)) grants (ps_active st)"
    using act pub_invD(9) [OF inv] by (simp add: active_ok_def)
  moreover have "ids_ok db points (ps_claimed st1) (ps_used st1)"
    by (rule ids_shrink [OF pub_invD(2) [OF inv1] R(3,4)]) (use get f1 in auto)
  ultimately show ?thesis using R(1) pts gr rn by (simp add: pub_inv_def st' f1)
qed

section \<open>Every step\<close>

lemma inv_new_run:
  assumes inv: "pub_inv st" and r: "tb_get (ps_runs st) run = None"
  shows "pub_inv (st\<lparr>ps_runs := tb_put run \<lparr>pj_head = None, pj_move = None\<rparr> (ps_runs st)\<rparr>)"
proof -
  note t = pub_invD(11) [OF inv]
  have "runs_ok (ps_points st) (tb_put run \<lparr>pj_head = None, pj_move = None\<rparr> (ps_runs st))"
    using pub_invD(5) [OF inv] t by (auto simp: runs_ok_def tb.get_ins tb.invar_ins split: if_splits)
  moreover have "activity_ok (ps_db st) (ps_remote st) (ps_points st) (tb_put run \<lparr>pj_head = None, pj_move = None\<rparr> (ps_runs st)) (ps_grants st) q b"
    if q: "tb_get (ps_active st) q = Some b" for q b
  proof (cases b)
    case (Publishing pg)
    then show ?thesis using pub_inv_active [OF inv q] by simp
  next
    case (Collecting keep todo)
    then have k: "collecting_ok (ps_points st) (ps_runs st) (ps_grants st) q keep todo" using pub_inv_active [OF inv q] by simp
    have "h \<in> set keep" if "tb_get (tb_put run \<lparr>pj_head = None, pj_move = None\<rparr> (ps_runs st)) q = Some r" "pj_head r = Some h" for r h
      using that k t unfolding collecting_ok_def by (auto simp: tb.get_ins split: if_splits)
    then show ?thesis using k unfolding Collecting collecting_ok_def activity_ok.simps by blast
  qed
  ultimately show ?thesis using inv by (simp add: pub_inv_def active_ok_def)
qed

lemma pub_inv_step:
  assumes "pub_step digest st st'" "pub_inv st"
  shows "pub_inv st'"
  using assms
proof cases
  case (Extend p i t)
  then show ?thesis using inv_update_grant [OF assms(2), where p = p and i = i and acknowledged = False and t = t] by (simp add: grant_extend_def)
next
  case (Acknowledge i g p t)
  then show ?thesis using inv_update_grant [OF assms(2), where p = p and i = i and acknowledged = True and t = t] by (simp add: grant_acknowledged_def)
qed (auto intro: inv_new_run inv_begin inv_upload inv_settle inv_commit inv_abort inv_decide inv_retire inv_abandoned
    inv_release inv_forget inv_new_disk inv_issue inv_invalidate inv_claim inv_delete inv_finish)

end
