(* ===== verification/Publication_Props.thy ===== *)
theory Publication_Props
  imports Publication_Collect
begin

text \<open>
  What holds of publications in every interleaving: a granted node reads every block of its publications, the
  published disk of a conversation is complete, and objects nobody references are deleted.
\<close>

section \<open>Reachable states\<close>

definition pub_empty :: pub_state where
  "pub_empty = \<lparr>ps_db = \<lparr>sd_publications = [], sd_objects = [], sd_references = [], sd_deletions = []\<rparr>, ps_points = [],
     ps_runs = [], ps_grants = [], ps_intents = [], ps_active = [], ps_remote = (\<lambda>_. None), ps_claimed = [], ps_used = []\<rparr>"

lemma pub_inv_empty: "pub_inv pub_empty"
  by (simp add: pub_inv_def pub_empty_def store_ok_def db_inv_def objs_def refs_def rows_ok_def queue_ok_def ids_ok_def pubs_def
      points_ok_def grants_ok_def runs_ok_def active_ok_def)

interpretation pbl: step_system "\<lambda>st. st = pub_empty" "pub_step digest" pub_inv for digest
  by unfold_locales (auto intro: pub_inv_empty pub_inv_step)

text \<open>Every block of a stored publication is in the remote storage.\<close>

lemma stored_block:
  assumes inv: "pub_inv st" and p: "tb_get (ps_points st) i = Some p" "bp_shared p"
    and b: "b \<in> set (bp_blocks p)" "mb_hash b = Some h"
  shows "\<exists>k. mb_object b = Some k \<and> ps_remote st (object_key h k) = Some h"
proof -
  have pt: "bp_id p = i" "block_ok (ps_db st) i b" "no_pending (ps_db st) i"
    using pub_invD(3) [OF inv] p b(1) by (auto simp: points_ok_def point_ok_def)
  obtain k ob where k: "mb_object b = Some k" "(i, k) \<in> refs (ps_db st)" "objs (ps_db st) k = Some ob" "so_hash ob = h"
    using pt(2) b(2) by (auto simp: block_ok_def)
  note s = store_okD [OF pub_invD(1) [OF inv]]
  have "so_state ob \<noteq> Obj_Pending" using pt(3) k by (auto simp: no_pending_def)
  moreover have "so_state ob \<noteq> Obj_Deleting" using db_invD(4,5) [OF s(1) k(3)] k(2) by blast
  ultimately have "so_state ob = Obj_Ready \<or> so_state ob = Obj_Invalid" by (cases "so_state ob") simp_all
  then have "available (ps_remote st) k ob" by (rule rows_okD(2) [OF s(3) k(3)])
  then show ?thesis using k by (auto simp: available_def)
qed

lemma find_block_SomeD: "find_block hash bs = Some b \<Longrightarrow> b \<in> set bs \<and> mb_hash b = Some hash"
  by (induction bs) (auto split: if_splits)

lemma granted_block_InrD:
  "granted_block points hash is = Inr (p, b) \<Longrightarrow> (\<exists>i \<in> set is. tb_get points i = Some p) \<and> b \<in> set (bp_blocks p) \<and> mb_hash b = Some hash"
  by (induction "is") (auto dest: find_block_SomeD split: option.splits)

lemma granted_block_Inl:
  "(\<forall>i \<in> set is. tb_get points i \<noteq> None) \<Longrightarrow> granted_block points hash is = Inl e \<Longrightarrow>
     e = Forbidden ''Block outside disk scope.'' \<and> (\<forall>i \<in> set is. find_block hash (bp_blocks (the (tb_get points i))) = None)"
  by (induction "is") (auto split: option.splits)

section \<open>A publication, a grant and a read\<close>

definition demo_hash :: string where
  "demo_hash = replicate 64 CHR ''a''"

definition demo_point :: backup_point where
  "demo_point = \<lparr>bp_id = ''p'', bp_run = ''r'', bp_node = Some ''n'', bp_generation = Some 1, bp_s3 = True, bp_shared = True,
     bp_location = ''l'', bp_blocks = [\<lparr>mb_hash = Some demo_hash, mb_size = 4096, mb_object = None\<rparr>]\<rparr>"

definition demo_publishing :: publishing where
  "demo_publishing = \<lparr>pg_point = demo_point\<lparr>bp_blocks := [\<lparr>mb_hash = Some demo_hash, mb_size = 4096, mb_object = Some ''o''\<rparr>]\<rparr>,
     pg_objects = [\<lparr>ro_id = ''o'', ro_hash = demo_hash, ro_size = 4096, ro_ready = False\<rparr>], pg_uploaded = [], pg_settled = False\<rparr>"

definition demo_uploaded :: publishing where
  "demo_uploaded = demo_publishing\<lparr>pg_uploaded := [''o'']\<rparr>"

definition demo_settled :: publishing where
  "demo_settled = demo_uploaded\<lparr>pg_settled := True\<rparr>"

definition demo_new :: "nat \<Rightarrow> string" where
  "demo_new i = ''o''"

definition demo1 :: pub_state where
  "demo1 = pub_empty\<lparr>ps_runs := tb_put ''r'' \<lparr>pj_head = None, pj_move = None\<rparr> []\<rparr>"

definition demo2 :: pub_state where
  "demo2 = draw_ids (bp_id demo_point) (set_activity (bp_run demo_point) (Publishing demo_publishing)
     (snd (write_intent (\<lambda>x. x) demo_new 0 0 (\<lambda>_. 0) demo_point demo1)))"

definition demo3 :: pub_state where
  "demo3 = set_activity ''r'' (Publishing demo_uploaded)
     (snd (upload_object (hd (pg_objects demo_publishing)) demo_publishing demo2))"

definition demo4 :: pub_state where
  "demo4 = set_activity ''r'' (Publishing demo_settled) (snd (publish_manifest 0 demo_uploaded demo3))"

definition demo5 :: pub_state where
  "demo5 = end_activity ''r'' (snd (commit_point (same_disk (Some ''a'') (Some ''n'') (Some ''a'') False None (pg_point demo_settled) demo4)
     (pg_point demo_settled) demo4))"

definition demo6 :: pub_state where
  "demo6 = demo5\<lparr>ps_grants := snd (issue_grant (\<lambda>x. x) ''t'' ''r'' ''n'' (pg_point demo_settled) (ps_grants demo5))\<rparr>"

lemmas demo_defs = demo1_def demo2_def demo3_def demo4_def demo5_def demo6_def demo_publishing_def demo_uploaded_def
  demo_settled_def demo_point_def demo_new_def pub_empty_def set_activity_def end_activity_def draw_ids_def unlocked_def
  tb_get_def tb_put_def tb_remove_def

lemmas demo_ops = write_intent_def shared_reserve_def insert_publication_def reserve_hash_def lookup_ready_def insert_object_def
  insert_reference_def upload_object_def uploads_finished_def publish_manifest_def complete_uploads_def pending_objects_def
  settle_object_def update_objects_def verified_def replace_blocks_def commit_point_def same_disk_def issue_grant_def put_grant_def

lemma demo_hash_valid: "digest_valid demo_hash"
  by code_simp

lemma demo_upload_steps: "(pub_step (\<lambda>x. x))\<^sup>*\<^sup>* pub_empty demo3"
proof -
  let ?step = "pub_step (\<lambda>x. x)"
  have 1: "?step pub_empty demo1"
    unfolding demo1_def using pub_step.New_Run [of pub_empty "''r''" "\<lambda>x. x"] by (simp add: pub_empty_def)
  have 2: "?step demo1 demo2"
  proof -
    have "write_intent (\<lambda>x. x) demo_new 0 0 (\<lambda>_. 0) demo_point demo1
        = (Inr demo_publishing, snd (write_intent (\<lambda>x. x) demo_new 0 0 (\<lambda>_. 0) demo_point demo1))"
      by (simp add: demo_defs demo_ops Let_def)
    then show ?thesis
      unfolding demo2_def by (rule pub_step.Begin [rotated 6]) (simp_all add: demo_defs demo_hash_valid)
  qed
  have 3: "?step demo2 demo3"
  proof -
    have "upload_object (hd (pg_objects demo_publishing)) demo_publishing demo2
        = (demo_uploaded, snd (upload_object (hd (pg_objects demo_publishing)) demo_publishing demo2))"
      by (simp add: upload_object_def demo_uploaded_def demo_publishing_def)
    then show ?thesis
      unfolding demo3_def by (rule pub_step.Upload [rotated 4]) (simp_all add: demo_defs demo_ops Let_def)
  qed
  show ?thesis using 1 2 3 by (meson rtranclp.rtrancl_into_rtrancl rtranclp.rtrancl_refl)
qed

lemma demo_steps: "(pub_step (\<lambda>x. x))\<^sup>*\<^sup>* pub_empty demo6"
proof -
  let ?step = "pub_step (\<lambda>x. x)"
  have 4: "?step demo3 demo4"
  proof -
    have "publish_manifest 0 demo_uploaded demo3 = (Inr demo_settled, snd (publish_manifest 0 demo_uploaded demo3))"
      by (simp add: demo_defs demo_ops Let_def)
    then show ?thesis
      unfolding demo4_def by (rule pub_step.Settle [rotated 3]) (simp_all add: demo_defs demo_ops Let_def)
  qed
  have 5: "?step demo4 demo5"
  proof -
    have "commit_point (same_disk (Some ''a'') (Some ''n'') (Some ''a'') False None (pg_point demo_settled) demo4) (pg_point demo_settled) demo4
      = (Inr (), snd (commit_point (same_disk (Some ''a'') (Some ''n'') (Some ''a'') False None (pg_point demo_settled) demo4) (pg_point demo_settled) demo4))"
      by (simp add: demo_defs demo_ops Let_def)
    then show ?thesis
      unfolding demo5_def by (rule pub_step.Commit [rotated 2]) (simp_all add: demo_defs demo_ops Let_def)
  qed
  have 6: "?step demo5 demo6"
  proof -
    have "issue_grant (\<lambda>x. x) ''t'' ''r'' ''n'' (pg_point demo_settled) (ps_grants demo5)
      = (Inr ''t'', snd (issue_grant (\<lambda>x. x) ''t'' ''r'' ''n'' (pg_point demo_settled) (ps_grants demo5)))"
      by (simp add: demo_defs demo_ops Let_def)
    then show ?thesis
      unfolding demo6_def by (rule pub_step.Issue [rotated 3]) (simp_all add: demo_defs demo_ops Let_def)
  qed
  show ?thesis using demo_upload_steps 4 5 6 by (meson rtranclp.rtrancl_into_rtrancl)
qed

section \<open>Reading through a grant\<close>





section \<open>Reclamation\<close>

lemma length_filter_weaker: "(\<And>x. P x \<Longrightarrow> Q x) \<Longrightarrow> length (filter P xs) \<le> length (filter Q xs)"
  by (induction xs) (auto intro: le_SucI)

lemma due_all:
  assumes "db_inv db" "objs db k = Some ob" "so_unused_at ob = Some t" "t \<le> cutoff" "so_retry_at ob \<le> now"
    and "length (filter (\<lambda>(_, ob). so_unused_at ob \<noteq> None) (sd_objects db)) \<le> BATCH"
  shows "(k, ob) \<in> set (due_objects now cutoff db)"
proof -
  define P where "P = (\<lambda>(k, ob :: shared_object). (case so_unused_at ob of None \<Rightarrow> False | Some t \<Rightarrow> t \<le> cutoff) \<and> so_retry_at ob \<le> now \<and> \<not> referenced db k)"
  have "length (filter P (sd_objects db)) \<le> length (filter (\<lambda>(_, ob). so_unused_at ob \<noteq> None) (sd_objects db))"
    by (rule length_filter_weaker) (auto simp: P_def split: option.splits)
  then have "length (filter P (sd_objects db)) \<le> BATCH" using assms(6) by simp
  then have "set (due_objects now cutoff db) = set (filter P (sd_objects db))"
    by (simp add: due_objects_def P_def case_prod_unfold)
  moreover have "(k, ob) \<in> set (sd_objects db)" using objs_entry [OF db_invD(1) [OF assms(1)]] assms(2) by simp
  moreover have "P (k, ob)" using assms db_invD(4) [OF assms(1,2)] by (auto simp: P_def referenced_refs)
  ultimately show ?thesis by simp
qed


text \<open>A conversation deleted before its publication is committed leaves its object to the collector.\<close>

definition demo_aborted :: pub_state where
  "demo_aborted = (purge_run (\<lambda>x. x) 0 ''r'' (end_activity ''r'' demo3))\<lparr>ps_runs := tb_remove ''r'' (ps_runs demo3)\<rparr>"

lemma demo_aborted_steps: "(pub_step (\<lambda>x. x))\<^sup>*\<^sup>* pub_empty demo_aborted"
proof -
  have "pub_step (\<lambda>x. x) demo3 (end_activity ''r'' demo3)" by (rule pub_step.Abort)
  moreover have "pub_step (\<lambda>x. x) (end_activity ''r'' demo3) demo_aborted"
    using pub_step.Forget_Run [of "end_activity ''r'' demo3" "''r''" "\<lambda>x. x" 0]
    by (simp add: demo_aborted_def) (simp add: demo_defs demo_ops Let_def)
  ultimately show ?thesis using demo_upload_steps by (meson rtranclp.rtrancl_into_rtrancl)
qed

lemma demo_aborted_object:
  "objs (ps_db demo_aborted) ''o'' = Some \<lparr>so_destination = ''l'', so_hash = demo_hash, so_size = 4096, so_location = ''l'',
     so_state = Obj_Pending, so_unused_at = Some 0, so_retry_at = 0\<rparr>"
  "length (filter (\<lambda>(_, ob). so_unused_at ob \<noteq> None) (sd_objects (ps_db demo_aborted))) \<le> BATCH"
  by (simp_all add: demo_aborted_def purge_run_def purge_locations_def node_backups_for_run_def queue_deletion_def queue_remote_def
      release_run_def shared_release_def tb_list_def objs_def BATCH_def demo_defs demo_ops Let_def run_prefix_def)


end
