(* ===== verification/Json_Objects.thy ===== *)
theory Json_Objects
  imports Json
begin

text \<open>
  Updates of JSON objects: setting and removing a member, merging a patch (\<open>store::merge\<close>), and the
  fact that two objects with ordered keys are equal when they have the same members.
\<close>

section \<open>Members of an object\<close>

definition obj_remove :: "string \<Rightarrow> json \<Rightarrow> json" where
  "obj_remove k v = (case v of JObj ms \<Rightarrow> JObj (filter (\<lambda>(k', _). k' \<noteq> k) ms) | _ \<Rightarrow> v)"

definition obj_put :: "string \<Rightarrow> json \<Rightarrow> json \<Rightarrow> json" where
  "obj_put k x v = (case v of JObj ms \<Rightarrow> JObj (members_insert k x ms) | _ \<Rightarrow> v)"

text \<open>\<open>store::merge\<close>: every member of the patch replaces the member of the document.\<close>

definition merge :: "json \<Rightarrow> json \<Rightarrow> json" where
  "merge v patch =
     (case (v, patch) of
        (JObj ms, JObj ps) \<Rightarrow> JObj (fold (\<lambda>(k, x). members_insert k x) ps ms)
      | _ \<Rightarrow> v)"

section \<open>Objects with ordered keys\<close>

fun ordered :: "json \<Rightarrow> bool" where
  "ordered (JObj ms) = sorted_wrt (<) (map fst ms)"
| "ordered _ = False"

lemma members_insert_keys: "fst ` set (members_insert k v ms) = insert k (fst ` set ms)"
  by (induction k v ms rule: members_insert.induct) auto

lemma sorted_members_insert:
  "sorted_wrt (<) (map fst ms) \<Longrightarrow> sorted_wrt (<) (map fst (members_insert k v ms))"
proof (induction k v ms rule: members_insert.induct)
  case (2 k v k' v' ms)
  have "\<forall>x \<in> set (members_insert k v ms). k' < fst x" if "k' < k" "\<forall>x \<in> set ms. k' < fst x"
    using that members_insert_keys [of k v ms] by (metis image_iff insertE)
  with 2 show ?case by (auto simp: not_less order_le_less)
qed simp

lemma jget_obj_put: "is_object x \<Longrightarrow> jget (obj_put k v x) k' = (if k' = k then Some v else jget x k')"
  by (cases x) (auto simp: obj_put_def jget_members_insert_other)

lemma map_of_without_key: "map_of (filter (\<lambda>(k', _). k' \<noteq> k) ms) k' = (if k' = k then None else map_of ms k')"
  by (induction ms) auto

lemma jget_obj_remove: "is_object x \<Longrightarrow> jget (obj_remove k x) k' = (if k' = k then None else jget x k')"
  by (cases x) (auto simp: obj_remove_def map_of_without_key)

lemma is_object_put [simp]: "is_object (obj_put k v x) = is_object x"
  by (cases x) (auto simp: obj_put_def)

lemma is_object_remove [simp]: "is_object (obj_remove k x) = is_object x"
  by (cases x) (auto simp: obj_remove_def)

lemma ordered_object: "ordered x \<Longrightarrow> is_object x"
  by (cases x) auto

lemma ordered_put: "ordered x \<Longrightarrow> ordered (obj_put k v x)"
  by (cases x) (auto simp: obj_put_def sorted_members_insert)

lemma sorted_wrt_map_filter: "sorted_wrt R (map f xs) \<Longrightarrow> sorted_wrt R (map f (filter P xs))"
  by (induction xs) auto

lemma ordered_remove: "ordered x \<Longrightarrow> ordered (obj_remove k x)"
  by (cases x) (auto simp: obj_remove_def sorted_wrt_map_filter)

lemma map_of_sorted_inj:
  assumes "sorted_wrt (<) (map fst (xs :: ('k :: linorder \<times> 'v) list))" "sorted_wrt (<) (map fst ys)"
    and "map_of xs = map_of ys"
  shows "xs = ys"
proof -
  have dx: "distinct (map fst xs)" and dy: "distinct (map fst ys)"
    using assms(1,2) strict_sorted_iff by blast+
  have same: "set xs = set ys" using assms(3) dx dy by (simp add: map_of_inject_set)
  then have "inj_on fst (set xs \<union> set ys)" using dx by (simp add: distinct_map)
  then show ?thesis
    using map_sorted_distinct_set_unique [OF _ _ dx _ dy same] assms(1,2) strict_sorted_imp_sorted by blast
qed

lemma ordered_eqI:
  assumes "ordered x" "ordered y" and "\<And>k. jget x k = jget y k"
  shows "x = y"
proof -
  obtain a b where "x = JObj a" "y = JObj b" using assms(1,2) by (metis ordered.elims(2))
  then show ?thesis using assms map_of_sorted_inj [of a b] by (auto simp: fun_eq_iff)
qed

lemma jat_obj_put: "is_object x \<Longrightarrow> jat (obj_put k v x) k' = (if k' = k then v else jat x k')"
  by (simp add: jat_def jget_obj_put)

lemma jat_obj_remove: "is_object x \<Longrightarrow> jat (obj_remove k x) k' = (if k' = k then JNull else jat x k')"
  by (simp add: jat_def jget_obj_remove)

lemma obj_put_same: "ordered x \<Longrightarrow> jget x k = Some v \<Longrightarrow> obj_put k v x = x"
  by (rule ordered_eqI) (auto simp: ordered_put jget_obj_put ordered_object)

lemma obj_remove_jget:
  assumes "obj_remove k a = obj_remove k b" "k' \<noteq> k"
  shows "jget a k' = jget b k'"
proof (cases "is_object a \<and> is_object b")
  case True
  then have "jget (obj_remove k a) k' = jget a k'" "jget (obj_remove k b) k' = jget b k'"
    using assms(2) by (simp_all add: jget_obj_remove)
  then show ?thesis using assms(1) by simp
next
  case False
  then have "a = b" using assms(1) by (cases a; cases b) (auto simp: obj_remove_def)
  then show ?thesis by simp
qed

lemma obj_remove_jat: "obj_remove k a = obj_remove k b \<Longrightarrow> k' \<noteq> k \<Longrightarrow> jat a k' = jat b k'"
  using obj_remove_jget [of k a b k'] by (simp add: jat_def)

section \<open>Merged documents\<close>

lemma is_object_merge [simp]: "is_object (merge v p) = is_object v"
  by (cases v; cases p) (auto simp: merge_def)

lemma map_of_fold_insert:
  "map_of (fold (\<lambda>(k, x). members_insert k x) ps ms) k =
     (case map_of (rev ps) k of None \<Rightarrow> map_of ms k | Some x \<Rightarrow> Some x)"
proof (induction ps arbitrary: ms)
  case (Cons p ps)
  obtain a x where p: "p = (a, x)" by force
  show ?case
  proof (cases "k = a")
    case True
    then show ?thesis
      using Cons.IH [of "members_insert a x ms"] by (simp add: p map_add_def split: option.splits)
  next
    case False
    then show ?thesis
      by (simp add: p Cons.IH map_add_def jget_members_insert_other split: option.splits)
  qed
qed simp

lemma map_of_rev_distinct: "distinct (map fst ps) \<Longrightarrow> map_of (rev ps) = map_of ps"
  by (rule map_of_inject_set [THEN iffD2]) (simp_all add: rev_map [symmetric])

lemma jget_merge:
  assumes "is_object v" "distinct (map fst ps)"
  shows "jget (merge v (JObj ps)) k = (case map_of ps k of None \<Rightarrow> jget v k | Some x \<Rightarrow> Some x)"
  using assms by (cases v) (auto simp: merge_def map_of_fold_insert map_of_rev_distinct split: option.splits)

lemma jat_merge:
  assumes "is_object v" "distinct (map fst ps)"
  shows "jat (merge v (JObj ps)) k = (case map_of ps k of None \<Rightarrow> jat v k | Some x \<Rightarrow> x)"
  using jget_merge [OF assms] by (simp add: jat_def split: option.splits)

lemma ordered_fold_insert:
  "sorted_wrt (<) (map fst ms) \<Longrightarrow> sorted_wrt (<) (map fst (fold (\<lambda>(k, x). members_insert k x) ps ms))"
  by (induction ps arbitrary: ms) (auto simp: sorted_members_insert)

lemma ordered_merge: "ordered v \<Longrightarrow> ordered (merge v p)"
  by (cases v; cases p) (auto simp: merge_def ordered_fold_insert)

end
