(* ===== verification/Live_Text.thy ===== *)
theory Live_Text
  imports Json_Objects Rust_Map
begin

text \<open>
  The compression of streamed agent messages (\<open>live_text.rs\<close>) and the client that expands it
  (\<open>apps/web/src/live-events.ts\<close>). The service remembers the last snapshot of every message of a
  connection and sends only what a new snapshot appends; the client keeps the row of every
  message and appends to its text. The last part relates a client fed with deltas to one fed with
  complete snapshots: they hold the same rows, up to the caption \<open>text\<close> that stands beside the
  payload of an agent message.
\<close>

section \<open>Stored events\<close>

record event =
  ev_id :: int
  ev_run :: string
  ev_created :: int
  ev_kind :: string
  ev_text :: string
  ev_payload :: "json option"

definition event_value :: "event \<Rightarrow> json" where
  "event_value e = JObj
     ([(''createdAt'', JNum (ev_created e)), (''id'', JNum (ev_id e))] @
      (case ev_payload e of None \<Rightarrow> [] | Some p \<Rightarrow> [(''payload'', p)]) @
      [(''runId'', JStr (ev_run e)), (''text'', JStr (ev_text e)), (''type'', JStr (ev_kind e))])"

definition item_of :: "json \<Rightarrow> json" where
  "item_of v = jat (jat v ''payload'') ''item''"

section \<open>Encoder of a connection\<close>

type_synonym text_deltas = "(string, string) hash_map"

definition suffix_of :: "json \<Rightarrow> text_deltas \<Rightarrow> string option \<times> text_deltas" where
  "suffix_of item m =
     (if jat item ''type'' \<noteq> JStr ''agent_message'' then (None, m)
      else let i = text_of item ''id'' in
        case (case as_str (jat item ''text'') of Some t \<Rightarrow> if i \<noteq> [] then Some t else None | None \<Rightarrow> None) of
          None \<Rightarrow> (None, m)
        | Some content \<Rightarrow>
            (case hm_get m i of
               None \<Rightarrow> (None, hm_insert i content m)
             | Some previous \<Rightarrow> (strip_prefix previous content, hm_insert i content m)))"

definition put_item :: "json \<Rightarrow> json \<Rightarrow> json" where
  "put_item item v = obj_put ''payload'' (obj_put ''item'' item (jat v ''payload'')) v"

definition encode_event :: "text_deltas \<Rightarrow> event \<Rightarrow> json \<times> text_deltas" where
  "encode_event m e =
     (let v = event_value e;
          m1 = (if jat v ''type'' = JStr ''turn.started'' then [] else m);
          (sfx, m2) = suffix_of (item_of v) m1
      in case sfx of
           None \<Rightarrow> (v, m2)
         | Some s \<Rightarrow>
             (obj_put ''text'' (JStr [])
                (put_item (obj_put ''delta'' (JStr s) (obj_remove ''text'' (item_of v))) v), m2))"

fun encode_all :: "text_deltas \<Rightarrow> event list \<Rightarrow> json list \<times> text_deltas" where
  "encode_all m [] = ([], m)"
| "encode_all m (e # es) =
     (let (v, m1) = encode_event m e; (vs, m2) = encode_all m1 es in (v # vs, m2))"

definition encode :: "text_deltas \<Rightarrow> event list \<Rightarrow> bool \<Rightarrow> json list \<times> text_deltas" where
  "encode m es reset = encode_all (if reset then [] else m) es"

section \<open>Rows of the client\<close>

record live_events =
  le_cursor :: int
  le_messages :: "(string, nat) hash_map"

definition new_live_events :: live_events where
  "new_live_events = \<lparr>le_cursor = 0, le_messages = []\<rparr>"

definition event_id :: "json \<Rightarrow> int" where
  "event_id v = (case as_i64 (jat v ''id'') of None \<Rightarrow> 0 | Some n \<Rightarrow> n)"

definition message_id :: "json \<Rightarrow> string option" where
  "message_id v =
     (if jat (item_of v) ''type'' = JStr ''agent_message'' \<and> text_of (item_of v) ''id'' \<noteq> []
      then Some (text_of (item_of v) ''id'') else None)"

definition after_turn :: "json \<Rightarrow> (string, nat) hash_map \<Rightarrow> (string, nat) hash_map" where
  "after_turn v ms = (if jat v ''type'' = JStr ''turn.started'' then [] else ms)"

fun restore_messages :: "json list \<Rightarrow> nat \<Rightarrow> (string, nat) hash_map \<Rightarrow> (string, nat) hash_map" where
  "restore_messages [] i ms = ms"
| "restore_messages (v # vs) i ms =
     restore_messages vs (Suc i)
       (case message_id v of None \<Rightarrow> after_turn v ms | Some m \<Rightarrow> hm_insert m i (after_turn v ms))"

definition restore_rows :: "json list \<Rightarrow> int \<Rightarrow> live_events" where
  "restore_rows rows c = \<lparr>le_cursor = c, le_messages = restore_messages rows 0 []\<rparr>"

definition expand :: "json \<Rightarrow> json option \<Rightarrow> json option" where
  "expand v previous =
     (case as_str (jat (item_of v) ''delta'') of
        None \<Rightarrow> Some v
      | Some d \<Rightarrow>
          (case previous of
             None \<Rightarrow> None
           | Some p \<Rightarrow>
               let base = (case as_str (jat (item_of p) ''text'') of None \<Rightarrow> text_of p ''text'' | Some t \<Rightarrow> t);
                   t = base @ d
               in Some (obj_put ''text'' (JStr t)
                    (put_item (obj_put ''text'' (JStr t) (obj_remove ''delta'' (item_of v))) v))))"

definition append_event :: "json \<Rightarrow> json list \<times> live_events \<Rightarrow> (json list \<times> live_events) option" where
  "append_event v = (\<lambda>(rows, le).
     if event_id v \<le> le_cursor le then Some (rows, le)
     else let ms = after_turn v (le_messages le) in
       case message_id v of
         None \<Rightarrow> Some (rows @ [v], \<lparr>le_cursor = event_id v, le_messages = ms\<rparr>)
       | Some i \<Rightarrow>
           (case hm_get ms i of
              None \<Rightarrow>
                map_option (\<lambda>v'. (rows @ [v'],
                  \<lparr>le_cursor = event_id v, le_messages = hm_insert i (length rows) ms\<rparr>)) (expand v None)
            | Some n \<Rightarrow>
                map_option (\<lambda>v'. (rows[n := obj_put ''createdAt'' (jat (rows ! n) ''createdAt'') v'],
                  \<lparr>le_cursor = event_id v, le_messages = ms\<rparr>)) (expand v (Some (rows ! n)))))"

fun append_events :: "json list \<Rightarrow> json list \<times> live_events \<Rightarrow> (json list \<times> live_events) option" where
  "append_events [] st = Some st"
| "append_events (v # vs) st = Option.bind (append_event v st) (append_events vs)"


section \<open>Fields of an event\<close>

lemma ordered_event_value: "ordered (event_value e)"
  by (simp add: event_value_def split: option.splits)


lemma is_object_event_value [simp]: "is_object (event_value e)"
  by (simp add: event_value_def)

lemma event_value_fields [simp]:
  "jat (event_value e) ''type'' = JStr (ev_kind e)"
  "jat (event_value e) ''id'' = JNum (ev_id e)"
  "jat (event_value e) ''createdAt'' = JNum (ev_created e)"
  by (simp_all add: event_value_def jat_def split: option.splits)

lemma message_object:
  assumes "message_id v = Some i"
  shows "is_object (jat v ''payload'')" "is_object (item_of v)" "is_object v"
    "jat (item_of v) ''type'' = JStr ''agent_message''" "text_of (item_of v) ''id'' = i" "i \<noteq> []"
proof -
  from assms show t: "jat (item_of v) ''type'' = JStr ''agent_message''"
    and "text_of (item_of v) ''id'' = i" "i \<noteq> []" by (auto simp: message_id_def split: if_splits)
  from t show o: "is_object (item_of v)" by (cases "item_of v") (auto simp: jat_def)
  then show p: "is_object (jat v ''payload'')"
    by (cases "jat v ''payload''") (auto simp: item_of_def jat_def split: option.splits)
  then show "is_object v" by (cases v) (auto simp: jat_def split: option.splits)
qed

section \<open>Rows that show the same message\<close>

definition event_ok :: "event \<Rightarrow> bool" where
  "event_ok e \<longleftrightarrow> 0 < ev_id e \<and> ev_id e \<le> i64_max \<and>
     (message_id (event_value e) = None \<or>
      ordered (jat (event_value e) ''payload'') \<and> ordered (item_of (event_value e)) \<and>
      as_str (jat (item_of (event_value e)) ''text'') \<noteq> None \<and>
      jget (item_of (event_value e)) ''delta'' = None)"

definition row_agrees :: "json \<Rightarrow> json \<Rightarrow> bool" where
  "row_agrees a b \<longleftrightarrow> obj_remove ''text'' a = obj_remove ''text'' b \<and> (message_id b = None \<longrightarrow> a = b)"

lemma row_agrees_refl [simp]: "row_agrees a a"
  by (simp add: row_agrees_def)

lemma row_agrees_fields:
  assumes "row_agrees a b"
  shows "item_of a = item_of b" "message_id a = message_id b" "jat a ''type'' = jat b ''type''"
    "jat a ''createdAt'' = jat b ''createdAt''"
proof -
  have f: "jat a k = jat b k" if "k \<noteq> ''text''" for k
    using assms that obj_remove_jat [of "''text''" a b k] by (simp add: row_agrees_def)
  show "item_of a = item_of b" by (simp add: item_of_def f)
  then show "message_id a = message_id b" by (simp add: message_id_def)
  show "jat a ''type'' = jat b ''type''" "jat a ''createdAt'' = jat b ''createdAt''" by (simp_all add: f)
qed

lemma row_agrees_put:
  assumes "ordered a" "ordered b" "row_agrees a b" "k \<noteq> ''text''" "message_id b \<noteq> None"
    "message_id (obj_put k x b) \<noteq> None"
  shows "row_agrees (obj_put k x a) (obj_put k x b)"
proof -
  have "obj_remove ''text'' (obj_put k x a) = obj_remove ''text'' (obj_put k x b)"
  proof (rule ordered_eqI)
    fix k'
    show "jget (obj_remove ''text'' (obj_put k x a)) k' = jget (obj_remove ''text'' (obj_put k x b)) k'"
      using assms(1-3) obj_remove_jget [of "''text''" a b k']
      by (simp add: jget_obj_remove jget_obj_put ordered_object row_agrees_def)
  qed (use assms in \<open>auto intro: ordered_remove ordered_put\<close>)
  then show ?thesis using assms(6) by (auto simp: row_agrees_def)
qed

lemma created_kept:
  assumes "is_object v"
  shows "message_id (obj_put ''createdAt'' x v) = message_id v" "item_of (obj_put ''createdAt'' x v) = item_of v"
  using assms by (simp_all add: message_id_def item_of_def jat_obj_put)

section \<open>Expanding what was compressed\<close>

lemma expand_whole: "event_ok e \<Longrightarrow> message_id (event_value e) \<noteq> None \<Longrightarrow> expand (event_value e) r = Some (event_value e)"
  by (auto simp: expand_def event_ok_def jat_def)

lemma item_of_put_item:
  assumes "is_object v" "is_object (jat v ''payload'')"
  shows "item_of (put_item item v) = item"
  using assms by (simp add: item_of_def put_item_def jat_obj_put)

lemma expand_compressed:
  fixes e p s
  defines "v \<equiv> event_value e"
  defines "c \<equiv> obj_put ''text'' (JStr [])
      (put_item (obj_put ''delta'' (JStr s) (obj_remove ''text'' (item_of v))) v)"
  assumes ok: "event_ok e"
    and m: "message_id v = Some i"
    and t: "jat (item_of v) ''text'' = JStr (p @ s)"
    and r: "jat (item_of r) ''text'' = JStr p"
  shows "message_id c = Some i" "jat c ''type'' = jat v ''type''" "jat c ''id'' = jat v ''id''"
    and "\<exists>x. expand c (Some r) = Some x \<and> row_agrees x v \<and> ordered x"
proof -
  define im where "im = item_of v"
  define dm where "dm = obj_put ''delta'' (JStr s) (obj_remove ''text'' im)"
  note mo = message_object [OF m]
  have ov: "ordered v" by (simp add: v_def ordered_event_value)
  have op: "ordered (jat v ''payload'')" and oi: "ordered im" and nd: "jget im ''delta'' = None"
    using ok m by (auto simp: event_ok_def v_def im_def)
  have obi: "is_object im" using oi ordered_object by blast
  have pv: "jget v ''payload'' = Some (jat v ''payload'')"
    using mo(1) by (auto simp: jat_def split: option.splits)
  have pi: "jget (jat v ''payload'') ''item'' = Some im"
    using mo(2) by (auto simp: im_def item_of_def jat_def split: option.splits)
  have ti: "jget im ''text'' = Some (JStr (p @ s))"
    using t by (auto simp: im_def jat_def split: option.splits)
  have c: "c = obj_put ''text'' (JStr []) (put_item dm v)" by (simp add: c_def dm_def im_def)
  have obp: "is_object (put_item dm v)" using mo(3) by (simp add: put_item_def)
  have ic: "item_of c = dm"
    using mo(1,3) obp item_of_put_item [of v dm] by (simp add: c item_of_def jat_obj_put)
  have oc: "is_object c" using mo(3) by (simp add: c put_item_def)
  have pc: "jat c ''payload'' = obj_put ''item'' dm (jat v ''payload'')"
    using mo(3) obp by (simp add: c put_item_def jat_obj_put)
  have dt: "jat dm ''type'' = jat im ''type''" "jat dm ''id'' = jat im ''id''" "jat dm ''delta'' = JStr s"
    using obi by (simp_all add: dm_def jat_obj_put jat_obj_remove)
  show "message_id c = Some i"
    using mo(4,5,6) dt by (simp add: message_id_def ic text_of_def flip: im_def)
  show "jat c ''type'' = jat v ''type''" "jat c ''id'' = jat v ''id''"
    using mo(3) obp by (simp_all add: c put_item_def jat_obj_put)
  define x where "x = obj_put ''text'' (JStr (p @ s))
      (put_item (obj_put ''text'' (JStr (p @ s)) (obj_remove ''delta'' dm)) c)"
  have "expand c (Some r) = Some x"
    using r by (simp add: expand_def ic dt x_def Let_def)
  moreover have restored: "obj_put ''text'' (JStr (p @ s)) (obj_remove ''delta'' dm) = im"
    by (rule ordered_eqI)
      (use oi obi nd ti in \<open>auto simp: dm_def jget_obj_put jget_obj_remove intro!: ordered_put ordered_remove\<close>)
  have "obj_put ''item'' im (jat c ''payload'') = jat v ''payload''"
    by (rule ordered_eqI)
      (use op mo(1) pi in \<open>auto simp: pc jget_obj_put intro!: ordered_put\<close>)
  then have x: "x = obj_put ''text'' (JStr (p @ s)) (obj_put ''payload'' (jat v ''payload'') c)"
    by (simp add: x_def put_item_def restored)
  have ordc: "ordered c" using ov by (simp add: c put_item_def ordered_put)
  have "ordered x" using ordc by (simp add: x ordered_put)
  moreover have "obj_remove ''text'' x = obj_remove ''text'' v"
    by (rule ordered_eqI)
      (use ov ordc mo(3) obp oc pv in \<open>auto simp: x c put_item_def jget_obj_put jget_obj_remove
        intro!: ordered_put ordered_remove\<close>)
  ultimately show "\<exists>x. expand c (Some r) = Some x \<and> row_agrees x v \<and> ordered x"
    using m by (auto simp: row_agrees_def)
qed


section \<open>A client with deltas and a client with snapshots\<close>

lemma hm_get_insert: "hm_get (hm_insert k v m) k' = (if k' = k then Some v else hm_get m k')"
  by (simp add: hm_get_def hm_insert_def update_conv')

definition indexed :: "json list \<Rightarrow> (string, nat) hash_map \<Rightarrow> bool" where
  "indexed rows ms \<longleftrightarrow>
     (\<forall>i n. hm_get ms i = Some n \<longrightarrow> n < length rows \<and> message_id (rows ! n) = Some i)"

definition remembered :: "text_deltas \<Rightarrow> json list \<Rightarrow> (string, nat) hash_map \<Rightarrow> bool" where
  "remembered m rows ms \<longleftrightarrow>
     (\<forall>i p. hm_get m i = Some p \<longrightarrow>
        (\<exists>n. hm_get ms i = Some n \<and> jat (item_of (rows ! n)) ''text'' = JStr p))"

definition views_agree ::
  "text_deltas \<Rightarrow> json list \<times> live_events \<Rightarrow> json list \<times> live_events \<Rightarrow> bool"
where
  "views_agree m S S' \<longleftrightarrow> snd S = snd S' \<and> list_all2 row_agrees (fst S) (fst S') \<and>
     indexed (fst S') (le_messages (snd S')) \<and> remembered m (fst S') (le_messages (snd S'))"

lemma indexedD: "indexed rows ms \<Longrightarrow> hm_get ms i = Some n \<Longrightarrow> n < length rows \<and> message_id (rows ! n) = Some i"
  by (simp add: indexed_def)

lemma rememberedD:
  "remembered m rows ms \<Longrightarrow> hm_get m i = Some p \<Longrightarrow>
     \<exists>n. hm_get ms i = Some n \<and> jat (item_of (rows ! n)) ''text'' = JStr p"
  by (simp add: remembered_def)

lemma indexed_append: "indexed rows ms \<Longrightarrow> indexed (rows @ [v]) ms"
  by (auto simp: indexed_def nth_append dest: less_SucI)

lemma indexed_new: "indexed rows ms \<Longrightarrow> message_id v = Some i \<Longrightarrow> indexed (rows @ [v]) (hm_insert i (length rows) ms)"
  by (auto simp: indexed_def nth_append hm_get_insert dest: less_SucI)

lemma indexed_update:
  "indexed rows ms \<Longrightarrow> hm_get ms i = Some n \<Longrightarrow> message_id v = Some i \<Longrightarrow> indexed (rows[n := v]) ms"
  unfolding indexed_def by (metis length_list_update nth_list_update nth_list_update_neq option.inject)

lemma remembered_append: "indexed rows ms \<Longrightarrow> remembered m rows ms \<Longrightarrow> remembered m (rows @ [v]) ms"
  unfolding indexed_def remembered_def by (metis nth_append)

lemma remembered_new:
  assumes ix: "indexed rows ms" and rm: "remembered m rows ms" and t: "jat (item_of v) ''text'' = JStr t"
  shows "remembered (hm_insert i t m) (rows @ [v]) (hm_insert i (length rows) ms)"
  unfolding remembered_def
proof (intro allI impI)
  fix j p
  assume g: "hm_get (hm_insert i t m) j = Some p"
  show "\<exists>n. hm_get (hm_insert i (length rows) ms) j = Some n \<and> jat (item_of ((rows @ [v]) ! n)) ''text'' = JStr p"
  proof (cases "j = i")
    case True
    then show ?thesis using g t by (simp add: hm_get_insert)
  next
    case False
    then have "hm_get m j = Some p" using g by (simp add: hm_get_insert)
    then obtain n where "hm_get ms j = Some n" "jat (item_of (rows ! n)) ''text'' = JStr p"
      using rm rememberedD by blast
    then show ?thesis using False ix indexedD by (auto simp: hm_get_insert nth_append)
  qed
qed

lemma remembered_update:
  assumes ix: "indexed rows ms" and rm: "remembered m rows ms" and t: "jat (item_of v) ''text'' = JStr t"
    and n: "hm_get ms i = Some n"
  shows "remembered (hm_insert i t m) (rows[n := v]) ms"
  unfolding remembered_def
proof (intro allI impI)
  fix j p
  assume g: "hm_get (hm_insert i t m) j = Some p"
  show "\<exists>n'. hm_get ms j = Some n' \<and> jat (item_of (rows[n := v] ! n')) ''text'' = JStr p"
  proof (cases "j = i")
    case True
    then show ?thesis using g t n indexedD [OF ix n] by (simp add: hm_get_insert)
  next
    case False
    then have "hm_get m j = Some p" using g by (simp add: hm_get_insert)
    then obtain n' where n': "hm_get ms j = Some n'" "jat (item_of (rows ! n')) ''text'' = JStr p"
      using rm rememberedD by blast
    then have "n' \<noteq> n" using False indexedD [OF ix n] indexedD [OF ix n'(1)] by auto
    then show ?thesis using n' by simp
  qed
qed

lemma strip_prefix_appended: "strip_prefix p (p @ s) = Some s"
  by simp

lemma encode_message:
  assumes ok: "event_ok e" and v: "v = event_value e" and i: "message_id v = Some i"
    and enc: "encode_event m e = (c, m')" and t: "jat (item_of v) ''text'' = JStr t"
    and m1: "m1 = (if jat v ''type'' = JStr ''turn.started'' then [] else m)"
    and r: "\<And>p. hm_get m1 i = Some p \<Longrightarrow> \<exists>x. r = Some x \<and> jat (item_of x) ''text'' = JStr p"
  shows "m' = hm_insert i t m1 \<and> message_id c = Some i \<and> jat c ''type'' = jat v ''type'' \<and>
    jat c ''id'' = jat v ''id'' \<and> (\<exists>x. expand c r = Some x \<and> row_agrees x v \<and> ordered x)"
proof -
  note mo = message_object [OF i]
  have whole: "expand v r = Some v" using expand_whole ok i v by auto
  have ov: "ordered v" by (simp add: v ordered_event_value)
  show ?thesis
  proof (cases "hm_get m1 i")
    case None
    then have "encode_event m e = (v, hm_insert i t m1)"
      using mo t by (simp add: encode_event_def suffix_of_def Let_def flip: v m1)
    then show ?thesis using enc i whole ov by auto
  next
    case (Some p)
    show ?thesis
    proof (cases "strip_prefix p t")
      case None
      then have "encode_event m e = (v, hm_insert i t m1)"
        using mo t Some by (simp add: encode_event_def suffix_of_def Let_def flip: v m1)
      then show ?thesis using enc i whole ov by auto
    next
      case (Some s)
      note ps = Some
      then have ts: "t = p @ s" by simp
      obtain x where x: "r = Some x" "jat (item_of x) ''text'' = JStr p" using r \<open>hm_get m1 i = Some p\<close> by blast
      have "encode_event m e = (obj_put ''text'' (JStr [])
          (put_item (obj_put ''delta'' (JStr s) (obj_remove ''text'' (item_of v))) v), hm_insert i t m1)"
        using mo t ts \<open>hm_get m1 i = Some p\<close>
        by (simp add: encode_event_def suffix_of_def Let_def strip_prefix_appended flip: v m1)
      then show ?thesis
        using enc expand_compressed [OF ok, of i p s x] i t x ts by (auto simp: v)
    qed
  qed
qed


lemma event_id_value: "event_ok e \<Longrightarrow> event_id (event_value e) = ev_id e"
  by (simp add: event_id_def event_ok_def)

lemma list_all2_append1: "list_all2 P xs ys \<Longrightarrow> P x y \<Longrightarrow> list_all2 P (xs @ [x]) (ys @ [y])"
  by (simp add: list_all2_appendI)

lemma append_agrees:
  assumes ok: "event_ok e" and cur: "le_cursor (snd S) < ev_id e" and ag: "views_agree m S S'"
    and enc: "encode_event m e = (c, m')"
  shows "\<exists>T T'. append_event c S = Some T \<and> append_event (event_value e) S' = Some T' \<and>
     views_agree m' T T' \<and> le_cursor (snd T) = ev_id e"
proof -
  define v where "v = event_value e"
  define ms where "ms = after_turn v (le_messages (snd S))"
  define m1 where "m1 = (if jat v ''type'' = JStr ''turn.started'' then [] else m)"
  obtain rows le rows' where S: "S = (rows, le)" "S' = (rows', le)"
    and all: "list_all2 row_agrees rows rows'"
    using ag by (metis prod.collapse views_agree_def)
  have len: "length rows = length rows'" using all list_all2_lengthD by blast
  have ms: "ms = after_turn v (le_messages le)" by (simp add: ms_def S)
  have ix: "indexed rows' ms"
    using ag by (simp add: views_agree_def ms after_turn_def S indexed_def)
  have rm: "remembered m1 rows' ms"
    using ag by (simp add: views_agree_def ms m1_def after_turn_def S remembered_def)
  have vid: "event_id v = ev_id e" using ok event_id_value by (simp add: v_def)
  have new: "\<not> ev_id e \<le> le_cursor le" using cur S by simp
  show ?thesis
  proof (cases "message_id v")
    case None
    then have "suffix_of (item_of v) m1 = (None, m1)"
      by (auto simp: suffix_of_def message_id_def Let_def split: option.splits if_splits)
    then have c: "c = v" "m' = m1" using enc by (simp_all add: encode_event_def Let_def flip: v_def m1_def)
    have "append_event v (rs, le) = Some (rs @ [v], \<lparr>le_cursor = ev_id e, le_messages = ms\<rparr>)" for rs
      using None new vid by (simp add: append_event_def Let_def flip: ms)
    then show ?thesis
      using all ix rm by (auto simp: S c views_agree_def list_all2_append1 indexed_append remembered_append simp flip: v_def)
  next
    case (Some i)
    obtain t where t: "jat (item_of v) ''text'' = JStr t"
      using ok Some by (auto simp: event_ok_def v_def elim: as_str.elims)
    define r where "r = map_option (\<lambda>n. rows ! n) (hm_get ms i)"
    have r: "\<exists>x. r = Some x \<and> jat (item_of x) ''text'' = JStr p" if p: "hm_get m1 i = Some p" for p
    proof -
      obtain n where n: "hm_get ms i = Some n" "jat (item_of (rows' ! n)) ''text'' = JStr p"
        using rememberedD [OF rm p] by blast
      then have "row_agrees (rows ! n) (rows' ! n)" using all len indexedD [OF ix] by (simp add: list_all2_nthD)
      then show ?thesis using n row_agrees_fields(1) by (simp add: r_def)
    qed
    from encode_message [OF ok v_def Some enc t m1_def r] obtain x where
      m': "m' = hm_insert i t m1" and cm: "message_id c = Some i" and ct: "jat c ''type'' = jat v ''type''"
      and ci: "jat c ''id'' = jat v ''id''" and x: "expand c r = Some x" "row_agrees x v" "ordered x" by blast
    have cid: "event_id c = ev_id e" using vid ci by (simp add: event_id_def)
    have cms: "after_turn c (le_messages le) = ms" using ct ms by (simp add: after_turn_def)
    have whole: "expand v q = Some v" for q using expand_whole ok Some v_def by auto
    have ov: "ordered v" by (simp add: v_def ordered_event_value)
    show ?thesis
    proof (cases "hm_get ms i")
      case None
      have "append_event c (rows, le) = Some (rows @ [x], \<lparr>le_cursor = ev_id e, le_messages = hm_insert i (length rows) ms\<rparr>)"
        using None new cid cm cms x(1) by (simp add: append_event_def Let_def r_def)
      moreover have "append_event v (rows', le) = Some (rows' @ [v], \<lparr>le_cursor = ev_id e, le_messages = hm_insert i (length rows) ms\<rparr>)"
        using None new vid Some whole len by (simp add: append_event_def Let_def flip: ms)
      ultimately show ?thesis
        using all ix rm x(2) t Some len
        by (auto simp: S m' views_agree_def list_all2_append1 indexed_new remembered_new simp flip: v_def)
    next
      case (Some n)
      define a where "a = obj_put ''createdAt'' (jat (rows ! n) ''createdAt'') x"
      define b where "b = obj_put ''createdAt'' (jat (rows' ! n) ''createdAt'') v"
      have rn: "row_agrees (rows ! n) (rows' ! n)" using all len indexedD [OF ix Some] by (simp add: list_all2_nthD)
      have bi: "message_id b = Some i" "item_of b = item_of v"
        using \<open>message_id v = Some i\<close> created_kept ov ordered_object by (simp_all add: b_def)
      have ab: "row_agrees a b"
        using row_agrees_put [OF x(3) ov x(2)] bi(1) \<open>message_id v = Some i\<close> row_agrees_fields(4) [OF rn]
        by (simp add: a_def b_def)
      have "append_event c (rows, le) = Some (rows[n := a], \<lparr>le_cursor = ev_id e, le_messages = ms\<rparr>)"
        using Some new cid cm cms x(1) by (simp add: append_event_def Let_def r_def a_def)
      moreover have "append_event v (rows', le) = Some (rows'[n := b], \<lparr>le_cursor = ev_id e, le_messages = ms\<rparr>)"
        using Some new vid \<open>message_id v = Some i\<close> whole by (simp add: append_event_def Let_def b_def flip: ms)
      moreover have "list_all2 row_agrees (rows[n := a]) (rows'[n := b])"
        using all ab by (rule list_all2_update_cong)
      ultimately show ?thesis
        using indexed_update [OF ix Some bi(1)] remembered_update [OF ix rm _ Some] t bi(2)
        by (auto simp: S m' views_agree_def simp flip: v_def)
    qed
  qed
qed

end
