(* ===== verification/Live_Stream.thy ===== *)
theory Live_Stream
  imports Live_Text Journal
begin

text \<open>
  The live stream of a conversation (\<open>live.rs\<close>, the event queries of \<open>store.rs\<close>): one page of
  events per read transaction, the cursor and the history version of a connection, the batches it
  sends, and the client that applies them (\<open>use-live-run.ts\<close>). A read sees a snapshot of the
  database: the events table in the order of the identifiers and the metadata sent beside them.
  The client of a stream with deltas and the client of a stream with complete snapshots end with
  the same rows, whatever is written, pruned or switched between two reads.
\<close>

section \<open>Pages\<close>

record live_state =
  st_run :: json
  st_meta :: json

record reading =
  sn_state :: live_state
  sn_table :: "event list"

record page_request =
  rq_after :: int
  rq_expected :: "string option"
  rq_window :: bool
  rq_before :: "int option"

record page =
  pg_state :: live_state
  pg_events :: "event list"
  pg_reset :: bool
  pg_more :: bool
  pg_history :: string
  pg_oldest :: "int option"
  pg_has_older :: bool

definition PAGE_EVENTS :: nat where
  "PAGE_EVENTS = 100"

definition PAGE_BYTES :: nat where
  "PAGE_BYTES = 256 * 1024"

definition run_events :: "event list \<Rightarrow> string \<Rightarrow> event list" where
  "run_events tbl run = filter (\<lambda>e. ev_run e = run) tbl"

definition event_bounds :: "event list \<Rightarrow> string \<Rightarrow> int \<times> int" where
  "event_bounds tbl run =
     (let es = run_events tbl run
      in (case es of [] \<Rightarrow> 0 | e # _ \<Rightarrow> ev_id e, if es = [] then 0 else ev_id (last es)))"

text \<open>A snapshot of a message that a later one of the same turn replaces is not part of a history page.\<close>

definition item_key :: "event \<Rightarrow> json" where
  "item_key e = jat (item_of (event_value e)) ''id''"

definition agent_message :: "event \<Rightarrow> bool" where
  "agent_message e \<longleftrightarrow> jat (item_of (event_value e)) ''type'' = JStr ''agent_message''"

definition next_turn :: "event list \<Rightarrow> event \<Rightarrow> int" where
  "next_turn tbl e =
     (case filter (\<lambda>t. ev_kind t = ''turn.started'' \<and> ev_id e < ev_id t) (run_events tbl (ev_run e)) of
        [] \<Rightarrow> i64_max
      | t # _ \<Rightarrow> ev_id t)"

definition superseded_event :: "event list \<Rightarrow> event \<Rightarrow> bool" where
  "superseded_event tbl e \<longleftrightarrow>
     agent_message e \<and> item_key e \<noteq> JNull \<and> item_key e \<noteq> JStr [] \<and>
     list_ex (\<lambda>n. agent_message n \<and> item_key n = item_key e \<and> ev_id e < ev_id n \<and> ev_id n < next_turn tbl e)
       (run_events tbl (ev_run e))"

text \<open>Rows are read until the budget of bytes or the number of events is reached.\<close>

fun take_rows :: "(event \<Rightarrow> nat) \<Rightarrow> nat \<Rightarrow> nat \<Rightarrow> nat \<Rightarrow> nat \<Rightarrow> event list \<Rightarrow> event list \<times> event list" where
  "take_rows sz limit max_bytes n bytes [] = ([], [])"
| "take_rows sz limit max_bytes n bytes (e # es) =
     (let b = bytes + sz e + 256 in
        if max_bytes \<le> b \<or> limit \<le> Suc n then ([e], es)
        else let (xs, rest) = take_rows sz limit max_bytes (Suc n) b es in (e # xs, rest))"

definition event_slice ::
  "(event \<Rightarrow> nat) \<Rightarrow> event list \<Rightarrow> string \<Rightarrow> int \<Rightarrow> nat \<Rightarrow> nat \<Rightarrow> bool \<Rightarrow> event list \<times> bool"
where
  "event_slice sz tbl run boundary limit max_bytes backwards =
     (let rows =
        (if backwards
         then take (limit + 1)
           (rev (filter (\<lambda>e. ev_id e < boundary \<and> \<not> superseded_event tbl e) (run_events tbl run)))
         else take limit (filter (\<lambda>e. boundary < ev_id e) (run_events tbl run)));
        (events, rest) = take_rows sz limit max_bytes 0 0 rows
      in (events, backwards \<and> rest \<noteq> []))"

definition event_batch :: "(event \<Rightarrow> nat) \<Rightarrow> event list \<Rightarrow> string \<Rightarrow> int \<Rightarrow> nat \<Rightarrow> nat \<Rightarrow> event list" where
  "event_batch sz tbl run after limit max_bytes = fst (event_slice sz tbl run after limit max_bytes False)"

definition events_before :: "(event \<Rightarrow> nat) \<Rightarrow> event list \<Rightarrow> string \<Rightarrow> int \<Rightarrow> event list \<times> bool" where
  "events_before sz tbl run before =
     (let (events, more) = event_slice sz tbl run before 100 (256 * 1024) True in (rev events, more))"

definition history_version :: "string \<Rightarrow> int \<Rightarrow> string" where
  "history_version run first = ''v1:'' @ run @ '':'' @ show_int first"

definition read_page :: "(event \<Rightarrow> nat) \<Rightarrow> reading \<Rightarrow> page_request \<Rightarrow> (svc_error, page) result" where
  "read_page sz sn rq =
     (let tbl = sn_table sn;
          run = text_of (st_run (sn_state sn)) ''id'';
          after = rq_after rq;
          (first, newest) = event_bounds tbl run;
          history = history_version run first;
          reset = (newest < after \<or> (0 < after \<and> after < first) \<or>
                   (case rq_expected rq of None \<Rightarrow> False | Some v \<Rightarrow> v \<noteq> history))
      in if rq_before rq \<noteq> None \<and> reset
         then Inl (Conflict ''History changed. Reconnect before loading older messages.'')
         else
           let start = (if reset then 0 else after);
               tail = (rq_before rq \<noteq> None \<or> (rq_window rq \<and> (after = 0 \<or> reset)));
               (events, has_older) =
                 (if tail then events_before sz tbl run (case rq_before rq of None \<Rightarrow> i64_max | Some b \<Rightarrow> b)
                  else (event_batch sz tbl run start PAGE_EVENTS PAGE_BYTES, False));
               oldest = (if tail then Some (case events of [] \<Rightarrow> (case rq_before rq of None \<Rightarrow> 0 | Some b \<Rightarrow> b)
                                                         | e # _ \<Rightarrow> ev_id e) else None);
               cursor = (if events = [] then start else ev_id (last events))
           in Inr \<lparr>pg_state = sn_state sn, pg_events = events, pg_reset = reset, pg_more = cursor < newest,
                   pg_history = history, pg_oldest = oldest, pg_has_older = has_older\<rparr>)"

section \<open>Connections\<close>

record subscription =
  sb_window :: bool
  sb_cursor :: int
  sb_pending :: "page option"
  sb_previous :: "live_state option"
  sb_history :: "string option"
  sb_deltas :: text_deltas

record batch =
  bt_events :: "json list"
  bt_reset :: bool
  bt_more :: bool
  bt_history :: string
  bt_oldest :: "int option"
  bt_has_older :: "bool option"
  bt_state :: "live_state option"
  bt_id :: int

type_synonym encoder = "text_deltas \<Rightarrow> event list \<Rightarrow> bool \<Rightarrow> json list \<times> text_deltas"

definition subscribe ::
  "(event \<Rightarrow> nat) \<Rightarrow> int \<Rightarrow> string option \<Rightarrow> bool \<Rightarrow> reading \<Rightarrow> (svc_error, subscription) result"
where
  "subscribe sz after expected window sn =
     rbind (read_page sz sn \<lparr>rq_after = after, rq_expected = expected, rq_window = window, rq_before = None\<rparr>)
       (\<lambda>first. Inr \<lparr>sb_window = window, sb_cursor = after, sb_pending = Some first, sb_previous = None,
                      sb_history = None, sb_deltas = []\<rparr>)"

definition read_next ::
  "(event \<Rightarrow> nat) \<Rightarrow> subscription \<Rightarrow> int \<Rightarrow> string option \<Rightarrow> reading \<Rightarrow> (svc_error, page) result"
where
  "read_next sz sub after expected sn =
     read_page sz sn \<lparr>rq_after = after, rq_expected = expected, rq_window = sb_window sub, rq_before = None\<rparr>"

definition run_switched :: "subscription \<Rightarrow> page \<Rightarrow> bool" where
  "run_switched sub pg =
     (case sb_previous sub of None \<Rightarrow> False
      | Some p \<Rightarrow> jat (st_run p) ''id'' \<noteq> jat (st_run (pg_state pg)) ''id'')"

definition deliver :: "encoder \<Rightarrow> subscription \<Rightarrow> page \<Rightarrow> bool \<Rightarrow> batch option \<times> subscription" where
  "deliver enc sub current switched =
     (let reset = (pg_reset current \<or> switched);
          base = (if reset then 0 else sb_cursor sub);
          changed = (sb_previous sub \<noteq> Some (pg_state current));
          cursor = (if pg_events current = [] then base else ev_id (last (pg_events current)));
          (values, deltas) = enc (sb_deltas sub) (pg_events current) reset;
          b = \<lparr>bt_events = values, bt_reset = reset, bt_more = pg_more current, bt_history = pg_history current,
               bt_oldest = pg_oldest current,
               bt_has_older = map_option (\<lambda>_. pg_has_older current) (pg_oldest current),
               bt_state = (if changed then Some (pg_state current) else None), bt_id = cursor\<rparr>
      in (if changed \<or> pg_events current \<noteq> [] \<or> reset then Some b else None,
          sub\<lparr>sb_cursor := cursor, sb_pending := None, sb_previous := Some (pg_state current),
              sb_history := Some (pg_history current), sb_deltas := deltas\<rparr>))"

text \<open>\<open>Subscription::poll\<close>; \<open>sn\<close> and \<open>sn'\<close> are what its first and its second read see.\<close>

definition poll ::
  "encoder \<Rightarrow> (event \<Rightarrow> nat) \<Rightarrow> reading \<Rightarrow> reading \<Rightarrow> subscription \<Rightarrow>
   (svc_error, batch option \<times> subscription) result"
where
  "poll enc sz sn sn' sub =
     rbind (case sb_pending sub of Some first \<Rightarrow> Inr first
            | None \<Rightarrow> read_next sz sub (sb_cursor sub) (sb_history sub) sn)
       (\<lambda>pg. if run_switched sub pg
              then rbind (read_next sz sub 0 None sn') (\<lambda>pg'. Inr (deliver enc sub pg' True))
              else Inr (deliver enc sub pg False))"

section \<open>The client\<close>

record viewer =
  vw_rows :: "json list"
  vw_live :: live_events
  vw_history :: "string option"
  vw_state :: "live_state option"
  vw_complete :: bool

definition client_reset :: "batch \<Rightarrow> viewer \<Rightarrow> bool" where
  "client_reset b vw \<longleftrightarrow> bt_reset b \<or>
     (case vw_history vw of None \<Rightarrow> False | Some h \<Rightarrow> h \<noteq> [] \<and> bt_history b \<noteq> h) \<or>
     (case bt_state b of None \<Rightarrow> False
      | Some s \<Rightarrow> (case vw_state vw of None \<Rightarrow> JNull | Some d \<Rightarrow> jat (st_run d) ''id'') \<noteq> jat (st_run s) ''id'')"

definition receive :: "batch \<Rightarrow> viewer \<Rightarrow> viewer option" where
  "receive b vw =
     map_option (\<lambda>(rows, live). vw\<lparr>vw_rows := rows, vw_live := live, vw_history := Some (bt_history b),
                   vw_state := (case bt_state b of None \<Rightarrow> vw_state vw | Some s \<Rightarrow> Some s),
                   vw_complete := \<not> bt_more b\<rparr>)
       (append_events (bt_events b)
          (if client_reset b vw then ([], new_live_events) else (vw_rows vw, vw_live vw)))"

text \<open>A connection over a sequence of reads; \<open>None\<close> is a failed read or a rejected batch.\<close>

fun follow ::
  "encoder \<Rightarrow> (event \<Rightarrow> nat) \<Rightarrow> (reading \<times> reading) list \<Rightarrow> subscription \<times> viewer \<Rightarrow> (subscription \<times> viewer) option"
where
  "follow enc sz [] st = Some st"
| "follow enc sz ((sn, sn') # reads) (sub, vw) =
     (case poll enc sz sn sn' sub of
        Inl _ \<Rightarrow> None
      | Inr (None, sub') \<Rightarrow> follow enc sz reads (sub', vw)
      | Inr (Some b, sub') \<Rightarrow> Option.bind (receive b vw) (\<lambda>vw'. follow enc sz reads (sub', vw')))"

text \<open>The reference: every event with its complete payload.\<close>

definition whole_events :: encoder where
  "whole_events m es reset = (map event_value es, m)"

definition restored_viewer :: "json list \<Rightarrow> int \<Rightarrow> string option \<Rightarrow> live_state option \<Rightarrow> viewer" where
  "restored_viewer rows c h st = \<lparr>vw_rows = rows, vw_live = restore_rows rows c, vw_history = h,
     vw_state = st, vw_complete = (st \<noteq> None)\<rparr>"

end
