(* ===== verification/Live_Agree.thy ===== *)
theory Live_Agree
  imports Live_Stream
begin

text \<open>
  A page of a connection continues after its cursor, so a client never skips an event the encoder
  has seen; with \<open>append_agrees\<close> this gives the equivalence of the two streams.
\<close>

section \<open>Events of a page\<close>

definition table_ok :: "event list \<Rightarrow> bool" where
  "table_ok tbl \<longleftrightarrow> sorted_wrt (<) (map ev_id tbl) \<and> list_all event_ok tbl"

definition page_ok :: "int \<Rightarrow> event list \<Rightarrow> bool" where
  "page_ok c es \<longleftrightarrow> sorted_wrt (<) (c # map ev_id es) \<and> list_all event_ok es"

lemma take_rows_append: "take_rows sz l mx n b rows = (xs, rest) \<Longrightarrow> rows = xs @ rest"
  by (induction sz l mx n b rows arbitrary: xs rest rule: take_rows.induct)
    (auto simp: Let_def split: if_splits prod.splits)

lemma table_ok_filter: "table_ok tbl \<Longrightarrow> table_ok (filter P tbl)"
  by (auto simp: table_ok_def sorted_wrt_map_filter list_all_iff)

lemma sorted_wrt_append_left: "sorted_wrt R (xs @ ys) \<Longrightarrow> sorted_wrt R xs"
  by (simp add: sorted_wrt_append)

lemma table_ok_take: "table_ok tbl \<Longrightarrow> table_ok (take k tbl)"
  using sorted_wrt_append_left [of "(<)" "map ev_id (take k tbl)" "map ev_id (drop k tbl)"]
  by (auto simp: table_ok_def list_all_iff dest: in_set_takeD simp flip: map_append)

lemma table_ok_appendD: "table_ok (xs @ ys) \<Longrightarrow> table_ok xs \<and> table_ok ys"
  by (auto simp: table_ok_def sorted_wrt_append)

lemma page_okI: "table_ok es \<Longrightarrow> (\<And>e. e \<in> set es \<Longrightarrow> c < ev_id e) \<Longrightarrow> page_ok c es"
  by (auto simp: page_ok_def table_ok_def)

lemma page_ok_Nil [simp]: "page_ok c []"
  by (simp add: page_ok_def)

lemma event_batch_ok:
  assumes "table_ok tbl"
  shows "page_ok after (event_batch sz tbl run after l mx)"
proof -
  define rows where "rows = take l (filter (\<lambda>e. after < ev_id e) (run_events tbl run))"
  obtain xs rest where x: "take_rows sz l mx 0 0 rows = (xs, rest)" by force
  have "table_ok rows" using assms by (simp add: rows_def run_events_def table_ok_filter table_ok_take)
  then have "table_ok xs" using take_rows_append [OF x] table_ok_appendD by metis
  moreover have "after < ev_id e" if "e \<in> set xs" for e
  proof -
    have "e \<in> set rows" using take_rows_append [OF x] that by simp
    then show ?thesis unfolding rows_def by (auto dest: in_set_takeD)
  qed
  ultimately show ?thesis using x by (simp add: event_batch_def event_slice_def page_okI flip: rows_def)
qed

lemma events_before_ok:
  assumes "table_ok tbl"
  shows "page_ok 0 (fst (events_before sz tbl run before))"
proof -
  define all where "all = filter (\<lambda>e. ev_id e < before \<and> \<not> superseded_event tbl e) (run_events tbl run)"
  obtain xs rest where x: "take_rows sz 100 (256 * 1024) 0 0 (take 101 (rev all)) = (xs, rest)" by force
  have "rev all = xs @ rest @ drop 101 (rev all)"
    using take_rows_append [OF x] by (metis append.assoc append_take_drop_id)
  then have "all = rev (drop 101 (rev all)) @ rev rest @ rev xs" by (metis rev_append rev_rev_ident append.assoc)
  moreover have "table_ok all" using assms by (simp add: all_def run_events_def table_ok_filter)
  ultimately have "table_ok (rev xs)" using table_ok_appendD by metis
  then have "page_ok 0 (rev xs)" by (auto intro!: page_okI simp: table_ok_def list_all_iff event_ok_def)
  then show ?thesis using x by (simp add: events_before_def event_slice_def flip: all_def)
qed

lemma read_page_next:
  assumes "table_ok (sn_table sn)" "read_page sz sn rq = Inr pg" "rq_before rq = None"
  shows "page_ok (if pg_reset pg then 0 else rq_after rq) (pg_events pg)"
    and "pg_reset pg \<or> (case rq_expected rq of None \<Rightarrow> True | Some h \<Rightarrow> pg_history pg = h)"
proof -
  obtain evs older where e: "events_before sz (sn_table sn) (text_of (st_run (sn_state sn)) ''id'') i64_max = (evs, older)"
    by force
  have t: "page_ok 0 evs" using events_before_ok [OF assms(1)] e by (metis fst_conv)
  show "page_ok (if pg_reset pg then 0 else rq_after rq) (pg_events pg)"
    using assms t event_batch_ok [OF assms(1)] e
    by (auto simp: read_page_def Let_def split: prod.splits if_splits)
  show "pg_reset pg \<or> (case rq_expected rq of None \<Rightarrow> True | Some h \<Rightarrow> pg_history pg = h)"
    using assms(2,3) by (auto simp: read_page_def Let_def split: prod.splits if_splits option.splits)
qed

section \<open>One batch\<close>

lemma append_all_agrees:
  assumes "page_ok c es" "views_agree m S S'" "le_cursor (snd S) \<le> c" "encode_all m es = (vs, m')"
  shows "\<exists>T T'. append_events vs S = Some T \<and> append_events (map event_value es) S' = Some T' \<and>
     views_agree m' T T' \<and> le_cursor (snd T) \<le> (if es = [] then c else ev_id (last es))"
  using assms
proof (induction es arbitrary: c m S S' vs)
  case Nil
  then show ?case by simp
next
  case (Cons e es)
  obtain v m1 where v: "encode_event m e = (v, m1)" by force
  obtain vs' where vs: "vs = v # vs'" "encode_all m1 es = (vs', m')"
    using Cons.prems(4) v by (auto simp: Let_def split: prod.splits)
  have ok: "event_ok e" and lt: "le_cursor (snd S) < ev_id e" and po: "page_ok (ev_id e) es"
    using Cons.prems(1,3) by (auto simp: page_ok_def)
  obtain T T' where T: "append_event v S = Some T" "append_event (event_value e) S' = Some T'"
    "views_agree m1 T T'" "le_cursor (snd T) = ev_id e"
    using append_agrees [OF ok lt Cons.prems(2) v] by blast
  from Cons.IH [OF po T(3) _ vs(2)] T(4)
  obtain U U' where "append_events vs' T = Some U" "append_events (map event_value es) T' = Some U'"
    "views_agree m' U U'" "le_cursor (snd U) \<le> (if es = [] then ev_id e else ev_id (last es))" by auto
  then show ?case using T vs by auto
qed

definition same_view :: "viewer \<Rightarrow> viewer \<Rightarrow> bool" where
  "same_view vw vw' \<longleftrightarrow> list_all2 row_agrees (vw_rows vw) (vw_rows vw') \<and> vw_live vw = vw_live vw' \<and>
     vw_history vw = vw_history vw' \<and> vw_state vw = vw_state vw' \<and> vw_complete vw = vw_complete vw'"

definition in_step :: "subscription \<Rightarrow> viewer \<Rightarrow> viewer \<Rightarrow> bool" where
  "in_step sub vw vw' \<longleftrightarrow>
     same_view vw vw' \<and>
     views_agree (sb_deltas sub) (vw_rows vw, vw_live vw) (vw_rows vw', vw_live vw') \<and>
     le_cursor (vw_live vw) \<le> sb_cursor sub \<and> 0 \<le> sb_cursor sub \<and>
     (if sb_previous sub = None then sb_deltas sub = []
      else sb_pending sub = None \<and> vw_state vw = sb_previous sub \<and> vw_history vw = sb_history sub \<and> sb_history sub \<noteq> None)"

lemma views_agree_Nil: "views_agree [] ([], new_live_events) ([], new_live_events)"
  by (simp add: views_agree_def indexed_def remembered_def new_live_events_def)

lemma views_agree_forget: "views_agree m S S' \<Longrightarrow> views_agree [] S S'"
  by (simp add: views_agree_def remembered_def)

lemma deliver_agrees:
  assumes st: "in_step sub vw vw'" and po: "page_ok (if pg_reset pg \<or> sw then 0 else sb_cursor sub) (pg_events pg)"
    and hist: "sb_previous sub \<noteq> None \<Longrightarrow> \<not> (pg_reset pg \<or> sw) \<Longrightarrow> sb_history sub = Some (pg_history pg)"
    and same_run: "\<And>p. sb_previous sub = Some p \<Longrightarrow> \<not> sw \<Longrightarrow> jat (st_run p) ''id'' = jat (st_run (pg_state pg)) ''id''"
    and d: "deliver encode sub pg sw = (ob, sub')" and d': "deliver whole_events (sub\<lparr>sb_deltas := []\<rparr>) pg sw = (ob', sub2)"
  shows "sub2 = sub'\<lparr>sb_deltas := []\<rparr> \<and>
    (case ob of None \<Rightarrow> ob' = None \<and> in_step sub' vw vw'
     | Some b \<Rightarrow> \<exists>b' w w'. ob' = Some b' \<and> receive b vw = Some w \<and> receive b' vw' = Some w' \<and> in_step sub' w w')"
proof -
  define reset where "reset = (pg_reset pg \<or> sw)"
  define base where "base = (if reset then 0 else sb_cursor sub)"
  define cursor where "cursor = (if pg_events pg = [] then base else ev_id (last (pg_events pg)))"
  define changed where "changed = (sb_previous sub \<noteq> Some (pg_state pg))"
  define m where "m = (if reset then [] else sb_deltas sub)"
  obtain vs m' where enc: "encode_all m (pg_events pg) = (vs, m')" by force
  then have enc': "encode (sb_deltas sub) (pg_events pg) reset = (vs, m')" by (simp add: encode_def m_def)
  define b where "b = \<lparr>bt_events = vs, bt_reset = reset, bt_more = pg_more pg, bt_history = pg_history pg,
     bt_oldest = pg_oldest pg, bt_has_older = map_option (\<lambda>_. pg_has_older pg) (pg_oldest pg),
     bt_state = (if changed then Some (pg_state pg) else None), bt_id = cursor\<rparr>"
  define b' where "b' = b\<lparr>bt_events := map event_value (pg_events pg)\<rparr>"
  define sends where "sends = (changed \<or> pg_events pg \<noteq> [] \<or> reset)"
  have "deliver encode sub pg sw = (if sends then Some b else None,
     sub\<lparr>sb_cursor := cursor, sb_pending := None, sb_previous := Some (pg_state pg),
         sb_history := Some (pg_history pg), sb_deltas := m'\<rparr>)"
    by (simp only: deliver_def Let_def reset_def [symmetric] base_def [symmetric] cursor_def [symmetric]
        changed_def [symmetric] enc' prod.case sends_def b_def)
  then have ob: "ob = (if sends then Some b else None)"
    and sub': "sub' = sub\<lparr>sb_cursor := cursor, sb_pending := None, sb_previous := Some (pg_state pg),
              sb_history := Some (pg_history pg), sb_deltas := m'\<rparr>"
    using d by simp_all
  have "deliver whole_events (sub\<lparr>sb_deltas := []\<rparr>) pg sw = (if sends then Some b' else None,
     sub\<lparr>sb_cursor := cursor, sb_pending := None, sb_previous := Some (pg_state pg),
         sb_history := Some (pg_history pg), sb_deltas := []\<rparr>)"
    unfolding b'_def b_def sends_def cursor_def base_def changed_def reset_def
    by (simp add: deliver_def Let_def whole_events_def)
  then have ob': "ob' = (if sends then Some b' else None)" and sub2: "sub2 = sub'\<lparr>sb_deltas := []\<rparr>"
    using d' by (simp_all add: sub')
  note st' = st [unfolded in_step_def]
  show ?thesis
  proof (cases sends)
    case False
    then have n: "\<not> changed" "pg_events pg = []" "\<not> reset" by (simp_all add: sends_def)
    then have "m' = sb_deltas sub" "cursor = sb_cursor sub" "sb_previous sub = Some (pg_state pg)"
      using enc by (auto simp: m_def cursor_def base_def changed_def)
    moreover have "sb_history sub = Some (pg_history pg)"
      using hist n calculation(3) by (simp add: reset_def)
    ultimately have "in_step sub' vw vw'" using st by (simp add: sub' in_step_def)
    then show ?thesis using False ob ob' sub2 by simp
  next
    case True
    have "vw_history vw = vw_history vw'" "vw_state vw = vw_state vw'"
      using st' unfolding same_view_def by blast+
    note meta = this [symmetric]
    have fields: "bt_reset b' = bt_reset b" "bt_history b' = bt_history b" "bt_state b' = bt_state b"
      "bt_more b' = bt_more b" "bt_events b' = map event_value (pg_events pg)" by (simp_all add: b'_def)
    have same: "client_reset b' vw' = client_reset b vw"
      by (simp only: client_reset_def meta fields)
    have cl: "m = []" if "client_reset b vw"
    proof (cases "reset \<or> sb_previous sub = None")
      case True
      then show ?thesis using st' by (auto simp: m_def)
    next
      case False
      then obtain p where p: "sb_previous sub = Some p" by blast
      have "vw_history vw = Some (pg_history pg)" "vw_state vw = Some p"
        using st' p hist False by (auto simp: reset_def)
      moreover have "jat (st_run p) ''id'' = jat (st_run (pg_state pg)) ''id''"
        using same_run p False by (simp add: reset_def)
      ultimately have "\<not> client_reset b vw"
        using False by (simp add: client_reset_def b_def)
      then show ?thesis using that by simp
    qed
    define S where "S = (if client_reset b vw then ([], new_live_events) else (vw_rows vw, vw_live vw))"
    define S' where "S' = (if client_reset b vw then ([], new_live_events) else (vw_rows vw', vw_live vw'))"
    have ag: "views_agree m S S'"
      using st' cl views_agree_Nil views_agree_forget by (auto simp: S_def S'_def m_def)
    have cur: "le_cursor (snd S) \<le> base"
    proof (cases reset)
      case True
      then have "client_reset b vw" by (simp add: client_reset_def b_def)
      then show ?thesis using True by (simp add: S_def base_def new_live_events_def)
    next
      case False
      then show ?thesis using st' by (simp add: S_def base_def new_live_events_def)
    qed
    have cur2: "le_cursor (snd S) \<le> (if pg_reset pg \<or> sw then 0 else sb_cursor sub)"
      using cur by (simp add: base_def reset_def)
    obtain T T' where T: "append_events vs S = Some T" "append_events (map event_value (pg_events pg)) S' = Some T'"
      "views_agree m' T T'" "le_cursor (snd T) \<le> cursor"
      using append_all_agrees [OF po ag cur2 enc] unfolding cursor_def base_def reset_def by blast
    define w where "w = vw\<lparr>vw_rows := fst T, vw_live := snd T, vw_history := Some (pg_history pg),
      vw_state := Some (pg_state pg), vw_complete := \<not> pg_more pg\<rparr>"
    define w' where "w' = vw'\<lparr>vw_rows := fst T', vw_live := snd T', vw_history := Some (pg_history pg),
      vw_state := Some (pg_state pg), vw_complete := \<not> pg_more pg\<rparr>"
    have state: "(case bt_state b of None \<Rightarrow> vw_state vw | Some s \<Rightarrow> Some s) = Some (pg_state pg)"
      using st' by (auto simp: b_def changed_def)
    have state': "(case bt_state b of None \<Rightarrow> vw_state vw' | Some s \<Rightarrow> Some s) = Some (pg_state pg)"
      using state by (simp only: meta)
    have bf: "bt_events b = vs" "bt_history b = pg_history pg" "bt_more b = pg_more pg"
      by (simp_all add: b_def)
    have r: "receive b vw = Some w"
      using T(1) state by (cases T) (simp add: receive_def w_def bf flip: S_def)
    have r': "receive b' vw' = Some w'"
      using T(2) state' by (cases T') (simp add: receive_def w'_def same fields meta bf flip: S'_def)
    have "0 \<le> ev_id (last (pg_events pg))" if "pg_events pg \<noteq> []"
      using po last_in_set [OF that] by (auto simp: page_ok_def list_all_iff event_ok_def)
    then have "0 \<le> cursor" using st' by (simp add: cursor_def base_def)
    then have "in_step sub' w w'"
      using T st' by (simp add: in_step_def w_def w'_def sub' same_view_def views_agree_def)
    then show ?thesis using True ob ob' sub2 r r' by simp
  qed
qed


section \<open>A connection\<close>

definition reads_ok :: "(reading \<times> reading) list \<Rightarrow> bool" where
  "reads_ok reads \<longleftrightarrow> list_all (\<lambda>(sn, sn'). table_ok (sn_table sn) \<and> table_ok (sn_table sn')) reads"

definition pending_ok :: "subscription \<Rightarrow> bool" where
  "pending_ok sub \<longleftrightarrow> (case sb_pending sub of None \<Rightarrow> True
     | Some pg \<Rightarrow> page_ok (if pg_reset pg then 0 else sb_cursor sub) (pg_events pg) \<and> sb_previous sub = None)"

lemma read_page_total: "rq_before rq = None \<Longrightarrow> \<exists>pg. read_page sz sn rq = Inr pg"
  by (simp add: read_page_def Let_def split: prod.splits)

lemma read_next_total: "\<exists>pg. read_next sz sub after expected sn = Inr pg"
  by (simp add: read_next_def read_page_total)

lemma subscribe_total: "\<exists>sub. subscribe sz after expected win sn = Inr sub"
  using read_page_total [of "\<lparr>rq_after = after, rq_expected = expected, rq_window = win, rq_before = None\<rparr>" sz sn]
  by (auto simp: subscribe_def)

lemma pages_of_poll:
  assumes st: "in_step sub vw vw'" and pend: "pending_ok sub"
    and ok: "table_ok (sn_table sn)" "table_ok (sn_table sn')"
  obtains pg sw where "\<And>enc m. poll enc sz sn sn' (sub\<lparr>sb_deltas := m\<rparr>) = Inr (deliver enc (sub\<lparr>sb_deltas := m\<rparr>) pg sw)"
    and "page_ok (if pg_reset pg \<or> sw then 0 else sb_cursor sub) (pg_events pg)"
    and "sb_previous sub \<noteq> None \<Longrightarrow> \<not> (pg_reset pg \<or> sw) \<Longrightarrow> sb_history sub = Some (pg_history pg)"
    and "\<And>p. sb_previous sub = Some p \<Longrightarrow> \<not> sw \<Longrightarrow> jat (st_run p) ''id'' = jat (st_run (pg_state pg)) ''id''"
proof -
  obtain pg0 where first: "(case sb_pending sub of Some first \<Rightarrow> Inr first
      | None \<Rightarrow> read_next sz sub (sb_cursor sub) (sb_history sub) sn) = Inr pg0"
    using read_next_total [of sz sub "sb_cursor sub" "sb_history sub" sn] by (cases "sb_pending sub") auto
  have po: "page_ok (if pg_reset pg0 then 0 else sb_cursor sub) (pg_events pg0)"
    and hist: "sb_previous sub \<noteq> None \<Longrightarrow> \<not> pg_reset pg0 \<Longrightarrow> sb_history sub = Some (pg_history pg0)"
  proof -
    show "page_ok (if pg_reset pg0 then 0 else sb_cursor sub) (pg_events pg0)"
    proof (cases "sb_pending sub")
      case None
      then show ?thesis
        using first read_page_next(1) [OF ok(1), of sz _ pg0] unfolding read_next_def by fastforce
    next
      case (Some q)
      then show ?thesis using first pend by (simp add: pending_ok_def)
    qed
    show "sb_history sub = Some (pg_history pg0)" if pv: "sb_previous sub \<noteq> None" and nr: "\<not> pg_reset pg0"
    proof -
      obtain h where h: "sb_pending sub = None" "sb_history sub = Some h" using st pv by (auto simp: in_step_def)
      then have "read_next sz sub (sb_cursor sub) (Some h) sn = Inr pg0" using first by simp
      then have "pg_reset pg0 \<or> pg_history pg0 = h"
        using read_page_next(2) [OF ok(1)] unfolding read_next_def by fastforce
      then show ?thesis using nr h by simp
    qed
  qed
  have other: "read_next sz (sub\<lparr>sb_deltas := m\<rparr>) a x q = read_next sz sub a x q"
    "run_switched (sub\<lparr>sb_deltas := m\<rparr>) pg = run_switched sub pg" for m a x q pg
    by (simp_all add: read_next_def run_switched_def)
  have first': "(case sb_pending (sub\<lparr>sb_deltas := m\<rparr>) of Some first \<Rightarrow> Inr first
      | None \<Rightarrow> read_next sz sub (sb_cursor (sub\<lparr>sb_deltas := m\<rparr>))
          (sb_history (sub\<lparr>sb_deltas := m\<rparr>)) sn) = Inr pg0" for m
    using first by (cases "sb_pending sub") (simp_all add: other)
  show thesis
  proof (cases "run_switched sub pg0")
    case True
    obtain pg' where second: "read_next sz sub 0 None sn' = Inr pg'" using read_next_total by blast
    have "page_ok 0 (pg_events pg')"
      using read_page_next(1) [OF ok(2), of sz _ pg'] second unfolding read_next_def by (fastforce split: if_splits)
    moreover have "poll enc sz sn sn' (sub\<lparr>sb_deltas := m\<rparr>) = Inr (deliver enc (sub\<lparr>sb_deltas := m\<rparr>) pg' True)"
      for enc m
      by (simp only: poll_def first' rbind_simps other second True if_True)
    ultimately show thesis using that [of pg' True] by simp
  next
    case False
    have "poll enc sz sn sn' (sub\<lparr>sb_deltas := m\<rparr>) = Inr (deliver enc (sub\<lparr>sb_deltas := m\<rparr>) pg0 False)"
      for enc m
      by (simp only: poll_def first' rbind_simps other False if_False)
    moreover have "jat (st_run p) ''id'' = jat (st_run (pg_state pg0)) ''id''" if "sb_previous sub = Some p" for p
      using False that by (simp add: run_switched_def)
    ultimately show thesis using that [of pg0 False] po hist by simp
  qed
qed

lemma follow_agrees:
  assumes "in_step sub vw vw'" "pending_ok sub" "reads_ok reads"
  shows "\<exists>s w s' w'. follow encode sz reads (sub, vw) = Some (s, w) \<and>
    follow whole_events sz reads (sub\<lparr>sb_deltas := []\<rparr>, vw') = Some (s', w') \<and> in_step s w w'"
  using assms
proof (induction reads arbitrary: sub vw vw')
  case Nil
  then show ?case by auto
next
  case (Cons r reads)
  obtain sn sn' where r: "r = (sn, sn')" by force
  have ok: "table_ok (sn_table sn)" "table_ok (sn_table sn')" and oks: "reads_ok reads"
    using Cons.prems(3) by (simp_all add: reads_ok_def r)
  obtain pg sw where p: "\<And>enc m. poll enc sz sn sn' (sub\<lparr>sb_deltas := m\<rparr>) = Inr (deliver enc (sub\<lparr>sb_deltas := m\<rparr>) pg sw)"
    and po: "page_ok (if pg_reset pg \<or> sw then 0 else sb_cursor sub) (pg_events pg)"
    and h: "sb_previous sub \<noteq> None \<Longrightarrow> \<not> (pg_reset pg \<or> sw) \<Longrightarrow> sb_history sub = Some (pg_history pg)"
    and i: "\<And>p. sb_previous sub = Some p \<Longrightarrow> \<not> sw \<Longrightarrow> jat (st_run p) ''id'' = jat (st_run (pg_state pg)) ''id''"
    using pages_of_poll [OF Cons.prems(1,2) ok, of sz thesis] by blast
  obtain ob sub' where d: "deliver encode sub pg sw = (ob, sub')" by force
  obtain ob' sub2 where d': "deliver whole_events (sub\<lparr>sb_deltas := []\<rparr>) pg sw = (ob', sub2)" by force
  have p1: "poll encode sz sn sn' sub = Inr (ob, sub')" using p [of encode "sb_deltas sub"] d by simp
  have p2: "poll whole_events sz sn sn' (sub\<lparr>sb_deltas := []\<rparr>) = Inr (ob', sub2)" using p [of whole_events "[]"] d' by simp
  have pn: "pending_ok sub'" using d by (auto simp: deliver_def Let_def pending_ok_def split: prod.splits)
  note ag = deliver_agrees [OF Cons.prems(1) po h i d d']
  show ?case
  proof (cases ob)
    case None
    then show ?thesis using ag Cons.IH [OF _ pn oks] p1 p2 by (auto simp: r)
  next
    case (Some b)
    then obtain b' w w' where b: "ob' = Some b'" "receive b vw = Some w" "receive b' vw' = Some w'" "in_step sub' w w'"
      using ag by auto
    then show ?thesis using ag Cons.IH [OF b(4) pn oks] p1 p2 Some by (auto simp: r)
  qed
qed


section \<open>Equivalence with complete snapshots\<close>

lemma indexed_Nil [simp]: "indexed rows []"
  by (simp add: indexed_def)

lemma restore_indexed:
  "indexed pre ms \<Longrightarrow> indexed (pre @ vs) (restore_messages vs (length pre) ms)"
proof (induction vs arbitrary: pre ms)
  case (Cons v vs)
  have "indexed pre (after_turn v ms)" using Cons.prems by (simp add: after_turn_def)
  then have "indexed (pre @ [v]) (case message_id v of None \<Rightarrow> after_turn v ms
      | Some m \<Rightarrow> hm_insert m (length pre) (after_turn v ms))"
    by (auto simp: indexed_append indexed_new split: option.splits)
  from Cons.IH [OF this] show ?case by simp
qed simp

lemma restored_in_step:
  assumes "0 \<le> after" "subscribe sz after h win sn = Inr sub" "vw = restored_viewer rows after h st"
  shows "in_step sub vw vw"
  using assms restore_indexed [of "[]" "[]" rows]
  by (auto simp: in_step_def same_view_def views_agree_def restored_viewer_def restore_rows_def remembered_def
      subscribe_def rbind_Inr_iff list.rel_refl)


section \<open>An example\<close>

definition demo_message :: "int \<Rightarrow> string \<Rightarrow> event" where
  "demo_message n t = \<lparr>ev_id = n, ev_run = ''r'', ev_created = n, ev_kind = ''item.updated'', ev_text = t,
     ev_payload = Some (JObj [(''item'', JObj [(''id'', JStr ''m''), (''text'', JStr t),
                                               (''type'', JStr ''agent_message'')])])\<rparr>"

definition demo_reading :: "event list \<Rightarrow> reading" where
  "demo_reading es = \<lparr>sn_state = \<lparr>st_run = JObj [(''id'', JStr ''r'')], st_meta = JNull\<rparr>, sn_table = es\<rparr>"

definition demo_first :: reading where
  "demo_first = demo_reading [demo_message 1 ''He'']"

definition demo_second :: reading where
  "demo_second = demo_reading [demo_message 1 ''He'', demo_message 2 ''Hello'']"

definition demo_viewer :: viewer where
  "demo_viewer = restored_viewer [] 0 None None"

text \<open>The second snapshot of the message is sent as what it gained.\<close>

lemma demo_delta_sent:
  "map (\<lambda>v. jat (item_of v) ''delta'') (fst (encode [] (sn_table demo_second) True)) = [JNull, JStr ''llo'']"
  by code_simp


end
