(* ===== verification/Run_Doc.thy ===== *)
theory Run_Doc
  imports Json_Objects
begin

text \<open>
  The documents of a run: its status (\<open>run_status.rs\<close>), the classification of agent failures and the
  plan of a retry (\<open>run_retry.rs\<close>), and the restart checkpoint with its lenient and nullable fields
  (\<open>worker/checkpoint.rs\<close>). The documents are JSON objects that other modules patch, so the
  operations here read and merge JSON.
\<close>

section \<open>Optional values\<close>

definition nullable :: "('a \<Rightarrow> json) \<Rightarrow> 'a option \<Rightarrow> json" where
  "nullable f x = (case x of None \<Rightarrow> JNull | Some a \<Rightarrow> f a)"

section \<open>Status of a run\<close>

datatype run_status = Queued | Running | Succeeded | Failed | Cancelled | Interrupted

fun status_str :: "run_status \<Rightarrow> string" where
  "status_str Queued = ''queued''"
| "status_str Running = ''running''"
| "status_str Succeeded = ''succeeded''"
| "status_str Failed = ''failed''"
| "status_str Cancelled = ''cancelled''"
| "status_str Interrupted = ''interrupted''"

definition status_parse :: "string \<Rightarrow> run_status option" where
  "status_parse s =
     (if s = ''queued'' then Some Queued
      else if s = ''running'' then Some Running
      else if s = ''succeeded'' then Some Succeeded
      else if s = ''failed'' then Some Failed
      else if s = ''cancelled'' then Some Cancelled
      else if s = ''interrupted'' then Some Interrupted
      else None)"

definition status_value :: "run_status \<Rightarrow> json" where
  "status_value st = JStr (status_str st)"

definition status_of :: "json \<Rightarrow> run_status option" where
  "status_of run = Option.bind (as_str (jat run ''status'')) status_parse"

fun status_active :: "run_status \<Rightarrow> bool" where
  "status_active Queued = True"
| "status_active Running = True"
| "status_active _ = False"

fun status_resumable :: "run_status \<Rightarrow> bool" where
  "status_resumable Failed = True"
| "status_resumable Interrupted = True"
| "status_resumable Cancelled = True"
| "status_resumable _ = False"

definition run_active :: "json \<Rightarrow> bool" where
  "run_active run = (case status_of run of None \<Rightarrow> False | Some st \<Rightarrow> status_active st)"

section \<open>Causes of a failure\<close>

datatype failure_kind = Connection_Failure | Timeout_Failure | Rate_Limit_Failure | Server_Failure

fun kind_str :: "failure_kind \<Rightarrow> string" where
  "kind_str Connection_Failure = ''connection''"
| "kind_str Timeout_Failure = ''timeout''"
| "kind_str Rate_Limit_Failure = ''rate-limit''"
| "kind_str Server_Failure = ''server''"

definition kind_parse :: "string \<Rightarrow> failure_kind option" where
  "kind_parse s =
     (if s = ''connection'' then Some Connection_Failure
      else if s = ''timeout'' then Some Timeout_Failure
      else if s = ''rate-limit'' then Some Rate_Limit_Failure
      else if s = ''server'' then Some Server_Failure
      else None)"

record cause =
  ca_kind :: failure_kind
  ca_message :: string

definition terminal_codes :: "string list" where
  "terminal_codes =
     [''authentication_error'', ''permission_denied'', ''invalid_request'', ''context_length_exceeded'',
      ''session_budget_exceeded'', ''usage_limit_reached'', ''usage_limit_exceeded'', ''usageLimitExceeded'',
      ''credit_balance_exhausted'', ''project_spend_limit_exceeded'', ''organization_spend_limit_exceeded'',
      ''organization_usage_limit_exceeded'', ''sandbox_error'', ''sandboxError'', ''authenticationError'',
      ''permissionDenied'', ''invalidRequest'', ''executor_version_incompatible'', ''cancelled'',
      ''interrupted'', ''turnCancelled'', ''contextWindowExceeded'']"

definition kind_of_code :: "string \<Rightarrow> failure_kind option" where
  "kind_of_code c =
     (if c \<in> set [''connection_failed'', ''httpConnectionFailed'', ''responseStreamConnectionFailed'',
          ''responseStreamDisconnected''] then Some Connection_Failure
      else if c \<in> set [''request_timeout'', ''requestTimeout''] then Some Timeout_Failure
      else if c \<in> set [''rate_limit_exceeded'', ''rateLimitExceeded''] then Some Rate_Limit_Failure
      else if c \<in> set [''server_error'', ''internal_error'', ''server_overloaded'', ''server_is_overloaded'',
          ''service_unavailable_error'', ''internalServerError''] then Some Server_Failure
      else None)"

definition kind_of_status :: "nat \<Rightarrow> failure_kind option" where
  "kind_of_status n =
     (if n = 408 \<or> n = 504 then Some Timeout_Failure
      else if n = 429 then Some Rate_Limit_Failure
      else if n = 500 \<or> n = 502 \<or> n = 503 then Some Server_Failure
      else None)"

definition or_else :: "'a option \<Rightarrow> 'a option \<Rightarrow> 'a option" where
  "or_else a b = (case a of None \<Rightarrow> b | Some _ \<Rightarrow> a)"

definition trim :: "string \<Rightarrow> string" where
  "trim s = (let blank = (\<lambda>c. is_whitespace c \<or> code c = 11)
             in rev (dropWhile blank (rev (dropWhile blank s))))"

definition eq_ignore_case :: "string \<Rightarrow> string \<Rightarrow> bool" where
  "eq_ignore_case a b = (map to_upper a = map to_upper b)"

text \<open>A code of \<open>codexErrorInfo\<close> is a string, or the first member of an object with its details.\<close>

definition error_info :: "json \<Rightarrow> string \<times> json" where
  "error_info info =
     (case info of JStr c \<Rightarrow> (c, JNull) | JObj ((k, d) # _) \<Rightarrow> (k, d) | _ \<Rightarrow> ([], JNull))"

definition classify :: "json \<Rightarrow> cause option" where
  "classify err =
     (let c = text_of err ''code'';
          (info_code, details) = error_info (jat err ''codexErrorInfo'');
          status = or_else (as_u64 (jat err ''httpStatusCode'')) (as_u64 (jat details ''httpStatusCode''))
      in if (case status of None \<Rightarrow> False | Some n \<Rightarrow> 400 \<le> n \<and> n < 500 \<and> n \<noteq> 408 \<and> n \<noteq> 429) then None
         else if c \<in> set terminal_codes \<or> info_code \<in> set terminal_codes then None
         else
           case or_else (or_else (kind_of_code c) (kind_of_code info_code))
                  (or_else (Option.bind status kind_of_status)
                    (if c = [] \<and> info_code = [] \<and>
                        eq_ignore_case (trim (text_of err ''message'')) ''workspace routing discovery timed out''
                     then Some Timeout_Failure else None)) of
             None \<Rightarrow> None
           | Some k \<Rightarrow> Some \<lparr>ca_kind = k,
               ca_message = (case as_str (jat err ''message'') of None \<Rightarrow> ''Temporary agent failure.'' | Some t \<Rightarrow> t)\<rparr>)"

definition cause_value :: "cause \<Rightarrow> json" where
  "cause_value ca = JObj [(''kind'', JStr (kind_str (ca_kind ca))), (''message'', JStr (ca_message ca))]"

text \<open>
  Derived readers: an object with the fields, or an array with exactly one element per field.
\<close>

definition fields_of :: "string list \<Rightarrow> json \<Rightarrow> json" where
  "fields_of names v =
     (case v of JArr xs \<Rightarrow> if length xs = length names then JObj (zip names xs) else JNull | _ \<Rightarrow> v)"

definition cause_read :: "json \<Rightarrow> cause option" where
  "cause_read v0 =
     (let v = fields_of [''kind'', ''message''] v0
      in Option.bind (as_str (jat v ''kind'')) (\<lambda>k. Option.bind (kind_parse k)
           (\<lambda>kind. map_option (\<lambda>t. \<lparr>ca_kind = kind, ca_message = t\<rparr>) (as_str (jat v ''message'')))))"

section \<open>Retries\<close>

definition MAX_ATTEMPTS :: nat where
  "MAX_ATTEMPTS = 3"

record retry =
  rt_attempt :: nat
  rt_limit :: nat
  rt_next_attempt_at :: "int option"
  rt_cause :: cause

definition retry_value :: "retry \<Rightarrow> json" where
  "retry_value r = JObj
     [(''attempt'', JNum (int (rt_attempt r))), (''cause'', cause_value (rt_cause r)),
      (''limit'', JNum (int (rt_limit r))), (''nextAttemptAt'', nullable JNum (rt_next_attempt_at r))]"

definition saturating_add_i64 :: "int \<Rightarrow> int \<Rightarrow> int" where
  "saturating_add_i64 a b = max (- (2 ^ 63)) (min i64_max (a + b))"

definition retry_base_ms :: "nat \<Rightarrow> int" where
  "retry_base_ms attempt = 30000 * 2 ^ attempt"

definition previous_attempt :: "json option \<Rightarrow> nat" where
  "previous_attempt previous =
     (case Option.bind previous (\<lambda>r. as_u64 (jat r ''attempt'')) of None \<Rightarrow> 0 | Some n \<Rightarrow> n)"

text \<open>\<open>Retry::next\<close>; \<open>jitter\<close> is the random number drawn from \<open>0 ..= base / 5\<close>.\<close>

definition retry_next :: "json option \<Rightarrow> cause \<Rightarrow> int \<Rightarrow> int \<Rightarrow> retry option" where
  "retry_next previous ca at jitter =
     (let attempt = previous_attempt previous
      in if MAX_ATTEMPTS \<le> attempt then None
         else Some \<lparr>rt_attempt = attempt + 1, rt_limit = MAX_ATTEMPTS,
                    rt_next_attempt_at = Some (saturating_add_i64 at (retry_base_ms attempt + jitter)),
                    rt_cause = ca\<rparr>)"

definition retry_waiting :: "json \<Rightarrow> int \<Rightarrow> bool" where
  "retry_waiting run at =
     (case as_i64 (jat (jat run ''retry'') ''nextAttemptAt'') of None \<Rightarrow> False | Some next \<Rightarrow> at < next)"

section \<open>Settled outcomes\<close>

record settled =
  se_status :: run_status
  se_summary :: "string option"
  se_error :: "string option"
  se_finished_at :: "int option"

definition settled_failure :: "run_status \<Rightarrow> string \<Rightarrow> int \<Rightarrow> settled" where
  "settled_failure st summary at =
     \<lparr>se_status = st, se_summary = Some summary, se_error = Some summary, se_finished_at = Some at\<rparr>"

definition settled_from_run :: "json \<Rightarrow> settled option" where
  "settled_from_run run =
     map_option (\<lambda>st. \<lparr>se_status = st, se_summary = as_str (jat run ''summary''), se_error = None,
                       se_finished_at = as_i64 (jat run ''finishedAt'')\<rparr>) (status_of run)"

definition settled_value :: "settled \<Rightarrow> json" where
  "settled_value se = JObj
     ((case se_error se of None \<Rightarrow> [] | Some e \<Rightarrow> [(''error'', JStr e)]) @
      [(''finishedAt'', nullable JNum (se_finished_at se)), (''status'', status_value (se_status se)),
       (''summary'', nullable JStr (se_summary se))])"

definition settled_patch :: "settled \<Rightarrow> json" where
  "settled_patch se = merge (settled_value se)
     (JObj ([(''accountWaitReason'', JNull), (''recoveryPending'', JBool False)] @
            (if se_status se = Cancelled then [(''retry'', JNull)] else [])))"

text \<open>An optional field: absent and null are \<open>None\<close>, another type is an error.\<close>

definition opt_field :: "(json \<Rightarrow> 'a option) \<Rightarrow> json \<Rightarrow> string \<Rightarrow> 'a option option" where
  "opt_field f v k = (case jat v k of JNull \<Rightarrow> Some None | x \<Rightarrow> map_option Some (f x))"

definition settled_read :: "json \<Rightarrow> settled option" where
  "settled_read v0 =
     (let v = fields_of [''status'', ''summary'', ''error'', ''finishedAt''] v0
      in Option.bind (as_str (jat v ''status'')) (\<lambda>s. Option.bind (status_parse s)
         (\<lambda>st. Option.bind (opt_field as_str v ''summary'') (\<lambda>su. Option.bind (opt_field as_str v ''error'')
         (\<lambda>er. map_option (\<lambda>fi. \<lparr>se_status = st, se_summary = su, se_error = er, se_finished_at = fi\<rparr>)
                 (opt_field as_i64 v ''finishedAt''))))))"

section \<open>Restart checkpoint\<close>

record process_identity =
  pi_pid :: nat
  pi_start :: string
  pi_boot :: string

definition process_value :: "process_identity \<Rightarrow> json" where
  "process_value p = JObj [(''boot'', JStr (pi_boot p)), (''pid'', JNum (int (pi_pid p))), (''start'', JStr (pi_start p))]"

definition process_read :: "json \<Rightarrow> process_identity option" where
  "process_read v0 =
     (let v = fields_of [''pid'', ''start'', ''boot''] v0
      in Option.bind (as_u64 (jat v ''pid'')) (\<lambda>pid. Option.bind (as_str (jat v ''start''))
         (\<lambda>st. map_option (\<lambda>b. \<lparr>pi_pid = pid, pi_start = st, pi_boot = b\<rparr>) (as_str (jat v ''boot'')))))"

text \<open>
  A \<open>Nullable\<close> field is absent, null or set; the other optional fields are absent or set. \<open>cp_extra\<close>
  holds the members other modules keep in the same document.
\<close>

record run_checkpoint =
  cp_launched :: "bool option"
  cp_start_rejected :: "bool option"
  cp_remaining_ms :: "int option option"
  cp_generation :: "string option"
  cp_prepared :: "json option option"
  cp_runner_id :: "string option option"
  cp_node_id :: "string option option"
  cp_runtime_id :: "json option option"
  cp_process :: "process_identity option option"
  cp_completed :: "bool option"
  cp_last_error :: "string option option"
  cp_retry_cause :: "cause option option"
  cp_last_message :: "string option"
  cp_controller_recoveries :: "nat option"
  cp_settled :: "settled option option"
  cp_extra :: "(string \<times> json) list"

definition checkpoint_default :: run_checkpoint where
  "checkpoint_default =
     \<lparr>cp_launched = None, cp_start_rejected = None, cp_remaining_ms = None, cp_generation = None,
      cp_prepared = None, cp_runner_id = None, cp_node_id = None, cp_runtime_id = None, cp_process = None,
      cp_completed = None, cp_last_error = None, cp_retry_cause = None, cp_last_message = None,
      cp_controller_recoveries = None, cp_settled = None, cp_extra = []\<rparr>"

definition checkpoint_fresh :: "int option \<Rightarrow> run_checkpoint" where
  "checkpoint_fresh budget_ms =
     checkpoint_default\<lparr>cp_launched := Some False, cp_remaining_ms := Some budget_ms\<rparr>"

definition checkpoint_exhausted :: run_checkpoint where
  "checkpoint_exhausted = checkpoint_default\<lparr>cp_remaining_ms := Some (Some 0)\<rparr>"

definition lenient_read :: "(json \<Rightarrow> 'a option) \<Rightarrow> json \<Rightarrow> string \<Rightarrow> 'a option" where
  "lenient_read f v k = Option.bind (jget v k) f"

definition nullable_read :: "(json \<Rightarrow> 'a option) \<Rightarrow> json \<Rightarrow> string \<Rightarrow> 'a option option" where
  "nullable_read f v k =
     (case jget v k of None \<Rightarrow> None | Some JNull \<Rightarrow> Some None | Some x \<Rightarrow> map_option Some (f x))"

fun as_bool :: "json \<Rightarrow> bool option" where
  "as_bool (JBool b) = Some b"
| "as_bool _ = None"

definition checkpoint_keys :: "string list" where
  "checkpoint_keys =
     [''launched'', ''startRejected'', ''remainingMs'', ''generation'', ''prepared'', ''runnerId'', ''nodeId'',
      ''runtimeId'', ''process'', ''completed'', ''lastError'', ''retryCause'', ''lastMessage'',
      ''controllerRecoveries'', ''settled'']"

definition checkpoint_read :: "json \<Rightarrow> (svc_error, run_checkpoint) result" where
  "checkpoint_read v =
     (case v of
        JObj ms \<Rightarrow> Inr
          \<lparr>cp_launched = lenient_read as_bool v ''launched'',
           cp_start_rejected = lenient_read as_bool v ''startRejected'',
           cp_remaining_ms = nullable_read as_i64 v ''remainingMs'',
           cp_generation = lenient_read as_str v ''generation'',
           cp_prepared = nullable_read Some v ''prepared'',
           cp_runner_id = nullable_read as_str v ''runnerId'',
           cp_node_id = nullable_read as_str v ''nodeId'',
           cp_runtime_id = nullable_read Some v ''runtimeId'',
           cp_process = nullable_read process_read v ''process'',
           cp_completed = lenient_read as_bool v ''completed'',
           cp_last_error = nullable_read as_str v ''lastError'',
           cp_retry_cause = nullable_read cause_read v ''retryCause'',
           cp_last_message = lenient_read as_str v ''lastMessage'',
           cp_controller_recoveries = lenient_read as_u64 v ''controllerRecoveries'',
           cp_settled = nullable_read settled_read v ''settled'',
           cp_extra = filter (\<lambda>(k, _). k \<notin> set checkpoint_keys) ms\<rparr>
      | _ \<Rightarrow> Inl (Internal ''invalid type''))"

text \<open>Members that are written when they are present.\<close>

definition present :: "(string \<times> json option) list \<Rightarrow> (string \<times> json) list" where
  "present ps = List.map_filter (\<lambda>(k, v). map_option (Pair k) v) ps"

definition checkpoint_members :: "run_checkpoint \<Rightarrow> (string \<times> json option) list" where
  "checkpoint_members c =
     [(''launched'', map_option JBool (cp_launched c)),
      (''startRejected'', map_option JBool (cp_start_rejected c)),
      (''remainingMs'', map_option (nullable JNum) (cp_remaining_ms c)),
      (''generation'', map_option JStr (cp_generation c)),
      (''prepared'', map_option (nullable (\<lambda>v. v)) (cp_prepared c)),
      (''runnerId'', map_option (nullable JStr) (cp_runner_id c)),
      (''nodeId'', map_option (nullable JStr) (cp_node_id c)),
      (''runtimeId'', map_option (nullable (\<lambda>v. v)) (cp_runtime_id c)),
      (''process'', map_option (nullable process_value) (cp_process c)),
      (''completed'', map_option JBool (cp_completed c)),
      (''lastError'', map_option (nullable JStr) (cp_last_error c)),
      (''retryCause'', map_option (nullable cause_value) (cp_retry_cause c)),
      (''lastMessage'', map_option JStr (cp_last_message c)),
      (''controllerRecoveries'', map_option (\<lambda>n. JNum (int n)) (cp_controller_recoveries c)),
      (''settled'', map_option (nullable settled_value) (cp_settled c))]"

definition checkpoint_value :: "run_checkpoint \<Rightarrow> json" where
  "checkpoint_value c = merge (JObj (cp_extra c)) (JObj (present (checkpoint_members c)))"

text \<open>Accessors.\<close>

definition cp_is_launched :: "run_checkpoint \<Rightarrow> bool" where
  "cp_is_launched c \<longleftrightarrow> cp_launched c = Some True"

definition cp_is_completed :: "run_checkpoint \<Rightarrow> bool" where
  "cp_is_completed c \<longleftrightarrow> cp_completed c = Some True"

definition cp_prepared_object :: "run_checkpoint \<Rightarrow> json option" where
  "cp_prepared_object c =
     Option.bind (cp_prepared c) (\<lambda>p. Option.bind p (\<lambda>v. if is_object v then Some v else None))"

definition cp_isolated :: "run_checkpoint \<Rightarrow> bool" where
  "cp_isolated c = (case cp_prepared_object c of None \<Rightarrow> False | Some p \<Rightarrow> jat p ''isolated'' = JBool True)"

definition cp_firecracker :: "run_checkpoint \<Rightarrow> bool" where
  "cp_firecracker c = (case cp_prepared_object c of None \<Rightarrow> False | Some p \<Rightarrow> jat p ''backend'' = JStr ''firecracker'')"

definition flat :: "'a option option \<Rightarrow> 'a option" where
  "flat x = Option.bind x (\<lambda>y. y)"

definition cp_deadline :: "run_checkpoint \<Rightarrow> int \<Rightarrow> int option" where
  "cp_deadline c at =
     (case cp_remaining_ms c of Some None \<Rightarrow> None | Some (Some remaining) \<Rightarrow> Some (at + remaining) | None \<Rightarrow> Some at)"

definition budget_ms :: "json \<Rightarrow> int option" where
  "budget_ms agent =
     (case as_i64 (jat agent ''timeoutMinutes'') of
        None \<Rightarrow> None | Some minutes \<Rightarrow> if 0 < minutes then Some (minutes * 60000) else None)"


section \<open>What is written is read back\<close>

lemma status_roundtrip [simp]: "status_parse (status_str st) = Some st"
  by (cases st) (simp_all add: status_parse_def)

lemma kind_roundtrip [simp]: "kind_parse (kind_str k) = Some k"
  by (cases k) (simp_all add: kind_parse_def)

lemma cause_roundtrip [simp]: "cause_read (cause_value ca) = Some ca"
  by (simp add: cause_read_def cause_value_def fields_of_def jat_def)

definition i64_ok :: "int \<Rightarrow> bool" where
  "i64_ok n \<longleftrightarrow> - (2 ^ 63) \<le> n \<and> n \<le> i64_max"

definition u64_ok :: "nat \<Rightarrow> bool" where
  "u64_ok n \<longleftrightarrow> n < 2 ^ 64"

lemma as_i64_JNum: "i64_ok n \<Longrightarrow> as_i64 (JNum n) = Some n"
  by (simp add: i64_ok_def)

lemma as_u64_JNum: "u64_ok n \<Longrightarrow> as_u64 (JNum (int n)) = Some n"
  by (simp add: u64_ok_def)

lemma process_roundtrip: "u64_ok (pi_pid p) \<Longrightarrow> process_read (process_value p) = Some p"
  by (simp add: process_read_def process_value_def fields_of_def jat_def as_u64_JNum del: as_u64.simps)

lemma settled_roundtrip:
  assumes "pred_option i64_ok (se_finished_at se)"
  shows "settled_read (settled_value se) = Some se"
  using assms
  by (cases "se_error se"; cases "se_summary se"; cases "se_finished_at se")
    (simp_all add: settled_read_def settled_value_def fields_of_def jat_def opt_field_def nullable_def
      status_value_def as_i64_JNum del: as_i64.simps)

lemma not_null [simp]: "process_value p \<noteq> JNull" "cause_value ca \<noteq> JNull" "settled_value se \<noteq> JNull"
  by (simp_all add: process_value_def cause_value_def settled_value_def)

lemma present_keys: "set (map fst (present ps)) \<subseteq> set (map fst ps)"
  by (induction ps) (auto simp: present_def map_filter_simps split: option.splits)

lemma distinct_present: "distinct (map fst ps) \<Longrightarrow> distinct (map fst (present ps))"
proof (induction ps)
  case (Cons p ps)
  then show ?case
    using present_keys [of ps] by (cases p) (auto simp: present_def map_filter_simps split: option.splits)
qed (simp add: present_def map_filter_simps)

lemma map_of_present:
  "distinct (map fst ps) \<Longrightarrow> map_of (present ps) k = Option.bind (map_of ps k) (\<lambda>v. v)"
proof (induction ps)
  case (Cons p ps)
  obtain a v where p: "p = (a, v)" by force
  have "map_of (present ps) a = None"
    using Cons.prems present_keys [of ps] by (auto simp: map_of_eq_None_iff p)
  with Cons show ?case by (auto simp: p present_def map_filter_simps split: option.splits)
qed (simp add: present_def map_filter_simps)

definition checkpoint_ok :: "run_checkpoint \<Rightarrow> bool" where
  "checkpoint_ok c \<longleftrightarrow>
     sorted_wrt (<) (map fst (cp_extra c)) \<and> list_all (\<lambda>(k, _). k \<notin> set checkpoint_keys) (cp_extra c) \<and>
     pred_option i64_ok (flat (cp_remaining_ms c)) \<and> cp_prepared c \<noteq> Some (Some JNull) \<and>
     cp_runtime_id c \<noteq> Some (Some JNull) \<and> pred_option (\<lambda>p. u64_ok (pi_pid p)) (flat (cp_process c)) \<and>
     pred_option u64_ok (cp_controller_recoveries c) \<and>
     pred_option (\<lambda>se. pred_option i64_ok (se_finished_at se)) (flat (cp_settled c))"

lemma checkpoint_member_keys: "map fst (checkpoint_members c) = checkpoint_keys"
  by (simp add: checkpoint_members_def checkpoint_keys_def)

lemma distinct_checkpoint_keys: "distinct checkpoint_keys"
  by (simp add: checkpoint_keys_def)

lemma jget_checkpoint:
  assumes "list_all (\<lambda>(k, _). k \<notin> set checkpoint_keys) (cp_extra c)" "map_of (checkpoint_members c) k = Some v"
  shows "jget (checkpoint_value c) k = v"
proof -
  have d: "distinct (map fst (checkpoint_members c))"
    by (simp only: checkpoint_member_keys distinct_checkpoint_keys)
  have "k \<in> set checkpoint_keys"
    using assms(2) by (metis checkpoint_member_keys map_of_SomeD image_eqI fst_conv list.set_map)
  then have "map_of (cp_extra c) k = None"
    using assms(1) by (auto simp: map_of_eq_None_iff list_all_iff)
  then show ?thesis
    using assms(2) jget_merge [OF _ distinct_present [OF d], of "JObj (cp_extra c)" k]
    by (cases v) (simp_all add: checkpoint_value_def map_of_present [OF d])
qed


lemma nullable_back:
  assumes "jget v k = map_option (nullable g) x" "pred_option (\<lambda>a. f (g a) = Some a \<and> g a \<noteq> JNull) (flat x)"
  shows "nullable_read f v k = x"
proof (cases x)
  case (Some y)
  then show ?thesis using assms by (cases y) (auto simp: nullable_read_def nullable_def flat_def split: json.splits)
qed (use assms in \<open>simp add: nullable_read_def\<close>)

lemma lenient_back:
  "jget v k = map_option g x \<Longrightarrow> pred_option (\<lambda>a. f (g a) = Some a) x \<Longrightarrow> lenient_read f v k = x"
  by (cases x) (auto simp: lenient_read_def)

lemma filter_members_insert:
  "\<not> P k \<Longrightarrow> filter (\<lambda>(k', _). P k') (members_insert k v ms) = filter (\<lambda>(k', _). P k') ms"
  by (induction k v ms rule: members_insert.induct) auto

lemma filter_fold_insert:
  "list_all (\<lambda>(k, _). \<not> P k) ps \<Longrightarrow>
     filter (\<lambda>(k', _). P k') (fold (\<lambda>(k, x). members_insert k x) ps ms) = filter (\<lambda>(k', _). P k') ms"
  by (induction ps arbitrary: ms) (auto simp: filter_members_insert)

lemma present_members: "list_all (\<lambda>(k, _). k \<in> set checkpoint_keys) (present (checkpoint_members c))"
  using present_keys [of "checkpoint_members c"] by (fastforce simp: list_all_iff checkpoint_member_keys)

lemma checkpoint_extra:
  assumes "list_all (\<lambda>(k, _). k \<notin> set checkpoint_keys) (cp_extra c)"
  shows "filter (\<lambda>(k, _). k \<notin> set checkpoint_keys)
     (fold (\<lambda>(k, x). members_insert k x) (present (checkpoint_members c)) (cp_extra c)) = cp_extra c"
proof -
  have "list_all (\<lambda>(k, _). \<not> k \<notin> set checkpoint_keys) (present (checkpoint_members c))"
    using present_members by (simp add: list_all_iff split: prod.splits)
  from filter_fold_insert [OF this] show ?thesis
    using assms by (simp add: filter_id_conv list_all_iff)
qed

lemma pred_option_flat_Some: "pred_option P (flat (Some x)) = pred_option P x"
  by (simp add: flat_def)

text \<open>
  C15: Round trip. A restart checkpoint is read back exactly as it was written: null stays distinct from
  absent, and the members other modules keep in the document survive.
\<close>

theorem checkpoint_roundtrip:
  assumes "checkpoint_ok c"
  shows "checkpoint_read (checkpoint_value c) = Inr c"
proof -
  note ok = assms [unfolded checkpoint_ok_def]
  have ex: "list_all (\<lambda>(k, _). k \<notin> set checkpoint_keys) (cp_extra c)" using ok by blast
  define v where "v = checkpoint_value c"
  note g = jget_checkpoint [OF ex, folded v_def]
  have vo: "v = JObj (fold (\<lambda>(k, x). members_insert k x) (present (checkpoint_members c)) (cp_extra c))"
    by (simp add: v_def checkpoint_value_def merge_def)
  have a: "lenient_read as_bool v ''launched'' = cp_launched c" "lenient_read as_bool v ''startRejected'' = cp_start_rejected c"
    "lenient_read as_str v ''generation'' = cp_generation c" "lenient_read as_bool v ''completed'' = cp_completed c"
    "lenient_read as_str v ''lastMessage'' = cp_last_message c"
    by (rule lenient_back, rule g, simp add: checkpoint_members_def, simp add: option.pred_True)+
  have r: "lenient_read as_u64 v ''controllerRecoveries'' = cp_controller_recoveries c"
    by (rule lenient_back, rule g, simp add: checkpoint_members_def)
      (use ok in \<open>auto simp: as_u64_JNum option.pred_set simp del: as_u64.simps\<close>)
  have s: "nullable_read as_str v ''runnerId'' = cp_runner_id c" "nullable_read as_str v ''nodeId'' = cp_node_id c"
    "nullable_read as_str v ''lastError'' = cp_last_error c"
    by (rule nullable_back, rule g, simp add: checkpoint_members_def, simp add: option.pred_True)+
  have null: "pred_option (\<lambda>a. Some a = Some a \<and> a \<noteq> JNull) (flat x)" if "x \<noteq> Some (Some JNull)" for x :: "json option option"
    using that by (cases x; cases "the x") (auto simp: flat_def)
  have j: "nullable_read Some v ''prepared'' = cp_prepared c"
    by (rule nullable_back, rule g, simp add: checkpoint_members_def) (rule null, use ok in blast)
  have j': "nullable_read Some v ''runtimeId'' = cp_runtime_id c"
    by (rule nullable_back, rule g, simp add: checkpoint_members_def) (rule null, use ok in blast)
  have n: "nullable_read as_i64 v ''remainingMs'' = cp_remaining_ms c"
    by (rule nullable_back, rule g, simp add: checkpoint_members_def)
      (use ok in \<open>auto simp: as_i64_JNum option.pred_set simp del: as_i64.simps\<close>)
  have q: "nullable_read process_read v ''process'' = cp_process c"
    by (rule nullable_back, rule g, simp add: checkpoint_members_def)
      (use ok in \<open>auto simp: process_roundtrip option.pred_set\<close>)
  have e: "nullable_read cause_read v ''retryCause'' = cp_retry_cause c"
    by (rule nullable_back, rule g, simp add: checkpoint_members_def)
      (simp add: option.pred_True)
  have t: "nullable_read settled_read v ''settled'' = cp_settled c"
    by (rule nullable_back, rule g, simp add: checkpoint_members_def)
      (use ok in \<open>auto simp: settled_roundtrip option.pred_set\<close>)
  show ?thesis
    using checkpoint_extra [OF ex] unfolding checkpoint_read_def v_def [symmetric]
    by (subst vo) (simp add: a r s j j' n q e t)
qed


definition demo_checkpoint :: run_checkpoint where
  "demo_checkpoint = checkpoint_default\<lparr>cp_launched := Some True, cp_remaining_ms := Some None,
     cp_runner_id := Some (Some ''runner''), cp_extra := [(''movedFrom'', JStr ''node-a'')]\<rparr>"

theorem checkpoint_roundtrip_witness:
  "jget (checkpoint_value demo_checkpoint) ''remainingMs'' = Some JNull \<and>
   jget (checkpoint_value demo_checkpoint) ''completed'' = None \<and>
   checkpoint_read (checkpoint_value demo_checkpoint) = Inr demo_checkpoint"
proof -
  have "checkpoint_ok demo_checkpoint"
    by (simp add: checkpoint_ok_def demo_checkpoint_def checkpoint_default_def checkpoint_keys_def flat_def)
  from checkpoint_roundtrip [OF this] show ?thesis by (intro conjI) (code_simp, code_simp, simp)
qed

end
