(* ===== verification/Run_Worker.thy ===== *)
theory Run_Worker
  imports Run_Doc Placement
begin

text \<open>
  The worker's operations on one run: restart, cancellation, resumption and the next turn of a chat, the
  scheduling pass that fences and recovers a run before it launches it, and the execution task with
  its checkpoint, its failures and retries, its own fence and its release (\<open>worker/mod.rs\<close>,
  \<open>worker/control.rs\<close>, \<open>worker/schedule.rs\<close>, \<open>worker/launch.rs\<close>, \<open>worker/execution.rs\<close>,
  \<open>worker/retry.rs\<close>, \<open>recovery.rs\<close>, and the transactions of \<open>chats.rs\<close> and \<open>nodes/moves.rs\<close> that queue a
  run). Each definition is one transaction or one section of a task between two waits.
\<close>

section \<open>State\<close>

text \<open>
  \<open>rw_run\<close> and \<open>rw_kv\<close> are durable: the run document and the document of its checkpoint. \<open>rw_pass\<close> is the
  scheduling pass at work on the run, \<open>rw_task\<close> the task that executes it (the entry of
  \<open>Worker::active\<close>). Two components only record what happened: \<open>rw_alive\<close> the machine attempts that may
  be executing, \<open>rw_retries\<close> the automatic retries since the run was last settled or resumed.
\<close>

datatype pass_phase =
    Listed json
  | Fenced json
  | Checked json
  | Recovered json
  | Admitted json
  | Launchable json

datatype task_phase =
    Starting
  | Preparing
  | Placed
  | Spawned
  | Executing
  | Exited
  | Stopped
  | Failing svc_error
  | Fencing
  | Releasing bool
  | Broken

record worker_task =
  tk_run :: json
  tk_live :: run_checkpoint
  tk_deadline :: "int option"
  tk_cancelled :: bool
  tk_phase :: task_phase

record run_world =
  rw_run :: json
  rw_kv :: "json option"
  rw_alive :: "string list"
  rw_retries :: nat
  rw_pass :: "pass_phase option"
  rw_task :: "worker_task option"

definition patch_doc :: "(string \<times> json) list \<Rightarrow> run_world \<Rightarrow> run_world" where
  "patch_doc ps w = w\<lparr>rw_run := merge (rw_run w) (JObj ps),
     rw_retries := (if map_of ps ''retry'' = Some JNull then 0 else rw_retries w)\<rparr>"

definition store_checkpoint :: "run_checkpoint \<Rightarrow> run_world \<Rightarrow> run_world" where
  "store_checkpoint c w = w\<lparr>rw_kv := Some (checkpoint_value c)\<rparr>"

definition load_checkpoint :: "json option \<Rightarrow> (svc_error, run_checkpoint option) result" where
  "load_checkpoint kv =
     (case kv of None \<Rightarrow> Inr None | Some v \<Rightarrow> rbind (checkpoint_read v) (\<lambda>c. Inr (Some c)))"

fun error_message :: "svc_error \<Rightarrow> string" where
  "error_message (Bad m) = m"
| "error_message (Forbidden m) = m"
| "error_message (Not_Found m) = m"
| "error_message (Conflict m) = m"
| "error_message (Unavailable m) = m"
| "error_message (Internal m) = m"
| "error_message (Too_Early m) = m"

definition is_unavailable :: "svc_error \<Rightarrow> bool" where
  "is_unavailable e = (case e of Unavailable _ \<Rightarrow> True | _ \<Rightarrow> False)"

definition cancel_requested :: "json \<Rightarrow> bool" where
  "cancel_requested run \<longleftrightarrow> jat run ''cancelRequestedAt'' \<noteq> JNull"

definition recovering :: "json \<Rightarrow> bool" where
  "recovering run \<longleftrightarrow> jat run ''recoveryPending'' = JBool True"

section \<open>Restart, cancellation and resumption\<close>

definition restore_after_restart :: "int \<Rightarrow> run_world \<Rightarrow> run_world" where
  "restore_after_restart at w0 =
     (let w = w0\<lparr>rw_pass := None, rw_task := None\<rparr>; run = rw_run w
      in if \<not> run_active run then w
         else if status_of run \<noteq> Some Running
         then (if cancel_requested run then patch_doc [(''recoveryPending'', JBool True)] w else w)
         else if rw_kv w = None \<and> jat run ''startedAt'' \<noteq> JNull
         then patch_doc
           [(''status'', status_value Interrupted), (''finishedAt'', JNum at),
            (''summary'', JStr ''This older run has no restart checkpoint. Review its working files before retrying.'')] w
         else patch_doc
           [(''status'', status_value Queued), (''recoveryPending'', JBool True), (''finishedAt'', JNull),
            (''capacityWaitUntil'', JNull), (''accountWaitReason'', JStr ''Recovering after worker restart.'')] w)"

definition request_cancel :: "int \<Rightarrow> run_world \<Rightarrow> (svc_error, run_world) result" where
  "request_cancel at w =
     (let run = rw_run w; is_active = (rw_task w \<noteq> None)
      in if \<not> run_active run then Inl (Conflict ''This run has already finished.'')
         else
           let w1 = patch_doc [(''cancelRequestedAt'', JNum at)] w;
               w2 = (if \<not> is_active \<and> \<not> recovering run
                     then patch_doc
                       [(''status'', status_value Cancelled), (''finishedAt'', JNum at),
                        (''summary'', JStr ''Cancelled before execution.''), (''retry'', JNull)] w1
                     else w1)
           in Inr (w2\<lparr>rw_task := map_option (\<lambda>t. t\<lparr>tk_cancelled := True\<rparr>) (rw_task w2)\<rparr>))"

text \<open>
  \<open>Worker::resume\<close> and \<open>requeue\<close>; \<open>trashed\<close> is the refusal of a deleted conversation, \<open>refused\<close> that a chat does
  not replay cancelled work, \<open>busy\<close> that the task has another active run.
\<close>

definition requeue :: "svc_error option \<Rightarrow> bool \<Rightarrow> bool \<Rightarrow> run_world \<Rightarrow> (svc_error, run_world) result" where
  "requeue trashed refused busy w =
     (let run = rw_run w
      in if rw_task w \<noteq> None then Inl (Conflict ''Wait for this run to finish stopping before resuming.'')
         else case trashed of Some e \<Rightarrow> Inl e | None \<Rightarrow>
         if refused
         then Inl (Conflict ''Send a new message and resume the conversation queue to continue; cancelled work will not replay.'')
         else rbind (load_checkpoint (rw_kv w)) (\<lambda>checkpoint.
           let status = status_of run;
               before_launch = (is_object (jat run ''chatExecution'') \<and> (status = Some Failed \<or> status = Some Cancelled) \<and>
                 (case checkpoint of None \<Rightarrow> True | Some c \<Rightarrow> \<not> cp_is_launched c));
               resumable = ((case status of None \<Rightarrow> False | Some st \<Rightarrow> status_resumable st) \<and>
                 jat run ''resumeAvailable'' = JBool True \<and>
                 (case checkpoint of None \<Rightarrow> False | Some c \<Rightarrow> cp_prepared_object c \<noteq> None) \<and>
                 jat run ''workspaceCleanedAt'' = JNull)
           in if \<not> before_launch \<and> \<not> resumable
              then Inl (Conflict ''This run has no saved conversation available to resume.'')
              else if busy then Inl (Conflict ''This task already has an active run.'')
              else
                let w1 = (case checkpoint of None \<Rightarrow> w | Some c \<Rightarrow> store_checkpoint
                      (c\<lparr>cp_remaining_ms := Some (budget_ms (jat (jat run ''snapshot'') ''agent'')),
                         cp_completed := (if before_launch then cp_completed c else Some False),
                         cp_settled := None, cp_retry_cause := Some None\<rparr>) w)
                in Inr (patch_doc
                  [(''status'', status_value Queued), (''error'', JNull), (''outcome'', JNull),
                   (''recoveryPending'', JBool True), (''cancelRequestedAt'', JNull), (''finishedAt'', JNull),
                   (''accountWaitReason'', if before_launch then JNull else JStr ''Resuming saved conversation.''),
                   (''retry'', JNull)] w1)))"

text \<open>
  \<open>chats::continue_run\<close>, the next turn of a chat whose run has ended: \<open>covered\<close> that the agent's access was not
  reduced, \<open>dropped\<close> that the chat was cancelled by its deletion, \<open>switched\<close> that the provider changed.
\<close>

definition continue_run ::
  "bool \<Rightarrow> bool \<Rightarrow> bool \<Rightarrow> json \<Rightarrow> json \<Rightarrow> run_world \<Rightarrow> (svc_error, run_world) result"
where
  "continue_run covered dropped switched snapshot execution w =
     (if \<not> covered then Inl (Conflict ''Agent access was reduced. Start a new chat with the updated permissions.'')
      else rbind (case rw_kv w of Some v \<Rightarrow> Inr v
                  | None \<Rightarrow> if dropped then Inr (JObj []) else Inl (Conflict ''Run checkpoint not found''))
        (\<lambda>v. let fresh = (switched \<or> jat v ''freshSession'' = JBool True);
                 v1 = (if fresh
                       then obj_remove ''controllerRecoveries''
                              (obj_put ''launched'' (JBool False) (obj_put ''freshSession'' (JBool False) v))
                       else v);
                 w1 = (if fresh then patch_doc [(''sessionId'', JNull), (''resumeAvailable'', JBool False)] w else w);
                 v2 = obj_remove ''settled'' (obj_remove ''lastMessage''
                        (obj_put ''remainingMs'' (nullable JNum (budget_ms (jat snapshot ''agent'')))
                          (obj_put ''completed'' (JBool False) v1)))
             in Inr (patch_doc
                  [(''snapshot'', snapshot), (''status'', status_value Queued), (''summary'', JStr []),
                   (''error'', JNull), (''outcome'', JNull), (''finishedAt'', JNull), (''cancelRequestedAt'', JNull),
                   (''recoveryPending'', JBool True), (''chatExecution'', execution)]
                  (w1\<lparr>rw_kv := Some v2\<rparr>))))"

section \<open>Moves between nodes\<close>

definition record_request :: "json \<Rightarrow> bool \<Rightarrow> run_status \<Rightarrow> run_world \<Rightarrow> (svc_error, run_world) result" where
  "record_request movement idle expected w =
     (let run = rw_run w
      in if is_object (jat run ''moveRequest'') \<or> cancel_requested run \<or> status_of run \<noteq> Some expected \<or>
            (expected = Queued \<and> as_str (jat run ''pinnedNodeId'') \<noteq> None)
         then Inl (Conflict ''Conversation changed while reserving capacity.'')
         else Inr (patch_doc
           ([(''movementError'', JNull), (''capacityWaitUntil'', JNull), (''moveRequest'', movement),
             (''nodeState'', JStr ''pausing'')] @
            (if idle \<or> expected = Queued
             then [(''status'', status_value Queued), (''recoveryPending'', JBool True)] else [])) w))"

definition fail_transfer :: "json \<Rightarrow> string \<Rightarrow> run_world \<Rightarrow> run_world" where
  "fail_transfer movement message w =
     (let idle = (jat movement ''idle'' = JBool True); cancelled = cancel_requested (rw_run w)
      in patch_doc
        ([(''moveRequest'', JNull), (''moveReservation'', JNull), (''movementError'', JStr message)] @
         (if cancelled
          then [(''nodeState'', JNull), (''recoveryPending'', JBool False), (''status'', status_value Cancelled)]
          else [(''nodeState'', if idle then JNull else JStr ''waiting-for-node''),
                (''recoveryPending'', JBool (\<not> idle))] @
               (if idle then [(''status'', status_value Succeeded)] else []))) w)"

definition resume_at_destination :: "json \<Rightarrow> json \<Rightarrow> json \<Rightarrow> run_world \<Rightarrow> (svc_error, run_world) result" where
  "resume_at_destination movement backup tags w =
     (case rw_kv w of
        None \<Rightarrow> Inl (Conflict ''Missing resume checkpoint.'')
      | Some v \<Rightarrow>
          if cancel_requested (rw_run w) then Inl (Conflict ''Conversation cancelled during restore.'')
          else
            let idle = (jat movement ''idle'' = JBool True);
                v' = obj_put ''controllerRecoveries'' (JNum 0) (obj_put ''settled'' JNull
                       (obj_put ''process'' JNull (obj_put ''nodeId'' (jat movement ''nodeId'') v)))
            in Inr (patch_doc
                 [(''storage'', JObj [(''mode'', JStr ''on-demand'')]), (''movementError'', JNull),
                  (''accountWaitReason'', JNull), (''nodeId'', jat movement ''nodeId''),
                  (''nodeState'', if idle then JNull else JStr ''resuming''),
                  (''resources'', jat movement ''resources''), (''requiredTags'', tags), (''moveRequest'', JNull),
                  (''moveReservation'', if idle then JNull else jat movement ''reservation''),
                  (''sessionId'', jat backup ''sessionId''), (''restoredAt'', jat backup ''capturedAt''),
                  (''recoveryPending'', JBool (\<not> idle)),
                  (''status'', status_value (if idle then Succeeded else Queued))]
                 (w\<lparr>rw_kv := Some v'\<rparr>)))"

section \<open>Fencing and recovery\<close>

text \<open>
  \<open>recovery::fence\<close>; \<open>confirmed\<close> is the answer of the process and of the runner: the attempt was stopped or
  unknown, or its lease has lapsed. A machine attempt is no longer executing when it is confirmed.
\<close>

definition fence :: "json \<Rightarrow> bool \<Rightarrow> run_world \<Rightarrow> (svc_error, run_world) result" where
  "fence run confirmed w =
     rbind (load_checkpoint (rw_kv w)) (\<lambda>checkpoint.
       if \<not> confirmed then Inl (Unavailable ''Waiting for the previous VM execution lease to expire.'')
       else
         let isolated = (jat run ''isolated'' = JBool True \<or>
                         (case checkpoint of None \<Rightarrow> False | Some c \<Rightarrow> cp_isolated c));
             attempt = (case Option.bind checkpoint (\<lambda>c. flat (cp_runner_id c)) of
                          None \<Rightarrow> text_of run ''id'' | Some r \<Rightarrow> r);
             w1 = (if isolated then w\<lparr>rw_alive := removeAll attempt (rw_alive w)\<rparr> else w)
         in Inr (case checkpoint of None \<Rightarrow> w1 | Some c \<Rightarrow> store_checkpoint (c\<lparr>cp_process := None\<rparr>) w1))"

definition cancelled_recovery :: "int \<Rightarrow> (string \<times> json) list" where
  "cancelled_recovery at =
     [(''status'', status_value Cancelled), (''finishedAt'', JNum at), (''accountWaitReason'', JNull),
      (''recoveryPending'', JBool False), (''retry'', JNull)]"

definition patch_settled :: "settled \<Rightarrow> run_world \<Rightarrow> run_world" where
  "patch_settled se w = (case settled_patch se of JObj ps \<Rightarrow> patch_doc ps w | _ \<Rightarrow> w)"

text \<open>\<open>recover\<close> after its fence: whether the run may still be relaunched.\<close>

definition settle_recovery :: "int \<Rightarrow> run_world \<Rightarrow> (svc_error, bool \<times> run_world) result" where
  "settle_recovery at w =
     (if cancel_requested (rw_run w) then Inr (False, patch_doc (cancelled_recovery at) w)
      else rbind (load_checkpoint (rw_kv w)) (\<lambda>checkpoint.
        case checkpoint of
          None \<Rightarrow> Inr (True, w)
        | Some c \<Rightarrow>
            (case flat (cp_settled c) of
               Some se \<Rightarrow> Inr (False, patch_settled se w)
             | None \<Rightarrow>
                 if cp_is_completed c
                 then Inr (False, patch_doc
                   [(''status'', status_value Succeeded), (''finishedAt'', JNum at), (''resumeAvailable'', JBool False),
                    (''accountWaitReason'', JNull), (''recoveryPending'', JBool False),
                    (''summary'', JStr (case cp_last_message c of
                       None \<Rightarrow> ''Conversation completed before worker restart. See Activity for the recorded result.''
                     | Some t \<Rightarrow> if t = [] then ''Conversation completed before worker restart. See Activity for the recorded result.''
                               else t))] w)
                 else Inr (True, w))))"

definition finish_recovery :: "int \<Rightarrow> run_world \<Rightarrow> bool \<times> run_world" where
  "finish_recovery at w =
     (if cancel_requested (rw_run w) then (False, patch_doc (cancelled_recovery at) w)
      else (True, patch_doc [(''recoveryPending'', JBool False)] w))"

definition RECOVERY_WAIT_REASON :: string where
  "RECOVERY_WAIT_REASON = ''Waiting for the previous execution to stop before recovery.''"

definition recovery_waits :: "json \<Rightarrow> run_world \<Rightarrow> run_world" where
  "recovery_waits run w =
     (if jat run ''accountWaitReason'' \<noteq> JStr RECOVERY_WAIT_REASON
      then patch_doc [(''accountWaitReason'', JStr RECOVERY_WAIT_REASON)] w else w)"

definition CAPACITY_WAIT_REASON :: string where
  "CAPACITY_WAIT_REASON = ''Waiting for capacity.''"

definition report_capacity_wait :: "json \<Rightarrow> string \<Rightarrow> run_world \<Rightarrow> run_world" where
  "report_capacity_wait run detail w =
     (let reason = CAPACITY_WAIT_REASON @ '' '' @ detail
      in if text_of run ''accountWaitReason'' = reason then w
         else patch_doc [(''accountWaitReason'', JStr reason), (''accountRequired'', JNull)] w)"

definition report_account_wait :: "json \<Rightarrow> string \<Rightarrow> json \<Rightarrow> run_world \<Rightarrow> run_world" where
  "report_account_wait run message account_required w =
     (if jat run ''accountWaitReason'' = JStr message then w
      else patch_doc [(''accountWaitReason'', JStr message), (''accountRequired'', account_required)] w)"

end
