(* ===== verification/Run_Task.thy ===== *)
theory Run_Task
  imports Run_Worker
begin

text \<open>
  The task that executes a run, section by section: it marks the run running, prepares the workspace, places
  the attempt on a machine, launches it, applies its events, fences it, and records how it ended; or it fails
  and schedules a retry, waits for capacity, recovers the controller or settles the failure. The
  live checkpoint of the task is written to the store by every update.
\<close>

section \<open>The live checkpoint\<close>

definition task_expired :: "worker_task \<Rightarrow> int \<Rightarrow> bool" where
  "task_expired t at = (case tk_deadline t of None \<Rightarrow> False | Some d \<Rightarrow> d \<le> at)"

definition remember_live :: "(run_checkpoint \<Rightarrow> run_checkpoint) \<Rightarrow> worker_task \<Rightarrow> worker_task" where
  "remember_live change t = t\<lparr>tk_live := change (tk_live t)\<rparr>"

definition update_live ::
  "int \<Rightarrow> (run_checkpoint \<Rightarrow> run_checkpoint) \<Rightarrow> worker_task \<Rightarrow> run_world \<Rightarrow> worker_task \<times> run_world"
where
  "update_live at change t w =
     (let live = (change (tk_live t))\<lparr>cp_remaining_ms := Some (map_option (\<lambda>d. max 0 (d - at)) (tk_deadline t))\<rparr>
      in (t\<lparr>tk_live := live\<rparr>, store_checkpoint live w))"

definition with_task :: "worker_task \<times> run_world \<Rightarrow> task_phase \<Rightarrow> run_world" where
  "with_task tw p = (snd tw)\<lparr>rw_task := Some ((fst tw)\<lparr>tk_phase := p\<rparr>)\<rparr>"

section \<open>Launch\<close>

text \<open>The task of \<open>try_launch\<close>: an unreadable checkpoint fails at once.\<close>

definition start_task :: "int \<Rightarrow> json \<Rightarrow> run_world \<Rightarrow> run_world" where
  "start_task at run w =
     (case load_checkpoint (rw_kv w) of
        Inl _ \<Rightarrow> w\<lparr>rw_pass := None, rw_task := Some \<lparr>tk_run = run, tk_live = checkpoint_default, tk_deadline = None,
                    tk_cancelled = False, tk_phase = Broken\<rparr>\<rparr>
      | Inr saved \<Rightarrow>
          let live = (case saved of Some c \<Rightarrow> c
                      | None \<Rightarrow> checkpoint_fresh (budget_ms (jat (jat run ''snapshot'') ''agent'')))
          in w\<lparr>rw_pass := None, rw_task := Some \<lparr>tk_run = run, tk_live = live, tk_deadline = cp_deadline live at,
               tk_cancelled = False, tk_phase = Starting\<rparr>\<rparr>)"

definition mark_running :: "int \<Rightarrow> string option \<Rightarrow> json \<Rightarrow> worker_task \<Rightarrow> run_world \<Rightarrow> run_world" where
  "mark_running at account account_name t w =
     (let (t', w1) = update_live at (\<lambda>c. c) t w; run = tk_run t
      in with_task (t', patch_doc
          ([(''status'', status_value Running),
            (''startedAt'', JNum (case as_i64 (jat run ''startedAt'') of None \<Rightarrow> at | Some n \<Rightarrow> n)),
            (''finishedAt'', JNull), (''accountWaitReason'', JNull), (''accountRequired'', JNull),
            (''accountId'', nullable JStr account), (''accountName'', account_name)] @
           (if is_object (jat run ''retry'')
            then [(''retry'', obj_put ''nextAttemptAt'' JNull (jat run ''retry''))] else [])) w1) Preparing)"

text \<open>\<open>prepare\<close>: a half-prepared workspace gets a fresh generation; \<open>prepared\<close> is the workspace made or restored.\<close>

definition prepare_workspace :: "int \<Rightarrow> bool \<Rightarrow> string \<Rightarrow> json \<Rightarrow> worker_task \<Rightarrow> run_world \<Rightarrow> run_world" where
  "prepare_workspace at existing generation prepared t w =
     (let (t1, w1) = (if existing \<and> cp_prepared_object (tk_live t) = None
                      then update_live at (\<lambda>c. c\<lparr>cp_generation := Some generation\<rparr>) t w else (t, w));
          (t2, w2) = update_live at (\<lambda>c. c\<lparr>cp_prepared := Some (Some prepared)\<rparr>) t1 w1
      in with_task (t2, patch_doc
           [(''workspace'', jat prepared ''cwd''), (''workspaces'', jat prepared ''workspaces''),
            (''isolated'', jat prepared ''isolated'')] w2) Preparing)"

definition resume_session :: "string \<Rightarrow> worker_task \<Rightarrow> run_world \<Rightarrow> run_world" where
  "resume_session session t w =
     patch_doc
       [(''sessionId'', JStr session),
        (''resumeCount'', JNum (int (case as_u64 (jat (tk_run t) ''resumeCount'') of None \<Rightarrow> 0 | Some n \<Rightarrow> n) + 1)),
        (''resumeAvailable'', JBool True)] w"

text \<open>\<open>prepare_runner\<close>: the identifier of the attempt is durable before anything is sent to the machine.\<close>

definition place_attempt :: "int \<Rightarrow> string \<Rightarrow> json \<Rightarrow> worker_task \<Rightarrow> run_world \<Rightarrow> run_world" where
  "place_attempt at runner placement t w =
     (let (t1, w1) = update_live at
            (\<lambda>c. c\<lparr>cp_runner_id := Some (Some runner), cp_node_id := Some (as_str (jat placement ''nodeId'')),
                   cp_runtime_id := Some (Some (jat placement ''runtimeId''))\<rparr>) t w
      in with_task (t1, patch_doc
           [(''nodeId'', jat placement ''nodeId''), (''resources'', jat placement ''resources''),
            (''nodeState'', JNull), (''movementError'', JNull)]
           (patch_doc [(''storage'', JObj [(''mode'', JStr ''on-demand'')])] w1)) Placed)"

definition spawn_process :: "int \<Rightarrow> process_identity option \<Rightarrow> worker_task \<Rightarrow> run_world \<Rightarrow> run_world" where
  "spawn_process at identity t w =
     (let chat = jat (tk_run t) ''chatExecution'';
          t0 = (if is_object chat
                then t\<lparr>tk_run := obj_put ''chatExecution'' (obj_put ''recovery'' (JBool True) chat) (tk_run t)\<rparr> else t);
          w0 = (if is_object chat
                then patch_doc [(''chatExecution'', obj_put ''recovery'' (JBool True) chat)] w else w);
          (t1, w1) = update_live at
            (\<lambda>c. c\<lparr>cp_process := Some identity, cp_launched := Some True, cp_start_rejected := Some False,
                   cp_retry_cause := Some None, cp_completed := Some False, cp_last_error := Some None\<rparr>) t0 w0
      in with_task (t1, w1) Spawned)"

text \<open>The supervised process starts; on a machine the attempt of the checkpoint begins to execute.\<close>

definition start_child :: "worker_task \<Rightarrow> run_world \<Rightarrow> run_world" where
  "start_child t w = with_task (t, w\<lparr>rw_alive :=
     (if cp_isolated (tk_live t)
      then (case flat (cp_runner_id (tk_live t)) of None \<Rightarrow> rw_alive w | Some r \<Rightarrow> r # rw_alive w)
      else rw_alive w)\<rparr>) Executing"

section \<open>Events of the agent\<close>

definition ERROR_LIMIT :: nat where
  "ERROR_LIMIT = 10000"

definition MESSAGE_LIMIT :: nat where
  "MESSAGE_LIMIT = 100000"

text \<open>\<open>apply_event\<close>; \<open>redact\<close> hides the secrets in a text and \<open>payload\<close> in a JSON value.\<close>

definition apply_event ::
  "(string \<Rightarrow> string) \<Rightarrow> (json \<Rightarrow> json) \<Rightarrow> int \<Rightarrow> json \<Rightarrow> worker_task \<Rightarrow> run_world \<Rightarrow> run_world"
where
  "apply_event redact payload at event t w =
     (let failure = text_of (jat event ''error'') ''message'';
          (t1, w1) =
            (if jat event ''type'' = JStr ''turn.failed'' \<and> failure \<noteq> [] \<and>
                (case flat (cp_last_error (tk_live t)) of None \<Rightarrow> True | Some s \<Rightarrow> s = [])
             then let shown = take ERROR_LIMIT (redact failure)
                  in update_live at (\<lambda>c. c\<lparr>cp_last_error := Some (Some shown),
                         cp_retry_cause := Some (classify (obj_put ''message'' (JStr shown) (payload (jat event ''error'')))),
                         cp_completed := Some False\<rparr>) t w
             else (t, w));
          w2 = (if jat event ''type'' = JStr ''thread.started'' \<and> as_str (jat event ''thread_id'') \<noteq> None
                then patch_doc [(''sessionId'', jat event ''thread_id''), (''resumeAvailable'', JBool True)] w1 else w1);
          t2 = (if jat (jat event ''item'') ''type'' = JStr ''agent_message'' \<and> as_str (jat (jat event ''item'') ''text'') \<noteq> None
                then remember_live (\<lambda>c. c\<lparr>cp_last_message :=
                       Some (take MESSAGE_LIMIT (redact (text_of (jat event ''item'') ''text'')))\<rparr>) t1 else t1);
          (t3, w3) = (if jat event ''type'' = JStr ''turn.completed''
                      then update_live at (\<lambda>c. c\<lparr>cp_completed := Some True\<rparr>) t2 w2 else (t2, w2));
          w4 = (if jat event ''type'' = JStr ''turn.completed'' \<and> jat event ''usage'' \<noteq> JNull
                then patch_doc [(''usage'', jat event ''usage'')] w3 else w3)
      in with_task (t3, w4) Executing)"

text \<open>The controller refused this attempt before it started.\<close>

definition start_rejected :: "(string \<Rightarrow> string) \<Rightarrow> int \<Rightarrow> bool \<Rightarrow> json \<Rightarrow> worker_task \<Rightarrow> run_world \<Rightarrow> run_world" where
  "start_rejected redact at previously_launched event t w =
     (let run = rw_run w;
          first = (\<not> previously_launched \<and> jat run ''sessionId'' = JNull \<and> cp_firecracker (tk_live t));
          chat = jat run ''chatExecution'';
          w1 = (if first \<and> is_object chat
                then patch_doc [(''chatExecution'', obj_put ''recovery'' (JBool False) chat)] w else w);
          (t2, w2) = update_live at
            (\<lambda>c. c\<lparr>cp_start_rejected := Some True,
                   cp_last_error := Some (Some (take ERROR_LIMIT (redact (text_of event ''message'')))),
                   cp_launched := (if first then Some False else cp_launched c)\<rparr>) t w1
      in with_task (t2, w2) Executing)"

section \<open>The end of an attempt\<close>

record attempt_exit =
  ex_code :: "int option"
  ex_timed_out :: bool
  ex_exhausted :: bool

definition attempt_exited :: "int \<Rightarrow> worker_task \<Rightarrow> run_world \<Rightarrow> run_world" where
  "attempt_exited at t w = with_task (update_live at (\<lambda>c. c\<lparr>cp_process := Some None\<rparr>) t w) Exited"

definition fence_attempt :: "bool \<Rightarrow> worker_task \<Rightarrow> run_world \<Rightarrow> run_world" where
  "fence_attempt confirmed t w =
     (if cp_isolated (tk_live t)
      then (case fence (rw_run w) confirmed w of
              Inl e \<Rightarrow> with_task (t, w) (Failing e)
            | Inr w' \<Rightarrow> with_task (t, w') Stopped)
      else with_task (t, w) Stopped)"

datatype attempt_verdict = Attempt_Error svc_error | Attempt_Switch | Attempt_Finish

definition CONTROLLER_INTERRUPTED :: int where
  "CONTROLLER_INTERRUPTED = 75"

definition CONTROLLER_FAILED :: int where
  "CONTROLLER_FAILED = 70"

definition MAX_CONTROLLER_RECOVERIES :: nat where
  "MAX_CONTROLLER_RECOVERIES = 3"

definition recoveries :: "run_checkpoint \<Rightarrow> nat" where
  "recoveries c = (case cp_controller_recoveries c of None \<Rightarrow> 0 | Some n \<Rightarrow> n)"

definition attempt_outcome :: "bool \<Rightarrow> bool \<Rightarrow> attempt_exit \<Rightarrow> json \<Rightarrow> worker_task \<Rightarrow> attempt_verdict" where
  "attempt_outcome shutdown has_account ex run t =
     (let saved = tk_live t;
          session = as_str (jat run ''sessionId'');
          by_controller = (\<not> tk_cancelled t \<and> \<not> ex_timed_out ex \<and> \<not> ex_exhausted ex);
          firecracker = cp_firecracker saved
      in if shutdown \<and> \<not> tk_cancelled t \<and> \<not> cp_is_completed saved
         then Attempt_Error (Conflict ''Worker is restarting'')
         else if firecracker \<and> by_controller \<and> ex_code ex = Some CONTROLLER_INTERRUPTED
         then Attempt_Error (Unavailable
           (if cp_start_rejected saved = Some True
            then (case flat (cp_last_error saved) of None \<Rightarrow> [] | Some s \<Rightarrow> s) @
                 '' Working files were preserved; retry when the controller is available.''
            else if session \<noteq> None
            then ''VM controller interrupted execution. The saved conversation and workspace have been preserved.''
            else ''VM controller interrupted execution. Working files were preserved, but no resumable agent session was confirmed.''))
         else if firecracker \<and> by_controller \<and> ex_code ex = Some CONTROLLER_FAILED \<and>
                 recoveries saved < MAX_CONTROLLER_RECOVERIES
         then Attempt_Error (Unavailable
           ''VM controller failed while running this attempt. The saved conversation and workspace have been preserved.'')
         else if session \<noteq> None \<and> ex_exhausted ex \<and> ex_code ex \<noteq> Some 0 \<and> has_account \<and>
                 \<not> (tk_cancelled t \<or> shutdown) \<and> \<not> ex_timed_out ex
         then Attempt_Switch
         else Attempt_Finish)"

definition SUMMARY_LIMIT :: nat where
  "SUMMARY_LIMIT = 100000"

definition finish_status :: "bool \<Rightarrow> attempt_exit \<Rightarrow> worker_task \<Rightarrow> run_status" where
  "finish_status shutdown ex t =
     (if tk_cancelled t then Cancelled
      else if ex_timed_out ex then Failed
      else if ex_code ex = Some 0 \<or> (shutdown \<and> cp_is_completed (tk_live t)) then Succeeded
      else Failed)"

definition failure_message :: "run_status \<Rightarrow> attempt_exit \<Rightarrow> worker_task \<Rightarrow> string" where
  "failure_message st ex t =
     (if tk_cancelled t then ''Run stopped. You can resume this conversation.''
      else if ex_timed_out ex then ''Run exceeded its time limit.''
      else if st = Succeeded then []
      else case flat (cp_last_error (tk_live t)) of
        Some (c # cs) \<Rightarrow> c # cs
      | _ \<Rightarrow>
          (case ex_code ex of
             None \<Rightarrow> ''Process stopped before finishing. Resume the conversation to continue.''
           | Some n \<Rightarrow>
               if n = CONTROLLER_FAILED
               then ''VM controller failed while running this attempt. Resume the conversation to continue.''
               else ''Process exited with status '' @ show_nat (nat n) @ ''. Resume the conversation to continue.''))"

text \<open>\<open>finish\<close>: a confirmed temporary failure is left to the retry policy, every other outcome is recorded.\<close>

definition finish ::
  "(string \<Rightarrow> string) \<Rightarrow> int \<Rightarrow> bool \<Rightarrow> attempt_exit \<Rightarrow> string \<Rightarrow> bool \<Rightarrow> worker_task \<Rightarrow> run_world \<Rightarrow> run_world"
where
  "finish redact at shutdown ex output_summary has_session t w =
     (let st = finish_status shutdown ex t in
      case (if st = Failed \<and> \<not> ex_timed_out ex \<and> \<not> (tk_cancelled t \<or> shutdown) \<and> has_session
            then flat (cp_retry_cause (tk_live t)) else None) of
        Some ca \<Rightarrow> with_task (t, w) (Failing (Conflict (ca_message ca)))
      | None \<Rightarrow>
          let err = failure_message st ex t;
              summary = take SUMMARY_LIMIT (redact
                (if st \<noteq> Succeeded then err
                 else if output_summary \<noteq> [] then output_summary
                 else case cp_last_message (tk_live t) of None \<Rightarrow> [] | Some m \<Rightarrow> m));
              resume = ((st \<noteq> Succeeded \<or> is_object (jat (tk_run t) ''chatExecution'')) \<and> has_session)
          in with_task (t, patch_doc
               ([(''status'', status_value st), (''finishedAt'', JNum at), (''resumeAvailable'', JBool resume),
                 (''summary'', JStr summary), (''error'', if err = [] then JNull else JStr (redact err))] @
                (if st = Succeeded then [(''retry'', JNull)] else [])) w) Fencing)"

text \<open>
  The account ran out of usage: the session continues with another one; \<open>None\<close> when the run was stopped or
  ran out of time before one was free.
\<close>

definition switch_account :: "string \<Rightarrow> (string \<times> json) option \<Rightarrow> worker_task \<Rightarrow> run_world \<Rightarrow> run_world" where
  "switch_account label account t w =
     (let w1 = patch_doc
        [(''accountWaitReason'', JStr (''Usage exhausted. Waiting for an available '' @ label @ '' account to resume.'')),
         (''accountId'', JNull), (''accountName'', JNull)] w
      in with_task (t, case account of None \<Rightarrow> w1
                       | Some (a, account_name) \<Rightarrow> patch_doc
                           [(''accountWaitReason'', JNull), (''accountId'', JStr a), (''accountName'', account_name)] w1)
           Preparing)"

section \<open>Failures\<close>

text \<open>\<open>worker/retry.rs\<close>: one retry is planned for a confirmed failure of a run nobody cancelled.\<close>

definition schedule_retry ::
  "int \<Rightarrow> int \<Rightarrow> bool \<Rightarrow> svc_error \<Rightarrow> worker_task \<Rightarrow> run_world \<Rightarrow> run_world option"
where
  "schedule_retry at jitter shutdown err t w =
     (if tk_cancelled t \<or> shutdown \<or> task_expired t at then None
      else case flat (cp_retry_cause (tk_live t)) of
        None \<Rightarrow> None
      | Some ca \<Rightarrow>
          let run = rw_run w
          in if cp_is_completed (tk_live t) \<or> ca_message ca \<noteq> error_message err then None
             else if cancel_requested run \<or> as_str (jat run ''sessionId'') = None \<or> \<not> run_active run then None
             else
               (case retry_next (if is_object (jat run ''retry'') then Some (jat run ''retry'') else None) ca at jitter of
                  None \<Rightarrow> None
                | Some r \<Rightarrow>
                    let delay = (case rt_next_attempt_at r of None \<Rightarrow> 0 | Some n \<Rightarrow> n - at);
                        seconds = (delay + 999) div 1000
                    in Some ((patch_doc
                         [(''status'', status_value Queued), (''retry'', retry_value r),
                          (''recoveryPending'', JBool True), (''resumeAvailable'', JBool True), (''finishedAt'', JNull),
                          (''error'', JNull),
                          (''accountWaitReason'', JStr (''Temporary agent error. Retrying in '' @ show_nat (nat seconds) @
                             '' seconds (attempt '' @ show_nat (rt_attempt r) @ ''/'' @ show_nat (rt_limit r) @ '').'')),
                          (''accountRequired'', JNull)] w)\<lparr>rw_retries := Suc (rw_retries w)\<rparr>)))"

definition recovers_controller :: "int \<Rightarrow> bool \<Rightarrow> svc_error \<Rightarrow> json \<Rightarrow> worker_task \<Rightarrow> bool" where
  "recovers_controller at shutdown err run t \<longleftrightarrow>
     is_unavailable err \<and> cp_firecracker (tk_live t) \<and>
     (let saved = tk_live t;
          remote = (case flat (cp_node_id saved) of None \<Rightarrow> False | Some n \<Rightarrow> n \<noteq> LOCAL_NODE_ID)
      in (recoveries saved < MAX_CONTROLLER_RECOVERIES \<or> is_object (jat run ''moveRequest'') \<or> remote) \<and>
         as_str (jat run ''sessionId'') \<noteq> None \<and> \<not> task_expired t at \<and> \<not> tk_cancelled t \<and> \<not> shutdown)"

definition VM_STOP_WAIT_REASON :: string where
  "VM_STOP_WAIT_REASON = ''Waiting for the previous VM to stop.''"

definition failure_patch :: "int \<Rightarrow> run_status \<Rightarrow> bool \<Rightarrow> string \<Rightarrow> (string \<times> json) list" where
  "failure_patch at st needs_fence summary =
     (let pending = (needs_fence \<or> st = Queued)
      in [(''status'', status_value (if needs_fence then Queued else st)), (''recoveryPending'', JBool pending),
          (''finishedAt'', if pending then JNull else JNum at), (''summary'', JStr summary),
          (''error'', if st = Failed then JStr summary else JNull),
          (''accountWaitReason'',
             if needs_fence then JStr VM_STOP_WAIT_REASON
             else if st = Queued then JStr ''Paused for worker restart. This run will resume automatically.''
             else JNull)])"

definition record_failure ::
  "(string \<Rightarrow> string) \<Rightarrow> int \<Rightarrow> int \<Rightarrow> bool \<Rightarrow> svc_error \<Rightarrow> worker_task \<Rightarrow> run_world \<Rightarrow> run_world"
where
  "record_failure redact at jitter shutdown err t w =
     (case schedule_retry at jitter shutdown err t w of
        Some w' \<Rightarrow> with_task (t, w') Fencing
      | None \<Rightarrow>
          if \<not> tk_cancelled t \<and> is_no_capacity err
          then let w1 = patch_doc [(''status'', status_value Queued), (''recoveryPending'', JBool True), (''finishedAt'', JNull)] w
               in with_task (t, report_capacity_wait (rw_run w1) (error_message err) w1) Fencing
          else
            let saved = tk_live t;
                recover = recovers_controller at shutdown err (rw_run w) t;
                (t1, w1) = (if recover
                            then update_live at (\<lambda>c. c\<lparr>cp_controller_recoveries := Some (recoveries saved + 1)\<rparr>) t w
                            else (t, w));
                st = (if tk_cancelled t then Cancelled else if shutdown \<or> recover then Queued else Failed);
                needs_fence = (cp_isolated saved \<and> flat (cp_runner_id saved) \<noteq> None);
                summary = redact (error_message err);
                (t2, w2) = (if needs_fence \<and> st \<noteq> Queued
                            then update_live at (\<lambda>c. c\<lparr>cp_settled := Some (Some (settled_failure st summary at))\<rparr>) t1 w1
                            else (t1, w1))
            in with_task (t2, patch_doc (failure_patch at st needs_fence summary) w2) Fencing)"

section \<open>Fence and release of the task\<close>

definition fence_task :: "int \<Rightarrow> bool \<Rightarrow> worker_task \<Rightarrow> run_world \<Rightarrow> run_world" where
  "fence_task at confirmed t w =
     (if \<not> (cp_isolated (tk_live t) \<and> flat (cp_runner_id (tk_live t)) \<noteq> None)
      then with_task (update_live at (\<lambda>c. c) t w) (Releasing True)
      else case fence (rw_run w) confirmed w of
        Inr w' \<Rightarrow> with_task (update_live at (\<lambda>c. c) t w') (Releasing True)
      | Inl _ \<Rightarrow>
          let (t1, w1) = (case (if status_of (rw_run w) \<noteq> Some Queued then settled_from_run (rw_run w) else None) of
                            Some se \<Rightarrow> update_live at (\<lambda>c. c\<lparr>cp_settled := Some (Some se)\<rparr>) t w
                          | None \<Rightarrow> (t, w));
              w2 = patch_doc
                [(''status'', status_value Queued), (''recoveryPending'', JBool True), (''finishedAt'', JNull),
                 (''accountWaitReason'', JStr VM_STOP_WAIT_REASON)] w1
          in with_task (update_live at (\<lambda>c. c) t1 w2) (Releasing False))"

definition requeue_pending_move :: "int \<Rightarrow> worker_task \<Rightarrow> run_world \<Rightarrow> worker_task \<times> run_world" where
  "requeue_pending_move at t w =
     (if \<not> is_object (jat (rw_run w) ''moveRequest'') \<or> cancel_requested (rw_run w) then (t, w)
      else let (t1, w1) = update_live at (\<lambda>c. c\<lparr>cp_completed := Some False, cp_settled := Some None\<rparr>) t w
           in (t1, patch_doc [(''status'', status_value Queued), (''recoveryPending'', JBool True), (''finishedAt'', JNull)] w1))"

text \<open>\<open>release\<close>, after which the entry of \<open>Worker::active\<close> is removed.\<close>

definition release_task :: "int \<Rightarrow> bool \<Rightarrow> worker_task \<Rightarrow> run_world \<Rightarrow> run_world" where
  "release_task at fenced t w =
     (let w1 = (case (if fenced then flat (cp_settled (tk_live t)) else None) of
                  Some se \<Rightarrow> patch_settled se w | None \<Rightarrow> w)
      in (snd (requeue_pending_move at t w1))\<lparr>rw_task := None\<rparr>)"

definition requeue_after_error :: "string option \<Rightarrow> run_world \<Rightarrow> (svc_error, run_world) result" where
  "requeue_after_error lease w =
     rbind (load_checkpoint (rw_kv w)) (\<lambda>saved.
       let c = (case saved of None \<Rightarrow> checkpoint_exhausted | Some c \<Rightarrow> c);
           c1 = (case (if run_active (rw_run w) then None else settled_from_run (rw_run w)) of
                   None \<Rightarrow> c | Some se \<Rightarrow> c\<lparr>cp_settled := Some (Some se)\<rparr>)
       in Inr ((patch_doc
            ([(''status'', status_value Queued), (''recoveryPending'', JBool True), (''finishedAt'', JNull),
              (''accountWaitReason'', JStr ''Recovering after a worker error.'')] @
             (case lease of None \<Rightarrow> [] | Some a \<Rightarrow> [(''accountId'', JStr a)]))
            (store_checkpoint c1 w))\<lparr>rw_task := None\<rparr>))"

end
