(* ===== verification/Run_Steps.thy ===== *)
theory Run_Steps
  imports Run_Task
begin

text \<open>
  Every interleaving of the worker's operations on one run, and the invariant of the execution: a machine
  attempt that may be executing is the one the stored checkpoint names, and the run is then running or queued
  for recovery. The relation lets a scheduling pass begin only when no task holds the run.
\<close>

section \<open>Steps\<close>

inductive worker_step :: "(string \<Rightarrow> string) \<Rightarrow> (json \<Rightarrow> json) \<Rightarrow> run_world \<Rightarrow> run_world \<Rightarrow> bool"
  for redact payload
where
  restart: "worker_step redact payload w (restore_after_restart at w)"
| cancel: "request_cancel at w = Inr w' \<Longrightarrow> worker_step redact payload w w'"
| resume: "requeue trashed refused busy w = Inr w' \<Longrightarrow> worker_step redact payload w w'"
| next_turn: "rw_pass w = None \<Longrightarrow> rw_task w = None \<Longrightarrow>
    continue_run covered dropped switched sn ex w = Inr w' \<Longrightarrow> worker_step redact payload w w'"
| move_request: "record_request m idle expected w = Inr w' \<Longrightarrow> worker_step redact payload w w'"
| list_run: "rw_pass w = None \<Longrightarrow> rw_task w = None \<Longrightarrow> status_of (rw_run w) = Some Queued \<Longrightarrow>
    worker_step redact payload w (w\<lparr>rw_pass := Some (Listed (rw_run w))\<rparr>)"
| pass_ends: "worker_step redact payload w (w\<lparr>rw_pass := None\<rparr>)"
| recovery_waits: "rw_pass w = Some p \<Longrightarrow> worker_step redact payload w ((recovery_waits run w)\<lparr>rw_pass := None\<rparr>)"
| no_recovery: "rw_pass w = Some (Listed run) \<Longrightarrow> \<not> recovering run \<Longrightarrow>
    worker_step redact payload w (w\<lparr>rw_pass := Some (Recovered run)\<rparr>)"
| pass_fences: "rw_pass w = Some (Listed run) \<Longrightarrow> recovering run \<Longrightarrow> fence run confirmed w = Inr w' \<Longrightarrow>
    worker_step redact payload w (w'\<lparr>rw_pass := Some (Fenced run)\<rparr>)"
| plans_move: "rw_pass w = Some (Listed run) \<Longrightarrow> recovering run \<Longrightarrow>
    worker_step redact payload w (patch_doc [(''moveRequest'', m)] w)"
| moved: "rw_pass w = Some (Fenced run) \<Longrightarrow> resume_at_destination m backup tags w = Inr w' \<Longrightarrow>
    worker_step redact payload w (w'\<lparr>rw_pass := None\<rparr>)"
| move_failed: "rw_pass w = Some (Fenced run) \<Longrightarrow>
    worker_step redact payload w ((fail_transfer m message w)\<lparr>rw_pass := None\<rparr>)"
| settles: "rw_pass w = Some (Fenced run) \<Longrightarrow> settle_recovery at w = Inr (ready, w') \<Longrightarrow>
    worker_step redact payload w (w'\<lparr>rw_pass := (if ready then Some (Checked run) else None)\<rparr>)"
| recovered: "rw_pass w = Some (Checked run) \<Longrightarrow> finish_recovery at w = (ready, w') \<Longrightarrow>
    worker_step redact payload w (w'\<lparr>rw_pass := (if ready then Some (Recovered run) else None)\<rparr>)"
| admits: "rw_pass w = Some (Recovered run) \<Longrightarrow> status_of (rw_run w) = Some Queued \<Longrightarrow>
    \<not> retry_waiting (rw_run w) at \<Longrightarrow> worker_step redact payload w (w\<lparr>rw_pass := Some (Admitted run)\<rparr>)"
| capacity_wait: "rw_pass w = Some (Admitted run) \<Longrightarrow>
    worker_step redact payload w ((report_capacity_wait (rw_run w) detail w)\<lparr>rw_pass := None\<rparr>)"
| account_wait: "rw_pass w = Some (Admitted run) \<Longrightarrow>
    worker_step redact payload w ((report_account_wait run message req w)\<lparr>rw_pass := None\<rparr>)"
| acquires: "rw_pass w = Some (Admitted run) \<Longrightarrow> status_of (rw_run w) = Some Queued \<Longrightarrow>
    worker_step redact payload w (w\<lparr>rw_pass := Some (Launchable run)\<rparr>)"
| launches: "rw_pass w = Some (Launchable run) \<Longrightarrow> worker_step redact payload w (start_task at run w)"
| marks: "rw_task w = Some t \<Longrightarrow> tk_phase t = Starting \<Longrightarrow>
    worker_step redact payload w (mark_running at account account_name t w)"
| access: "rw_task w = Some t \<Longrightarrow> tk_phase t = Preparing \<Longrightarrow>
    worker_step redact payload w (patch_doc [(''snapshot'', sn)] w)"
| prepares: "rw_task w = Some t \<Longrightarrow> tk_phase t = Preparing \<Longrightarrow>
    worker_step redact payload w (prepare_workspace at existing generation prepared t w)"
| session: "rw_task w = Some t \<Longrightarrow> tk_phase t = Preparing \<Longrightarrow>
    worker_step redact payload w (resume_session s t w)"
| places: "rw_task w = Some t \<Longrightarrow> tk_phase t = Preparing \<Longrightarrow> cp_isolated (tk_live t) \<Longrightarrow>
    worker_step redact payload w (place_attempt at runner placement t w)"
| spawns: "rw_task w = Some t \<Longrightarrow> tk_phase t = (if cp_isolated (tk_live t) then Placed else Preparing) \<Longrightarrow>
    worker_step redact payload w (spawn_process at identity t w)"
| starts: "rw_task w = Some t \<Longrightarrow> tk_phase t = Spawned \<Longrightarrow> worker_step redact payload w (start_child t w)"
| event: "rw_task w = Some t \<Longrightarrow> tk_phase t = Executing \<Longrightarrow>
    worker_step redact payload w (apply_event redact payload at ev t w)"
| rejected: "rw_task w = Some t \<Longrightarrow> tk_phase t = Executing \<Longrightarrow>
    worker_step redact payload w (start_rejected redact at previously ev t w)"
| heartbeat: "rw_task w = Some t \<Longrightarrow> tk_phase t \<noteq> Broken \<Longrightarrow>
    worker_step redact payload w (with_task (update_live at (\<lambda>c. c) t w) (tk_phase t))"
| exits: "rw_task w = Some t \<Longrightarrow> tk_phase t = Executing \<Longrightarrow>
    worker_step redact payload w (attempt_exited at t w)"
| attempt_fenced: "rw_task w = Some t \<Longrightarrow> tk_phase t = Exited \<Longrightarrow>
    worker_step redact payload w (fence_attempt confirmed t w)"
| attempt_fails: "rw_task w = Some t \<Longrightarrow> tk_phase t = Stopped \<Longrightarrow>
    attempt_outcome shutdown has_account ex (rw_run w) t = Attempt_Error e \<Longrightarrow>
    worker_step redact payload w (with_task (t, w) (Failing e))"
| attempt_switches: "rw_task w = Some t \<Longrightarrow> tk_phase t = Stopped \<Longrightarrow>
    attempt_outcome shutdown has_account ex (rw_run w) t = Attempt_Switch \<Longrightarrow>
    worker_step redact payload w (switch_account label account t w)"
| finishes: "rw_task w = Some t \<Longrightarrow> tk_phase t = Stopped \<Longrightarrow>
    attempt_outcome shutdown has_account ex (rw_run w) t = Attempt_Finish \<Longrightarrow>
    worker_step redact payload w
      (finish redact at shutdown ex out (as_str (jat (rw_run w) ''sessionId'') \<noteq> None) t w)"
| fails: "rw_task w = Some t \<Longrightarrow>
    tk_phase t \<in> {Starting, Preparing, Placed, Spawned, Executing, Exited, Stopped} \<Longrightarrow>
    worker_step redact payload w (with_task (t, w) (Failing e))"
| records: "rw_task w = Some t \<Longrightarrow> tk_phase t = Failing e \<Longrightarrow>
    worker_step redact payload w (record_failure redact at jitter shutdown e t w)"
| task_fenced: "rw_task w = Some t \<Longrightarrow> tk_phase t = Fencing \<Longrightarrow>
    worker_step redact payload w (fence_task at confirmed t w)"
| releases: "rw_task w = Some t \<Longrightarrow> tk_phase t = Releasing fenced \<Longrightarrow>
    worker_step redact payload w (release_task at fenced t w)"
| release_breaks: "rw_task w = Some t \<Longrightarrow> tk_phase t = Releasing fenced \<Longrightarrow>
    worker_step redact payload w
      (with_task (t, (case (if fenced then flat (cp_settled (tk_live t)) else None) of
                        Some se \<Rightarrow> patch_settled se w | None \<Rightarrow> w)) Broken)"
| breaks: "rw_task w = Some t \<Longrightarrow> tk_phase t = Failing e \<or> tk_phase t = Fencing \<Longrightarrow>
    worker_step redact payload w (with_task (t, w) Broken)"
| requeues: "rw_task w = Some t \<Longrightarrow> tk_phase t = Broken \<Longrightarrow> requeue_after_error lease w = Inr w' \<Longrightarrow>
    worker_step redact payload w w'"

text \<open>
  A run as \<open>snapshot\<close> makes it (\<open>service.rs\<close>), with what it is queued for in \<open>sn\<close>; the first turn of a chat
  adds its execution (\<open>launch_turn\<close>).
\<close>

definition new_run :: "string \<Rightarrow> string \<Rightarrow> string \<Rightarrow> string \<Rightarrow> int \<Rightarrow> json \<Rightarrow> json" where
  "new_run run task project trigger at sn = JObj
     [(''createdAt'', JNum at), (''finishedAt'', JNull), (''id'', JStr run), (''projectId'', JStr project),
      (''sessionId'', JNull), (''snapshot'', sn), (''startedAt'', JNull), (''status'', status_value Queued),
      (''summary'', JStr []), (''taskId'', JStr task), (''trigger'', JStr trigger), (''usage'', JNull),
      (''workspace'', JNull)]"

definition new_world :: "json \<Rightarrow> run_world" where
  "new_world run = \<lparr>rw_run = run, rw_kv = None, rw_alive = [], rw_retries = 0, rw_pass = None, rw_task = None\<rparr>"

inductive worker_reachable :: "(string \<Rightarrow> string) \<Rightarrow> (json \<Rightarrow> json) \<Rightarrow> run_world \<Rightarrow> bool" for redact payload where
  queued: "worker_reachable redact payload (new_world (new_run run task project trigger at sn))"
| chat_queued: "worker_reachable redact payload
    (new_world (obj_put ''chatExecution'' ex (new_run run task project trigger at sn)))"
| step: "worker_reachable redact payload w \<Longrightarrow> worker_step redact payload w w' \<Longrightarrow> worker_reachable redact payload w'"

section \<open>Invariant of the execution\<close>

definition stored :: "json option \<Rightarrow> run_checkpoint option" where
  "stored kv = (case load_checkpoint kv of Inl _ \<Rightarrow> None | Inr c \<Rightarrow> c)"

definition extra_ok :: "run_checkpoint \<Rightarrow> bool" where
  "extra_ok c \<longleftrightarrow> list_all (\<lambda>(k, _). k \<notin> set checkpoint_keys) (cp_extra c)"

definition to_recover :: "json \<Rightarrow> bool" where
  "to_recover run \<longleftrightarrow> status_of run = Some Queued \<and> recovering run"

definition live_status :: "json \<Rightarrow> bool" where
  "live_status run \<longleftrightarrow> status_of run = Some Running \<or> to_recover run"

definition kv_runner :: "json option \<Rightarrow> string option" where
  "kv_runner kv = (case stored kv of None \<Rightarrow> None | Some c \<Rightarrow> flat (cp_runner_id c))"

definition kv_isolated :: "json option \<Rightarrow> bool" where
  "kv_isolated kv = (case stored kv of None \<Rightarrow> False | Some c \<Rightarrow> cp_isolated c)"

definition named :: "json option \<Rightarrow> string \<Rightarrow> bool" where
  "named kv a \<longleftrightarrow> kv_runner kv = Some a \<and> kv_isolated kv"

definition synced :: "run_checkpoint \<Rightarrow> json option \<Rightarrow> bool" where
  "synced live kv \<longleftrightarrow> kv_runner kv = flat (cp_runner_id live) \<and> kv_isolated kv = cp_isolated live"

definition attempt_phase :: "task_phase \<Rightarrow> bool" where
  "attempt_phase p \<longleftrightarrow> p \<in> {Preparing, Placed, Spawned, Executing, Exited, Stopped}"

definition machine_phase :: "task_phase \<Rightarrow> bool" where
  "machine_phase p \<longleftrightarrow> (case p of Executing \<Rightarrow> True | Exited \<Rightarrow> True | Failing _ \<Rightarrow> True | Fencing \<Rightarrow> True
     | Releasing fenced \<Rightarrow> \<not> fenced | Broken \<Rightarrow> True | _ \<Rightarrow> False)"

definition alive_ok :: "run_world \<Rightarrow> bool" where
  "alive_ok w \<longleftrightarrow> rw_alive w = [] \<or> (\<exists>a. rw_alive w = [a] \<and> named (rw_kv w) a \<and> live_status (rw_run w))"

definition task_ok :: "run_world \<Rightarrow> worker_task \<Rightarrow> bool" where
  "task_ok w t \<longleftrightarrow> extra_ok (tk_live t) \<and>
     (attempt_phase (tk_phase t) \<longrightarrow> live_status (rw_run w)) \<and>
     (tk_phase t \<noteq> Starting \<and> tk_phase t \<noteq> Broken \<and> rw_alive w \<noteq> [] \<or> attempt_phase (tk_phase t) \<longrightarrow> synced (tk_live t) (rw_kv w)) \<and>
     (rw_alive w \<noteq> [] \<longrightarrow> machine_phase (tk_phase t)) \<and>
     (rw_alive w \<noteq> [] \<and> (tk_phase t = Fencing \<or> tk_phase t = Releasing False) \<longrightarrow> to_recover (rw_run w))"

definition idle_ok :: "run_world \<Rightarrow> bool" where
  "idle_ok w \<longleftrightarrow> (rw_alive w \<noteq> [] \<longrightarrow> to_recover (rw_run w))"

definition pass_ok :: "run_world \<Rightarrow> bool" where
  "pass_ok w \<longleftrightarrow> (case rw_pass w of None \<Rightarrow> True
     | Some (Listed run) \<Rightarrow> rw_task w = None \<and> (recovering run \<or> rw_alive w = [])
     | Some _ \<Rightarrow> rw_task w = None \<and> rw_alive w = [])"

definition docs_ok :: "run_world \<Rightarrow> bool" where
  "docs_ok w \<longleftrightarrow> is_object (rw_run w) \<and> pred_option is_object (rw_kv w)"

definition exec_inv :: "run_world \<Rightarrow> bool" where
  "exec_inv w \<longleftrightarrow> docs_ok w \<and> alive_ok w \<and> pass_ok w \<and>
     (case rw_task w of None \<Rightarrow> idle_ok w | Some t \<Rightarrow> task_ok w t)"


section \<open>What a patch changes\<close>

lemma patch_doc_simps [simp]:
  "rw_kv (patch_doc ps w) = rw_kv w" "rw_alive (patch_doc ps w) = rw_alive w"
  "rw_pass (patch_doc ps w) = rw_pass w" "rw_task (patch_doc ps w) = rw_task w"
  "is_object (rw_run (patch_doc ps w)) = is_object (rw_run w)"
  by (simp_all add: patch_doc_def)

lemma jat_patch:
  "is_object (rw_run w) \<Longrightarrow> distinct (map fst ps) \<Longrightarrow>
     jat (rw_run (patch_doc ps w)) k = (case map_of ps k of None \<Rightarrow> jat (rw_run w) k | Some x \<Rightarrow> x)"
  by (simp add: patch_doc_def jat_merge)

lemma status_patch:
  "is_object (rw_run w) \<Longrightarrow> distinct (map fst ps) \<Longrightarrow>
     status_of (rw_run (patch_doc ps w)) =
       (case map_of ps ''status'' of None \<Rightarrow> status_of (rw_run w) | Some x \<Rightarrow> Option.bind (as_str x) status_parse)"
  by (simp add: status_of_def jat_patch split: option.splits)

lemma recovering_patch:
  "is_object (rw_run w) \<Longrightarrow> distinct (map fst ps) \<Longrightarrow>
     recovering (rw_run (patch_doc ps w)) =
       (case map_of ps ''recoveryPending'' of None \<Rightarrow> recovering (rw_run w) | Some x \<Rightarrow> x = JBool True)"
  by (simp add: recovering_def jat_patch split: option.splits)

lemma status_value_parse [simp]: "Option.bind (as_str (status_value st)) status_parse = Some st"
  by (simp add: status_value_def)

lemmas patched = status_patch recovering_patch to_recover_def live_status_def

text \<open>A patch that leaves status and recovery alone.\<close>

definition quiet :: "(string \<times> json) list \<Rightarrow> bool" where
  "quiet ps \<longleftrightarrow> distinct (map fst ps) \<and> map_of ps ''status'' = None \<and> map_of ps ''recoveryPending'' = None"

lemma quiet_patch:
  assumes "is_object (rw_run w)" "quiet ps"
  shows "status_of (rw_run (patch_doc ps w)) = status_of (rw_run w)"
    "recovering (rw_run (patch_doc ps w)) = recovering (rw_run w)"
    "to_recover (rw_run (patch_doc ps w)) = to_recover (rw_run w)"
    "live_status (rw_run (patch_doc ps w)) = live_status (rw_run w)"
  using assms by (simp_all add: quiet_def patched)

lemma requeue_patch:
  assumes "is_object (rw_run w)" "distinct (map fst ps)"
    and "map_of ps ''status'' = Some (status_value Queued)" "map_of ps ''recoveryPending'' = Some (JBool True)"
  shows "to_recover (rw_run (patch_doc ps w))" "live_status (rw_run (patch_doc ps w))"
  using assms by (simp_all add: patched)

section \<open>What the stored checkpoint names\<close>

definition isolated_prepared :: "json option option \<Rightarrow> bool" where
  "isolated_prepared p = (case flat p of None \<Rightarrow> False | Some v \<Rightarrow> is_object v \<and> jat v ''isolated'' = JBool True)"

lemma cp_isolated_prepared: "cp_isolated c = isolated_prepared (cp_prepared c)"
  by (cases "cp_prepared c"; cases "the (cp_prepared c)")
    (simp_all add: cp_isolated_def cp_prepared_object_def isolated_prepared_def flat_def)

lemma stored_object:
  assumes "is_object v"
  obtains c where "stored (Some v) = Some c" "cp_runner_id c = nullable_read as_str v ''runnerId''"
    "cp_prepared c = nullable_read Some v ''prepared''" "extra_ok c"
proof -
  obtain ms where v: "v = JObj ms" using assms by (cases v) auto
  then obtain c where c: "checkpoint_read v = Inr c" by (simp add: checkpoint_read_def)
  then have "stored (Some v) = Some c" by (simp add: stored_def load_checkpoint_def)
  moreover have "cp_runner_id c = nullable_read as_str v ''runnerId''"
    "cp_prepared c = nullable_read Some v ''prepared''"
    "cp_extra c = filter (\<lambda>(k, _). k \<notin> set checkpoint_keys) ms"
    using c by (auto simp: v checkpoint_read_def)
  ultimately show thesis using that by (simp add: extra_ok_def list_all_iff split: prod.splits)
qed

lemma kv_object:
  assumes "is_object v"
  shows "kv_runner (Some v) = flat (nullable_read as_str v ''runnerId'')"
    "kv_isolated (Some v) = isolated_prepared (nullable_read Some v ''prepared'')"
proof -
  obtain c where "stored (Some v) = Some c" "cp_runner_id c = nullable_read as_str v ''runnerId''"
    "cp_prepared c = nullable_read Some v ''prepared''"
    using stored_object [OF assms] by blast
  then show "kv_runner (Some v) = flat (nullable_read as_str v ''runnerId'')"
    "kv_isolated (Some v) = isolated_prepared (nullable_read Some v ''prepared'')"
    by (simp_all add: kv_runner_def kv_isolated_def cp_isolated_prepared)
qed

lemma kv_None [simp]: "kv_runner None = None" "\<not> kv_isolated None"
  by (simp_all add: kv_runner_def kv_isolated_def stored_def load_checkpoint_def)

lemma is_object_value [simp]: "is_object (checkpoint_value c)"
  by (simp add: checkpoint_value_def)

lemma isolated_read:
  assumes "jget v ''prepared'' = map_option (nullable (\<lambda>v. v)) p"
  shows "isolated_prepared (nullable_read Some v ''prepared'') = isolated_prepared p"
proof (cases p)
  case (Some q)
  show ?thesis
  proof (cases q)
    case (Some x)
    then show ?thesis
      using assms \<open>p = Some q\<close>
      by (cases x) (simp_all add: nullable_read_def nullable_def isolated_prepared_def flat_def)
  qed (use assms Some in \<open>simp add: nullable_read_def nullable_def isolated_prepared_def flat_def\<close>)
qed (use assms in \<open>simp add: nullable_read_def isolated_prepared_def\<close>)

lemma kv_value:
  assumes "extra_ok c"
  shows "kv_runner (Some (checkpoint_value c)) = flat (cp_runner_id c)"
    "kv_isolated (Some (checkpoint_value c)) = cp_isolated c"
proof -
  have ex: "list_all (\<lambda>(k, _). k \<notin> set checkpoint_keys) (cp_extra c)" using assms by (simp add: extra_ok_def)
  note g = jget_checkpoint [OF ex]
  have "nullable_read as_str (checkpoint_value c) ''runnerId'' = cp_runner_id c"
    by (rule nullable_back, rule g, simp add: checkpoint_members_def, simp add: option.pred_True)
  then show "kv_runner (Some (checkpoint_value c)) = flat (cp_runner_id c)" by (simp add: kv_object)
  have "jget (checkpoint_value c) ''prepared'' = map_option (nullable (\<lambda>v. v)) (cp_prepared c)"
    by (rule g, simp add: checkpoint_members_def)
  then show "kv_isolated (Some (checkpoint_value c)) = cp_isolated c"
    using isolated_read [of "checkpoint_value c" "cp_prepared c"] by (simp add: kv_object cp_isolated_prepared)
qed

lemma kv_put:
  assumes "is_object v" "k \<noteq> ''runnerId''" "k \<noteq> ''prepared''"
  shows "kv_runner (Some (obj_put k x v)) = kv_runner (Some v)" "kv_isolated (Some (obj_put k x v)) = kv_isolated (Some v)"
    "kv_runner (Some (obj_remove k v)) = kv_runner (Some v)" "kv_isolated (Some (obj_remove k v)) = kv_isolated (Some v)"
  using assms by (simp_all add: kv_object nullable_read_def jget_obj_put jget_obj_remove)

lemma load_stored:
  assumes "load_checkpoint kv = Inr (Some c)" "pred_option is_object kv"
  shows "extra_ok c" "kv_runner kv = flat (cp_runner_id c)" "kv_isolated kv = cp_isolated c" "kv \<noteq> None"
proof -
  obtain v where v: "kv = Some v" "is_object v" using assms by (cases kv) (auto simp: load_checkpoint_def)
  obtain c' where "stored (Some v) = Some c'" "extra_ok c'" using stored_object [OF v(2)] by blast
  then have "c' = c" using assms(1) v(1) by (simp add: stored_def)
  then show "extra_ok c" using \<open>extra_ok c'\<close> by simp
  have "stored kv = Some c" using assms(1) by (simp add: stored_def)
  then show "kv_runner kv = flat (cp_runner_id c)" "kv_isolated kv = cp_isolated c"
    by (simp_all add: kv_runner_def kv_isolated_def)
  show "kv \<noteq> None" using v by simp
qed

lemma load_total: "pred_option is_object kv \<Longrightarrow> \<exists>c. load_checkpoint kv = Inr c"
  by (cases kv) (auto simp: load_checkpoint_def checkpoint_read_def elim: is_object.elims)

lemma load_none: "load_checkpoint kv = Inr None \<Longrightarrow> kv = None"
  by (cases kv) (auto simp: load_checkpoint_def rbind_Inr_iff)

end
