(* ===== verification/Run_Inv.thy ===== *)
theory Run_Inv
  imports Run_Steps
begin

text \<open>Every step of the worker keeps the invariant of the execution.\<close>

section \<open>Updates of the live checkpoint\<close>

lemma update_live_simps [simp]:
  "rw_run (snd (update_live at f t w)) = rw_run w" "rw_alive (snd (update_live at f t w)) = rw_alive w"
  "rw_pass (snd (update_live at f t w)) = rw_pass w" "rw_task (snd (update_live at f t w)) = rw_task w"
  "rw_retries (snd (update_live at f t w)) = rw_retries w"
  "tk_run (fst (update_live at f t w)) = tk_run t" "tk_phase (fst (update_live at f t w)) = tk_phase t"
  "tk_cancelled (fst (update_live at f t w)) = tk_cancelled t"
  "cp_runner_id (tk_live (fst (update_live at f t w))) = cp_runner_id (f (tk_live t))"
  "cp_prepared (tk_live (fst (update_live at f t w))) = cp_prepared (f (tk_live t))"
  "cp_settled (tk_live (fst (update_live at f t w))) = cp_settled (f (tk_live t))"
  "cp_extra (tk_live (fst (update_live at f t w))) = cp_extra (f (tk_live t))"
  "pred_option is_object (rw_kv (snd (update_live at f t w)))"
  by (simp_all add: update_live_def store_checkpoint_def Let_def)

lemma isolated_live [simp]: "cp_isolated (tk_live (fst (update_live at f t w))) = cp_isolated (f (tk_live t))"
  by (simp add: cp_isolated_prepared)

lemma extra_live [simp]: "extra_ok (tk_live (fst (update_live at f t w))) = extra_ok (f (tk_live t))"
  by (simp add: extra_ok_def)

lemma update_live_kv:
  assumes "extra_ok (f (tk_live t))"
  shows "kv_runner (rw_kv (snd (update_live at f t w))) = flat (cp_runner_id (f (tk_live t)))"
    "kv_isolated (rw_kv (snd (update_live at f t w))) = cp_isolated (f (tk_live t))"
proof -
  define c where "c = (f (tk_live t))\<lparr>cp_remaining_ms := Some (map_option (\<lambda>d. max 0 (d - at)) (tk_deadline t))\<rparr>"
  have "extra_ok c" using assms by (simp add: c_def extra_ok_def)
  moreover have "rw_kv (snd (update_live at f t w)) = Some (checkpoint_value c)"
    by (simp add: c_def update_live_def store_checkpoint_def Let_def)
  ultimately show "kv_runner (rw_kv (snd (update_live at f t w))) = flat (cp_runner_id (f (tk_live t)))"
    "kv_isolated (rw_kv (snd (update_live at f t w))) = cp_isolated (f (tk_live t))"
    by (simp_all add: kv_value c_def cp_isolated_prepared)
qed

lemma update_live_synced:
  "extra_ok (f (tk_live t)) \<Longrightarrow> synced (tk_live (fst (update_live at f t w))) (rw_kv (snd (update_live at f t w)))"
  by (simp add: synced_def update_live_kv)

lemma update_live_named:
  "extra_ok (f (tk_live t)) \<Longrightarrow>
     named (rw_kv (snd (update_live at f t w))) a \<longleftrightarrow> flat (cp_runner_id (f (tk_live t))) = Some a \<and> cp_isolated (f (tk_live t))"
  by (simp add: named_def update_live_kv)

lemma with_task_simps [simp]:
  "rw_run (with_task tw p) = rw_run (snd tw)" "rw_kv (with_task tw p) = rw_kv (snd tw)"
  "rw_alive (with_task tw p) = rw_alive (snd tw)" "rw_pass (with_task tw p) = rw_pass (snd tw)"
  "rw_retries (with_task tw p) = rw_retries (snd tw)"
  "rw_task (with_task tw p) = Some ((fst tw)\<lparr>tk_phase := p\<rparr>)"
  by (simp_all add: with_task_def)

lemma synced_named: "synced live kv \<Longrightarrow> named kv a \<longleftrightarrow> flat (cp_runner_id live) = Some a \<and> cp_isolated live"
  by (simp add: synced_def named_def)

section \<open>Parts of the invariant\<close>

lemma inv_parts:
  assumes "exec_inv w"
  shows "is_object (rw_run w)" "pred_option is_object (rw_kv w)" "alive_ok w" "pass_ok w"
    "rw_task w = None \<Longrightarrow> idle_ok w" "rw_task w = Some t \<Longrightarrow> task_ok w t"
    "rw_task w = Some t \<Longrightarrow> rw_pass w = None"
  using assms by (auto simp: exec_inv_def docs_ok_def pass_ok_def split: option.splits pass_phase.splits)

text \<open>
  A step of the task: it keeps the documents, the live checkpoint is the stored one, and either no attempt is
  alive or the same one is alive, in a phase that may have one.
\<close>

lemma task_step:
  assumes "is_object (rw_run (snd tw))" "pred_option is_object (rw_kv (snd tw))" "rw_pass (snd tw) = None"
    and "extra_ok (tk_live (fst tw))" "attempt_phase p \<Longrightarrow> live_status (rw_run (snd tw))"
    and "attempt_phase p \<Longrightarrow> synced (tk_live (fst tw)) (rw_kv (snd tw))"
    and "rw_alive (snd tw) = [] \<or>
         (\<exists>a. rw_alive (snd tw) = [a] \<and> named (rw_kv (snd tw)) a \<and> live_status (rw_run (snd tw)) \<and>
           machine_phase p \<and> (p = Broken \<or> synced (tk_live (fst tw)) (rw_kv (snd tw))) \<and>
           (p = Fencing \<or> p = Releasing False \<longrightarrow> to_recover (rw_run (snd tw))))"
  shows "exec_inv (with_task tw p)"
  using assms by (auto simp: exec_inv_def docs_ok_def alive_ok_def pass_ok_def task_ok_def)

text \<open>Without a live attempt only the documents and the checkpoint matter.\<close>

lemma quiet_step:
  assumes "is_object (rw_run (snd tw))" "pred_option is_object (rw_kv (snd tw))" "rw_pass (snd tw) = None"
    and "extra_ok (tk_live (fst tw))" "rw_alive (snd tw) = []"
    and "attempt_phase p \<Longrightarrow> live_status (rw_run (snd tw)) \<and> synced (tk_live (fst tw)) (rw_kv (snd tw))"
  shows "exec_inv (with_task tw p)"
  by (rule task_step) (use assms in auto)

lemma task_alive:
  assumes "exec_inv w" "rw_task w = Some t"
  shows "extra_ok (tk_live t)" "attempt_phase (tk_phase t) \<Longrightarrow> live_status (rw_run w)"
    "attempt_phase (tk_phase t) \<Longrightarrow> synced (tk_live t) (rw_kv w)"
    "rw_alive w = [] \<or> (\<exists>a. rw_alive w = [a] \<and> named (rw_kv w) a \<and> live_status (rw_run w) \<and>
       machine_phase (tk_phase t) \<and> (tk_phase t = Broken \<or> synced (tk_live t) (rw_kv w)) \<and>
       (tk_phase t = Fencing \<or> tk_phase t = Releasing False \<longrightarrow> to_recover (rw_run w)))"
  using inv_parts(3) [OF assms(1)] inv_parts(6) [OF assms]
  by (auto simp: alive_ok_def task_ok_def machine_phase_def split: task_phase.splits)

section \<open>Steps of the task\<close>

lemmas step_simps = split_beta Let_def attempt_phase_def machine_phase_def

lemma no_attempt:
  assumes "exec_inv w" "rw_task w = Some t" "\<not> machine_phase (tk_phase t)"
  shows "rw_alive w = []"
  using task_alive(4) [OF assms(1,2)] assms(3) by auto

lemma phase_simps [simp]:
  "attempt_phase Preparing" "attempt_phase Placed" "attempt_phase Spawned" "attempt_phase Executing"
  "attempt_phase Exited" "attempt_phase Stopped" "\<not> attempt_phase Starting" "\<not> attempt_phase (Failing e)"
  "\<not> attempt_phase Fencing" "\<not> attempt_phase (Releasing b)" "\<not> attempt_phase Broken"
  "machine_phase Executing" "machine_phase Exited" "machine_phase (Failing e)" "machine_phase Fencing"
  "machine_phase (Releasing b) = (\<not> b)" "machine_phase Broken" "\<not> machine_phase Starting"
  "\<not> machine_phase Preparing" "\<not> machine_phase Placed" "\<not> machine_phase Spawned" "\<not> machine_phase Stopped"
  by (simp_all add: attempt_phase_def machine_phase_def)

lemma extra_ok_fields [simp]:
  "extra_ok (c\<lparr>cp_generation := g\<rparr>) = extra_ok c" "extra_ok (c\<lparr>cp_prepared := p\<rparr>) = extra_ok c"
  "extra_ok (c\<lparr>cp_process := q\<rparr>) = extra_ok c" "extra_ok (c\<lparr>cp_settled := s\<rparr>) = extra_ok c"
  "extra_ok (c\<lparr>cp_completed := d\<rparr>) = extra_ok c" "extra_ok (c\<lparr>cp_completed := d, cp_settled := s\<rparr>) = extra_ok c"
  "extra_ok (c\<lparr>cp_controller_recoveries := n\<rparr>) = extra_ok c"
  by (simp_all add: extra_ok_def)

lemma mark_running_inv:
  assumes i: "exec_inv w" "rw_task w = Some t" and p: "tk_phase t = Starting"
  shows "exec_inv (mark_running at account account_name t w)"
  unfolding mark_running_def split_beta Let_def
  by (rule quiet_step)
    (use inv_parts [OF i(1)] task_alive(1) [OF i] no_attempt [OF i] i p in
      \<open>simp_all add: update_live_synced patched\<close>)

lemma prepare_workspace_inv:
  assumes i: "exec_inv w" "rw_task w = Some t" and p: "tk_phase t = Preparing"
  shows "exec_inv (prepare_workspace at existing generation prepared t w)"
  unfolding prepare_workspace_def split_beta Let_def
  by (rule quiet_step)
    (use inv_parts [OF i(1)] task_alive(1,2) [OF i] no_attempt [OF i] i p in
      \<open>simp_all add: update_live_synced quiet_patch quiet_def\<close>)


lemma place_attempt_inv:
  assumes i: "exec_inv w" "rw_task w = Some t" and p: "tk_phase t = Preparing"
  shows "exec_inv (place_attempt at runner placement t w)"
  unfolding place_attempt_def split_beta Let_def
  by (rule quiet_step)
    (use inv_parts [OF i(1)] task_alive(1,2) [OF i] no_attempt [OF i] i p in
      \<open>simp_all add: update_live_synced quiet_patch quiet_def extra_ok_def\<close>)

lemma extra_ok_spawned [simp]:
  "extra_ok (c\<lparr>cp_launched := a, cp_start_rejected := b, cp_process := p, cp_completed := d, cp_last_error := e,
     cp_retry_cause := f\<rparr>) = extra_ok c"
  by (simp add: extra_ok_def)

lemma spawn_process_inv:
  assumes i: "exec_inv w" "rw_task w = Some t" and p: "tk_phase t = Preparing \<or> tk_phase t = Placed"
  shows "exec_inv (spawn_process at identity t w)"
proof -
  have live: "live_status (rw_run w)" and a: "rw_alive w = []"
    using task_alive(2) [OF i] no_attempt [OF i] p by auto
  show ?thesis
    unfolding spawn_process_def split_beta Let_def
    by (rule quiet_step)
      (use inv_parts [OF i(1)] task_alive(1) [OF i] i live a in
        \<open>simp_all add: update_live_synced quiet_patch quiet_def extra_ok_def\<close>)
qed

lemma start_child_inv:
  assumes i: "exec_inv w" "rw_task w = Some t" and p: "tk_phase t = Spawned"
  shows "exec_inv (start_child t w)"
  unfolding start_child_def
  by (rule task_step)
    (use inv_parts [OF i(1)] task_alive [OF i] no_attempt [OF i] i p in
      \<open>auto simp: synced_named split: option.splits\<close>)

text \<open>Changes of the live checkpoint that keep what it names.\<close>

definition keeps_names :: "(run_checkpoint \<Rightarrow> run_checkpoint) \<Rightarrow> bool" where
  "keeps_names f \<longleftrightarrow> (\<forall>c. cp_runner_id (f c) = cp_runner_id c \<and> cp_prepared (f c) = cp_prepared c \<and>
     cp_extra (f c) = cp_extra c)"

lemma keeps_namesD:
  assumes "keeps_names f"
  shows "cp_runner_id (f c) = cp_runner_id c" "cp_prepared (f c) = cp_prepared c" "extra_ok (f c) = extra_ok c"
    "cp_isolated (f c) = cp_isolated c"
  using assms by (simp_all add: keeps_names_def extra_ok_def cp_isolated_prepared)

lemma update_task_step:
  assumes i: "exec_inv w" "rw_task w = Some t" and f: "keeps_names f" and b: "tk_phase t \<noteq> Broken"
    and p: "attempt_phase p \<Longrightarrow> attempt_phase (tk_phase t)"
    and m: "machine_phase (tk_phase t) \<Longrightarrow> machine_phase p"
    and r: "p = Fencing \<or> p = Releasing False \<Longrightarrow> p = tk_phase t"
  shows "exec_inv (with_task (update_live at f t w) p)"
  by (rule task_step)
    (use inv_parts [OF i(1)] task_alive [OF i] i keeps_namesD [OF f] b p m r in
      \<open>auto simp: update_live_synced update_live_named synced_named\<close>)

lemma heartbeat_inv:
  assumes i: "exec_inv w" "rw_task w = Some t" and b: "tk_phase t \<noteq> Broken"
  shows "exec_inv (with_task (update_live at (\<lambda>c. c) t w) (tk_phase t))"
  by (rule update_task_step [OF i]) (simp_all add: keeps_names_def b)

lemma attempt_exited_inv:
  assumes i: "exec_inv w" "rw_task w = Some t" and p: "tk_phase t = Executing"
  shows "exec_inv (attempt_exited at t w)"
  unfolding attempt_exited_def by (rule update_task_step [OF i]) (simp_all add: keeps_names_def p)

text \<open>A patch that leaves status and recovery alone keeps the invariant at any time.\<close>

lemma quiet_patch_inv:
  assumes i: "exec_inv w" and q: "quiet ps"
  shows "exec_inv (patch_doc ps w)"
  using i inv_parts(1) [OF i] quiet_patch [OF _ q]
  by (auto simp: exec_inv_def docs_ok_def alive_ok_def pass_ok_def idle_ok_def task_ok_def split: option.splits pass_phase.splits)

lemma fails_inv:
  assumes i: "exec_inv w" "rw_task w = Some t" and b: "tk_phase t \<noteq> Broken"
  shows "exec_inv (with_task (t, w) (Failing e))"
  by (rule task_step) (use inv_parts [OF i(1)] task_alive [OF i] i b in auto)

lemma breaks_inv:
  assumes i: "exec_inv w" "rw_task w = Some t" and m: "machine_phase (tk_phase t)"
  shows "exec_inv (with_task (t, w) Broken)"
  by (rule task_step) (use inv_parts [OF i(1)] task_alive [OF i] i m in auto)


section \<open>Events and failures\<close>

definition carries :: "worker_task \<times> run_world \<Rightarrow> worker_task \<times> run_world \<Rightarrow> bool" where
  "carries a b \<longleftrightarrow> rw_alive (snd b) = rw_alive (snd a) \<and> rw_pass (snd b) = rw_pass (snd a) \<and>
     cp_runner_id (tk_live (fst b)) = cp_runner_id (tk_live (fst a)) \<and>
     cp_isolated (tk_live (fst b)) = cp_isolated (tk_live (fst a)) \<and>
     (extra_ok (tk_live (fst a)) \<longrightarrow> extra_ok (tk_live (fst b))) \<and>
     (is_object (rw_run (snd a)) \<longrightarrow> is_object (rw_run (snd b)) \<and>
        status_of (rw_run (snd b)) = status_of (rw_run (snd a)) \<and>
        recovering (rw_run (snd b)) = recovering (rw_run (snd a))) \<and>
     (pred_option is_object (rw_kv (snd a)) \<longrightarrow> pred_option is_object (rw_kv (snd b))) \<and>
     (extra_ok (tk_live (fst a)) \<and> synced (tk_live (fst a)) (rw_kv (snd a)) \<longrightarrow> synced (tk_live (fst b)) (rw_kv (snd b)))"

lemma carries_refl [simp]: "carries a a"
  by (simp add: carries_def)

lemma carries_trans: "carries a b \<Longrightarrow> carries b c \<Longrightarrow> carries a c"
  by (simp add: carries_def)

lemma carries_update: "keeps_names f \<Longrightarrow> carries (t, w) (update_live at f t w)"
  by (simp add: carries_def keeps_namesD update_live_synced)

lemma carries_patch: "quiet ps \<Longrightarrow> carries (t, w) (t, patch_doc ps w)"
  by (simp add: carries_def quiet_patch)

lemma carries_remember: "keeps_names f \<Longrightarrow> carries (t, w) (remember_live f t, w)"
  by (simp add: carries_def keeps_namesD remember_live_def synced_def)

lemma carries_if: "(c \<Longrightarrow> carries a b) \<Longrightarrow> (\<not> c \<Longrightarrow> carries a d) \<Longrightarrow> carries a (if c then b else d)"
  by simp

lemma carries_inv:
  assumes i: "exec_inv w" "rw_task w = Some t" and c: "carries (t, w) tw" and b: "tk_phase t \<noteq> Broken"
  shows "exec_inv (with_task tw (tk_phase t))"
proof -
  note c' = c [unfolded carries_def, simplified]
  have o: "is_object (rw_run (snd tw))" "status_of (rw_run (snd tw)) = status_of (rw_run w)"
    "recovering (rw_run (snd tw)) = recovering (rw_run w)" "pred_option is_object (rw_kv (snd tw))"
    "extra_ok (tk_live (fst tw))" and s: "synced (tk_live t) (rw_kv w) \<Longrightarrow> synced (tk_live (fst tw)) (rw_kv (snd tw))"
    using c' inv_parts(1,2) [OF i(1)] task_alive(1) [OF i] by blast+
  have ls: "live_status (rw_run (snd tw)) = live_status (rw_run w)" "to_recover (rw_run (snd tw)) = to_recover (rw_run w)"
    by (simp_all add: live_status_def to_recover_def o)
  have pa: "rw_pass (snd tw) = rw_pass w" "rw_alive (snd tw) = rw_alive w"
    "cp_runner_id (tk_live (fst tw)) = cp_runner_id (tk_live t)" "cp_isolated (tk_live (fst tw)) = cp_isolated (tk_live t)"
    using c' by blast+
  show ?thesis
    by (rule task_step)
      (use inv_parts(7) [OF i(1) i(2)] task_alive [OF i] o s ls pa b in \<open>auto simp: synced_named\<close>)
qed

lemma apply_event_inv:
  assumes i: "exec_inv w" "rw_task w = Some t" and p: "tk_phase t = Executing"
  shows "exec_inv (apply_event redact payload at event t w)"
proof -
  define x1 where "x1 =
    (if jat event ''type'' = JStr ''turn.failed'' \<and> text_of (jat event ''error'') ''message'' \<noteq> [] \<and>
        (case flat (cp_last_error (tk_live t)) of None \<Rightarrow> True | Some s \<Rightarrow> s = [])
     then let shown = take ERROR_LIMIT (redact (text_of (jat event ''error'') ''message''))
          in update_live at (\<lambda>c. c\<lparr>cp_last_error := Some (Some shown),
               cp_retry_cause := Some (classify (obj_put ''message'' (JStr shown) (payload (jat event ''error'')))),
               cp_completed := Some False\<rparr>) t w
     else (t, w))"
  define w2 where "w2 =
    (if jat event ''type'' = JStr ''thread.started'' \<and> as_str (jat event ''thread_id'') \<noteq> None
     then patch_doc [(''sessionId'', jat event ''thread_id''), (''resumeAvailable'', JBool True)] (snd x1) else snd x1)"
  define t2 where "t2 =
    (if jat (jat event ''item'') ''type'' = JStr ''agent_message'' \<and> as_str (jat (jat event ''item'') ''text'') \<noteq> None
     then remember_live (\<lambda>c. c\<lparr>cp_last_message :=
            Some (take MESSAGE_LIMIT (redact (text_of (jat event ''item'') ''text'')))\<rparr>) (fst x1) else fst x1)"
  define x3 where "x3 =
    (if jat event ''type'' = JStr ''turn.completed''
     then update_live at (\<lambda>c. c\<lparr>cp_completed := Some True\<rparr>) t2 w2 else (t2, w2))"
  define w4 where "w4 =
    (if jat event ''type'' = JStr ''turn.completed'' \<and> jat event ''usage'' \<noteq> JNull
     then patch_doc [(''usage'', jat event ''usage'')] (snd x3) else snd x3)"
  have "carries (t, w) x1"
    unfolding x1_def Let_def by (intro carries_if carries_update carries_refl) (simp add: keeps_names_def)
  moreover have "carries x1 (fst x1, w2)"
    unfolding w2_def using carries_patch [of _ "fst x1" "snd x1"] by (auto simp: quiet_def)
  moreover have "carries (fst x1, w2) (t2, w2)"
    unfolding t2_def using carries_remember [of _ "fst x1" w2] by (auto simp: keeps_names_def)
  moreover have "carries (t2, w2) x3"
    unfolding x3_def by (intro carries_if carries_update carries_refl) (simp add: keeps_names_def)
  moreover have "carries x3 (fst x3, w4)"
    unfolding w4_def using carries_patch [of _ "fst x3" "snd x3"] by (auto simp: quiet_def)
  ultimately have "carries (t, w) (fst x3, w4)" by (meson carries_trans)
  moreover have "apply_event redact payload at event t w = with_task (fst x3, w4) (tk_phase t)"
    by (simp only: apply_event_def Let_def split_beta p w4_def x3_def t2_def w2_def x1_def fst_conv snd_conv)
  ultimately show ?thesis using carries_inv [OF i] p by simp
qed

lemma start_rejected_inv:
  assumes i: "exec_inv w" "rw_task w = Some t" and p: "tk_phase t = Executing"
  shows "exec_inv (start_rejected redact at previously event t w)"
proof -
  define w1 where "w1 =
    (if (\<not> previously \<and> jat (rw_run w) ''sessionId'' = JNull \<and> cp_firecracker (tk_live t)) \<and>
        is_object (jat (rw_run w) ''chatExecution'')
     then patch_doc [(''chatExecution'', obj_put ''recovery'' (JBool False) (jat (rw_run w) ''chatExecution''))] w else w)"
  have "carries (t, w) (t, w1)"
    unfolding w1_def using carries_patch [of _ t w] by (auto simp: quiet_def)
  moreover have "carries (t, w1) (update_live at f t w1)" if "keeps_names f" for f
    using that by (rule carries_update)
  ultimately have c: "carries (t, w) (update_live at f t w1)" if "keeps_names f" for f
    using that carries_trans by blast
  have b: "tk_phase t \<noteq> Broken" using p by simp
  show ?thesis
    unfolding start_rejected_def Let_def split_beta prod.collapse w1_def [symmetric]
    using carries_inv [OF i c b] p by (simp add: keeps_names_def)
qed


section \<open>Fences\<close>

lemma removeAll_only: "xs = [] \<or> xs = [a] \<Longrightarrow> removeAll a xs = []"
  by auto

lemma fence_effect:
  assumes d: "pred_option is_object (rw_kv w)" and a: "alive_ok w" and f: "fence run confirmed w = Inr w'"
  shows "rw_alive w' = []" "rw_run w' = rw_run w" "rw_pass w' = rw_pass w" "rw_task w' = rw_task w"
    "rw_retries w' = rw_retries w" "pred_option is_object (rw_kv w')" "kv_runner (rw_kv w') = kv_runner (rw_kv w)"
    "kv_isolated (rw_kv w') = kv_isolated (rw_kv w)"
proof -
  obtain saved where l: "load_checkpoint (rw_kv w) = Inr saved" using load_total [OF d] by blast
  show "rw_run w' = rw_run w" "rw_pass w' = rw_pass w" "rw_task w' = rw_task w" "rw_retries w' = rw_retries w"
    using f by (auto simp: fence_def l Let_def store_checkpoint_def split: if_splits option.splits)
  show "pred_option is_object (rw_kv w')"
    using f d by (auto simp: fence_def l Let_def store_checkpoint_def split: if_splits option.splits)
  show "rw_alive w' = []"
  proof (cases saved)
    case None
    then have "rw_kv w = None" using l load_none by blast
    then have "rw_alive w = []" using a by (auto simp: alive_ok_def named_def)
    then show ?thesis using f None by (auto simp: fence_def l Let_def split: if_splits)
  next
    case (Some c)
    note n = load_stored [OF l [unfolded Some] d]
    have "rw_alive w = [] \<or> (\<exists>r. rw_alive w = [r] \<and> flat (cp_runner_id c) = Some r \<and> cp_isolated c)"
      using a n by (auto simp: alive_ok_def named_def)
    then show ?thesis
      using f Some by (auto simp: fence_def l Let_def store_checkpoint_def split: if_splits option.splits)
  qed
  have "kv_runner (rw_kv w') = kv_runner (rw_kv w) \<and> kv_isolated (rw_kv w') = kv_isolated (rw_kv w)"
  proof (cases saved)
    case None
    then show ?thesis using f by (auto simp: fence_def l Let_def split: if_splits)
  next
    case (Some c)
    note n = load_stored [OF l [unfolded Some] d]
    have "rw_kv w' = Some (checkpoint_value (c\<lparr>cp_process := None\<rparr>))"
      using f Some by (auto simp: fence_def l Let_def store_checkpoint_def split: if_splits)
    then show ?thesis using n by (simp add: kv_value cp_isolated_prepared)
  qed
  then show "kv_runner (rw_kv w') = kv_runner (rw_kv w)" "kv_isolated (rw_kv w') = kv_isolated (rw_kv w)" by blast+
qed

lemma fence_attempt_inv:
  assumes i: "exec_inv w" "rw_task w = Some t" and p: "tk_phase t = Exited"
  shows "exec_inv (fence_attempt confirmed t w)"
proof -
  have ls: "live_status (rw_run w)" and sy: "synced (tk_live t) (rw_kv w)" using task_alive(2,3) [OF i] p by simp_all
  show ?thesis
  proof (cases "cp_isolated (tk_live t)")
    case False
    then have "rw_alive w = []" using task_alive(4) [OF i] sy by (auto simp: synced_named)
    then show ?thesis
      using False quiet_step [of "(t, w)" Stopped] inv_parts [OF i(1)] task_alive(1) [OF i] i ls sy
      by (simp add: fence_attempt_def)
  next
    case True
    show ?thesis
    proof (cases "fence (rw_run w) confirmed w")
      case (Inl e)
      then show ?thesis using True fails_inv [OF i] p by (simp add: fence_attempt_def)
    next
      case (Inr w')
      note e = fence_effect [OF inv_parts(2,3) [OF i(1)] Inr]
      have "synced (tk_live t) (rw_kv w')" using sy e by (simp add: synced_def)
      then show ?thesis
        using True Inr quiet_step [of "(t, w')" Stopped] inv_parts [OF i(1)] task_alive(1) [OF i] i ls e
        by (simp add: fence_attempt_def)
    qed
  qed
qed

lemma switch_account_inv:
  assumes i: "exec_inv w" "rw_task w = Some t" and p: "tk_phase t = Stopped"
  shows "exec_inv (switch_account label account t w)"
  unfolding switch_account_def Let_def
  by (rule quiet_step)
    (use inv_parts [OF i(1)] task_alive(1-3) [OF i] no_attempt [OF i] i p in
      \<open>simp_all add: quiet_patch quiet_def split: option.splits prod.splits\<close>)

lemma finish_inv:
  assumes i: "exec_inv w" "rw_task w = Some t" and p: "tk_phase t = Stopped"
  shows "exec_inv (finish redact at shutdown ex out has_session t w)"
proof -
  have q: "exec_inv (with_task (t, patch_doc ps w) Fencing)" for ps
    by (rule quiet_step) (use inv_parts [OF i(1)] task_alive(1) [OF i] no_attempt [OF i] i p in simp_all)
  then show ?thesis
    using fails_inv [OF i] p by (simp add: finish_def Let_def split: option.splits)
qed

section \<open>How an execution ends\<close>

lemma requeued_task:
  assumes i: "exec_inv w" "rw_task w = Some t" and m: "\<exists>e. tk_phase t = Failing e"
    and w': "rw_alive w' = rw_alive w" "rw_kv w' = rw_kv w" "rw_pass w' = rw_pass w"
      "is_object (rw_run w')" "to_recover (rw_run w')"
  shows "exec_inv (with_task (t, w') Fencing)"
  by (rule task_step)
    (use inv_parts [OF i(1)] task_alive [OF i] i m w' in \<open>auto simp: live_status_def\<close>)

lemma schedule_effect:
  assumes "is_object (rw_run w)" "schedule_retry at jitter shutdown e t w = Some w'"
  shows "rw_alive w' = rw_alive w" "rw_kv w' = rw_kv w" "rw_pass w' = rw_pass w" "is_object (rw_run w')"
    "to_recover (rw_run w')" "rw_task w' = rw_task w"
  using assms by (auto simp: schedule_retry_def Let_def patched split: option.splits if_splits)

lemma capacity_effect:
  assumes "is_object (rw_run w)"
  shows "rw_alive (report_capacity_wait run d w) = rw_alive w" "rw_kv (report_capacity_wait run d w) = rw_kv w"
    "rw_pass (report_capacity_wait run d w) = rw_pass w" "rw_task (report_capacity_wait run d w) = rw_task w"
    "is_object (rw_run (report_capacity_wait run d w))"
    "to_recover (rw_run (report_capacity_wait run d w)) = to_recover (rw_run w)"
  using assms by (simp_all add: report_capacity_wait_def Let_def quiet_patch quiet_def)

lemma failure_patch_distinct: "distinct (map fst (failure_patch at st nf s))"
  by (simp add: failure_patch_def Let_def)

lemma failure_patch_fence:
  "is_object (rw_run w) \<Longrightarrow> to_recover (rw_run (patch_doc (failure_patch at st True s) w))"
  by (simp add: failure_patch_def Let_def patched)

lemma record_failure_inv:
  assumes i: "exec_inv w" "rw_task w = Some t" and p: "tk_phase t = Failing e"
  shows "exec_inv (record_failure redact at jitter shutdown e t w)"
proof (cases "schedule_retry at jitter shutdown e t w")
  case (Some w')
  then show ?thesis
    using requeued_task [OF i] schedule_effect [OF inv_parts(1) [OF i(1)] Some] p by (auto simp: record_failure_def)
next
  case None
  note o = inv_parts(1) [OF i(1)]
  show ?thesis
  proof (cases "\<not> tk_cancelled t \<and> is_no_capacity e")
    case True
    define w1 where "w1 = patch_doc [(''status'', status_value Queued), (''recoveryPending'', JBool True), (''finishedAt'', JNull)] w"
    have "to_recover (rw_run w1)" "is_object (rw_run w1)" using o by (simp_all add: w1_def patched)
    then show ?thesis
      using requeued_task [OF i] capacity_effect [of w1] p None True
      by (auto simp: record_failure_def Let_def w1_def)
  next
    case False
    define nf where "nf = (cp_isolated (tk_live t) \<and> flat (cp_runner_id (tk_live t)) \<noteq> None)"
    define x1 where "x1 = (if recovers_controller at shutdown e (rw_run w) t
      then update_live at (\<lambda>c. c\<lparr>cp_controller_recoveries := Some (recoveries (tk_live t) + 1)\<rparr>) t w else (t, w))"
    define st where "st = (if tk_cancelled t then Cancelled
      else if shutdown \<or> recovers_controller at shutdown e (rw_run w) t then Queued else Failed)"
    define x2 where "x2 = (if nf \<and> st \<noteq> Queued
      then update_live at (\<lambda>c. c\<lparr>cp_settled := Some (Some (settled_failure st (redact (error_message e)) at))\<rparr>) (fst x1) (snd x1)
      else x1)"
    have c1: "carries (t, w) x1"
      unfolding x1_def by (intro carries_if carries_update carries_refl) (simp add: keeps_names_def)
    moreover have c2: "carries x1 x2"
      unfolding x2_def using carries_update [of _ "fst x1" "snd x1"] by (auto simp: keeps_names_def)
    ultimately have c: "carries (t, w) x2" using carries_trans by blast
    note c' = c [unfolded carries_def, simplified]
    have f: "rw_alive (snd x2) = rw_alive w" "rw_pass (snd x2) = rw_pass w" "is_object (rw_run (snd x2))"
      "pred_option is_object (rw_kv (snd x2))" "extra_ok (tk_live (fst x2))"
      "cp_runner_id (tk_live (fst x2)) = cp_runner_id (tk_live t)" "cp_isolated (tk_live (fst x2)) = cp_isolated (tk_live t)"
      and s: "synced (tk_live t) (rw_kv w) \<Longrightarrow> synced (tk_live (fst x2)) (rw_kv (snd x2))"
      using c' o inv_parts(2) [OF i(1)] task_alive(1) [OF i] by blast+
    have eq: "record_failure redact at jitter shutdown e t w =
        with_task (fst x2, patch_doc (failure_patch at st nf (redact (error_message e))) (snd x2)) Fencing"
      using None False
      by (simp only: record_failure_def Let_def split_beta x2_def x1_def st_def nf_def option.case if_False prod.collapse)
    show ?thesis
      unfolding eq
    proof (rule task_step)
      let ?w = "patch_doc (failure_patch at st nf (redact (error_message e))) (snd x2)"
      show "rw_alive (snd (fst x2, ?w)) = [] \<or> (\<exists>a. rw_alive (snd (fst x2, ?w)) = [a] \<and> named (rw_kv (snd (fst x2, ?w))) a \<and>
         live_status (rw_run (snd (fst x2, ?w))) \<and> machine_phase Fencing \<and>
         (Fencing = Broken \<or> synced (tk_live (fst (fst x2, ?w))) (rw_kv (snd (fst x2, ?w)))) \<and>
         (Fencing = Fencing \<or> Fencing = Releasing False \<longrightarrow> to_recover (rw_run (snd (fst x2, ?w)))))"
      proof (cases "rw_alive w = []")
        case False
        then obtain a where a: "rw_alive w = [a]" "named (rw_kv w) a" "synced (tk_live t) (rw_kv w)"
          using task_alive(4) [OF i] p by auto
        then have nf: "nf" using synced_named nf_def by auto
        then have "to_recover (rw_run ?w)" using failure_patch_fence f(3) by simp
        then show ?thesis using a f s [OF a(3)] by (auto simp: live_status_def synced_named)
      qed (use f in simp)
    qed (use f inv_parts(7) [OF i(1) i(2)] in simp_all)
  qed
qed


lemma fence_task_inv:
  assumes i: "exec_inv w" "rw_task w = Some t" and p: "tk_phase t = Fencing"
  shows "exec_inv (fence_task at confirmed t w)"
proof (cases "cp_isolated (tk_live t) \<and> flat (cp_runner_id (tk_live t)) \<noteq> None")
  case False
  then have "rw_alive w = []" using task_alive(4) [OF i] p by (auto simp: synced_named)
  then show ?thesis
    using False quiet_step [of "update_live at (\<lambda>c. c) t w" "Releasing True"] inv_parts [OF i(1)] task_alive(1) [OF i] i
    by (simp add: fence_task_def)
next
  case True
  show ?thesis
  proof (cases "fence (rw_run w) confirmed w")
    case (Inr w')
    note e = fence_effect [OF inv_parts(2,3) [OF i(1)] Inr]
    have "exec_inv (with_task (update_live at (\<lambda>c. c) t w') (Releasing True))"
      by (rule quiet_step) (use e inv_parts [OF i(1)] task_alive(1) [OF i] i in simp_all)
    then show ?thesis using True Inr by (simp add: fence_task_def)
  next
    case (Inl err)
    define se where "se = (if status_of (rw_run w) \<noteq> Some Queued then settled_from_run (rw_run w) else None)"
    define x1 where "x1 = (case se of Some s \<Rightarrow> update_live at (\<lambda>c. c\<lparr>cp_settled := Some (Some s)\<rparr>) t w | None \<Rightarrow> (t, w))"
    define w2 where "w2 = patch_doc
      [(''status'', status_value Queued), (''recoveryPending'', JBool True), (''finishedAt'', JNull),
       (''accountWaitReason'', JStr VM_STOP_WAIT_REASON)] (snd x1)"
    have "carries (t, w) x1"
      unfolding x1_def by (cases se) (auto intro!: carries_update simp: keeps_names_def)
    note c' = this [unfolded carries_def, simplified]
    have f: "rw_alive (snd x1) = rw_alive w" "rw_pass (snd x1) = rw_pass w" "is_object (rw_run (snd x1))"
      "extra_ok (tk_live (fst x1))" "cp_runner_id (tk_live (fst x1)) = cp_runner_id (tk_live t)"
      "cp_isolated (tk_live (fst x1)) = cp_isolated (tk_live t)"
      using c' inv_parts(1) [OF i(1)] task_alive(1) [OF i] by blast+
    have g: "is_object (rw_run w2)" "to_recover (rw_run w2)" "live_status (rw_run w2)" "rw_alive w2 = rw_alive w"
      "rw_pass w2 = rw_pass w"
      using f by (simp_all add: w2_def patched)
    have eq: "fence_task at confirmed t w = with_task (update_live at (\<lambda>c. c) (fst x1) w2) (Releasing False)"
      using True Inl by (simp add: fence_task_def Let_def split_beta x1_def se_def w2_def)
    show ?thesis
      unfolding eq
    proof (rule task_step)
      let ?u = "update_live at (\<lambda>c. c) (fst x1) w2"
      show "rw_alive (snd ?u) = [] \<or> (\<exists>a. rw_alive (snd ?u) = [a] \<and> named (rw_kv (snd ?u)) a \<and>
         live_status (rw_run (snd ?u)) \<and> machine_phase (Releasing False) \<and>
         (Releasing False = Broken \<or> synced (tk_live (fst ?u)) (rw_kv (snd ?u))) \<and>
         (Releasing False = Fencing \<or> Releasing False = Releasing False \<longrightarrow> to_recover (rw_run (snd ?u))))"
        using task_alive(4) [OF i] p f g by (auto simp: synced_named update_live_named update_live_synced)
    qed (use f g inv_parts(7) [OF i(1) i(2)] in simp_all)
  qed
qed

lemma patch_settled_simps [simp]:
  "rw_kv (patch_settled se w) = rw_kv w" "rw_alive (patch_settled se w) = rw_alive w"
  "rw_pass (patch_settled se w) = rw_pass w" "rw_task (patch_settled se w) = rw_task w"
  "is_object (rw_run (patch_settled se w)) = is_object (rw_run w)"
  by (simp_all add: patch_settled_def split: json.splits)

text \<open>A world without a task.\<close>

lemma idle_step:
  assumes "is_object (rw_run w)" "pred_option is_object (rw_kv w)" "rw_pass w = None" "rw_task w = None"
    and "rw_alive w = [] \<or> (\<exists>a. rw_alive w = [a] \<and> named (rw_kv w) a \<and> to_recover (rw_run w))"
  shows "exec_inv w"
  using assms by (auto simp: exec_inv_def docs_ok_def alive_ok_def pass_ok_def idle_ok_def live_status_def)

lemma release_task_inv:
  assumes i: "exec_inv w" "rw_task w = Some t" and p: "tk_phase t = Releasing fenced"
  shows "exec_inv (release_task at fenced t w)"
proof -
  define w1 where "w1 = (case (if fenced then flat (cp_settled (tk_live t)) else None) of
    Some se \<Rightarrow> patch_settled se w | None \<Rightarrow> w)"
  have w1: "rw_kv w1 = rw_kv w" "rw_alive w1 = rw_alive w" "rw_pass w1 = rw_pass w" "is_object (rw_run w1)"
    and same: "\<not> fenced \<Longrightarrow> w1 = w"
    using inv_parts(1) [OF i(1)] by (auto simp: w1_def split: option.splits)
  have al: "rw_alive w = [] \<or> (\<exists>a. rw_alive w = [a] \<and> named (rw_kv w) a \<and> synced (tk_live t) (rw_kv w) \<and>
      to_recover (rw_run w) \<and> \<not> fenced)"
    using task_alive(4) [OF i] p by auto
  let ?m = "snd (requeue_pending_move at t w1)"
  have m: "is_object (rw_run ?m)" "pred_option is_object (rw_kv ?m)" "rw_pass ?m = None" "rw_alive ?m = rw_alive w"
    using w1 inv_parts(2,7) [OF i(1)] i by (auto simp: requeue_pending_move_def split_beta Let_def)
  have "exec_inv (?m\<lparr>rw_task := None\<rparr>)"
  proof (rule idle_step)
    show "rw_alive (?m\<lparr>rw_task := None\<rparr>) = [] \<or> (\<exists>a. rw_alive (?m\<lparr>rw_task := None\<rparr>) = [a] \<and>
        named (rw_kv (?m\<lparr>rw_task := None\<rparr>)) a \<and> to_recover (rw_run (?m\<lparr>rw_task := None\<rparr>)))"
    proof (cases "rw_alive w = []")
      case False
      then obtain a where a: "rw_alive w = [a]" "named (rw_kv w) a" "synced (tk_live t) (rw_kv w)" "to_recover (rw_run w)"
        and e: "w1 = w" using al same by auto
      have ex: "extra_ok (tk_live t)" using task_alive(1) [OF i] .
      show ?thesis
        using a e inv_parts(1) [OF i(1)] ex m(4)
        by (auto simp: requeue_pending_move_def split_beta Let_def update_live_named synced_named patched
          cp_isolated_prepared)
    qed (use m in simp)
  qed (use m in simp_all)
  then show ?thesis by (simp add: release_task_def w1_def Let_def)
qed

lemma release_breaks_inv:
  assumes i: "exec_inv w" "rw_task w = Some t" and p: "tk_phase t = Releasing fenced"
  shows "exec_inv (with_task (t, (case (if fenced then flat (cp_settled (tk_live t)) else None) of
                        Some se \<Rightarrow> patch_settled se w | None \<Rightarrow> w)) Broken)"
proof (cases fenced)
  case True
  then have "rw_alive w = []" using no_attempt [OF i] p by simp
  then show ?thesis
    by (intro quiet_step) (use inv_parts [OF i(1)] task_alive(1) [OF i] i in \<open>simp_all split: option.splits\<close>)
next
  case False
  then show ?thesis using breaks_inv [OF i] p by simp
qed

lemma requeue_after_error_inv:
  assumes i: "exec_inv w" "rw_task w = Some t" and q: "requeue_after_error lease w = Inr w'"
  shows "exec_inv w'"
proof -
  note d = inv_parts(1,2) [OF i(1)]
  obtain saved where l: "load_checkpoint (rw_kv w) = Inr saved" using load_total [OF d(2)] by blast
  define c where "c = (case saved of None \<Rightarrow> checkpoint_exhausted | Some c \<Rightarrow> c)"
  define c1 where "c1 = (case (if run_active (rw_run w) then None else settled_from_run (rw_run w)) of
     None \<Rightarrow> c | Some se \<Rightarrow> c\<lparr>cp_settled := Some (Some se)\<rparr>)"
  define ps where "ps = [(''status'', status_value Queued), (''recoveryPending'', JBool True), (''finishedAt'', JNull),
      (''accountWaitReason'', JStr ''Recovering after a worker error.'')] @
     (case lease of None \<Rightarrow> [] | Some a \<Rightarrow> [(''accountId'', JStr a)])"
  have w': "w' = (patch_doc ps (store_checkpoint c1 w))\<lparr>rw_task := None\<rparr>"
    using q unfolding requeue_after_error_def l rbind_simps Let_def c_def [symmetric] c1_def [symmetric] ps_def [symmetric]
    by simp
  have c1s: "cp_runner_id c1 = cp_runner_id c" "cp_isolated c1 = cp_isolated c" "extra_ok c1 = extra_ok c"
    by (simp_all add: c1_def cp_isolated_prepared extra_ok_def split: option.splits)
  have n: "rw_alive w = [] \<or> (\<exists>a. rw_alive w = [a] \<and> flat (cp_runner_id c) = Some a \<and> cp_isolated c \<and> extra_ok c)"
  proof (cases saved)
    case None
    then have "rw_kv w = None" using l load_none by blast
    then show ?thesis using inv_parts(3) [OF i(1)] by (auto simp: alive_ok_def named_def)
  next
    case (Some x)
    then show ?thesis
      using load_stored [OF l [unfolded Some] d(2)] inv_parts(3) [OF i(1)] by (auto simp: alive_ok_def named_def c_def)
  qed
  have r: "to_recover (rw_run (patch_doc ps (store_checkpoint c1 w)))"
    using d(1) by (cases lease) (simp_all add: ps_def patched store_checkpoint_def)
  show ?thesis
    by (rule idle_step)
      (use d inv_parts(7) [OF i(1) i(2)] n r c1s in \<open>auto simp: w' store_checkpoint_def named_def kv_value\<close>)
qed


section \<open>Steps without the task\<close>

lemma start_task_inv:
  assumes i: "exec_inv w" and p: "rw_pass w = Some (Launchable run)"
  shows "exec_inv (start_task at run w)"
proof -
  note d = inv_parts(1,2) [OF i]
  have a: "rw_alive w = []" using inv_parts(4) [OF i] p by (simp add: pass_ok_def)
  obtain saved where l: "load_checkpoint (rw_kv w) = Inr saved" using load_total [OF d(2)] by blast
  have "extra_ok (case saved of Some c \<Rightarrow> c | None \<Rightarrow> checkpoint_fresh b)" for b
    using load_stored(1) [of "rw_kv w"] l d(2)
    by (cases saved) (auto simp: checkpoint_fresh_def checkpoint_default_def extra_ok_def)
  then show ?thesis
    using a d by (auto simp: start_task_def l Let_def exec_inv_def docs_ok_def alive_ok_def pass_ok_def task_ok_def)
qed

lemma restart_inv:
  assumes i: "exec_inv w"
  shows "exec_inv (restore_after_restart at w)"
proof -
  define w1 where "w1 = w\<lparr>rw_pass := None, rw_task := None\<rparr>"
  note d = inv_parts(1,2) [OF i]
  have f: "rw_run w1 = rw_run w" "rw_kv w1 = rw_kv w" "rw_alive w1 = rw_alive w" "rw_pass w1 = None" "rw_task w1 = None"
    by (simp_all add: w1_def)
  have al: "rw_alive w = [] \<or> (\<exists>a. rw_alive w = [a] \<and> named (rw_kv w) a \<and> live_status (rw_run w))"
    using inv_parts(3) [OF i] by (simp add: alive_ok_def)
  have kv: "rw_alive w = []" if "rw_kv w = None" using al that by (auto simp: named_def)
  have idle: "exec_inv w1" if "rw_alive w = [] \<or> to_recover (rw_run w)"
    by (rule idle_step) (use d f al that in auto)
  have patch: "exec_inv (patch_doc ps w1)"
    if "rw_alive w = [] \<or> to_recover (rw_run (patch_doc ps w1))" for ps
    by (rule idle_step) (use d f al that in auto)
  have q: "to_recover (rw_run (patch_doc [(''recoveryPending'', JBool True)] w1))" if "to_recover (rw_run w)"
    using that d f by (simp add: patched)
  show ?thesis
    unfolding restore_after_restart_def Let_def w1_def [symmetric]
    using al d f kv idle patch q
    by (auto simp: live_status_def run_active_def patched intro!: patch)
qed


text \<open>A patch that queues the run for recovery keeps the invariant at any time.\<close>

lemma requeue_patch_inv:
  assumes i: "exec_inv w" and q: "to_recover (rw_run (patch_doc ps w))"
  shows "exec_inv (patch_doc ps w)"
proof -
  have "live_status (rw_run (patch_doc ps w))" using q by (simp add: live_status_def)
  then show ?thesis
    using i q by (auto simp: exec_inv_def docs_ok_def alive_ok_def pass_ok_def idle_ok_def task_ok_def
      split: option.splits pass_phase.splits)
qed

text \<open>Nothing is alive and no task holds the run.\<close>

lemma calm_inv:
  assumes "is_object (rw_run w)" "pred_option is_object (rw_kv w)" "rw_task w = None" "rw_alive w = []"
  shows "exec_inv w"
  using assms by (auto simp: exec_inv_def docs_ok_def alive_ok_def pass_ok_def idle_ok_def split: option.splits pass_phase.splits)

lemma request_cancel_inv:
  assumes i: "exec_inv w" and c: "request_cancel at w = Inr w'"
  shows "exec_inv w'"
proof -
  define w1 where "w1 = patch_doc [(''cancelRequestedAt'', JNum at)] w"
  define w2 where "w2 = (if rw_task w = None \<and> \<not> recovering (rw_run w)
     then patch_doc [(''status'', status_value Cancelled), (''finishedAt'', JNum at),
            (''summary'', JStr ''Cancelled before execution.''), (''retry'', JNull)] w1 else w1)"
  have w': "w' = w2\<lparr>rw_task := map_option (\<lambda>t. t\<lparr>tk_cancelled := True\<rparr>) (rw_task w2)\<rparr>"
    using c by (auto simp: request_cancel_def Let_def w1_def w2_def split: if_splits)
  have i1: "exec_inv w1" unfolding w1_def by (rule quiet_patch_inv [OF i]) (simp add: quiet_def)
  have i2: "exec_inv w2"
  proof (cases "rw_task w = None \<and> \<not> recovering (rw_run w)")
    case True
    then have "rw_alive w = []" using inv_parts(5) [OF i] by (auto simp: idle_ok_def to_recover_def)
    then show ?thesis
      unfolding w2_def using True inv_parts(1,2) [OF i] by (simp, intro calm_inv) (simp_all add: w1_def)
  next
    case False
    then have "w2 = w1" unfolding w2_def by (rule if_not_P)
    then show ?thesis using i1 by simp
  qed
  then show ?thesis
    by (auto simp: w' exec_inv_def docs_ok_def alive_ok_def pass_ok_def idle_ok_def task_ok_def
      split: option.splits pass_phase.splits)
qed

lemma idle_requeue_inv:
  assumes i: "exec_inv w" and t: "rw_task w = None" "rw_task w1 = None"
    and s: "rw_pass w1 = rw_pass w" "rw_alive w1 = rw_alive w" "is_object (rw_run w1)" "pred_option is_object (rw_kv w1)"
      "kv_runner (rw_kv w1) = kv_runner (rw_kv w)" "kv_isolated (rw_kv w1) = kv_isolated (rw_kv w)" "to_recover (rw_run w1)"
  shows "exec_inv w1"
proof -
  have n: "named (rw_kv w1) = named (rw_kv w)" using s by (simp add: named_def fun_eq_iff)
  have "live_status (rw_run w1)" using s(7) by (simp add: live_status_def)
  moreover have "alive_ok w" "pass_ok w" using inv_parts(3,4) [OF i] .
  ultimately show ?thesis
    using s(1-4,7) t n
    by (auto simp: exec_inv_def docs_ok_def alive_ok_def pass_ok_def idle_ok_def split: option.splits pass_phase.splits)
qed

lemma requeue_effect:
  assumes r: "requeue trashed refused busy w = Inr w'" and l: "load_checkpoint (rw_kv w) = Inr saved"
  obtains f b ps where "w' = patch_doc ps (case saved of None \<Rightarrow> w | Some c \<Rightarrow> store_checkpoint (f c) w)"
    "\<And>c. cp_runner_id (f c) = cp_runner_id c" "\<And>c. cp_isolated (f c) = cp_isolated c"
    "\<And>c. extra_ok (f c) = extra_ok c"
    "ps = [(''status'', status_value Queued), (''error'', JNull), (''outcome'', JNull),
       (''recoveryPending'', JBool True), (''cancelRequestedAt'', JNull), (''finishedAt'', JNull),
       (''accountWaitReason'', b), (''retry'', JNull)]"
proof -
  define bl where "bl = (is_object (jat (rw_run w) ''chatExecution'') \<and>
    (status_of (rw_run w) = Some Failed \<or> status_of (rw_run w) = Some Cancelled) \<and>
    (case saved of None \<Rightarrow> True | Some c \<Rightarrow> \<not> cp_is_launched c))"
  define f where "f = (\<lambda>c :: run_checkpoint. c\<lparr>cp_remaining_ms := Some (budget_ms (jat (jat (rw_run w) ''snapshot'') ''agent'')),
    cp_completed := (if bl then cp_completed c else Some False), cp_settled := None, cp_retry_cause := Some None\<rparr>)"
  have "w' = patch_doc [(''status'', status_value Queued), (''error'', JNull), (''outcome'', JNull),
     (''recoveryPending'', JBool True), (''cancelRequestedAt'', JNull), (''finishedAt'', JNull),
     (''accountWaitReason'', if bl then JNull else JStr ''Resuming saved conversation.''), (''retry'', JNull)]
     (case saved of None \<Rightarrow> w | Some c \<Rightarrow> store_checkpoint (f c) w)"
    using r unfolding requeue_def Let_def l rbind_simps bl_def [symmetric]
    by (auto simp: f_def split: if_splits option.splits)
  then show thesis
    by (rule that) (simp_all add: f_def extra_ok_def cp_isolated_prepared)
qed

lemma requeue_inv:
  assumes i: "exec_inv w" and r: "requeue trashed refused busy w = Inr w'"
  shows "exec_inv w'"
proof -
  note d = inv_parts(1,2) [OF i]
  have t: "rw_task w = None" using r by (auto simp: requeue_def Let_def split: if_splits)
  obtain saved where l: "load_checkpoint (rw_kv w) = Inr saved" using load_total [OF d(2)] by blast
  obtain f b ps where w': "w' = patch_doc ps (case saved of None \<Rightarrow> w | Some c \<Rightarrow> store_checkpoint (f c) w)"
    and f: "\<And>c. cp_runner_id (f c) = cp_runner_id c" "\<And>c. cp_isolated (f c) = cp_isolated c"
      "\<And>c. extra_ok (f c) = extra_ok c"
    and ps: "ps = [(''status'', status_value Queued), (''error'', JNull), (''outcome'', JNull),
       (''recoveryPending'', JBool True), (''cancelRequestedAt'', JNull), (''finishedAt'', JNull),
       (''accountWaitReason'', b), (''retry'', JNull)]"
    by (rule requeue_effect [OF r l]) (rule that; assumption)
  define w1 where "w1 = (case saved of None \<Rightarrow> w | Some c \<Rightarrow> store_checkpoint (f c) w)"
  have k: "pred_option is_object (rw_kv w1)" "kv_runner (rw_kv w1) = kv_runner (rw_kv w)"
    "kv_isolated (rw_kv w1) = kv_isolated (rw_kv w)"
    using d(2) load_stored [of "rw_kv w"] l f
    by (cases saved; simp add: w1_def store_checkpoint_def kv_value)+
  have s: "rw_run w1 = rw_run w" "rw_alive w1 = rw_alive w" "rw_pass w1 = rw_pass w" "rw_task w1 = rw_task w"
    by (simp_all add: w1_def store_checkpoint_def split: option.splits)
  have "exec_inv (patch_doc ps w1)"
    by (rule idle_requeue_inv [OF i t]) (use s t d k in \<open>simp_all add: patched ps\<close>)
  then show ?thesis by (simp add: w' w1_def)
qed


lemma continue_run_inv:
  assumes i: "exec_inv w" and t: "rw_task w = None"
    and c: "continue_run covered dropped switched sn ex w = Inr w'"
  shows "exec_inv w'"
proof -
  note d = inv_parts(1,2) [OF i]
  obtain v where v: "(case rw_kv w of Some v \<Rightarrow> Inr v
      | None \<Rightarrow> if dropped then Inr (JObj []) else Inl (Conflict ''Run checkpoint not found'')) = Inr v"
    using c unfolding continue_run_def by (auto simp: rbind_Inr_iff split: if_splits)
  have vo: "is_object v" using v d(2) by (cases "rw_kv w") (auto split: if_splits)
  have vn: "kv_runner (Some v) = kv_runner (rw_kv w)" "kv_isolated (Some v) = kv_isolated (rw_kv w)"
    using v by (cases "rw_kv w"; auto simp: kv_object nullable_read_def isolated_prepared_def flat_def split: if_splits)+
  define fresh where "fresh = (switched \<or> jat v ''freshSession'' = JBool True)"
  define v1 where "v1 = (if fresh then obj_remove ''controllerRecoveries''
    (obj_put ''launched'' (JBool False) (obj_put ''freshSession'' (JBool False) v)) else v)"
  define v2 where "v2 = obj_remove ''settled'' (obj_remove ''lastMessage''
     (obj_put ''remainingMs'' (nullable JNum (budget_ms (jat sn ''agent''))) (obj_put ''completed'' (JBool False) v1)))"
  define w1 where "w1 = (if fresh then patch_doc [(''sessionId'', JNull), (''resumeAvailable'', JBool False)] w else w)"
  have o1: "is_object v1" "kv_runner (Some v1) = kv_runner (Some v)" "kv_isolated (Some v1) = kv_isolated (Some v)"
    using vo by (simp_all add: v1_def kv_put)
  have o2: "is_object v2" "kv_runner (Some v2) = kv_runner (Some v)" "kv_isolated (Some v2) = kv_isolated (Some v)"
    using o1 by (simp_all add: v2_def kv_put)
  have w': "w' = patch_doc [(''snapshot'', sn), (''status'', status_value Queued), (''summary'', JStr []),
       (''error'', JNull), (''outcome'', JNull), (''finishedAt'', JNull), (''cancelRequestedAt'', JNull),
       (''recoveryPending'', JBool True), (''chatExecution'', ex)] (w1\<lparr>rw_kv := Some v2\<rparr>)"
    using c unfolding continue_run_def v rbind_simps Let_def fresh_def [symmetric] v1_def [symmetric] v2_def [symmetric]
      w1_def [symmetric]
    by (simp split: if_splits)
  have w1: "is_object (rw_run w1)" "rw_alive w1 = rw_alive w" "rw_pass w1 = rw_pass w" "rw_task w1 = None"
    using d(1) t by (simp_all add: w1_def)
  show ?thesis
    by (rule idle_requeue_inv [OF i t]) (use w1 o2 vn in \<open>simp_all add: w' patched\<close>)
qed

lemma record_request_inv:
  assumes i: "exec_inv w" and r: "record_request m idle expected w = Inr w'"
  shows "exec_inv w'"
proof (cases "idle \<or> expected = Queued")
  case True
  then have "w' = patch_doc [(''movementError'', JNull), (''capacityWaitUntil'', JNull), (''moveRequest'', m),
      (''nodeState'', JStr ''pausing''), (''status'', status_value Queued), (''recoveryPending'', JBool True)] w"
    using r by (auto simp: record_request_def Let_def split: if_splits)
  then show ?thesis using requeue_patch_inv [OF i] inv_parts(1) [OF i] by (simp add: patched)
next
  case False
  then have "w' = patch_doc [(''movementError'', JNull), (''capacityWaitUntil'', JNull), (''moveRequest'', m),
      (''nodeState'', JStr ''pausing'')] w"
    using r by (auto simp: record_request_def Let_def split: if_splits)
  then show ?thesis using quiet_patch_inv [OF i] by (simp add: quiet_def)
qed

lemma pass_calm:
  assumes i: "exec_inv w" and p: "rw_pass w = Some p" and n: "\<And>run. p \<noteq> Listed run"
  shows "rw_task w = None" "rw_alive w = []"
  using inv_parts(4) [OF i] p n by (auto simp: pass_ok_def split: pass_phase.splits)

lemma resume_at_destination_calm:
  assumes d: "is_object (rw_run w)" "pred_option is_object (rw_kv w)"
    and r: "resume_at_destination m backup tags w = Inr w'"
  shows "is_object (rw_run w')" "pred_option is_object (rw_kv w')" "rw_task w' = rw_task w" "rw_alive w' = rw_alive w"
  using r d by (auto simp: resume_at_destination_def Let_def split: option.splits if_splits)

lemma settle_recovery_calm:
  assumes d: "is_object (rw_run w)" "pred_option is_object (rw_kv w)" and r: "settle_recovery at w = Inr (ready, w')"
  shows "is_object (rw_run w')" "pred_option is_object (rw_kv w')" "rw_task w' = rw_task w" "rw_alive w' = rw_alive w"
proof -
  obtain saved where l: "load_checkpoint (rw_kv w) = Inr saved" using load_total [OF d(2)] by blast
  have "w' = w \<or> (\<exists>ps. w' = patch_doc ps w) \<or> (\<exists>se. w' = patch_settled se w)"
    using r by (auto simp: settle_recovery_def l split: option.splits if_splits)
  then show "is_object (rw_run w')" "pred_option is_object (rw_kv w')" "rw_task w' = rw_task w" "rw_alive w' = rw_alive w"
    using d by auto
qed

lemma finish_recovery_calm:
  assumes "is_object (rw_run w)" "pred_option is_object (rw_kv w)" "finish_recovery at w = (ready, w')"
  shows "is_object (rw_run w')" "pred_option is_object (rw_kv w')" "rw_task w' = rw_task w" "rw_alive w' = rw_alive w"
  using assms by (auto simp: finish_recovery_def split: if_splits)

text \<open>What a pass does to a calm run, whatever its next phase.\<close>

lemma calm_pass:
  assumes "is_object (rw_run w)" "pred_option is_object (rw_kv w)" "rw_task w = None" "rw_alive w = []"
  shows "exec_inv (w\<lparr>rw_pass := p\<rparr>)"
  by (rule calm_inv) (use assms in simp_all)

lemma pass_ends_inv: "exec_inv w \<Longrightarrow> exec_inv (w\<lparr>rw_pass := None\<rparr>)"
  by (auto simp: exec_inv_def docs_ok_def alive_ok_def pass_ok_def idle_ok_def task_ok_def split: option.splits)

lemma recovery_waits_inv: "exec_inv w \<Longrightarrow> exec_inv ((recovery_waits run w)\<lparr>rw_pass := None\<rparr>)"
  by (intro pass_ends_inv) (simp add: recovery_waits_def quiet_patch_inv quiet_def)

lemma capacity_wait_inv: "exec_inv w \<Longrightarrow> exec_inv ((report_capacity_wait run d w)\<lparr>rw_pass := None\<rparr>)"
  by (intro pass_ends_inv) (simp add: report_capacity_wait_def Let_def quiet_patch_inv quiet_def)

lemma account_wait_inv: "exec_inv w \<Longrightarrow> exec_inv ((report_account_wait run m q w)\<lparr>rw_pass := None\<rparr>)"
  by (intro pass_ends_inv) (simp add: report_account_wait_def quiet_patch_inv quiet_def)

lemma list_run_inv:
  assumes i: "exec_inv w" and t: "rw_task w = None"
  shows "exec_inv (w\<lparr>rw_pass := Some (Listed (rw_run w))\<rparr>)"
proof -
  have "recovering (rw_run w) \<or> rw_alive w = []"
    using inv_parts(5) [OF i t] by (auto simp: idle_ok_def to_recover_def)
  then show ?thesis using i t by (simp add: exec_inv_def docs_ok_def alive_ok_def pass_ok_def idle_ok_def)
qed

lemma pass_fences_inv:
  assumes i: "exec_inv w" and p: "rw_pass w = Some (Listed run)" and f: "fence run confirmed w = Inr w'"
  shows "exec_inv (w'\<lparr>rw_pass := Some (Fenced run)\<rparr>)"
proof -
  have "rw_task w = None" using inv_parts(4) [OF i] p by (simp add: pass_ok_def)
  then show ?thesis
    using fence_effect [OF inv_parts(2,3) [OF i] f] inv_parts(1) [OF i] by (intro calm_pass) simp_all
qed

theorem exec_inv_step:
  assumes "worker_step redact payload w w'" "exec_inv w"
  shows "exec_inv w'"
  using assms
proof (cases rule: worker_step.cases)
  case (no_recovery run)
  then have "rw_task w = None" "rw_alive w = []" using inv_parts(4) [OF assms(2)] by (auto simp: pass_ok_def)
  then show ?thesis using calm_pass inv_parts(1,2) [OF assms(2)] no_recovery by simp
next
  case (moved run m backup tags w1)
  note c = pass_calm [OF assms(2) moved(2)] and d = inv_parts(1,2) [OF assms(2)]
  show ?thesis
    unfolding moved(1) using resume_at_destination_calm [OF d moved(3)] c by (intro calm_pass) simp_all
next
  case (move_failed run m message)
  note c = pass_calm [OF assms(2) move_failed(2)] and d = inv_parts(1,2) [OF assms(2)]
  show ?thesis
    unfolding move_failed(1) using c d by (intro calm_pass) (simp_all add: fail_transfer_def Let_def)
next
  case (settles run at ready w1)
  note c = pass_calm [OF assms(2) settles(2)] and d = inv_parts(1,2) [OF assms(2)]
  show ?thesis
    unfolding settles(1) using settle_recovery_calm [OF d settles(3)] c by (intro calm_pass) simp_all
next
  case (recovered run at ready w1)
  note c = pass_calm [OF assms(2) recovered(2)] and d = inv_parts(1,2) [OF assms(2)]
  show ?thesis
    unfolding recovered(1) using finish_recovery_calm [OF d recovered(3)] c by (intro calm_pass) simp_all
next
  case (admits run at)
  then show ?thesis using calm_pass pass_calm [OF assms(2) admits(2)] inv_parts(1,2) [OF assms(2)] by simp
next
  case (acquires run)
  then show ?thesis using calm_pass pass_calm [OF assms(2) acquires(2)] inv_parts(1,2) [OF assms(2)] by simp
next
  case (spawns t at identity)
  then show ?thesis using spawn_process_inv [OF assms(2) spawns(2)] by (simp split: if_splits)
next
  case (fails t e)
  then show ?thesis using fails_inv [OF assms(2) fails(2)] by auto
next
  case (breaks t e)
  then show ?thesis using breaks_inv [OF assms(2) breaks(2)] by auto
next
  case (attempt_fails t shutdown has_account ex e)
  then show ?thesis using fails_inv [OF assms(2) attempt_fails(2)] by auto
next
  case (release_breaks t fenced)
  then show ?thesis using release_breaks_inv [OF assms(2) release_breaks(2,3)] by simp
qed (use assms(2) in \<open>auto intro: restart_inv request_cancel_inv requeue_inv continue_run_inv record_request_inv
  list_run_inv pass_ends_inv recovery_waits_inv pass_fences_inv capacity_wait_inv account_wait_inv start_task_inv
  mark_running_inv quiet_patch_inv prepare_workspace_inv place_attempt_inv start_child_inv apply_event_inv
  start_rejected_inv heartbeat_inv attempt_exited_inv fence_attempt_inv switch_account_inv finish_inv record_failure_inv
  fence_task_inv release_task_inv requeue_after_error_inv simp: quiet_def resume_session_def\<close>)

end
