(* ===== verification/Run_Typed.thy ===== *)
theory Run_Typed
  imports Run_Inv
begin

text \<open>
  The types of a run document: its status is one of the six, its retry is null or a plan with one to three
  attempts, and the number of automatic retries since the run was settled or resumed never exceeds the
  attempts the document shows.
\<close>

section \<open>Typed documents\<close>

definition retry_typed :: "json \<Rightarrow> bool" where
  "retry_typed v \<longleftrightarrow> v = JNull \<or>
     (is_object v \<and> 1 \<le> previous_attempt (Some v) \<and> previous_attempt (Some v) \<le> MAX_ATTEMPTS)"

definition attempts :: "json \<Rightarrow> nat" where
  "attempts v = previous_attempt (if is_object v then Some v else None)"

definition doc_typed :: "json \<Rightarrow> bool" where
  "doc_typed run \<longleftrightarrow> is_object run \<and> status_of run \<noteq> None \<and> retry_typed (jat run ''retry'')"

definition core :: "run_world \<Rightarrow> bool" where
  "core w \<longleftrightarrow> doc_typed (rw_run w) \<and> rw_retries w \<le> attempts (jat (rw_run w) ''retry'')"

definition listed_ok :: "run_world \<Rightarrow> json \<Rightarrow> bool" where
  "listed_ok w run \<longleftrightarrow> retry_typed (jat run ''retry'') \<and> rw_retries w \<le> attempts (jat run ''retry'')"

fun pass_run :: "pass_phase \<Rightarrow> json" where
  "pass_run (Listed r) = r" | "pass_run (Fenced r) = r" | "pass_run (Checked r) = r"
| "pass_run (Recovered r) = r" | "pass_run (Admitted r) = r" | "pass_run (Launchable r) = r"

definition typed :: "run_world \<Rightarrow> bool" where
  "typed w \<longleftrightarrow> core w \<and> (case rw_pass w of None \<Rightarrow> True | Some p \<Rightarrow> listed_ok w (pass_run p)) \<and>
     (case rw_task w of None \<Rightarrow> True | Some t \<Rightarrow> tk_phase t = Starting \<longrightarrow> listed_ok w (tk_run t))"

lemma attempts_bound: "retry_typed v \<Longrightarrow> attempts v \<le> MAX_ATTEMPTS"
  by (auto simp: retry_typed_def attempts_def previous_attempt_def)

lemma attempts_JNull [simp]: "attempts JNull = 0"
  by (simp add: attempts_def previous_attempt_def)

section \<open>Patches\<close>

text \<open>A mild patch writes a status, if any, by its name, and resets the retry, if it names it.\<close>

definition mild :: "(string \<times> json) list \<Rightarrow> bool" where
  "mild ps \<longleftrightarrow> distinct (map fst ps) \<and>
     (case map_of ps ''status'' of None \<Rightarrow> True | Some x \<Rightarrow> Option.bind (as_str x) status_parse \<noteq> None) \<and>
     (case map_of ps ''retry'' of None \<Rightarrow> True | Some x \<Rightarrow> x = JNull)"

lemma mildD:
  assumes "mild ps"
  shows "distinct (map fst ps)" "map_of ps ''status'' = Some x \<Longrightarrow> Option.bind (as_str x) status_parse \<noteq> None"
    "map_of ps ''retry'' = None \<or> map_of ps ''retry'' = Some JNull"
  using assms unfolding mild_def by (simp_all split: option.splits)

lemma mild_patch:
  assumes c: "core w" and m: "mild ps"
  shows "core (patch_doc ps w)" "rw_retries (patch_doc ps w) \<le> rw_retries w"
proof -
  have o: "is_object (rw_run w)" and st: "status_of (rw_run w) \<noteq> None"
    and rt: "retry_typed (jat (rw_run w) ''retry'')" "rw_retries w \<le> attempts (jat (rw_run w) ''retry'')"
    using c by (simp_all add: core_def doc_typed_def)
  note d = mildD(1) [OF m]
  have s: "status_of (rw_run (patch_doc ps w)) \<noteq> None"
  proof (cases "map_of ps ''status''")
    case (Some x)
    then show ?thesis using mildD(2) [OF m Some] status_patch [OF o d] by simp
  qed (use st status_patch [OF o d] in simp)
  from mildD(3) [OF m] show "core (patch_doc ps w)"
  proof
    assume n: "map_of ps ''retry'' = None"
    then have "jat (rw_run (patch_doc ps w)) ''retry'' = jat (rw_run w) ''retry''" using jat_patch [OF o d] by simp
    moreover have "rw_retries (patch_doc ps w) = rw_retries w" using n by (simp add: patch_doc_def)
    ultimately show ?thesis using s o rt by (simp add: core_def doc_typed_def)
  next
    assume n: "map_of ps ''retry'' = Some JNull"
    then have "jat (rw_run (patch_doc ps w)) ''retry'' = JNull" using jat_patch [OF o d] by simp
    moreover have "rw_retries (patch_doc ps w) = 0" using n by (simp add: patch_doc_def)
    ultimately show ?thesis using s o by (simp add: core_def doc_typed_def retry_typed_def)
  qed
  show "rw_retries (patch_doc ps w) \<le> rw_retries w" by (simp add: patch_doc_def)
qed

lemma core_frame [simp]:
  "core (w\<lparr>rw_kv := kv\<rparr>) = core w" "core (w\<lparr>rw_alive := al\<rparr>) = core w" "core (w\<lparr>rw_pass := p\<rparr>) = core w"
  "core (w\<lparr>rw_task := t\<rparr>) = core w" "core (w\<lparr>rw_pass := p, rw_task := t\<rparr>) = core w"
  "core (store_checkpoint c w) = core w" "core (with_task tw ph) = core (snd tw)"
  "core (snd (update_live at f t'' w)) = core w"
  by (simp_all add: core_def store_checkpoint_def)

lemma retries_frame [simp]: "rw_retries (store_checkpoint c w) = rw_retries w"
  by (simp add: store_checkpoint_def)

definition milder :: "run_world \<Rightarrow> run_world \<Rightarrow> bool" where
  "milder w w' \<longleftrightarrow> (core w \<longrightarrow> core w' \<and> rw_retries w' \<le> rw_retries w)"

lemma milder_refl [simp]: "milder w w"
  by (simp add: milder_def)

lemma milder_trans: "milder u v \<Longrightarrow> milder v w \<Longrightarrow> milder u w"
  by (auto simp: milder_def)

lemma milder_patch: "mild ps \<Longrightarrow> milder w (patch_doc ps w)"
  by (simp add: milder_def mild_patch)

lemma milder_frame [simp]:
  "milder w (w'\<lparr>rw_kv := kv\<rparr>) = milder w w'" "milder w (w'\<lparr>rw_alive := al\<rparr>) = milder w w'"
  "milder w (w'\<lparr>rw_pass := p\<rparr>) = milder w w'" "milder w (w'\<lparr>rw_task := t\<rparr>) = milder w w'"
  "milder w (w'\<lparr>rw_pass := p, rw_task := t\<rparr>) = milder w w'"
  "milder w (store_checkpoint c w') = milder w w'" "milder w (with_task tw ph) = milder w (snd tw)"
  "milder w (snd (update_live at f t' w')) = milder w w'"
  by (simp_all add: milder_def)

lemma milder_frame_left [simp]:
  "milder (w\<lparr>rw_kv := kv\<rparr>) w' = milder w w'" "milder (w\<lparr>rw_pass := p, rw_task := t\<rparr>) w' = milder w w'"
  "milder (store_checkpoint c w) w' = milder w w'" "milder (snd (update_live at f t' w)) w' = milder w w'"
  by (simp_all add: milder_def)

lemma settled_patch_mild:
  obtains ps where "settled_patch se = JObj ps" "mild ps"
proof -
  have "ordered (settled_patch se)"
    by (simp add: settled_patch_def ordered_merge settled_value_def split: option.splits)
  then obtain ps where ps: "settled_patch se = JObj ps" and d: "distinct (map fst ps)"
    by (cases "settled_patch se") (auto simp: strict_sorted_iff)
  have g: "jget (settled_patch se) k = (case map_of ([(''accountWaitReason'', JNull), (''recoveryPending'', JBool False)] @
            (if se_status se = Cancelled then [(''retry'', JNull)] else [])) k of
       None \<Rightarrow> jget (settled_value se) k | Some x \<Rightarrow> Some x)" for k
    unfolding settled_patch_def by (rule jget_merge) (simp_all add: settled_value_def)
  have "map_of ps ''status'' = Some (status_value (se_status se))"
    using g [of "''status''"] by (simp add: ps settled_value_def split: option.splits if_splits)
  moreover have "map_of ps ''retry'' = None \<or> map_of ps ''retry'' = Some JNull"
    using g [of "''retry''"] by (auto simp: ps settled_value_def split: option.splits if_splits)
  ultimately have "mild ps" using d by (auto simp: mild_def)
  then show thesis using that ps by blast
qed

lemma patch_settled_milder: "milder w (patch_settled se w)"
proof -
  obtain ps where "settled_patch se = JObj ps" "mild ps" by (rule settled_patch_mild)
  then show ?thesis by (simp add: patch_settled_def milder_patch)
qed

section \<open>Steps that keep a typed run\<close>

definition keeps :: "run_world \<Rightarrow> run_world \<Rightarrow> bool" where
  "keeps w w' \<longleftrightarrow> milder w w' \<and>
     (\<forall>p'. rw_pass w' = Some p' \<longrightarrow> (\<exists>p. rw_pass w = Some p \<and> pass_run p' = pass_run p)) \<and>
     (\<forall>t'. rw_task w' = Some t' \<and> tk_phase t' = Starting \<longrightarrow>
        (\<exists>t. rw_task w = Some t \<and> tk_phase t = Starting \<and> tk_run t' = tk_run t))"

lemma keeps_typed:
  assumes k: "keeps w w'" and t: "typed w"
  shows "typed w'"
proof -
  have c: "core w'" "rw_retries w' \<le> rw_retries w" using k t by (auto simp: keeps_def milder_def typed_def)
  have "listed_ok w' (pass_run p')" if pw: "rw_pass w' = Some p'" for p'
  proof -
    obtain p where "rw_pass w = Some p" "pass_run p' = pass_run p" using k pw unfolding keeps_def by blast
    then show ?thesis using t c(2) by (auto simp: typed_def listed_ok_def)
  qed
  moreover have "listed_ok w' (tk_run t')" if tw: "rw_task w' = Some t'" "tk_phase t' = Starting" for t'
  proof -
    obtain t1 where "rw_task w = Some t1" "tk_phase t1 = Starting" "tk_run t' = tk_run t1"
      using k tw unfolding keeps_def by blast
    then show ?thesis using t c(2) by (auto simp: typed_def listed_ok_def)
  qed
  ultimately show ?thesis using c by (auto simp: typed_def split: option.splits)
qed

lemma ended_typed: "core (snd tw) \<Longrightarrow> rw_pass (snd tw) = None \<Longrightarrow> p \<noteq> Starting \<Longrightarrow> typed (with_task tw p)"
  by (simp add: typed_def)

lemma keeps_pass_none: "milder w w' \<Longrightarrow> rw_task w' = rw_task w \<Longrightarrow> keeps w (w'\<lparr>rw_pass := None\<rparr>)"
  by (simp add: keeps_def)

lemma keeps_pass:
  "milder w w' \<Longrightarrow> rw_task w' = rw_task w \<Longrightarrow> rw_pass w = Some p \<Longrightarrow> pass_run p' = pass_run p \<Longrightarrow>
     keeps w (w'\<lparr>rw_pass := Some p'\<rparr>)"
  by (simp add: keeps_def)

lemma keeps_task: "milder w (snd tw) \<Longrightarrow> rw_pass (snd tw) = rw_pass w \<Longrightarrow> p \<noteq> Starting \<Longrightarrow> keeps w (with_task tw p)"
  by (simp add: keeps_def)

lemma keeps_same: "milder w w' \<Longrightarrow> rw_pass w' = rw_pass w \<Longrightarrow> rw_task w' = rw_task w \<Longrightarrow> keeps w w'"
  by (simp add: keeps_def)

lemma milder_patch_trans: "milder w w' \<Longrightarrow> mild ps \<Longrightarrow> milder w (patch_doc ps w')"
  using milder_trans milder_patch by blast

lemma fence_milder:
  assumes "fence run confirmed w = Inr w'"
  shows "milder w w'" "rw_pass w' = rw_pass w" "rw_task w' = rw_task w"
  using assms by (auto simp: fence_def rbind_Inr_iff Let_def store_checkpoint_def milder_def core_def
      split: if_splits option.splits)

lemmas mild_simps = mild_def milder_patch_trans Let_def split_beta

lemma restore_keeps: "keeps w (restore_after_restart at w)"
  by (simp add: keeps_def restore_after_restart_def mild_simps)

lemma request_cancel_keeps:
  assumes "request_cancel at w = Inr w'"
  shows "keeps w w'"
proof -
  define w1 where "w1 = patch_doc [(''cancelRequestedAt'', JNum at)] w"
  define w2 where "w2 = patch_doc [(''status'', status_value Cancelled), (''finishedAt'', JNum at),
    (''summary'', JStr ''Cancelled before execution.''), (''retry'', JNull)] w1"
  have "w' = w1\<lparr>rw_task := map_option (\<lambda>t. t\<lparr>tk_cancelled := True\<rparr>) (rw_task w1)\<rparr> \<or>
        w' = w2\<lparr>rw_task := map_option (\<lambda>t. t\<lparr>tk_cancelled := True\<rparr>) (rw_task w2)\<rparr>"
    using assms by (auto simp: request_cancel_def w1_def w2_def Let_def split: if_splits)
  moreover have "milder w w1" "milder w w2" "rw_pass w1 = rw_pass w" "rw_pass w2 = rw_pass w"
    "rw_task w1 = rw_task w" "rw_task w2 = rw_task w"
    by (simp_all add: w1_def w2_def mild_simps)
  ultimately show ?thesis by (auto simp: keeps_def)
qed

lemma milder_saved: "milder w (case x of None \<Rightarrow> w | Some c \<Rightarrow> store_checkpoint (f c) w)"
  by (simp split: option.splits)

lemma saved_frame:
  "rw_pass (case x of None \<Rightarrow> w | Some c \<Rightarrow> store_checkpoint (f c) w) = rw_pass w"
  "rw_task (case x of None \<Rightarrow> w | Some c \<Rightarrow> store_checkpoint (f c) w) = rw_task w"
  by (simp_all add: store_checkpoint_def split: option.splits)

lemma requeue_keeps:
  assumes r: "requeue trashed refused busy w = Inr w'"
  shows "keeps w w'"
proof -
  obtain saved where l: "load_checkpoint (rw_kv w) = Inr saved"
    using r by (auto simp: requeue_def Let_def rbind_Inr_iff split: if_splits option.splits)
  obtain f b ps where w': "w' = patch_doc ps (case saved of None \<Rightarrow> w | Some c \<Rightarrow> store_checkpoint (f c) w)"
    and ps: "ps = [(''status'', status_value Queued), (''error'', JNull), (''outcome'', JNull),
       (''recoveryPending'', JBool True), (''cancelRequestedAt'', JNull), (''finishedAt'', JNull),
       (''accountWaitReason'', b), (''retry'', JNull)]"
    by (rule requeue_effect [OF r l]) (rule that; assumption)
  show ?thesis
    unfolding w' by (rule keeps_same) (simp_all add: ps mild_simps milder_saved saved_frame)
qed

lemma continue_run_keeps:
  assumes "continue_run covered dropped switched sn ex w = Inr w'"
  shows "keeps w w'"
proof (rule keeps_same)
  show "rw_pass w' = rw_pass w" "rw_task w' = rw_task w"
    using assms by (auto simp: continue_run_def rbind_Inr_iff Let_def split: if_splits option.splits)
  show "milder w w'"
    using assms unfolding continue_run_def rbind_Inr_iff Let_def
    by (auto simp: mild_simps split: if_splits option.splits)
qed

lemma record_request_keeps:
  assumes "record_request m idle expected w = Inr w'"
  shows "keeps w w'"
  by (rule keeps_same) (use assms in \<open>auto simp: record_request_def mild_simps split: if_splits\<close>)

lemma resume_at_destination_milder:
  assumes "resume_at_destination m backup tags w = Inr w'"
  shows "milder w w'" "rw_task w' = rw_task w"
  using assms by (auto simp: resume_at_destination_def mild_simps split: option.splits if_splits)

lemma fail_transfer_milder: "milder w (fail_transfer m message w)" "rw_task (fail_transfer m message w) = rw_task w"
  by (simp_all add: fail_transfer_def mild_simps)

lemma patch_settled_task [simp]: "rw_task (patch_settled se w) = rw_task w"
  by (simp add: patch_settled_def split: json.splits)

lemma settle_recovery_milder:
  assumes "settle_recovery at w = Inr (ready, w')"
  shows "milder w w'" "rw_task w' = rw_task w"
proof -
  have "milder w (patch_doc (cancelled_recovery at) w)" by (simp add: cancelled_recovery_def mild_simps)
  moreover have "w' = w \<or> w' = patch_doc (cancelled_recovery at) w \<or> (\<exists>se. w' = patch_settled se w) \<or>
      (\<exists>s. w' = patch_doc [(''status'', status_value Succeeded), (''finishedAt'', JNum at), (''resumeAvailable'', JBool False),
         (''accountWaitReason'', JNull), (''recoveryPending'', JBool False), (''summary'', JStr s)] w)"
    using assms by (cases "load_checkpoint (rw_kv w)")
      (auto simp: settle_recovery_def split: option.splits if_splits)
  ultimately show "milder w w'" "rw_task w' = rw_task w"
    using patch_settled_milder by (auto simp: mild_simps)
qed

lemma finish_recovery_milder:
  assumes "finish_recovery at w = (ready, w')"
  shows "milder w w'" "rw_task w' = rw_task w"
  using assms by (auto simp: finish_recovery_def cancelled_recovery_def mild_simps split: if_splits)

lemma waits_milder:
  "milder w (recovery_waits run w)" "milder w (report_capacity_wait run d w)"
  "milder w (report_account_wait run m q w)"
  by (simp_all add: recovery_waits_def report_capacity_wait_def report_account_wait_def mild_simps)

lemma waits_task:
  "rw_task (recovery_waits run w) = rw_task w" "rw_task (report_capacity_wait run d w) = rw_task w"
  "rw_task (report_account_wait run m q w) = rw_task w" "rw_pass (report_capacity_wait run d w) = rw_pass w"
  by (simp_all add: recovery_waits_def report_capacity_wait_def report_account_wait_def Let_def)

section \<open>Steps of the task\<close>

lemma milder_update: "milder w w' \<Longrightarrow> milder w (snd (update_live at f t w'))"
  by simp

lemma task_keeps:
  "keeps w (prepare_workspace at existing generation prepared t w)"
  "keeps w (resume_session s t w)" "keeps w (place_attempt at runner placement t w)"
  "keeps w (spawn_process at identity t w)" "keeps w (start_child t w)"
  "keeps w (apply_event redact payload at ev t w)" "keeps w (start_rejected redact at previously ev t w)"
  "keeps w (attempt_exited at t w)" "keeps w (switch_account label account t w)"
proof -
  show "keeps w (prepare_workspace at existing generation prepared t w)"
    unfolding prepare_workspace_def Let_def split_beta
    by (rule keeps_task) (simp_all add: milder_patch_trans mild_def)
  show "keeps w (resume_session s t w)"
    unfolding resume_session_def by (rule keeps_same) (simp_all add: milder_patch_trans mild_def)
  show "keeps w (place_attempt at runner placement t w)"
    unfolding place_attempt_def Let_def split_beta
    by (rule keeps_task) (simp_all add: milder_patch_trans mild_def)
  show "keeps w (spawn_process at identity t w)"
    unfolding spawn_process_def Let_def split_beta
    by (rule keeps_task) (simp_all add: milder_patch_trans mild_def)
  show "keeps w (start_child t w)"
    unfolding start_child_def by (rule keeps_task) simp_all
  show "keeps w (apply_event redact payload at ev t w)"
    unfolding apply_event_def Let_def split_beta
    by (rule keeps_task) (simp_all add: milder_patch_trans mild_def)
  show "keeps w (start_rejected redact at previously ev t w)"
    unfolding start_rejected_def Let_def split_beta
    by (rule keeps_task) (simp_all add: milder_patch_trans mild_def)
  show "keeps w (attempt_exited at t w)"
    unfolding attempt_exited_def by (rule keeps_task) simp_all
  show "keeps w (switch_account label account t w)"
    unfolding switch_account_def Let_def by (rule keeps_task) (simp_all add: milder_patch_trans mild_def split: option.splits)
qed

lemma fence_attempt_keeps: "keeps w (fence_attempt confirmed t w)"
  unfolding fence_attempt_def by (auto intro!: keeps_task simp: fence_milder split: sum.splits)

lemma finish_keeps: "keeps w (finish redact at shutdown ex out has_session t w)"
  unfolding finish_def Let_def by (auto intro!: keeps_task milder_patch simp: mild_def split: option.splits)

lemma fence_task_keeps: "keeps w (fence_task at confirmed t w)"
  unfolding fence_task_def Let_def split_beta
  by (auto intro!: keeps_task milder_patch_trans simp: fence_milder mild_def split: sum.splits option.splits)

lemma patch_settled_pass [simp]: "rw_pass (patch_settled se w) = rw_pass w"
  by (simp add: patch_settled_def split: json.splits)

lemma settled_saved_milder: "milder w (case x of Some se \<Rightarrow> patch_settled se w | None \<Rightarrow> w)"
  by (simp add: patch_settled_milder split: option.splits)

lemma settled_saved_pass: "rw_pass (case x of Some se \<Rightarrow> patch_settled se w | None \<Rightarrow> w) = rw_pass w"
  by (simp split: option.splits)

lemma requeue_move_milder:
  "milder w w' \<Longrightarrow> milder w (snd (requeue_pending_move at t w'))"
  "rw_pass (snd (requeue_pending_move at t w')) = rw_pass w'"
  by (simp_all add: requeue_pending_move_def Let_def split_beta milder_patch_trans mild_def)

lemma release_task_keeps: "keeps w (release_task at fenced t w)"
  unfolding release_task_def Let_def
  by (simp add: keeps_def requeue_move_milder settled_saved_milder settled_saved_pass)

lemma requeue_after_error_keeps:
  assumes "requeue_after_error lease w = Inr w'"
  shows "keeps w w'"
  using assms
  by (auto simp: requeue_after_error_def rbind_Inr_iff Let_def keeps_def milder_patch_trans mild_def store_checkpoint_def
      split: option.splits)

section \<open>Retries\<close>

lemma attempts_put: "is_object v \<Longrightarrow> k \<noteq> ''attempt'' \<Longrightarrow> attempts (obj_put k x v) = attempts v"
  by (simp add: attempts_def previous_attempt_def jat_def jget_obj_put)

lemma retry_typed_attempts: "retry_typed v \<longleftrightarrow> v = JNull \<or> (is_object v \<and> 1 \<le> attempts v \<and> attempts v \<le> MAX_ATTEMPTS)"
  by (auto simp: retry_typed_def attempts_def)

lemma attempts_retry:
  "rt_attempt r \<le> MAX_ATTEMPTS \<Longrightarrow> attempts (retry_value r) = rt_attempt r"
  by (simp add: attempts_def retry_value_def previous_attempt_def jat_def as_u64_JNum u64_ok_def MAX_ATTEMPTS_def)

lemma retry_value_object [simp]: "is_object (retry_value r)" "retry_value r \<noteq> JNull"
  by (simp_all add: retry_value_def)

lemma retry_next_typed:
  assumes "retry_next (if is_object v then Some v else None) ca at jitter = Some r"
  shows "retry_typed (retry_value r)" "attempts (retry_value r) = Suc (attempts v)"
proof -
  have "rt_attempt r = Suc (attempts v)" "rt_attempt r \<le> MAX_ATTEMPTS"
    using assms by (auto simp: retry_next_def Let_def attempts_def split: if_splits)
  then show "retry_typed (retry_value r)" "attempts (retry_value r) = Suc (attempts v)"
    by (simp_all add: retry_typed_attempts attempts_retry)
qed

lemma patch_core:
  assumes "is_object (rw_run w)" "distinct (map fst ps)" "map_of ps ''status'' = Some (status_value st)"
    and "map_of ps ''retry'' = Some v" "v \<noteq> JNull" "retry_typed v"
  shows "doc_typed (rw_run (patch_doc ps w))" "jat (rw_run (patch_doc ps w)) ''retry'' = v"
    "rw_retries (patch_doc ps w) = rw_retries w"
proof -
  show j: "jat (rw_run (patch_doc ps w)) ''retry'' = v" using assms by (simp add: jat_patch)
  have "status_of (rw_run (patch_doc ps w)) = Some st" using assms(3) status_patch [OF assms(1,2)] by simp
  then show "doc_typed (rw_run (patch_doc ps w))" using assms(1,6) j by (simp add: doc_typed_def)
  show "rw_retries (patch_doc ps w) = rw_retries w" using assms(4,5) by (simp add: patch_doc_def)
qed

lemma schedule_retry_core:
  assumes c: "core w" and s: "schedule_retry at jitter shutdown err t w = Some w'"
  shows "core w'" "rw_pass w' = rw_pass w"
proof -
  obtain ca r why where r: "retry_next (if is_object (jat (rw_run w) ''retry'') then Some (jat (rw_run w) ''retry'') else None)
      ca at jitter = Some r"
    and w': "w' = (patch_doc [(''status'', status_value Queued), (''retry'', retry_value r),
        (''recoveryPending'', JBool True), (''resumeAvailable'', JBool True), (''finishedAt'', JNull),
        (''error'', JNull), (''accountWaitReason'', why), (''accountRequired'', JNull)] w)
        \<lparr>rw_retries := Suc (rw_retries w)\<rparr>"
    using s by (auto simp: schedule_retry_def Let_def split: if_splits option.splits)
  note n = retry_next_typed [OF r]
  define ps where "ps = [(''status'', status_value Queued), (''retry'', retry_value r),
        (''recoveryPending'', JBool True), (''resumeAvailable'', JBool True), (''finishedAt'', JNull),
        (''error'', JNull), (''accountWaitReason'', why), (''accountRequired'', JNull)]"
  have o: "is_object (rw_run w)" and b: "rw_retries w \<le> attempts (jat (rw_run w) ''retry'')"
    using c by (simp_all add: core_def doc_typed_def)
  have "distinct (map fst ps)" "map_of ps ''status'' = Some (status_value Queued)"
    "map_of ps ''retry'' = Some (retry_value r)" by (simp_all add: ps_def)
  note p = patch_core [OF o this _ n(1)]
  show "core w'" "rw_pass w' = rw_pass w"
    using p n b by (simp_all add: w' core_def ps_def [symmetric])
qed

lemma record_failure_core:
  assumes c: "core w"
  shows "core (record_failure redact at jitter shutdown e t w)"
    "rw_pass (record_failure redact at jitter shutdown e t w) = rw_pass w"
    "rw_task (record_failure redact at jitter shutdown e t w) = Some t' \<Longrightarrow> tk_phase t' = Fencing"
proof -
  have f: "mild (failure_patch at st nf summary)" for st nf summary
    by (simp add: mild_def failure_patch_def Let_def)
  have m: "milder w w' \<Longrightarrow> core w'" for w' using c by (simp add: milder_def)
  have "milder w (report_capacity_wait run d (patch_doc
      [(''status'', status_value Queued), (''recoveryPending'', JBool True), (''finishedAt'', JNull)] w))" for run d
    by (rule milder_trans [OF _ waits_milder(2)]) (simp add: milder_patch mild_def)
  note cap = m [OF this]
  show "core (record_failure redact at jitter shutdown e t w)"
    using schedule_retry_core(1) [OF c] cap m [OF milder_patch_trans [OF _ f]]
    unfolding record_failure_def Let_def split_beta by (simp split: option.splits)
  show "rw_pass (record_failure redact at jitter shutdown e t w) = rw_pass w"
    using schedule_retry_core(2) [OF c]
    unfolding record_failure_def Let_def split_beta by (simp add: waits_task split: option.splits)
  show "rw_task (record_failure redact at jitter shutdown e t w) = Some t' \<Longrightarrow> tk_phase t' = Fencing"
    unfolding record_failure_def Let_def split_beta by (auto split: option.splits if_splits)
qed

lemma mark_running_core:
  assumes t: "typed w" "rw_task w = Some t" "tk_phase t = Starting"
  shows "core (mark_running at account account_name t w)"
proof -
  have c: "core w" and l: "listed_ok w (tk_run t)" using t by (simp_all add: typed_def)
  define v where "v = jat (tk_run t) ''retry''"
  define w1 where "w1 = snd (update_live at (\<lambda>c. c) t w)"
  define ps where "ps = [(''status'', status_value Running),
     (''startedAt'', JNum (case as_i64 (jat (tk_run t) ''startedAt'') of None \<Rightarrow> at | Some n \<Rightarrow> n)),
     (''finishedAt'', JNull), (''accountWaitReason'', JNull), (''accountRequired'', JNull),
     (''accountId'', nullable JStr account), (''accountName'', account_name)]"
  define qs where "qs = (if is_object v then [(''retry'', obj_put ''nextAttemptAt'' JNull v)] else [])"
  have w': "core (mark_running at account account_name t w) = core (patch_doc (ps @ qs) w1)"
    by (simp add: mark_running_def Let_def split_beta v_def w1_def ps_def qs_def)
  have c1: "core w1" using c by (simp add: w1_def)
  show ?thesis
  proof (cases "is_object v")
    case False
    then have "mild (ps @ qs)" by (simp add: qs_def ps_def mild_def)
    then show ?thesis using mild_patch(1) [OF c1] w' by simp
  next
    case True
    have o: "is_object (rw_run w1)" using c1 by (simp add: core_def doc_typed_def)
    have a: "attempts (obj_put ''nextAttemptAt'' JNull v) = attempts v" using True by (simp add: attempts_put)
    have n: "is_object (obj_put ''nextAttemptAt'' JNull v)" using True by simp
    have rt: "retry_typed (obj_put ''nextAttemptAt'' JNull v)"
      using l n a True unfolding listed_ok_def v_def [symmetric] retry_typed_attempts by auto
    have "distinct (map fst (ps @ qs))" "map_of (ps @ qs) ''status'' = Some (status_value Running)"
      "map_of (ps @ qs) ''retry'' = Some (obj_put ''nextAttemptAt'' JNull v)"
      using True by (simp_all add: ps_def qs_def)
    moreover have "obj_put ''nextAttemptAt'' JNull v \<noteq> JNull" using True by (cases v) (simp_all add: obj_put_def)
    ultimately have p: "doc_typed (rw_run (patch_doc (ps @ qs) w1))"
      "jat (rw_run (patch_doc (ps @ qs) w1)) ''retry'' = obj_put ''nextAttemptAt'' JNull v"
      "rw_retries (patch_doc (ps @ qs) w1) = rw_retries w1"
      using patch_core [OF o] rt by blast+
    have "rw_retries w \<le> attempts v" using l by (simp add: listed_ok_def v_def)
    then show ?thesis using p a unfolding w' by (simp add: core_def w1_def)
  qed
qed

section \<open>Every step keeps a typed run\<close>

lemma start_task_typed:
  assumes t: "typed w" and p: "rw_pass w = Some (Launchable run)"
  shows "typed (start_task at run w)"
proof -
  have "core w" "listed_ok w run" using t p by (simp_all add: typed_def)
  then show ?thesis
    by (auto simp: start_task_def typed_def core_def listed_ok_def Let_def split: sum.splits option.splits)
qed

lemma list_run_typed: "typed w \<Longrightarrow> rw_task w = None \<Longrightarrow> typed (w\<lparr>rw_pass := Some (Listed (rw_run w))\<rparr>)"
  by (simp add: typed_def listed_ok_def core_def doc_typed_def)

lemma fails_keeps: "keeps w (with_task (t, w) p)" if "p \<noteq> Starting"
  by (rule keeps_task) (use that in simp_all)

lemma heartbeat_keeps: "rw_task w = Some t \<Longrightarrow> keeps w (with_task (update_live at f t w) (tk_phase t))"
  by (simp add: keeps_def)

lemma access_keeps: "keeps w (patch_doc [(''snapshot'', sn)] w)" "keeps w (patch_doc [(''moveRequest'', sn)] w)"
  by (rule keeps_same; simp add: milder_patch mild_def)+

lemma release_breaks_keeps:
  "keeps w (with_task (t, case x of Some se \<Rightarrow> patch_settled se w | None \<Rightarrow> w) Broken)"
  by (rule keeps_task) (simp_all add: settled_saved_milder settled_saved_pass)

lemmas pass_keeps = keeps_pass_none [OF waits_milder(1) waits_task(1)] keeps_pass_none [OF waits_milder(2) waits_task(2)]
  keeps_pass_none [OF waits_milder(3) waits_task(3)] keeps_pass_none [OF milder_refl refl]
  keeps_pass_none [OF fail_transfer_milder] keeps_pass_none [OF resume_at_destination_milder]

lemma worker_step_keeps:
  assumes "worker_step redact payload w w'"
  shows "keeps w w' \<or> (rw_task w = None \<and> w' = w\<lparr>rw_pass := Some (Listed (rw_run w))\<rparr>) \<or>
    (\<exists>at run. rw_pass w = Some (Launchable run) \<and> w' = start_task at run w) \<or>
    (\<exists>at account name t. rw_task w = Some t \<and> tk_phase t = Starting \<and> w' = mark_running at account name t w) \<or>
    (\<exists>at jitter shutdown e t. rw_task w = Some t \<and> w' = record_failure redact at jitter shutdown e t w)"
  using assms
proof (cases rule: worker_step.cases)
  case (pass_fences run confirmed w1)
  then have "keeps w w'" using fence_milder [OF pass_fences(4)] keeps_pass [of w w1] by simp
  then show ?thesis by blast
next
  case (settles run at ready w1)
  then have "keeps w w'"
    using settle_recovery_milder [OF settles(3)] keeps_pass [of w w1] keeps_pass_none [of w w1] by simp
  then show ?thesis by blast
next
  case (recovered run at ready w1)
  then have "keeps w w'"
    using finish_recovery_milder [OF recovered(3)] keeps_pass [of w w1] keeps_pass_none [of w w1] by simp
  then show ?thesis by blast
next
  case (no_recovery run)
  then have "keeps w w'" using keeps_pass [OF milder_refl refl] by simp
  then show ?thesis by blast
next
  case (admits run at)
  then have "keeps w w'" using keeps_pass [OF milder_refl refl] by simp
  then show ?thesis by blast
next
  case (acquires run)
  then have "keeps w w'" using keeps_pass [OF milder_refl refl] by simp
  then show ?thesis by blast
next
  case (records t e at jitter shutdown)
  then show ?thesis by blast
qed (auto intro: restore_keeps request_cancel_keeps requeue_keeps continue_run_keeps record_request_keeps pass_keeps
  task_keeps fence_attempt_keeps finish_keeps fence_task_keeps release_task_keeps requeue_after_error_keeps fails_keeps
  heartbeat_keeps access_keeps release_breaks_keeps)

theorem typed_step:
  assumes s: "worker_step redact payload w w'" and i: "exec_inv w" and t: "typed w"
  shows "typed w'"
  using worker_step_keeps [OF s]
proof (elim disjE exE conjE)
  assume "keeps w w'"
  then show ?thesis using t by (rule keeps_typed)
next
  assume "rw_task w = None" "w' = w\<lparr>rw_pass := Some (Listed (rw_run w))\<rparr>"
  then show ?thesis using list_run_typed [OF t] by simp
next
  fix at run assume "rw_pass w = Some (Launchable run)" "w' = start_task at run w"
  then show ?thesis using start_task_typed [OF t] by simp
next
  fix at account name t0 assume a: "rw_task w = Some t0" "tk_phase t0 = Starting" "w' = mark_running at account name t0 w"
  then have "core w'" using mark_running_core [OF t] by simp
  moreover have "rw_pass w = None" using inv_parts(7) [OF i] a(1) by simp
  ultimately show ?thesis by (simp add: a(3) mark_running_def Let_def split_beta typed_def)
next
  fix at jitter shutdown e t0 assume a: "rw_task w = Some t0" "w' = record_failure redact at jitter shutdown e t0 w"
  have c: "core w" using t by (simp add: typed_def)
  have "rw_pass w = None" using inv_parts(7) [OF i] a(1) by simp
  then show ?thesis
    using record_failure_core [OF c, where redact = redact and at = at and jitter = jitter and shutdown = shutdown
        and e = e and t = t0]
    by (auto simp: a(2) typed_def split: option.splits)
qed

end
