(* ===== verification/Run_Props.thy ===== *)
theory Run_Props
  imports Run_Typed
begin

text \<open>
  What holds of a run in every state the worker can reach, through restarts, cancellations, retries and moves:
  at most one machine attempt executes, the document stays typed, and the automatic retries are bounded.
\<close>

section \<open>Reachable states\<close>

lemma new_run_status [simp]:
  "is_object (new_run run task project trigger at sn)"
  "status_of (new_run run task project trigger at sn) = Some Queued"
  "jat (new_run run task project trigger at sn) ''retry'' = JNull"
  by (simp_all add: new_run_def status_of_def jat_def)

lemma chat_run_status [simp]:
  "status_of (obj_put ''chatExecution'' ex (new_run run task project trigger at sn)) = Some Queued"
  "jat (obj_put ''chatExecution'' ex (new_run run task project trigger at sn)) ''retry'' = JNull"
proof -
  have j: "jat (obj_put ''chatExecution'' ex r) k = jat r k" if "is_object r" "k \<noteq> ''chatExecution''" for r k
    using that by (simp add: jat_def jget_obj_put)
  show "status_of (obj_put ''chatExecution'' ex (new_run run task project trigger at sn)) = Some Queued"
    using new_run_status(2) [of run task project trigger at sn] by (simp add: status_of_def j)
  show "jat (obj_put ''chatExecution'' ex (new_run run task project trigger at sn)) ''retry'' = JNull" by (simp add: j)
qed

lemma new_world_inv: "is_object run \<Longrightarrow> exec_inv (new_world run)"
  by (simp add: new_world_def exec_inv_def docs_ok_def alive_ok_def pass_ok_def idle_ok_def)

lemma new_world_typed:
  "is_object run \<Longrightarrow> status_of run = Some Queued \<Longrightarrow> jat run ''retry'' = JNull \<Longrightarrow> typed (new_world run)"
  by (simp add: new_world_def typed_def core_def doc_typed_def retry_typed_def)

lemma worker_inv:
  assumes "worker_reachable redact payload w"
  shows "exec_inv w \<and> typed w"
  using assms
proof induction
  case (step w w')
  then show ?case using exec_inv_step typed_step by blast
qed (simp_all add: new_world_inv new_world_typed)

section \<open>A cancellation after a restart\<close>

lemma restart_idle:
  "rw_task (restore_after_restart at w) = None" "rw_pass (restore_after_restart at w) = None"
  by (simp_all add: restore_after_restart_def Let_def)

lemma cancel_recorded:
  assumes i: "exec_inv w" and t: "rw_task w = None" and c: "request_cancel at w = Inr w1" and s: "status_of (rw_run w) \<noteq> Some Running"
  shows "status_of (rw_run w1) = Some Cancelled \<or>
    (status_of (rw_run w1) = Some Queued \<and> recovering (rw_run w1) \<and> cancel_requested (rw_run w1))"
    "rw_task w1 = None" "rw_pass w1 = rw_pass w"
proof -
  note o = inv_parts(1) [OF i]
  have q: "status_of (rw_run w) = Some Queued"
    using c s by (auto simp: request_cancel_def run_active_def Let_def split: if_splits option.splits elim: status_active.elims)
  define w0 where "w0 = patch_doc [(''cancelRequestedAt'', JNum at)] w"
  define v where "v = patch_doc [(''status'', status_value Cancelled), (''finishedAt'', JNum at),
    (''summary'', JStr ''Cancelled before execution.''), (''retry'', JNull)] w0"
  have w1: "w1 = (if recovering (rw_run w) then w0\<lparr>rw_task := None\<rparr> else v\<lparr>rw_task := None\<rparr>)"
    using c t by (auto simp: request_cancel_def w0_def v_def Let_def split: if_splits)
  have "status_of (rw_run w0) = Some Queued" "recovering (rw_run w0) = recovering (rw_run w)" "cancel_requested (rw_run w0)"
    using o q by (simp_all add: w0_def patched cancel_requested_def jat_patch)
  moreover have "status_of (rw_run v) = Some Cancelled" using o by (simp add: v_def w0_def patched)
  ultimately show "status_of (rw_run w1) = Some Cancelled \<or>
    (status_of (rw_run w1) = Some Queued \<and> recovering (rw_run w1) \<and> cancel_requested (rw_run w1))"
    by (simp add: w1)
  show "rw_task w1 = None" "rw_pass w1 = rw_pass w" by (simp_all add: w1 w0_def v_def)
qed

lemma restart_not_running:
  assumes "is_object (rw_run w)"
  shows "status_of (rw_run (restore_after_restart at w)) \<noteq> Some Running"
proof (cases "run_active (rw_run w) \<and> status_of (rw_run w) = Some Running")
  case True
  then show ?thesis using assms by (simp add: restore_after_restart_def Let_def patched)
next
  case False
  then have "status_of (rw_run w) \<noteq> Some Running" by (auto simp: run_active_def)
  then show ?thesis using False assms by (auto simp: restore_after_restart_def Let_def patched run_active_def)
qed

text \<open>One pass, once the fence is confirmed, settles a cancelled run that was queued for recovery.\<close>

lemma cancelled_recovers:
  assumes i: "exec_inv w" and w: "rw_task w = None" "rw_pass w = None" "status_of (rw_run w) = Some Queued"
    "recovering (rw_run w)" "cancel_requested (rw_run w)"
  shows "\<exists>w'. (worker_step redact payload)\<^sup>*\<^sup>* w w' \<and> status_of (rw_run w') = Some Cancelled"
proof -
  define w1 where "w1 = w\<lparr>rw_pass := Some (Listed (rw_run w))\<rparr>"
  have s1: "worker_step redact payload w w1"
    unfolding w1_def by (rule worker_step.list_run) (use w in simp_all)
  obtain saved where l: "load_checkpoint (rw_kv w) = Inr saved" using load_total inv_parts(2) [OF i] by blast
  obtain w2 where f: "fence (rw_run w) True w1 = Inr w2" by (simp add: fence_def w1_def l Let_def)
  have e: "rw_run w2 = rw_run w"
    using f by (auto simp: fence_def w1_def l Let_def store_checkpoint_def split: option.splits if_splits)
  define w3 where "w3 = w2\<lparr>rw_pass := Some (Fenced (rw_run w))\<rparr>"
  have s2: "worker_step redact payload w1 w3"
    unfolding w3_def by (rule worker_step.pass_fences [OF _ _ f]) (use w in \<open>simp_all add: w1_def\<close>)
  have r: "settle_recovery at w3 = Inr (False, patch_doc (cancelled_recovery at) w3)" for at
    using w(5) by (simp add: settle_recovery_def w3_def e)
  have s3: "worker_step redact payload w3 ((patch_doc (cancelled_recovery 0) w3)\<lparr>rw_pass := None\<rparr>)"
    using worker_step.settles [OF _ r, where run = "rw_run w"] by (simp add: w3_def)
  have "status_of (rw_run ((patch_doc (cancelled_recovery 0) w3)\<lparr>rw_pass := None\<rparr>)) = Some Cancelled"
    using inv_parts(1) [OF i] by (simp add: w3_def e cancelled_recovery_def patched)
  then show ?thesis using s1 s2 s3 by (meson converse_rtranclp_into_rtranclp rtranclp.rtrancl_refl)
qed

section \<open>A run in execution\<close>

definition demo_listed :: run_world where
  "demo_listed = (let w = new_world (new_run ''run-1'' ''task-1'' ''project-1'' ''manual'' 5 (JObj []))
                  in w\<lparr>rw_pass := Some (Listed (rw_run w))\<rparr>)"

definition on_task :: "(worker_task \<Rightarrow> run_world \<Rightarrow> run_world) \<Rightarrow> run_world \<Rightarrow> run_world" where
  "on_task f w = (case rw_task w of None \<Rightarrow> w | Some t \<Rightarrow> f t w)"

definition demo_launchable :: run_world where
  "demo_launchable = demo_listed\<lparr>rw_pass := Some (Launchable (rw_run demo_listed))\<rparr>"

definition demo_started :: run_world where
  "demo_started = start_task 10 (rw_run demo_listed) demo_launchable"

definition demo_prepared :: run_world where
  "demo_prepared = on_task (prepare_workspace 12 False [] (JObj [(''isolated'', JBool True)]))
     (on_task (mark_running 11 None JNull) demo_started)"

definition demo_spawned :: run_world where
  "demo_spawned = on_task (spawn_process 14 None)
     (on_task (place_attempt 13 ''attempt-1'' (JObj [(''nodeId'', JStr ''local'')])) demo_prepared)"

definition demo_executing :: run_world where
  "demo_executing = on_task start_child demo_spawned"

definition phase_of :: "run_world \<Rightarrow> task_phase option" where
  "phase_of w = map_option tk_phase (rw_task w)"

lemma on_task_reachable:
  assumes "worker_reachable redact payload w" "phase_of w = Some p"
    and "\<And>t. rw_task w = Some t \<Longrightarrow> tk_phase t = p \<Longrightarrow> worker_step redact payload w (f t w)"
  shows "worker_reachable redact payload (on_task f w)"
  using assms worker_reachable.step by (fastforce simp: on_task_def phase_of_def)

lemma demo_phases:
  "phase_of demo_started = Some Starting" "phase_of demo_prepared = Some Preparing"
  "phase_of (on_task (mark_running 11 None JNull) demo_started) = Some Preparing"
  "phase_of demo_spawned = Some Spawned"
  "phase_of (on_task (place_attempt 13 ''attempt-1'' (JObj [(''nodeId'', JStr ''local'')])) demo_prepared) = Some Placed"
  by code_simp+

definition on_machine :: "run_world \<Rightarrow> bool" where
  "on_machine w = (case rw_task w of None \<Rightarrow> False | Some t \<Rightarrow> cp_isolated (tk_live t))"

lemma demo_machines:
  "on_machine demo_prepared"
  "on_machine (on_task (place_attempt 13 ''attempt-1'' (JObj [(''nodeId'', JStr ''local'')])) demo_prepared)"
  by code_simp+

lemma demo_launchable_reachable: "worker_reachable redact payload demo_launchable"
proof -
  define w where "w = new_world (new_run ''run-1'' ''task-1'' ''project-1'' ''manual'' 5 (JObj []))"
  define run where "run = rw_run w"
  have w0: "worker_reachable redact payload w" unfolding w_def by (rule worker_reachable.queued)
  have d: "demo_listed = w\<lparr>rw_pass := Some (Listed run)\<rparr>" by (simp add: demo_listed_def w_def run_def Let_def)
  have s: "rw_pass w = None" "rw_task w = None" "status_of run = Some Queued" "\<not> recovering run" "\<not> retry_waiting run 9"
    by (simp_all add: w_def run_def new_world_def recovering_def retry_waiting_def)
      (simp_all add: new_run_def jat_def)
  have w1: "worker_reachable redact payload demo_listed"
    unfolding d run_def by (rule worker_reachable.step [OF w0 worker_step.list_run]) (use s run_def in simp_all)
  have w2: "worker_reachable redact payload (demo_listed\<lparr>rw_pass := Some (Recovered run)\<rparr>)"
    by (rule worker_reachable.step [OF w1 worker_step.no_recovery]) (use s in \<open>simp_all add: d\<close>)
  have w3: "worker_reachable redact payload (demo_listed\<lparr>rw_pass := Some (Recovered run)\<rparr>\<lparr>rw_pass := Some (Admitted run)\<rparr>)"
    by (rule worker_reachable.step [OF w2 worker_step.admits [where at = 9]]) (use s in \<open>simp_all add: d run_def\<close>)
  have w4: "worker_reachable redact payload (demo_listed\<lparr>rw_pass := Some (Recovered run)\<rparr>\<lparr>rw_pass := Some (Admitted run)\<rparr>
      \<lparr>rw_pass := Some (Launchable run)\<rparr>)"
    by (rule worker_reachable.step [OF w3 worker_step.acquires]) (use s in \<open>simp_all add: d run_def\<close>)
  then show ?thesis by (simp add: demo_launchable_def d run_def)
qed

lemma demo_started_reachable: "worker_reachable redact payload demo_started"
  unfolding demo_started_def
  by (rule worker_reachable.step [OF demo_launchable_reachable worker_step.launches]) (simp add: demo_launchable_def)

lemma demo_reachable: "worker_reachable redact payload demo_executing"
proof -
  have m: "worker_reachable redact payload (on_task (mark_running 11 None JNull) demo_started)"
    by (rule on_task_reachable [OF demo_started_reachable demo_phases(1)]) (rule worker_step.marks)
  have p: "worker_reachable redact payload demo_prepared"
    unfolding demo_prepared_def by (rule on_task_reachable [OF m demo_phases(3)]) (rule worker_step.prepares)
  have a: "worker_reachable redact payload (on_task (place_attempt 13 ''attempt-1'' (JObj [(''nodeId'', JStr ''local'')])) demo_prepared)"
    by (rule on_task_reachable [OF p demo_phases(2)], rule worker_step.places)
      (use demo_machines(1) in \<open>simp_all add: on_machine_def\<close>)
  have "worker_reachable redact payload demo_spawned"
    unfolding demo_spawned_def
    by (rule on_task_reachable [OF a demo_phases(5)], rule worker_step.spawns)
      (use demo_machines(2) in \<open>simp_all add: on_machine_def\<close>)
  then show ?thesis
    unfolding demo_executing_def by (rule on_task_reachable [OF _ demo_phases(4)]) (rule worker_step.starts)
qed

text \<open>The agent of the attempt fails with a server error, and the worker schedules the first retry.\<close>

definition demo_failure :: json where
  "demo_failure = JObj [(''error'', JObj [(''code'', JStr ''server_error''), (''message'', JStr ''Overloaded'')]),
     (''type'', JStr ''turn.failed'')]"

definition demo_events :: run_world where
  "demo_events = on_task (apply_event (\<lambda>s. s) (\<lambda>v. v) 21 demo_failure)
     (on_task (apply_event (\<lambda>s. s) (\<lambda>v. v) 20
        (JObj [(''thread_id'', JStr ''thread-1''), (''type'', JStr ''thread.started'')])) demo_executing)"

definition demo_stopped :: run_world where
  "demo_stopped = on_task (fence_attempt True) (on_task (attempt_exited 22) demo_events)"

definition demo_exit :: attempt_exit where
  "demo_exit = \<lparr>ex_code = Some 1, ex_timed_out = False, ex_exhausted = False\<rparr>"

definition demo_failing :: run_world where
  "demo_failing = on_task (\<lambda>t w. finish (\<lambda>s. s) 23 False demo_exit []
     (as_str (jat (rw_run w) ''sessionId'') \<noteq> None) t w) demo_stopped"

definition demo_retried :: run_world where
  "demo_retried = on_task (record_failure (\<lambda>s. s) 24 0 False (Conflict ''Overloaded'')) demo_failing"

definition finishes_attempt :: "run_world \<Rightarrow> bool" where
  "finishes_attempt w = (case rw_task w of None \<Rightarrow> False
     | Some t \<Rightarrow> attempt_outcome False False demo_exit (rw_run w) t = Attempt_Finish)"

lemma demo_running: "phase_of demo_executing = Some Executing"
  by code_simp

lemma demo_identified: "phase_of (on_task (apply_event (\<lambda>s. s) (\<lambda>v. v) 20
     (JObj [(''thread_id'', JStr ''thread-1''), (''type'', JStr ''thread.started'')])) demo_executing) = Some Executing"
  by code_simp

lemma demo_failed: "phase_of demo_events = Some Executing"
  by code_simp

lemma demo_exited: "phase_of (on_task (attempt_exited 22) demo_events) = Some Exited"
  by code_simp

lemma demo_fenced: "phase_of demo_stopped = Some Stopped"
  by code_simp

lemma demo_finishes: "finishes_attempt demo_stopped"
  by code_simp

lemma demo_reported: "phase_of demo_failing = Some (Failing (Conflict ''Overloaded''))"
  by code_simp

lemmas demo_failure_phases = demo_running demo_identified demo_failed demo_exited demo_fenced demo_finishes demo_reported

lemma demo_retried_reachable: "worker_reachable (\<lambda>s. s) (\<lambda>v. v) demo_retried"
proof -
  note p = demo_failure_phases
  have "worker_reachable (\<lambda>s. s) (\<lambda>v. v) demo_events"
    unfolding demo_events_def
    by (rule on_task_reachable [OF on_task_reachable [OF demo_reachable p(1)] p(2)]; rule worker_step.event)
  then have "worker_reachable (\<lambda>s. s) (\<lambda>v. v) (on_task (attempt_exited 22) demo_events)"
    by (rule on_task_reachable [OF _ p(3)]) (rule worker_step.exits)
  then have "worker_reachable (\<lambda>s. s) (\<lambda>v. v) demo_stopped"
    unfolding demo_stopped_def by (rule on_task_reachable [OF _ p(4)]) (rule worker_step.attempt_fenced)
  then have "worker_reachable (\<lambda>s. s) (\<lambda>v. v) demo_failing"
    unfolding demo_failing_def
    by (rule on_task_reachable [OF _ p(5)], intro worker_step.finishes [where has_account = False])
      (use p(6) in \<open>simp_all add: finishes_attempt_def\<close>)
  then show ?thesis
    unfolding demo_retried_def by (rule on_task_reachable [OF _ p(7)]) (rule worker_step.records)
qed

section \<open>A cancellation between the last check and the launch\<close>

text \<open>
  The pass reads the status for the last time before it takes the lock of the active runs. A cancellation in
  between finds no active task, records the run as cancelled, and is overwritten when the task marks the run
  running; the token of the task is not cancelled.
\<close>

definition demo_cancelled :: run_world where
  "demo_cancelled = (case request_cancel 9 demo_launchable of Inl e \<Rightarrow> demo_launchable | Inr w \<Rightarrow> w)"

definition demo_unheard :: run_world where
  "demo_unheard = on_task (mark_running 11 None JNull) (start_task 10 (rw_run demo_listed) demo_cancelled)"

lemma lost_cancellation:
  "worker_reachable redact payload demo_unheard \<and> status_of (rw_run demo_cancelled) = Some Cancelled \<and>
   status_of (rw_run demo_unheard) = Some Running \<and> cancel_requested (rw_run demo_unheard) \<and>
   map_option tk_cancelled (rw_task demo_unheard) = Some False"
proof (intro conjI)
  have "request_cancel 9 demo_launchable = Inr demo_cancelled" by code_simp
  then have "worker_reachable redact payload demo_cancelled"
    by (rule worker_reachable.step [OF demo_launchable_reachable worker_step.cancel])
  moreover have "rw_pass demo_cancelled = Some (Launchable (rw_run demo_listed))" by code_simp
  ultimately have r: "worker_reachable redact payload (start_task 10 (rw_run demo_listed) demo_cancelled)"
    by (rule worker_reachable.step [OF _ worker_step.launches])
  have "phase_of (start_task 10 (rw_run demo_listed) demo_cancelled) = Some Starting" by code_simp
  with r show "worker_reachable redact payload demo_unheard"
    unfolding demo_unheard_def by (rule on_task_reachable) (rule worker_step.marks)
qed code_simp+

section \<open>Properties\<close>



text \<open>
  C14: Type. The document of a run is well typed in every reachable state: it is an object whose status is one
  of the six, and its retry is null or a plan with one to three attempts.
\<close>

theorem run_document_typed:
  assumes "worker_reachable redact payload w"
  shows "doc_typed (rw_run w)"
  using worker_inv [OF assms] by (simp add: typed_def core_def)

lemma run_document_typed_witness: "status_of (rw_run demo_executing) = Some Running \<and> doc_typed (rw_run demo_executing)"
proof -
  have "status_of (rw_run demo_executing) = Some Running" by code_simp
  then show ?thesis using run_document_typed [OF demo_reachable] by blast
qed


definition demo_restarted :: run_world where
  "demo_restarted = (case request_cancel 41 (restore_after_restart 40 demo_executing) of Inl e \<Rightarrow> demo_executing | Inr w \<Rightarrow> w)"


text \<open>
  C8: Bounds. However a run fails and is retried, moved or restarted, the worker schedules at most three
  automatic retries between two events that reset the plan (an outcome, a cancellation or a resumption), and
  the attempts the document shows are never fewer than the retries made.
\<close>

theorem automatic_retries_bounded:
  assumes "worker_reachable redact payload w"
  shows "rw_retries w \<le> attempts (jat (rw_run w) ''retry'') \<and> attempts (jat (rw_run w) ''retry'') \<le> MAX_ATTEMPTS"
  using worker_inv [OF assms] attempts_bound by (auto simp: typed_def core_def doc_typed_def)

lemma automatic_retries_bounded_witness:
  "rw_retries demo_retried = 1 \<and> 1 \<le> attempts (jat (rw_run demo_retried) ''retry'') \<and>
   attempts (jat (rw_run demo_retried) ''retry'') \<le> MAX_ATTEMPTS"
proof -
  have "rw_retries demo_retried = 1" by code_simp
  then show ?thesis using automatic_retries_bounded [OF demo_retried_reachable] by simp
qed


end
