(* ===== verification/Spec2Isabelle.thy ===== *)
theory Spec2Isabelle
  imports Reassembly Direct_Verifier Direct_Admission Direct_Signal Lazy_Spec Recovery Block_Cache Placement_Grants Vm_Pool_Props Publication_Props Live_Agree Run_Props
begin

text \<open>
  Verification of the installation side of Cairn (repository \<open>leo-agent-manager\<close>): a service that runs
  agent conversations in micro-VMs on a fleet of nodes, keeps their disks as journals over content-addressed
  blocks, and talks to browsers and phones over a relayed tunnel or a direct peer connection.

  \<^bold>\<open>The parts and how they interact.\<close> The tunnel protocol (\<open>crates/protocol\<close>) frames requests and
  responses; on a direct connection frames are split into packets, reassembled under shared memory quotas, and
  admitted only with a signed authorization. The service places each conversation on a node
  (\<open>nodes/placement.rs\<close>), within slots, disk limits and the owner's grants. On the node the conversation's disk
  is a lazy disk (\<open>storage/lazy\<close>): reads merge a write journal with verified base blocks, generations of writes
  are sealed, captured as a manifest of block digests, published and retired. Clean blocks are cached in memory
  and in files (\<open>lazy/memory.rs\<close>, \<open>storage/cache.rs\<close>) under the node's policy and budget
  (\<open>storage/policy.rs\<close>, \<open>microvm/budget.rs\<close>).

  \<^bold>\<open>Theories.\<close>
  \<^item> \<open>Prelude\<close>, \<open>Rust_Map\<close>, \<open>Rust_Str\<close>: machine arithmetic, \<open>HashMap\<close> and \<open>BTreeMap\<close> behind the locale
    \<open>keyed_map\<close> (interpreted for both and for the tables of \<open>Store\<close>), string operations of the standard library.
  \<^item> \<open>Protocol\<close>: \<open>protocol/src/lib.rs\<close> (version negotiation, paths, bodies). \<open>Net_Addr\<close>: parsing of addresses.
  \<^item> \<open>Data_Channel\<close>, \<open>Reassembly\<close>: \<open>protocol/src/data_channel.rs\<close>. The decoders of all peers share one
    reservation table; a step relation interleaves their packets, expiry and disconnection.
  \<^item> \<open>Direct\<close>, \<open>Direct_Verifier\<close>, \<open>Direct_Admission\<close>, \<open>Direct_Signal\<close>: \<open>protocol/src/direct.rs\<close>
    (authorizations, revocation, quotas of signals and connections, sanitizing of session descriptions).
  \<^item> \<open>Disk\<close>: \<open>storage/disk.rs\<close>; the locale \<open>disk_contract\<close> says what reads and writes of a byte-addressed disk
    mean, views are proved over it once, and it is interpreted for local files and for lazy disks.
  \<^item> \<open>Manifest\<close>: block digests, filesystem layouts and manifests. \<open>Journal\<close>, \<open>Journal_Index\<close>, \<open>Frames\<close>:
    \<open>lazy/journal.rs\<close> with its records, the index by block and the frames of segment files.
  \<^item> \<open>Lazy_Disk\<close>, \<open>Lazy_Reads\<close>, \<open>Lazy_Writes\<close>, \<open>Lazy_Generations\<close>, \<open>Lazy_Spec\<close>: \<open>lazy/mod.rs\<close>,
    \<open>lazy/generations.rs\<close>. \<open>Lazy_Spec\<close> has the abstract disk (present bytes, sealed generations) and the
    refinement.
  \<^item> \<open>Recovery\<close>: the frames a segment file holds, what the scan at open makes of them, and what a torn last write leaves.
  \<^item> \<open>Node_Policy\<close>: \<open>storage/policy.rs\<close>, \<open>microvm/budget.rs\<close>. \<open>Block_Cache\<close>: \<open>lazy/memory.rs\<close>, \<open>storage/cache.rs\<close>.
  \<^item> \<open>Store\<close>, \<open>Placement\<close>, \<open>Placement_Choice\<close>, \<open>Placement_Admission\<close>, \<open>Placement_Grants\<close>: the tables and
    transactions of \<open>store.rs\<close>, and \<open>nodes/placement.rs\<close> with the helpers of \<open>nodes.rs\<close> and \<open>service.rs\<close>; a step
    relation over reservations, releases, materializations, lease renewals and configurations.
  \<^item> \<open>Json\<close>: JSON values as the service reads them, \<open>provider.rs\<close>, \<open>microvm/plan.rs\<close>. \<open>Vm_Pool\<close>,
    \<open>Vm_Pool_Ops\<close>, \<open>Vm_Execute\<close>: \<open>microvm/pool.rs\<close> with \<open>pool/ready.rs\<close> and \<open>pool/retained.rs\<close>; slots, prepared
    and retained machines, admission, preparation, execution, maintenance. \<open>Vm_Pool_Steps\<close> is the abstract step
    relation on the owners of slots, \<open>Vm_Pool_Refine\<close> that every operation is a sequence of its steps,
    \<open>Vm_Pool_Props\<close> the properties.
  \<^item> \<open>Shared_Blocks\<close>, \<open>Shared_Ledger\<close>: \<open>nodes/shared_blocks.rs\<close>, its tables and their invariant. \<open>Disk_Grants\<close>:
    \<open>nodes/disk_grants.rs\<close>. \<open>Publication_Gc\<close>: \<open>nodes/publication.rs\<close>. \<open>Publication_Steps\<close> interleaves
    publications, collections, grants and remote deletions; \<open>Publication_Frame\<close> says what each transaction leaves
    alone, \<open>Publication_Ops\<close>, \<open>Publication_Inv\<close>, \<open>Publication_Collect\<close> that the steps keep the invariant,
    \<open>Publication_Props\<close> the properties.
  \<^item> \<open>Json_Objects\<close>: JSON objects as values that modules patch (\<open>merge\<close> of \<open>store.rs\<close>). \<open>Live_Text\<close>,
    \<open>Live_Stream\<close>, \<open>Live_Agree\<close>: \<open>live_text.rs\<close>, \<open>live.rs\<close> with the event queries of \<open>store.rs\<close>, and the client
    \<open>live-events.ts\<close>; pages, history versions, resets and message deltas.
  \<^item> \<open>Run_Doc\<close>: \<open>run_status.rs\<close>, \<open>run_retry.rs\<close>, \<open>run_limits.rs\<close>, \<open>worker/checkpoint.rs\<close>. \<open>Run_Worker\<close>,
    \<open>Run_Task\<close>: the operations of \<open>worker/\<close>, \<open>recovery.rs\<close>, \<open>chats.rs\<close> and \<open>nodes/moves.rs\<close> on one run, each a
    section between two waits. \<open>Run_Steps\<close> interleaves them; \<open>Run_Inv\<close> shows that every step keeps the invariant
    of the execution, \<open>Run_Typed\<close> the types of the run document and the count of retries, \<open>Run_Props\<close> the properties.

  \<^bold>\<open>How state and operations correspond.\<close> A struct is a record with the source's fields behind a prefix, an
  enum a datatype, a method a function from the state to its result and the new state; every early return and
  error is a branch (\<open>Inl\<close>). A mutex is the sequencing of operations; concurrency is the interleaving of their
  steps. The clock, the answers of the file system and of the kernel, hash functions, signatures, UUID parsing
  and block sources are arguments.

  \<^bold>\<open>What is shown.\<close> Storage: every operation of a lazy disk, torn writes and failing syncs included, refines
  the abstract disk; reads return its bytes; a captured manifest describes exactly the sealed generation; views
  are isolated; manifests and layouts stay in bounds. Caches: exact accounting, termination, admission only
  within the budget and above the reserve. Policy: no overflow, no eviction by budgets, balloons keep the floor.
  Protocol: memory stays within quotas for every interleaving, no panic, frames arrive as sent; authorizations
  are not replayed and die with their session, account or installation. Placement: slots, exclusive ownership,
  grants and disk limits hold in every reachable state, the chosen node is optimal, release undoes reserve.
  VM pool: each slot has one owner in every interleaving, calm nodes grant requests, machines with unpublished
  writes and assigned disks are kept, failing preparations back off. Publication: whatever the interleaving of
  uploads, aborted publications, collections and remote deletions, a node reads every block its grant lists, the
  published disk of a conversation is complete, and unreferenced objects are reclaimed. Live stream: message
  deltas give a client the rows complete snapshots would. Runs: through every order of passes, task sections,
  restarts, cancellations and moves one machine attempt executes at most and the checkpoint names it, the
  document stays typed, three automatic retries are the most, and a cancellation after a restart can be carried
  out; a checkpoint is read back as written.
  Recovery: after a torn write the scan of a segment rebuilds the index and counters of the journal before it.
  \<^bold>\<open>Hypotheses and bounds.\<close> Refinement of the lazy disk assumes that a block source returns only bytes that
  match their digest or an error (\<open>honest\<close>), that digests have their fixed size and that one digest does not
  name two different blocks of the disk. Sizes stay below \<open>2^64\<close> where the source uses \<open>u64\<close>; where it wraps or
  saturates the model does. All functions are total: loops terminate by a measure, and the two loops of the
  memory cache that could spin have the value \<open>None\<close> there, which is proved unreachable. Free-slot fractions are
  compared exactly, as the quotients of the source order them for fewer than \<open>2^26\<close> slots.

  \<^bold>\<open>Atomicity.\<close> A transaction of the store, one remote request, and a critical section of the pool are steps. The
  collection of a run reads the grants and the points in one step, as the operation lock of the run excludes
  grants being issued or extended meanwhile; a node acknowledges only a publication its grant was extended with.
  Remote storage returns what was put until it is deleted. The steps of a run are sections of its task between
  two waits, with their consecutive writes; a scheduling pass begins only when no task holds the run, which the
  source does not check for runs on machines (their projects are not locked).

  \<^bold>\<open>Not modelled.\<close> The beacon server, the machines behind the VM pool, transports, block devices and mounts, the
  S3 client, accounts, the messages of chats, MCP and the HTTP interface: they are orchestration around
  processes, sockets, HTTP and SQL. Of moves only the transactions on the run are modelled, of the worker neither
  the supervision of processes nor the choice of accounts, projects and schedules. The registry of caches and the
  per-source fetch locks are not modelled, nor are the on-disk cache and the connection context of a lazy disk's
  reads, the pause of a retained machine for a capture, and the local cache of legacy backup blocks.
\<close>

end
